(* ===== verification/Prelude.thy ===== *)
theory Prelude
  imports Main "HOL-Library.Word" "HOL-Library.Char_ord"
begin

text \<open>
  The vocabulary every other theory uses: C integers at their width, the ways the program
  stops with an error, sequencing of fallible steps, and the decimal numerals that
  \<^verbatim>\<open>fprintf("%d")\<close> and Haskell's \<^verbatim>\<open>show\<close> print.

  C's \<^verbatim>\<open>int\<close> and \<^verbatim>\<open>long\<close> (LP64: 32 and 64 bits, two's complement) are HOL integers;
  \<open>c_int\<close> and \<open>c_long\<close> are the conversions to these types, written where the code
  converts or where a sum may leave the type's range.
\<close>

named_theorems res_simps \<open>equations of fallible steps\<close>
named_theorems text_simps \<open>how the readers act on printed text\<close>

section \<open>Machine integers\<close>

definition c_int :: "int \<Rightarrow> int" where
  "c_int n = signed_take_bit 31 n"

definition c_long :: "int \<Rightarrow> int" where
  "c_long n = signed_take_bit 63 n"

definition int_ok :: "int \<Rightarrow> bool" where
  "int_ok n \<longleftrightarrow> - 2147483648 \<le> n \<and> n < 2147483648"

definition long_ok :: "int \<Rightarrow> bool" where
  "long_ok n \<longleftrightarrow> - 9223372036854775808 \<le> n \<and> n < 9223372036854775808"

lemma c_int_id [simp]: "int_ok n \<Longrightarrow> c_int n = n"
  unfolding c_int_def int_ok_def by (intro signed_take_bit_int_eq_self) simp_all

lemma c_int_small: "0 \<le> n \<Longrightarrow> n < 2 ^ 31 \<Longrightarrow> c_int n = n"
  by (rule c_int_id) (simp add: int_ok_def)

lemma c_long_id [simp]: "long_ok n \<Longrightarrow> c_long n = n"
  unfolding c_long_def long_ok_def by (intro signed_take_bit_int_eq_self) simp_all

lemma c_int_idem: "c_int (c_int n) = c_int n"
  by (simp add: c_int_def)

lemma c_int_cong: "a mod 2 ^ 32 = b mod 2 ^ 32 \<Longrightarrow> c_int a = c_int b"
  unfolding c_int_def by (subst signed_take_bit_eq_iff_take_bit_eq) (simp add: take_bit_eq_mod)

lemma c_int_mod: "c_int n mod 2 ^ 32 = n mod 2 ^ 32"
proof -
  have "na < 32 \<Longrightarrow> min 31 na = na" for na :: nat by simp
  then have "take_bit 32 (c_int n) = take_bit 32 n"
    unfolding c_int_def by (intro bit_eqI) (auto simp: bit_simps)
  then show ?thesis by (simp add: take_bit_eq_mod)
qed

lemma c_int_plus: "c_int (c_int n + k) = c_int (n + k)"
  by (rule c_int_cong) (metis c_int_mod mod_add_left_eq)

lemma c_int_plus_right: "c_int (k + c_int n) = c_int (k + n)"
  by (metis add.commute c_int_plus)

lemma c_int_zero [simp]: "c_int 0 = 0"
  by (rule c_int_small) simp_all

lemma c_int_times: "c_int (c_int n * k) = c_int (n * k)"
  by (rule c_int_cong) (metis c_int_mod mod_mult_left_eq)

lemma int_ok_c_int [simp]: "int_ok (c_int n)"
  using signed_take_bit_int_greater_eq_minus_exp [of 31 n] signed_take_bit_int_less_exp [of 31 n]
  by (simp add: c_int_def int_ok_def)

lemma long_ok_c_long [simp]: "long_ok (c_long n)"
  using signed_take_bit_int_greater_eq_minus_exp [of 63 n] signed_take_bit_int_less_exp [of 63 n]
  by (simp add: c_long_def long_ok_def)

lemma int_ok_long_ok: "int_ok n \<Longrightarrow> long_ok n"
  by (simp add: int_ok_def long_ok_def)

lemma c_long_sint: "c_long n = sint (word_of_int n :: 64 word)"
  by (simp add: c_long_def sint_sbintrunc')

lemma c_long_cong: "(n - m) mod 2 ^ 64 = 0 \<Longrightarrow> c_long n = c_long m"
  unfolding c_long_def
  by (simp add: signed_take_bit_eq_iff_take_bit_eq take_bit_eq_mod mod_eq_dvd_iff mod_0_imp_dvd)

lemma c_long_dvd: "2 ^ 64 dvd (c_long n - n)"
proof -
  have "take_bit 64 (c_long n) = take_bit 64 n"
    by (simp add: c_long_def take_bit_signed_take_bit)
  then show ?thesis
    by (simp add: take_bit_eq_mod mod_eq_dvd_iff)
qed

lemma sint_range: "- 9223372036854775808 \<le> sint (a :: 64 word)" "sint (a :: 64 word) < 9223372036854775808"
  using sint_ge [of a] sint_lt [of a] by simp_all

lemma wrap_64:
  assumes "- 18446744073709551616 < d" and "d < (18446744073709551616 :: int)"
  shows "signed_take_bit 63 d =
    (if d < - 9223372036854775808 then d + 18446744073709551616
     else if 9223372036854775808 \<le> d then d - 18446744073709551616 else d)"
proof -
  have *: "signed_take_bit 63 d = (d + 9223372036854775808) mod 18446744073709551616 - 9223372036854775808"
    by (simp add: signed_take_bit_eq_take_bit_shift take_bit_eq_mod)
  consider "d < - 9223372036854775808" | "9223372036854775808 \<le> d"
    | "- 9223372036854775808 \<le> d" "d < 9223372036854775808" by linarith
  then show ?thesis
  proof cases
    case 1
    have "(d + 9223372036854775808) mod 18446744073709551616 =
        (d + 9223372036854775808 + 18446744073709551616) mod 18446744073709551616"
      by (rule mod_add_self2 [symmetric])
    also have "\<dots> = d + 9223372036854775808 + 18446744073709551616"
      using 1 assms by (intro mod_pos_pos_trivial) auto
    finally have "(d + 9223372036854775808) mod 18446744073709551616 =
        d + 9223372036854775808 + 18446744073709551616" .
    with 1 show ?thesis unfolding * by simp
  next
    case 2
    have "(d + 9223372036854775808) mod 18446744073709551616 =
        (d + 9223372036854775808 - 18446744073709551616) mod 18446744073709551616"
      by (rule minus_mod_self2 [symmetric])
    also have "\<dots> = d + 9223372036854775808 - 18446744073709551616"
      using 2 assms by (intro mod_pos_pos_trivial) auto
    finally have "(d + 9223372036854775808) mod 18446744073709551616 =
        d + 9223372036854775808 - 18446744073709551616" .
    with 2 show ?thesis unfolding * by simp
  next
    case 3
    then have "(d + 9223372036854775808) mod 18446744073709551616 = d + 9223372036854775808"
      by (intro mod_pos_pos_trivial) auto
    with 3 show ?thesis unfolding * by simp
  qed
qed

lemma sint_uint_64: "sint (a :: 64 word) =
  (if 9223372036854775808 \<le> uint a then uint a - 18446744073709551616 else uint a)"
proof -
  have "sint a = signed_take_bit 63 (uint a)" by (simp add: sint_uint)
  moreover have "0 \<le> uint a" "uint a < 18446744073709551616" using uint_lt2p [of a] by simp_all
  ultimately show ?thesis by (simp add: wrap_64)
qed

text \<open>C's quotient is rounded towards zero.\<close>

definition c_quot :: "int \<Rightarrow> int \<Rightarrow> int" where
  "c_quot a b = (if a < 0 then - (- a div b) else a div b)"

section \<open>Errors\<close>

text \<open>
  \<open>die\<close> prints a message and exits with status 1; \<open>die_token\<close> prints a message and
  the offending text. The other two are no results of the program: \<open>Diverges\<close> marks a loop that never
  ends, and a loop of the model whose fuel ran out, which is proved never to happen; \<open>OutOfBounds\<close> marks
  an array access outside the array, which C leaves undefined.
\<close>

datatype error = Die string | DieToken string string | Diverges | OutOfBounds

type_synonym 'a res = "error + 'a"

definition die :: "string \<Rightarrow> 'a res" where
  "die msg = Inl (Die msg)"

definition die_token :: "string \<Rightarrow> string \<Rightarrow> 'a res" where
  "die_token msg tok = Inl (DieToken msg tok)"

definition res_bind :: "'a res \<Rightarrow> ('a \<Rightarrow> 'b res) \<Rightarrow> 'b res" where
  "res_bind m f = (case m of Inl e \<Rightarrow> Inl e | Inr x \<Rightarrow> f x)"

lemma res_bind_simps [simp]:
  "res_bind (Inr x) f = f x"
  "res_bind (Inl e) f = Inl e"
  "res_bind (die msg) f = die msg"
  "res_bind (die_token msg tok) f = die_token msg tok"
  by (simp_all add: res_bind_def die_def die_token_def)

lemma res_bind_cong [fundef_cong]:
  "m = m' \<Longrightarrow> (\<And>x. m' = Inr x \<Longrightarrow> f x = g x) \<Longrightarrow> res_bind m f = res_bind m' g"
  by (simp add: res_bind_def split: sum.split)

lemma res_bind_Inr: "res_bind m f = Inr y \<longleftrightarrow> (\<exists>x. m = Inr x \<and> f x = Inr y)"
  by (simp add: res_bind_def split: sum.split)

lemma res_bind_InrE [elim!]:
  assumes "res_bind m f = Inr y"
  obtains x where "m = Inr x" and "f x = Inr y"
  using assms by (auto simp: res_bind_Inr)

lemma res_bind_Inl:
  "res_bind m f = Inl e \<longleftrightarrow> m = Inl e \<or> (\<exists>x. m = Inr x \<and> f x = Inl e)"
  by (auto simp: res_bind_def split: sum.split)

lemma res_bind_assoc: "res_bind (res_bind m f) g = res_bind m (\<lambda>x. res_bind (f x) g)"
  by (simp add: res_bind_def split: sum.split)

lemma die_not_Inr [simp]: "die msg \<noteq> Inr x" "die_token msg tok \<noteq> Inr x"
  by (simp_all add: die_def die_token_def)

lemma die_not_Diverges [simp]: "die msg \<noteq> Inl Diverges" "die_token msg tok \<noteq> Inl Diverges"
  by (simp_all add: die_def die_token_def)

section \<open>Decimal numerals\<close>

definition digit_char :: "nat \<Rightarrow> char" where
  "digit_char d = char_of (48 + d)"

fun dec_nat :: "nat \<Rightarrow> string" where
  "dec_nat n = (if n < 10 then [digit_char n] else dec_nat (n div 10) @ [digit_char (n mod 10)])"

declare dec_nat.simps [simp del]

definition dec :: "int \<Rightarrow> string" where
  "dec n = (if n < 0 then CHR ''-'' # dec_nat (nat (- n)) else dec_nat (nat n))"

abbreviation char_code :: "char \<Rightarrow> nat" where
  "char_code \<equiv> of_char"

definition is_digit :: "char \<Rightarrow> bool" where
  "is_digit c \<longleftrightarrow> 48 \<le> char_code c \<and> char_code c \<le> 57"

lemma digit_char_code [simp]: "d < 10 \<Longrightarrow> char_code (digit_char d) = 48 + d"
  by (simp add: digit_char_def of_char_of)

lemma is_digit_digit_char [simp]: "d < 10 \<Longrightarrow> is_digit (digit_char d)"
  by (simp add: is_digit_def)

lemma dec_nat_digits: "\<forall>c \<in> set (dec_nat n). is_digit c"
proof (induction n rule: dec_nat.induct)
  case (1 n)
  then show ?case
    by (subst dec_nat.simps) auto
qed

lemma dec_nat_nonempty [simp]: "dec_nat n \<noteq> []"
  by (subst dec_nat.simps) simp

lemma dec_nonempty [simp]: "dec n \<noteq> []"
  by (simp add: dec_def)

end
