(* ===== verification/Ir.thy ===== *)
theory Ir
  imports Prelude
begin

text \<open>
  The intermediate representation as \<^verbatim>\<open>hcc_m1.c\<close> holds it in memory. The C structs carry a tag
  (\<^verbatim>\<open>kind\<close>, \<^verbatim>\<open>term_kind\<close>) and the fields of every variant; each becomes a datatype with one
  constructor per tag and the fields that tag uses. The growable arrays \<^verbatim>\<open>InstrList\<close>, \<^verbatim>\<open>Function\<close>
  and \<^verbatim>\<open>DataItem\<close> become lists (theory Growable shows that their append is list append).
  Binary operators stay the numbers they are in the IR text, because the code neither checks
  nor converts them.
\<close>

section \<open>Operator codes\<close>

abbreviation (input) BK_ADD :: int where "BK_ADD \<equiv> 1"
abbreviation (input) BK_SUB :: int where "BK_SUB \<equiv> 2"
abbreviation (input) BK_MUL :: int where "BK_MUL \<equiv> 3"
abbreviation (input) BK_DIV :: int where "BK_DIV \<equiv> 4"
abbreviation (input) BK_MOD :: int where "BK_MOD \<equiv> 5"
abbreviation (input) BK_SHL :: int where "BK_SHL \<equiv> 6"
abbreviation (input) BK_SHR :: int where "BK_SHR \<equiv> 7"
abbreviation (input) BK_SAR :: int where "BK_SAR \<equiv> 8"
abbreviation (input) BK_EQ :: int where "BK_EQ \<equiv> 9"
abbreviation (input) BK_NE :: int where "BK_NE \<equiv> 10"
abbreviation (input) BK_LT :: int where "BK_LT \<equiv> 11"
abbreviation (input) BK_LE :: int where "BK_LE \<equiv> 12"
abbreviation (input) BK_GT :: int where "BK_GT \<equiv> 13"
abbreviation (input) BK_GE :: int where "BK_GE \<equiv> 14"
abbreviation (input) BK_ULT :: int where "BK_ULT \<equiv> 15"
abbreviation (input) BK_ULE :: int where "BK_ULE \<equiv> 16"
abbreviation (input) BK_UGT :: int where "BK_UGT \<equiv> 17"
abbreviation (input) BK_UGE :: int where "BK_UGE \<equiv> 18"
abbreviation (input) BK_AND :: int where "BK_AND \<equiv> 19"
abbreviation (input) BK_OR :: int where "BK_OR \<equiv> 20"
abbreviation (input) BK_XOR :: int where "BK_XOR \<equiv> 21"
abbreviation (input) BK_UDIV :: int where "BK_UDIV \<equiv> 22"
abbreviation (input) BK_UMOD :: int where "BK_UMOD \<equiv> 23"

section \<open>Operands, instructions, blocks\<close>

text \<open>
  \<open>OP_NONE\<close> is the kind 0 of an operand that was never parsed (the operand of a bare return).
\<close>

datatype Operand =
    OP_NONE
  | OP_TEMP int
  | OP_IMM int
  | OP_BYTES "int list"
  | OP_GLOBAL string
  | OP_FUNC string

text \<open>
  The arguments of the constructors are, in this order, the fields \<^verbatim>\<open>temp\<close> (or \<^verbatim>\<open>result\<close>),
  \<^verbatim>\<open>temp2\<close>, \<^verbatim>\<open>value\<close>, \<^verbatim>\<open>binop\<close>, \<^verbatim>\<open>name\<close> or \<^verbatim>\<open>callee\<close>, the operands \<^verbatim>\<open>a\<close>, \<^verbatim>\<open>b\<close> and \<^verbatim>\<open>args\<close>
  the tag uses; for \<open>IK_COND\<close> the three nested instruction lists, each with its operand.
\<close>

datatype Instr =
    IK_PARAM int int
  | IK_ALLOCA int int
  | IK_CONST int int
  | IK_COPY int Operand
  | IK_ADDROF int int
  | IK_LOAD64 int Operand
  | IK_LOAD32 int Operand
  | IK_LOADS32 int Operand
  | IK_LOAD16 int Operand
  | IK_LOADS16 int Operand
  | IK_LOAD8 int Operand
  | IK_LOADS8 int Operand
  | IK_STORE64 Operand Operand
  | IK_STORE32 Operand Operand
  | IK_STORE16 Operand Operand
  | IK_STORE8 Operand Operand
  | IK_BIN int int Operand Operand
  | IK_CALL int string "Operand list"
  | IK_CALLI int Operand "Operand list"
  | IK_COND int "Instr list" Operand "Instr list" Operand "Instr list" Operand
  | IK_SEXT int int Operand
  | IK_ZEXT int int Operand
  | IK_TRUNC int int Operand

datatype Terminator =
    TK_RET Operand
  | TK_JUMP int
  | TK_BRANCH Operand int int
  | TK_BRANCH_CMP int Operand Operand int int

record Block =
  block_id :: int
  block_instrs :: "Instr list"
  block_term :: Terminator

record Function =
  fn_name :: string
  fn_blocks :: "Block list"

text \<open>A data value is a byte (kind 1) or the address of a label (kind 2).\<close>

datatype DataValue = DV_BYTE int | DV_ADDRESS string

record DataItem =
  item_label :: string
  item_values :: "DataValue list"

end
