(* ===== verification/Growable.thy ===== *)
theory Growable
  imports Ir
begin

text \<open>
  The growable arrays of \<^verbatim>\<open>hcc_m1.c\<close>: \<^verbatim>\<open>InstrList\<close>, the blocks of a \<^verbatim>\<open>Function\<close> and the values of a
  \<^verbatim>\<open>DataItem\<close>. An array has \<^verbatim>\<open>cap\<close> cells of which the first \<^verbatim>\<open>len\<close> are in use; a cell that was
  never written is \<open>None\<close>. The locale states what the reader relies on (appending adds one
  element at the end), and its interpretations show that the code's three arrays provide it;
  this is what lets the other theories hold these arrays as lists.
\<close>

section \<open>The arrays\<close>

record 'a growable =
  items :: "'a option list"
  cap :: nat
  len :: nat

definition empty_growable :: "'a growable" where
  "empty_growable = \<lparr>items = [], cap = 0, len = 0\<rparr>"

text \<open>\<^verbatim>\<open>xrealloc\<close> keeps the old cells; the new ones are not initialised.\<close>

definition xrealloc_items :: "'a option list \<Rightarrow> nat \<Rightarrow> 'a option list" where
  "xrealloc_items cells n = take n (cells @ replicate (n - length cells) None)"

definition grow :: "nat \<Rightarrow> 'a growable \<Rightarrow> 'a growable" where
  "grow initial l =
     (if len l \<ge> cap l then
        let new_cap = (if cap l \<noteq> 0 then cap l * 2 else initial)
        in l\<lparr>cap := new_cap, items := xrealloc_items (items l) new_cap\<rparr>
      else l)"

definition append_item :: "nat \<Rightarrow> 'a growable \<Rightarrow> 'a \<Rightarrow> 'a growable" where
  "append_item initial l x =
     (let l = grow initial l
      in l\<lparr>items := (items l)[len l := Some x], len := len l + 1\<rparr>)"

definition append_instr :: "Instr growable \<Rightarrow> Instr \<Rightarrow> Instr growable" where
  "append_instr = append_item 16"

definition append_block :: "Block growable \<Rightarrow> Block \<Rightarrow> Block growable" where
  "append_block = append_item 16"

definition append_data_value :: "DataValue growable \<Rightarrow> DataValue \<Rightarrow> DataValue growable" where
  "append_data_value = append_item 32"

section \<open>The interface\<close>

text \<open>The cells in use, and the shape an array always has.\<close>

definition contents :: "'a growable \<Rightarrow> 'a list" where
  "contents l = map the (take (len l) (items l))"

definition doubled :: "nat \<Rightarrow> nat \<Rightarrow> bool" where
  "doubled initial n \<longleftrightarrow> (\<exists>k. n = initial * 2 ^ k)"

definition growable_ok :: "nat \<Rightarrow> 'a growable \<Rightarrow> bool" where
  "growable_ok initial l \<longleftrightarrow>
     length (items l) = cap l \<and> len l \<le> cap l \<and>
     (\<forall>i < len l. items l ! i \<noteq> None) \<and>
     (cap l = 0 \<or> doubled initial (cap l)) \<and> cap l \<le> initial + 2 * len l"

locale appendable =
  fixes none :: 'l
    and append :: "'l \<Rightarrow> 'x \<Rightarrow> 'l"
    and ok :: "'l \<Rightarrow> bool"
    and elems :: "'l \<Rightarrow> 'x list"
  assumes ok_none: "ok none"
    and elems_none: "elems none = []"
    and ok_append: "ok l \<Longrightarrow> ok (append l x)"
    and elems_append: "ok l \<Longrightarrow> elems (append l x) = elems l @ [x]"
begin

lemma ok_fold: "ok l \<Longrightarrow> ok (fold (\<lambda>x l. append l x) xs l)"
  by (induction xs arbitrary: l) (auto intro: ok_append)

lemma elems_fold: "ok l \<Longrightarrow> elems (fold (\<lambda>x l. append l x) xs l) = elems l @ xs"
  by (induction xs arbitrary: l) (simp_all add: elems_append ok_append)

lemma built:
  "ok (fold (\<lambda>x l. append l x) xs none) \<and> elems (fold (\<lambda>x l. append l x) xs none) = xs"
  using ok_fold [OF ok_none] elems_fold [OF ok_none] by (simp add: elems_none)

end

section \<open>The arrays provide it\<close>

lemma length_xrealloc [simp]: "length (xrealloc_items cells n) = n"
  by (simp add: xrealloc_items_def)

lemma nth_xrealloc [simp]: "i < length cells \<Longrightarrow> i < n \<Longrightarrow> xrealloc_items cells n ! i = cells ! i"
  by (simp add: xrealloc_items_def nth_append)

lemma take_xrealloc: "m \<le> length cells \<Longrightarrow> m \<le> n \<Longrightarrow> take m (xrealloc_items cells n) = take m cells"
  by (rule nth_equalityI) auto

lemma growable_ok_empty: "growable_ok initial empty_growable"
  by (simp add: growable_ok_def empty_growable_def)

lemma contents_empty: "contents empty_growable = []"
  by (simp add: contents_def empty_growable_def)

lemma doubled_initial [simp]: "doubled initial initial"
  unfolding doubled_def by (rule exI [of _ 0]) simp

lemma doubled_twice: "doubled initial n \<Longrightarrow> doubled initial (n * 2)"
  unfolding doubled_def by (metis mult.assoc mult.commute power_Suc)

lemma grow_ok:
  assumes "growable_ok initial l" and "0 < initial"
  shows "growable_ok initial (grow initial l)" and "len (grow initial l) < cap (grow initial l)"
    and "contents (grow initial l) = contents l" and "len (grow initial l) = len l"
proof -
  have same: "len l = cap l" if "cap l \<le> len l" using assms that by (auto simp: growable_ok_def)
  show "growable_ok initial (grow initial l)"
    using assms same
    by (auto simp: grow_def growable_ok_def Let_def intro: doubled_twice)
  show "len (grow initial l) < cap (grow initial l)" "len (grow initial l) = len l"
    using assms same by (auto simp: grow_def growable_ok_def Let_def)
  show "contents (grow initial l) = contents l"
    using assms same by (auto simp: grow_def contents_def growable_ok_def Let_def take_xrealloc)
qed

lemma append_item_ok:
  assumes "growable_ok initial l" and "0 < initial"
  shows "growable_ok initial (append_item initial l x)"
  using grow_ok [OF assms]
  by (auto simp: append_item_def Let_def growable_ok_def nth_list_update less_Suc_eq)

lemma contents_append_item:
  assumes "growable_ok initial l" and "0 < initial"
  shows "contents (append_item initial l x) = contents l @ [x]"
proof -
  let ?g = "grow initial l"
  have "contents (append_item initial l x) = contents ?g @ [x]"
    using grow_ok [OF assms]
    by (auto simp: append_item_def contents_def growable_ok_def Let_def take_Suc_conv_app_nth)
  then show ?thesis using grow_ok(3) [OF assms] by simp
qed

interpretation instr_list: appendable empty_growable append_instr "growable_ok 16" contents
  by unfold_locales
    (auto simp: append_instr_def growable_ok_empty contents_empty append_item_ok contents_append_item)

interpretation function_blocks: appendable empty_growable append_block "growable_ok 16" contents
  by unfold_locales
    (auto simp: append_block_def growable_ok_empty contents_empty append_item_ok contents_append_item)

interpretation data_values: appendable empty_growable append_data_value "growable_ok 32" contents
  by unfold_locales
    (auto simp: append_data_value_def growable_ok_empty contents_empty append_item_ok
      contents_append_item)

end
