(* ===== verification/Alloc.thy ===== *)
theory Alloc
  imports Ir
begin

text \<open>
  Stack slot allocation of \<^verbatim>\<open>hcc_m1.c\<close>: \<^verbatim>\<open>LocArray\<close>, the two allocators, the pass over a function
  that gives every temporary a slot, and the pass that counts the uses of every temporary.
  A \<^verbatim>\<open>LocArray\<close> is the list of its cells, its length the array's capacity. The lemmas show that
  distinct temporaries never share a slot, that all slots lie in the frame, that every
  temporary the function defines has one, and that the counts are the numbers of occurrences.
\<close>

datatype Target = TARGET_AMD64 | TARGET_I386 | TARGET_AARCH64 | TARGET_RISCV64

datatype LocKind = LOC_NONE | LOC_STACK | LOC_OBJECT

record Loc =
  loc_kind :: LocKind
  loc_slot :: int
  loc_slots :: int
  loc_uses :: int

type_synonym LocArray = "Loc list"

definition fresh_loc :: Loc where
  "fresh_loc = \<lparr>loc_kind = LOC_NONE, loc_slot = 0, loc_slots = 0, loc_uses = 0\<rparr>"

section \<open>The allocators\<close>

text \<open>
  The doubling is \<^verbatim>\<open>int\<close> arithmetic: from 64 it reaches \<^verbatim>\<open>2 ^ 30\<close>, wraps to the smallest number, then to 0,
  and stays there, so the loop never ends for a temporary of \<^verbatim>\<open>2 ^ 30\<close> or more.
\<close>

partial_function (option) double_cap :: "int \<Rightarrow> int \<Rightarrow> int option" where
  "double_cap temp cap = (if cap \<le> temp then double_cap temp (c_int (cap * 2)) else Some cap)"

declare double_cap.simps [code]

definition ensure_loc :: "LocArray \<Rightarrow> int \<Rightarrow> LocArray res" where
  "ensure_loc locs temp =
     (let old = int (length locs) in
      if temp < old then Inr locs
      else
        case double_cap temp (if old = 0 then 64 else old) of
          None \<Rightarrow> Inl Diverges
        | Some cap \<Rightarrow> Inr (locs @ replicate (nat (cap - old)) fresh_loc))"

definition alloc_def :: "LocArray \<Rightarrow> int \<Rightarrow> int \<Rightarrow> (LocArray \<times> int) res" where
  "alloc_def locs next_slot temp =
     res_bind (ensure_loc locs temp) (\<lambda>locs.
     if temp < 0 then Inl OutOfBounds
     else
       let loc = locs ! nat temp in
       if loc_kind loc \<noteq> LOC_NONE then Inr (locs, next_slot)
       else
         Inr (locs[nat temp := loc\<lparr>loc_kind := LOC_STACK, loc_slot := next_slot, loc_slots := 1\<rparr>],
           c_int (next_slot + 1)))"

definition object_slots :: "Target \<Rightarrow> int \<Rightarrow> int" where
  "object_slots target_arch bytes =
     (let bytes = (if bytes < 1 then 1 else bytes) in
      if target_arch = TARGET_I386 then c_quot (c_int (bytes + 3)) 4
      else c_quot (c_int (bytes + 7)) 8)"

definition alloc_object ::
  "Target \<Rightarrow> LocArray \<Rightarrow> int \<Rightarrow> int \<Rightarrow> int \<Rightarrow> (LocArray \<times> int) res" where
  "alloc_object target_arch locs next_slot temp bytes =
     res_bind (ensure_loc locs temp) (\<lambda>locs.
     if temp < 0 then Inl OutOfBounds
     else
       let loc = locs ! nat temp in
       if loc_kind loc \<noteq> LOC_NONE then Inr (locs, next_slot)
       else
         let slots = object_slots target_arch bytes in
         Inr (locs[nat temp :=
             loc\<lparr>loc_kind := LOC_OBJECT, loc_slot := next_slot, loc_slots := slots\<rparr>],
           c_int (next_slot + slots)))"

text \<open>The size of an alloca is converted from \<^verbatim>\<open>long\<close> to \<^verbatim>\<open>int\<close> by the call.\<close>

fun allocate_instr :: "Target \<Rightarrow> Instr \<Rightarrow> LocArray \<times> int \<Rightarrow> (LocArray \<times> int) res"
  and allocate_instrs :: "Target \<Rightarrow> Instr list \<Rightarrow> LocArray \<times> int \<Rightarrow> (LocArray \<times> int) res"
where
  "allocate_instr g (IK_ALLOCA t value) (locs, nx) = alloc_object g locs nx t (c_int value)"
| "allocate_instr g (IK_PARAM t value) (locs, nx) = alloc_def locs nx t"
| "allocate_instr g (IK_CONST t value) (locs, nx) = alloc_def locs nx t"
| "allocate_instr g (IK_COPY t a) (locs, nx) = alloc_def locs nx t"
| "allocate_instr g (IK_ADDROF t t2) (locs, nx) = alloc_def locs nx t"
| "allocate_instr g (IK_LOAD64 t a) (locs, nx) = alloc_def locs nx t"
| "allocate_instr g (IK_LOAD32 t a) (locs, nx) = alloc_def locs nx t"
| "allocate_instr g (IK_LOADS32 t a) (locs, nx) = alloc_def locs nx t"
| "allocate_instr g (IK_LOAD16 t a) (locs, nx) = alloc_def locs nx t"
| "allocate_instr g (IK_LOADS16 t a) (locs, nx) = alloc_def locs nx t"
| "allocate_instr g (IK_LOAD8 t a) (locs, nx) = alloc_def locs nx t"
| "allocate_instr g (IK_LOADS8 t a) (locs, nx) = alloc_def locs nx t"
| "allocate_instr g (IK_STORE64 a b) (locs, nx) = Inr (locs, nx)"
| "allocate_instr g (IK_STORE32 a b) (locs, nx) = Inr (locs, nx)"
| "allocate_instr g (IK_STORE16 a b) (locs, nx) = Inr (locs, nx)"
| "allocate_instr g (IK_STORE8 a b) (locs, nx) = Inr (locs, nx)"
| "allocate_instr g (IK_SEXT t value a) (locs, nx) = alloc_def locs nx t"
| "allocate_instr g (IK_ZEXT t value a) (locs, nx) = alloc_def locs nx t"
| "allocate_instr g (IK_TRUNC t value a) (locs, nx) = alloc_def locs nx t"
| "allocate_instr g (IK_BIN t op a b) (locs, nx) = alloc_def locs nx t"
| "allocate_instr g (IK_CALL r name args) (locs, nx) =
     (if 0 \<le> r then alloc_def locs nx r else Inr (locs, nx))"
| "allocate_instr g (IK_CALLI r callee args) (locs, nx) =
     (if 0 \<le> r then alloc_def locs nx r else Inr (locs, nx))"
| "allocate_instr g (IK_COND t cs co ts to fs fo) (locs, nx) =
     res_bind (allocate_instrs g cs (locs, nx)) (\<lambda>s.
     res_bind (allocate_instrs g ts s) (\<lambda>s.
     res_bind (allocate_instrs g fs s) (\<lambda>(locs, nx). alloc_def locs nx t)))"
| "allocate_instrs g [] s = Inr s"
| "allocate_instrs g (i # is) s = res_bind (allocate_instr g i s) (\<lambda>s. allocate_instrs g is s)"

fun allocate_blocks :: "Target \<Rightarrow> Block list \<Rightarrow> LocArray \<times> int \<Rightarrow> (LocArray \<times> int) res" where
  "allocate_blocks g [] s = Inr s"
| "allocate_blocks g (b # bs) s =
     res_bind (allocate_instrs g (block_instrs b) s) (\<lambda>s. allocate_blocks g bs s)"

section \<open>Use counts\<close>

definition lookup_loc :: "LocArray \<Rightarrow> int \<Rightarrow> Loc res" where
  "lookup_loc locs temp =
     (if temp < 0 \<or> int (length locs) \<le> temp then die ''missing allocation''
      else if loc_kind (locs ! nat temp) = LOC_NONE then die ''missing allocation''
      else Inr (locs ! nat temp))"

definition add_use :: "LocArray \<Rightarrow> int \<Rightarrow> LocArray res" where
  "add_use locs temp =
     res_bind (lookup_loc locs temp) (\<lambda>loc.
     Inr (locs[nat temp := loc\<lparr>loc_uses := loc_uses loc + 1\<rparr>]))"

definition count_operand_use :: "Operand \<Rightarrow> LocArray \<Rightarrow> LocArray res" where
  "count_operand_use op locs =
     (case op of OP_TEMP value \<Rightarrow> add_use locs (c_int value) | _ \<Rightarrow> Inr locs)"

fun count_operand_uses :: "Operand list \<Rightarrow> LocArray \<Rightarrow> LocArray res" where
  "count_operand_uses [] locs = Inr locs"
| "count_operand_uses (op # ops) locs =
     res_bind (count_operand_use op locs) (\<lambda>locs. count_operand_uses ops locs)"

fun count_instr_use :: "Instr \<Rightarrow> LocArray \<Rightarrow> LocArray res"
  and count_instr_uses :: "Instr list \<Rightarrow> LocArray \<Rightarrow> LocArray res"
where
  "count_instr_use (IK_ALLOCA t value) locs = Inr locs"
| "count_instr_use (IK_PARAM t value) locs = Inr locs"
| "count_instr_use (IK_CONST t value) locs = Inr locs"
| "count_instr_use (IK_COPY t a) locs = count_operand_use a locs"
| "count_instr_use (IK_LOAD64 t a) locs = count_operand_use a locs"
| "count_instr_use (IK_LOAD32 t a) locs = count_operand_use a locs"
| "count_instr_use (IK_LOADS32 t a) locs = count_operand_use a locs"
| "count_instr_use (IK_LOAD16 t a) locs = count_operand_use a locs"
| "count_instr_use (IK_LOADS16 t a) locs = count_operand_use a locs"
| "count_instr_use (IK_LOAD8 t a) locs = count_operand_use a locs"
| "count_instr_use (IK_LOADS8 t a) locs = count_operand_use a locs"
| "count_instr_use (IK_SEXT t value a) locs = count_operand_use a locs"
| "count_instr_use (IK_ZEXT t value a) locs = count_operand_use a locs"
| "count_instr_use (IK_TRUNC t value a) locs = count_operand_use a locs"
| "count_instr_use (IK_ADDROF t t2) locs = add_use locs t2"
| "count_instr_use (IK_STORE64 a b) locs = count_operand_uses [a, b] locs"
| "count_instr_use (IK_STORE32 a b) locs = count_operand_uses [a, b] locs"
| "count_instr_use (IK_STORE16 a b) locs = count_operand_uses [a, b] locs"
| "count_instr_use (IK_STORE8 a b) locs = count_operand_uses [a, b] locs"
| "count_instr_use (IK_BIN t op a b) locs = count_operand_uses [a, b] locs"
| "count_instr_use (IK_CALL r name args) locs = count_operand_uses args locs"
| "count_instr_use (IK_CALLI r callee args) locs =
     res_bind (count_operand_use callee locs) (\<lambda>locs. count_operand_uses args locs)"
| "count_instr_use (IK_COND t cs co ts to fs fo) locs =
     res_bind (count_instr_uses cs locs) (\<lambda>locs.
     res_bind (count_operand_use co locs) (\<lambda>locs.
     res_bind (count_instr_uses ts locs) (\<lambda>locs.
     res_bind (count_operand_use to locs) (\<lambda>locs.
     res_bind (count_instr_uses fs locs) (\<lambda>locs.
     count_operand_use fo locs)))))"
| "count_instr_uses [] locs = Inr locs"
| "count_instr_uses (i # is) locs =
     res_bind (count_instr_use i locs) (\<lambda>locs. count_instr_uses is locs)"

fun count_term_use :: "Terminator \<Rightarrow> LocArray \<Rightarrow> LocArray res" where
  "count_term_use (TK_RET op) locs = count_operand_use op locs"
| "count_term_use (TK_JUMP yes) locs = Inr locs"
| "count_term_use (TK_BRANCH op yes no) locs = count_operand_use op locs"
| "count_term_use (TK_BRANCH_CMP binop a b yes no) locs = count_operand_uses [a, b] locs"

fun count_block_uses :: "Block list \<Rightarrow> LocArray \<Rightarrow> LocArray res" where
  "count_block_uses [] locs = Inr locs"
| "count_block_uses (b # bs) locs =
     res_bind (count_instr_uses (block_instrs b) locs) (\<lambda>locs.
     res_bind (count_term_use (block_term b) locs) (\<lambda>locs.
     count_block_uses bs locs))"

definition count_function_uses :: "Function \<Rightarrow> LocArray \<Rightarrow> LocArray res" where
  "count_function_uses fn locs = count_block_uses (fn_blocks fn) locs"

definition allocate_function :: "Target \<Rightarrow> Function \<Rightarrow> (LocArray \<times> int) res" where
  "allocate_function g fn =
     res_bind (allocate_blocks g (fn_blocks fn) ([], 0)) (\<lambda>(locs, next_slot).
     res_bind (count_function_uses fn locs) (\<lambda>locs. Inr (locs, next_slot)))"


section \<open>Slots are disjoint and inside the frame\<close>

definition allocated :: "LocArray \<Rightarrow> int \<Rightarrow> bool" where
  "allocated locs t \<longleftrightarrow>
     0 \<le> t \<and> t < int (length locs) \<and> loc_kind (locs ! nat t) \<noteq> LOC_NONE"

abbreviation slot_start :: "LocArray \<Rightarrow> int \<Rightarrow> int" where
  "slot_start locs t \<equiv> loc_slot (locs ! nat t)"

abbreviation slot_end :: "LocArray \<Rightarrow> int \<Rightarrow> int" where
  "slot_end locs t \<equiv> loc_slot (locs ! nat t) + loc_slots (locs ! nat t)"

definition slots_in_frame :: "LocArray \<Rightarrow> int \<Rightarrow> bool" where
  "slots_in_frame locs next_slot \<longleftrightarrow>
     (\<forall>t. allocated locs t \<longrightarrow>
        0 \<le> slot_start locs t \<and> slot_start locs t < slot_end locs t \<and>
        slot_end locs t \<le> next_slot)"

definition slots_disjoint :: "LocArray \<Rightarrow> bool" where
  "slots_disjoint locs \<longleftrightarrow>
     (\<forall>t u. allocated locs t \<longrightarrow> allocated locs u \<longrightarrow> t \<noteq> u \<longrightarrow>
        slot_end locs t \<le> slot_start locs u \<or> slot_end locs u \<le> slot_start locs t)"

definition unused :: "LocArray \<Rightarrow> bool" where
  "unused locs \<longleftrightarrow> (\<forall>loc \<in> set locs. loc_uses loc = 0)"

definition alloc_inv :: "LocArray \<times> int \<Rightarrow> bool" where
  "alloc_inv s \<longleftrightarrow> 0 \<le> snd s \<and> slots_in_frame (fst s) (snd s) \<and> slots_disjoint (fst s)"

definition keeps_locs :: "LocArray \<Rightarrow> LocArray \<Rightarrow> bool" where
  "keeps_locs locs locs' \<longleftrightarrow> (\<forall>t. allocated locs t \<longrightarrow> locs' ! nat t = locs ! nat t)"

text \<open>The bytes of a slot, and so many slots that their bytes are an \<^verbatim>\<open>int\<close>.\<close>

definition slot_width :: "Target \<Rightarrow> int" where
  "slot_width g = (if g = TARGET_I386 then 4 else 8)"

definition fits :: "Target \<Rightarrow> int \<Rightarrow> bool" where
  "fits g n \<longleftrightarrow> slot_width g * n < 2 ^ 31"

lemma fits_less: "fits g n \<Longrightarrow> m \<le> n \<Longrightarrow> fits g m"
  by (auto simp: fits_def slot_width_def split: if_splits)

lemma fits_c_int: "fits g n \<Longrightarrow> 0 \<le> n \<Longrightarrow> c_int n = n"
  by (auto simp: fits_def slot_width_def int_ok_def split: if_splits)

text \<open>
  The contract of every step of the pass: it fails only on a negative temporary, and does not return only
  on one of \<^verbatim>\<open>2 ^ 30\<close> or more; it keeps what is allocated and allocates exactly the temporaries \<open>D\<close> beside;
  and as long as \<open>k\<close> more slots fit, it takes at most as many and keeps the invariant.
\<close>

definition step_fails :: "int set \<Rightarrow> error \<Rightarrow> bool" where
  "step_fails D e \<longleftrightarrow> e = OutOfBounds \<and> (\<exists>t \<in> D. t < 0) \<or> e = Diverges \<and> (\<exists>t \<in> D. 2 ^ 30 \<le> t)"

definition step_keeps :: "Target \<Rightarrow> int set \<Rightarrow> nat \<Rightarrow> LocArray \<times> int \<Rightarrow> LocArray \<times> int \<Rightarrow> bool" where
  "step_keeps g D k s s' \<longleftrightarrow>
     unused (fst s') \<and> keeps_locs (fst s) (fst s') \<and>
     (\<forall>t. allocated (fst s') t \<longleftrightarrow> allocated (fst s) t \<or> t \<in> D) \<and>
     (alloc_inv s \<longrightarrow> fits g (snd s + int k) \<longrightarrow> alloc_inv s' \<and> snd s' \<le> snd s + int k)"

definition allocates ::
    "Target \<Rightarrow> (LocArray \<times> int \<Rightarrow> (LocArray \<times> int) res) \<Rightarrow> int set \<Rightarrow> nat \<Rightarrow> bool" where
  "allocates g f D k \<longleftrightarrow>
     (\<forall>s. unused (fst s) \<longrightarrow> (case f s of Inl e \<Rightarrow> step_fails D e | Inr s' \<Rightarrow> step_keeps g D k s s'))"

lemma allocates_Inr: "allocates g f D k \<Longrightarrow> unused (fst s) \<Longrightarrow> f s = Inr s' \<Longrightarrow> step_keeps g D k s s'"
  by (drule (1) allocates_def [THEN iffD1, rule_format]) simp

lemma allocates_Inl: "allocates g f D k \<Longrightarrow> unused (fst s) \<Longrightarrow> f s = Inl e \<Longrightarrow> step_fails D e"
  by (drule (1) allocates_def [THEN iffD1, rule_format]) simp

lemma allocates_total:
  fixes s :: "LocArray \<times> int"
  assumes "allocates g f D k" and "unused (fst s)" and "\<forall>t \<in> D. 0 \<le> t \<and> t < 2 ^ 30"
  obtains s' where "f s = Inr s'"
  using allocates_Inl [OF assms(1,2)] assms(3) by (cases "f s") (force simp: step_fails_def)+

lemma allocates_Inr_id: "allocates g Inr {} 0"
  by (simp add: allocates_def step_keeps_def keeps_locs_def)

lemma step_keeps_trans:
  assumes "step_keeps g D k s s1" and "step_keeps g E l s1 s2"
  shows "step_keeps g (D \<union> E) (k + l) s s2"
proof -
  have "alloc_inv s2 \<and> snd s2 \<le> snd s + int (k + l)"
    if inv: "alloc_inv s" and fit: "fits g (snd s + int (k + l))"
  proof -
    have "fits g (snd s + int k)" by (rule fits_less [OF fit]) simp
    with assms(1) inv have one: "alloc_inv s1" "snd s1 \<le> snd s + int k" by (simp_all add: step_keeps_def)
    have "fits g (snd s1 + int l)" by (rule fits_less [OF fit]) (use one in simp)
    with assms(2) one show ?thesis by (simp add: step_keeps_def)
  qed
  with assms show ?thesis by (auto simp: step_keeps_def keeps_locs_def)
qed

lemma allocates_bind:
  assumes f: "allocates g f D k" and h: "allocates g h E l"
  shows "allocates g (\<lambda>s. res_bind (f s) h) (D \<union> E) (k + l)"
  unfolding allocates_def
proof (intro allI impI)
  fix s :: "LocArray \<times> int" assume s: "unused (fst s)"
  show "case res_bind (f s) h of Inl e \<Rightarrow> step_fails (D \<union> E) e | Inr s' \<Rightarrow> step_keeps g (D \<union> E) (k + l) s s'"
  proof (cases "f s")
    case (Inl e)
    with allocates_Inl [OF f s] show ?thesis by (auto simp: step_fails_def)
  next
    case (Inr s1)
    note a = allocates_Inr [OF f s Inr]
    then have s1: "unused (fst s1)" by (simp add: step_keeps_def)
    show ?thesis
    proof (cases "h s1")
      case (Inl e)
      with allocates_Inl [OF h s1] Inr show ?thesis by (auto simp: step_fails_def)
    next
      case 2: (Inr s2)
      with Inr step_keeps_trans [OF a allocates_Inr [OF h s1 2]] show ?thesis by simp
    qed
  qed
qed

lemma double_cap_gt:
  assumes "double_cap t c = Some r"
  shows "t < r"
proof (rule double_cap.raw_induct [OF _ assms, where P = "\<lambda>t c r. t < r"])
  fix f :: "int \<Rightarrow> int \<Rightarrow> int option" and t c r
  assume "\<And>t c r. f t c = Some r \<Longrightarrow> t < r"
    and "(if c \<le> t then f t (c_int (c * 2)) else Some c) = Some r"
  then show "t < r" by (auto split: if_splits)
qed

lemma double_cap_returns: "0 < c \<Longrightarrow> t < 2 ^ 30 \<Longrightarrow> \<exists>r. double_cap t c = Some r"
proof (induction "nat (t + 1 - c)" arbitrary: c rule: less_induct)
  case less
  show ?case
  proof (cases "c \<le> t")
    case True
    then have "c_int (c * 2) = c * 2" using less.prems by (simp add: int_ok_def)
    moreover have "nat (t + 1 - c * 2) < nat (t + 1 - c)" using True less.prems by simp
    ultimately show ?thesis
      using less.hyps [of "c * 2"] less.prems True by (subst double_cap.simps) simp
  qed (subst double_cap.simps, simp)
qed

lemma double_cap_zero: "double_cap t 0 = Some r \<Longrightarrow> t < 0"
proof -
  assume r: "double_cap t 0 = Some r"
  have "0 = (0 :: int) \<longrightarrow> t < 0"
  proof (rule double_cap.raw_induct [OF _ r, where P = "\<lambda>t c r. c = 0 \<longrightarrow> t < 0"])
    fix f :: "int \<Rightarrow> int \<Rightarrow> int option" and t c r
    assume IH: "\<And>t c r. f t c = Some r \<Longrightarrow> c = 0 \<longrightarrow> t < 0"
      and body: "(if c \<le> t then f t (c_int (c * 2)) else Some c) = Some r"
    have "c_int 0 = 0" by code_simp
    then show "c = 0 \<longrightarrow> t < 0" using IH [of t 0 r] body by (auto split: if_splits)
  qed
  then show "t < 0" by simp
qed

lemma double_cap_stuck: "2 ^ 30 \<le> t \<Longrightarrow> n \<le> 30 \<Longrightarrow> double_cap t (2 ^ (30 - n)) = None"
proof (induction n)
  case 0
  have "double_cap t 0 = None" using double_cap_zero [of t] 0 by (cases "double_cap t 0") auto
  moreover have "c_int 2147483648 = - 2147483648" "c_int (- 4294967296) = 0" by code_simp+
  ultimately show ?case
    using 0 by (simp add: double_cap.simps [of t "1073741824"] double_cap.simps [of t "- 2147483648"])
next
  case (Suc n)
  have "(2 :: int) ^ (30 - Suc n) \<le> 2 ^ 30" by (rule power_increasing) simp_all
  moreover have two: "(2 :: int) ^ (30 - Suc n) * 2 = 2 ^ (30 - n)"
    using Suc.prems by (simp flip: power_Suc2 add: Suc_diff_le [symmetric])
  moreover have "(2 :: int) ^ (30 - n) \<le> 2 ^ 30" by (rule power_increasing) simp_all
  then have "c_int (2 ^ (30 - n)) = 2 ^ (30 - n)" by (simp add: int_ok_def order.trans [of _ 0])
  ultimately show ?case using Suc by (subst double_cap.simps) simp
qed

lemma ensure_loc_cases:
  obtains L j where "ensure_loc locs t = Inr L" "L = locs @ replicate j fresh_loc" "t < int (length L)"
  | "ensure_loc locs t = Inl Diverges" "2 ^ 30 \<le> t"
proof (cases "t < int (length locs)")
  case True
  then have "ensure_loc locs t = Inr locs" by (simp add: ensure_loc_def)
  with that(1) [of locs 0] True show thesis by simp
next
  case False
  let ?c = "if locs = [] then 64 else int (length locs)"
  show thesis
  proof (cases "double_cap t ?c")
    case None
    have "0 < ?c" by simp
    then have "\<not> t < 2 ^ 30" using double_cap_returns [of ?c t] None by fastforce
    with that(2) False None show thesis by (simp add: ensure_loc_def Let_def)
  next
    case (Some cap)
    with that(1) [of _ "nat (cap - int (length locs))"] False double_cap_gt [OF Some] show thesis
      by (simp add: ensure_loc_def Let_def)
  qed
qed

lemma ensure_loc_stuck: "2 ^ 30 \<le> t \<Longrightarrow> ensure_loc [] t = Inl Diverges"
  using double_cap_stuck [of t 24] by (simp add: ensure_loc_def)

text \<open>New cells change nothing that counts.\<close>

lemma allocated_longer [simp]: "allocated (locs @ replicate j fresh_loc) t = allocated locs t"
  by (auto simp: allocated_def nth_append fresh_loc_def)

lemma unused_longer [simp]: "unused (locs @ replicate j fresh_loc) = unused locs"
  by (auto simp: unused_def fresh_loc_def)

lemma alloc_inv_longer [simp]: "alloc_inv (locs @ replicate j fresh_loc, nx) = alloc_inv (locs, nx)"
proof -
  have same: "(locs @ replicate j fresh_loc) ! nat t = locs ! nat t" if "allocated locs t" for t
    using that by (simp add: allocated_def nth_append nat_less_iff)
  then show ?thesis by (simp add: alloc_inv_def slots_in_frame_def slots_disjoint_def same)
qed

text \<open>Both allocators place \<open>n\<close> slots at the top of the frame.\<close>

definition place :: "LocKind \<Rightarrow> int \<Rightarrow> int \<Rightarrow> LocArray \<times> int \<Rightarrow> (LocArray \<times> int) res" where
  "place k n t s =
     res_bind (ensure_loc (fst s) t) (\<lambda>L.
     if t < 0 then Inl OutOfBounds
     else if allocated L t then Inr (L, snd s)
     else Inr (L[nat t := (L ! nat t)\<lparr>loc_kind := k, loc_slot := snd s, loc_slots := n\<rparr>],
       c_int (snd s + n)))"

lemma alloc_place:
  "alloc_def locs nx t = place LOC_STACK 1 t (locs, nx)"
  "alloc_object g locs nx t m = place LOC_OBJECT (object_slots g m) t (locs, nx)"
  by (cases rule: ensure_loc_cases [of locs t];
      simp add: alloc_def_def alloc_object_def place_def allocated_def Let_def)+

definition object_cells :: "Target \<Rightarrow> int \<Rightarrow> nat" where
  "object_cells g m = nat ((max m 1 + slot_width g - 1) div slot_width g)"

lemma object_slots_cells:
  assumes "fits g (int (object_cells g m))"
  shows "object_slots g m = int (object_cells g m)" "1 \<le> object_cells g m"
proof -
  have "(max m 1 + 3) div 4 * 4 \<le> max m 1 + 3" "max m 1 \<le> (max m 1 + 3) div 4 * 4"
    "(max m 1 + 7) div 8 * 8 \<le> max m 1 + 7" "max m 1 \<le> (max m 1 + 7) div 8 * 8" by linarith+
  then show "object_slots g m = int (object_cells g m)"
    using assms by (auto simp: object_slots_def object_cells_def fits_def slot_width_def c_quot_def int_ok_def Let_def max_def)
  show "1 \<le> object_cells g m"
    by (auto simp: object_cells_def slot_width_def le_nat_iff max_def)
qed

text \<open>The frame with one more object on top.\<close>

lemma placed_inv:
  assumes inv: "alloc_inv (L, nx)" and t: "0 \<le> t" "t < int (length L)" "\<not> allocated L t"
    and k: "k \<noteq> LOC_NONE" and n: "1 \<le> n"
  defines "M \<equiv> L[nat t := (L ! nat t)\<lparr>loc_kind := k, loc_slot := nx, loc_slots := n\<rparr>]"
  shows "alloc_inv (M, nx + n)"
proof -
  have al: "allocated M u \<longleftrightarrow> allocated L u \<or> u = t" for u
    using t k by (auto simp: M_def allocated_def nth_list_update nat_less_iff)
  have M: "M ! nat u = (if u = t then (L ! nat t)\<lparr>loc_kind := k, loc_slot := nx, loc_slots := n\<rparr> else L ! nat u)"
    if "allocated M u" for u
    using that t by (auto simp: M_def allocated_def nth_list_update)
  have fr: "0 \<le> slot_start L u \<and> slot_start L u < slot_end L u \<and> slot_end L u \<le> nx" if "allocated L u" for u
    using inv that by (simp add: alloc_inv_def slots_in_frame_def)
  have nx: "0 \<le> nx" using inv by (simp add: alloc_inv_def)
  have "slots_in_frame M (nx + n)"
    unfolding slots_in_frame_def using M al fr n nx by fastforce
  moreover have "slots_disjoint M"
    unfolding slots_disjoint_def using M al fr inv t by (auto simp: alloc_inv_def slots_disjoint_def)
  ultimately show ?thesis using nx n by (simp add: alloc_inv_def)
qed

lemma allocates_place:
  assumes k: "k \<noteq> LOC_NONE" and n: "fits g (int c) \<Longrightarrow> n = int c \<and> 1 \<le> c"
  shows "allocates g (place k n t) {t} c"
  unfolding allocates_def
proof (intro allI impI)
  fix s :: "LocArray \<times> int" assume s: "unused (fst s)"
  let ?goal = "case place k n t s of Inl e \<Rightarrow> step_fails {t} e | Inr s' \<Rightarrow> step_keeps g {t} c s s'"
  consider L j where "ensure_loc (fst s) t = Inr L" "L = fst s @ replicate j fresh_loc" "t < int (length L)"
    | "ensure_loc (fst s) t = Inl Diverges" "2 ^ 30 \<le> t"
    by (rule ensure_loc_cases)
  then show ?goal
  proof cases
    case (1 L j)
    have L: "allocated L u = allocated (fst s) u" "unused L" "alloc_inv (L, snd s) = alloc_inv s" for u
      using s 1(2) by simp_all
    have old: "allocated (fst s) u \<Longrightarrow> L ! nat u = fst s ! nat u" for u
      using 1(2) by (simp add: allocated_def nth_append nat_less_iff)
    show ?thesis
    proof (cases "t < 0 \<or> allocated L t")
      case True
      with 1(1) L old show ?thesis
        by (auto simp: place_def step_fails_def step_keeps_def keeps_locs_def alloc_inv_def)
    next
      case False
      let ?M = "L[nat t := (L ! nat t)\<lparr>loc_kind := k, loc_slot := snd s, loc_slots := n\<rparr>]"
      have t: "0 \<le> t" "\<not> allocated L t" using False by simp_all
      have "unused ?M"
        using L(2) t(1) 1(3) by (auto simp: unused_def dest!: set_update_subset_insert [THEN subsetD])
      moreover have al: "allocated ?M u \<longleftrightarrow> allocated (fst s) u \<or> u = t" for u
        using t 1(3) k L(1) [of u] by (auto simp: allocated_def nth_list_update nat_less_iff)
      moreover have "keeps_locs (fst s) ?M"
        unfolding keeps_locs_def
      proof (intro allI impI)
        fix u assume u: "allocated (fst s) u"
        with L(1) [of u] t(2) have "u \<noteq> t" by auto
        with u t(1) have "nat u \<noteq> nat t" by (auto simp: allocated_def)
        with old [OF u] show "?M ! nat u = fst s ! nat u" by simp
      qed
      moreover have "alloc_inv (?M, c_int (snd s + n)) \<and> c_int (snd s + n) \<le> snd s + int c"
        if inv: "alloc_inv s" and fit: "fits g (snd s + int c)"
      proof -
        have nx: "0 \<le> snd s" using inv by (simp add: alloc_inv_def)
        have "fits g (int c)" by (rule fits_less [OF fit]) (use nx in simp)
        with n have c: "n = int c" "1 \<le> c" by simp_all
        moreover have "c_int (snd s + n) = snd s + n" using fits_c_int [OF fit] nx c by simp
        ultimately show ?thesis
          using placed_inv [of L "snd s" t k n] inv L(3) t 1(3) k by simp
      qed
      ultimately show ?thesis using 1(1) t by (simp add: place_def step_keeps_def)
    qed
  qed (simp add: place_def step_fails_def)
qed

fun instr_temps :: "Instr \<Rightarrow> int set"
  and instrs_temps :: "Instr list \<Rightarrow> int set"
where
  "instr_temps (IK_ALLOCA t value) = {t}"
| "instr_temps (IK_PARAM t value) = {t}"
| "instr_temps (IK_CONST t value) = {t}"
| "instr_temps (IK_COPY t a) = {t}"
| "instr_temps (IK_ADDROF t t2) = {t}"
| "instr_temps (IK_LOAD64 t a) = {t}"
| "instr_temps (IK_LOAD32 t a) = {t}"
| "instr_temps (IK_LOADS32 t a) = {t}"
| "instr_temps (IK_LOAD16 t a) = {t}"
| "instr_temps (IK_LOADS16 t a) = {t}"
| "instr_temps (IK_LOAD8 t a) = {t}"
| "instr_temps (IK_LOADS8 t a) = {t}"
| "instr_temps (IK_STORE64 a b) = {}"
| "instr_temps (IK_STORE32 a b) = {}"
| "instr_temps (IK_STORE16 a b) = {}"
| "instr_temps (IK_STORE8 a b) = {}"
| "instr_temps (IK_SEXT t value a) = {t}"
| "instr_temps (IK_ZEXT t value a) = {t}"
| "instr_temps (IK_TRUNC t value a) = {t}"
| "instr_temps (IK_BIN t op a b) = {t}"
| "instr_temps (IK_CALL r name args) = (if 0 \<le> r then {r} else {})"
| "instr_temps (IK_CALLI r callee args) = (if 0 \<le> r then {r} else {})"
| "instr_temps (IK_COND t cs co ts to fs fo) =
     instrs_temps cs \<union> instrs_temps ts \<union> instrs_temps fs \<union> {t}"
| "instrs_temps [] = {}"
| "instrs_temps (i # is) = instr_temps i \<union> instrs_temps is"

definition function_temps :: "Function \<Rightarrow> int set" where
  "function_temps fn = (\<Union>b \<in> set (fn_blocks fn). instrs_temps (block_instrs b))"

text \<open>The slots the instructions ask for, if every definition takes its own.\<close>

fun instr_cells :: "Target \<Rightarrow> Instr \<Rightarrow> nat"
  and instrs_cells :: "Target \<Rightarrow> Instr list \<Rightarrow> nat"
where
  "instr_cells g (IK_COND t cs co ts to fs fo) =
     instrs_cells g cs + (instrs_cells g ts + (instrs_cells g fs + 1))"
| "instr_cells g (IK_ALLOCA t value) = object_cells g (c_int value)"
| "instr_cells g i = (if instr_temps i = {} then 0 else 1)"
| "instrs_cells g [] = 0"
| "instrs_cells g (i # is) = instr_cells g i + instrs_cells g is"

definition frame_bytes :: "Target \<Rightarrow> Function \<Rightarrow> int" where
  "frame_bytes g fn = slot_width g * int (\<Sum>b \<leftarrow> fn_blocks fn. instrs_cells g (block_instrs b))"

lemma allocates_alloc_def: "allocates g (\<lambda>(locs, nx). alloc_def locs nx t) {t} 1"
  using allocates_place [of LOC_STACK g 1 1 t] by (simp add: alloc_place case_prod_unfold)

lemma allocates_alloc_object:
  "allocates g (\<lambda>(locs, nx). alloc_object g locs nx t m) {t} (object_cells g m)"
  using allocates_place [of LOC_OBJECT g "object_cells g m" "object_slots g m" t] object_slots_cells [of g m]
  by (simp add: alloc_place case_prod_unfold)

lemma allocate_instr_curry:
  "allocate_instr g i = (\<lambda>s. case s of (locs, nx) \<Rightarrow> allocate_instr g i (locs, nx))"
  by auto

lemma allocates_allocate:
  "allocates g (allocate_instr g i) (instr_temps i) (instr_cells g i)"
  "allocates g (allocate_instrs g is) (instrs_temps is) (instrs_cells g is)"
proof (induction i and "is" rule: instr_temps_instrs_temps.induct)
  case (23 t cs co ts to fs fo)
  have "allocates g (\<lambda>s. res_bind (allocate_instrs g cs s) (\<lambda>s. res_bind (allocate_instrs g ts s)
      (\<lambda>s. res_bind (allocate_instrs g fs s) (\<lambda>(locs, nx). alloc_def locs nx t))))
      (instrs_temps cs \<union> (instrs_temps ts \<union> (instrs_temps fs \<union> {t})))
      (instrs_cells g cs + (instrs_cells g ts + (instrs_cells g fs + 1)))"
    using 23 by (intro allocates_bind allocates_alloc_def)
  then show ?case by (subst allocate_instr_curry) (simp add: case_prod_unfold Un_assoc)
next
  case 24
  have "allocate_instrs g [] = Inr" by auto
  then show ?case by (simp add: allocates_Inr_id)
next
  case (25 i "is")
  have "allocate_instrs g (i # is) = (\<lambda>s. res_bind (allocate_instr g i s) (allocate_instrs g is))"
    by auto
  then show ?case using 25 by (simp add: allocates_bind)
qed (subst allocate_instr_curry,
    simp add: allocates_alloc_def [unfolded One_nat_def] allocates_alloc_object allocates_Inr_id [unfolded id_def])+

section \<open>Use counts are numbers of occurrences\<close>

definition operand_uses :: "Operand \<Rightarrow> int \<Rightarrow> nat" where
  "operand_uses op t = (case op of OP_TEMP value \<Rightarrow> if c_int value = t then 1 else 0 | _ \<Rightarrow> 0)"

fun operands_uses :: "Operand list \<Rightarrow> int \<Rightarrow> nat" where
  "operands_uses [] t = 0"
| "operands_uses (op # ops) t = operand_uses op t + operands_uses ops t"

fun instr_uses :: "Instr \<Rightarrow> int \<Rightarrow> nat"
  and instrs_uses :: "Instr list \<Rightarrow> int \<Rightarrow> nat"
where
  "instr_uses (IK_ALLOCA r value) t = 0"
| "instr_uses (IK_PARAM r value) t = 0"
| "instr_uses (IK_CONST r value) t = 0"
| "instr_uses (IK_COPY r a) t = operand_uses a t"
| "instr_uses (IK_LOAD64 r a) t = operand_uses a t"
| "instr_uses (IK_LOAD32 r a) t = operand_uses a t"
| "instr_uses (IK_LOADS32 r a) t = operand_uses a t"
| "instr_uses (IK_LOAD16 r a) t = operand_uses a t"
| "instr_uses (IK_LOADS16 r a) t = operand_uses a t"
| "instr_uses (IK_LOAD8 r a) t = operand_uses a t"
| "instr_uses (IK_LOADS8 r a) t = operand_uses a t"
| "instr_uses (IK_SEXT r value a) t = operand_uses a t"
| "instr_uses (IK_ZEXT r value a) t = operand_uses a t"
| "instr_uses (IK_TRUNC r value a) t = operand_uses a t"
| "instr_uses (IK_ADDROF r t2) t = (if t2 = t then 1 else 0)"
| "instr_uses (IK_STORE64 a b) t = operand_uses a t + operand_uses b t"
| "instr_uses (IK_STORE32 a b) t = operand_uses a t + operand_uses b t"
| "instr_uses (IK_STORE16 a b) t = operand_uses a t + operand_uses b t"
| "instr_uses (IK_STORE8 a b) t = operand_uses a t + operand_uses b t"
| "instr_uses (IK_BIN r op a b) t = operand_uses a t + operand_uses b t"
| "instr_uses (IK_CALL r name args) t = operands_uses args t"
| "instr_uses (IK_CALLI r callee args) t = operand_uses callee t + operands_uses args t"
| "instr_uses (IK_COND r cs co ts to fs fo) t =
     instrs_uses cs t + operand_uses co t + instrs_uses ts t + operand_uses to t +
     instrs_uses fs t + operand_uses fo t"
| "instrs_uses [] t = 0"
| "instrs_uses (i # is) t = instr_uses i t + instrs_uses is t"

fun term_uses :: "Terminator \<Rightarrow> int \<Rightarrow> nat" where
  "term_uses (TK_RET op) t = operand_uses op t"
| "term_uses (TK_JUMP yes) t = 0"
| "term_uses (TK_BRANCH op yes no) t = operand_uses op t"
| "term_uses (TK_BRANCH_CMP binop a b yes no) t = operand_uses a t + operand_uses b t"

definition function_uses :: "Function \<Rightarrow> int \<Rightarrow> nat" where
  "function_uses fn t =
     (\<Sum>b \<leftarrow> fn_blocks fn. instrs_uses (block_instrs b) t + term_uses (block_term b) t)"

text \<open>The contract of every step: it dies if it meets a use of a temporary that has no slot,
and otherwise adds the counts \<open>c\<close> and changes nothing else.\<close>

definition counted :: "(int \<Rightarrow> nat) \<Rightarrow> LocArray \<Rightarrow> LocArray \<Rightarrow> bool" where
  "counted c locs locs' \<longleftrightarrow>
     length locs' = length locs \<and>
     (\<forall>i < length locs. locs' ! i =
        (locs ! i)\<lparr>loc_uses := loc_uses (locs ! i) + int (c (int i))\<rparr>)"

definition counts :: "(LocArray \<Rightarrow> LocArray res) \<Rightarrow> (int \<Rightarrow> nat) \<Rightarrow> bool" where
  "counts f c \<longleftrightarrow>
     (\<forall>locs.
        case f locs of
          Inl e \<Rightarrow> e = Die ''missing allocation'' \<and> (\<exists>t. 0 < c t \<and> \<not> allocated locs t)
        | Inr locs' \<Rightarrow> counted c locs locs' \<and> (\<forall>t. 0 < c t \<longrightarrow> allocated locs t))"

lemma counts_Inr:
  assumes "counts f c" and "f locs = Inr locs'"
  shows "counted c locs locs'" and "0 < c t \<Longrightarrow> allocated locs t"
  using assms(1) [unfolded counts_def, rule_format, of locs] assms(2) by auto

lemma counts_Inl:
  "counts f c \<Longrightarrow> f locs = Inl e \<Longrightarrow>
   e = Die ''missing allocation'' \<and> (\<exists>t. 0 < c t \<and> \<not> allocated locs t)"
  by (drule counts_def [THEN iffD1, rule_format, of _ _ locs]) simp

lemma allocated_counted: "counted c locs locs' \<Longrightarrow> allocated locs' t = allocated locs t"
  by (auto simp: counted_def allocated_def)

lemma counted_trans:
  "counted c locs locs' \<Longrightarrow> counted d locs' locs'' \<Longrightarrow> counted (\<lambda>t. c t + d t) locs locs''"
  by (simp add: counted_def)

lemma counts_Inr_id: "counts Inr (\<lambda>t. 0)"
  by (simp add: counts_def counted_def)

lemma counts_cong: "counts f c \<Longrightarrow> (\<And>locs. f locs = h locs) \<Longrightarrow> (\<And>t. c t = d t) \<Longrightarrow> counts h d"
  using ext [of f h] ext [of c d] by simp

lemma counts_const: "(\<And>locs. f locs = Inr locs) \<Longrightarrow> (\<And>t. c t = 0) \<Longrightarrow> counts f c"
  by (rule counts_cong [OF counts_Inr_id]) auto

lemma counts_bind:
  assumes f: "counts f c" and h: "counts h d"
  shows "counts (\<lambda>locs. res_bind (f locs) h) (\<lambda>t. c t + d t)"
  unfolding counts_def
proof (intro allI)
  fix locs
  show "case res_bind (f locs) h of
      Inl e \<Rightarrow> e = Die ''missing allocation'' \<and> (\<exists>t. 0 < c t + d t \<and> \<not> allocated locs t)
    | Inr locs' \<Rightarrow> counted (\<lambda>t. c t + d t) locs locs' \<and>
        (\<forall>t. 0 < c t + d t \<longrightarrow> allocated locs t)"
  proof (cases "f locs")
    case (Inl e)
    with counts_Inl [OF f Inl] show ?thesis by auto
  next
    case (Inr l1)
    note a = counts_Inr [OF f Inr]
    show ?thesis
    proof (cases "h l1")
      case (Inl e)
      with counts_Inl [OF h Inl] allocated_counted [OF a(1)] Inr show ?thesis by auto
    next
      case 2: (Inr l2)
      with counts_Inr [OF h 2] a allocated_counted [OF a(1)] Inr counted_trans [OF a(1)]
      show ?thesis by auto
    qed
  qed
qed

lemma lookup_loc_allocated:
  "lookup_loc locs t = (if allocated locs t then Inr (locs ! nat t) else die ''missing allocation'')"
  by (auto simp: lookup_loc_def allocated_def)

lemma counts_add_use: "counts (\<lambda>locs. add_use locs t) (\<lambda>u. if t = u then 1 else 0)"
  by (auto simp: counts_def add_use_def lookup_loc_allocated counted_def die_def nth_list_update
      split: if_splits) (auto simp: allocated_def)

lemma counts_count_operand_use: "counts (count_operand_use op) (operand_uses op)"
proof (cases op)
  case (OP_TEMP v)
  have "count_operand_use op = (\<lambda>locs. add_use locs (c_int v))"
    and "operand_uses op = (\<lambda>u. if c_int v = u then 1 else 0)"
    using OP_TEMP by (auto simp: count_operand_use_def operand_uses_def)
  then show ?thesis using counts_add_use by simp
qed (rule counts_const; simp add: count_operand_use_def operand_uses_def)+

lemma counts_count_operand_uses: "counts (count_operand_uses ops) (operands_uses ops)"
proof (induction ops)
  case Nil
  show ?case by (rule counts_const) auto
next
  case (Cons op ops)
  show ?case
    by (rule counts_cong [OF counts_bind [OF counts_count_operand_use Cons]]) auto
qed

lemma counts_two:
  "(\<And>locs. f locs = count_operand_uses [a, b] locs) \<Longrightarrow>
   (\<And>t. c t = operand_uses a t + operand_uses b t) \<Longrightarrow> counts f c"
  by (rule counts_cong [OF counts_count_operand_uses [of "[a, b]"]]) simp_all

lemma counts_count_instr:
  "counts (count_instr_use i) (instr_uses i)"
  "counts (count_instr_uses is) (instrs_uses is)"
proof (induction i and "is" rule: instr_temps_instrs_temps.induct)
  case (5 t t2)
  show ?case by (rule counts_cong [OF counts_add_use]) auto
next
  case (23 t cs co ts to fs fo)
  note op = counts_count_operand_use
  have "counts (\<lambda>locs. res_bind (count_instr_uses cs locs) (\<lambda>locs.
     res_bind (count_operand_use co locs) (\<lambda>locs.
     res_bind (count_instr_uses ts locs) (\<lambda>locs.
     res_bind (count_operand_use to locs) (\<lambda>locs.
     res_bind (count_instr_uses fs locs) (\<lambda>locs. count_operand_use fo locs))))))
    (\<lambda>t. instrs_uses cs t + (operand_uses co t + (instrs_uses ts t + (operand_uses to t +
      (instrs_uses fs t + operand_uses fo t)))))"
    by (intro counts_bind op 23)
  then show ?case by (rule counts_cong) auto
next
  case (25 i "is")
  show ?case by (rule counts_cong [OF counts_bind [OF 25]]) auto
next
  case (22 r callee args)
  show ?case
    by (rule counts_cong [OF counts_bind [OF counts_count_operand_use counts_count_operand_uses]]) auto
qed ((rule counts_const; simp; fail) |
    (rule counts_two; rule count_instr_use.simps instr_uses.simps) |
    (rule counts_cong [OF counts_count_operand_use]; simp; fail) |
    (rule counts_cong [OF counts_count_operand_uses]; simp; fail))+

lemma counts_count_term: "counts (count_term_use t) (term_uses t)"
  by (cases t)
    ((rule counts_const; simp; fail) |
     (hypsubst; rule counts_two; rule count_term_use.simps term_uses.simps) |
     (rule counts_cong [OF counts_count_operand_use]; simp; fail) |
     (rule counts_cong [OF counts_count_operand_uses]; simp; fail))+

lemma counts_count_blocks:
  "counts (count_block_uses bs)
    (\<lambda>t. \<Sum>b \<leftarrow> bs. instrs_uses (block_instrs b) t + term_uses (block_term b) t)"
proof (induction bs)
  case Nil
  show ?case by (rule counts_const) auto
next
  case (Cons b bs)
  show ?case
    by (rule counts_cong [OF counts_bind [OF counts_count_instr(2)
            counts_bind [OF counts_count_term Cons]]]) auto
qed

lemma counts_count_function: "counts (count_function_uses fn) (function_uses fn)"
  by (rule counts_cong [OF counts_count_blocks])
    (auto simp: count_function_uses_def function_uses_def)

lemma allocates_blocks:
  "allocates g (allocate_blocks g bs) (\<Union>b \<in> set bs. instrs_temps (block_instrs b))
     (\<Sum>b \<leftarrow> bs. instrs_cells g (block_instrs b))"
proof (induction bs)
  case Nil
  have "allocate_blocks g [] = Inr" by auto
  then show ?case by (simp add: allocates_Inr_id)
next
  case (Cons b bs)
  have "allocate_blocks g (b # bs) =
      (\<lambda>s. res_bind (allocate_instrs g (block_instrs b) s) (allocate_blocks g bs))"
    by auto
  then show ?case using allocates_bind [OF allocates_allocate(2) Cons] by simp
qed

section \<open>The whole pass\<close>

lemma alloc_inv_start: "alloc_inv ([], 0)" "unused []" "\<not> allocated [] t"
  by (simp_all add: alloc_inv_def slots_in_frame_def slots_disjoint_def unused_def allocated_def)

lemma slots_counted:
  assumes "counted c locs locs'"
  shows "slots_in_frame locs' n = slots_in_frame locs n" "slots_disjoint locs' = slots_disjoint locs"
proof -
  have "loc_slot (locs' ! nat t) = loc_slot (locs ! nat t)"
    "loc_slots (locs' ! nat t) = loc_slots (locs ! nat t)" if "allocated locs t" for t
    using assms that by (simp_all add: counted_def allocated_def nat_less_iff)
  then show "slots_in_frame locs' n = slots_in_frame locs n" "slots_disjoint locs' = slots_disjoint locs"
    using allocated_counted [OF assms] by (auto simp: slots_in_frame_def slots_disjoint_def)
qed

lemma allocate_function_steps:
  assumes "allocate_function g fn = Inr (locs, frame)"
  obtains l0 where "unused l0" and "counted (function_uses fn) l0 locs"
    and "\<And>t. allocated l0 t \<longleftrightarrow> t \<in> function_temps fn"
    and "frame_bytes g fn < 2 ^ 31 \<Longrightarrow> alloc_inv (l0, frame) \<and> slot_width g * frame \<le> frame_bytes g fn"
proof -
  from assms obtain l0 where a: "allocate_blocks g (fn_blocks fn) ([], 0) = Inr (l0, frame)"
    and c: "count_function_uses fn l0 = Inr locs"
    by (auto simp: allocate_function_def)
  have r: "step_keeps g (function_temps fn) (\<Sum>b \<leftarrow> fn_blocks fn. instrs_cells g (block_instrs b)) ([], 0) (l0, frame)"
    unfolding function_temps_def by (rule allocates_Inr [OF allocates_blocks _ a]) (simp add: alloc_inv_start)
  show thesis
  proof (rule that)
    show "counted (function_uses fn) l0 locs" by (rule counts_Inr(1) [OF counts_count_function c])
  qed (use r in \<open>auto simp: step_keeps_def alloc_inv_start fits_def frame_bytes_def slot_width_def split: if_splits\<close>)
qed

definition alloc_sample :: Function where
  "alloc_sample = \<lparr>fn_name = ''f'', fn_blocks =
     [\<lparr>block_id = 0,
       block_instrs = [IK_PARAM 0 0, IK_ALLOCA 1 12, IK_ADDROF 2 1,
         IK_COND 4 [] (OP_TEMP 0) [IK_CONST 3 7] (OP_TEMP 3) [] (OP_IMM 5)],
       block_term = TK_RET (OP_TEMP 4)\<rparr>]\<rparr>"

text \<open>
  C7. When the function's definitions ask for less than 2 GiB of stack, the slots \<^verbatim>\<open>allocate_function\<close> gives
  to its temporaries lie inside the frame it returns, the frame takes no more bytes than asked for, and no
  two temporaries share a slot. (A larger frame can make the \<^verbatim>\<open>int\<close> arithmetic of the slots wrap.)
\<close>

theorem allocate_function_disjoint:
  assumes "allocate_function g fn = Inr (locs, frame)" and "frame_bytes g fn < 2 ^ 31"
  shows "slots_in_frame locs frame \<and> slots_disjoint locs \<and> 0 \<le> frame \<and>
    slot_width g * frame \<le> frame_bytes g fn"
proof -
  obtain l0 where "alloc_inv (l0, frame) \<and> slot_width g * frame \<le> frame_bytes g fn"
    and c: "counted (function_uses fn) l0 locs"
    using allocate_function_steps [OF assms(1)] assms(2) by metis
  then show ?thesis by (simp add: alloc_inv_def slots_counted [OF c])
qed

theorem allocate_function_disjoint_witness:
  "\<exists>locs. allocate_function TARGET_AMD64 alloc_sample = Inr (locs, 6) \<and>
     slots_in_frame locs 6 \<and> slots_disjoint locs"
proof -
  have "map_sum id snd (allocate_function TARGET_AMD64 alloc_sample) = Inr 6" by code_simp
  moreover have "frame_bytes TARGET_AMD64 alloc_sample < 2 ^ 31" by code_simp
  ultimately show ?thesis
    using allocate_function_disjoint [of TARGET_AMD64 alloc_sample _ 6]
    by (cases "allocate_function TARGET_AMD64 alloc_sample") auto
qed

text \<open>
  C8. After \<^verbatim>\<open>allocate_function\<close>, \<^verbatim>\<open>lookup_loc\<close> finds exactly the temporaries the function defines
  (in nested conditionals too), and the count it finds for each is the number of its uses.
\<close>

theorem allocate_function_lookup:
  assumes "allocate_function g fn = Inr (locs, frame)"
  shows "(t \<in> function_temps fn \<longrightarrow>
           (\<exists>loc. lookup_loc locs t = Inr loc \<and> loc_uses loc = int (function_uses fn t))) \<and>
         (t \<notin> function_temps fn \<longrightarrow> lookup_loc locs t = die ''missing allocation'')"
proof -
  obtain l0 where i: "unused l0" and c: "counted (function_uses fn) l0 locs"
    and a: "\<And>t. allocated l0 t \<longleftrightarrow> t \<in> function_temps fn"
    using allocate_function_steps [OF assms] by metis
  have "loc_uses (locs ! nat t) = int (function_uses fn t)" if "allocated l0 t"
    using that i c by (simp add: unused_def counted_def allocated_def nat_less_iff)
  then show ?thesis
    using a [of t] allocated_counted [OF c, of t] by (simp add: lookup_loc_allocated)
qed

theorem allocate_function_lookup_witness:
  "\<exists>locs loc. allocate_function TARGET_I386 alloc_sample = Inr (locs, 7) \<and>
     lookup_loc locs 0 = Inr loc \<and> loc_uses loc = 1 \<and>
     lookup_loc locs 9 = die ''missing allocation''"
proof -
  have "map_sum id snd (allocate_function TARGET_I386 alloc_sample) = Inr 7" by code_simp
  then obtain locs where a: "allocate_function TARGET_I386 alloc_sample = Inr (locs, 7)"
    by (cases "allocate_function TARGET_I386 alloc_sample") auto
  have "0 \<in> function_temps alloc_sample" "9 \<notin> function_temps alloc_sample"
    and "function_uses alloc_sample 0 = 1" by code_simp+
  then show ?thesis
    using a allocate_function_lookup [OF a, of 0] allocate_function_lookup [OF a, of 9] by auto
qed

text \<open>
  C9. If every temporary a function defines is at least 0 and below \<^verbatim>\<open>2 ^ 30\<close>, \<^verbatim>\<open>allocate_function\<close> returns
  unless some temporary is used but never defined, and in that case it dies with its own message.
\<close>

theorem allocate_function_total:
  assumes "\<forall>t \<in> function_temps fn. 0 \<le> t \<and> t < 2 ^ 30"
  shows "if \<forall>t. 0 < function_uses fn t \<longrightarrow> t \<in> function_temps fn
    then (\<exists>r. allocate_function g fn = Inr r)
    else allocate_function g fn = die ''missing allocation''"
proof -
  have "\<forall>t \<in> (\<Union>b \<in> set (fn_blocks fn). instrs_temps (block_instrs b)). 0 \<le> t \<and> t < 2 ^ 30"
    using assms by (simp add: function_temps_def)
  then obtain s where s: "allocate_blocks g (fn_blocks fn) ([], 0) = Inr s"
    using allocates_total [OF allocates_blocks, of "([], 0)"] by (metis alloc_inv_start(2) fst_conv)
  have a: "allocated (fst s) t \<longleftrightarrow> t \<in> function_temps fn" for t
    using allocates_Inr [OF allocates_blocks _ s] by (simp add: step_keeps_def function_temps_def alloc_inv_start)
  show ?thesis
  proof (cases "count_function_uses fn (fst s)")
    case (Inl e)
    with counts_Inl [OF counts_count_function Inl] s a show ?thesis
      by (auto simp: allocate_function_def die_def case_prod_unfold)
  next
    case (Inr locs)
    with counts_Inr(2) [OF counts_count_function Inr] s a show ?thesis
      by (auto simp: allocate_function_def case_prod_unfold)
  qed
qed

theorem allocate_function_total_witness:
  "\<exists>r. allocate_function TARGET_AARCH64 alloc_sample = Inr r"
proof -
  have t: "\<forall>t \<in> function_temps alloc_sample. 0 \<le> t \<and> t < 2 ^ 30" by code_simp
  have "\<forall>t. 0 < function_uses alloc_sample t \<longrightarrow> t \<in> function_temps alloc_sample"
    by (simp add: alloc_sample_def function_uses_def function_temps_def operand_uses_def int_ok_def)
  with allocate_function_total [OF t, of TARGET_AARCH64] show ?thesis by simp
qed

section \<open>Where \<^verbatim>\<open>int\<close> is too narrow\<close>

text \<open>
  An object of 2 GiB less seven bytes, a size the reader accepts, gets a negative number of slots, and the
  temporary \<^verbatim>\<open>2 ^ 30\<close> keeps \<^verbatim>\<open>ensure_loc\<close> in its loop for ever.
\<close>

lemma huge_object_wraps: "object_slots TARGET_AMD64 2147483641 = - 268435456"
  by code_simp

lemma huge_temp_diverges:
  assumes "2 ^ 30 \<le> t"
  shows "allocate_function g \<lparr>fn_name = f, fn_blocks = \<lparr>block_id = n, block_instrs = IK_CONST t v # is,
    block_term = term\<rparr> # bs\<rparr> = Inl Diverges"
  by (simp add: allocate_function_def alloc_def_def ensure_loc_stuck [OF assms])

end
