(* ===== verification/TextIO.thy ===== *)
theory TextIO
  imports Prelude
begin

text \<open>
  The text layer of \<^verbatim>\<open>hcc_m1.c\<close>: lines of the input file, blank-separated tokens of a line and
  decimal integers. A \<^verbatim>\<open>FILE*\<close> open for reading is the list of characters still to be read; a
  \<^verbatim>\<open>char**\<close> cursor is the rest of the line it points to. The code ends a token by storing a
  NUL in the line buffer and moves the cursor behind it, so a token is the value returned and
  the rest of the line the new cursor.
\<close>

section \<open>Lines\<close>

definition LINE_CAP :: nat where
  "LINE_CAP = 8192"

definition newline :: char where
  "newline = CHR 0x0A"

definition carriage_return :: char where
  "carriage_return = CHR 0x0D"

text \<open>
  The buffer is read as a C string afterwards: what follows a NUL byte in it is not seen.
\<close>

definition c_string :: "string \<Rightarrow> string" where
  "c_string buf = takeWhile (\<lambda>c. c \<noteq> CHR 0x00) buf"

fun read_line_loop :: "nat \<Rightarrow> string \<Rightarrow> string \<Rightarrow> ((string \<times> string) option) res" where
  "read_line_loop cap buf [] = Inr (if buf = [] then None else Some (c_string buf, []))"
| "read_line_loop cap buf (c # file) =
     (if c = newline then Inr (Some (c_string buf, file))
      else if c \<noteq> carriage_return then
        (if length buf + 1 \<ge> cap then die ''input line too long''
         else read_line_loop cap (buf @ [c]) file)
      else read_line_loop cap buf file)"

definition read_line :: "string \<Rightarrow> nat \<Rightarrow> ((string \<times> string) option) res" where
  "read_line file cap = read_line_loop cap [] file"

section \<open>Tokens\<close>

definition is_blank :: "char \<Rightarrow> bool" where
  "is_blank c \<longleftrightarrow> c = CHR '' '' \<or> c = CHR 0x09"

definition next_token :: "string \<Rightarrow> string option \<times> string" where
  "next_token cursor =
     (let p = dropWhile is_blank cursor in
      if p = [] then (None, [])
      else (Some (takeWhile (\<lambda>c. \<not> is_blank c) p),
            tl (dropWhile (\<lambda>c. \<not> is_blank c) p)))"

definition need_token :: "string \<Rightarrow> (string \<times> string) res" where
  "need_token cursor =
     (case next_token cursor of
        (None, rest) \<Rightarrow> die ''truncated input line''
      | (Some tok, rest) \<Rightarrow> Inr (tok, rest))"

section \<open>Integers\<close>

text \<open>
  The accumulation \<^verbatim>\<open>value * 10 + (*text - '0')\<close> is in C's \<^verbatim>\<open>long\<close>. Signed overflow is undefined in
  C; the model wraps around, as the compilers this file is built with do.
\<close>

fun parse_digits :: "int \<Rightarrow> string \<Rightarrow> int \<times> string" where
  "parse_digits value [] = (value, [])"
| "parse_digits value (c # text) =
     (if is_digit c then parse_digits (c_long (value * 10 + (int (char_code c) - 48))) text
      else (value, c # text))"

definition parse_long_text :: "string \<Rightarrow> int res" where
  "parse_long_text text =
     (let (sign, text) =
        (if text \<noteq> [] \<and> hd text = CHR ''-'' then (-1, tl text) else (1, text));
        (value, rest) = parse_digits 0 text
      in if rest \<noteq> [] then die_token ''bad integer token'' rest
         else Inr (c_long (sign * value)))"

definition parse_long_token :: "string \<Rightarrow> (int \<times> string) res" where
  "parse_long_token cursor =
     res_bind (need_token cursor) (\<lambda>(tok, cursor).
     res_bind (parse_long_text tok) (\<lambda>n. Inr (n, cursor)))"

definition parse_int_token :: "string \<Rightarrow> (int \<times> string) res" where
  "parse_int_token cursor =
     res_bind (need_token cursor) (\<lambda>(tok, cursor).
     res_bind (parse_long_text tok) (\<lambda>n. Inr (c_int n, cursor)))"

section \<open>Facts about lines\<close>

text \<open>
  A line fit to be read back: it holds no line end, no NUL and fits the buffer.
\<close>

definition line_char :: "char \<Rightarrow> bool" where
  "line_char c \<longleftrightarrow> c \<noteq> newline \<and> c \<noteq> carriage_return \<and> c \<noteq> CHR 0x00"

definition fits_line :: "string \<Rightarrow> bool" where
  "fits_line l \<longleftrightarrow> list_all line_char l \<and> length l < LINE_CAP"

lemma c_string_line [simp]: "list_all line_char l \<Longrightarrow> c_string l = l"
  by (simp add: c_string_def takeWhile_eq_all_conv list_all_iff line_char_def)

lemma read_line_loop_line:
  "list_all line_char l \<Longrightarrow> list_all line_char buf \<Longrightarrow> length buf + length l < cap \<Longrightarrow>
   read_line_loop cap buf (l @ newline # file) = Inr (Some (buf @ l, file))"
proof (induction l arbitrary: buf)
  case (Cons c l)
  then show ?case by (simp add: line_char_def)
qed simp

lemma read_line_line [text_simps]:
  "fits_line l \<Longrightarrow> read_line (l @ newline # file) LINE_CAP = Inr (Some (l, file))"
  by (simp add: read_line_def fits_line_def read_line_loop_line)

lemma read_line_empty [simp]: "read_line [] cap = Inr None"
  by (simp add: read_line_def)

lemma read_line_loop_shorter:
  "read_line_loop cap buf file = Inr (Some (l, rest)) \<Longrightarrow>
   rest = [] \<or> length rest < length file"
  by (induction cap buf "file" rule: read_line_loop.induct) (auto split: if_splits)

lemma read_line_shorter: "read_line file cap = Inr (Some (l, rest)) \<Longrightarrow> length rest < length file"
  using read_line_loop_shorter [of cap "[]" "file" l rest] by (cases "file") (auto simp: read_line_def)

lemma read_line_loop_no_newline:
  "read_line_loop cap buf file = Inr (Some (l, rest)) \<Longrightarrow> newline \<notin> set buf \<Longrightarrow> newline \<notin> set l"
  by (induction cap buf "file" rule: read_line_loop.induct)
    (auto simp: c_string_def split: if_splits dest: set_takeWhileD)

lemma read_line_no_newline: "read_line file cap = Inr (Some (l, rest)) \<Longrightarrow> newline \<notin> set l"
  by (auto simp: read_line_def dest: read_line_loop_no_newline)

lemma read_line_loop_no_fuel: "read_line_loop cap buf file \<noteq> Inl Diverges"
  by (induction cap buf "file" rule: read_line_loop.induct) auto

lemma read_line_no_fuel [simp]: "read_line file cap \<noteq> Inl Diverges"
  by (simp add: read_line_def read_line_loop_no_fuel)

section \<open>Facts about tokens\<close>

text \<open>A token: at least one character, none of them blank.\<close>

definition token_char :: "char \<Rightarrow> bool" where
  "token_char c \<longleftrightarrow> line_char c \<and> \<not> is_blank c"

definition is_token :: "string \<Rightarrow> bool" where
  "is_token t \<longleftrightarrow> t \<noteq> [] \<and> list_all token_char t"

lemma token_not_blank: "list_all token_char t \<Longrightarrow> c \<in> set t \<Longrightarrow> \<not> is_blank c"
  by (auto simp: list_all_iff token_char_def)

lemma takeWhile_token: "list_all token_char t \<Longrightarrow> takeWhile (\<lambda>c. \<not> is_blank c) t = t"
  by (simp add: takeWhile_eq_all_conv token_not_blank)

lemma dropWhile_token: "list_all token_char t \<Longrightarrow> dropWhile (\<lambda>c. \<not> is_blank c) t = []"
  by (simp add: dropWhile_eq_Nil_conv token_not_blank)

lemma dropWhile_blank_token: "is_token t \<Longrightarrow> dropWhile is_blank (t @ s) = t @ s"
  by (cases t) (auto simp: is_token_def token_char_def)

lemma is_blank_space [simp]: "is_blank (CHR '' '')"
  by (simp add: is_blank_def)

lemma next_token_last: "is_token t \<Longrightarrow> next_token t = (Some t, [])"
  using dropWhile_blank_token [of t "[]"]
  by (simp add: next_token_def is_token_def takeWhile_token dropWhile_token)

lemma next_token_space: "is_token t \<Longrightarrow> next_token (t @ CHR '' '' # s) = (Some t, s)"
  using dropWhile_blank_token [of t "CHR '' '' # s"]
  by (auto simp: next_token_def is_token_def token_not_blank takeWhile_append dropWhile_append)

lemma need_token_last [text_simps]: "is_token t \<Longrightarrow> need_token t = Inr (t, [])"
  by (simp add: need_token_def next_token_last)

lemma need_token_space [text_simps]: "is_token t \<Longrightarrow> need_token (t @ CHR '' '' # s) = Inr (t, s)"
  by (simp add: need_token_def next_token_space)

lemma need_token_no_fuel [simp]: "need_token cursor \<noteq> Inl Diverges"
  by (simp add: need_token_def split: prod.split option.split)

section \<open>Facts about integers\<close>

lemma is_digit_token_char: "is_digit c \<Longrightarrow> token_char c"
  by (auto simp: is_digit_def token_char_def line_char_def is_blank_def newline_def
      carriage_return_def)

lemma is_digit_not_minus: "is_digit c \<Longrightarrow> c \<noteq> CHR ''-''"
  by (auto simp: is_digit_def)

lemma is_token_dec_nat: "is_token (dec_nat n)"
  using dec_nat_digits [of n] by (auto simp: is_token_def list_all_iff is_digit_token_char)

lemma is_token_dec [simp]: "is_token (dec n)"
  using is_token_dec_nat
  by (auto simp: dec_def is_token_def token_char_def line_char_def is_blank_def newline_def
      carriage_return_def)

lemma parse_digits_append:
  "list_all is_digit ds \<Longrightarrow>
   parse_digits v (ds @ s) = parse_digits (fst (parse_digits v ds)) s"
  by (induction ds arbitrary: v) auto

lemma parse_digits_all: "list_all is_digit ds \<Longrightarrow> snd (parse_digits v ds) = []"
  by (induction ds arbitrary: v) auto

lemma c_long_step:
  "c_long (c_long x * 10 + d) = c_long (x * 10 + d)"
proof (rule c_long_cong)
  have "(2::int) ^ 64 dvd (c_long x - x) * 10"
    using c_long_dvd [of x] by (rule dvd_mult2)
  moreover have "(c_long x - x) * 10 = c_long x * 10 + d - (x * 10 + d)"
    by (simp add: algebra_simps)
  ultimately show "(c_long x * 10 + d - (x * 10 + d)) mod 2 ^ 64 = 0"
    by (simp add: dvd_eq_mod_eq_0)
qed

lemma parse_digits_dec_nat: "parse_digits 0 (dec_nat n) = (c_long (int n), [])"
proof (induction n rule: dec_nat.induct)
  case (1 n)
  show ?case
  proof (cases "n < 10")
    case True
    then show ?thesis by (subst dec_nat.simps) simp
  next
    case False
    with 1 have IH: "parse_digits 0 (dec_nat (n div 10)) = (c_long (int (n div 10)), [])"
      by simp
    have split: "int (n div 10) * 10 + int (n mod 10) = int n"
      by (metis div_mult_mod_eq of_nat_add of_nat_mult of_nat_numeral)
    have "parse_digits 0 (dec_nat n) =
        parse_digits 0 (dec_nat (n div 10) @ [digit_char (n mod 10)])"
      using False by (subst dec_nat.simps) simp
    also have "\<dots> = parse_digits (c_long (int (n div 10))) [digit_char (n mod 10)]"
      using dec_nat_digits IH by (subst parse_digits_append) (auto simp: list_all_iff)
    also have "\<dots> = (c_long (c_long (int (n div 10)) * 10 + int (n mod 10)), [])"
      by simp
    finally show ?thesis
      by (simp only: c_long_step split)
  qed
qed

lemma hd_dec_nat: "is_digit (hd (dec_nat n))"
  using dec_nat_digits [of n] by (simp add: list.set_sel(1))

lemma parse_long_text_dec_c_long: "parse_long_text (dec n) = Inr (c_long n)"
proof (cases "n < 0")
  case True
  have "c_long (- c_long (- n)) = c_long n"
  proof (rule c_long_cong)
    have "(2::int) ^ 64 dvd c_long (- n) - (- n)" by (rule c_long_dvd)
    moreover have "- c_long (- n) - n = - (c_long (- n) - (- n))" by simp
    ultimately have "(2::int) ^ 64 dvd - c_long (- n) - n" by (metis dvd_minus_iff)
    then show "(- c_long (- n) - n) mod 2 ^ 64 = 0" by (simp add: dvd_eq_mod_eq_0)
  qed
  with True show ?thesis
    by (simp add: dec_def parse_long_text_def parse_digits_dec_nat)
next
  case False
  then show ?thesis
    using is_digit_not_minus [OF hd_dec_nat]
    by (auto simp: dec_def parse_long_text_def parse_digits_dec_nat)
qed

lemma parse_long_text_dec [text_simps]: "long_ok n \<Longrightarrow> parse_long_text (dec n) = Inr n"
  by (simp add: parse_long_text_dec_c_long)

lemma parse_long_text_no_fuel [simp]: "parse_long_text t \<noteq> Inl Diverges"
  by (simp add: parse_long_text_def split: prod.split)

lemma parse_int_token_no_fuel [simp]: "parse_int_token c \<noteq> Inl Diverges"
  by (auto simp: parse_int_token_def res_bind_Inl split: prod.splits)

lemma parse_long_token_no_fuel [simp]: "parse_long_token c \<noteq> Inl Diverges"
  by (auto simp: parse_long_token_def res_bind_Inl split: prod.splits)

lemma parse_int_token_last [text_simps]: "int_ok n \<Longrightarrow> parse_int_token (dec n) = Inr (n, [])"
  by (simp add: parse_int_token_def text_simps int_ok_long_ok)

lemma parse_int_token_space [text_simps]:
  "int_ok n \<Longrightarrow> parse_int_token (dec n @ CHR '' '' # s) = Inr (n, s)"
  by (simp add: parse_int_token_def text_simps int_ok_long_ok)

lemma parse_long_token_last [text_simps]: "long_ok n \<Longrightarrow> parse_long_token (dec n) = Inr (n, [])"
  by (simp add: parse_long_token_def text_simps)

lemma parse_long_token_space [text_simps]:
  "long_ok n \<Longrightarrow> parse_long_token (dec n @ CHR '' '' # s) = Inr (n, s)"
  by (simp add: parse_long_token_def text_simps)

end
