(* ===== verification/EmitBase.thy ===== *)
theory EmitBase
  imports Alloc TextIO
begin

text \<open>
  What all code generators of \<^verbatim>\<open>hcc_m1.c\<close> share. A routine that only writes is the text it
  writes; one that may also die is a \<open>string res\<close>; one that reads or changes the state of the
  emitter is an \<open>action\<close>, which takes the state and returns the text it appends to the output
  with the new state. The state joins \<^verbatim>\<open>EmitState\<close> with the \<^verbatim>\<open>static\<close> counters of the RISC-V
  generator. The two globals that \<^verbatim>\<open>main\<close> sets once are a read-only argument.
\<close>

unbundle bit_operations_syntax

section \<open>State, globals, actions\<close>

record Globals =
  target_arch :: Target
  label_namespace :: string

record EmitState =
  rax_temp :: int
  omit_store_temp :: int
  literal_id :: int
  branch_skip_id :: int
  truth_skip_id :: int

type_synonym action = "EmitState \<Rightarrow> (string \<times> EmitState) res"

definition out :: "string \<Rightarrow> action" where
  "out text state = Inr (text, state)"

definition out_res :: "string res \<Rightarrow> action" where
  "out_res r state = res_bind r (\<lambda>text. Inr (text, state))"

definition modify :: "(EmitState \<Rightarrow> EmitState) \<Rightarrow> action" where
  "modify f state = Inr ([], f state)"

definition with_res :: "'a res \<Rightarrow> ('a \<Rightarrow> action) \<Rightarrow> action" where
  "with_res r f state = res_bind r (\<lambda>x. f x state)"

definition with_state :: "(EmitState \<Rightarrow> action) \<Rightarrow> action" where
  "with_state f state = f state state"

definition act_seq :: "action \<Rightarrow> action \<Rightarrow> action" where
  "act_seq a b state =
     res_bind (a state) (\<lambda>(t1, state1).
     res_bind (b state1) (\<lambda>(t2, state2). Inr (t1 @ t2, state2)))"

fun seqs :: "action list \<Rightarrow> action" where
  "seqs [] = out []"
| "seqs [a] = a"
| "seqs (a # as) = act_seq a (seqs as)"

definition when_do :: "bool \<Rightarrow> action \<Rightarrow> action" where
  "when_do c a = (if c then a else out [])"

text \<open>Text pieces that may die, written one after the other.\<close>

fun cat_res :: "string res list \<Rightarrow> string res" where
  "cat_res [] = Inr []"
| "cat_res (r # rs) = res_bind r (\<lambda>t. res_bind (cat_res rs) (\<lambda>ts. Inr (t @ ts)))"

definition emit_state_init :: "EmitState \<Rightarrow> EmitState" where
  "emit_state_init state = state\<lparr>rax_temp := -1, omit_store_temp := -1\<rparr>"

definition emit_forget_rax :: action where
  "emit_forget_rax = modify (\<lambda>state. state\<lparr>rax_temp := -1\<rparr>)"

definition emit_remember_rax_temp :: "int \<Rightarrow> action" where
  "emit_remember_rax_temp temp = modify (\<lambda>state. state\<lparr>rax_temp := temp\<rparr>)"

definition target_register_arg_count :: "Target \<Rightarrow> int" where
  "target_register_arg_count target =
     (if target = TARGET_I386 then 0
      else if target = TARGET_AARCH64 \<or> target = TARGET_RISCV64 then 8
      else 6)"

section \<open>Bytes and references\<close>

definition hex_digit :: "int \<Rightarrow> char" where
  "hex_digit v =
     (if v = 0 then CHR ''0''
      else if v = 1 then CHR ''1''
      else if v = 2 then CHR ''2''
      else if v = 3 then CHR ''3''
      else if v = 4 then CHR ''4''
      else if v = 5 then CHR ''5''
      else if v = 6 then CHR ''6''
      else if v = 7 then CHR ''7''
      else if v = 8 then CHR ''8''
      else if v = 9 then CHR ''9''
      else if v = 10 then CHR ''A''
      else if v = 11 then CHR ''B''
      else if v = 12 then CHR ''C''
      else if v = 13 then CHR ''D''
      else if v = 14 then CHR ''E''
      else CHR ''F'')"

text \<open>C's remainder takes the sign of the dividend.\<close>

definition c_rem :: "int \<Rightarrow> int \<Rightarrow> int" where
  "c_rem a b = (if a < 0 then - ((- a) mod b) else a mod b)"

definition quote_char :: char where
  "quote_char = CHR 0x27"

definition emit_byte :: "int \<Rightarrow> string" where
  "emit_byte byte =
     (let b = c_rem byte 256;
          b = (if b < 0 then b + 256 else b)
      in [quote_char, hex_digit (b div 16), hex_digit (b mod 16), quote_char])"

fun emit_bytes_le :: "nat \<Rightarrow> nat \<Rightarrow> 64 word \<Rightarrow> string" where
  "emit_bytes_le 0 i v = []"
| "emit_bytes_le (Suc n) i v =
     (if i \<noteq> 0 then '' '' else []) @ emit_byte (uint (v AND 255)) @
     emit_bytes_le n (i + 1) (drop_bit 8 v)"

definition emit_data64_le :: "64 word \<Rightarrow> string" where
  "emit_data64_le v = ''  '' @ emit_bytes_le 8 0 v @ [newline]"

definition emit_named_ref :: "string \<Rightarrow> string \<Rightarrow> int \<Rightarrow> string" where
  "emit_named_ref prefix fn n = prefix @ ''_'' @ fn @ ''_'' @ dec n"

text \<open>A header is a run of lines.\<close>

definition text_lines :: "string list \<Rightarrow> string" where
  "text_lines ls = concat (map (\<lambda>l. l @ [newline]) ls)"

section \<open>Comparison operators\<close>

definition invert_binop :: "int \<Rightarrow> int res" where
  "invert_binop op =
     (if op = BK_EQ then Inr BK_NE
      else if op = BK_NE then Inr BK_EQ
      else if op = BK_LT then Inr BK_GE
      else if op = BK_LE then Inr BK_GT
      else if op = BK_GT then Inr BK_LE
      else if op = BK_GE then Inr BK_LT
      else if op = BK_ULT then Inr BK_UGE
      else if op = BK_ULE then Inr BK_UGT
      else if op = BK_UGT then Inr BK_ULE
      else if op = BK_UGE then Inr BK_ULT
      else die ''cannot invert branch comparison'')"

section \<open>Running actions\<close>

named_theorems act_simps \<open>running the emitter's actions\<close>

lemma out_run [act_simps, simp]: "out text state = Inr (text, state)"
  by (simp add: out_def)

lemma modify_run [act_simps, simp]: "modify f state = Inr ([], f state)"
  by (simp add: modify_def)

lemma forget_run [act_simps, simp]: "emit_forget_rax state = Inr ([], state\<lparr>rax_temp := -1\<rparr>)"
  by (simp add: emit_forget_rax_def)

lemma remember_run [act_simps, simp]:
  "emit_remember_rax_temp t state = Inr ([], state\<lparr>rax_temp := t\<rparr>)"
  by (simp add: emit_remember_rax_temp_def)

lemma with_res_run [act_simps, simp]:
  "with_res (Inr x) f state = f x state"
  "with_res (Inl e) f state = Inl e"
  "with_res (die msg) f state = die msg"
  by (simp_all add: with_res_def)

lemma out_res_run [act_simps, simp]:
  "out_res (Inr t) state = Inr (t, state)"
  "out_res (Inl e) state = Inl e"
  "out_res (die msg) state = die msg"
  by (simp_all add: out_res_def)

lemma with_state_run [act_simps, simp]: "with_state f state = f state state"
  by (simp add: with_state_def)

lemma act_seq_Inr:
  "act_seq a b s = Inr (t, s') \<longleftrightarrow>
   (\<exists>t1 s1 t2. a s = Inr (t1, s1) \<and> b s1 = Inr (t2, s') \<and> t = t1 @ t2)"
  by (force simp: act_seq_def res_bind_Inr)

lemma seqs_run [act_simps]:
  "seqs [] s = Inr ([], s)"
  "seqs [a] s = a s"
  "seqs (a # b # as) s =
     res_bind (a s) (\<lambda>(t1, s1). res_bind (seqs (b # as) s1) (\<lambda>(t2, s2). Inr (t1 @ t2, s2)))"
  by (simp_all add: act_seq_def)

lemma when_do_run [act_simps, simp]:
  "when_do True a s = a s" "when_do False a s = Inr ([], s)"
  by (simp_all add: when_do_def)

section \<open>Reading back bytes and references\<close>

text \<open>How M1 reads a run of quoted bytes: hexadecimal digits between quotes, blanks between them.\<close>

definition hex_value :: "char \<Rightarrow> int option" where
  "hex_value c =
     (if is_digit c then Some (of_char c - 48)
      else if 65 \<le> char_code c \<and> char_code c \<le> 70 then Some (of_char c - 55)
      else None)"

fun m1_bytes :: "string \<Rightarrow> int list option" where
  "m1_bytes (q # h # l # q' # rest) =
     (if q = quote_char \<and> q' = quote_char then
        (case (hex_value h, hex_value l) of
           (Some x, Some y) \<Rightarrow> map_option (Cons (16 * x + y)) (m1_bytes rest)
         | _ \<Rightarrow> None)
      else if q = CHR '' '' \<or> q = newline then m1_bytes (h # l # q' # rest) else None)"
| "m1_bytes (c # rest) = (if c = CHR '' '' \<or> c = newline then m1_bytes rest else None)"
| "m1_bytes [] = Some []"

fun le_value :: "int list \<Rightarrow> int" where
  "le_value [] = 0"
| "le_value (b # bs) = b + 256 * le_value bs"

lemma hex_value_hex_digit: "0 \<le> v \<Longrightarrow> v < 16 \<Longrightarrow> hex_value (hex_digit v) = Some v"
proof -
  assume "0 \<le> v" "v < 16"
  then have "v \<in> {0,1,2,3,4,5,6,7,8,9,10,11,12,13,14,15}" by (simp only: insert_iff empty_iff) presburger
  then show ?thesis by (elim insertE emptyE) (simp_all add: hex_digit_def hex_value_def is_digit_def)
qed

lemma emit_byte_mod: "emit_byte b =
  [quote_char, hex_digit (b mod 256 div 16), hex_digit (b mod 256 mod 16), quote_char]"
proof -
  have "(let c = c_rem b 256 in if c < 0 then c + 256 else c) = b mod 256"
  proof (cases "b < 0")
    case True
    then show ?thesis
      by (simp add: c_rem_def Let_def zmod_zminus1_eq_if)
  next
    case False
    then show ?thesis using pos_mod_sign [of 256 b] by (simp add: c_rem_def Let_def)
  qed
  then show ?thesis by (simp add: emit_byte_def Let_def)
qed

lemma m1_bytes_blank [simp]: "m1_bytes (CHR '' '' # s) = m1_bytes s"
  by (cases "(CHR '' '' # s)" rule: m1_bytes.cases) (auto simp: quote_char_def)

lemma m1_bytes_newline [simp]: "m1_bytes (newline # s) = m1_bytes s"
  by (cases "(newline # s)" rule: m1_bytes.cases) (auto simp: quote_char_def newline_def)

lemma m1_bytes_emit_byte [simp]:
  "m1_bytes (emit_byte b @ s) = map_option (Cons (b mod 256)) (m1_bytes s)"
proof -
  have "0 \<le> b mod 256 div 16" "b mod 256 div 16 < 16"
    using pos_mod_bound [of 256 b] pos_mod_sign [of 256 b] by linarith+
  then show ?thesis
    by (simp add: emit_byte_mod hex_value_hex_digit)
qed

fun le_bytes :: "nat \<Rightarrow> 64 word \<Rightarrow> int list" where
  "le_bytes 0 v = []"
| "le_bytes (Suc n) v = uint (take_bit 8 v) # le_bytes n (drop_bit 8 v)"

lemma length_le_bytes [simp]: "length (le_bytes n v) = n"
  by (induction n arbitrary: v) auto

lemma uint64_mod: "uint (v :: 64 word) mod 18446744073709551616 = uint v"
  using uint_lt2p [of v] by (simp add: mod_pos_pos_trivial)

lemma le_value_le_bytes: "le_value (le_bytes n v) = uint (take_bit (8 * n) v)"
proof (induction n arbitrary: v)
  case (Suc n)
  have "u mod 2 ^ (8 + 8 * n) = u mod 256 + 256 * (u div 256 mod 2 ^ (8 * n))" for u :: int
    by (simp add: power_add zmod_zmult2_eq)
  with Suc show ?case
    by (simp add: unsigned_take_bit_eq unsigned_drop_bit_eq) (simp add: take_bit_eq_mod drop_bit_eq_div uint64_mod)
qed simp

lemma low_byte: "(v :: 64 word) AND 255 = take_bit 8 v"
  by (simp add: take_bit_eq_mask mask_eq_exp_minus_1)

lemma m1_bytes_emit_bytes_le:
  "m1_bytes (emit_bytes_le n i v @ s) = map_option (append (le_bytes n v)) (m1_bytes s)"
proof (induction n arbitrary: i v)
  case 0
  show ?case by (cases "m1_bytes s") auto
next
  case (Suc n)
  have "uint (take_bit 8 v) mod 256 = uint (take_bit 8 v)"
    by (simp only: unsigned_take_bit_eq) (simp add: take_bit_eq_mod)
  then show ?case
    by (cases "m1_bytes s") (simp_all add: Suc low_byte)
qed

lemma m1_bytes_emit_data64: "m1_bytes (emit_data64_le v) = Some (le_bytes 8 v)"
  by (simp add: emit_data64_le_def m1_bytes_emit_bytes_le)

lemma le_value_64: "le_value (le_bytes 8 v) = uint v"
  by (simp add: le_value_le_bytes unsigned_take_bit_eq) (simp add: take_bit_eq_mod uint64_mod)

text \<open>
  The eight quoted bytes \<^verbatim>\<open>emit_data64_le\<close> writes read back, least significant first, as the
  value it was given.
\<close>

theorem emit_data64_le_value:
  "\<exists>bs. m1_bytes (emit_data64_le v) = Some bs \<and> length bs = 8 \<and> le_value bs = uint v"
  by (intro exI [of _ "le_bytes 8 v"]) (simp add: m1_bytes_emit_data64 le_value_64)

lemma dec_nat_inj: "dec_nat n = dec_nat m \<Longrightarrow> n = m"
proof (induction n arbitrary: m rule: dec_nat.induct)
  case (1 n)
  have d: "a < 10 \<Longrightarrow> b < 10 \<Longrightarrow> digit_char a = digit_char b \<Longrightarrow> a = b" for a b
    by (metis add_left_cancel digit_char_code)
  show ?case
  proof (cases "n < 10 \<or> m < 10")
    case True
    with "1.prems" show ?thesis
      by (auto simp: dec_nat.simps [of n] dec_nat.simps [of m] dec_nat_nonempty [symmetric]
          split: if_splits dest: d)
  next
    case False
    then have "dec_nat (n div 10) = dec_nat (m div 10)" "digit_char (n mod 10) = digit_char (m mod 10)"
      using "1.prems" by (simp_all add: dec_nat.simps [of n] dec_nat.simps [of m])
    then have "n div 10 = m div 10" "n mod 10 = m mod 10"
      using "1.IH" [of "m div 10"] d [of "n mod 10" "m mod 10"] False by simp_all
    then show ?thesis by (metis div_mult_mod_eq)
  qed
qed

lemma dec_chars: "c \<in> set (dec n) \<Longrightarrow> is_digit c \<or> c = CHR ''-''"
  using dec_nat_digits by (auto simp: dec_def split: if_splits)

lemma dec_inj: "dec n = dec m \<Longrightarrow> n = m"
proof -
  have "dec_nat k \<noteq> CHR ''-'' # r" for k r
    using dec_nat_digits [of k] by (auto simp: is_digit_def)
  moreover assume "dec n = dec m"
  ultimately show ?thesis
    by (auto simp: dec_def split: if_splits dest!: dec_nat_inj) metis+
qed

lemma last_sep_unique:
  assumes "c \<notin> set b" and "c \<notin> set b'" and "a @ c # b = a' @ c # b'"
  shows "a = a' \<and> b = b'"
  using assms by (auto simp: append_eq_append_conv2 Cons_eq_append_conv append_eq_Cons_conv)

text \<open>
  Two references with the same prefix are the same text only when they name the same function
  and the same number: block and conditional labels never clash, even with names that contain
  underscores and digits.
\<close>

theorem emit_named_ref_unique:
  "emit_named_ref prefix fn n = emit_named_ref prefix fn' n' \<longleftrightarrow> fn = fn' \<and> n = n'"
proof
  assume "emit_named_ref prefix fn n = emit_named_ref prefix fn' n'"
  then have "fn @ CHR ''_'' # dec n = fn' @ CHR ''_'' # dec n'"
    by (simp add: emit_named_ref_def)
  moreover have "CHR ''_'' \<notin> set (dec n)" "CHR ''_'' \<notin> set (dec n')"
    by (auto dest!: dec_chars simp: is_digit_def)
  ultimately show "fn = fn' \<and> n = n'"
    using last_sep_unique dec_inj by metis
qed simp

text \<open>Fields of an instruction word.\<close>

lemma digit_split:
  assumes "0 \<le> a" and "a < m"
  shows "(a + m * x) mod m = a" and "(a + m * x) div m = (x :: int)"
  using assms by simp_all

lemma or_push_bit: "0 \<le> b \<Longrightarrow> b < 2 ^ n \<Longrightarrow> push_bit n a OR b = 2 ^ n * a + (b :: int)"
proof -
  assume "0 \<le> b" "b < 2 ^ n"
  then have "take_bit n b = b" by (simp add: take_bit_int_eq_self)
  then show ?thesis
    using concat_bit_eq [of n b a] concat_bit_def [of n b a]
    by (simp add: push_bit_eq_mult or.commute mult.commute)
qed

end
