(* ===== verification/AArch64.thy ===== *)
theory AArch64
  imports EmitBase
begin

text \<open>
  The AArch64 generator, \<^verbatim>\<open>hcc_m1_arch_aarch64.c\<close>. Instructions without operands are M1 mnemonics
  that the header defines; the others are written as their four bytes, least significant
  first. The lemmas decode these bytes with the A64 encoding and run them.
\<close>

section \<open>The generator\<close>

definition aarch64_emit_insn_bytes :: "int \<Rightarrow> int \<Rightarrow> int \<Rightarrow> int \<Rightarrow> string" where
  "aarch64_emit_insn_bytes b0 b1 b2 b3 =
     ''  '' @ emit_byte b0 @ '' '' @ emit_byte b1 @ '' '' @ emit_byte b2 @ '' '' @ emit_byte b3 @
     [newline]"

definition aarch64_emit_mov_reg :: "int \<Rightarrow> int \<Rightarrow> string" where
  "aarch64_emit_mov_reg dst src = aarch64_emit_insn_bytes (224 + dst) 3 src 170"

definition aarch64_emit_add_sub_imm :: "bool \<Rightarrow> int \<Rightarrow> int \<Rightarrow> int \<Rightarrow> string" where
  "aarch64_emit_add_sub_imm is_sub dst src imm =
     (let opcode = (if is_sub then 209 else 145) in
      aarch64_emit_insn_bytes (push_bit 5 (src AND 7) OR dst)
        (drop_bit 3 src OR push_bit 2 (imm AND 63)) (drop_bit 6 imm AND 63) opcode)"

function aarch64_add_loop :: "int \<Rightarrow> int \<Rightarrow> int \<Rightarrow> bool \<Rightarrow> string" where
  "aarch64_add_loop dst src remaining first =
     (if 0 < remaining then
        let chunk = (if 4095 < remaining then 4095 else remaining);
            base = (if first then src else dst)
        in aarch64_emit_add_sub_imm False dst base chunk @
           aarch64_add_loop dst src (remaining - chunk) False
      else [])"
  by pat_completeness auto
termination
  by (relation "measure (\<lambda>(dst, src, remaining, first). nat remaining)") (auto simp: Let_def)

declare aarch64_add_loop.simps [simp del]

definition aarch64_emit_add_imm_reg :: "int \<Rightarrow> int \<Rightarrow> int \<Rightarrow> string" where
  "aarch64_emit_add_imm_reg dst src imm =
     (if imm = 0 then (if dst \<noteq> src then aarch64_emit_mov_reg dst src else [])
      else aarch64_add_loop dst src imm True)"

function aarch64_emit_sub_imm_reg :: "int \<Rightarrow> int \<Rightarrow> string" where
  "aarch64_emit_sub_imm_reg reg remaining =
     (if 0 < remaining then
        let chunk = (if 4095 < remaining then 4095 else remaining)
        in aarch64_emit_add_sub_imm True reg reg chunk @
           aarch64_emit_sub_imm_reg reg (remaining - chunk)
      else [])"
  by pat_completeness auto
termination
  by (relation "measure (\<lambda>(reg, remaining). nat remaining)") (auto simp: Let_def)

declare aarch64_emit_sub_imm_reg.simps [simp del]

definition aarch64_emit_load_literal_prefix :: "int \<Rightarrow> string" where
  "aarch64_emit_load_literal_prefix reg =
     aarch64_emit_insn_bytes (64 + reg) 0 0 88 @ ''  SKIP_64_DATA\<newline>''"

definition aarch64_emit_data64 :: "64 word \<Rightarrow> string" where
  "aarch64_emit_data64 v = emit_data64_le v"

definition zero_quads :: string where
  "zero_quads = '' '' @ emit_byte 0 @ '' '' @ emit_byte 0 @ '' '' @ emit_byte 0 @ '' '' @ emit_byte 0"

definition aarch64_emit_load_label :: "int \<Rightarrow> string \<Rightarrow> string" where
  "aarch64_emit_load_label reg label =
     aarch64_emit_load_literal_prefix reg @ ''  &'' @ label @ zero_quads @ [newline]"

definition aarch64_emit_load_label_parts :: "int \<Rightarrow> string \<Rightarrow> string \<Rightarrow> int \<Rightarrow> string" where
  "aarch64_emit_load_label_parts reg prefix fn n =
     aarch64_emit_load_literal_prefix reg @ ''  &'' @ emit_named_ref prefix fn n @ zero_quads @
     [newline]"

text \<open>
  A load or store at an offset that does not fit the scaled 12-bit field first adds it into
  X16 and then accesses at offset 0, which always fits.
\<close>

definition aarch64_scale :: "int \<Rightarrow> nat" where
  "aarch64_scale width = (if width = 8 then 3 else if width = 4 then 2 else if width = 2 then 1 else 0)"

definition aarch64_load_store_op :: "bool \<Rightarrow> int \<Rightarrow> bool \<Rightarrow> int \<times> int" where
  "aarch64_load_store_op is_load width is_signed =
     (if is_load then
        (if width = 8 then (64, 249)
         else if width = 4 \<and> is_signed then (128, 185)
         else if width = 4 then (64, 185)
         else if width = 2 \<and> is_signed then (128, 121)
         else if width = 2 then (64, 121)
         else if is_signed then (128, 57)
         else (64, 57))
      else
        (0, if width = 8 then 249 else if width = 4 then 185 else if width = 2 then 121 else 57))"

function aarch64_emit_load_store :: "bool \<Rightarrow> int \<Rightarrow> bool \<Rightarrow> int \<Rightarrow> int \<Rightarrow> string" where
  "aarch64_emit_load_store is_load width is_signed base offset =
     (let scale = aarch64_scale width in
      if 0 \<le> offset \<and> offset AND (push_bit scale 1 - 1) = 0 \<and> drop_bit scale offset < 4096 then
        let imm = drop_bit scale offset;
            (op2, op3) = aarch64_load_store_op is_load width is_signed
        in aarch64_emit_insn_bytes (push_bit 5 (base AND 7))
             (drop_bit 3 base OR push_bit 2 (imm AND 63)) (op2 OR (drop_bit 6 imm AND 63)) op3
      else
        aarch64_emit_add_imm_reg 16 base offset @
        aarch64_emit_load_store is_load width is_signed 16 0)"
  by pat_completeness auto
termination
  by (relation "measure (\<lambda>(_, _, _, _, offset). if offset = 0 then 0 else 1)") auto

declare aarch64_emit_load_store.simps [simp del]

definition aarch64_emit_header_lines :: "string list" where
  "aarch64_emit_header_lines =
    [''## target: stage0-posix aarch64 M1'',
     '''',
     ''DEFINE BR_X16 00021fd6'',
     ''DEFINE BLR_X16 00023fd6'',
     ''DEFINE RETURN c0035fd6'',
     ''DEFINE SKIP_64_DATA 03000014'',
     ''DEFINE HCC_CBZ_X0_PAST_BR 400000b4'',
     ''DEFINE HCC_CBNZ_X0_PAST_BR 400000b5'',
     ''DEFINE SKIP_INST_EQ 40000054'',
     ''DEFINE SKIP_INST_NE 41000054'',
     ''DEFINE SKIP_INST_LT 4b000054'',
     ''DEFINE SKIP_INST_LE 4d000054'',
     ''DEFINE SKIP_INST_GT 4c000054'',
     ''DEFINE SKIP_INST_GE 4a000054'',
     ''DEFINE SKIP_INST_LO 43000054'',
     ''DEFINE SKIP_INST_LS 49000054'',
     ''DEFINE SKIP_INST_HS 42000054'',
     ''DEFINE SKIP_INST_HI 48000054'',
     ''DEFINE PUSH_X0 408e1ff8'',
     ''DEFINE PUSH_LR 5e8e1ff8'',
     ''DEFINE POP_LR 5e8640f8'',
     ''DEFINE SET_X0_TO_0 000080d2'',
     ''DEFINE SET_X0_TO_1 200080d2'',
     ''DEFINE SET_X1_FROM_X0 e10300aa'',
     ''DEFINE SET_X2_FROM_X0 e20300aa'',
     ''DEFINE SET_X3_FROM_X0 e30300aa'',
     ''DEFINE SET_X4_FROM_X0 e40300aa'',
     ''DEFINE SET_X5_FROM_X0 e50300aa'',
     ''DEFINE SET_X6_FROM_X0 e60300aa'',
     ''DEFINE SET_X16_FROM_X0 f00300aa'',
     ''DEFINE ADD_X0_X1_X0 2000008b'',
     ''DEFINE SUB_X0_X1_X0 200000cb'',
     ''DEFINE MUL_X0_X1_X0 207c009b'',
     ''DEFINE SDIV_X0_X1_X0 200cc09a'',
     ''DEFINE SDIV_X2_X1_X0 220cc09a'',
     ''DEFINE UDIV_X0_X1_X0 2008c09a'',
     ''DEFINE UDIV_X2_X1_X0 2208c09a'',
     ''DEFINE MSUB_X0_X0_X2_X1 0084029b'',
     ''DEFINE LSHIFT_X0_X1_X0 2020c09a'',
     ''DEFINE LOGICAL_RSHIFT_X0_X1_X0 2024c09a'',
     ''DEFINE ARITH_RSHIFT_X0_X1_X0 2028c09a'',
     ''DEFINE AND_X0_X1_X0 2000008a'',
     ''DEFINE OR_X0_X1_X0 200000aa'',
     ''DEFINE XOR_X0_X1_X0 000001ca'',
     ''DEFINE UXTW_X0_W0 e003002a'',
     ''DEFINE SXTW_X0_W0 007c4093'',
     ''DEFINE CMP_X1_X0 3f0000eb'',
     ''DEFINE SYSCALL 010000d4'',
     '''']"

definition aarch64_emit_header :: string where
  "aarch64_emit_header = text_lines aarch64_emit_header_lines"

definition aarch64_emit_load_immediate :: "64 word \<Rightarrow> string" where
  "aarch64_emit_load_immediate v = aarch64_emit_load_literal_prefix 0 @ aarch64_emit_data64 v"

definition aarch64_emit_load_stack :: "int \<Rightarrow> string" where
  "aarch64_emit_load_stack offset = aarch64_emit_load_store True 8 False 18 offset"

definition aarch64_emit_address_stack :: "int \<Rightarrow> string" where
  "aarch64_emit_address_stack offset = aarch64_emit_add_imm_reg 0 18 offset"

definition aarch64_emit_store_stack :: "int \<Rightarrow> string" where
  "aarch64_emit_store_stack offset = aarch64_emit_load_store False 8 False 18 offset"

text \<open>An operator the \<^verbatim>\<open>switch\<close> does not list emits nothing.\<close>

definition aarch64_emit_binop :: "int \<Rightarrow> string" where
  "aarch64_emit_binop op =
     (if op = BK_ADD then ''  ADD_X0_X1_X0\<newline>''
      else if op = BK_SUB then ''  SUB_X0_X1_X0\<newline>''
      else if op = BK_MUL then ''  MUL_X0_X1_X0\<newline>''
      else if op = BK_DIV then ''  SDIV_X0_X1_X0\<newline>''
      else if op = BK_MOD then ''  SDIV_X2_X1_X0\<newline>  MSUB_X0_X0_X2_X1\<newline>''
      else if op = BK_SHL then ''  LSHIFT_X0_X1_X0\<newline>''
      else if op = BK_SHR then ''  LOGICAL_RSHIFT_X0_X1_X0\<newline>''
      else if op = BK_SAR then ''  ARITH_RSHIFT_X0_X1_X0\<newline>''
      else if op = BK_EQ then ''  CMP_X1_X0\<newline>  SET_X0_TO_1\<newline>  SKIP_INST_EQ\<newline>  SET_X0_TO_0\<newline>''
      else if op = BK_NE then ''  CMP_X1_X0\<newline>  SET_X0_TO_1\<newline>  SKIP_INST_NE\<newline>  SET_X0_TO_0\<newline>''
      else if op = BK_LT then ''  CMP_X1_X0\<newline>  SET_X0_TO_1\<newline>  SKIP_INST_LT\<newline>  SET_X0_TO_0\<newline>''
      else if op = BK_LE then ''  CMP_X1_X0\<newline>  SET_X0_TO_1\<newline>  SKIP_INST_LE\<newline>  SET_X0_TO_0\<newline>''
      else if op = BK_GT then ''  CMP_X1_X0\<newline>  SET_X0_TO_1\<newline>  SKIP_INST_GT\<newline>  SET_X0_TO_0\<newline>''
      else if op = BK_GE then ''  CMP_X1_X0\<newline>  SET_X0_TO_1\<newline>  SKIP_INST_GE\<newline>  SET_X0_TO_0\<newline>''
      else if op = BK_ULT then ''  CMP_X1_X0\<newline>  SET_X0_TO_1\<newline>  SKIP_INST_LO\<newline>  SET_X0_TO_0\<newline>''
      else if op = BK_ULE then ''  CMP_X1_X0\<newline>  SET_X0_TO_1\<newline>  SKIP_INST_LS\<newline>  SET_X0_TO_0\<newline>''
      else if op = BK_UGT then ''  CMP_X1_X0\<newline>  SET_X0_TO_1\<newline>  SKIP_INST_HI\<newline>  SET_X0_TO_0\<newline>''
      else if op = BK_UGE then ''  CMP_X1_X0\<newline>  SET_X0_TO_1\<newline>  SKIP_INST_HS\<newline>  SET_X0_TO_0\<newline>''
      else if op = BK_AND then ''  AND_X0_X1_X0\<newline>''
      else if op = BK_OR then ''  OR_X0_X1_X0\<newline>''
      else if op = BK_XOR then ''  XOR_X0_X1_X0\<newline>''
      else if op = BK_UDIV then ''  UDIV_X0_X1_X0\<newline>''
      else if op = BK_UMOD then ''  UDIV_X2_X1_X0\<newline>  MSUB_X0_X0_X2_X1\<newline>''
      else [])"

definition aarch64_skip_name_for_binop :: "int \<Rightarrow> string res" where
  "aarch64_skip_name_for_binop op =
     (if op = BK_EQ then Inr ''SKIP_INST_EQ''
      else if op = BK_NE then Inr ''SKIP_INST_NE''
      else if op = BK_LT then Inr ''SKIP_INST_LT''
      else if op = BK_LE then Inr ''SKIP_INST_LE''
      else if op = BK_GT then Inr ''SKIP_INST_GT''
      else if op = BK_GE then Inr ''SKIP_INST_GE''
      else if op = BK_ULT then Inr ''SKIP_INST_LO''
      else if op = BK_ULE then Inr ''SKIP_INST_LS''
      else if op = BK_UGT then Inr ''SKIP_INST_HI''
      else if op = BK_UGE then Inr ''SKIP_INST_HS''
      else die ''bad AArch64 branch comparison'')"

definition aarch64_emit_jump_label_parts :: "string \<Rightarrow> string \<Rightarrow> int \<Rightarrow> string" where
  "aarch64_emit_jump_label_parts prefix fn n =
     aarch64_emit_load_label_parts 16 prefix fn n @ ''  BR_X16\<newline>''"

definition aarch64_emit_compare_jump :: "string \<Rightarrow> int \<Rightarrow> int \<Rightarrow> string res" where
  "aarch64_emit_compare_jump fn op target =
     res_bind (invert_binop op) (\<lambda>inverted.
     res_bind (aarch64_skip_name_for_binop inverted) (\<lambda>skip.
     Inr (aarch64_emit_load_label_parts 16 ''HCC_BLOCK'' fn target @
       ''  '' @ skip @ ''\<newline>  BR_X16\<newline>'')))"

definition aarch64_emit_truth_jump_label_parts :: "string \<Rightarrow> string \<Rightarrow> int \<Rightarrow> bool \<Rightarrow> string" where
  "aarch64_emit_truth_jump_label_parts prefix fn n jump_if_true =
     aarch64_emit_load_label_parts 16 prefix fn n @
     (if jump_if_true then ''  HCC_CBZ_X0_PAST_BR\<newline>'' else ''  HCC_CBNZ_X0_PAST_BR\<newline>'') @
     ''  BR_X16\<newline>''"

section \<open>What the instruction bytes do\<close>

text \<open>
  The A64 encodings of the instructions the generator assembles itself: add and subtract
  immediate (64 bits, no shift) and the register move. Register 31 means SP or ZR there and is
  excluded.
\<close>

type_synonym a64_regs = "int \<Rightarrow> 64 word"

definition a64_step :: "int \<Rightarrow> a64_regs \<Rightarrow> a64_regs option" where
  "a64_step w r =
     (let rd = w mod 32; rn = w div 32 mod 32; imm = w div 1024 mod 4096; rm = w div 65536 mod 32 in
      if rd = 31 then None
      else if w div 4194304 = 580 \<and> rn \<noteq> 31 then Some (r(rd := r rn + word_of_int imm))
      else if w div 4194304 = 836 \<and> rn \<noteq> 31 then Some (r(rd := r rn - word_of_int imm))
      else if w div 2097152 = 1360 \<and> imm mod 64 = 0 \<and> rn = 31 \<and> rm \<noteq> 31 then Some (r(rd := r rm))
      else None)"

fun a64_run :: "int list \<Rightarrow> a64_regs \<Rightarrow> a64_regs option" where
  "a64_run [] r = Some r"
| "a64_run (b0 # b1 # b2 # b3 # rest) r =
     Option.bind (a64_step (le_value [b0, b1, b2, b3]) r) (a64_run rest)"
| "a64_run _ r = None"

definition a64_exec :: "string \<Rightarrow> a64_regs \<Rightarrow> a64_regs option" where
  "a64_exec text r = Option.bind (m1_bytes text) (\<lambda>bs. a64_run bs r)"

lemma a64_exec_empty [simp]: "a64_exec [] r = Some r"
  by (simp add: a64_exec_def)

lemma m1_bytes_insn [simp]:
  "m1_bytes (aarch64_emit_insn_bytes b0 b1 b2 b3 @ s) =
   map_option (\<lambda>bs. b0 mod 256 # b1 mod 256 # b2 mod 256 # b3 mod 256 # bs) (m1_bytes s)"
  by (cases "m1_bytes s") (simp_all add: aarch64_emit_insn_bytes_def)

lemma a64_exec_Some: "m1_bytes s = Some bs \<Longrightarrow> a64_exec s = a64_run bs"
  by (auto simp: a64_exec_def fun_eq_iff)

lemma a64_exec_insn:
  "a64_exec (aarch64_emit_insn_bytes b0 b1 b2 b3 @ s) r =
   (if m1_bytes s = None then None
    else Option.bind (a64_step (le_value [b0 mod 256, b1 mod 256, b2 mod 256, b3 mod 256]) r)
      (a64_exec s))"
proof (cases "m1_bytes s")
  case (Some bs)
  then show ?thesis by (simp add: a64_exec_Some del: le_value.simps)
qed (simp add: a64_exec_def)

lemma insn_fields:
  fixes a b c k :: int
  assumes w: "w = a + 32 * (b + 32 * (c + 4096 * k))"
    and a: "0 \<le> a" "a < 32" and b: "0 \<le> b" "b < 32" and c: "0 \<le> c" "c < 4096"
  shows "w mod 32 = a" and "w div 32 mod 32 = b" and "w div 1024 mod 4096 = c"
    and "w div 4194304 = k" and "w div 1024 = c + 4096 * k"
proof -
  have 1: "w div 32 = b + 32 * (c + 4096 * k)" and "w mod 32 = a"
    unfolding w by (rule digit_split [OF a])+
  have "w div 1024 = w div 32 div 32" using zdiv_zmult2_eq [of 32 w 32] by simp
  then have 2: "w div 1024 = c + 4096 * k" unfolding 1 by (simp only: digit_split [OF b])
  have "w div 4194304 = w div 1024 div 4096" using zdiv_zmult2_eq [of 4096 w 1024] by simp
  then show "w div 4194304 = k" unfolding 2 by (simp only: digit_split [OF c])
  show "w mod 32 = a" by fact
  show "w div 32 mod 32 = b" unfolding 1 by (rule digit_split [OF b])
  show "w div 1024 mod 4096 = c" unfolding 2 by (rule digit_split [OF c])
  show "w div 1024 = c + 4096 * k" by (rule 2)
qed

lemma and_low: "(a :: int) AND 7 = a mod 8" "a AND 63 = a mod 64"
  using take_bit_eq_mask [of 3 a] take_bit_eq_mask [of 6 a]
  by (simp_all add: take_bit_eq_mod mask_eq_exp_minus_1)

definition a64_reg :: "int \<Rightarrow> bool" where
  "a64_reg k \<longleftrightarrow> 0 \<le> k \<and> k < 31"

lemma le_value_4:
  assumes "0 \<le> b0" "b0 < 256" "0 \<le> b1" "b1 < 256" "0 \<le> b2" "b2 < 256" "0 \<le> b3" "b3 < 256"
  shows "le_value [b0 mod 256, b1 mod 256, b2 mod 256, b3 mod 256] =
    b0 + 256 * b1 + 65536 * b2 + 16777216 * b3"
  using assms by simp

lemma add_sub_word:
  assumes "a64_reg dst" and "a64_reg src" and "0 \<le> imm" and "imm < 4096" and "op = 145 \<or> op = 209"
  shows "le_value [(push_bit 5 (src AND 7) OR dst) mod 256,
      (drop_bit 3 src OR push_bit 2 (imm AND 63)) mod 256, (drop_bit 6 imm AND 63) mod 256,
      op mod 256] = dst + 32 * src + 1024 * imm + 16777216 * op"
proof -
  define s0 s1 i0 i1 where "s0 = src mod 8" and "s1 = src div 8" and "i0 = imm mod 64"
    and "i1 = imm div 64"
  note d = this
  have eq: "src = s0 + 8 * s1" "imm = i0 + 64 * i1" unfolding d by simp_all
  have s: "0 \<le> s0" "s0 < 8" "0 \<le> s1" "s1 < 4" "0 \<le> i0" "i0 < 64" "0 \<le> i1" "i1 < 64"
    "0 \<le> dst" "dst < 32"
    using assms by (auto simp: a64_reg_def d)
  have "push_bit 5 (src AND 7) OR dst = 32 * s0 + dst"
    using s or_push_bit [of dst 5 s0] by (simp add: and_low d)
  moreover have "drop_bit 3 src OR push_bit 2 (imm AND 63) = 4 * i0 + s1"
    using s or_push_bit [of s1 2 i0] by (simp add: and_low d drop_bit_eq_div or.commute)
  moreover have "drop_bit 6 imm AND 63 = i1"
    using s by (simp add: and_low d drop_bit_eq_div)
  moreover have "le_value [(32 * s0 + dst) mod 256, (4 * i0 + s1) mod 256, i1 mod 256, op mod 256] =
      32 * s0 + dst + 256 * (4 * i0 + s1) + 65536 * i1 + 16777216 * op"
    by (rule le_value_4) (use s assms(5) in linarith)+
  ultimately show ?thesis
    using eq by simp
qed

lemma a64_step_add_sub:
  assumes "a64_reg dst" and "a64_reg src" and "0 \<le> imm" and "imm < 4096"
  shows "a64_step (dst + 32 * src + 1024 * imm + 16777216 * (if is_sub then 209 else 145)) r =
    Some (r(dst := if is_sub then r src - word_of_int imm else r src + word_of_int imm))"
proof -
  define w where "w = dst + 32 * src + 1024 * imm + 16777216 * (if is_sub then 209 else 145)"
  have "w = dst + 32 * (src + 32 * (imm + 4096 * (if is_sub then 836 else 580)))"
    by (simp add: w_def)
  note f = insn_fields [OF this]
  have g: "w mod 32 = dst" "w div 32 mod 32 = src" "w div 1024 mod 4096 = imm"
    "w div 4194304 = (if is_sub then 836 else 580)"
    by (rule f; use assms in \<open>simp add: a64_reg_def\<close>)+
  have "a64_step w r =
      Some (r(dst := if is_sub then r src - word_of_int imm else r src + word_of_int imm))"
    using assms unfolding a64_step_def Let_def g by (simp add: a64_reg_def)
  then show ?thesis by (simp only: w_def)
qed

lemma a64_add_sub:
  assumes "a64_reg dst" and "a64_reg src" and "0 \<le> imm" and "imm < 4096" and "m1_bytes s \<noteq> None"
  shows "a64_exec (aarch64_emit_add_sub_imm is_sub dst src imm @ s) r =
    a64_exec s (r(dst := if is_sub then r src - word_of_int imm else r src + word_of_int imm))"
proof -
  have op: "(if is_sub then 209 else 145) = 145 \<or> (if is_sub then 209 else 145) = (209 :: int)"
    by simp
  obtain bs where "m1_bytes s = Some bs" using assms(5) by auto
  then show ?thesis
    unfolding aarch64_emit_add_sub_imm_def Let_def a64_exec_insn add_sub_word [OF assms(1-4) op]
      a64_step_add_sub [OF assms(1-4)] by simp
qed

lemma a64_step_mov:
  assumes "a64_reg dst" and "a64_reg src"
  shows "a64_step (224 + dst + 256 * 3 + 65536 * src + 16777216 * 170) r = Some (r(dst := r src))"
proof -
  define w where "w = 224 + dst + 256 * 3 + 65536 * src + 16777216 * 170"
  have w: "w = dst + 32 * (31 + 32 * (64 * src + 4096 * 680))"
    by (simp add: w_def)
  have f: "w mod 32 = dst" "w div 32 mod 32 = 31" "w div 1024 mod 4096 = 64 * src"
    "w div 4194304 = 680" "w div 1024 = 64 * src + 4096 * 680"
    by (rule insn_fields [OF w]; use assms in \<open>simp add: a64_reg_def\<close>)+
  have "w div 65536 = w div 1024 div 64" "w div 2097152 = w div 1024 div 2048"
    using zdiv_zmult2_eq [of 64 w 1024] zdiv_zmult2_eq [of 2048 w 1024] by simp_all
  then have g: "w div 65536 mod 32 = src" "w div 2097152 = 1360"
    using assms digit_split(1) [of src 32 1360] unfolding f(5) by (auto simp: a64_reg_def)
  have "a64_step w r = Some (r(dst := r src))"
    using assms unfolding a64_step_def Let_def f(1-4) g by (simp add: a64_reg_def)
  then show ?thesis by (simp only: w_def)
qed

lemma a64_mov:
  assumes "a64_reg dst" and "a64_reg src"
  shows "a64_exec (aarch64_emit_mov_reg dst src) r = Some (r(dst := r src))"
proof -
  have "le_value [(224 + dst) mod 256, 3 mod 256, src mod 256, 170 mod 256] =
      224 + dst + 256 * 3 + 65536 * src + 16777216 * 170"
    by (rule le_value_4) (use assms in \<open>simp_all add: a64_reg_def\<close>)
  then show ?thesis
    using a64_exec_insn [of "224 + dst" 3 src 170 "[]" r] a64_step_mov [OF assms]
    unfolding aarch64_emit_mov_reg_def append_Nil2 by (simp del: le_value.simps)
qed

lemma m1_bytes_add_sub: "m1_bytes s \<noteq> None \<Longrightarrow> m1_bytes (aarch64_emit_add_sub_imm b d s' i @ s) \<noteq> None"
  by (simp add: aarch64_emit_add_sub_imm_def Let_def)

lemma m1_bytes_add_loop: "m1_bytes (aarch64_add_loop dst src n first) \<noteq> None"
proof (induction dst src n first rule: aarch64_add_loop.induct)
  case (1 dst src n first)
  then show ?case
    by (subst aarch64_add_loop.simps) (simp add: Let_def m1_bytes_add_sub del: not_None_eq)
qed

lemma m1_bytes_sub_loop: "m1_bytes (aarch64_emit_sub_imm_reg reg n) \<noteq> None"
proof (induction reg n rule: aarch64_emit_sub_imm_reg.induct)
  case (1 reg n)
  then show ?case
    by (subst aarch64_emit_sub_imm_reg.simps) (simp add: Let_def m1_bytes_add_sub del: not_None_eq)
qed

lemma a64_add_loop:
  assumes "a64_reg dst" and "a64_reg src" and "0 < n"
  shows "a64_exec (aarch64_add_loop dst src n first) r =
    Some (r(dst := r (if first then src else dst) + word_of_int n))"
  using assms
proof (induction dst src n first arbitrary: r rule: aarch64_add_loop.induct)
  case (1 dst src n first)
  define chunk where "chunk = (if 4095 < n then 4095 else n)"
  define base where "base = (if first then src else dst)"
  have c: "0 \<le> chunk" "chunk < 4096" and b: "a64_reg base"
    using "1.prems" by (auto simp: chunk_def base_def)
  have step: "a64_exec (aarch64_add_loop dst src n first) r =
      a64_exec (aarch64_add_loop dst src (n - chunk) False) (r(dst := r base + word_of_int chunk))"
    using a64_add_sub [OF "1.prems"(1) b c m1_bytes_add_loop, of False] "1.prems"(3)
    by (subst aarch64_add_loop.simps) (simp add: Let_def chunk_def base_def)
  show ?case
  proof (cases "n \<le> 4095")
    case True
    then show ?thesis
      using step
      by (auto simp: chunk_def base_def aarch64_add_loop.simps [of dst src 0 False] fun_eq_iff)
  next
    case False
    with "1.IH" [OF "1.prems"(3) chunk_def base_def "1.prems"(1,2)] step show ?thesis
      by (auto simp: chunk_def base_def fun_eq_iff)
  qed
qed

text \<open>
  C40. The text \<^verbatim>\<open>aarch64_emit_add_imm_reg\<close> emits, run as A64 instructions, sets the destination to
  the source plus an immediate that is not negative, however many 4095-byte steps that takes, and
  changes no other register. For a negative immediate the function emits nothing, and no register
  changes.
\<close>

theorem aarch64_add_imm_correct:
  assumes "a64_reg dst" and "a64_reg src"
  shows "a64_exec (aarch64_emit_add_imm_reg dst src imm) r =
    Some (if imm < 0 then r else r(dst := r src + word_of_int imm))"
proof (cases "imm < 0")
  case True
  then have "aarch64_emit_add_imm_reg dst src imm = []"
    by (simp add: aarch64_emit_add_imm_reg_def aarch64_add_loop.simps [of dst src imm])
  with True show ?thesis by (simp add: a64_exec_empty)
qed (use assms in \<open>auto simp: aarch64_emit_add_imm_reg_def a64_mov a64_add_loop\<close>)

theorem aarch64_add_imm_correct_witness:
  "a64_exec (aarch64_emit_add_imm_reg 0 18 10000) (\<lambda>k. word_of_int k) =
     Some ((\<lambda>k. word_of_int k)(0 := 10018))"
  using aarch64_add_imm_correct [of 0 18 10000 "\<lambda>k. word_of_int k"] by (simp add: a64_reg_def)

lemma a64_sub_loop:
  assumes "a64_reg reg" and "0 \<le> n"
  shows "a64_exec (aarch64_emit_sub_imm_reg reg n) r = Some (r(reg := r reg - word_of_int n))"
  using assms
proof (induction reg n arbitrary: r rule: aarch64_emit_sub_imm_reg.induct)
  case (1 reg n)
  show ?case
  proof (cases "0 < n")
    case False
    with "1.prems" show ?thesis by (simp add: aarch64_emit_sub_imm_reg.simps)
  next
    case True
    define chunk where "chunk = (if 4095 < n then 4095 else n)"
    have c: "0 \<le> chunk" "chunk < 4096" "0 \<le> n - chunk"
      using True by (auto simp: chunk_def)
    have "a64_exec (aarch64_emit_sub_imm_reg reg n) r =
        a64_exec (aarch64_emit_sub_imm_reg reg (n - chunk)) (r(reg := r reg - word_of_int chunk))"
      using a64_add_sub [OF "1.prems"(1) "1.prems"(1) c(1,2) m1_bytes_sub_loop, of True] True
      by (subst aarch64_emit_sub_imm_reg.simps) (simp add: Let_def chunk_def)
    then show ?thesis
      using "1.IH" [OF True chunk_def "1.prems"(1) c(3)]
      by (auto simp: fun_eq_iff)
  qed
qed

end
