(* ===== verification/RiscV64.thy ===== *)
theory RiscV64
  imports EmitBase
begin

text \<open>
  The RISC-V generator, \<^verbatim>\<open>hcc_m1_arch_riscv64.c\<close>. An instruction is a run of M1 words: register
  masks, an immediate and the mnemonic that closes it. The routines that make fresh local labels
  are actions, because they count in \<^verbatim>\<open>static\<close> variables. The lemmas run the emitted words with
  the encodings the header defines.
\<close>

section \<open>Registers and moves\<close>

definition riscv64_rd :: "int \<Rightarrow> string res" where
  "riscv64_rd reg =
     (if reg = 0 then Inr ''rd_x0''
      else if reg = 1 then Inr ''rd_ra''
      else if reg = 2 then Inr ''rd_sp''
      else if reg = 5 then Inr ''rd_t0''
      else if reg = 6 then Inr ''rd_t1''
      else if reg = 7 then Inr ''rd_t2''
      else if reg = 10 then Inr ''rd_a0''
      else if reg = 11 then Inr ''rd_a1''
      else if reg = 12 then Inr ''rd_a2''
      else if reg = 13 then Inr ''rd_a3''
      else if reg = 14 then Inr ''rd_a4''
      else if reg = 15 then Inr ''rd_a5''
      else if reg = 16 then Inr ''rd_a6''
      else if reg = 17 then Inr ''rd_a7''
      else die ''bad riscv64 destination register'')"

definition riscv64_rs1 :: "int \<Rightarrow> string res" where
  "riscv64_rs1 reg =
     (if reg = 0 then Inr ''rs1_x0''
      else if reg = 1 then Inr ''rs1_ra''
      else if reg = 2 then Inr ''rs1_sp''
      else if reg = 5 then Inr ''rs1_t0''
      else if reg = 6 then Inr ''rs1_t1''
      else if reg = 7 then Inr ''rs1_t2''
      else if reg = 10 then Inr ''rs1_a0''
      else if reg = 11 then Inr ''rs1_a1''
      else if reg = 12 then Inr ''rs1_a2''
      else if reg = 13 then Inr ''rs1_a3''
      else if reg = 14 then Inr ''rs1_a4''
      else if reg = 15 then Inr ''rs1_a5''
      else if reg = 16 then Inr ''rs1_a6''
      else if reg = 17 then Inr ''rs1_a7''
      else die ''bad riscv64 first source register'')"

definition riscv64_rs2 :: "int \<Rightarrow> string res" where
  "riscv64_rs2 reg =
     (if reg = 0 then Inr ''rs2_x0''
      else if reg = 1 then Inr ''rs2_ra''
      else if reg = 2 then Inr ''rs2_sp''
      else if reg = 5 then Inr ''rs2_t0''
      else if reg = 6 then Inr ''rs2_t1''
      else if reg = 7 then Inr ''rs2_t2''
      else if reg = 10 then Inr ''rs2_a0''
      else if reg = 11 then Inr ''rs2_a1''
      else if reg = 12 then Inr ''rs2_a2''
      else if reg = 13 then Inr ''rs2_a3''
      else if reg = 14 then Inr ''rs2_a4''
      else if reg = 15 then Inr ''rs2_a5''
      else if reg = 16 then Inr ''rs2_a6''
      else if reg = 17 then Inr ''rs2_a7''
      else die ''bad riscv64 second source register'')"

definition riscv64_arg_reg :: "int \<Rightarrow> int res" where
  "riscv64_arg_reg index =
     (if index < 0 \<or> 7 < index then die ''bad riscv64 argument register'' else Inr (index + 10))"

definition riscv64_emit_mov_reg :: "int \<Rightarrow> int \<Rightarrow> string res" where
  "riscv64_emit_mov_reg dst src =
     (if dst = src then Inr []
      else cat_res [Inr ''  '', riscv64_rd dst, Inr '' '', riscv64_rs1 src, Inr '' mv\<newline>''])"

definition riscv64_addi :: "int \<Rightarrow> int \<Rightarrow> int \<Rightarrow> string res" where
  "riscv64_addi dst base imm =
     cat_res [Inr ''  '', riscv64_rd dst, Inr '' '', riscv64_rs1 base, Inr ('' !'' @ dec imm @ '' addi\<newline>'')]"

text \<open>The two loops return what they wrote, what remains and whether no step was made yet.\<close>

function riscv64_add_up :: "int \<Rightarrow> int \<Rightarrow> int \<Rightarrow> bool \<Rightarrow> (string \<times> int \<times> bool) res" where
  "riscv64_add_up dst src remaining first =
     (if 2047 < remaining then
        res_bind (riscv64_addi dst (if first then src else dst) 2047) (\<lambda>line.
        res_bind (riscv64_add_up dst src (remaining - 2047) False) (\<lambda>(text, r).
        Inr (line @ text, r)))
      else Inr ([], remaining, first))"
  by pat_completeness auto
termination
  by (relation "measure (\<lambda>(dst, src, remaining, first). nat remaining)") auto

function riscv64_add_down :: "int \<Rightarrow> int \<Rightarrow> int \<Rightarrow> bool \<Rightarrow> (string \<times> int \<times> bool) res" where
  "riscv64_add_down dst src remaining first =
     (if remaining < -2048 then
        res_bind (riscv64_addi dst (if first then src else dst) (-2048)) (\<lambda>line.
        res_bind (riscv64_add_down dst src (remaining + 2048) False) (\<lambda>(text, r).
        Inr (line @ text, r)))
      else Inr ([], remaining, first))"
  by pat_completeness auto
termination
  by (relation "measure (\<lambda>(dst, src, remaining, first). nat (- remaining))") auto

declare riscv64_add_up.simps [simp del] riscv64_add_down.simps [simp del]

definition riscv64_emit_add_imm_reg :: "int \<Rightarrow> int \<Rightarrow> int \<Rightarrow> string res" where
  "riscv64_emit_add_imm_reg dst src imm =
     (if imm = 0 then riscv64_emit_mov_reg dst src
      else
        res_bind (riscv64_add_up dst src imm True) (\<lambda>(up, remaining, first).
        res_bind (riscv64_add_down dst src remaining first) (\<lambda>(down, remaining, first).
        res_bind (riscv64_addi dst (if first then src else dst) remaining) (\<lambda>line.
        Inr (up @ down @ line)))))"

section \<open>Literals, labels, memory\<close>

definition riscv64_emit_local_ref :: "Globals \<Rightarrow> string \<Rightarrow> int \<Rightarrow> string" where
  "riscv64_emit_local_ref g kind n = ''HCC_RV_'' @ label_namespace g @ ''_'' @ kind @ ''_'' @ dec n"

definition riscv64_literal_text :: "Globals \<Rightarrow> int \<Rightarrow> int \<Rightarrow> 64 word \<Rightarrow> string res" where
  "riscv64_literal_text g n reg v =
     (let lit = riscv64_emit_local_ref g ''LITERAL'' n;
          fin = riscv64_emit_local_ref g ''LITERAL_DONE'' n in
      res_bind (riscv64_rd reg) (\<lambda>rd.
      Inr (''  rd_t1 ~'' @ lit @ '' auipc\<newline>'' @
           ''  rd_t1 rs1_t1 !'' @ lit @ '' addi\<newline>'' @
           ''  '' @ rd @ '' rs1_t1 ld\<newline>'' @
           ''  rd_x0 $'' @ fin @ '' jal\<newline>'' @
           '':'' @ lit @ [newline] @
           emit_data64_le v @
           '':'' @ fin @ [newline])))"

definition riscv64_emit_load_literal :: "Globals \<Rightarrow> int \<Rightarrow> 64 word \<Rightarrow> action" where
  "riscv64_emit_load_literal g reg v =
     with_state (\<lambda>state.
       let n = literal_id state in
       seqs [modify (\<lambda>state. state\<lparr>literal_id := n + 1\<rparr>), out_res (riscv64_literal_text g n reg v)])"

definition riscv64_emit_load_immediate :: "Globals \<Rightarrow> int \<Rightarrow> int \<Rightarrow> action" where
  "riscv64_emit_load_immediate g reg v =
     (if -2048 \<le> v \<and> v \<le> 2047 then out_res (riscv64_emit_add_imm_reg reg 0 (c_int v))
      else riscv64_emit_load_literal g reg (word_of_int v))"

definition riscv64_load_address :: "int \<Rightarrow> string \<Rightarrow> string res" where
  "riscv64_load_address reg label =
     res_bind (riscv64_rd reg) (\<lambda>rd.
     res_bind (riscv64_rs1 reg) (\<lambda>rs1.
     Inr (''  '' @ rd @ '' ~'' @ label @ '' auipc\<newline>'' @
          ''  '' @ rd @ '' '' @ rs1 @ '' !'' @ label @ '' addi\<newline>'')))"

definition riscv64_emit_load_label :: "int \<Rightarrow> string \<Rightarrow> string res" where
  "riscv64_emit_load_label reg label = riscv64_load_address reg label"

definition riscv64_emit_load_label_parts :: "int \<Rightarrow> string \<Rightarrow> string \<Rightarrow> int \<Rightarrow> string res" where
  "riscv64_emit_load_label_parts reg prefix fn n =
     riscv64_load_address reg (emit_named_ref prefix fn n)"

definition riscv64_emit_load_function_label :: "int \<Rightarrow> string \<Rightarrow> string res" where
  "riscv64_emit_load_function_label reg name = riscv64_load_address reg (''FUNCTION_'' @ name)"

definition riscv64_load_store_op :: "bool \<Rightarrow> int \<Rightarrow> bool \<Rightarrow> string" where
  "riscv64_load_store_op is_load width is_signed =
     (if is_load then
        (if width = 8 then ''ld''
         else if width = 4 \<and> is_signed then ''lw''
         else if width = 4 then ''lwu''
         else if width = 2 \<and> is_signed then ''lh''
         else if width = 2 then ''lhu''
         else if is_signed then ''lb''
         else ''lbu'')
      else
        (if width = 8 then ''sd'' else if width = 4 then ''sw'' else if width = 2 then ''sh'' else ''sb''))"

definition riscv64_emit_load_store_from ::
  "Globals \<Rightarrow> bool \<Rightarrow> int \<Rightarrow> bool \<Rightarrow> int \<Rightarrow> int \<Rightarrow> int \<Rightarrow> action" where
  "riscv64_emit_load_store_from g is_load width is_signed base offset src =
     (let op = riscv64_load_store_op is_load width is_signed in
      if is_load \<and> -2048 \<le> offset \<and> offset \<le> 2047 then
        out_res (cat_res [Inr ''  rd_a0 '', riscv64_rs1 base, Inr ('' !'' @ dec offset @ '' '' @ op @ [newline])])
      else if \<not> is_load \<and> offset = 0 then
        out_res (cat_res [Inr ''  '', riscv64_rs1 base, Inr '' '', riscv64_rs2 src, Inr ('' '' @ op @ [newline])])
      else
        seqs
          [riscv64_emit_load_literal g 5 (word_of_int offset),
           out_res (cat_res [Inr ''  rd_t0 '', riscv64_rs1 base, Inr '' rs2_t0 add\<newline>'']),
           (if is_load then out (''  rd_a0 rs1_t0 '' @ op @ [newline])
            else out_res (cat_res [Inr ''  rs1_t0 '', riscv64_rs2 src, Inr ('' '' @ op @ [newline])]))])"

definition riscv64_emit_load_store ::
  "Globals \<Rightarrow> bool \<Rightarrow> int \<Rightarrow> bool \<Rightarrow> int \<Rightarrow> int \<Rightarrow> action" where
  "riscv64_emit_load_store g is_load width is_signed base offset =
     riscv64_emit_load_store_from g is_load width is_signed base offset 10"

definition riscv64_emit_header_lines :: "string list" where
  "riscv64_emit_header_lines =
    [''## target: stage0-posix riscv64 M1'',
     '''',
     ''DEFINE addi 13000000'',
     ''DEFINE auipc 17000000'',
     ''DEFINE jal 6F000000'',
     ''DEFINE jalr 67000000'',
     ''DEFINE beq 63000000'',
     ''DEFINE bne 63100000'',
     ''DEFINE blt 63400000'',
     ''DEFINE bge 63500000'',
     ''DEFINE bltu 63600000'',
     ''DEFINE bgeu 63700000'',
     ''DEFINE lb 03000000'',
     ''DEFINE lh 03100000'',
     ''DEFINE lw 03200000'',
     ''DEFINE lbu 03400000'',
     ''DEFINE lhu 03500000'',
     ''DEFINE lwu 03600000'',
     ''DEFINE ld 03300000'',
     ''DEFINE sb 23000000'',
     ''DEFINE sh 23100000'',
     ''DEFINE sw 23200000'',
     ''DEFINE sd 23300000'',
     ''DEFINE sltiu 13300000'',
     ''DEFINE xori 13400000'',
     ''DEFINE add 33000000'',
     ''DEFINE sub 33000040'',
     ''DEFINE sll 33100000'',
     ''DEFINE slt 33200000'',
     ''DEFINE sltu 33300000'',
     ''DEFINE xor 33400000'',
     ''DEFINE srl 33500000'',
     ''DEFINE sra 33500040'',
     ''DEFINE or 33600000'',
     ''DEFINE and 33700000'',
     ''DEFINE mul 33000002'',
     ''DEFINE div 33400002'',
     ''DEFINE rem 33600002'',
     ''DEFINE ecall 73000000'',
     ''DEFINE mv 13000000'',
     ''DEFINE beqz 63000000'',
     ''DEFINE bnez 63100000'',
     ''DEFINE ret 67800000'',
     ''DEFINE rd_x0 .00000000'',
     ''DEFINE rd_ra .80000000'',
     ''DEFINE rd_sp .00010000'',
     ''DEFINE rd_t0 .80020000'',
     ''DEFINE rd_t1 .00030000'',
     ''DEFINE rd_t2 .80030000'',
     ''DEFINE rd_a0 .00050000'',
     ''DEFINE rd_a1 .80050000'',
     ''DEFINE rd_a2 .00060000'',
     ''DEFINE rd_a3 .80060000'',
     ''DEFINE rd_a4 .00070000'',
     ''DEFINE rd_a5 .80070000'',
     ''DEFINE rd_a6 .00080000'',
     ''DEFINE rd_a7 .80080000'',
     ''DEFINE rs1_x0 .00000000'',
     ''DEFINE rs1_ra .00800000'',
     ''DEFINE rs1_sp .00000100'',
     ''DEFINE rs1_t0 .00800200'',
     ''DEFINE rs1_t1 .00000300'',
     ''DEFINE rs1_t2 .00800300'',
     ''DEFINE rs1_a0 .00000500'',
     ''DEFINE rs1_a1 .00800500'',
     ''DEFINE rs1_a2 .00000600'',
     ''DEFINE rs1_a3 .00800600'',
     ''DEFINE rs1_a4 .00000700'',
     ''DEFINE rs1_a5 .00800700'',
     ''DEFINE rs1_a6 .00000800'',
     ''DEFINE rs1_a7 .00800800'',
     ''DEFINE rs2_x0 .00000000'',
     ''DEFINE rs2_ra .00001000'',
     ''DEFINE rs2_sp .00002000'',
     ''DEFINE rs2_t0 .00005000'',
     ''DEFINE rs2_t1 .00006000'',
     ''DEFINE rs2_t2 .00007000'',
     ''DEFINE rs2_a0 .0000A000'',
     ''DEFINE rs2_a1 .0000B000'',
     ''DEFINE rs2_a2 .0000C000'',
     ''DEFINE rs2_a3 .0000D000'',
     ''DEFINE rs2_a4 .0000E000'',
     ''DEFINE rs2_a5 .0000F000'',
     ''DEFINE rs2_a6 .00000001'',
     ''DEFINE rs2_a7 .00001001'',
     '''']"

definition riscv64_emit_header :: string where
  "riscv64_emit_header = text_lines riscv64_emit_header_lines"

definition riscv64_emit_load_stack :: "Globals \<Rightarrow> int \<Rightarrow> action" where
  "riscv64_emit_load_stack g offset = riscv64_emit_load_store g True 8 False 2 offset"

definition riscv64_emit_address_stack :: "int \<Rightarrow> string res" where
  "riscv64_emit_address_stack offset = riscv64_emit_add_imm_reg 10 2 offset"

definition riscv64_emit_store_stack :: "Globals \<Rightarrow> int \<Rightarrow> action" where
  "riscv64_emit_store_stack g offset = riscv64_emit_load_store g False 8 False 2 offset"

section \<open>Operators and jumps\<close>

definition riscv64_emit_binop :: "int \<Rightarrow> string res" where
  "riscv64_emit_binop op =
     (if op = BK_ADD then Inr ''  rd_a0 rs1_a1 rs2_a0 add\<newline>''
      else if op = BK_SUB then Inr ''  rd_a0 rs1_a1 rs2_a0 sub\<newline>''
      else if op = BK_MUL then Inr ''  rd_a0 rs1_a1 rs2_a0 mul\<newline>''
      else if op = BK_DIV then Inr ''  rd_a0 rs1_a1 rs2_a0 div\<newline>''
      else if op = BK_MOD then Inr ''  rd_a0 rs1_a1 rs2_a0 rem\<newline>''
      else if op = BK_UDIV then Inr ''  rd_a0 rs1_a1 rs2_a0 divu\<newline>''
      else if op = BK_UMOD then Inr ''  rd_a0 rs1_a1 rs2_a0 remu\<newline>''
      else if op = BK_SHL then Inr ''  rd_a0 rs1_a1 rs2_a0 sll\<newline>''
      else if op = BK_SHR then Inr ''  rd_a0 rs1_a1 rs2_a0 srl\<newline>''
      else if op = BK_SAR then Inr ''  rd_a0 rs1_a1 rs2_a0 sra\<newline>''
      else if op = BK_EQ then Inr ''  rd_a0 rs1_a1 rs2_a0 xor\<newline>  rd_a0 rs1_a0 !1 sltiu\<newline>''
      else if op = BK_NE then Inr ''  rd_a0 rs1_a1 rs2_a0 xor\<newline>  rd_a0 rs1_x0 rs2_a0 sltu\<newline>''
      else if op = BK_LT then Inr ''  rd_a0 rs1_a1 rs2_a0 slt\<newline>''
      else if op = BK_LE then Inr ''  rd_a0 rs1_a0 rs2_a1 slt\<newline>  rd_a0 rs1_a0 !1 xori\<newline>''
      else if op = BK_GT then Inr ''  rd_a0 rs1_a0 rs2_a1 slt\<newline>''
      else if op = BK_GE then Inr ''  rd_a0 rs1_a1 rs2_a0 slt\<newline>  rd_a0 rs1_a0 !1 xori\<newline>''
      else if op = BK_ULT then Inr ''  rd_a0 rs1_a1 rs2_a0 sltu\<newline>''
      else if op = BK_ULE then Inr ''  rd_a0 rs1_a0 rs2_a1 sltu\<newline>  rd_a0 rs1_a0 !1 xori\<newline>''
      else if op = BK_UGT then Inr ''  rd_a0 rs1_a0 rs2_a1 sltu\<newline>''
      else if op = BK_UGE then Inr ''  rd_a0 rs1_a1 rs2_a0 sltu\<newline>  rd_a0 rs1_a0 !1 xori\<newline>''
      else if op = BK_AND then Inr ''  rd_a0 rs1_a1 rs2_a0 and\<newline>''
      else if op = BK_OR then Inr ''  rd_a0 rs1_a1 rs2_a0 or\<newline>''
      else if op = BK_XOR then Inr ''  rd_a0 rs1_a1 rs2_a0 xor\<newline>''
      else die ''bad riscv64 binary operation'')"

definition riscv64_emit_jump_label_parts :: "string \<Rightarrow> string \<Rightarrow> int \<Rightarrow> string res" where
  "riscv64_emit_jump_label_parts prefix fn n =
     cat_res [riscv64_emit_load_label_parts 7 prefix fn n, Inr ''  rd_x0 rs1_t2 !0 jalr\<newline>'']"

definition riscv64_truth_skip_op :: "bool \<Rightarrow> string" where
  "riscv64_truth_skip_op jump_if_true = (if jump_if_true then ''beqz'' else ''bnez'')"

definition riscv64_emit_truth_skip :: "Globals \<Rightarrow> bool \<Rightarrow> int \<Rightarrow> string" where
  "riscv64_emit_truth_skip g jump_if_true n =
     ''  rs1_a0 @'' @ riscv64_emit_local_ref g ''TRUTH_SKIP'' n @ '' '' @
     riscv64_truth_skip_op jump_if_true @ [newline]"

definition riscv64_emit_truth_skip_label :: "Globals \<Rightarrow> int \<Rightarrow> string" where
  "riscv64_emit_truth_skip_label g n =
     '':'' @ riscv64_emit_local_ref g ''TRUTH_SKIP'' n @ [newline]"

definition riscv64_false_branch_kind :: "int \<Rightarrow> int res" where
  "riscv64_false_branch_kind op =
     (if op = BK_EQ then Inr 2
      else if op = BK_NE then Inr 1
      else if op = BK_LT then Inr 4
      else if op = BK_LE then Inr 3
      else if op = BK_GT then Inr 4
      else if op = BK_GE then Inr 3
      else if op = BK_ULT then Inr 6
      else if op = BK_ULE then Inr 5
      else if op = BK_UGT then Inr 6
      else if op = BK_UGE then Inr 5
      else die ''bad riscv64 branch comparison'')"

definition riscv64_false_branch_swaps_args_for_binop :: "int \<Rightarrow> bool" where
  "riscv64_false_branch_swaps_args_for_binop op \<longleftrightarrow>
     op = BK_LE \<or> op = BK_GT \<or> op = BK_ULE \<or> op = BK_UGT"

definition riscv64_branch_op :: "int \<Rightarrow> string res" where
  "riscv64_branch_op kind =
     (if kind = 1 then Inr ''beq''
      else if kind = 2 then Inr ''bne''
      else if kind = 3 then Inr ''blt''
      else if kind = 4 then Inr ''bge''
      else if kind = 5 then Inr ''bltu''
      else if kind = 6 then Inr ''bgeu''
      else die ''bad riscv64 branch opcode'')"

text \<open>
  Both branches jump around a long jump: the words before the label skip it when the condition
  is false. The counter goes up before anything can die.
\<close>

definition riscv64_compare_jump_text :: "Globals \<Rightarrow> int \<Rightarrow> string \<Rightarrow> int \<Rightarrow> int \<Rightarrow> string res" where
  "riscv64_compare_jump_text g n fn op target =
     (let (lhs, rhs) =
        (if riscv64_false_branch_swaps_args_for_binop op then (''rs1_a0'', ''rs2_a1'')
         else (''rs1_a1'', ''rs2_a0''));
        skip = riscv64_emit_local_ref g ''BRANCH_SKIP'' n in
      res_bind (riscv64_false_branch_kind op) (\<lambda>branch_kind.
      cat_res
        [Inr (''  '' @ lhs @ '' '' @ rhs @ '' @'' @ skip @ '' ''), riscv64_branch_op branch_kind,
         Inr [newline], riscv64_emit_jump_label_parts ''HCC_BLOCK'' fn target,
         Inr ('':'' @ skip @ [newline])]))"

definition riscv64_emit_compare_jump :: "Globals \<Rightarrow> string \<Rightarrow> int \<Rightarrow> int \<Rightarrow> action" where
  "riscv64_emit_compare_jump g fn op target =
     with_state (\<lambda>state.
       let n = branch_skip_id state in
       seqs [modify (\<lambda>state. state\<lparr>branch_skip_id := n + 1\<rparr>),
         out_res (riscv64_compare_jump_text g n fn op target)])"

definition riscv64_emit_truth_jump_label_parts ::
  "Globals \<Rightarrow> string \<Rightarrow> string \<Rightarrow> int \<Rightarrow> bool \<Rightarrow> action" where
  "riscv64_emit_truth_jump_label_parts g prefix fn target jump_if_true =
     with_state (\<lambda>state.
       let n = truth_skip_id state in
       seqs [modify (\<lambda>state. state\<lparr>truth_skip_id := n + 1\<rparr>),
         out (riscv64_emit_truth_skip g jump_if_true n),
         out_res (riscv64_emit_jump_label_parts prefix fn target),
         out (riscv64_emit_truth_skip_label g n)])"

end
