(* ===== verification/EmitOps.thy ===== *)
theory EmitOps
  imports AArch64 RiscV64
begin

text \<open>
  The target-independent layer of the emitter, first half: the header, data items, loading
  operands into the accumulator, storing it to the slot of a temporary, binary operators,
  extensions, comparisons, jumps. Each routine branches on \<^verbatim>\<open>target_arch\<close> as the code does.
\<close>

section \<open>Header and data\<close>

definition emit_header_i386_lines :: "string list" where
  "emit_header_i386_lines =
    [''## target: stage0-posix x86 M1'',
     '''',
     ''DEFINE HCC_ADD_IMMEDIATE_to_esp 81C4'',
     ''DEFINE HCC_STORE_ESP_IMMEDIATE_from_eax 898424'',
     ''DEFINE HCC_LOAD_EFFECTIVE_ADDRESS_eax 8D8424'',
     ''DEFINE HCC_LOAD_SIGNED_WORD 8B00'',
     ''DEFINE HCC_STORE_WORD 8903'',
     ''DEFINE HCC_STORE_HALF 668903'',
     ''DEFINE HCC_STORE_CHAR 8803'',
     ''DEFINE HCC_JUMP_EQ 0F84'',
     ''DEFINE HCC_JUMP_NE 0F85'',
     ''DEFINE HCC_JUMP_LT 0F8C'',
     ''DEFINE HCC_JUMP_LE 0F8E'',
     ''DEFINE HCC_JUMP_GT 0F8F'',
     ''DEFINE HCC_JUMP_GE 0F8D'',
     ''DEFINE HCC_JUMP_ULT 0F82'',
     ''DEFINE HCC_JUMP_ULE 0F86'',
     ''DEFINE HCC_JUMP_UGT 0F87'',
     ''DEFINE HCC_JUMP_UGE 0F83'',
     ''DEFINE HCC_CALL_eax FFD0'',
     ''DEFINE CALL_IMMEDIATE E8'',
     '''']"

definition emit_header_i386 :: string where
  "emit_header_i386 = text_lines emit_header_i386_lines"

definition emit_header_amd64_lines :: "string list" where
  "emit_header_amd64_lines =
    [''## target: stage0-posix amd64 M1'',
     '''',
     ''DEFINE ADD_rbx_to_rax 4801D8'',
     ''DEFINE AND_rax_rbx 4821D8'',
     ''DEFINE CALL_IMMEDIATE E8'',
     ''DEFINE CMP 4839C3'',
     ''DEFINE COPY_rax_to_rdi 4889C7'',
     ''DEFINE COPY_rax_to_rcx 4889C1'',
     ''DEFINE COPY_rsp_to_rbp 4889E5'',
     ''DEFINE COPY_rbp_to_rax 4889E8'',
     ''DEFINE CQTO 4899'',
     ''DEFINE JUMP E9'',
     ''DEFINE JUMP_EQ 0F84'',
     ''DEFINE JUMP_NE 0F85'',
     ''DEFINE HCC_JUMP_EQ 0F84'',
     ''DEFINE HCC_JUMP_NE 0F85'',
     ''DEFINE HCC_JUMP_LT 0F8C'',
     ''DEFINE HCC_JUMP_LE 0F8E'',
     ''DEFINE HCC_JUMP_GT 0F8F'',
     ''DEFINE HCC_JUMP_GE 0F8D'',
     ''DEFINE HCC_JUMP_ULT 0F82'',
     ''DEFINE HCC_JUMP_ULE 0F86'',
     ''DEFINE HCC_JUMP_UGT 0F87'',
     ''DEFINE HCC_JUMP_UGE 0F83'',
     ''DEFINE LOAD_BASE_ADDRESS_rax 488D85'',
     ''DEFINE LOAD_BYTE 0FBE00'',
     ''DEFINE LOAD_IMMEDIATE_rax 48C7C0'',
     ''DEFINE LOAD_IMMEDIATE_rdi 48C7C7'',
     ''DEFINE LOAD_IMMEDIATE_rsi 48C7C6'',
     ''DEFINE LOAD_INTEGER 488B00'',
     ''DEFINE LOAD_RSP_IMMEDIATE_into_rax 488B8424'',
     ''DEFINE MOVE_rbx_to_rax 4889D8'',
     ''DEFINE MOVE_rdx_to_rax 4889D0'',
     ''DEFINE MOVEZX 480FB6C0'',
     ''DEFINE DIVIDES_rax_by_rbx_into_rax 48F7FB'',
     ''DEFINE MODULUSS_rax_from_rbx_into_rbx 48F7FB'',
     ''DEFINE MULTIPLY_rax_by_rbx_into_rax 48F7EB'',
     ''DEFINE OR_rax_rbx 4809D8'',
     ''DEFINE PUSH_RAX 50'',
     ''DEFINE RETURN C3'',
     ''DEFINE SETA 0F97C0'',
     ''DEFINE SETAE 0F93C0'',
     ''DEFINE SETB 0F92C0'',
     ''DEFINE SETBE 0F96C0'',
     ''DEFINE SETE 0F94C0'',
     ''DEFINE SETG 0F9FC0'',
     ''DEFINE SETGE 0F9DC0'',
     ''DEFINE SETL 0F9CC0'',
     ''DEFINE SETLE 0F9EC0'',
     ''DEFINE SETNE 0F95C0'',
     ''DEFINE STORE_INTEGER 488903'',
     ''DEFINE SUBTRACT_rax_from_rbx_into_rbx 4829C3'',
     ''DEFINE SYSCALL 0F05'',
     ''DEFINE TEST 4885C0'',
     ''DEFINE XCHG_rax_rbx 4893'',
     ''DEFINE HCC_ADD_IMMEDIATE_to_rsp 4881C4'',
     ''DEFINE HCC_SUB_IMMEDIATE_from_rsp 4881EC'',
     ''DEFINE HCC_ADD_IMMEDIATE_to_rax 4805'',
     ''DEFINE HCC_STORE_RSP_IMMEDIATE_from_rax 48898424'',
     ''DEFINE HCC_LOAD_EFFECTIVE_ADDRESS_rax 488D8424'',
     ''DEFINE HCC_COPY_rax_to_rsi 4889C6'',
     ''DEFINE HCC_COPY_rax_to_rdx 4889C2'',
     ''DEFINE HCC_COPY_rax_to_rcx 4889C1'',
     ''DEFINE HCC_M_RAX_RBX 4889C3'',
     ''DEFINE HCC_COPY_rax_to_r8 4989C0'',
     ''DEFINE HCC_COPY_rax_to_r9 4989C1'',
     ''DEFINE HCC_M_RDI_RAX 4889F8'',
     ''DEFINE HCC_COPY_rsi_to_rax 4889F0'',
     ''DEFINE HCC_COPY_rdx_to_rax 4889D0'',
     ''DEFINE HCC_COPY_rcx_to_rax 4889C8'',
     ''DEFINE HCC_COPY_r8_to_rax 4C89C0'',
     ''DEFINE HCC_COPY_r9_to_rax 4C89C8'',
     ''DEFINE HCC_PUSH_RSI 56'',
     ''DEFINE HCC_PUSH_RDX 52'',
     ''DEFINE HCC_LOAD_IMMEDIATE64_rax 48B8'',
     ''DEFINE HCC_LI64_80000000 48B80000008000000000'',
     ''DEFINE HCC_LI64_FFFFFFFF 48B8FFFFFFFF00000000'',
     ''DEFINE HCC_SEXT8_RAX 480FBEC0'',
     ''DEFINE HCC_SEXT16_RAX 480FBFC0'',
     ''DEFINE HCC_SEXT32_RAX 4863C0'',
     ''DEFINE HCC_ZEXT16_RAX 480FB7C0'',
     ''DEFINE HCC_ZEXT32_RAX 89C0'',
     ''DEFINE HCC_SHL_rax_cl 48D3E0'',
     ''DEFINE HCC_SHR_rax_cl 48D3E8'',
     ''DEFINE HCC_SAR_rax_cl 48D3F8'',
     ''DEFINE HCC_LOAD_INTEGER 488B00'',
     ''DEFINE HCC_STORE_INTEGER 488903'',
     ''DEFINE HCC_LOAD_WORD 8B00'',
     ''DEFINE HCC_LOAD_SIGNED_WORD 486300'',
     ''DEFINE HCC_LOAD_HALF 0FB700'',
     ''DEFINE HCC_LOAD_SIGNED_HALF 480FBF00'',
     ''DEFINE HCC_STORE_WORD 8903'',
     ''DEFINE HCC_STORE_HALF 668903'',
     ''DEFINE HCC_STORE_CHAR 8803'',
     ''DEFINE HCC_LOAD_SIGNED_CHAR 480FBE00'',
     ''DEFINE HCC_XOR_rbx_rax_into_rax 4831D8'',
     ''DEFINE HCC_XOR_rdx_rdx 4831D2'',
     ''DEFINE HCC_UDIV_rax_by_rbx_into_rax 48F7F3'',
     ''DEFINE HCC_CALL_rax FFD0'',
     '''']"

definition emit_header_amd64 :: string where
  "emit_header_amd64 = text_lines emit_header_amd64_lines"

definition emit_header :: "Globals \<Rightarrow> string" where
  "emit_header g =
     text_lines [''## hcc M1 output''] @
     (if target_arch g = TARGET_I386 then emit_header_i386
      else if target_arch g = TARGET_AARCH64 then aarch64_emit_header
      else if target_arch g = TARGET_RISCV64 then riscv64_emit_header
      else emit_header_amd64)"

definition data_value_text :: "Globals \<Rightarrow> DataValue \<Rightarrow> string" where
  "data_value_text g v =
     (case v of
        DV_BYTE byte \<Rightarrow> emit_byte byte
      | DV_ADDRESS label \<Rightarrow>
          if target_arch g = TARGET_I386 then ''&'' @ label else ''&'' @ label @ zero_quads)"

definition data_value_bytes :: "Globals \<Rightarrow> DataValue \<Rightarrow> nat" where
  "data_value_bytes g v =
     (case v of DV_BYTE byte \<Rightarrow> 1 | DV_ADDRESS label \<Rightarrow> if target_arch g = TARGET_I386 then 4 else 8)"

text \<open>The inner loop: at most 16 values on a line; it returns the values that are left.\<close>

fun data_row :: "Globals \<Rightarrow> nat \<Rightarrow> DataValue list \<Rightarrow> string \<times> DataValue list" where
  "data_row g count [] = ([], [])"
| "data_row g count (v # vs) =
     (if count < 16 then
        (case data_row g (count + 1) vs of
           (text, rest) \<Rightarrow> ((if count \<noteq> 0 then '' '' else []) @ data_value_text g v @ text, rest))
      else ([], v # vs))"

lemma data_row_rest: "length (snd (data_row g count vs)) \<le> length vs"
proof (induction vs arbitrary: count)
  case (Cons v vs)
  obtain t r where "data_row g (count + 1) vs = (t, r)" by fastforce
  with Cons [of "count + 1"] show ?case by auto
qed simp

function data_rows :: "Globals \<Rightarrow> DataValue list \<Rightarrow> string" where
  "data_rows g [] = []"
| "data_rows g (v # vs) =
     (case data_row g 0 (v # vs) of
        (text, rest) \<Rightarrow> ''  '' @ text @ [newline] @ data_rows g rest)"
  by pat_completeness auto
termination
proof (relation "measure (\<lambda>(g, vs). length vs)", goal_cases)
  case (2 g v vs t rest)
  obtain t' r where r: "data_row g 1 vs = (t', r)" by fastforce
  with 2 have "rest = r" by simp
  with r data_row_rest [of g 1 vs] show ?case by simp
qed simp

function data_padding :: "nat \<Rightarrow> string" where
  "data_padding emitted =
     (if emitted mod 4 \<noteq> 0 then
        emit_byte 0 @ (if (emitted + 1) mod 4 \<noteq> 0 then '' '' else []) @ data_padding (emitted + 1)
      else [])"
  by pat_completeness auto
termination
proof (relation "measure (\<lambda>emitted. (4 - emitted mod 4) mod 4)", goal_cases)
  case (2 emitted)
  then have "emitted mod 4 \<in> {1, 2, 3}" by auto
  then show ?case by (auto simp: mod_Suc)
qed simp

declare data_padding.simps [simp del]

definition data_item_bytes :: "Globals \<Rightarrow> DataItem \<Rightarrow> nat" where
  "data_item_bytes g item = sum_list (map (data_value_bytes g) (item_values item))"

definition emit_data_item :: "Globals \<Rightarrow> DataItem \<Rightarrow> string" where
  "emit_data_item g item =
     (let emitted = data_item_bytes g item in
      '':'' @ item_label item @ [newline] @
      data_rows g (item_values item) @
      (if (target_arch g = TARGET_AARCH64 \<or> target_arch g = TARGET_RISCV64) \<and> emitted mod 4 \<noteq> 0
       then ''  '' @ data_padding emitted @ [newline] else []) @
      [newline])"

section \<open>Loading the accumulator\<close>

definition load_immediate_amd64 :: "int \<Rightarrow> string" where
  "load_immediate_amd64 v =
     (let small = c_int v in
      if small = v then ''  LOAD_IMMEDIATE_rax %'' @ dec small @ [newline]
      else ''  HCC_LOAD_IMMEDIATE64_rax '' @ emit_bytes_le 8 0 (word_of_int v) @ [newline])"

definition emit_load_immediate :: "Globals \<Rightarrow> int \<Rightarrow> action" where
  "emit_load_immediate g v =
     seqs
       [emit_forget_rax,
        (case target_arch g of
           TARGET_AARCH64 \<Rightarrow> out (aarch64_emit_load_immediate (word_of_int v))
         | TARGET_RISCV64 \<Rightarrow> riscv64_emit_load_immediate g 10 v
         | TARGET_I386 \<Rightarrow> out (''  mov_eax, %'' @ dec (c_int v) @ [newline])
         | TARGET_AMD64 \<Rightarrow> out (load_immediate_amd64 v))]"

text \<open>\<open>le_word\<close> is the loop that shifts the bytes in from the last to the first.\<close>

definition le_word :: "int list \<Rightarrow> 64 word" where
  "le_word bytes = foldr (\<lambda>b v. push_bit 8 v + word_of_int (b AND 255)) bytes 0"

fun byte_list_text :: "int list \<Rightarrow> string" where
  "byte_list_text [] = []"
| "byte_list_text [b] = emit_byte b"
| "byte_list_text (b # bs) = emit_byte b @ '' '' @ byte_list_text bs"

definition load_immediate_bytes_amd64 :: "int list \<Rightarrow> string" where
  "load_immediate_bytes_amd64 bytes =
     (if bytes = [0, 0, 0, 128, 0, 0, 0, 0] then ''  HCC_LI64_80000000\<newline>''
      else if bytes = [255, 255, 255, 255, 0, 0, 0, 0] then ''  HCC_LI64_FFFFFFFF\<newline>''
      else ''  HCC_LOAD_IMMEDIATE64_rax '' @ byte_list_text bytes @ [newline])"

definition emit_load_immediate_bytes :: "Globals \<Rightarrow> int list \<Rightarrow> action" where
  "emit_load_immediate_bytes g op_bytes =
     (let bytes = take 8 (op_bytes @ replicate 8 0) in
      seqs
        [emit_forget_rax,
         (case target_arch g of
            TARGET_I386 \<Rightarrow>
              out (''  mov_eax, %'' @ dec (uint (take_bit 32 (le_word (take 4 bytes)))) @ [newline])
          | TARGET_AARCH64 \<Rightarrow> out (aarch64_emit_load_immediate (le_word bytes))
          | TARGET_RISCV64 \<Rightarrow> riscv64_emit_load_immediate g 10 (sint (le_word bytes))
          | TARGET_AMD64 \<Rightarrow> out (load_immediate_bytes_amd64 bytes))])"

definition emit_load_stack :: "Globals \<Rightarrow> int \<Rightarrow> int \<Rightarrow> action" where
  "emit_load_stack g slot rsp_bias =
     (case target_arch g of
        TARGET_I386 \<Rightarrow> out (''  mov_eax,[esp+DWORD] %'' @ dec (c_int (4 * slot + rsp_bias)) @ [newline])
      | TARGET_AARCH64 \<Rightarrow> out (aarch64_emit_load_stack (c_int (8 * slot + rsp_bias)))
      | TARGET_RISCV64 \<Rightarrow> riscv64_emit_load_stack g (c_int (8 * slot + rsp_bias))
      | TARGET_AMD64 \<Rightarrow> out (''  LOAD_RSP_IMMEDIATE_into_rax %'' @ dec (c_int (8 * slot + rsp_bias)) @ [newline]))"

definition emit_stack_address :: "Globals \<Rightarrow> int \<Rightarrow> int \<Rightarrow> action" where
  "emit_stack_address g slot rsp_bias =
     (case target_arch g of
        TARGET_I386 \<Rightarrow> out (''  HCC_LOAD_EFFECTIVE_ADDRESS_eax %'' @ dec (c_int (4 * slot + rsp_bias)) @ [newline])
      | TARGET_AARCH64 \<Rightarrow> out (aarch64_emit_address_stack (c_int (8 * slot + rsp_bias)))
      | TARGET_RISCV64 \<Rightarrow> out_res (riscv64_emit_address_stack (c_int (8 * slot + rsp_bias)))
      | TARGET_AMD64 \<Rightarrow>
          out (''  HCC_LOAD_EFFECTIVE_ADDRESS_rax %'' @ dec (c_int (8 * slot + rsp_bias)) @ [newline]))"

definition emit_load_location :: "Globals \<Rightarrow> Loc \<Rightarrow> int \<Rightarrow> action" where
  "emit_load_location g loc rsp_bias =
     seqs
       [emit_forget_rax,
        (case loc_kind loc of
           LOC_STACK \<Rightarrow> emit_load_stack g (loc_slot loc) rsp_bias
         | LOC_OBJECT \<Rightarrow> emit_stack_address g (loc_slot loc) rsp_bias
         | LOC_NONE \<Rightarrow> out [])]"

definition emit_load_operand :: "Globals \<Rightarrow> LocArray \<Rightarrow> int \<Rightarrow> Operand \<Rightarrow> action" where
  "emit_load_operand g locs rsp_bias op =
     (case op of
        OP_NONE \<Rightarrow> out []
      | OP_IMM v \<Rightarrow> emit_load_immediate g v
      | OP_BYTES bytes \<Rightarrow> emit_load_immediate_bytes g bytes
      | OP_GLOBAL name \<Rightarrow>
          seqs
            [emit_forget_rax,
             (case target_arch g of
                TARGET_I386 \<Rightarrow> out (''  mov_eax, &'' @ name @ [newline])
              | TARGET_AARCH64 \<Rightarrow> out (aarch64_emit_load_label 0 name)
              | TARGET_RISCV64 \<Rightarrow> out_res (riscv64_emit_load_label 10 name)
              | TARGET_AMD64 \<Rightarrow> out (''  LOAD_IMMEDIATE_rax &'' @ name @ [newline]))]
      | OP_FUNC name \<Rightarrow>
          seqs
            [emit_forget_rax,
             (case target_arch g of
                TARGET_I386 \<Rightarrow> out (''  mov_eax, &FUNCTION_'' @ name @ [newline])
              | TARGET_AARCH64 \<Rightarrow>
                  out (aarch64_emit_load_literal_prefix 0 @ ''  &FUNCTION_'' @ name @ zero_quads @ [newline])
              | TARGET_RISCV64 \<Rightarrow> out_res (riscv64_emit_load_function_label 10 name)
              | TARGET_AMD64 \<Rightarrow> out (''  LOAD_IMMEDIATE_rax &FUNCTION_'' @ name @ [newline]))]
      | OP_TEMP v \<Rightarrow>
          with_res (lookup_loc locs (c_int v)) (\<lambda>loc.
          with_state (\<lambda>state.
            if rsp_bias = 0 \<and> loc_kind loc = LOC_STACK \<and> rax_temp state = v then out []
            else
              seqs
                [emit_load_location g loc rsp_bias,
                 when_do (rsp_bias = 0 \<and> loc_kind loc = LOC_STACK) (emit_remember_rax_temp (c_int v))])))"

definition emit_store_temp :: "Globals \<Rightarrow> LocArray \<Rightarrow> int \<Rightarrow> action" where
  "emit_store_temp g locs temp =
     with_res (lookup_loc locs temp) (\<lambda>loc.
     with_state (\<lambda>state.
       case loc_kind loc of
         LOC_STACK \<Rightarrow>
           if omit_store_temp state = temp then emit_remember_rax_temp temp
           else
             seqs
               [(case target_arch g of
                   TARGET_I386 \<Rightarrow>
                     out (''  HCC_STORE_ESP_IMMEDIATE_from_eax %'' @ dec (c_int (4 * loc_slot loc)) @ [newline])
                 | TARGET_AARCH64 \<Rightarrow> out (aarch64_emit_store_stack (c_int (8 * loc_slot loc)))
                 | TARGET_RISCV64 \<Rightarrow> riscv64_emit_store_stack g (c_int (8 * loc_slot loc))
                 | TARGET_AMD64 \<Rightarrow>
                     out (''  HCC_STORE_RSP_IMMEDIATE_from_rax %'' @ dec (c_int (8 * loc_slot loc)) @ [newline])),
                emit_remember_rax_temp temp]
       | LOC_OBJECT \<Rightarrow> out_res (die ''cannot assign stack object'')
       | LOC_NONE \<Rightarrow> out []))"

definition emit_address_of :: "Globals \<Rightarrow> LocArray \<Rightarrow> int \<Rightarrow> action" where
  "emit_address_of g locs temp =
     with_res (lookup_loc locs temp) (\<lambda>loc.
     seqs
       [emit_forget_rax,
        (if loc_kind loc = LOC_STACK \<or> loc_kind loc = LOC_OBJECT
         then emit_stack_address g (loc_slot loc) 0
         else out_res (die ''cannot take address''))])"

section \<open>Binary operators and extensions\<close>

definition emit_binop_i386 :: "int \<Rightarrow> string" where
  "emit_binop_i386 op =
     (if op = BK_ADD then ''  add_eax,ebx\<newline>''
      else if op = BK_SUB then ''  sub_ebx,eax\<newline>  mov_eax,ebx\<newline>''
      else if op = BK_MUL then ''  imul_ebx\<newline>''
      else if op = BK_DIV then ''  xchg_ebx,eax\<newline>  cdq\<newline>  idiv_ebx\<newline>''
      else if op = BK_MOD then ''  xchg_ebx,eax\<newline>  cdq\<newline>  idiv_ebx\<newline>  mov_eax,edx\<newline>''
      else if op = BK_UDIV then ''  xchg_ebx,eax\<newline>  xor_edx,edx\<newline>  div_ebx\<newline>''
      else if op = BK_UMOD then ''  xchg_ebx,eax\<newline>  xor_edx,edx\<newline>  div_ebx\<newline>  mov_eax,edx\<newline>''
      else if op = BK_SHL then ''  mov_ecx,eax\<newline>  mov_eax,ebx\<newline>  shl_eax,cl\<newline>''
      else if op = BK_SHR then ''  mov_ecx,eax\<newline>  mov_eax,ebx\<newline>  shr_eax,cl\<newline>''
      else if op = BK_SAR then ''  mov_ecx,eax\<newline>  mov_eax,ebx\<newline>  sar_eax,cl\<newline>''
      else if op = BK_EQ then ''  cmp_ebx,eax\<newline>  sete_al\<newline>  movzx_eax,al\<newline>''
      else if op = BK_NE then ''  cmp_ebx,eax\<newline>  setne_al\<newline>  movzx_eax,al\<newline>''
      else if op = BK_LT then ''  cmp_ebx,eax\<newline>  setl_al\<newline>  movzx_eax,al\<newline>''
      else if op = BK_LE then ''  cmp_ebx,eax\<newline>  setle_al\<newline>  movzx_eax,al\<newline>''
      else if op = BK_GT then ''  cmp_ebx,eax\<newline>  setg_al\<newline>  movzx_eax,al\<newline>''
      else if op = BK_GE then ''  cmp_ebx,eax\<newline>  setge_al\<newline>  movzx_eax,al\<newline>''
      else if op = BK_ULT then ''  cmp_ebx,eax\<newline>  setb_al\<newline>  movzx_eax,al\<newline>''
      else if op = BK_ULE then ''  cmp_ebx,eax\<newline>  setbe_al\<newline>  movzx_eax,al\<newline>''
      else if op = BK_UGT then ''  cmp_ebx,eax\<newline>  seta_al\<newline>  movzx_eax,al\<newline>''
      else if op = BK_UGE then ''  cmp_ebx,eax\<newline>  setae_al\<newline>  movzx_eax,al\<newline>''
      else if op = BK_AND then ''  and_eax,ebx\<newline>''
      else if op = BK_OR then ''  or_eax,ebx\<newline>''
      else if op = BK_XOR then ''  xor_eax,ebx\<newline>''
      else [])"

definition emit_binop_amd64 :: "int \<Rightarrow> string" where
  "emit_binop_amd64 op =
     (if op = BK_ADD then ''  ADD_rbx_to_rax\<newline>''
      else if op = BK_SUB then ''  SUBTRACT_rax_from_rbx_into_rbx\<newline>  MOVE_rbx_to_rax\<newline>''
      else if op = BK_MUL then ''  MULTIPLY_rax_by_rbx_into_rax\<newline>''
      else if op = BK_DIV then ''  XCHG_rax_rbx\<newline>  CQTO\<newline>  DIVIDES_rax_by_rbx_into_rax\<newline>''
      else if op = BK_MOD then ''  XCHG_rax_rbx\<newline>  CQTO\<newline>  MODULUSS_rax_from_rbx_into_rbx\<newline>  MOVE_rdx_to_rax\<newline>''
      else if op = BK_UDIV then ''  XCHG_rax_rbx\<newline>  HCC_XOR_rdx_rdx\<newline>  HCC_UDIV_rax_by_rbx_into_rax\<newline>''
      else if op = BK_UMOD then ''  XCHG_rax_rbx\<newline>  HCC_XOR_rdx_rdx\<newline>  HCC_UDIV_rax_by_rbx_into_rax\<newline>  MOVE_rdx_to_rax\<newline>''
      else if op = BK_SHL then ''  COPY_rax_to_rcx\<newline>  MOVE_rbx_to_rax\<newline>  HCC_SHL_rax_cl\<newline>''
      else if op = BK_SHR then ''  COPY_rax_to_rcx\<newline>  MOVE_rbx_to_rax\<newline>  HCC_SHR_rax_cl\<newline>''
      else if op = BK_SAR then ''  COPY_rax_to_rcx\<newline>  MOVE_rbx_to_rax\<newline>  HCC_SAR_rax_cl\<newline>''
      else if op = BK_EQ then ''  CMP\<newline>  SETE\<newline>  MOVEZX\<newline>''
      else if op = BK_NE then ''  CMP\<newline>  SETNE\<newline>  MOVEZX\<newline>''
      else if op = BK_LT then ''  CMP\<newline>  SETL\<newline>  MOVEZX\<newline>''
      else if op = BK_LE then ''  CMP\<newline>  SETLE\<newline>  MOVEZX\<newline>''
      else if op = BK_GT then ''  CMP\<newline>  SETG\<newline>  MOVEZX\<newline>''
      else if op = BK_GE then ''  CMP\<newline>  SETGE\<newline>  MOVEZX\<newline>''
      else if op = BK_ULT then ''  CMP\<newline>  SETB\<newline>  MOVEZX\<newline>''
      else if op = BK_ULE then ''  CMP\<newline>  SETBE\<newline>  MOVEZX\<newline>''
      else if op = BK_UGT then ''  CMP\<newline>  SETA\<newline>  MOVEZX\<newline>''
      else if op = BK_UGE then ''  CMP\<newline>  SETAE\<newline>  MOVEZX\<newline>''
      else if op = BK_AND then ''  AND_rax_rbx\<newline>''
      else if op = BK_OR then ''  OR_rax_rbx\<newline>''
      else if op = BK_XOR then ''  HCC_XOR_rbx_rax_into_rax\<newline>''
      else [])"

definition emit_binop :: "Globals \<Rightarrow> int \<Rightarrow> string res" where
  "emit_binop g op =
     (case target_arch g of
        TARGET_I386 \<Rightarrow> Inr (emit_binop_i386 op)
      | TARGET_AARCH64 \<Rightarrow> Inr (aarch64_emit_binop op)
      | TARGET_RISCV64 \<Rightarrow> riscv64_emit_binop op
      | TARGET_AMD64 \<Rightarrow> Inr (emit_binop_amd64 op))"

definition mask_for_size :: "int \<Rightarrow> int" where
  "mask_for_size width =
     (if width \<le> 1 then 255
      else if width \<le> 2 then 65535
      else if width \<le> 4 then sint (push_bit 16 (65535 :: 64 word) + 65535)
      else -1)"

definition sign_bit_for_size :: "int \<Rightarrow> int" where
  "sign_bit_for_size width =
     (if width \<le> 1 then 128
      else if width \<le> 2 then 32768
      else sint (push_bit 31 (1 :: 64 word)))"

definition emit_copy_acc_to_scratch :: "Globals \<Rightarrow> string" where
  "emit_copy_acc_to_scratch g =
     (case target_arch g of
        TARGET_I386 \<Rightarrow> ''  mov_ebx,eax\<newline>''
      | TARGET_AARCH64 \<Rightarrow> ''  SET_X1_FROM_X0\<newline>''
      | TARGET_RISCV64 \<Rightarrow> ''  rd_a1 rs1_a0 mv\<newline>''
      | TARGET_AMD64 \<Rightarrow> ''  HCC_M_RAX_RBX\<newline>'')"

definition emit_amd64_zext_loaded_rax :: "int \<Rightarrow> string" where
  "emit_amd64_zext_loaded_rax width =
     (if width \<le> 1 then ''  MOVEZX\<newline>''
      else if width \<le> 2 then ''  HCC_ZEXT16_RAX\<newline>''
      else if width \<le> 4 then ''  HCC_ZEXT32_RAX\<newline>''
      else [])"

definition emit_amd64_sext_loaded_rax :: "int \<Rightarrow> string" where
  "emit_amd64_sext_loaded_rax width =
     (if width \<le> 1 then ''  HCC_SEXT8_RAX\<newline>''
      else if width \<le> 2 then ''  HCC_SEXT16_RAX\<newline>''
      else if width \<le> 4 then ''  HCC_SEXT32_RAX\<newline>''
      else [])"

text \<open>The mask-and-flip sequences that i386, AArch64 and RISC-V share.\<close>

definition emit_binop_with_scratch :: "Globals \<Rightarrow> int \<Rightarrow> int \<Rightarrow> action" where
  "emit_binop_with_scratch g v op =
     seqs [out (emit_copy_acc_to_scratch g), emit_load_immediate g v, out_res (emit_binop g op)]"

definition emit_masked_zext :: "Globals \<Rightarrow> int \<Rightarrow> action" where
  "emit_masked_zext g width = emit_binop_with_scratch g (mask_for_size width) BK_AND"

definition emit_masked_sext :: "Globals \<Rightarrow> int \<Rightarrow> action" where
  "emit_masked_sext g width =
     seqs
       [emit_binop_with_scratch g (mask_for_size width) BK_AND,
        emit_binop_with_scratch g (sign_bit_for_size width) BK_XOR,
        emit_binop_with_scratch g (sign_bit_for_size width) BK_SUB]"

definition emit_i386_zext_loaded_eax :: "Globals \<Rightarrow> int \<Rightarrow> action" where
  "emit_i386_zext_loaded_eax g width = (if 4 \<le> width then out [] else emit_masked_zext g width)"

definition emit_i386_sext_loaded_eax :: "Globals \<Rightarrow> int \<Rightarrow> action" where
  "emit_i386_sext_loaded_eax g width = (if 4 \<le> width then out [] else emit_masked_sext g width)"

definition emit_zext_loaded_acc :: "Globals \<Rightarrow> int \<Rightarrow> action" where
  "emit_zext_loaded_acc g width =
     seqs
       [(case target_arch g of
           TARGET_I386 \<Rightarrow> emit_i386_zext_loaded_eax g width
         | TARGET_AARCH64 \<Rightarrow>
             if width = 4 then out ''  UXTW_X0_W0\<newline>''
             else if width < 8 then emit_masked_zext g width else out []
         | TARGET_RISCV64 \<Rightarrow> if width < 8 then emit_masked_zext g width else out []
         | TARGET_AMD64 \<Rightarrow> out (emit_amd64_zext_loaded_rax width)),
        emit_forget_rax]"

definition emit_sext_loaded_acc :: "Globals \<Rightarrow> int \<Rightarrow> action" where
  "emit_sext_loaded_acc g width =
     seqs
       [(case target_arch g of
           TARGET_I386 \<Rightarrow> emit_i386_sext_loaded_eax g width
         | TARGET_AARCH64 \<Rightarrow>
             if width = 4 then out ''  SXTW_X0_W0\<newline>''
             else if width < 8 then emit_masked_sext g width else out []
         | TARGET_RISCV64 \<Rightarrow> if width < 8 then emit_masked_sext g width else out []
         | TARGET_AMD64 \<Rightarrow> out (emit_amd64_sext_loaded_rax width)),
        emit_forget_rax]"

section \<open>Comparisons and jumps\<close>

definition emit_compare :: "Globals \<Rightarrow> LocArray \<Rightarrow> Operand \<Rightarrow> Operand \<Rightarrow> action" where
  "emit_compare g locs a b =
     with_state (\<lambda>state.
       seqs
         [(if target_arch g = TARGET_AMD64 \<and> b = OP_TEMP (rax_temp state) then
             seqs
               [out (emit_copy_acc_to_scratch g), emit_load_operand g locs 0 a,
                out ''  XCHG_rax_rbx\<newline>'', emit_forget_rax]
           else
             seqs
               [emit_load_operand g locs 0 a, out (emit_copy_acc_to_scratch g),
                emit_load_operand g locs 0 b]),
          out (case target_arch g of
             TARGET_I386 \<Rightarrow> ''  cmp_ebx,eax\<newline>''
           | TARGET_AARCH64 \<Rightarrow> ''  CMP_X1_X0\<newline>''
           | TARGET_RISCV64 \<Rightarrow> []
           | TARGET_AMD64 \<Rightarrow> ''  CMP\<newline>'')])"

definition jump_name_for_binop :: "int \<Rightarrow> string res" where
  "jump_name_for_binop op =
     (if op = BK_EQ then Inr ''HCC_JUMP_EQ''
      else if op = BK_NE then Inr ''HCC_JUMP_NE''
      else if op = BK_LT then Inr ''HCC_JUMP_LT''
      else if op = BK_LE then Inr ''HCC_JUMP_LE''
      else if op = BK_GT then Inr ''HCC_JUMP_GT''
      else if op = BK_GE then Inr ''HCC_JUMP_GE''
      else if op = BK_ULT then Inr ''HCC_JUMP_ULT''
      else if op = BK_ULE then Inr ''HCC_JUMP_ULE''
      else if op = BK_UGT then Inr ''HCC_JUMP_UGT''
      else if op = BK_UGE then Inr ''HCC_JUMP_UGE''
      else die ''bad branch comparison'')"

definition emit_named_label :: "string \<Rightarrow> string \<Rightarrow> int \<Rightarrow> string" where
  "emit_named_label prefix fn n = '':'' @ emit_named_ref prefix fn n @ [newline]"

definition emit_jump_named :: "Globals \<Rightarrow> string \<Rightarrow> string \<Rightarrow> int \<Rightarrow> string res" where
  "emit_jump_named g prefix fn n =
     (case target_arch g of
        TARGET_AMD64 \<Rightarrow> Inr (''  JUMP %'' @ emit_named_ref prefix fn n @ [newline])
      | TARGET_I386 \<Rightarrow> Inr (''  jmp %'' @ emit_named_ref prefix fn n @ [newline])
      | TARGET_AARCH64 \<Rightarrow> Inr (aarch64_emit_jump_label_parts prefix fn n)
      | TARGET_RISCV64 \<Rightarrow> riscv64_emit_jump_label_parts prefix fn n)"

definition emit_truth_jump_named ::
  "Globals \<Rightarrow> string \<Rightarrow> string \<Rightarrow> int \<Rightarrow> bool \<Rightarrow> action" where
  "emit_truth_jump_named g prefix fn n jump_if_true =
     (case target_arch g of
        TARGET_AMD64 \<Rightarrow>
          out (''  TEST\<newline>'' @ (if jump_if_true then ''  JUMP_NE %'' else ''  JUMP_EQ %'') @
            emit_named_ref prefix fn n @ [newline])
      | TARGET_I386 \<Rightarrow>
          out (''  test_eax,eax\<newline>'' @ (if jump_if_true then ''  jne %'' else ''  je %'') @
            emit_named_ref prefix fn n @ [newline])
      | TARGET_AARCH64 \<Rightarrow> out (aarch64_emit_truth_jump_label_parts prefix fn n jump_if_true)
      | TARGET_RISCV64 \<Rightarrow> riscv64_emit_truth_jump_label_parts g prefix fn n jump_if_true)"

definition emit_jump :: "Globals \<Rightarrow> string \<Rightarrow> int \<Rightarrow> string res" where
  "emit_jump g fn target = emit_jump_named g ''HCC_BLOCK'' fn target"

definition emit_compare_jump :: "Globals \<Rightarrow> string \<Rightarrow> int \<Rightarrow> int \<Rightarrow> action" where
  "emit_compare_jump g fn op target =
     (case target_arch g of
        TARGET_AARCH64 \<Rightarrow> out_res (aarch64_emit_compare_jump fn op target)
      | TARGET_RISCV64 \<Rightarrow> riscv64_emit_compare_jump g fn op target
      | _ \<Rightarrow>
          with_res (jump_name_for_binop op) (\<lambda>name.
          out (''  '' @ name @ '' %'' @ emit_named_ref ''HCC_BLOCK'' fn target @ [newline])))"

definition emit_truth_jump :: "Globals \<Rightarrow> string \<Rightarrow> bool \<Rightarrow> int \<Rightarrow> action" where
  "emit_truth_jump g fn jump_if_true target =
     emit_truth_jump_named g ''HCC_BLOCK'' fn target jump_if_true"

definition emit_truth_branch :: "Globals \<Rightarrow> string \<Rightarrow> int \<Rightarrow> int \<Rightarrow> int \<Rightarrow> action" where
  "emit_truth_branch g fn yes no next_id =
     (if next_id = yes then emit_truth_jump g fn False no
      else if next_id = no then emit_truth_jump g fn True yes
      else seqs [emit_truth_jump g fn True yes, out_res (emit_jump g fn no)])"

definition emit_compare_branch :: "Globals \<Rightarrow> string \<Rightarrow> int \<Rightarrow> int \<Rightarrow> int \<Rightarrow> int \<Rightarrow> action" where
  "emit_compare_branch g fn op yes no next_id =
     (if next_id = yes then
        with_res (invert_binop op) (\<lambda>inverted. emit_compare_jump g fn inverted no)
      else if next_id = no then emit_compare_jump g fn op yes
      else seqs [emit_compare_jump g fn op yes, out_res (emit_jump g fn no)])"

end
