(* ===== verification/EmitFn.thy ===== *)
theory EmitFn
  imports EmitOps
begin

text \<open>
  The target-independent layer of the emitter, second half: calls and their arguments,
  instructions, instruction lists with the elision of stores, terminators and functions.
\<close>

section \<open>Calls\<close>

definition call_stack_bytes :: "Globals \<Rightarrow> int \<Rightarrow> int" where
  "call_stack_bytes g argc =
     (if target_arch g = TARGET_I386 then argc * 4
      else
        let stack_args = argc - target_register_arg_count (target_arch g)
        in if stack_args \<le> 0 then 0 else stack_args * 8)"

definition emit_call_cleanup :: "Globals \<Rightarrow> int \<Rightarrow> string res" where
  "emit_call_cleanup g argc =
     (let bytes = call_stack_bytes g argc in
      if 0 < bytes then
        (case target_arch g of
           TARGET_I386 \<Rightarrow> Inr (''  HCC_ADD_IMMEDIATE_to_esp %'' @ dec bytes @ [newline])
         | TARGET_AARCH64 \<Rightarrow> Inr (aarch64_emit_add_imm_reg 18 18 bytes)
         | TARGET_RISCV64 \<Rightarrow> riscv64_emit_add_imm_reg 2 2 bytes
         | TARGET_AMD64 \<Rightarrow> Inr (''  HCC_ADD_IMMEDIATE_to_rsp %'' @ dec bytes @ [newline]))
      else Inr [])"

definition emit_argument_move :: "Globals \<Rightarrow> int \<Rightarrow> string res" where
  "emit_argument_move g index =
     (if target_arch g = TARGET_AARCH64 then
        (if index = 0 then Inr []
         else if index = 1 then Inr ''  SET_X1_FROM_X0\<newline>''
         else if index = 2 then Inr ''  SET_X2_FROM_X0\<newline>''
         else if index = 3 then Inr ''  SET_X3_FROM_X0\<newline>''
         else if index = 4 then Inr ''  SET_X4_FROM_X0\<newline>''
         else if index = 5 then Inr ''  SET_X5_FROM_X0\<newline>''
         else if index = 6 then Inr ''  SET_X6_FROM_X0\<newline>''
         else if index = 7 then Inr (aarch64_emit_mov_reg 7 0)
         else die ''bad argument register'')
      else if target_arch g = TARGET_RISCV64 then
        (if index = 0 then Inr []
         else res_bind (riscv64_arg_reg index) (\<lambda>reg. riscv64_emit_mov_reg reg 10))
      else if index = 0 then Inr ''  COPY_rax_to_rdi\<newline>''
      else if index = 1 then Inr ''  HCC_COPY_rax_to_rsi\<newline>''
      else if index = 2 then Inr ''  HCC_COPY_rax_to_rdx\<newline>''
      else if index = 3 then Inr ''  HCC_COPY_rax_to_rcx\<newline>''
      else if index = 4 then Inr ''  HCC_COPY_rax_to_r8\<newline>''
      else if index = 5 then Inr ''  HCC_COPY_rax_to_r9\<newline>''
      else die ''bad argument register'')"

text \<open>
  The loops over the arguments. \<open>push_args\<close> takes the arguments in the order in which they are
  pushed (the last first); \<open>pushed\<close> counts those already on the stack. \<open>load_args\<close> takes pairs
  of an argument and its index.
\<close>

fun push_args ::
  "Globals \<Rightarrow> LocArray \<Rightarrow> int \<Rightarrow> string res \<Rightarrow> int \<Rightarrow> Operand list \<Rightarrow> action" where
  "push_args g locs slot_bytes push pushed [] = out []"
| "push_args g locs slot_bytes push pushed (op # ops) =
     seqs
       [emit_load_operand g locs (pushed * slot_bytes) op, out_res push,
        push_args g locs slot_bytes push (pushed + 1) ops]"

fun load_args :: "Globals \<Rightarrow> LocArray \<Rightarrow> int \<Rightarrow> (Operand \<times> nat) list \<Rightarrow> action" where
  "load_args g locs bias [] = out []"
| "load_args g locs bias ((op, i) # ops) =
     seqs
       [emit_load_operand g locs bias op, out_res (emit_argument_move g (int i)),
        load_args g locs bias ops]"

definition register_args :: "nat \<Rightarrow> Operand list \<Rightarrow> (Operand \<times> nat) list" where
  "register_args n args = zip (take n args) [0..<n]"

definition emit_arguments :: "Globals \<Rightarrow> LocArray \<Rightarrow> Operand list \<Rightarrow> action" where
  "emit_arguments g locs args =
     (let bias = call_stack_bytes g (int (length args)) in
      case target_arch g of
        TARGET_I386 \<Rightarrow> push_args g locs 4 (Inr ''  push_eax\<newline>'') 0 (rev args)
      | TARGET_AARCH64 \<Rightarrow>
          seqs
            [push_args g locs 8 (Inr ''  PUSH_X0\<newline>'') 0 (rev (drop 8 args)),
             load_args g locs bias (rev (register_args 8 args))]
      | TARGET_RISCV64 \<Rightarrow>
          seqs
            [push_args g locs 8
               (cat_res [riscv64_emit_add_imm_reg 2 2 (-8), Inr ''  rs1_sp rs2_a0 sd\<newline>'']) 0
               (rev (drop 8 args)),
             load_args g locs bias (rev (register_args 8 args))]
      | TARGET_AMD64 \<Rightarrow>
          seqs
            [push_args g locs 8 (Inr ''  PUSH_RAX\<newline>'') 0 (rev (drop 6 args)),
             load_args g locs bias (register_args 6 args)])"

section \<open>Instructions\<close>

definition emit_memory_load ::
  "Globals \<Rightarrow> LocArray \<Rightarrow> int \<Rightarrow> Operand \<Rightarrow> int \<Rightarrow> bool \<Rightarrow> string \<Rightarrow> string \<Rightarrow> action" where
  "emit_memory_load g locs temp a width is_signed i386_op other_op =
     (if width = 8 \<and> target_arch g = TARGET_I386
      then out_res (die ''i386 M1 backend cannot lower 64-bit load'')
      else
        seqs
          [emit_load_operand g locs 0 a,
           (case target_arch g of
              TARGET_I386 \<Rightarrow> out i386_op
            | TARGET_AARCH64 \<Rightarrow> out (aarch64_emit_load_store True width is_signed 0 0)
            | TARGET_RISCV64 \<Rightarrow> riscv64_emit_load_store g True width is_signed 10 0
            | TARGET_AMD64 \<Rightarrow> out other_op),
           emit_store_temp g locs temp])"

definition emit_memory_store ::
  "Globals \<Rightarrow> LocArray \<Rightarrow> Operand \<Rightarrow> Operand \<Rightarrow> int \<Rightarrow> string \<Rightarrow> action" where
  "emit_memory_store g locs a b width other_op =
     (if width = 8 \<and> target_arch g = TARGET_I386
      then out_res (die ''i386 M1 backend cannot lower 64-bit store'')
      else
        seqs
          [emit_load_operand g locs 0 a, out (emit_copy_acc_to_scratch g),
           emit_load_operand g locs 0 b,
           (case target_arch g of
              TARGET_AARCH64 \<Rightarrow> out (aarch64_emit_load_store False width False 1 0)
            | TARGET_RISCV64 \<Rightarrow> riscv64_emit_load_store_from g False width False 11 0 10
            | _ \<Rightarrow> out other_op)])"

definition operand_temp :: "Operand \<Rightarrow> int" where
  "operand_temp op = (case op of OP_TEMP v \<Rightarrow> c_int v | _ \<Rightarrow> -1)"

definition emit_param :: "Globals \<Rightarrow> int \<Rightarrow> int \<Rightarrow> action" where
  "emit_param g total_slots v =
     (case target_arch g of
        TARGET_I386 \<Rightarrow>
          out (''  mov_eax,[esp+DWORD] %'' @ dec (c_int (total_slots * 4 + 4 + v * 4)) @ [newline])
      | TARGET_AARCH64 \<Rightarrow>
          out (if v < 8 then (if v = 0 then [] else aarch64_emit_mov_reg 0 (c_int v))
            else aarch64_emit_load_store True 8 False 18
              (c_int (total_slots * 8 + 8 + (v - 8) * 8)))
      | TARGET_RISCV64 \<Rightarrow>
          if v < 8 then
            (if v \<noteq> 0 then out_res (riscv64_emit_mov_reg 10 (c_int (v + 10))) else out [])
          else
            riscv64_emit_load_store g True 8 False 2 (c_int (total_slots * 8 + 8 + (v - 8) * 8))
      | TARGET_AMD64 \<Rightarrow>
          out (if v = 0 then ''  HCC_M_RDI_RAX\<newline>''
            else if v = 1 then ''  HCC_COPY_rsi_to_rax\<newline>''
            else if v = 2 then ''  HCC_COPY_rdx_to_rax\<newline>''
            else if v = 3 then ''  HCC_COPY_rcx_to_rax\<newline>''
            else if v = 4 then ''  HCC_COPY_r8_to_rax\<newline>''
            else if v = 5 then ''  HCC_COPY_r9_to_rax\<newline>''
            else ''  LOAD_RSP_IMMEDIATE_into_rax %'' @
              dec (c_int (total_slots * 8 + 8 + (v - 6) * 8)) @ [newline]))"

definition binop_is_commutative :: "int \<Rightarrow> bool" where
  "binop_is_commutative op \<longleftrightarrow>
     op = BK_ADD \<or> op = BK_MUL \<or> op = BK_EQ \<or> op = BK_NE \<or> op = BK_AND \<or> op = BK_OR \<or>
     op = BK_XOR"

definition is_imm :: "Operand \<Rightarrow> bool" where
  "is_imm op \<longleftrightarrow> (case op of OP_IMM v \<Rightarrow> True | _ \<Rightarrow> False)"

text \<open>
  \<^verbatim>\<open>IK_BIN\<close>. The code holds \<open>left\<close> and \<open>right\<close> as pointers and compares \<open>left\<close> with the address of
  the second operand; \<open>swapped\<close> is that comparison. \<open>add_immediate\<close> is the amd64 shortcut for an
  addition of a constant that fits 32 bits.
\<close>

definition add_swap :: "Globals \<Rightarrow> int \<Rightarrow> Operand \<Rightarrow> Operand \<Rightarrow> bool" where
  "add_swap g op a b \<longleftrightarrow> target_arch g = TARGET_AMD64 \<and> op = BK_ADD \<and> is_imm a \<and> \<not> is_imm b"

definition add_immediate :: "Globals \<Rightarrow> int \<Rightarrow> Operand \<Rightarrow> int option" where
  "add_immediate g op right =
     (if target_arch g = TARGET_AMD64 \<and> op = BK_ADD then
        (case right of
           OP_IMM immediate \<Rightarrow>
             if -2147483648 \<le> immediate \<and> immediate \<le> 2147483647 then Some immediate else None
         | _ \<Rightarrow> None)
      else None)"

definition emit_bin_operands ::
  "Globals \<Rightarrow> LocArray \<Rightarrow> bool \<Rightarrow> Operand \<Rightarrow> Operand \<Rightarrow> action" where
  "emit_bin_operands g locs swapped left right =
     with_state (\<lambda>state.
       if target_arch g = TARGET_AMD64 \<and> right = OP_TEMP (rax_temp state) \<and> \<not> swapped then
         seqs
           [out (emit_copy_acc_to_scratch g), emit_load_operand g locs 0 left,
            out ''  XCHG_rax_rbx\<newline>'', emit_forget_rax]
       else
         seqs
           [emit_load_operand g locs 0 left,
            (case target_arch g of
               TARGET_I386 \<Rightarrow> out ''  mov_ebx,eax\<newline>''
             | TARGET_AARCH64 \<Rightarrow> out ''  SET_X1_FROM_X0\<newline>''
             | TARGET_RISCV64 \<Rightarrow> out_res (riscv64_emit_mov_reg 11 10)
             | TARGET_AMD64 \<Rightarrow> out ''  HCC_M_RAX_RBX\<newline>''),
            emit_load_operand g locs 0 right])"

definition emit_bin :: "Globals \<Rightarrow> LocArray \<Rightarrow> int \<Rightarrow> int \<Rightarrow> Operand \<Rightarrow> Operand \<Rightarrow> action" where
  "emit_bin g locs temp op a b =
     (let swap = add_swap g op a b;
          left = (if swap then b else a);
          right = (if swap then a else b) in
      case add_immediate g op right of
        Some immediate \<Rightarrow>
          seqs
            [emit_load_operand g locs 0 left,
             out (''  HCC_ADD_IMMEDIATE_to_rax %'' @ dec (c_int immediate) @ [newline]),
             emit_forget_rax, emit_store_temp g locs temp]
      | None \<Rightarrow>
          seqs
            [with_state (\<lambda>state.
               if binop_is_commutative op \<and> right = OP_TEMP (rax_temp state)
               then emit_bin_operands g locs True b a
               else emit_bin_operands g locs swap left right),
             out_res (emit_binop g op), emit_store_temp g locs temp])"

definition emit_call :: "Globals \<Rightarrow> LocArray \<Rightarrow> int \<Rightarrow> string \<Rightarrow> Operand list \<Rightarrow> action" where
  "emit_call g locs result name args =
     seqs
       [emit_arguments g locs args,
        (case target_arch g of
           TARGET_AARCH64 \<Rightarrow>
             out (aarch64_emit_load_literal_prefix 16 @ ''  &FUNCTION_'' @ name @ zero_quads @ [newline] @
               ''  BLR_X16\<newline>'')
         | TARGET_RISCV64 \<Rightarrow>
             out_res (cat_res
               [riscv64_emit_load_function_label 7 name, Inr ''  rd_ra rs1_t2 !0 jalr\<newline>''])
         | _ \<Rightarrow> out (''  CALL_IMMEDIATE %FUNCTION_'' @ name @ [newline])),
        emit_forget_rax,
        out_res (emit_call_cleanup g (int (length args))),
        when_do (0 \<le> result) (emit_store_temp g locs result)]"

definition emit_calli :: "Globals \<Rightarrow> LocArray \<Rightarrow> int \<Rightarrow> Operand \<Rightarrow> Operand list \<Rightarrow> action" where
  "emit_calli g locs result callee args =
     seqs
       [(case target_arch g of
           TARGET_AARCH64 \<Rightarrow>
             seqs
               [emit_load_operand g locs 0 callee, out ''  SET_X16_FROM_X0\<newline>'',
                emit_arguments g locs args, out ''  BLR_X16\<newline>'']
         | TARGET_RISCV64 \<Rightarrow>
             seqs
               [emit_load_operand g locs 0 callee, out_res (riscv64_emit_mov_reg 7 10),
                emit_arguments g locs args, out ''  rd_ra rs1_t2 !0 jalr\<newline>'']
         | _ \<Rightarrow>
             seqs
               [emit_arguments g locs args,
                emit_load_operand g locs (call_stack_bytes g (int (length args))) callee,
                out (if target_arch g = TARGET_I386 then ''  HCC_CALL_eax\<newline>''
                  else ''  HCC_CALL_rax\<newline>'')]),
        emit_forget_rax,
        out_res (emit_call_cleanup g (int (length args))),
        when_do (0 \<le> result) (emit_store_temp g locs result)]"

definition emit_extend :: "Globals \<Rightarrow> LocArray \<Rightarrow> action \<Rightarrow> int \<Rightarrow> Operand \<Rightarrow> action" where
  "emit_extend g locs conv temp a =
     seqs [emit_load_operand g locs 0 a, conv, emit_store_temp g locs temp]"

definition instr_def_temp :: "Instr \<Rightarrow> int" where
  "instr_def_temp i =
     (case i of
        IK_PARAM t v \<Rightarrow> t | IK_CONST t v \<Rightarrow> t | IK_COPY t a \<Rightarrow> t | IK_ADDROF t t2 \<Rightarrow> t
      | IK_LOAD64 t a \<Rightarrow> t | IK_LOAD32 t a \<Rightarrow> t | IK_LOADS32 t a \<Rightarrow> t | IK_LOAD16 t a \<Rightarrow> t
      | IK_LOADS16 t a \<Rightarrow> t | IK_LOAD8 t a \<Rightarrow> t | IK_LOADS8 t a \<Rightarrow> t | IK_SEXT t v a \<Rightarrow> t
      | IK_ZEXT t v a \<Rightarrow> t | IK_TRUNC t v a \<Rightarrow> t | IK_BIN t op a b \<Rightarrow> t
      | IK_CALL r name args \<Rightarrow> r | IK_CALLI r callee args \<Rightarrow> r
      | _ \<Rightarrow> -1)"

definition instr_consumes_rax_temp :: "Globals \<Rightarrow> Instr \<Rightarrow> int \<Rightarrow> bool" where
  "instr_consumes_rax_temp g i temp =
     (let call = (\<lambda>args. target_arch g = TARGET_AMD64 \<and> args \<noteq> [] \<and> length args \<le> 6 \<and>
            hd args = OP_TEMP temp) in
      case i of
        IK_COPY t a \<Rightarrow> a = OP_TEMP temp
      | IK_LOAD64 t a \<Rightarrow> a = OP_TEMP temp
      | IK_LOAD32 t a \<Rightarrow> a = OP_TEMP temp
      | IK_LOADS32 t a \<Rightarrow> a = OP_TEMP temp
      | IK_LOAD16 t a \<Rightarrow> a = OP_TEMP temp
      | IK_LOADS16 t a \<Rightarrow> a = OP_TEMP temp
      | IK_LOAD8 t a \<Rightarrow> a = OP_TEMP temp
      | IK_LOADS8 t a \<Rightarrow> a = OP_TEMP temp
      | IK_SEXT t v a \<Rightarrow> a = OP_TEMP temp
      | IK_ZEXT t v a \<Rightarrow> a = OP_TEMP temp
      | IK_TRUNC t v a \<Rightarrow> a = OP_TEMP temp
      | IK_STORE64 a b \<Rightarrow> a = OP_TEMP temp
      | IK_STORE32 a b \<Rightarrow> a = OP_TEMP temp
      | IK_STORE16 a b \<Rightarrow> a = OP_TEMP temp
      | IK_STORE8 a b \<Rightarrow> a = OP_TEMP temp
      | IK_BIN t op a b \<Rightarrow> a = OP_TEMP temp \<or> binop_is_commutative op \<and> b = OP_TEMP temp
      | IK_CALL r name args \<Rightarrow> call args
      | IK_CALLI r callee args \<Rightarrow> call args
      | _ \<Rightarrow> False)"

text \<open>
  Before an instruction, \<^verbatim>\<open>emit_instrs\<close> decides whether the store of its result may be left out: the
  result has one use, and that use is by the next instruction or, after the last one, is
  \<open>final_temp\<close>.
\<close>

definition set_omit :: "int \<Rightarrow> action" where
  "set_omit t = modify (\<lambda>state. state\<lparr>omit_store_temp := t\<rparr>)"

definition choose_omit :: "Globals \<Rightarrow> LocArray \<Rightarrow> int \<Rightarrow> Instr \<Rightarrow> Instr list \<Rightarrow> int res" where
  "choose_omit g locs final_temp i rest =
     (let d = instr_def_temp i in
      case rest of
        next # _ \<Rightarrow>
          if 0 \<le> d then
            res_bind (lookup_loc locs d) (\<lambda>def_loc.
            Inr (if loc_uses def_loc = 1 \<and> instr_consumes_rax_temp g next d then d else -1))
          else Inr (-1)
      | [] \<Rightarrow>
          if 0 \<le> d \<and> d = final_temp then
            res_bind (lookup_loc locs d) (\<lambda>def_loc. Inr (if loc_uses def_loc = 1 then d else -1))
          else Inr (-1))"

fun emit_instr :: "Globals \<Rightarrow> string \<Rightarrow> LocArray \<Rightarrow> int \<Rightarrow> Instr \<Rightarrow> action"
  and emit_instrs :: "Globals \<Rightarrow> string \<Rightarrow> LocArray \<Rightarrow> int \<Rightarrow> Instr list \<Rightarrow> int \<Rightarrow> action"
where
  "emit_instr g fn locs total_slots (IK_SEXT temp v a) =
     emit_extend g locs (emit_sext_loaded_acc g (c_int v)) temp a"
| "emit_instr g fn locs total_slots (IK_ZEXT temp v a) =
     emit_extend g locs (emit_zext_loaded_acc g (c_int v)) temp a"
| "emit_instr g fn locs total_slots (IK_TRUNC temp v a) =
     emit_extend g locs (emit_zext_loaded_acc g (c_int v)) temp a"
| "emit_instr g fn locs total_slots (IK_PARAM temp v) =
     seqs [emit_param g total_slots v, emit_store_temp g locs temp]"
| "emit_instr g fn locs total_slots (IK_ALLOCA temp v) = out []"
| "emit_instr g fn locs total_slots (IK_CONST temp v) =
     seqs [emit_load_immediate g v, emit_store_temp g locs temp]"
| "emit_instr g fn locs total_slots (IK_COPY temp a) =
     seqs [emit_load_operand g locs 0 a, emit_store_temp g locs temp]"
| "emit_instr g fn locs total_slots (IK_ADDROF temp temp2) =
     seqs [emit_address_of g locs temp2, emit_store_temp g locs temp]"
| "emit_instr g fn locs total_slots (IK_LOAD64 temp a) =
     emit_memory_load g locs temp a 8 False [] ''  HCC_LOAD_INTEGER\<newline>''"
| "emit_instr g fn locs total_slots (IK_LOAD32 temp a) =
     emit_memory_load g locs temp a 4 False ''  mov_eax,[eax]\<newline>'' ''  HCC_LOAD_WORD\<newline>''"
| "emit_instr g fn locs total_slots (IK_LOADS32 temp a) =
     emit_memory_load g locs temp a 4 True ''  mov_eax,[eax]\<newline>'' ''  HCC_LOAD_SIGNED_WORD\<newline>''"
| "emit_instr g fn locs total_slots (IK_LOAD16 temp a) =
     emit_memory_load g locs temp a 2 False ''  movzx_eax,WORD_PTR_[eax]\<newline>'' ''  HCC_LOAD_HALF\<newline>''"
| "emit_instr g fn locs total_slots (IK_LOADS16 temp a) =
     emit_memory_load g locs temp a 2 True ''  movsx_eax,WORD_PTR_[eax]\<newline>''
       ''  HCC_LOAD_SIGNED_HALF\<newline>''"
| "emit_instr g fn locs total_slots (IK_LOAD8 temp a) =
     emit_memory_load g locs temp a 1 False ''  movzx_eax,BYTE_PTR_[eax]\<newline>''
       ''  LOAD_BYTE\<newline>  MOVEZX\<newline>''"
| "emit_instr g fn locs total_slots (IK_LOADS8 temp a) =
     emit_memory_load g locs temp a 1 True ''  movsx_eax,BYTE_PTR_[eax]\<newline>''
       ''  HCC_LOAD_SIGNED_CHAR\<newline>''"
| "emit_instr g fn locs total_slots (IK_STORE64 a b) =
     emit_memory_store g locs a b 8 ''  HCC_STORE_INTEGER\<newline>''"
| "emit_instr g fn locs total_slots (IK_STORE32 a b) =
     emit_memory_store g locs a b 4 ''  HCC_STORE_WORD\<newline>''"
| "emit_instr g fn locs total_slots (IK_STORE16 a b) =
     emit_memory_store g locs a b 2 ''  HCC_STORE_HALF\<newline>''"
| "emit_instr g fn locs total_slots (IK_STORE8 a b) =
     emit_memory_store g locs a b 1 ''  HCC_STORE_CHAR\<newline>''"
| "emit_instr g fn locs total_slots (IK_BIN temp op a b) = emit_bin g locs temp op a b"
| "emit_instr g fn locs total_slots (IK_CALL result name args) = emit_call g locs result name args"
| "emit_instr g fn locs total_slots (IK_CALLI result callee args) =
     emit_calli g locs result callee args"
| "emit_instr g fn locs total_slots (IK_COND temp cs co ts to fs fo) =
     seqs
       [emit_instrs g fn locs total_slots cs (operand_temp co),
        emit_load_operand g locs 0 co,
        emit_truth_jump_named g ''HCC_COND_ELSE'' fn temp False,
        emit_forget_rax,
        emit_instrs g fn locs total_slots ts (operand_temp to),
        emit_load_operand g locs 0 to,
        emit_store_temp g locs temp,
        out_res (emit_jump_named g ''HCC_COND_DONE'' fn temp),
        out (emit_named_label ''HCC_COND_ELSE'' fn temp),
        emit_forget_rax,
        emit_instrs g fn locs total_slots fs (operand_temp fo),
        emit_load_operand g locs 0 fo,
        emit_store_temp g locs temp,
        out (emit_named_label ''HCC_COND_DONE'' fn temp),
        emit_forget_rax]"
| "emit_instrs g fn locs total_slots [] final_temp = out []"
| "emit_instrs g fn locs total_slots (i # is) final_temp =
     seqs
       [with_res (choose_omit g locs final_temp i is) set_omit,
        emit_instr g fn locs total_slots i,
        set_omit (-1),
        emit_instrs g fn locs total_slots is final_temp]"

section \<open>Terminators and functions\<close>

definition emit_cleanup_stack :: "Globals \<Rightarrow> int \<Rightarrow> string res" where
  "emit_cleanup_stack g total_slots =
     (if 0 < total_slots then
        (case target_arch g of
           TARGET_I386 \<Rightarrow> Inr (''  HCC_ADD_IMMEDIATE_to_esp %'' @ dec (c_int (total_slots * 4)) @ [newline])
         | TARGET_AARCH64 \<Rightarrow> Inr (aarch64_emit_add_imm_reg 18 18 (c_int (total_slots * 8)))
         | TARGET_RISCV64 \<Rightarrow> riscv64_emit_add_imm_reg 2 2 (c_int (total_slots * 8))
         | TARGET_AMD64 \<Rightarrow>
             Inr (''  HCC_ADD_IMMEDIATE_to_rsp %'' @ dec (c_int (total_slots * 8)) @ [newline]))
      else Inr [])"

definition emit_return :: "Globals \<Rightarrow> string" where
  "emit_return g =
     (case target_arch g of
        TARGET_I386 \<Rightarrow> ''  ret\<newline>''
      | TARGET_AARCH64 \<Rightarrow> ''  POP_LR\<newline>  RETURN\<newline>''
      | TARGET_RISCV64 \<Rightarrow> ''  rd_ra rs1_sp ld\<newline>  rd_sp rs1_sp !8 addi\<newline>  ret\<newline>''
      | TARGET_AMD64 \<Rightarrow> ''  RETURN\<newline>'')"

definition emit_terminator ::
  "Globals \<Rightarrow> string \<Rightarrow> int \<Rightarrow> LocArray \<Rightarrow> int \<Rightarrow> Terminator \<Rightarrow> action" where
  "emit_terminator g fn next_id locs total_slots term =
     seqs
       [(case term of
           TK_RET op \<Rightarrow>
             seqs
               [(if op = OP_NONE then emit_load_immediate g 0 else emit_load_operand g locs 0 op),
                out_res (emit_cleanup_stack g total_slots),
                out (emit_return g)]
         | TK_JUMP yes \<Rightarrow> when_do (next_id \<noteq> yes) (out_res (emit_jump g fn yes))
         | TK_BRANCH op yes no \<Rightarrow>
             seqs [emit_load_operand g locs 0 op, emit_truth_branch g fn yes no next_id]
         | TK_BRANCH_CMP binop a b yes no \<Rightarrow>
             seqs [emit_compare g locs a b, emit_compare_branch g fn binop yes no next_id]),
        emit_forget_rax]"

definition block_first_term_temp :: "Globals \<Rightarrow> Block \<Rightarrow> int" where
  "block_first_term_temp g block =
     (case block_term block of
        TK_RET (OP_TEMP v) \<Rightarrow> c_int v
      | TK_BRANCH (OP_TEMP v) yes no \<Rightarrow> c_int v
      | TK_BRANCH_CMP binop a b yes no \<Rightarrow>
          (let is = block_instrs block;
               final_def = (if is = [] then -1 else instr_def_temp (last is)) in
           if a = OP_TEMP final_def then final_def
           else if target_arch g = TARGET_AMD64 \<and> b = OP_TEMP final_def then final_def
           else -1)
      | _ \<Rightarrow> -1)"

definition emit_block_ref :: "string \<Rightarrow> int \<Rightarrow> string" where
  "emit_block_ref fn n = emit_named_ref ''HCC_BLOCK'' fn n"

definition emit_block :: "Globals \<Rightarrow> string \<Rightarrow> LocArray \<Rightarrow> int \<Rightarrow> int \<Rightarrow> Block \<Rightarrow> action" where
  "emit_block g fn locs total_slots next_id block =
     seqs
       [when_do (block_id block \<noteq> 0)
          (seqs [emit_forget_rax, out ('':'' @ emit_block_ref fn (block_id block) @ [newline])]),
        emit_instrs g fn locs total_slots (block_instrs block) (block_first_term_temp g block),
        emit_terminator g fn next_id locs total_slots (block_term block)]"

definition next_block_id :: "Block list \<Rightarrow> int" where
  "next_block_id blocks = (case blocks of [] \<Rightarrow> -1 | b # _ \<Rightarrow> block_id b)"

fun emit_blocks :: "Globals \<Rightarrow> string \<Rightarrow> LocArray \<Rightarrow> int \<Rightarrow> Block list \<Rightarrow> action" where
  "emit_blocks g fn locs total_slots [] = out []"
| "emit_blocks g fn locs total_slots (b # bs) =
     seqs
       [emit_block g fn locs total_slots (next_block_id bs) b,
        emit_blocks g fn locs total_slots bs]"

definition emit_prologue :: "Globals \<Rightarrow> int \<Rightarrow> string res" where
  "emit_prologue g total_slots =
     cat_res
       [Inr (case target_arch g of
          TARGET_AARCH64 \<Rightarrow> ''  PUSH_LR\<newline>''
        | TARGET_RISCV64 \<Rightarrow> ''  rd_sp rs1_sp !-8 addi\<newline>  rs1_sp rs2_ra sd\<newline>''
        | _ \<Rightarrow> []),
        (if 0 < total_slots then
           (case target_arch g of
              TARGET_I386 \<Rightarrow> Inr (''  sub_esp, %'' @ dec (c_int (total_slots * 4)) @ [newline])
            | TARGET_AARCH64 \<Rightarrow> Inr (aarch64_emit_sub_imm_reg 18 (c_int (total_slots * 8)))
            | TARGET_RISCV64 \<Rightarrow> riscv64_emit_add_imm_reg 2 2 (c_int (- total_slots * 8))
            | TARGET_AMD64 \<Rightarrow>
                Inr (''  HCC_SUB_IMMEDIATE_from_rsp %'' @ dec (c_int (total_slots * 8)) @ [newline]))
         else Inr [])]"

definition emit_function :: "Globals \<Rightarrow> Function \<Rightarrow> action" where
  "emit_function g fn =
     with_res (allocate_function (target_arch g) fn) (\<lambda>(locs, total_slots).
     seqs
       [modify emit_state_init,
        out ('':FUNCTION_'' @ fn_name fn @ [newline]),
        out_res (emit_prologue g total_slots),
        emit_blocks g (fn_name fn) locs total_slots (fn_blocks fn),
        out [newline]])"

end
