(* ===== verification/Machine.thy ===== *)
theory Machine
  imports EmitBase "HOL-Library.Signed_Division"
begin

text \<open>
  What the emitted text means, shared by the targets: the words of an M1 text, the definitions in
  a header, and the value every binary operator of the IR has. A target's theory adds the
  meaning of its machine code; the locale \<open>binop_target\<close> is the contract between the operators
  and the sequences the emitter builds from them.
\<close>

section \<open>M1 text\<close>

fun words_acc :: "string \<Rightarrow> string \<Rightarrow> string list" where
  "words_acc acc [] = (if acc = [] then [] else [rev acc])"
| "words_acc acc (c # s) =
     (if c = CHR '' '' \<or> c = newline
      then (if acc = [] then words_acc [] s else rev acc # words_acc [] s)
      else words_acc (c # acc) s)"

definition m1_words :: "string \<Rightarrow> string list" where
  "m1_words s = words_acc [] s"

fun m1_lines :: "string \<Rightarrow> string list" where
  "m1_lines [] = []"
| "m1_lines (c # s) =
     (if c = newline then [] # m1_lines s
      else (case m1_lines s of [] \<Rightarrow> [[c]] | l # ls \<Rightarrow> (c # l) # ls))"

text \<open>A header line \<^verbatim>\<open>DEFINE name hex\<close>.\<close>

definition line_define :: "string \<Rightarrow> (string \<times> string) list" where
  "line_define l =
     (case m1_words l of [d, name, hex] \<Rightarrow> if d = ''DEFINE'' then [(name, hex)] else [] | _ \<Rightarrow> [])"

definition header_defines :: "string \<Rightarrow> (string \<times> string) list" where
  "header_defines text = concat (map line_define (m1_lines text))"

definition lines_ok :: "string list \<Rightarrow> bool" where
  "lines_ok ls \<longleftrightarrow> (\<forall>l \<in> set ls. newline \<notin> set l)"

lemma m1_lines_line: "newline \<notin> set l \<Longrightarrow> m1_lines (l @ newline # s) = l # m1_lines s"
  by (induction l) auto

lemma m1_lines_text_lines: "lines_ok ls \<Longrightarrow> m1_lines (text_lines ls @ s) = ls @ m1_lines s"
  by (induction ls) (auto simp: lines_ok_def text_lines_def m1_lines_line)

lemma header_defines_text:
  "lines_ok ls \<Longrightarrow> header_defines (text_lines ls) = concat (map line_define ls)"
  using m1_lines_text_lines [of ls "[]"] by (simp add: header_defines_def)

text \<open>Reading the words of a text that is known only in part.\<close>

definition word_ok :: "string \<Rightarrow> bool" where
  "word_ok t \<longleftrightarrow> t \<noteq> [] \<and> CHR '' '' \<notin> set t \<and> newline \<notin> set t"

lemma words_acc_append:
  "CHR '' '' \<notin> set t \<Longrightarrow> newline \<notin> set t \<Longrightarrow> words_acc acc (t @ s) = words_acc (rev t @ acc) s"
  by (induction t arbitrary: acc) auto

lemma m1_words_blank: "m1_words (CHR '' '' # s) = m1_words s" "m1_words (newline # s) = m1_words s"
  by (simp_all add: m1_words_def)

lemma m1_words_word:
  "word_ok t \<Longrightarrow> m1_words (t @ CHR '' '' # s) = t # m1_words s"
  "word_ok t \<Longrightarrow> m1_words (t @ newline # s) = t # m1_words s"
  "word_ok t \<Longrightarrow> m1_words t = [t]"
  using words_acc_append [of t "[]" "[]"]
  by (auto simp: m1_words_def word_ok_def words_acc_append)

lemma m1_words_append: "words_acc acc (a @ newline # b) = words_acc acc (a @ [newline]) @ m1_words b"
  by (induction a arbitrary: acc) (auto simp: m1_words_def)

text \<open>A text of whole lines.\<close>

definition whole_lines :: "string \<Rightarrow> bool" where
  "whole_lines a \<longleftrightarrow> a = [] \<or> last a = newline"

lemma m1_words_lines: "whole_lines a \<Longrightarrow> m1_words (a @ b) = m1_words a @ m1_words b"
proof (cases a rule: rev_cases)
  case (snoc a' c)
  assume "whole_lines a"
  with snoc show ?thesis
    using m1_words_append [of "[]" a' b] by (simp add: whole_lines_def m1_words_def)
qed (simp add: m1_words_def)

lemma word_ok_dec [simp]: "word_ok (dec n)"
  by (auto simp: word_ok_def newline_def is_digit_def dest!: dec_chars)

lemma word_ok_append: "word_ok a \<Longrightarrow> word_ok b \<Longrightarrow> word_ok (a @ b)"
  by (auto simp: word_ok_def)

lemma hex_digit_chars: "hex_digit v \<in> set ''0123456789ABCDEF''"
  unfolding hex_digit_def by simp

lemma word_ok_emit_byte [simp]: "word_ok (emit_byte b)"
proof -
  have "CHR '' '' \<noteq> hex_digit v" "newline \<noteq> hex_digit v" for v
    using hex_digit_chars [of v] by (auto simp: newline_def)
  then show ?thesis by (simp add: word_ok_def emit_byte_mod quote_char_def newline_def)
qed

section \<open>The operators of the IR\<close>

text \<open>
  The value of a binary operator on 64-bit operands. Division by zero and the signed division
  that overflows have none, nor has an unknown operator. Shift counts are taken modulo 64, as
  all three 64-bit targets take them.
\<close>

definition bool_word :: "bool \<Rightarrow> 64 word" where
  "bool_word b = (if b then 1 else 0)"

definition div_ok :: "64 word \<Rightarrow> 64 word \<Rightarrow> bool" where
  "div_ok a b \<longleftrightarrow> b \<noteq> 0 \<and> \<not> (sint a = - (2 ^ 63) \<and> sint b = -1)"

definition shift_count :: "64 word \<Rightarrow> nat" where
  "shift_count b = unat (b AND 63)"

definition compare_sem :: "int \<Rightarrow> 64 word \<Rightarrow> 64 word \<Rightarrow> bool option" where
  "compare_sem op a b =
     (if op = BK_EQ then Some (a = b)
      else if op = BK_NE then Some (a \<noteq> b)
      else if op = BK_LT then Some (sint a < sint b)
      else if op = BK_LE then Some (sint a \<le> sint b)
      else if op = BK_GT then Some (sint b < sint a)
      else if op = BK_GE then Some (sint b \<le> sint a)
      else if op = BK_ULT then Some (uint a < uint b)
      else if op = BK_ULE then Some (uint a \<le> uint b)
      else if op = BK_UGT then Some (uint b < uint a)
      else if op = BK_UGE then Some (uint b \<le> uint a)
      else None)"

definition binop_sem :: "int \<Rightarrow> 64 word \<Rightarrow> 64 word \<Rightarrow> 64 word option" where
  "binop_sem op a b =
     (if op = BK_ADD then Some (a + b)
      else if op = BK_SUB then Some (a - b)
      else if op = BK_MUL then Some (a * b)
      else if op = BK_DIV then
        (if div_ok a b then Some (word_of_int (sint a sdiv sint b)) else None)
      else if op = BK_MOD then
        (if div_ok a b then Some (word_of_int (sint a smod sint b)) else None)
      else if op = BK_SHL then Some (push_bit (shift_count b) a)
      else if op = BK_SHR then Some (drop_bit (shift_count b) a)
      else if op = BK_SAR then Some (signed_drop_bit (shift_count b) a)
      else if op = BK_AND then Some (a AND b)
      else if op = BK_OR then Some (a OR b)
      else if op = BK_XOR then Some (a XOR b)
      else if op = BK_UDIV then (if b \<noteq> 0 then Some (a div b) else None)
      else if op = BK_UMOD then (if b \<noteq> 0 then Some (a mod b) else None)
      else map_option bool_word (compare_sem op a b))"

lemma shift_count_less: "shift_count b < 64"
proof -
  have "b AND 63 = take_bit 6 b"
    by (simp add: take_bit_eq_mask mask_eq_exp_minus_1)
  then have "shift_count b = take_bit 6 (unat b)"
    by (simp only: shift_count_def unsigned_take_bit_eq)
  then show ?thesis
    using take_bit_nat_less_exp [of 6 "unat b"] by simp
qed

lemma binop_sem_op: "binop_sem op a b = Some v \<Longrightarrow> op \<in> {1..23}"
  by (auto simp: binop_sem_def compare_sem_def split: if_splits)

lemma binop_cases:
  assumes "op \<in> {1..23 :: int}"
  obtains "op = 1" | "op = 2" | "op = 3" | "op = 4" | "op = 5" | "op = 6" | "op = 7" | "op = 8"
    | "op = 9" | "op = 10" | "op = 11" | "op = 12" | "op = 13" | "op = 14" | "op = 15" | "op = 16"
    | "op = 17" | "op = 18" | "op = 19" | "op = 20" | "op = 21" | "op = 22" | "op = 23"
proof -
  have "op = 1 \<or> op = 2 \<or> op = 3 \<or> op = 4 \<or> op = 5 \<or> op = 6 \<or> op = 7 \<or> op = 8 \<or> op = 9 \<or> op = 10 \<or>
    op = 11 \<or> op = 12 \<or> op = 13 \<or> op = 14 \<or> op = 15 \<or> op = 16 \<or> op = 17 \<or> op = 18 \<or> op = 19 \<or>
    op = 20 \<or> op = 21 \<or> op = 22 \<or> op = 23"
    using assms unfolding atLeastAtMost_iff by presburger
  then show thesis using that by blast
qed

text \<open>
  \<^verbatim>\<open>invert_binop\<close> negates: for every comparison operator it returns the operator that holds
  exactly when the first does not, and it dies on every other operator.
\<close>

theorem invert_binop_negates:
  "case compare_sem op a b of
     Some c \<Rightarrow> (\<exists>op'. invert_binop op = Inr op' \<and> compare_sem op' a b = Some (\<not> c))
   | None \<Rightarrow> invert_binop op = die ''cannot invert branch comparison''"
  by (simp add: compare_sem_def invert_binop_def not_less not_le)

end
