(* ===== verification/X86.thy ===== *)
theory X86
  imports EmitFn Machine
begin

text \<open>
  The amd64 machine code the emitter uses, run on a processor state: registers, flags, memory.
  An instruction is known by its opcode bytes as the header defines them, so that a wrong
  \<^verbatim>\<open>DEFINE\<close> makes the theorems fail; the meaning of the bytes is the processor's.
\<close>

named_theorems machine_simps \<open>running machine code\<close>

section \<open>The definitions of the header\<close>

definition amd64_header :: string where
  "amd64_header = text_lines [''## hcc M1 output''] @ emit_header_amd64"

definition amd64_defines :: "(string \<times> string) list" where
  "amd64_defines =
    [(''ADD_rbx_to_rax'', ''4801D8''),
     (''AND_rax_rbx'', ''4821D8''),
     (''CALL_IMMEDIATE'', ''E8''),
     (''CMP'', ''4839C3''),
     (''COPY_rax_to_rdi'', ''4889C7''),
     (''COPY_rax_to_rcx'', ''4889C1''),
     (''COPY_rsp_to_rbp'', ''4889E5''),
     (''COPY_rbp_to_rax'', ''4889E8''),
     (''CQTO'', ''4899''),
     (''JUMP'', ''E9''),
     (''JUMP_EQ'', ''0F84''),
     (''JUMP_NE'', ''0F85''),
     (''HCC_JUMP_EQ'', ''0F84''),
     (''HCC_JUMP_NE'', ''0F85''),
     (''HCC_JUMP_LT'', ''0F8C''),
     (''HCC_JUMP_LE'', ''0F8E''),
     (''HCC_JUMP_GT'', ''0F8F''),
     (''HCC_JUMP_GE'', ''0F8D''),
     (''HCC_JUMP_ULT'', ''0F82''),
     (''HCC_JUMP_ULE'', ''0F86''),
     (''HCC_JUMP_UGT'', ''0F87''),
     (''HCC_JUMP_UGE'', ''0F83''),
     (''LOAD_BASE_ADDRESS_rax'', ''488D85''),
     (''LOAD_BYTE'', ''0FBE00''),
     (''LOAD_IMMEDIATE_rax'', ''48C7C0''),
     (''LOAD_IMMEDIATE_rdi'', ''48C7C7''),
     (''LOAD_IMMEDIATE_rsi'', ''48C7C6''),
     (''LOAD_INTEGER'', ''488B00''),
     (''LOAD_RSP_IMMEDIATE_into_rax'', ''488B8424''),
     (''MOVE_rbx_to_rax'', ''4889D8''),
     (''MOVE_rdx_to_rax'', ''4889D0''),
     (''MOVEZX'', ''480FB6C0''),
     (''DIVIDES_rax_by_rbx_into_rax'', ''48F7FB''),
     (''MODULUSS_rax_from_rbx_into_rbx'', ''48F7FB''),
     (''MULTIPLY_rax_by_rbx_into_rax'', ''48F7EB''),
     (''OR_rax_rbx'', ''4809D8''),
     (''PUSH_RAX'', ''50''),
     (''RETURN'', ''C3''),
     (''SETA'', ''0F97C0''),
     (''SETAE'', ''0F93C0''),
     (''SETB'', ''0F92C0''),
     (''SETBE'', ''0F96C0''),
     (''SETE'', ''0F94C0''),
     (''SETG'', ''0F9FC0''),
     (''SETGE'', ''0F9DC0''),
     (''SETL'', ''0F9CC0''),
     (''SETLE'', ''0F9EC0''),
     (''SETNE'', ''0F95C0''),
     (''STORE_INTEGER'', ''488903''),
     (''SUBTRACT_rax_from_rbx_into_rbx'', ''4829C3''),
     (''SYSCALL'', ''0F05''),
     (''TEST'', ''4885C0''),
     (''XCHG_rax_rbx'', ''4893''),
     (''HCC_ADD_IMMEDIATE_to_rsp'', ''4881C4''),
     (''HCC_SUB_IMMEDIATE_from_rsp'', ''4881EC''),
     (''HCC_ADD_IMMEDIATE_to_rax'', ''4805''),
     (''HCC_STORE_RSP_IMMEDIATE_from_rax'', ''48898424''),
     (''HCC_LOAD_EFFECTIVE_ADDRESS_rax'', ''488D8424''),
     (''HCC_COPY_rax_to_rsi'', ''4889C6''),
     (''HCC_COPY_rax_to_rdx'', ''4889C2''),
     (''HCC_COPY_rax_to_rcx'', ''4889C1''),
     (''HCC_M_RAX_RBX'', ''4889C3''),
     (''HCC_COPY_rax_to_r8'', ''4989C0''),
     (''HCC_COPY_rax_to_r9'', ''4989C1''),
     (''HCC_M_RDI_RAX'', ''4889F8''),
     (''HCC_COPY_rsi_to_rax'', ''4889F0''),
     (''HCC_COPY_rdx_to_rax'', ''4889D0''),
     (''HCC_COPY_rcx_to_rax'', ''4889C8''),
     (''HCC_COPY_r8_to_rax'', ''4C89C0''),
     (''HCC_COPY_r9_to_rax'', ''4C89C8''),
     (''HCC_PUSH_RSI'', ''56''),
     (''HCC_PUSH_RDX'', ''52''),
     (''HCC_LOAD_IMMEDIATE64_rax'', ''48B8''),
     (''HCC_LI64_80000000'', ''48B80000008000000000''),
     (''HCC_LI64_FFFFFFFF'', ''48B8FFFFFFFF00000000''),
     (''HCC_SEXT8_RAX'', ''480FBEC0''),
     (''HCC_SEXT16_RAX'', ''480FBFC0''),
     (''HCC_SEXT32_RAX'', ''4863C0''),
     (''HCC_ZEXT16_RAX'', ''480FB7C0''),
     (''HCC_ZEXT32_RAX'', ''89C0''),
     (''HCC_SHL_rax_cl'', ''48D3E0''),
     (''HCC_SHR_rax_cl'', ''48D3E8''),
     (''HCC_SAR_rax_cl'', ''48D3F8''),
     (''HCC_LOAD_INTEGER'', ''488B00''),
     (''HCC_STORE_INTEGER'', ''488903''),
     (''HCC_LOAD_WORD'', ''8B00''),
     (''HCC_LOAD_SIGNED_WORD'', ''486300''),
     (''HCC_LOAD_HALF'', ''0FB700''),
     (''HCC_LOAD_SIGNED_HALF'', ''480FBF00''),
     (''HCC_STORE_WORD'', ''8903''),
     (''HCC_STORE_HALF'', ''668903''),
     (''HCC_STORE_CHAR'', ''8803''),
     (''HCC_LOAD_SIGNED_CHAR'', ''480FBE00''),
     (''HCC_XOR_rbx_rax_into_rax'', ''4831D8''),
     (''HCC_XOR_rdx_rdx'', ''4831D2''),
     (''HCC_UDIV_rax_by_rbx_into_rax'', ''48F7F3''),
     (''HCC_CALL_rax'', ''FFD0'')]"

lemma lines_ok_amd64: "lines_ok (''## hcc M1 output'' # emit_header_amd64_lines)"
  by (simp add: lines_ok_def emit_header_amd64_lines_def newline_def)

lemma line_defines_amd64:
  "concat (map line_define (''## hcc M1 output'' # emit_header_amd64_lines)) = amd64_defines"
  unfolding emit_header_amd64_lines_def amd64_defines_def
  by (simp add: line_define_def m1_words_def newline_def)

lemma header_defines_amd64: "header_defines amd64_header = amd64_defines"
proof -
  have "amd64_header = text_lines (''## hcc M1 output'' # emit_header_amd64_lines)"
    by (simp add: amd64_header_def emit_header_amd64_def text_lines_def)
  then show ?thesis
    using header_defines_text [OF lines_ok_amd64] line_defines_amd64 by simp
qed

section \<open>The processor\<close>

record x86 =
  rax :: "64 word"
  rbx :: "64 word"
  rcx :: "64 word"
  rdx :: "64 word"
  rsp :: "64 word"
  rsi :: "64 word"
  rdi :: "64 word"
  r8 :: "64 word"
  r9 :: "64 word"
  zf :: bool
  sf :: bool
  cf :: bool
  ovf :: bool
  mem :: "64 word \<Rightarrow> 8 word"

fun mem_read :: "nat \<Rightarrow> (64 word \<Rightarrow> 8 word) \<Rightarrow> 64 word \<Rightarrow> 64 word" where
  "mem_read 0 m a = 0"
| "mem_read (Suc n) m a = ucast (m a) + push_bit 8 (mem_read n m (a + 1))"

fun mem_write :: "nat \<Rightarrow> (64 word \<Rightarrow> 8 word) \<Rightarrow> 64 word \<Rightarrow> 64 word \<Rightarrow> (64 word \<Rightarrow> 8 word)" where
  "mem_write 0 m a v = m"
| "mem_write (Suc n) m a v = mem_write n (m(a := ucast v)) (a + 1) (drop_bit 8 v)"

definition sext_from :: "nat \<Rightarrow> 64 word \<Rightarrow> 64 word" where
  "sext_from n v = word_of_int (signed_take_bit (n - 1) (uint v))"

definition x86_flags :: "64 word \<Rightarrow> 64 word \<Rightarrow> x86 \<Rightarrow> x86" where
  "x86_flags a b s = s\<lparr>zf := (a = b), sf := (sint (a - b) < 0), cf := (uint a < uint b),
     ovf := (sint a - sint b \<noteq> sint (a - b))\<rparr>"

text \<open>The condition codes of \<^verbatim>\<open>SETcc\<close> and \<^verbatim>\<open>Jcc\<close>, by the last digit of the opcode.\<close>

definition x86_cc :: "string \<Rightarrow> x86 \<Rightarrow> bool option" where
  "x86_cc c s =
     (if c = ''2'' then Some (cf s)
      else if c = ''3'' then Some (\<not> cf s)
      else if c = ''4'' then Some (zf s)
      else if c = ''5'' then Some (\<not> zf s)
      else if c = ''6'' then Some (cf s \<or> zf s)
      else if c = ''7'' then Some (\<not> cf s \<and> \<not> zf s)
      else if c = ''C'' then Some (sf s \<noteq> ovf s)
      else if c = ''D'' then Some (sf s = ovf s)
      else if c = ''E'' then Some (zf s \<or> sf s \<noteq> ovf s)
      else if c = ''F'' then Some (\<not> zf s \<and> sf s = ovf s)
      else None)"

definition x86_idiv :: "x86 \<Rightarrow> x86 option" where
  "x86_idiv s =
     (let d = sint (rdx s) * 2 ^ 64 + uint (rax s); q = d sdiv sint (rbx s) in
      if rbx s = 0 \<or> q < - (2 ^ 63) \<or> 2 ^ 63 \<le> q then None
      else Some (s\<lparr>rax := word_of_int q, rdx := word_of_int (d smod sint (rbx s))\<rparr>))"

definition x86_div :: "x86 \<Rightarrow> x86 option" where
  "x86_div s =
     (let d = uint (rdx s) * 2 ^ 64 + uint (rax s); q = d div uint (rbx s) in
      if rbx s = 0 \<or> 2 ^ 64 \<le> q then None
      else Some (s\<lparr>rax := word_of_int q, rdx := word_of_int (d mod uint (rbx s))\<rparr>))"

text \<open>The instructions without an operand in the text. An unknown opcode is stuck.\<close>

definition x86_plain :: "string \<Rightarrow> x86 \<Rightarrow> x86 option" where
  "x86_plain h s =
     (if h = ''4801D8'' then Some (s\<lparr>rax := rax s + rbx s\<rparr>)
      else if h = ''4829C3'' then Some (s\<lparr>rbx := rbx s - rax s\<rparr>)
      else if h = ''48F7EB'' then
        Some (s\<lparr>rax := rax s * rbx s,
          rdx := word_of_int (sint (rax s) * sint (rbx s) div 2 ^ 64)\<rparr>)
      else if h = ''4821D8'' then Some (s\<lparr>rax := rax s AND rbx s\<rparr>)
      else if h = ''4809D8'' then Some (s\<lparr>rax := rax s OR rbx s\<rparr>)
      else if h = ''4831D8'' then Some (s\<lparr>rax := rax s XOR rbx s\<rparr>)
      else if h = ''4831D2'' then Some (s\<lparr>rdx := 0\<rparr>)
      else if h = ''4889D8'' then Some (s\<lparr>rax := rbx s\<rparr>)
      else if h = ''4889D0'' then Some (s\<lparr>rax := rdx s\<rparr>)
      else if h = ''4889C8'' then Some (s\<lparr>rax := rcx s\<rparr>)
      else if h = ''4889F0'' then Some (s\<lparr>rax := rsi s\<rparr>)
      else if h = ''4889F8'' then Some (s\<lparr>rax := rdi s\<rparr>)
      else if h = ''4889C7'' then Some (s\<lparr>rdi := rax s\<rparr>)
      else if h = ''4889C6'' then Some (s\<lparr>rsi := rax s\<rparr>)
      else if h = ''4889C2'' then Some (s\<lparr>rdx := rax s\<rparr>)
      else if h = ''4989C0'' then Some (s\<lparr>r8 := rax s\<rparr>)
      else if h = ''4989C1'' then Some (s\<lparr>r9 := rax s\<rparr>)
      else if h = ''4C89C0'' then Some (s\<lparr>rax := r8 s\<rparr>)
      else if h = ''4C89C8'' then Some (s\<lparr>rax := r9 s\<rparr>)
      else if h = ''4889C1'' then Some (s\<lparr>rcx := rax s\<rparr>)
      else if h = ''4889C3'' then Some (s\<lparr>rbx := rax s\<rparr>)
      else if h = ''4893'' then Some (s\<lparr>rax := rbx s, rbx := rax s\<rparr>)
      else if h = ''4899'' then Some (s\<lparr>rdx := if sint (rax s) < 0 then -1 else 0\<rparr>)
      else if h = ''48F7FB'' then x86_idiv s
      else if h = ''48F7F3'' then x86_div s
      else if h = ''48D3E0'' then Some (s\<lparr>rax := push_bit (shift_count (rcx s)) (rax s)\<rparr>)
      else if h = ''48D3E8'' then Some (s\<lparr>rax := drop_bit (shift_count (rcx s)) (rax s)\<rparr>)
      else if h = ''48D3F8'' then Some (s\<lparr>rax := signed_drop_bit (shift_count (rcx s)) (rax s)\<rparr>)
      else if h = ''4839C3'' then Some (x86_flags (rbx s) (rax s) s)
      else if h = ''4885C0'' then Some (x86_flags (rax s) 0 s)
      else if take 3 h = ''0F9'' \<and> drop 4 h = ''C0'' then
        map_option (\<lambda>c. s\<lparr>rax := (rax s AND NOT 255) OR bool_word c\<rparr>) (x86_cc (take 1 (drop 3 h)) s)
      else if h = ''480FB6C0'' then Some (s\<lparr>rax := take_bit 8 (rax s)\<rparr>)
      else if h = ''480FB7C0'' then Some (s\<lparr>rax := take_bit 16 (rax s)\<rparr>)
      else if h = ''89C0'' then Some (s\<lparr>rax := take_bit 32 (rax s)\<rparr>)
      else if h = ''480FBEC0'' then Some (s\<lparr>rax := sext_from 8 (rax s)\<rparr>)
      else if h = ''480FBFC0'' then Some (s\<lparr>rax := sext_from 16 (rax s)\<rparr>)
      else if h = ''4863C0'' then Some (s\<lparr>rax := sext_from 32 (rax s)\<rparr>)
      else if h = ''488B00'' then Some (s\<lparr>rax := mem_read 8 (mem s) (rax s)\<rparr>)
      else if h = ''8B00'' then Some (s\<lparr>rax := mem_read 4 (mem s) (rax s)\<rparr>)
      else if h = ''486300'' then Some (s\<lparr>rax := sext_from 32 (mem_read 4 (mem s) (rax s))\<rparr>)
      else if h = ''0FB700'' then Some (s\<lparr>rax := mem_read 2 (mem s) (rax s)\<rparr>)
      else if h = ''480FBF00'' then Some (s\<lparr>rax := sext_from 16 (mem_read 2 (mem s) (rax s))\<rparr>)
      else if h = ''0FBE00'' then
        Some (s\<lparr>rax := take_bit 32 (sext_from 8 (mem_read 1 (mem s) (rax s)))\<rparr>)
      else if h = ''480FBE00'' then Some (s\<lparr>rax := sext_from 8 (mem_read 1 (mem s) (rax s))\<rparr>)
      else if h = ''488903'' then Some (s\<lparr>mem := mem_write 8 (mem s) (rbx s) (rax s)\<rparr>)
      else if h = ''8903'' then Some (s\<lparr>mem := mem_write 4 (mem s) (rbx s) (rax s)\<rparr>)
      else if h = ''668903'' then Some (s\<lparr>mem := mem_write 2 (mem s) (rbx s) (rax s)\<rparr>)
      else if h = ''8803'' then Some (s\<lparr>mem := mem_write 1 (mem s) (rbx s) (rax s)\<rparr>)
      else if h = ''50'' then
        Some (s\<lparr>rsp := rsp s - 8, mem := mem_write 8 (mem s) (rsp s - 8) (rax s)\<rparr>)
      else None)"

text \<open>The instructions with a 32-bit operand, which M1 writes as \<^verbatim>\<open>%number\<close>.\<close>

definition x86_imm :: "string \<Rightarrow> int \<Rightarrow> x86 \<Rightarrow> x86 option" where
  "x86_imm h n s =
     (let v = word_of_int (signed_take_bit 31 n) in
      if h = ''48C7C0'' then Some (s\<lparr>rax := v\<rparr>)
      else if h = ''4805'' then Some (s\<lparr>rax := rax s + v\<rparr>)
      else if h = ''4881C4'' then Some (s\<lparr>rsp := rsp s + v\<rparr>)
      else if h = ''4881EC'' then Some (s\<lparr>rsp := rsp s - v\<rparr>)
      else if h = ''488B8424'' then Some (s\<lparr>rax := mem_read 8 (mem s) (rsp s + v)\<rparr>)
      else if h = ''48898424'' then Some (s\<lparr>mem := mem_write 8 (mem s) (rsp s + v) (rax s)\<rparr>)
      else if h = ''488D8424'' then Some (s\<lparr>rax := rsp s + v\<rparr>)
      else None)"

definition m1_number :: "string \<Rightarrow> int option" where
  "m1_number w =
     (if w \<noteq> [] \<and> hd w = CHR ''%'' then
        (case parse_long_text (tl w) of Inr n \<Rightarrow> Some n | Inl e \<Rightarrow> None)
      else None)"

definition amd64_hex :: "string \<Rightarrow> string option" where
  "amd64_hex = map_of (header_defines amd64_header)"

text \<open>
  A word followed by a number takes it as its operand; the opcode \<^verbatim>\<open>48B8\<close> takes eight quoted
  bytes, unless its definition has them already.
\<close>

fun hex_bytes :: "string \<Rightarrow> int list option" where
  "hex_bytes [] = Some []"
| "hex_bytes [c] = None"
| "hex_bytes (h # l # rest) =
     (case (hex_value h, hex_value l) of
        (Some x, Some y) \<Rightarrow> map_option (Cons (16 * x + y)) (hex_bytes rest)
      | _ \<Rightarrow> None)"

definition quoted_bytes :: "string list \<Rightarrow> int list option" where
  "quoted_bytes ws = m1_bytes (concat ws)"

fun x86_run :: "string list \<Rightarrow> x86 \<Rightarrow> x86 option" where
  "x86_run [] s = Some s"
| "x86_run (w # ws) s =
     (case amd64_hex w of
        None \<Rightarrow> None
      | Some h \<Rightarrow>
          if h = ''48B8'' then
            (case quoted_bytes (take 8 ws) of
               Some bs \<Rightarrow>
                 if length bs = 8 \<and> 8 \<le> length ws then x86_run (drop 8 ws) (s\<lparr>rax := word_of_int (le_value bs)\<rparr>)
                 else None
             | None \<Rightarrow> None)
          else if take 4 h = ''48B8'' then
            (case hex_bytes (drop 4 h) of
               Some bs \<Rightarrow> x86_run ws (s\<lparr>rax := word_of_int (le_value bs)\<rparr>)
             | None \<Rightarrow> None)
          else
            (case ws of
               [] \<Rightarrow> x86_plain h s
             | w' # ws' \<Rightarrow>
                 (case m1_number w' of
                    Some n \<Rightarrow> Option.bind (x86_imm h n s) (x86_run ws')
                  | None \<Rightarrow> Option.bind (x86_plain h s) (x86_run ws))))"

definition amd64_exec :: "string \<Rightarrow> x86 \<Rightarrow> x86 option" where
  "amd64_exec text = x86_run (m1_words text)"

section \<open>Binary operators\<close>

lemma amd64_hex_words1:
  "map_of amd64_defines ''ADD_rbx_to_rax'' = Some ''4801D8''"
  "map_of amd64_defines ''SUBTRACT_rax_from_rbx_into_rbx'' = Some ''4829C3''"
  "map_of amd64_defines ''MOVE_rbx_to_rax'' = Some ''4889D8''"
  "map_of amd64_defines ''MULTIPLY_rax_by_rbx_into_rax'' = Some ''48F7EB''"
  "map_of amd64_defines ''XCHG_rax_rbx'' = Some ''4893''"
  "map_of amd64_defines ''CQTO'' = Some ''4899''"
  "map_of amd64_defines ''DIVIDES_rax_by_rbx_into_rax'' = Some ''48F7FB''"
  "map_of amd64_defines ''MODULUSS_rax_from_rbx_into_rbx'' = Some ''48F7FB''"
  "map_of amd64_defines ''MOVE_rdx_to_rax'' = Some ''4889D0''"
  "map_of amd64_defines ''HCC_XOR_rdx_rdx'' = Some ''4831D2''"
  "map_of amd64_defines ''HCC_UDIV_rax_by_rbx_into_rax'' = Some ''48F7F3''"
  "map_of amd64_defines ''COPY_rax_to_rcx'' = Some ''4889C1''"
  "map_of amd64_defines ''HCC_SHL_rax_cl'' = Some ''48D3E0''"
  "map_of amd64_defines ''HCC_SHR_rax_cl'' = Some ''48D3E8''"
  "map_of amd64_defines ''HCC_SAR_rax_cl'' = Some ''48D3F8''"
  "map_of amd64_defines ''CMP'' = Some ''4839C3''"
  "map_of amd64_defines ''SETE'' = Some ''0F94C0''"
  "map_of amd64_defines ''MOVEZX'' = Some ''480FB6C0''"
  "map_of amd64_defines ''SETNE'' = Some ''0F95C0''"
  "map_of amd64_defines ''SETL'' = Some ''0F9CC0''"
  "map_of amd64_defines ''SETLE'' = Some ''0F9EC0''"
  "map_of amd64_defines ''SETG'' = Some ''0F9FC0''"
  "map_of amd64_defines ''SETGE'' = Some ''0F9DC0''"
  by code_simp+

lemma amd64_hex_words2:
  "map_of amd64_defines ''SETB'' = Some ''0F92C0''"
  "map_of amd64_defines ''SETBE'' = Some ''0F96C0''"
  "map_of amd64_defines ''SETA'' = Some ''0F97C0''"
  "map_of amd64_defines ''SETAE'' = Some ''0F93C0''"
  "map_of amd64_defines ''AND_rax_rbx'' = Some ''4821D8''"
  "map_of amd64_defines ''OR_rax_rbx'' = Some ''4809D8''"
  "map_of amd64_defines ''HCC_XOR_rbx_rax_into_rax'' = Some ''4831D8''"
  "map_of amd64_defines ''HCC_ZEXT16_RAX'' = Some ''480FB7C0''"
  "map_of amd64_defines ''HCC_ZEXT32_RAX'' = Some ''89C0''"
  "map_of amd64_defines ''HCC_SEXT8_RAX'' = Some ''480FBEC0''"
  "map_of amd64_defines ''HCC_SEXT16_RAX'' = Some ''480FBFC0''"
  "map_of amd64_defines ''HCC_SEXT32_RAX'' = Some ''4863C0''"
  "map_of amd64_defines ''LOAD_IMMEDIATE_rax'' = Some ''48C7C0''"
  "map_of amd64_defines ''HCC_LOAD_INTEGER'' = Some ''488B00''"
  "map_of amd64_defines ''HCC_LOAD_WORD'' = Some ''8B00''"
  "map_of amd64_defines ''HCC_LOAD_SIGNED_WORD'' = Some ''486300''"
  "map_of amd64_defines ''HCC_LOAD_HALF'' = Some ''0FB700''"
  "map_of amd64_defines ''HCC_LOAD_SIGNED_HALF'' = Some ''480FBF00''"
  "map_of amd64_defines ''LOAD_BYTE'' = Some ''0FBE00''"
  "map_of amd64_defines ''HCC_LOAD_SIGNED_CHAR'' = Some ''480FBE00''"
  "map_of amd64_defines ''HCC_STORE_INTEGER'' = Some ''488903''"
  "map_of amd64_defines ''HCC_STORE_WORD'' = Some ''8903''"
  "map_of amd64_defines ''HCC_STORE_HALF'' = Some ''668903''"
  by code_simp+

lemma amd64_hex_words3:
  "map_of amd64_defines ''HCC_STORE_CHAR'' = Some ''8803''"
  "map_of amd64_defines ''HCC_M_RAX_RBX'' = Some ''4889C3''"
  "map_of amd64_defines ''HCC_ADD_IMMEDIATE_to_rax'' = Some ''4805''"
  "map_of amd64_defines ''HCC_ADD_IMMEDIATE_to_rsp'' = Some ''4881C4''"
  "map_of amd64_defines ''HCC_SUB_IMMEDIATE_from_rsp'' = Some ''4881EC''"
  "map_of amd64_defines ''LOAD_RSP_IMMEDIATE_into_rax'' = Some ''488B8424''"
  "map_of amd64_defines ''HCC_STORE_RSP_IMMEDIATE_from_rax'' = Some ''48898424''"
  "map_of amd64_defines ''HCC_LOAD_EFFECTIVE_ADDRESS_rax'' = Some ''488D8424''"
  "map_of amd64_defines ''PUSH_RAX'' = Some ''50''"
  "map_of amd64_defines ''TEST'' = Some ''4885C0''"
  "map_of amd64_defines ''HCC_LOAD_IMMEDIATE64_rax'' = Some ''48B8''"
  "map_of amd64_defines ''HCC_LI64_80000000'' = Some ''48B80000008000000000''"
  "map_of amd64_defines ''HCC_LI64_FFFFFFFF'' = Some ''48B8FFFFFFFF00000000''"
  "map_of amd64_defines ''HCC_JUMP_EQ'' = Some ''0F84''"
  "map_of amd64_defines ''HCC_JUMP_NE'' = Some ''0F85''"
  "map_of amd64_defines ''HCC_JUMP_LT'' = Some ''0F8C''"
  "map_of amd64_defines ''HCC_JUMP_LE'' = Some ''0F8E''"
  "map_of amd64_defines ''HCC_JUMP_GT'' = Some ''0F8F''"
  "map_of amd64_defines ''HCC_JUMP_GE'' = Some ''0F8D''"
  "map_of amd64_defines ''HCC_JUMP_ULT'' = Some ''0F82''"
  "map_of amd64_defines ''HCC_JUMP_ULE'' = Some ''0F86''"
  "map_of amd64_defines ''HCC_JUMP_UGT'' = Some ''0F87''"
  "map_of amd64_defines ''HCC_JUMP_UGE'' = Some ''0F83''"
  "map_of amd64_defines ''JUMP'' = Some ''E9''"
  "map_of amd64_defines ''JUMP_EQ'' = Some ''0F84''"
  "map_of amd64_defines ''JUMP_NE'' = Some ''0F85''"
  "map_of amd64_defines ''RETURN'' = Some ''C3''"
  "map_of amd64_defines ''HCC_M_RDI_RAX'' = Some ''4889F8''"
  "map_of amd64_defines ''HCC_COPY_rsi_to_rax'' = Some ''4889F0''"
  "map_of amd64_defines ''HCC_COPY_rdx_to_rax'' = Some ''4889D0''"
  "map_of amd64_defines ''HCC_COPY_rcx_to_rax'' = Some ''4889C8''"
  "map_of amd64_defines ''HCC_COPY_r8_to_rax'' = Some ''4C89C0''"
  "map_of amd64_defines ''HCC_COPY_r9_to_rax'' = Some ''4C89C8''"
  "map_of amd64_defines ''COPY_rax_to_rdi'' = Some ''4889C7''"
  "map_of amd64_defines ''HCC_COPY_rax_to_rsi'' = Some ''4889C6''"
  "map_of amd64_defines ''HCC_COPY_rax_to_rdx'' = Some ''4889C2''"
  "map_of amd64_defines ''HCC_COPY_rax_to_rcx'' = Some ''4889C1''"
  "map_of amd64_defines ''HCC_COPY_rax_to_r8'' = Some ''4989C0''"
  "map_of amd64_defines ''HCC_COPY_rax_to_r9'' = Some ''4989C1''"
  "map_of amd64_defines ''CALL_IMMEDIATE'' = Some ''E8''"
  "map_of amd64_defines ''HCC_CALL_rax'' = Some ''FFD0''"
  by code_simp+

lemma amd64_hex_map_of: "amd64_hex w = map_of amd64_defines w"
  by (simp add: amd64_hex_def header_defines_amd64)

lemmas amd64_hex_words [machine_simps] =
  amd64_hex_words1 [folded amd64_hex_map_of] amd64_hex_words2 [folded amd64_hex_map_of]
  amd64_hex_words3 [folded amd64_hex_map_of]

lemma binop_words_amd64 [machine_simps]:
  "m1_words (emit_binop_amd64 BK_ADD) = [''ADD_rbx_to_rax'']"
  "m1_words (emit_binop_amd64 BK_SUB) = [''SUBTRACT_rax_from_rbx_into_rbx'', ''MOVE_rbx_to_rax'']"
  "m1_words (emit_binop_amd64 BK_MUL) = [''MULTIPLY_rax_by_rbx_into_rax'']"
  "m1_words (emit_binop_amd64 BK_DIV) = [''XCHG_rax_rbx'', ''CQTO'', ''DIVIDES_rax_by_rbx_into_rax'']"
  "m1_words (emit_binop_amd64 BK_MOD) = [''XCHG_rax_rbx'', ''CQTO'', ''MODULUSS_rax_from_rbx_into_rbx'', ''MOVE_rdx_to_rax'']"
  "m1_words (emit_binop_amd64 BK_UDIV) = [''XCHG_rax_rbx'', ''HCC_XOR_rdx_rdx'', ''HCC_UDIV_rax_by_rbx_into_rax'']"
  "m1_words (emit_binop_amd64 BK_UMOD) = [''XCHG_rax_rbx'', ''HCC_XOR_rdx_rdx'', ''HCC_UDIV_rax_by_rbx_into_rax'', ''MOVE_rdx_to_rax'']"
  "m1_words (emit_binop_amd64 BK_SHL) = [''COPY_rax_to_rcx'', ''MOVE_rbx_to_rax'', ''HCC_SHL_rax_cl'']"
  "m1_words (emit_binop_amd64 BK_SHR) = [''COPY_rax_to_rcx'', ''MOVE_rbx_to_rax'', ''HCC_SHR_rax_cl'']"
  "m1_words (emit_binop_amd64 BK_SAR) = [''COPY_rax_to_rcx'', ''MOVE_rbx_to_rax'', ''HCC_SAR_rax_cl'']"
  "m1_words (emit_binop_amd64 BK_EQ) = [''CMP'', ''SETE'', ''MOVEZX'']"
  "m1_words (emit_binop_amd64 BK_NE) = [''CMP'', ''SETNE'', ''MOVEZX'']"
  "m1_words (emit_binop_amd64 BK_LT) = [''CMP'', ''SETL'', ''MOVEZX'']"
  "m1_words (emit_binop_amd64 BK_LE) = [''CMP'', ''SETLE'', ''MOVEZX'']"
  "m1_words (emit_binop_amd64 BK_GT) = [''CMP'', ''SETG'', ''MOVEZX'']"
  "m1_words (emit_binop_amd64 BK_GE) = [''CMP'', ''SETGE'', ''MOVEZX'']"
  "m1_words (emit_binop_amd64 BK_ULT) = [''CMP'', ''SETB'', ''MOVEZX'']"
  "m1_words (emit_binop_amd64 BK_ULE) = [''CMP'', ''SETBE'', ''MOVEZX'']"
  "m1_words (emit_binop_amd64 BK_UGT) = [''CMP'', ''SETA'', ''MOVEZX'']"
  "m1_words (emit_binop_amd64 BK_UGE) = [''CMP'', ''SETAE'', ''MOVEZX'']"
  "m1_words (emit_binop_amd64 BK_AND) = [''AND_rax_rbx'']"
  "m1_words (emit_binop_amd64 BK_OR) = [''OR_rax_rbx'']"
  "m1_words (emit_binop_amd64 BK_XOR) = [''HCC_XOR_rbx_rax_into_rax'']"
  by (simp_all add: emit_binop_amd64_def m1_words_def newline_def)

lemma signed_less_flags: "((sint (a - b) < 0) \<noteq> (sint a - sint b \<noteq> sint (a - b))) = (sint a < sint (b :: 64 word))"
proof -
  have "sint (a - b) = signed_take_bit 63 (sint a - sint b)"
    by (simp add: sint_word_ariths)
  then show ?thesis
    using sint_range [of a] sint_range [of b] by (simp add: wrap_64)
qed

lemma word_le_cases:
  "uint a \<le> uint b \<longleftrightarrow> uint a < uint b \<or> a = b"
  "sint a \<le> sint b \<longleftrightarrow> sint a < sint b \<or> a = (b :: 64 word)"
proof -
  have "uint a = uint b \<longleftrightarrow> a = b"
    by (metis word_of_int_uint)
  then show "uint a \<le> uint b \<longleftrightarrow> uint a < uint b \<or> a = b"
    by (auto simp: le_less)
  have "sint a = sint b \<longleftrightarrow> a = b"
    by (auto intro: signed_word_eqI)
  then show "sint a \<le> sint b \<longleftrightarrow> sint a < sint b \<or> a = b"
    by (auto simp: le_less)
qed

lemma x86_cc_flags [machine_simps]:
  "x86_cc ''2'' (x86_flags a b s) = Some (uint a < uint b)"
  "x86_cc ''3'' (x86_flags a b s) = Some (uint b \<le> uint a)"
  "x86_cc ''4'' (x86_flags a b s) = Some (a = b)"
  "x86_cc ''5'' (x86_flags a b s) = Some (a \<noteq> b)"
  "x86_cc ''6'' (x86_flags a b s) = Some (uint a \<le> uint b)"
  "x86_cc ''7'' (x86_flags a b s) = Some (uint b < uint a)"
  "x86_cc ''C'' (x86_flags a b s) = Some (sint a < sint b)"
  "x86_cc ''D'' (x86_flags a b s) = Some (sint b \<le> sint a)"
  "x86_cc ''E'' (x86_flags a b s) = Some (sint a \<le> sint b)"
  "x86_cc ''F'' (x86_flags a b s) = Some (sint b < sint a)"
proof -
  have nl: "uint b < uint a \<longleftrightarrow> \<not> uint a \<le> uint b" "sint b < sint a \<longleftrightarrow> \<not> sint a \<le> sint b"
    "uint b \<le> uint a \<longleftrightarrow> \<not> uint a < uint b" "sint b \<le> sint a \<longleftrightarrow> \<not> sint a < sint b"
    by auto
  have f: "zf (x86_flags a b s) = (a = b)" "cf (x86_flags a b s) = (uint a < uint b)"
    "(sf (x86_flags a b s) = ovf (x86_flags a b s)) = (\<not> sint a < sint b)"
    using signed_less_flags [of a b] by (auto simp: x86_flags_def)
  show
    "x86_cc ''2'' (x86_flags a b s) = Some (uint a < uint b)"
    "x86_cc ''3'' (x86_flags a b s) = Some (uint b \<le> uint a)"
    "x86_cc ''4'' (x86_flags a b s) = Some (a = b)"
    "x86_cc ''5'' (x86_flags a b s) = Some (a \<noteq> b)"
    "x86_cc ''6'' (x86_flags a b s) = Some (uint a \<le> uint b)"
    "x86_cc ''7'' (x86_flags a b s) = Some (uint b < uint a)"
    "x86_cc ''C'' (x86_flags a b s) = Some (sint a < sint b)"
    "x86_cc ''D'' (x86_flags a b s) = Some (sint b \<le> sint a)"
    "x86_cc ''E'' (x86_flags a b s) = Some (sint a \<le> sint b)"
    "x86_cc ''F'' (x86_flags a b s) = Some (sint b < sint a)"
    unfolding nl word_le_cases by (auto simp add: x86_cc_def f)
qed

lemma take_bit_bool_word [machine_simps]: "take_bit 8 (bool_word c) = bool_word c"
  by (simp add: bool_word_def)

lemma x86_flags_regs [simp]:
  "rax (x86_flags a b s) = rax s" "rbx (x86_flags a b s) = rbx s" "rsp (x86_flags a b s) = rsp s"
  "mem (x86_flags a b s) = mem s"
  by (simp_all add: x86_flags_def)

lemma div_ok_range:
  assumes "div_ok a b"
  shows "- 9223372036854775808 \<le> sint a sdiv sint b" and "sint a sdiv sint b < 9223372036854775808"
proof -
  have q: "- \<bar>sint a\<bar> \<le> sint a sdiv sint b" "sint a sdiv sint b \<le> \<bar>sint a\<bar>"
    using sdiv_int_range [of "sint a" "sint b"] by auto
  then show "- 9223372036854775808 \<le> sint a sdiv sint b"
    using sint_range [of a] by linarith
  have "sint a sdiv sint b \<noteq> 9223372036854775808"
  proof
    assume e: "sint a sdiv sint b = 9223372036854775808"
    with q sint_range [of a] have a: "sint a = - 9223372036854775808" by linarith
    with e have "sint a sdiv sint b = - sint a" by simp
    then have "sint b = -1" by (rule iffD1 [OF int_sdiv_negated_is_minus1, rotated]) (simp add: a)
    with a assms show False by (simp add: div_ok_def)
  qed
  with q sint_range [of a] show "sint a sdiv sint b < 9223372036854775808" by linarith
qed

lemma sign_extended_dividend:
  "sint (if sint a < 0 then -1 else 0 :: 64 word) * 18446744073709551616 + uint a = sint (a :: 64 word)"
proof -
  have "0 \<le> uint a" "uint a < 18446744073709551616" using uint_lt2p [of a] by simp_all
  then show ?thesis by (simp add: sint_uint_64 [of a])
qed

lemma x86_idiv_sign_extended [machine_simps]:
  "div_ok (rax s) (rbx s) \<Longrightarrow> x86_idiv (s\<lparr>rdx := if sint (rax s) < 0 then -1 else 0\<rparr>) =
    Some (s\<lparr>rax := word_of_int (sint (rax s) sdiv sint (rbx s)),
      rdx := word_of_int (sint (rax s) smod sint (rbx s))\<rparr>)"
  using div_ok_range [of "rax s" "rbx s"] sign_extended_dividend [of "rax s"]
  by (simp add: x86_idiv_def Let_def div_ok_def)

lemma x86_div_zero_extended [machine_simps]:
  "rbx s \<noteq> 0 \<Longrightarrow> x86_div (s\<lparr>rdx := 0\<rparr>) =
    Some (s\<lparr>rax := rax s div rbx s, rdx := rax s mod rbx s\<rparr>)"
proof -
  assume "rbx s \<noteq> 0"
  moreover have "uint (rax s) div uint (rbx s) < 2 ^ 64"
    using uint_lt2p [of "rax s div rbx s"] by (simp add: uint_div)
  ultimately show ?thesis
    by (simp add: x86_div_def Let_def word_div_def word_mod_def)
qed

lemmas x86_run_simps = machine_simps amd64_exec_def x86_plain_def m1_number_def

lemma amd64_signed_division:
  assumes "div_ok (rbx s) (rax s)"
  shows "amd64_exec (emit_binop_amd64 BK_DIV) s = Some (s\<lparr>rbx := rax s,
      rax := word_of_int (sint (rbx s) sdiv sint (rax s)),
      rdx := word_of_int (sint (rbx s) smod sint (rax s))\<rparr>)"
    and "amd64_exec (emit_binop_amd64 BK_MOD) s = Some (s\<lparr>rbx := rax s,
      rax := word_of_int (sint (rbx s) smod sint (rax s)),
      rdx := word_of_int (sint (rbx s) smod sint (rax s))\<rparr>)"
  using assms x86_idiv_sign_extended [of "s\<lparr>rax := rbx s, rbx := rax s\<rparr>"]
  by (simp_all add: x86_run_simps split del: if_split)

lemma amd64_unsigned_division:
  assumes "rax s \<noteq> 0"
  shows "amd64_exec (emit_binop_amd64 BK_UDIV) s = Some (s\<lparr>rbx := rax s,
      rax := rbx s div rax s, rdx := rbx s mod rax s\<rparr>)"
    and "amd64_exec (emit_binop_amd64 BK_UMOD) s = Some (s\<lparr>rbx := rax s,
      rax := rbx s mod rax s, rdx := rbx s mod rax s\<rparr>)"
  using assms x86_div_zero_extended [of "s\<lparr>rax := rbx s, rbx := rax s\<rparr>"]
  by (simp_all add: x86_run_simps)

lemma amd64_binop_run:
  assumes "binop_sem op (rbx s) (rax s) = Some v"
  shows "\<exists>s'. amd64_exec (emit_binop_amd64 op) s = Some s' \<and> rax s' = v \<and> rsp s' = rsp s \<and>
    mem s' = mem s"
  by (rule binop_cases [OF binop_sem_op [OF assms]]; insert assms; hypsubst;
      (simp add: binop_sem_def compare_sem_def amd64_signed_division amd64_unsigned_division
        split: if_splits; fail)?;
      (simp add: x86_run_simps binop_sem_def compare_sem_def
        add.commute mult.commute and.commute or.commute xor.commute)?;
      auto simp: take_bit_bool_word)

text \<open>
  C10. On amd64, the instructions \<^verbatim>\<open>emit_binop\<close> writes for an operator, run with the left operand
  in RBX and the right one in RAX, leave the value of the operator in RAX; the stack pointer and
  memory stay as they were.
\<close>

theorem amd64_binop_correct:
  assumes "binop_sem op (rbx s) (rax s) = Some v"
  shows "\<exists>s'. amd64_exec (emit_binop_amd64 op) s = Some s' \<and> rax s' = v \<and> rsp s' = rsp s \<and>
    mem s' = mem s"
  using assms by (rule amd64_binop_run)

definition x86_sample :: x86 where
  "x86_sample = \<lparr>rax = 3, rbx = -7, rcx = 0, rdx = 0, rsp = 4096, rsi = 0, rdi = 0, r8 = 0, r9 = 0, zf = False, sf = False,
     cf = False, ovf = False, mem = (\<lambda>_. 0)\<rparr>"

theorem amd64_binop_correct_witness:
  "\<exists>s'. amd64_exec (emit_binop_amd64 BK_SUB) x86_sample = Some s' \<and> rax s' = -10"
  using amd64_binop_correct [of BK_SUB x86_sample "-10"]
  by (auto simp: binop_sem_def x86_sample_def)

section \<open>Extensions and immediates\<close>

lemma sext_from_64 [simp]: "sext_from 64 v = v"
proof -
  have "signed_take_bit 63 (uint v) = sint v" by (simp add: sint_uint)
  then show ?thesis by (simp add: sext_from_def flip: scast_eq)
qed

definition width_ok :: "int \<Rightarrow> bool" where
  "width_ok width \<longleftrightarrow> width = 1 \<or> width = 2 \<or> width = 4 \<or> width = 8"

text \<open>
  On amd64, for the widths 1, 2, 4 and 8, the extension instructions leave in RAX the value of
  its low \<open>width\<close> bytes, read as unsigned and as signed.
\<close>

theorem amd64_extend_correct:
  assumes "width_ok width"
  shows "amd64_exec (emit_amd64_zext_loaded_rax width) s =
      Some (s\<lparr>rax := take_bit (8 * nat width) (rax s)\<rparr>) \<and>
    amd64_exec (emit_amd64_sext_loaded_rax width) s =
      Some (s\<lparr>rax := sext_from (8 * nat width) (rax s)\<rparr>)"
  using assms
  by (auto simp: width_ok_def emit_amd64_zext_loaded_rax_def emit_amd64_sext_loaded_rax_def
      x86_run_simps m1_words_def newline_def take_bit_word_eq_self)

theorem amd64_extend_correct_witness:
  "amd64_exec (emit_amd64_sext_loaded_rax 1) (x86_sample\<lparr>rax := 255\<rparr>) =
     Some (x86_sample\<lparr>rax := -1\<rparr>)"
  using amd64_extend_correct [of 1 "x86_sample\<lparr>rax := 255\<rparr>"]
  by (simp add: width_ok_def sext_from_def signed_take_bit_eq_take_bit_shift)

lemma m1_number_dec: "long_ok n \<Longrightarrow> m1_number (CHR ''%'' # dec n) = Some n"
  by (simp add: m1_number_def parse_long_text_dec)

lemma word_ok_percent: "word_ok (CHR ''%'' # dec n)"
  using word_ok_dec [of n] by (simp add: word_ok_def newline_def)

lemma c_int_word: "int_ok n \<Longrightarrow> word_of_int (signed_take_bit 31 n) = (word_of_int n :: 64 word)"
  by (simp flip: c_int_def)

text \<open>A line made of a mnemonic and a number, and one made of a mnemonic and eight bytes.\<close>

lemma amd64_exec_imm_line:
  assumes "word_ok w" and "amd64_hex w = Some h" and "take 4 h \<noteq> ''48B8''" and "long_ok n"
  shows "amd64_exec (''  '' @ w @ '' %'' @ dec n @ [newline]) s = x86_imm h n s"
proof -
  have "h \<noteq> ''48B8''" using assms(3) by auto
  have "m1_words (''  '' @ w @ '' %'' @ dec n @ [newline]) = [w, CHR ''%'' # dec n]"
    using m1_words_word(1) [OF assms(1), of "CHR ''%'' # dec n @ [newline]"]
      m1_words_word(2) [OF word_ok_percent, of n "[]"]
    by (simp add: m1_words_blank) (simp add: m1_words_def)
  with assms \<open>h \<noteq> ''48B8''\<close> show ?thesis
    by (cases "x86_imm h n s") (simp_all add: amd64_exec_def m1_number_dec)
qed

fun byte_words :: "nat \<Rightarrow> 64 word \<Rightarrow> string list" where
  "byte_words 0 v = []"
| "byte_words (Suc n) v = emit_byte (uint (v AND 255)) # byte_words n (drop_bit 8 v)"

lemma m1_words_bytes:
  "m1_words (emit_bytes_le (Suc n) i v @ [newline]) = byte_words (Suc n) v"
proof (induction n arbitrary: i v)
  case 0
  show ?case
    using m1_words_word(2) [of "emit_byte (uint (v AND 255))" "[]"]
    by (simp add: m1_words_blank) (simp add: m1_words_def)
next
  case (Suc n)
  have "emit_bytes_le (Suc n) (i + 1) (drop_bit 8 v) =
      CHR '' '' # emit_byte (uint (drop_bit 8 v AND 255)) @ emit_bytes_le n (i + 2) (drop_bit 8 (drop_bit 8 v))"
    by simp
  then have "m1_words (emit_bytes_le (Suc (Suc n)) i v @ [newline]) =
      emit_byte (uint (v AND 255)) # m1_words (emit_bytes_le (Suc n) (i + 1) (drop_bit 8 v) @ [newline])"
    using m1_words_word(1) [of "emit_byte (uint (v AND 255))"]
    by (simp add: m1_words_blank del: emit_bytes_le.simps(2)) (simp add: m1_words_blank)
  then show ?case
    unfolding Suc [of "i + 1" "drop_bit 8 v"] by (simp only: byte_words.simps)
qed

lemma quoted_byte_words: "quoted_bytes (byte_words n v) = Some (le_bytes n v)"
proof (induction n arbitrary: v)
  case (Suc n)
  have "uint (take_bit 8 v) mod 256 = uint (take_bit 8 v)"
    by (simp only: unsigned_take_bit_eq) (simp add: take_bit_eq_mod)
  with Suc show ?case by (simp add: quoted_bytes_def low_byte)
qed (simp add: quoted_bytes_def)

lemma length_byte_words [simp]: "length (byte_words n v) = n"
  by (induction n arbitrary: v) auto

lemma amd64_exec_imm64_line:
  "amd64_exec (''  HCC_LOAD_IMMEDIATE64_rax '' @ emit_bytes_le 8 0 v @ [newline]) s =
     Some (s\<lparr>rax := v\<rparr>)"
proof -
  let ?w = "''HCC_LOAD_IMMEDIATE64_rax''"
  have "word_ok ?w" by (simp add: word_ok_def newline_def)
  then have "m1_words (''  HCC_LOAD_IMMEDIATE64_rax '' @ emit_bytes_le 8 0 v @ [newline]) =
      ?w # byte_words 8 v"
    using m1_words_word(1) [of ?w "emit_bytes_le 8 0 v @ [newline]"] m1_words_bytes [of 7 0 v]
    by (simp add: m1_words_blank)
  moreover have "word_of_int (le_value (le_bytes 8 v)) = v"
    by (simp only: le_value_64) simp
  ultimately show ?thesis
    using quoted_byte_words [of 8 v]
    by (simp add: amd64_exec_def machine_simps del: byte_words.simps le_bytes.simps)
qed

text \<open>
  The amd64 code for a constant loads exactly that constant, whether it is emitted as a
  32-bit immediate or as eight bytes.
\<close>

theorem amd64_immediate_correct:
  assumes "long_ok v"
  shows "amd64_exec (load_immediate_amd64 v) s = Some (s\<lparr>rax := word_of_int v\<rparr>)"
proof (cases "c_int v = v")
  case True
  then have "int_ok v" by (metis int_ok_c_int)
  have "word_ok ''LOAD_IMMEDIATE_rax''" "amd64_hex ''LOAD_IMMEDIATE_rax'' = Some ''48C7C0''"
    by (simp_all add: word_ok_def newline_def machine_simps)
  from amd64_exec_imm_line [OF this _ assms, of s] show ?thesis
    using True c_int_word [OF \<open>int_ok v\<close>] by (simp add: load_immediate_amd64_def x86_imm_def Let_def)
next
  case False
  then show ?thesis
    using amd64_exec_imm64_line [of "word_of_int v" s] by (simp add: load_immediate_amd64_def Let_def)
qed


theorem amd64_immediate_correct_witness:
  "amd64_exec (load_immediate_amd64 4294967296) x86_sample = Some (x86_sample\<lparr>rax := 4294967296\<rparr>)"
  using amd64_immediate_correct [of 4294967296 x86_sample] by (simp add: long_ok_def)

lemma m1_words_byte_list:
  "bs \<noteq> [] \<Longrightarrow> m1_words (byte_list_text bs @ [newline]) = map emit_byte bs"
proof (induction bs rule: byte_list_text.induct)
  case (2 b)
  then show ?case
    using m1_words_word(2) [of "emit_byte b" "[]"] by simp (simp add: m1_words_def)
next
  case (3 b c bs)
  then show ?case
    using m1_words_word(1) [of "emit_byte b"] by simp
qed simp

lemma quoted_bytes_map: "quoted_bytes (map emit_byte bs) = Some (map (\<lambda>b. b mod 256) bs)"
  by (induction bs) (simp_all add: quoted_bytes_def)

text \<open>
  The amd64 code for a literal given by its bytes loads the number these bytes spell, least
  significant first, also where it takes one of the two mnemonics made for a frequent constant.
\<close>

theorem amd64_immediate_bytes_correct:
  assumes "length bytes = 8"
  shows "amd64_exec (load_immediate_bytes_amd64 bytes) s =
    Some (s\<lparr>rax := word_of_int (le_value (map (\<lambda>b. b mod 256) bytes))\<rparr>)"
proof -
  let ?w = "''HCC_LOAD_IMMEDIATE64_rax''"
  have "word_ok ?w" by (simp add: word_ok_def newline_def)
  moreover have "bytes \<noteq> []" using assms by auto
  ultimately have "m1_words (''  HCC_LOAD_IMMEDIATE64_rax '' @ byte_list_text bytes @ [newline]) =
      ?w # map emit_byte bytes"
    using m1_words_word(1) [of ?w "byte_list_text bytes @ [newline]"] m1_words_byte_list [of bytes]
    by (simp add: m1_words_blank)
  then have "amd64_exec (''  HCC_LOAD_IMMEDIATE64_rax '' @ byte_list_text bytes @ [newline]) s =
      Some (s\<lparr>rax := word_of_int (le_value (map (\<lambda>b. b mod 256) bytes))\<rparr>)"
    using quoted_bytes_map [of bytes] assms
    by (simp add: amd64_exec_def machine_simps del: le_value.simps)
  moreover have "amd64_exec ''  HCC_LI64_80000000\<newline>'' s = Some (s\<lparr>rax := 2147483648\<rparr>)"
    "amd64_exec ''  HCC_LI64_FFFFFFFF\<newline>'' s = Some (s\<lparr>rax := 4294967295\<rparr>)"
    by (simp_all add: amd64_exec_def m1_words_def newline_def machine_simps hex_value_def is_digit_def)
  ultimately show ?thesis by (simp add: load_immediate_bytes_amd64_def)
qed

theorem amd64_immediate_bytes_correct_witness:
  "amd64_exec (load_immediate_bytes_amd64 [1, 2, 0, 0, 0, 0, 0, 0]) x86_sample =
     Some (x86_sample\<lparr>rax := 513\<rparr>)"
  using amd64_immediate_bytes_correct [of "[1, 2, 0, 0, 0, 0, 0, 0]" x86_sample] by simp

text \<open>
  For every comparison operator the conditional jump \<^verbatim>\<open>jump_name_for_binop\<close> picks has, after
  the \<^verbatim>\<open>CMP\<close> of \<^verbatim>\<open>emit_compare\<close> with the left operand in RBX and the right one in RAX, exactly
  the condition of the operator; other operators have no jump.
\<close>

theorem amd64_jump_correct:
  "case compare_sem op (rbx s) (rax s) of
     Some c \<Rightarrow> (\<exists>name h s'. jump_name_for_binop op = Inr name \<and> amd64_hex name = Some (''0F8'' @ h) \<and>
       amd64_exec ''  CMP\<newline>'' s = Some s' \<and> x86_cc h s' = Some c)
   | None \<Rightarrow> jump_name_for_binop op = die ''bad branch comparison''"
  by (auto simp: compare_sem_def jump_name_for_binop_def x86_run_simps m1_words_def newline_def)

end
