(* ===== verification/X86Steps.thy ===== *)
theory X86Steps
  imports X86
begin

text \<open>
  Control flow of the amd64 code: a program is the list of words of an M1 text, and a place in it is
  the rest of the list. Labels are words that begin with a colon and take no space; \<open>address\<close> gives
  the address the linker chose for a label, and \<open>spot\<close> the address of a place. The return addresses
  are on the stack, where the processor looks for them, and \<open>rets\<close> are the places they stand for.
\<close>

section \<open>One step\<close>

definition is_label :: "string \<Rightarrow> bool" where
  "is_label w \<longleftrightarrow> w \<noteq> [] \<and> hd w = CHR '':''"

text \<open>The place behind a label, and behind the first label that has the address.\<close>

fun after_label :: "string \<Rightarrow> string list \<Rightarrow> string list option" where
  "after_label l [] = None"
| "after_label l (w # ws) = (if w = CHR '':'' # l then Some ws else after_label l ws)"

definition label_value :: "(string \<Rightarrow> int) \<Rightarrow> string \<Rightarrow> 64 word" where
  "label_value address l = word_of_int (signed_take_bit 31 (address l))"

fun at_address :: "(string \<Rightarrow> int) \<Rightarrow> 64 word \<Rightarrow> string list \<Rightarrow> string list option" where
  "at_address address v [] = None"
| "at_address address v (w # ws) =
     (if is_label w \<and> label_value address (tl w) = v then Some ws else at_address address v ws)"

text \<open>The instruction at the front, when it is none that jumps.\<close>

definition x86_one :: "string list \<Rightarrow> x86 \<Rightarrow> (string list \<times> x86) option" where
  "x86_one ws s =
     (case ws of
        [] \<Rightarrow> None
      | w # ws \<Rightarrow>
          (case amd64_hex w of
             None \<Rightarrow> None
           | Some h \<Rightarrow>
               if h = ''48B8'' then
                 (case quoted_bytes (take 8 ws) of
                    Some bs \<Rightarrow>
                      if length bs = 8 \<and> 8 \<le> length ws
                      then Some (drop 8 ws, s\<lparr>rax := word_of_int (le_value bs)\<rparr>) else None
                  | None \<Rightarrow> None)
               else if take 4 h = ''48B8'' then
                 (case hex_bytes (drop 4 h) of
                    Some bs \<Rightarrow> Some (ws, s\<lparr>rax := word_of_int (le_value bs)\<rparr>)
                  | None \<Rightarrow> None)
               else
                 (case ws of
                    [] \<Rightarrow> map_option (Pair []) (x86_plain h s)
                  | w' # ws' \<Rightarrow>
                      (case m1_number w' of
                         Some n \<Rightarrow> map_option (Pair ws') (x86_imm h n s)
                       | None \<Rightarrow> map_option (Pair ws) (x86_plain h s)))))"

type_synonym config = "string list \<times> string list list \<times> x86"

text \<open>The place of the label that is the operand of a jump or a call, and the place behind it.\<close>

definition jump_operand :: "string list \<Rightarrow> string list \<Rightarrow> (string list \<times> string list) option" where
  "jump_operand prog ws =
     (case ws of
        (p # l) # ws' \<Rightarrow> if p = CHR ''%'' then map_option (\<lambda>t. (t, ws')) (after_label l prog) else None
      | _ \<Rightarrow> None)"

definition x86_call :: "(string list \<Rightarrow> 64 word) \<Rightarrow> string list \<Rightarrow> x86 \<Rightarrow> x86" where
  "x86_call spot ret s = s\<lparr>rsp := rsp s - 8, mem := mem_write 8 (mem s) (rsp s - 8) (spot ret)\<rparr>"

fun x86_step ::
    "(string \<Rightarrow> int) \<Rightarrow> (string list \<Rightarrow> 64 word) \<Rightarrow> string list \<Rightarrow> config \<Rightarrow> config option" where
  "x86_step address spot prog ([], rets, s) = None"
| "x86_step address spot prog (w # ws, rets, s) =
     (if is_label w then Some (ws, rets, s)
      else
        (case amd64_hex w of
           None \<Rightarrow> None
         | Some h \<Rightarrow>
             if h = ''E9'' then map_option (\<lambda>(t, _). (t, rets, s)) (jump_operand prog ws)
             else if take 3 h = ''0F8'' then
               Option.bind (x86_cc (drop 3 h) s) (\<lambda>c.
               map_option (\<lambda>(t, n). (if c then t else n, rets, s)) (jump_operand prog ws))
             else if h = ''E8'' then
               map_option (\<lambda>(t, n). (t, n # rets, x86_call spot n s)) (jump_operand prog ws)
             else if h = ''FFD0'' then
               map_option (\<lambda>t. (t, ws # rets, x86_call spot ws s)) (at_address address (rax s) prog)
             else if h = ''C3'' then
               (case rets of
                  [] \<Rightarrow> None
                | r # rets \<Rightarrow>
                    if mem_read 8 (mem s) (rsp s) = spot r then Some (r, rets, s\<lparr>rsp := rsp s + 8\<rparr>)
                    else None)
             else if h = ''48C7C0'' \<and> ws \<noteq> [] \<and> take 1 (hd ws) = ''&'' then
               Some (tl ws, rets, s\<lparr>rax := label_value address (tl (hd ws))\<rparr>)
             else map_option (\<lambda>(ws, s). (ws, rets, s)) (x86_one (w # ws) s)))"

inductive steps ::
    "(string \<Rightarrow> int) \<Rightarrow> (string list \<Rightarrow> 64 word) \<Rightarrow> string list \<Rightarrow> config \<Rightarrow> config \<Rightarrow> bool"
  for address spot prog where
  steps_refl: "steps address spot prog c c"
| steps_step: "x86_step address spot prog c = Some c' \<Longrightarrow> steps address spot prog c' c'' \<Longrightarrow>
    steps address spot prog c c''"

lemma steps_trans:
  "steps A B P c d \<Longrightarrow> steps A B P d e \<Longrightarrow> steps A B P c e"
  by (induction rule: steps.induct) (auto intro: steps_step)

lemma steps_one: "x86_step A B P c = Some d \<Longrightarrow> steps A B P c d"
  by (rule steps_step [OF _ steps_refl])

section \<open>Straight runs\<close>

definition opens :: "string list \<Rightarrow> bool" where
  "opens ws \<longleftrightarrow> ws = [] \<or> m1_number (hd ws) = None"

lemma amd64_hex_no_label: "is_label w \<Longrightarrow> amd64_hex w = None"
proof (rule ccontr)
  assume w: "is_label w" "amd64_hex w \<noteq> None"
  then obtain h where "(w, h) \<in> set amd64_defines"
    by (auto simp: amd64_hex_map_of dest!: map_of_SomeD)
  moreover have "list_all (\<lambda>(w, h). \<not> is_label w) amd64_defines" by code_simp
  ultimately show False using w(1) by (auto simp: list_all_iff)
qed

lemma x86_run_one:
  "x86_run (w # ws) s = Option.bind (x86_one (w # ws) s) (\<lambda>(ws, s). x86_run ws s)"
  by (cases "amd64_hex w"; cases "quoted_bytes (take 8 ws)"; cases "hex_bytes (drop 4 (the (amd64_hex w)))";
      cases ws; cases "m1_number (hd ws)")
    (auto simp: x86_one_def split: Option.bind_split option.split)

declare x86_run.simps(2) [simp del]

text \<open>What a whole text does, another text may follow.\<close>

lemma x86_one_append:
  assumes "x86_one (w # ws) s = Some (ws', s')" and "opens rest"
  shows "x86_one (w # ws @ rest) s = Some (ws' @ rest, s')"
proof -
  obtain h where h: "amd64_hex w = Some h"
    using assms(1) by (cases "amd64_hex w") (simp_all add: x86_one_def)
  show ?thesis
  proof (cases "take 4 h = ''48B8''")
    case True
    with assms(1) h show ?thesis
      by (cases "h = ''48B8''") (auto simp: x86_one_def split: option.splits if_splits)
  next
    case False
    then have "h \<noteq> ''48B8''" by auto
    with False have one: "x86_one (w # ws) s =
        (case ws of
           [] \<Rightarrow> map_option (Pair []) (x86_plain h s)
         | w' # ws' \<Rightarrow>
             (case m1_number w' of
                Some n \<Rightarrow> map_option (Pair ws') (x86_imm h n s)
              | None \<Rightarrow> map_option (Pair ws) (x86_plain h s)))" for ws
      by (simp add: x86_one_def h)
    show ?thesis
    proof (cases ws)
      case Nil
      with assms show ?thesis
        by (cases rest) (auto simp: one opens_def)
    next
      case (Cons w' ws'')
      with assms show ?thesis
        by (cases "m1_number w'") (auto simp: one)
    qed
  qed
qed

lemma x86_jump_plain:
  assumes "h = ''E9'' \<or> take 3 h = ''0F8'' \<or> h = ''E8'' \<or> h = ''FFD0'' \<or> h = ''C3''"
  shows "x86_plain h s = None \<and> x86_imm h n s = None \<and> take 4 h \<noteq> ''48B8''"
proof (cases "take 3 h = ''0F8''")
  case True
  then obtain t where "h = CHR ''0'' # CHR ''F'' # CHR ''8'' # t"
    by (metis append_Cons append_Nil append_take_drop_id)
  then show ?thesis by (simp add: x86_plain_def x86_imm_def Let_def)
next
  case False
  with assms have "h = ''E9'' \<or> h = ''E8'' \<or> h = ''FFD0'' \<or> h = ''C3''" by blast
  then show ?thesis by (elim disjE) (simp_all add: x86_plain_def x86_imm_def Let_def)
qed

lemma x86_one_step:
  assumes "x86_one (w # ws) s = Some (ws', s')"
  shows "x86_step A B P (w # ws, rets, s) = Some (ws', rets, s')"
proof -
  obtain h where h: "amd64_hex w = Some h"
    using assms by (cases "amd64_hex w") (simp_all add: x86_one_def)
  have "\<not> (h = ''E9'' \<or> take 3 h = ''0F8'' \<or> h = ''E8'' \<or> h = ''FFD0'' \<or> h = ''C3'')"
  proof
    assume "h = ''E9'' \<or> take 3 h = ''0F8'' \<or> h = ''E8'' \<or> h = ''FFD0'' \<or> h = ''C3''"
    then have "x86_plain h s = None \<and> x86_imm h n s = None \<and> take 4 h \<noteq> ''48B8''" for n
      by (rule x86_jump_plain)
    moreover from this have "h \<noteq> ''48B8''" by auto
    ultimately show False
      using assms h by (auto simp: x86_one_def split: list.splits option.splits)
  qed
  moreover have "\<not> (h = ''48C7C0'' \<and> ws \<noteq> [] \<and> take 1 (hd ws) = ''&'')"
  proof
    assume amp: "h = ''48C7C0'' \<and> ws \<noteq> [] \<and> take 1 (hd ws) = ''&''"
    then have "m1_number (hd ws) = None" by (cases "hd ws") (auto simp: m1_number_def)
    with amp assms h show False
      by (auto simp: x86_one_def x86_plain_def split: list.splits)
  qed
  moreover have "\<not> is_label w" using h amd64_hex_no_label [of w] by auto
  ultimately show ?thesis using assms h by (simp only: x86_step.simps) auto
qed

declare x86_step.simps(2) [simp del]

text \<open>A text whose words run one after the other runs inside any program.\<close>

lemma x86_run_steps:
  "x86_run ws s = Some s' \<Longrightarrow> opens rest \<Longrightarrow> steps A B P (ws @ rest, rets, s) (rest, rets, s')"
proof (induction "length ws" arbitrary: ws s rule: less_induct)
  case less
  show ?case
  proof (cases ws)
    case Nil
    with less.prems(1) show ?thesis by (simp add: steps_refl)
  next
    case (Cons w ws1)
    with less.prems(1) obtain ws2 s2 where one: "x86_one (w # ws1) s = Some (ws2, s2)"
      and run: "x86_run ws2 s2 = Some s'"
      by (auto simp: x86_run_one Option.bind_eq_Some_conv)
    have "length ws2 < length ws"
      using one Cons by (auto simp: x86_one_def split: list.splits option.splits if_splits)
    from less.hyps [OF this run less.prems(2)]
    show ?thesis
      using x86_one_step [OF x86_one_append [OF one less.prems(2)]] Cons
      by (simp add: steps_step)
  qed
qed

section \<open>Code in its program\<close>

text \<open>
  \<open>runs\<close> states that a text, wherever it stands in the program, takes the processor from one state to
  another and control to its end.
\<close>

definition code_text :: "string \<Rightarrow> bool" where
  "code_text t \<longleftrightarrow> whole_lines t \<and> opens (m1_words t)"

definition runs ::
    "(string \<Rightarrow> int) \<Rightarrow> (string list \<Rightarrow> 64 word) \<Rightarrow> string list \<Rightarrow> string \<Rightarrow> x86 \<Rightarrow> x86 \<Rightarrow> bool" where
  "runs A B P t s s' \<longleftrightarrow>
     (\<forall>pre rest rets. P = pre @ m1_words t @ rest \<longrightarrow> opens rest \<longrightarrow>
        steps A B P (m1_words t @ rest, rets, s) (rest, rets, s'))"

lemma opens_append: "opens a \<Longrightarrow> opens b \<Longrightarrow> opens (a @ b)"
  by (cases a) (auto simp: opens_def)

lemma whole_lines_append: "whole_lines a \<Longrightarrow> whole_lines b \<Longrightarrow> whole_lines (a @ b)"
  by (cases "b = []") (auto simp: whole_lines_def)

lemma code_text_append: "code_text a \<Longrightarrow> code_text b \<Longrightarrow> code_text (a @ b)"
  by (simp add: code_text_def whole_lines_append opens_append m1_words_lines)

lemma runs_append:
  assumes "runs A B P a s s1" "runs A B P b s1 s2" "code_text a" "code_text b"
  shows "runs A B P (a @ b) s s2"
  unfolding runs_def
proof (intro allI impI)
  fix pre rest rets
  have w: "m1_words (a @ b) = m1_words a @ m1_words b"
    using assms(3) by (simp add: code_text_def m1_words_lines)
  assume P: "P = pre @ m1_words (a @ b) @ rest" and "opens rest"
  then have "opens (m1_words b @ rest)" using assms(4) by (simp add: code_text_def opens_append)
  with P w assms(1) have "steps A B P (m1_words a @ m1_words b @ rest, rets, s) (m1_words b @ rest, rets, s1)"
    by (auto simp: runs_def)
  moreover have "steps A B P (m1_words b @ rest, rets, s1) (rest, rets, s2)"
    using P w assms(2) \<open>opens rest\<close> by (simp add: runs_def) (metis append.assoc)
  ultimately show "steps A B P (m1_words (a @ b) @ rest, rets, s) (rest, rets, s2)"
    using w steps_trans by fastforce
qed

lemma runs_exec: "amd64_exec t s = Some s' \<Longrightarrow> runs A B P t s s'"
  by (simp add: runs_def amd64_exec_def x86_run_steps)

lemma code_text_Nil [simp]: "code_text []"
  by (simp add: code_text_def whole_lines_def opens_def m1_words_def)

lemma runs_Nil [simp]: "runs A B P [] s s"
  by (simp add: runs_def m1_words_def steps_refl)

lemma after_label_unique:
  "distinct (filter is_label (pre @ (CHR '':'' # l) # rest)) \<Longrightarrow>
   after_label l (pre @ (CHR '':'' # l) # rest) = Some rest"
  by (induction pre) (auto simp: is_label_def split: if_splits)

end
