(* ===== verification/IrSem.thy ===== *)
theory IrSem
  imports X86Steps
begin

text \<open>
  What an IR function computes, for the 64-bit targets: temporaries hold 64-bit words, memory maps
  addresses to bytes, where a byte that was never written is \<open>None\<close>. Stack objects have addresses the
  environment knows; bytes that belong to the frame and not to an object are hidden, and a program that
  touches them has no meaning. Nor has one that reads a byte or a temporary it did not set, divides by
  zero, sets the temporary of a stack object, jumps to a block that has no label, or reads a parameter
  after the first other instruction.
\<close>

section \<open>State and operands\<close>

type_synonym bytes = "64 word \<Rightarrow> 8 word option"

record ir_env =
  object_at :: "int \<Rightarrow> 64 word option"
  hidden :: "64 word \<Rightarrow> bool"
  label_at :: "string \<Rightarrow> 64 word"
  function_at :: "64 word \<Rightarrow> string option"
  callee :: "string \<Rightarrow> 64 word list \<Rightarrow> bytes \<Rightarrow> (64 word \<times> bytes) option"

record ir_state =
  temps :: "int \<Rightarrow> 64 word option"
  ir_mem :: bytes
  incoming :: "64 word list"

definition ir_bytes :: "int list \<Rightarrow> 64 word" where
  "ir_bytes bs = word_of_int (le_value (map (\<lambda>b. b mod 256) (take 8 (bs @ replicate 8 0))))"

fun ir_operand :: "ir_env \<Rightarrow> ir_state \<Rightarrow> Operand \<Rightarrow> 64 word option" where
  "ir_operand env s OP_NONE = None"
| "ir_operand env s (OP_TEMP t) =
     (if int_ok t then (case object_at env t of Some a \<Rightarrow> Some a | None \<Rightarrow> temps s t) else None)"
| "ir_operand env s (OP_IMM v) = Some (word_of_int v)"
| "ir_operand env s (OP_BYTES bs) = Some (ir_bytes bs)"
| "ir_operand env s (OP_GLOBAL name) = Some (label_at env name)"
| "ir_operand env s (OP_FUNC name) = Some (label_at env (''FUNCTION_'' @ name))"

fun ir_operands :: "ir_env \<Rightarrow> ir_state \<Rightarrow> Operand list \<Rightarrow> 64 word list option" where
  "ir_operands env s [] = Some []"
| "ir_operands env s (op # ops) =
     Option.bind (ir_operand env s op) (\<lambda>v. map_option (Cons v) (ir_operands env s ops))"

definition assign :: "ir_env \<Rightarrow> int \<Rightarrow> 64 word \<Rightarrow> ir_state \<Rightarrow> ir_state option" where
  "assign env t v s =
     (if 0 \<le> t \<and> object_at env t = None then Some (s\<lparr>temps := (temps s)(t \<mapsto> v)\<rparr>) else None)"

section \<open>Instructions\<close>

text \<open>An access to so many bytes.\<close>

definition visible :: "ir_env \<Rightarrow> nat \<Rightarrow> 64 word \<Rightarrow> bool" where
  "visible env n a \<longleftrightarrow> list_all (\<lambda>i. \<not> hidden env (a + of_nat i)) [0..<n]"

definition written :: "nat \<Rightarrow> bytes \<Rightarrow> 64 word \<Rightarrow> bool" where
  "written n m a \<longleftrightarrow> list_all (\<lambda>i. m (a + of_nat i) \<noteq> None) [0..<n]"

definition ir_read :: "nat \<Rightarrow> bytes \<Rightarrow> 64 word \<Rightarrow> 64 word" where
  "ir_read n m a = mem_read n (\<lambda>a. case m a of Some b \<Rightarrow> b | None \<Rightarrow> 0) a"

fun ir_write :: "nat \<Rightarrow> bytes \<Rightarrow> 64 word \<Rightarrow> 64 word \<Rightarrow> bytes" where
  "ir_write 0 m a v = m"
| "ir_write (Suc n) m a v = ir_write n (m(a \<mapsto> ucast v)) (a + 1) (drop_bit 8 v)"

definition ir_load :: "ir_env \<Rightarrow> int \<Rightarrow> Operand \<Rightarrow> nat \<Rightarrow> bool \<Rightarrow> ir_state \<Rightarrow> ir_state option" where
  "ir_load env t a n is_signed s =
     Option.bind (ir_operand env s a) (\<lambda>p.
     if visible env n p \<and> written n (ir_mem s) p then
       assign env t ((if is_signed then sext_from (8 * n) else id) (ir_read n (ir_mem s) p)) s
     else None)"

definition ir_store :: "ir_env \<Rightarrow> Operand \<Rightarrow> Operand \<Rightarrow> nat \<Rightarrow> ir_state \<Rightarrow> ir_state option" where
  "ir_store env a b n s =
     Option.bind (ir_operand env s a) (\<lambda>p.
     Option.bind (ir_operand env s b) (\<lambda>v.
     if visible env n p then Some (s\<lparr>ir_mem := ir_write n (ir_mem s) p v\<rparr>) else None))"

definition ir_zext :: "int \<Rightarrow> 64 word \<Rightarrow> 64 word" where
  "ir_zext width v =
     (if width \<le> 1 then take_bit 8 v else if width \<le> 2 then take_bit 16 v
      else if width \<le> 4 then take_bit 32 v else v)"

definition ir_sext :: "int \<Rightarrow> 64 word \<Rightarrow> 64 word" where
  "ir_sext width v =
     (if width \<le> 1 then sext_from 8 v else if width \<le> 2 then sext_from 16 v
      else if width \<le> 4 then sext_from 32 v else v)"

definition ir_unary :: "ir_env \<Rightarrow> int \<Rightarrow> (64 word \<Rightarrow> 64 word) \<Rightarrow> Operand \<Rightarrow> ir_state \<Rightarrow> ir_state option" where
  "ir_unary env t f a s = Option.bind (ir_operand env s a) (\<lambda>v. assign env t (f v) s)"

definition ir_apply :: "ir_env \<Rightarrow> int \<Rightarrow> string \<Rightarrow> Operand list \<Rightarrow> ir_state \<Rightarrow> ir_state option" where
  "ir_apply env r name args s =
     Option.bind (ir_operands env s args) (\<lambda>vs.
     Option.bind (callee env name vs (ir_mem s)) (\<lambda>(v, m).
     if 0 \<le> r then assign env r v (s\<lparr>ir_mem := m\<rparr>) else Some (s\<lparr>ir_mem := m\<rparr>)))"

text \<open>After an instruction that is no parameter, the parameters are gone.\<close>

definition before :: "Instr \<Rightarrow> ir_state \<Rightarrow> ir_state" where
  "before i s = (case i of IK_PARAM t v \<Rightarrow> s | _ \<Rightarrow> s\<lparr>incoming := []\<rparr>)"

fun ir_instr :: "ir_env \<Rightarrow> Instr \<Rightarrow> ir_state \<Rightarrow> ir_state option"
  and ir_instrs :: "ir_env \<Rightarrow> Instr list \<Rightarrow> ir_state \<Rightarrow> ir_state option"
where
  "ir_instr env (IK_PARAM t v) s =
     (if 0 \<le> v \<and> nat v < length (incoming s) then assign env t (incoming s ! nat v) s else None)"
| "ir_instr env (IK_ALLOCA t v) s = Some s"
| "ir_instr env (IK_CONST t v) s = assign env t (word_of_int v) s"
| "ir_instr env (IK_COPY t a) s = ir_unary env t id a s"
| "ir_instr env (IK_ADDROF t t2) s = Option.bind (object_at env t2) (\<lambda>v. assign env t v s)"
| "ir_instr env (IK_LOAD64 t a) s = ir_load env t a 8 False s"
| "ir_instr env (IK_LOAD32 t a) s = ir_load env t a 4 False s"
| "ir_instr env (IK_LOADS32 t a) s = ir_load env t a 4 True s"
| "ir_instr env (IK_LOAD16 t a) s = ir_load env t a 2 False s"
| "ir_instr env (IK_LOADS16 t a) s = ir_load env t a 2 True s"
| "ir_instr env (IK_LOAD8 t a) s = ir_load env t a 1 False s"
| "ir_instr env (IK_LOADS8 t a) s = ir_load env t a 1 True s"
| "ir_instr env (IK_STORE64 a b) s = ir_store env a b 8 s"
| "ir_instr env (IK_STORE32 a b) s = ir_store env a b 4 s"
| "ir_instr env (IK_STORE16 a b) s = ir_store env a b 2 s"
| "ir_instr env (IK_STORE8 a b) s = ir_store env a b 1 s"
| "ir_instr env (IK_BIN t op a b) s =
     Option.bind (ir_operand env s a) (\<lambda>x.
     Option.bind (ir_operand env s b) (\<lambda>y.
     Option.bind (binop_sem op x y) (\<lambda>v. assign env t v s)))"
| "ir_instr env (IK_CALL r name args) s = ir_apply env r name args s"
| "ir_instr env (IK_CALLI r f args) s =
     Option.bind (ir_operand env s f) (\<lambda>p.
     Option.bind (function_at env p) (\<lambda>name. ir_apply env r name args s))"
| "ir_instr env (IK_COND t cs co ts to fs fo) s =
     Option.bind (ir_instrs env cs s) (\<lambda>s.
     Option.bind (ir_operand env s co) (\<lambda>c.
     if c \<noteq> 0 then
       Option.bind (ir_instrs env ts s) (\<lambda>s.
       Option.bind (ir_operand env s to) (\<lambda>v. assign env t v s))
     else
       Option.bind (ir_instrs env fs s) (\<lambda>s.
       Option.bind (ir_operand env s fo) (\<lambda>v. assign env t v s))))"
| "ir_instr env (IK_SEXT t v a) s = ir_unary env t (ir_sext (c_int v)) a s"
| "ir_instr env (IK_ZEXT t v a) s = ir_unary env t (ir_zext (c_int v)) a s"
| "ir_instr env (IK_TRUNC t v a) s = ir_unary env t (ir_zext (c_int v)) a s"
| "ir_instrs env [] s = Some s"
| "ir_instrs env (i # is) s = Option.bind (ir_instr env i (before i s)) (ir_instrs env is)"

section \<open>Blocks and functions\<close>

datatype ir_next = Return "64 word" | Goto int

fun ir_term :: "ir_env \<Rightarrow> ir_state \<Rightarrow> Terminator \<Rightarrow> ir_next option" where
  "ir_term env s (TK_RET op) =
     (if op = OP_NONE then Some (Return 0) else map_option Return (ir_operand env s op))"
| "ir_term env s (TK_JUMP yes) = Some (Goto yes)"
| "ir_term env s (TK_BRANCH op yes no) =
     map_option (\<lambda>v. Goto (if v \<noteq> 0 then yes else no)) (ir_operand env s op)"
| "ir_term env s (TK_BRANCH_CMP op a b yes no) =
     Option.bind (ir_operand env s a) (\<lambda>x.
     Option.bind (ir_operand env s b) (\<lambda>y.
     map_option (\<lambda>c. Goto (if c then yes else no)) (compare_sem op x y)))"

text \<open>The fuel counts the blocks run.\<close>

fun ir_run :: "nat \<Rightarrow> ir_env \<Rightarrow> Block list \<Rightarrow> Block \<Rightarrow> ir_state \<Rightarrow> (64 word \<times> bytes) option" where
  "ir_run 0 env bs b s = None"
| "ir_run (Suc n) env bs b s =
     Option.bind (ir_instrs env (block_instrs b) s) (\<lambda>s.
     Option.bind (ir_term env s (block_term b)) (\<lambda>next.
     case next of
       Return v \<Rightarrow> Some (v, ir_mem s)
     | Goto k \<Rightarrow>
         if k = 0 then None
         else
           Option.bind (find (\<lambda>b. block_id b = k) bs)
             (\<lambda>b. ir_run n env bs b (s\<lparr>incoming := []\<rparr>))))"

text \<open>
  The frame of a function: the bytes of the temporaries that are no objects, where the objects lie, and
  what a call may see. The stack grows down to \<open>limit\<close>; what is below the frame is hidden, and during a
  call the caller's temporaries and everything pushed are. A function whose frame would be 2 GiB or more
  overflows the stack, too.
\<close>

definition slot_byte :: "LocArray \<Rightarrow> 64 word \<Rightarrow> 64 word \<Rightarrow> bool" where
  "slot_byte locs base a \<longleftrightarrow>
     list_ex (\<lambda>loc. loc_kind loc = LOC_STACK \<and> a - (base + word_of_int (8 * loc_slot loc)) < 8) locs"

definition pushed_bytes :: "nat \<Rightarrow> int" where
  "pushed_bytes argc = 8 * int (argc - 6)"

type_synonym caller =
  "(64 word \<Rightarrow> bool) \<Rightarrow> 64 word \<Rightarrow> string \<Rightarrow> 64 word list \<Rightarrow> bytes \<Rightarrow> (64 word \<times> bytes) option"

definition frame_env ::
    "caller \<Rightarrow> (string \<Rightarrow> int) \<Rightarrow> string list \<Rightarrow> 64 word \<Rightarrow> (64 word \<Rightarrow> bool) \<Rightarrow> LocArray \<Rightarrow> 64 word \<Rightarrow>
     ir_env" where
  "frame_env call address names limit frozen locs base =
     \<lparr>object_at =
        (\<lambda>t. if 0 \<le> t \<and> t < int (length locs) \<and> loc_kind (locs ! nat t) = LOC_OBJECT
             then Some (base + word_of_int (8 * loc_slot (locs ! nat t))) else None),
      hidden = (\<lambda>a. frozen a \<or> slot_byte locs base a \<or> limit \<le> a \<and> a < base),
      label_at = label_value address,
      function_at =
        (\<lambda>v. find (\<lambda>name. label_value address (''FUNCTION_'' @ name) = v) names),
      callee =
        (\<lambda>name args m.
           if uint limit + pushed_bytes (length args) + 8 \<le> uint base then
             let sp = base - word_of_int (pushed_bytes (length args) + 8) in
             call (\<lambda>a. frozen a \<or> slot_byte locs base a \<or> sp \<le> a \<and> a < base) sp name args m
           else None)\<rparr>"

fun ir_call :: "(string \<Rightarrow> int) \<Rightarrow> 64 word \<Rightarrow> Function list \<Rightarrow> nat \<Rightarrow> caller" where
  "ir_call address limit fns 0 frozen sp name args m = None"
| "ir_call address limit fns (Suc n) frozen sp name args m =
     Option.bind (find (\<lambda>fn. fn_name fn = name) fns) (\<lambda>fn.
     case allocate_function TARGET_AMD64 fn of
       Inl e \<Rightarrow> None
     | Inr (locs, frame) \<Rightarrow>
         if fn_blocks fn \<noteq> [] \<and> frame_bytes TARGET_AMD64 fn < 2 ^ 31 \<and> uint limit + 8 * frame \<le> uint sp then
           let base = sp - word_of_int (8 * frame) in
           ir_run n
             (frame_env (ir_call address limit fns n) address (map fn_name fns) limit frozen locs base)
             (fn_blocks fn) (hd (fn_blocks fn))
             \<lparr>temps = Map.empty, ir_mem = (\<lambda>a. if base \<le> a \<and> a < sp then None else m a),
               incoming = args\<rparr>
         else None)"

end
