(* ===== verification/Frame.thy ===== *)
theory Frame
  imports IrSem
begin

text \<open>
  Memory as the frame of a function uses it: reads and writes of several bytes, the slots of the
  temporaries, and the relation between an IR state and the processor while a function runs.
\<close>

section \<open>Reads and writes\<close>

definition cells :: "nat \<Rightarrow> 64 word \<Rightarrow> 64 word set" where
  "cells n a = (\<lambda>i. a + of_nat i) ` {..<n}"

lemma cells_simps [simp]: "cells 0 a = {}" "cells (Suc n) a = insert a (cells n (a + 1))"
proof -
  have "{..<Suc n} = insert 0 (Suc ` {..<n})" by (auto simp: lessThan_Suc_eq_insert_0)
  then show "cells (Suc n) a = insert a (cells n (a + 1))"
    by (simp add: cells_def image_image add.assoc del: lessThan_Suc)
qed (simp add: cells_def)

lemma mem_write_other: "x \<notin> cells n a \<Longrightarrow> mem_write n m a v x = m x"
  by (induction n m a v rule: mem_write.induct) auto

lemma mem_read_cong: "(\<And>x. x \<in> cells n a \<Longrightarrow> m x = m' x) \<Longrightarrow> mem_read n m a = mem_read n m' a"
  by (induction n m a rule: mem_read.induct) auto

lemma mem_read_write_other:
  "cells k a \<inter> cells n b = {} \<Longrightarrow> mem_read n (mem_write k m a v) b = mem_read n m b"
  by (rule mem_read_cong, rule mem_write_other) auto

lemma cells_later: "n \<le> 8 \<Longrightarrow> a \<notin> cells n (a + 1)"
proof
  assume "n \<le> 8" and "a \<in> cells n (a + 1)"
  then obtain i where "i < n" "a = a + 1 + of_nat i" by (auto simp only: cells_def lessThan_iff)
  with \<open>n \<le> 8\<close> have "i < 8" "a = a + 1 + of_nat i" by simp_all
  then have "(1 :: 64 word) + of_nat i = 0" by (simp add: add.assoc)
  moreover have "i \<in> {0, 1, 2, 3, 4, 5, 6, 7}" using \<open>i < 8\<close> by auto
  ultimately show False by (elim insertE emptyE) simp_all
qed

lemma take_bit_split_8:
  "take_bit 8 v + push_bit 8 (take_bit n (drop_bit 8 v)) = take_bit (n + 8) (v :: 64 word)"
proof -
  have "take_bit 8 v + push_bit 8 (take_bit n (drop_bit 8 v)) =
      take_bit 8 v OR push_bit 8 (take_bit n (drop_bit 8 v))"
    by (rule disjunctive_add) (auto simp: bit_take_bit_iff bit_push_bit_iff)
  also have "\<dots> = take_bit (n + 8) v"
    by (rule bit_word_eqI)
      (auto simp: bit_or_iff bit_take_bit_iff bit_push_bit_iff bit_drop_bit_eq)
  finally show ?thesis .
qed

lemma mem_read_write: "n \<le> 8 \<Longrightarrow> mem_read n (mem_write n m a v) a = take_bit (8 * n) v"
proof (induction n arbitrary: m a v)
  case (Suc n)
  then have "mem_write n (m(a := ucast v)) (a + 1) (drop_bit 8 v) a = ucast v"
    by (simp add: mem_write_other cells_later)
  moreover have "ucast (ucast v :: 8 word) = take_bit 8 v"
    by (rule bit_word_eqI) (auto simp: bit_take_bit_iff bit_ucast_iff)
  ultimately show ?case
    using Suc take_bit_split_8 [of v "8 * n"] by (simp add: add.commute)
qed simp

lemma mem_read_write_8: "mem_read 8 (mem_write 8 m a v) a = v"
  using mem_read_write [of 8 m a v] by (simp add: take_bit_word_eq_self)

text \<open>The IR's writes do the same to the bytes they touch.\<close>

lemma ir_write_other: "x \<notin> cells n a \<Longrightarrow> ir_write n m a v x = m x"
  by (induction n m a v rule: ir_write.induct) auto

lemma ir_write_agrees:
  "(\<And>x b. x \<in> D \<Longrightarrow> m x = Some b \<Longrightarrow> M x = b) \<Longrightarrow> x \<in> D \<Longrightarrow> ir_write n m a v x = Some b \<Longrightarrow>
   mem_write n M a v x = b"
proof (induction n arbitrary: m M a v)
  case (Suc n)
  have "mem_write n (M(a := ucast v)) (a + 1) (drop_bit 8 v) x = b"
  proof (rule Suc.IH [of "m(a \<mapsto> ucast v)"])
    show "(M(a := ucast v)) y = c" if "y \<in> D" "(m(a \<mapsto> ucast v)) y = Some c" for y c
      using that Suc.prems(1) by (auto split: if_splits)
    show "x \<in> D" by (rule Suc.prems(2))
    show "ir_write n (m(a \<mapsto> ucast v)) (a + 1) (drop_bit 8 v) x = Some b"
      using Suc.prems(3) by (simp only: ir_write.simps)
  qed
  then show ?case by simp
qed auto

lemma ir_read_agrees:
  assumes "\<And>x b. x \<in> cells n a \<Longrightarrow> m x = Some b \<Longrightarrow> M x = b" and "written n m a"
  shows "ir_read n m a = mem_read n M a"
  unfolding ir_read_def
proof (rule mem_read_cong)
  fix x assume x: "x \<in> cells n a"
  then obtain i where "i < n" "x = a + of_nat i" by (auto simp: cells_def)
  with assms(2) obtain b where "m x = Some b"
    by (fastforce simp: written_def list_all_iff)
  with assms(1) [OF x] show "(case m x of None \<Rightarrow> 0 | Some b \<Rightarrow> b) = M x" by simp
qed

lemma visible_cells: "visible env n a \<longleftrightarrow> (\<forall>x \<in> cells n a. \<not> hidden env x)"
  by (auto simp: visible_def cells_def list_all_iff)

section \<open>The frame\<close>

text \<open>
  What is fixed while one call of a function runs: the linked program (its label addresses, places and
  words), the allocation, the frame, the bytes of the callers with their contents, the meaning of
  calls, and the temporaries whose stores the emitter may leave out.
\<close>

record site =
  s_address :: "string \<Rightarrow> int"
  s_spot :: "string list \<Rightarrow> 64 word"
  s_prog :: "string list"
  s_locs :: LocArray
  s_frame :: int
  s_base :: "64 word"
  s_limit :: "64 word"
  s_frozen :: "64 word \<Rightarrow> bool"
  s_mem0 :: "64 word \<Rightarrow> 8 word"
  s_call :: caller
  s_names :: "string list"
  s_elided :: "int set"

definition site_env :: "site \<Rightarrow> ir_env" where
  "site_env c =
     frame_env (s_call c) (s_address c) (s_names c) (s_limit c) (s_frozen c) (s_locs c) (s_base c)"

definition slot_addr :: "site \<Rightarrow> int \<Rightarrow> 64 word" where
  "slot_addr c t = s_base c + word_of_int (8 * loc_slot (s_locs c ! nat t))"

definition stack_temp :: "site \<Rightarrow> int \<Rightarrow> bool" where
  "stack_temp c t \<longleftrightarrow> 0 \<le> t \<and> t < int (length (s_locs c)) \<and> loc_kind (s_locs c ! nat t) = LOC_STACK"

definition stack_top :: "site \<Rightarrow> int" where
  "stack_top c = uint (s_base c) + 8 * s_frame c"

definition site_ok :: "site \<Rightarrow> bool" where
  "site_ok c \<longleftrightarrow>
     slots_in_frame (s_locs c) (s_frame c) \<and> slots_disjoint (s_locs c) \<and> 0 \<le> s_frame c \<and>
     uint (s_limit c) \<le> uint (s_base c) \<and> stack_top c < 2 ^ 64 \<and>
     stack_top c - uint (s_limit c) < 2 ^ 31 \<and>
     (\<forall>a. s_frozen c a \<longrightarrow> \<not> (uint (s_limit c) \<le> uint a \<and> uint a < stack_top c))"

text \<open>
  Memory agrees with an IR state: what the IR wrote is there, the callers' bytes are unchanged, and the
  slot of every temporary that was set holds its value, unless its store may have been left out.
\<close>

definition agrees :: "site \<Rightarrow> ir_state \<Rightarrow> (64 word \<Rightarrow> 8 word) \<Rightarrow> bool" where
  "agrees c s m \<longleftrightarrow>
     (\<forall>a b. ir_mem s a = Some b \<longrightarrow> \<not> hidden (site_env c) a \<longrightarrow> m a = b) \<and>
     (\<forall>a. s_frozen c a \<longrightarrow> m a = s_mem0 c a) \<and>
     (\<forall>t v. temps s t = Some v \<longrightarrow>
        stack_temp c t \<and> (t \<notin> s_elided c \<longrightarrow> mem_read 8 m (slot_addr c t) = v))"

lemma agreesD:
  assumes "agrees c s m"
  shows "ir_mem s a = Some b \<Longrightarrow> \<not> hidden (site_env c) a \<Longrightarrow> m a = b"
    and "s_frozen c a \<Longrightarrow> m a = s_mem0 c a"
    and "temps s t = Some v \<Longrightarrow> stack_temp c t"
    and "temps s t = Some v \<Longrightarrow> t \<notin> s_elided c \<Longrightarrow> mem_read 8 m (slot_addr c t) = v"
  using assms by (auto simp: agrees_def)

lemma agrees_incoming [simp]: "agrees c (s\<lparr>incoming := ps\<rparr>) m = agrees c s m"
  by (simp add: agrees_def)

lemma hidden_site: "hidden (site_env c) a \<longleftrightarrow>
    s_frozen c a \<or> slot_byte (s_locs c) (s_base c) a \<or> s_limit c \<le> a \<and> a < s_base c"
  by (simp add: site_env_def frame_env_def)

lemma object_site: "object_at (site_env c) t =
    (if 0 \<le> t \<and> t < int (length (s_locs c)) \<and> loc_kind (s_locs c ! nat t) = LOC_OBJECT
     then Some (slot_addr c t) else None)"
  by (simp add: site_env_def frame_env_def slot_addr_def)

lemma label_site [simp]: "label_at (site_env c) = label_value (s_address c)"
  by (simp add: site_env_def frame_env_def)

lemma slot_bounds:
  assumes "site_ok c" and "allocated (s_locs c) t"
  shows "0 \<le> slot_start (s_locs c) t" "slot_start (s_locs c) t < s_frame c"
    "slot_start (s_locs c) t < slot_end (s_locs c) t"
  using assms by (auto simp: site_ok_def slots_in_frame_def)

lemma slot_addr_uint:
  assumes "site_ok c" and "allocated (s_locs c) t"
  shows "uint (slot_addr c t) = uint (s_base c) + 8 * slot_start (s_locs c) t"
proof -
  note b = slot_bounds [OF assms]
  have less: "uint (s_base c) + 8 * slot_start (s_locs c) t < 2 ^ 64"
    using assms(1) b by (simp add: site_ok_def stack_top_def)
  have "0 \<le> uint (s_base c)" by simp
  with less have "8 * slot_start (s_locs c) t < 2 ^ 64" by linarith
  with b(1) have "uint (word_of_int (8 * slot_start (s_locs c) t) :: 64 word) = 8 * slot_start (s_locs c) t"
    by (simp only: uint_word_of_int) (simp add: mod_pos_pos_trivial)
  then show ?thesis
    using less b(1) \<open>0 \<le> uint (s_base c)\<close>
    unfolding slot_addr_def by (simp only: uint_word_ariths) (simp add: mod_pos_pos_trivial)
qed

lemma slot_cells:
  assumes "site_ok c" and "allocated (s_locs c) t" and "a \<in> cells 8 (slot_addr c t)"
  shows "uint (s_base c) + 8 * slot_start (s_locs c) t \<le> uint a"
    "uint a < uint (s_base c) + 8 * slot_start (s_locs c) t + 8" "uint a < stack_top c"
proof -
  note b = slot_bounds [OF assms(1,2)] slot_addr_uint [OF assms(1,2)]
  obtain i where i: "i < 8" "a = slot_addr c t + of_nat i" using assms(3) by (auto simp: cells_def)
  have top: "uint (slot_addr c t) + 8 \<le> stack_top c" using b by (simp add: stack_top_def)
  moreover have "stack_top c < 2 ^ 64" using assms(1) by (simp add: site_ok_def)
  moreover have "0 \<le> uint (slot_addr c t)" by simp
  ultimately have "uint a = uint (slot_addr c t) + int i"
    using i by (simp add: uint_word_ariths unsigned_of_nat take_bit_eq_mod mod_pos_pos_trivial)
  then show "uint (s_base c) + 8 * slot_start (s_locs c) t \<le> uint a"
    "uint a < uint (s_base c) + 8 * slot_start (s_locs c) t + 8" "uint a < stack_top c"
    using b i(1) top by simp_all
qed

lemma stack_temp_allocated: "stack_temp c t \<Longrightarrow> allocated (s_locs c) t"
  by (auto simp: stack_temp_def allocated_def)

lemma slot_cells_disjoint:
  assumes "site_ok c" "stack_temp c t" "stack_temp c u" "t \<noteq> u"
  shows "cells 8 (slot_addr c t) \<inter> cells 8 (slot_addr c u) = {}"
proof (rule equals0I)
  fix a assume a: "a \<in> cells 8 (slot_addr c t) \<inter> cells 8 (slot_addr c u)"
  have al: "allocated (s_locs c) t" "allocated (s_locs c) u"
    using assms(2,3) by (simp_all add: stack_temp_allocated)
  then have "slot_end (s_locs c) t \<le> slot_start (s_locs c) u \<or> slot_end (s_locs c) u \<le> slot_start (s_locs c) t"
    using assms(1,4) by (simp add: site_ok_def slots_disjoint_def)
  with a slot_bounds(3) [OF assms(1) al(1)] slot_bounds(3) [OF assms(1) al(2)]
    slot_cells(1,2) [OF assms(1) al(1)] slot_cells(1,2) [OF assms(1) al(2)]
  show False by fastforce
qed

lemma slot_cells_hidden:
  assumes "stack_temp c t" and "a \<in> cells 8 (slot_addr c t)"
  shows "slot_byte (s_locs c) (s_base c) a"
proof -
  obtain i where "i < 8" "a = slot_addr c t + of_nat i" using assms(2) by (auto simp: cells_def)
  then have "a - slot_addr c t < 8"
    by (simp add: word_less_nat_alt unat_of_nat)
  moreover have "s_locs c ! nat t \<in> set (s_locs c)" "loc_kind (s_locs c ! nat t) = LOC_STACK"
    using assms(1) by (auto simp: stack_temp_def)
  ultimately show ?thesis by (auto simp: slot_byte_def list_ex_iff slot_addr_def)
qed

lemma slot_cells_not_frozen:
  assumes "site_ok c" "stack_temp c t" "a \<in> cells 8 (slot_addr c t)"
  shows "\<not> s_frozen c a"
proof
  assume "s_frozen c a"
  moreover note al = stack_temp_allocated [OF assms(2)]
  ultimately show False
    using assms(1) slot_cells [OF assms(1) al assms(3)] slot_bounds(1) [OF assms(1) al]
    by (force simp: site_ok_def)
qed

text \<open>Writing a slot, and leaving the write out.\<close>

lemma agrees_store:
  assumes "site_ok c" "agrees c s m" "stack_temp c t"
  shows "agrees c (s\<lparr>temps := (temps s)(t \<mapsto> v)\<rparr>) (mem_write 8 m (slot_addr c t) v)"
  unfolding agrees_def
proof (intro conjI allI impI)
  fix a b
  show "mem_write 8 m (slot_addr c t) v a = b"
    if "ir_mem (s\<lparr>temps := (temps s)(t \<mapsto> v)\<rparr>) a = Some b" "\<not> hidden (site_env c) a"
    using that agreesD(1) [OF assms(2)] slot_cells_hidden [OF assms(3), of a]
    by (subst mem_write_other) (auto simp: hidden_site)
  show "mem_write 8 m (slot_addr c t) v a = s_mem0 c a" if "s_frozen c a"
    using that agreesD(2) [OF assms(2)] slot_cells_not_frozen [OF assms(1,3), of a]
    by (subst mem_write_other) auto
next
  fix u w
  assume w: "temps (s\<lparr>temps := (temps s)(t \<mapsto> v)\<rparr>) u = Some w"
  then show u: "stack_temp c u"
    using assms(3) agreesD(3) [OF assms(2)] by (auto split: if_splits)
  show "mem_read 8 (mem_write 8 m (slot_addr c t) v) (slot_addr c u) = w" if "u \<notin> s_elided c"
  proof (cases "u = t")
    case True
    with w show ?thesis by (simp add: mem_read_write_8)
  next
    case False
    with w have "temps s u = Some w" by simp
    with False slot_cells_disjoint [OF assms(1,3) u] agreesD(4) [OF assms(2) _ that]
    show ?thesis by (simp add: mem_read_write_other)
  qed
qed

lemma agrees_elided:
  "agrees c s m \<Longrightarrow> stack_temp c t \<Longrightarrow> t \<in> s_elided c \<Longrightarrow> agrees c (s\<lparr>temps := (temps s)(t \<mapsto> v)\<rparr>) m"
  by (auto simp: agrees_def)

text \<open>Writes of the program, which only touch visible bytes, and writes below the frame.\<close>

lemma agrees_other_write:
  assumes "agrees c s m"
    and "\<And>a. a \<in> cells n p \<Longrightarrow> \<not> s_frozen c a \<and> \<not> slot_byte (s_locs c) (s_base c) a"
    and "\<And>a b. mm a = Some b \<Longrightarrow> \<not> hidden (site_env c) a \<Longrightarrow> mem_write n m p v a = b"
  shows "agrees c (s\<lparr>ir_mem := mm\<rparr>) (mem_write n m p v)"
  unfolding agrees_def
proof (intro conjI allI impI)
  fix a b
  show "mem_write n m p v a = b" if "ir_mem (s\<lparr>ir_mem := mm\<rparr>) a = Some b" "\<not> hidden (site_env c) a"
    using that assms(3) by simp
  show "mem_write n m p v a = s_mem0 c a" if "s_frozen c a"
    using that agreesD(2) [OF assms(1)] assms(2) [of a] by (subst mem_write_other) auto
next
  fix u w
  assume w: "temps (s\<lparr>ir_mem := mm\<rparr>) u = Some w"
  then show u: "stack_temp c u" using agreesD(3) [OF assms(1)] by simp
  have "cells n p \<inter> cells 8 (slot_addr c u) = {}"
    using assms(2) slot_cells_hidden [OF u] by blast
  with w agreesD(4) [OF assms(1)] show "mem_read 8 (mem_write n m p v) (slot_addr c u) = w" if "u \<notin> s_elided c"
    using that by (simp add: mem_read_write_other)
qed

lemma agrees_ir_write:
  assumes "agrees c s m" "visible (site_env c) n p"
  shows "agrees c (s\<lparr>ir_mem := ir_write n (ir_mem s) p v\<rparr>) (mem_write n m p v)"
proof (rule agrees_other_write [OF assms(1)])
  show "\<not> s_frozen c a \<and> \<not> slot_byte (s_locs c) (s_base c) a" if "a \<in> cells n p" for a
    using assms(2) that by (auto simp: visible_cells hidden_site)
  show "mem_write n m p v a = b" if "ir_write n (ir_mem s) p v a = Some b" "\<not> hidden (site_env c) a" for a b
    using that agreesD(1) [OF assms(1)]
    by (intro ir_write_agrees [where D = "{a. \<not> hidden (site_env c) a}" and m = "ir_mem s"]) auto
qed

lemma agrees_ir_read:
  assumes "agrees c s m" "visible (site_env c) n p" "written n (ir_mem s) p"
  shows "mem_read n m p = ir_read n (ir_mem s) p"
proof -
  have "m x = b" if "x \<in> cells n p" "ir_mem s x = Some b" for x b
    using agreesD(1) [OF assms(1) that(2)] that(1) assms(2) by (simp add: visible_cells)
  from ir_read_agrees [OF this assms(3)] show ?thesis by simp
qed

end
