(* ===== verification/LineLoop.thy ===== *)
theory LineLoop
  imports TextIO
begin

text \<open>
  The interface between the line reader and the loops that consume lines. Four loops of the IR
  reader have one shape: read a line, stop on an end line, otherwise read one item (which may
  read further lines, and may call the loop itself for a nested list) and go on. The locale
  states what such a loop promises its caller once its item reader is well behaved: it only
  shortens the file, fuel beyond the length of the file is enough, and the amount does not
  matter.
\<close>

definition shrinking :: "(string \<Rightarrow> ('a \<times> string) res) \<Rightarrow> bool" where
  "shrinking g \<longleftrightarrow> (\<forall>f x f'. g f = Inr (x, f') \<longrightarrow> length f' < length f)"

definition fuelled :: "(string \<Rightarrow> ('a \<times> string) res) \<Rightarrow> string \<Rightarrow> bool" where
  "fuelled g file \<longleftrightarrow> (\<forall>f. length f \<le> length file \<longrightarrow> g f \<noteq> Inl Diverges)"

definition agree :: "(string \<Rightarrow> 'b) \<Rightarrow> (string \<Rightarrow> 'b) \<Rightarrow> string \<Rightarrow> bool" where
  "agree g h file \<longleftrightarrow> (\<forall>f. length f \<le> length file \<longrightarrow> g f = h f)"

lemma shrinkingD: "shrinking g \<Longrightarrow> g f = Inr (x, f') \<Longrightarrow> length f' < length f"
  by (auto simp: shrinking_def)

lemma fuelledD: "fuelled g file \<Longrightarrow> length f \<le> length file \<Longrightarrow> g f \<noteq> Inl Diverges"
  by (auto simp: fuelled_def)

lemma agreeD: "agree g h file \<Longrightarrow> length f \<le> length file \<Longrightarrow> g f = h f"
  by (auto simp: agree_def)

lemma fuelled_mono: "fuelled g file \<Longrightarrow> length f \<le> length file \<Longrightarrow> fuelled g f"
  by (auto simp: fuelled_def)

lemma agree_mono: "agree g h file \<Longrightarrow> length f \<le> length file \<Longrightarrow> agree g h f"
  by (auto simp: agree_def)

locale line_loop =
  fixes loop :: "nat \<Rightarrow> string \<Rightarrow> ('r \<times> string) res"
    and eof_message :: string
    and stops :: "string \<Rightarrow> bool"
    and finish :: "string \<Rightarrow> string \<Rightarrow> ('r \<times> string) res"
    and item :: "(string \<Rightarrow> ('r \<times> string) res) \<Rightarrow> string \<Rightarrow> string \<Rightarrow> ('x \<times> string) res"
    and add :: "'x \<Rightarrow> 'r \<Rightarrow> 'r"
  assumes loop_0: "loop 0 f = Inl Diverges"
    and loop_Suc: "loop (Suc n) f =
      res_bind (read_line f LINE_CAP) (\<lambda>r.
      case r of
        None \<Rightarrow> die eof_message
      | Some (line, f') \<Rightarrow>
          if stops line then finish line f'
          else
            res_bind (item (loop n) f' line) (\<lambda>(x, f'').
            res_bind (loop n f'') (\<lambda>(r, f'''). Inr (add x r, f'''))))"
    and finish_shortens: "finish line f = Inr (r, f') \<Longrightarrow> length f' \<le> length f"
    and finish_fuel: "finish line f \<noteq> Inl Diverges"
    and item_shortens:
      "shrinking g \<Longrightarrow> item g f line = Inr (x, f') \<Longrightarrow> length f' \<le> length f"
    and item_fuel: "shrinking g \<Longrightarrow> fuelled g f \<Longrightarrow> item g f line \<noteq> Inl Diverges"
    and item_agree: "shrinking g \<Longrightarrow> agree g h f \<Longrightarrow> item g f line = item h f line"
begin

lemma loop_shrinking: "shrinking (loop n)"
proof (induction n)
  case 0
  then show ?case by (simp add: shrinking_def loop_0)
next
  case (Suc n)
  have "length f' < length f" if run: "loop (Suc n) f = Inr (x, f')" for f x f'
  proof -
    from run obtain r where r: "read_line f LINE_CAP = Inr r" and
      body: "(case r of None \<Rightarrow> die eof_message
        | Some (line, f') \<Rightarrow>
            if stops line then finish line f'
            else res_bind (item (loop n) f' line) (\<lambda>(x, f'').
              res_bind (loop n f'') (\<lambda>(r, f'''). Inr (add x r, f''')))) = Inr (x, f')"
      by (auto simp: loop_Suc)
    then obtain line f1 where r': "r = Some (line, f1)"
      by (cases r) auto
    have f1: "length f1 < length f"
      using r r' by (simp add: read_line_shorter)
    show ?thesis
    proof (cases "stops line")
      case True
      with body r' f1 show ?thesis by (auto dest: finish_shortens)
    next
      case False
      with body r' f1 show ?thesis
        by (fastforce dest: item_shortens [OF Suc] shrinkingD [OF Suc])
    qed
  qed
  then show ?case by (auto simp: shrinking_def)
qed

lemma loop_enough: "length f < n \<Longrightarrow> loop n f \<noteq> Inl Diverges"
proof (induction n arbitrary: f)
  case (Suc n)
  show ?case
  proof
    assume bad: "loop (Suc n) f = Inl Diverges"
    then obtain line f1 where r: "read_line f LINE_CAP = Inr (Some (line, f1))"
      and body: "(if stops line then finish line f1
            else res_bind (item (loop n) f1 line) (\<lambda>(x, f'').
              res_bind (loop n f'') (\<lambda>(r, f'''). Inr (add x r, f''')))) = Inl Diverges"
      by (auto simp: loop_Suc res_bind_Inl split: option.splits)
    have f1: "length f1 < n"
      using read_line_shorter [OF r] Suc.prems by simp
    then have fuel: "fuelled (loop n) f1"
      using Suc.IH by (auto simp: fuelled_def)
    have "\<not> stops line" using body finish_fuel by auto
    with body obtain x f2 where i: "item (loop n) f1 line = Inr (x, f2)"
      and l: "loop n f2 = Inl Diverges"
      using item_fuel [OF loop_shrinking fuel] by (auto simp: res_bind_Inl split: prod.splits)
    have "length f2 \<le> length f1" by (rule item_shortens [OF loop_shrinking i])
    with f1 l Suc.IH [of f2] show False by simp
  qed
qed simp

lemma loop_fuel_agree: "length f < n \<Longrightarrow> length f < m \<Longrightarrow> loop n f = loop m f"
proof (induction n arbitrary: f m)
  case (Suc n)
  then obtain k where m: "m = Suc k" by (cases m) auto
  have ag: "agree (loop n) (loop k) f1" if "length f1 < length f" for f1
    using that Suc.prems m by (auto simp: agree_def intro!: Suc.IH)
  have step: "res_bind (item (loop n) f1 line) (\<lambda>(x, f'').
              res_bind (loop n f'') (\<lambda>(r, f'''). Inr (add x r, f'''))) =
         res_bind (item (loop k) f1 line) (\<lambda>(x, f'').
              res_bind (loop k f'') (\<lambda>(r, f'''). Inr (add x r, f''')))"
    if f1: "length f1 < length f" for f1 line
  proof -
    have "item (loop n) f1 line = item (loop k) f1 line"
      by (rule item_agree [OF loop_shrinking ag [OF f1]])
    moreover have "loop n f2 = loop k f2" if "item (loop k) f1 line = Inr (x, f2)" for x f2
      using agreeD [OF ag [OF f1], of f2] item_shortens [OF loop_shrinking that] by simp
    ultimately show ?thesis by (auto intro!: res_bind_cong split: prod.split)
  qed
  show ?case
    unfolding m loop_Suc
    by (rule res_bind_cong)
      (auto split: option.split intro!: step dest: read_line_shorter)
qed simp

text \<open>A property of the results that the end line and every item keep holds of the whole.\<close>

lemma loop_result:
  assumes "\<And>line f r f'. finish line f = Inr (r, f') \<Longrightarrow> newline \<notin> set line \<Longrightarrow> R r"
    and "\<And>g f line x f'. (\<And>f r f'. g f = Inr (r, f') \<Longrightarrow> R r) \<Longrightarrow> item g f line = Inr (x, f') \<Longrightarrow>
      newline \<notin> set line \<Longrightarrow> X x"
    and "\<And>x r. X x \<Longrightarrow> R r \<Longrightarrow> R (add x r)"
  shows "loop n f = Inr (r, f') \<Longrightarrow> R r"
proof (induction n arbitrary: f r f')
  case (Suc n)
  have item: "R (add x r)" if "item (loop n) f' line = Inr (x, f2)" "newline \<notin> set line" "R r" for f' line x f2 r
    using assms(2) [OF Suc.IH that(1,2)] that(3) by (rule assms(3))
  from Suc.prems show ?case
    by (auto simp: loop_Suc split: option.splits if_splits dest!: read_line_no_newline)
      (erule (1) assms(1), erule (1) item, erule Suc.IH)
qed (simp add: loop_0)

end

end
