(* ===== verification/IrParser.thy ===== *)
theory IrParser
  imports LineLoop Ir
begin

text \<open>
  The IR reader of \<^verbatim>\<open>hcc_m1.c\<close>: operands, instructions with their nested lists, terminators,
  blocks, functions and data items. Each function takes the cursor or the file it reads from
  and returns the value it built with the rest. A loop that reads lines takes fuel, one unit
  per line; since every line read shortens the file, a loop started with more fuel than the
  file is long never runs out (\<open>parse_ir_function_terminates\<close> and its relatives).
\<close>

section \<open>Operands\<close>

fun parse_ints :: "nat \<Rightarrow> string \<Rightarrow> (int list \<times> string) res" where
  "parse_ints 0 cursor = Inr ([], cursor)"
| "parse_ints (Suc n) cursor =
     res_bind (parse_int_token cursor) (\<lambda>(b, cursor).
     res_bind (parse_ints n cursor) (\<lambda>(bs, cursor). Inr (b # bs, cursor)))"

definition parse_ir_operand :: "string \<Rightarrow> (Operand \<times> string) res" where
  "parse_ir_operand cursor =
     res_bind (need_token cursor) (\<lambda>(tok, cursor).
     if tok \<noteq> [] \<and> hd tok = CHR ''T'' then
       res_bind (parse_long_text (tl tok)) (\<lambda>v. Inr (OP_TEMP v, cursor))
     else if tok \<noteq> [] \<and> hd tok = CHR ''I'' then
       res_bind (parse_long_text (tl tok)) (\<lambda>v. Inr (OP_IMM v, cursor))
     else if tok \<noteq> [] \<and> hd tok = CHR ''B'' then
       res_bind (parse_long_text (tl tok)) (\<lambda>count.
       res_bind (parse_ints (nat (c_int count)) cursor) (\<lambda>(bytes, cursor).
       Inr (OP_BYTES bytes, cursor)))
     else if tok \<noteq> [] \<and> hd tok = CHR ''G'' then Inr (OP_GLOBAL (tl tok), cursor)
     else if tok \<noteq> [] \<and> hd tok = CHR ''F'' then Inr (OP_FUNC (tl tok), cursor)
     else die_token ''unknown IR operand kind'' tok)"

fun parse_ir_operands :: "nat \<Rightarrow> string \<Rightarrow> (Operand list \<times> string) res" where
  "parse_ir_operands 0 cursor = Inr ([], cursor)"
| "parse_ir_operands (Suc n) cursor =
     res_bind (parse_ir_operand cursor) (\<lambda>(op, cursor).
     res_bind (parse_ir_operands n cursor) (\<lambda>(ops, cursor). Inr (op # ops, cursor)))"

definition parse_ir_result :: "string \<Rightarrow> (int \<times> string) res" where
  "parse_ir_result cursor =
     res_bind (need_token cursor) (\<lambda>(tok, cursor).
     if tok = ''-'' then Inr (-1, cursor)
     else res_bind (parse_long_text tok) (\<lambda>n. Inr (c_int n, cursor)))"

definition parse_ir_prefixed_operand :: "string \<Rightarrow> string \<Rightarrow> Operand res" where
  "parse_ir_prefixed_operand line prefix =
     res_bind (need_token line) (\<lambda>(tok, cursor).
     if tok \<noteq> prefix then die ''unexpected IR operand prefix''
     else res_bind (parse_ir_operand cursor) (\<lambda>(op, cursor). Inr op))"

definition expect_line :: "string \<Rightarrow> string \<Rightarrow> string res" where
  "expect_line file expected =
     res_bind (read_line file LINE_CAP) (\<lambda>r.
     case r of
       None \<Rightarrow> die ''unexpected eof''
     | Some (line, file) \<Rightarrow>
         if line \<noteq> expected then die ''unexpected section marker'' else Inr file)"

section \<open>Instructions\<close>

text \<open>The shapes the cases of \<^verbatim>\<open>parse_ir_instr_line\<close> share.\<close>

definition parse_temp_value :: "(int \<Rightarrow> int \<Rightarrow> Instr) \<Rightarrow> string \<Rightarrow> Instr res" where
  "parse_temp_value mk cursor =
     res_bind (parse_int_token cursor) (\<lambda>(temp, cursor).
     res_bind (parse_long_token cursor) (\<lambda>(value, cursor). Inr (mk temp value)))"

definition parse_temp_operand :: "(int \<Rightarrow> Operand \<Rightarrow> Instr) \<Rightarrow> string \<Rightarrow> Instr res" where
  "parse_temp_operand mk cursor =
     res_bind (parse_int_token cursor) (\<lambda>(temp, cursor).
     res_bind (parse_ir_operand cursor) (\<lambda>(a, cursor). Inr (mk temp a)))"

definition parse_temp_value_operand ::
  "(int \<Rightarrow> int \<Rightarrow> Operand \<Rightarrow> Instr) \<Rightarrow> string \<Rightarrow> Instr res" where
  "parse_temp_value_operand mk cursor =
     res_bind (parse_int_token cursor) (\<lambda>(temp, cursor).
     res_bind (parse_long_token cursor) (\<lambda>(value, cursor).
     res_bind (parse_ir_operand cursor) (\<lambda>(a, cursor). Inr (mk temp value a))))"

definition parse_two_operands :: "(Operand \<Rightarrow> Operand \<Rightarrow> Instr) \<Rightarrow> string \<Rightarrow> Instr res" where
  "parse_two_operands mk cursor =
     res_bind (parse_ir_operand cursor) (\<lambda>(a, cursor).
     res_bind (parse_ir_operand cursor) (\<lambda>(b, cursor). Inr (mk a b)))"

definition parse_cond_section ::
  "(string \<Rightarrow> (Instr list \<times> string) res) \<Rightarrow> string \<Rightarrow> string \<Rightarrow> (Instr list \<times> Operand \<times> string) res" where
  "parse_cond_section instrs_until_end missing file =
     res_bind (expect_line file ''['') (\<lambda>file.
     res_bind (instrs_until_end file) (\<lambda>(instrs, file).
     res_bind (read_line file LINE_CAP) (\<lambda>r.
     case r of
       None \<Rightarrow> die missing
     | Some (sect, file) \<Rightarrow>
         res_bind (parse_ir_prefixed_operand sect ''O'') (\<lambda>op. Inr (instrs, op, file)))))"

definition parse_ir_cond ::
  "(string \<Rightarrow> (Instr list \<times> string) res) \<Rightarrow> string \<Rightarrow> string \<Rightarrow> (Instr \<times> string) res" where
  "parse_ir_cond instrs_until_end file cursor =
     res_bind (parse_int_token cursor) (\<lambda>(temp, cursor).
     res_bind (parse_cond_section instrs_until_end ''missing IR CONDOP'' file) (\<lambda>(cs, co, file).
     res_bind (parse_cond_section instrs_until_end ''missing IR TRUEOP'' file) (\<lambda>(ts, to, file).
     res_bind (parse_cond_section instrs_until_end ''missing IR FALSEOP'' file) (\<lambda>(fs, fo, file).
     res_bind (expect_line file ''Q'') (\<lambda>file.
     Inr (IK_COND temp cs co ts to fs fo, file))))))"

text \<open>
  The \<^verbatim>\<open>switch\<close> over the instruction kinds that read one line only.
\<close>

definition parse_ir_simple :: "int \<Rightarrow> string \<Rightarrow> Instr res" where
  "parse_ir_simple kind cursor =
     (if kind = 1 then parse_temp_value IK_PARAM cursor
      else if kind = 2 then parse_temp_value IK_ALLOCA cursor
      else if kind = 3 then parse_temp_value IK_CONST cursor
      else if kind = 5 then parse_temp_operand IK_COPY cursor
      else if kind = 7 then parse_temp_operand IK_LOAD64 cursor
      else if kind = 8 then parse_temp_operand IK_LOAD32 cursor
      else if kind = 9 then parse_temp_operand IK_LOADS32 cursor
      else if kind = 10 then parse_temp_operand IK_LOAD16 cursor
      else if kind = 11 then parse_temp_operand IK_LOADS16 cursor
      else if kind = 12 then parse_temp_operand IK_LOAD8 cursor
      else if kind = 13 then parse_temp_operand IK_LOADS8 cursor
      else if kind = 22 then parse_temp_value_operand IK_SEXT cursor
      else if kind = 23 then parse_temp_value_operand IK_ZEXT cursor
      else if kind = 24 then parse_temp_value_operand IK_TRUNC cursor
      else if kind = 6 then
        res_bind (parse_int_token cursor) (\<lambda>(temp, cursor).
        res_bind (parse_int_token cursor) (\<lambda>(temp2, cursor). Inr (IK_ADDROF temp temp2)))
      else if kind = 14 then parse_two_operands IK_STORE64 cursor
      else if kind = 15 then parse_two_operands IK_STORE32 cursor
      else if kind = 16 then parse_two_operands IK_STORE16 cursor
      else if kind = 17 then parse_two_operands IK_STORE8 cursor
      else if kind = 18 then
        res_bind (parse_int_token cursor) (\<lambda>(temp, cursor).
        res_bind (parse_int_token cursor) (\<lambda>(binop, cursor).
        parse_two_operands (IK_BIN temp binop) cursor))
      else if kind = 19 then
        res_bind (parse_ir_result cursor) (\<lambda>(result, cursor).
        res_bind (need_token cursor) (\<lambda>(name, cursor).
        res_bind (parse_int_token cursor) (\<lambda>(argc, cursor).
        res_bind (parse_ir_operands (nat argc) cursor) (\<lambda>(args, cursor).
        Inr (IK_CALL result name args)))))
      else if kind = 20 then
        res_bind (parse_ir_result cursor) (\<lambda>(result, cursor).
        res_bind (parse_ir_operand cursor) (\<lambda>(callee, cursor).
        res_bind (parse_int_token cursor) (\<lambda>(argc, cursor).
        res_bind (parse_ir_operands (nat argc) cursor) (\<lambda>(args, cursor).
        Inr (IK_CALLI result callee args)))))
      else die ''unknown IR instruction'')"

definition parse_ir_instr_line_with ::
  "(string \<Rightarrow> (Instr list \<times> string) res) \<Rightarrow> string \<Rightarrow> string \<Rightarrow> (Instr \<times> string) res" where
  "parse_ir_instr_line_with instrs_until_end file line =
     res_bind (need_token line) (\<lambda>(tok, cursor).
     res_bind (parse_long_text tok) (\<lambda>k.
     if c_int k = 21 then parse_ir_cond instrs_until_end file cursor
     else res_bind (parse_ir_simple (c_int k) cursor) (\<lambda>instr. Inr (instr, file))))"

text \<open>
  \<^verbatim>\<open>parse_ir_instr_line\<close> and \<^verbatim>\<open>parse_ir_instrs_until_end\<close> call each other: the first is written over
  the list reader it calls, the second ties the knot.
\<close>

fun parse_ir_instrs_fuel :: "nat \<Rightarrow> string \<Rightarrow> (Instr list \<times> string) res" where
  "parse_ir_instrs_fuel 0 file = Inl Diverges"
| "parse_ir_instrs_fuel (Suc n) file =
     res_bind (read_line file LINE_CAP) (\<lambda>r.
     case r of
       None \<Rightarrow> die ''unexpected eof in IR nested instructions''
     | Some (line, file) \<Rightarrow>
         if line = '']'' then Inr ([], file)
         else
           res_bind (parse_ir_instr_line_with (parse_ir_instrs_fuel n) file line) (\<lambda>(instr, file).
           res_bind (parse_ir_instrs_fuel n file) (\<lambda>(instrs, file).
           Inr (instr # instrs, file))))"

definition parse_ir_instrs_until_end :: "string \<Rightarrow> (Instr list \<times> string) res" where
  "parse_ir_instrs_until_end file = parse_ir_instrs_fuel (Suc (length file)) file"

definition parse_ir_instr_line :: "string \<Rightarrow> string \<Rightarrow> (Instr \<times> string) res" where
  "parse_ir_instr_line file line = parse_ir_instr_line_with parse_ir_instrs_until_end file line"

section \<open>Terminators, blocks, functions\<close>

text \<open>
  In the case \<^verbatim>\<open>R\<close> the code reads the next token to see whether there is one, and then moves the
  cursor back to it. The token has been ended with a NUL, so the operand is parsed from that
  one token: what follows it on the line is lost.
\<close>

definition parse_ir_term :: "string \<Rightarrow> Terminator res" where
  "parse_ir_term line =
     res_bind (need_token line) (\<lambda>(tok, cursor).
     if tok = ''R'' then
       (case fst (next_token cursor) of
          Some tok \<Rightarrow> res_bind (parse_ir_operand tok) (\<lambda>(op, cursor). Inr (TK_RET op))
        | None \<Rightarrow> Inr (TK_RET OP_NONE))
     else if tok = ''J'' then
       res_bind (parse_int_token cursor) (\<lambda>(yes, cursor). Inr (TK_JUMP yes))
     else if tok = ''B'' then
       res_bind (parse_ir_operand cursor) (\<lambda>(op, cursor).
       res_bind (parse_int_token cursor) (\<lambda>(yes, cursor).
       res_bind (parse_int_token cursor) (\<lambda>(no, cursor). Inr (TK_BRANCH op yes no))))
     else if tok = ''C'' then
       res_bind (parse_int_token cursor) (\<lambda>(binop, cursor).
       res_bind (parse_ir_operand cursor) (\<lambda>(a, cursor).
       res_bind (parse_ir_operand cursor) (\<lambda>(b, cursor).
       res_bind (parse_int_token cursor) (\<lambda>(yes, cursor).
       res_bind (parse_int_token cursor) (\<lambda>(no, cursor). Inr (TK_BRANCH_CMP binop a b yes no))))))
     else die ''unknown IR terminator'')"

definition str_prefix_n :: "string \<Rightarrow> string \<Rightarrow> nat \<Rightarrow> bool" where
  "str_prefix_n a b count \<longleftrightarrow> take count a = take count b"

definition is_term_line :: "string \<Rightarrow> bool" where
  "is_term_line line \<longleftrightarrow>
     str_prefix_n line ''R'' 1 \<or> str_prefix_n line ''J '' 2 \<or> str_prefix_n line ''B '' 2 \<or>
     str_prefix_n line ''C '' 2"

fun parse_ir_block_fuel :: "nat \<Rightarrow> string \<Rightarrow> ((Instr list \<times> Terminator) \<times> string) res" where
  "parse_ir_block_fuel 0 file = Inl Diverges"
| "parse_ir_block_fuel (Suc n) file =
     res_bind (read_line file LINE_CAP) (\<lambda>r.
     case r of
       None \<Rightarrow> die ''unexpected eof in IR block''
     | Some (line, file) \<Rightarrow>
         if is_term_line line then
           res_bind (parse_ir_term line) (\<lambda>term. Inr (([], term), file))
         else
           res_bind (parse_ir_instr_line file line) (\<lambda>(instr, file).
           res_bind (parse_ir_block_fuel n file) (\<lambda>((instrs, term), file).
           Inr ((instr # instrs, term), file))))"

definition parse_ir_block :: "string \<Rightarrow> string \<Rightarrow> (Block \<times> string) res" where
  "parse_ir_block file first_line =
     res_bind (need_token first_line) (\<lambda>(tok, cursor).
     if tok \<noteq> ''L'' then die ''expected IR block''
     else
       res_bind (parse_int_token cursor) (\<lambda>(id, cursor).
       res_bind (parse_ir_block_fuel (Suc (length file)) file) (\<lambda>((instrs, term), file).
       Inr (\<lparr>block_id = id, block_instrs = instrs, block_term = term\<rparr>, file))))"

fun parse_ir_function_fuel :: "nat \<Rightarrow> string \<Rightarrow> (Block list \<times> string) res" where
  "parse_ir_function_fuel 0 file = Inl Diverges"
| "parse_ir_function_fuel (Suc n) file =
     res_bind (read_line file LINE_CAP) (\<lambda>r.
     case r of
       None \<Rightarrow> die ''unexpected eof in IR function''
     | Some (line, file) \<Rightarrow>
         if line = ''E'' then Inr ([], file)
         else
           res_bind (parse_ir_block file line) (\<lambda>(block, file).
           res_bind (parse_ir_function_fuel n file) (\<lambda>(blocks, file).
           Inr (block # blocks, file))))"

definition parse_ir_function :: "string \<Rightarrow> string \<Rightarrow> (Function \<times> string) res" where
  "parse_ir_function file first_line =
     res_bind (need_token first_line) (\<lambda>(tok, cursor).
     if tok \<noteq> ''F'' then die ''expected IR function''
     else
       res_bind (need_token cursor) (\<lambda>(name, cursor).
       res_bind (parse_ir_function_fuel (Suc (length file)) file) (\<lambda>(blocks, file).
       Inr (\<lparr>fn_name = name, fn_blocks = blocks\<rparr>, file))))"

section \<open>Data items\<close>

definition append_zero_data_values :: "int \<Rightarrow> DataValue list res" where
  "append_zero_data_values count =
     (if count < 0 then die ''negative zero data run'' else Inr (replicate (nat count) (DV_BYTE 0)))"

definition parse_ir_data_line :: "string \<Rightarrow> DataValue list res" where
  "parse_ir_data_line line =
     res_bind (need_token line) (\<lambda>(tok, cursor).
     if tok = ''z'' then
       res_bind (parse_int_token cursor) (\<lambda>(count, cursor). append_zero_data_values count)
     else if tok = ''b'' then
       res_bind (parse_int_token cursor) (\<lambda>(byte, cursor). Inr [DV_BYTE byte])
     else if tok = ''a'' then
       res_bind (need_token cursor) (\<lambda>(label, cursor). Inr [DV_ADDRESS label])
     else die ''unknown IR data value'')"

fun parse_ir_data_fuel :: "nat \<Rightarrow> string \<Rightarrow> (DataValue list \<times> string) res" where
  "parse_ir_data_fuel 0 file = Inl Diverges"
| "parse_ir_data_fuel (Suc n) file =
     res_bind (read_line file LINE_CAP) (\<lambda>r.
     case r of
       None \<Rightarrow> die ''unexpected eof in IR data''
     | Some (line, file) \<Rightarrow>
         if line = ''E'' then Inr ([], file)
         else
           res_bind (parse_ir_data_line line) (\<lambda>values.
           res_bind (parse_ir_data_fuel n file) (\<lambda>(rest, file).
           Inr (values @ rest, file))))"

definition parse_ir_data_item :: "string \<Rightarrow> string \<Rightarrow> (DataItem \<times> string) res" where
  "parse_ir_data_item file first_line =
     res_bind (need_token first_line) (\<lambda>(tok, cursor).
     if tok \<noteq> ''D'' then die_token ''expected IR data item'' tok
     else
       res_bind (need_token cursor) (\<lambda>(label, cursor).
       res_bind (parse_ir_data_fuel (Suc (length file)) file) (\<lambda>(values, file).
       Inr (\<lparr>item_label = label, item_values = values\<rparr>, file))))"

section \<open>The readers of single items are well behaved\<close>

lemma parse_ints_no_fuel [simp]: "parse_ints n cursor \<noteq> Inl Diverges"
  by (induction n arbitrary: cursor) (auto simp: res_bind_Inl split: prod.splits)

lemma parse_ir_operand_no_fuel [simp]: "parse_ir_operand cursor \<noteq> Inl Diverges"
  by (auto simp: parse_ir_operand_def res_bind_Inl split: prod.splits if_splits)

lemma parse_ir_operands_no_fuel [simp]: "parse_ir_operands n cursor \<noteq> Inl Diverges"
  by (induction n arbitrary: cursor) (auto simp: res_bind_Inl split: prod.splits)

lemma parse_ir_result_no_fuel [simp]: "parse_ir_result cursor \<noteq> Inl Diverges"
  by (auto simp: parse_ir_result_def res_bind_Inl split: prod.splits if_splits)

lemma parse_shapes_no_fuel [simp]:
  "parse_temp_value mk2 cursor \<noteq> Inl Diverges"
  "parse_temp_operand mko cursor \<noteq> Inl Diverges"
  "parse_temp_value_operand mk2o cursor \<noteq> Inl Diverges"
  "parse_two_operands mkoo cursor \<noteq> Inl Diverges"
  by (auto simp: parse_temp_value_def parse_temp_operand_def parse_temp_value_operand_def
      parse_two_operands_def res_bind_Inl split: prod.splits)

lemma parse_ir_simple_no_fuel [simp]: "parse_ir_simple kind cursor \<noteq> Inl Diverges"
  unfolding parse_ir_simple_def
  by (auto simp: res_bind_Inl split: prod.splits if_splits)

lemma parse_ir_prefixed_operand_no_fuel [simp]: "parse_ir_prefixed_operand l p \<noteq> Inl Diverges"
  by (auto simp: parse_ir_prefixed_operand_def res_bind_Inl split: prod.splits if_splits)

lemma expect_line_shorter: "expect_line file l = Inr file' \<Longrightarrow> length file' < length file"
  by (auto simp: expect_line_def split: option.splits if_splits) (rule read_line_shorter)

lemma expect_line_no_fuel [simp]: "expect_line file l \<noteq> Inl Diverges"
  by (auto simp: expect_line_def res_bind_Inl split: option.splits if_splits)

lemma parse_cond_section_shorter:
  assumes "shrinking g" and "parse_cond_section g m file = Inr (is, op, file')"
  shows "length file' < length file"
  using assms
  by (fastforce simp: parse_cond_section_def split: option.splits
      dest: expect_line_shorter shrinkingD read_line_shorter)

lemma parse_cond_section_fuel:
  assumes "shrinking g" and "fuelled g file"
  shows "parse_cond_section g m file \<noteq> Inl Diverges"
proof -
  have "g f \<noteq> Inl Diverges" if "expect_line file l = Inr f" for l f
    using fuelledD [OF assms(2)] expect_line_shorter [OF that] by simp
  then show ?thesis
    by (auto simp: parse_cond_section_def res_bind_Inl split: option.splits prod.splits)
qed

lemma parse_cond_section_agree:
  assumes "agree g h file"
  shows "parse_cond_section g m file = parse_cond_section h m file"
proof -
  have "g f = h f" if "expect_line file l = Inr f" for l f
    using agreeD [OF assms] expect_line_shorter [OF that] by simp
  then show ?thesis
    unfolding parse_cond_section_def by (auto intro!: res_bind_cong)
qed

lemma parse_ir_cond_shorter:
  assumes g: "shrinking g" and run: "parse_ir_cond g file cursor = Inr (i, file')"
  shows "length file' < length file"
  using run
  by (fastforce simp: parse_ir_cond_def dest!: parse_cond_section_shorter [OF g] expect_line_shorter)

lemma parse_ir_cond_fuel:
  assumes g: "shrinking g" and f: "fuelled g file"
  shows "parse_ir_cond g file cursor \<noteq> Inl Diverges"
proof -
  have sec: "parse_cond_section g m file' \<noteq> Inl Diverges" if "length file' \<le> length file" for m file'
    by (rule parse_cond_section_fuel [OF g fuelled_mono [OF f that]])
  show ?thesis
    unfolding parse_ir_cond_def
    by (fastforce simp: res_bind_Inl sec split: prod.splits dest: parse_cond_section_shorter [OF g])
qed

lemma parse_ir_cond_agree:
  assumes g: "shrinking g" and a: "agree g h file"
  shows "parse_ir_cond g file cursor = parse_ir_cond h file cursor"
proof -
  have sec: "parse_cond_section g m f = parse_cond_section h m f" if "length f \<le> length file" for m f
    by (rule parse_cond_section_agree [OF agree_mono [OF a that]])
  have shorter: "length f' \<le> length file"
    if "parse_cond_section h m f = Inr (cs, op, f')" and "length f \<le> length file" for m f f' cs op
    using that parse_cond_section_shorter [OF g, of m f cs op f'] sec [of f m] by simp
  show ?thesis
    unfolding parse_ir_cond_def
    by (auto intro!: res_bind_cong simp: sec dest: shorter)
qed

lemma parse_ir_instr_line_with_shortens:
  assumes "shrinking g" and "parse_ir_instr_line_with g file line = Inr (i, file')"
  shows "length file' \<le> length file"
  using assms
  by (auto simp: parse_ir_instr_line_with_def split: if_splits dest: parse_ir_cond_shorter)

lemma parse_ir_instr_line_with_fuel:
  assumes "shrinking g" and "fuelled g file"
  shows "parse_ir_instr_line_with g file line \<noteq> Inl Diverges"
  using parse_ir_cond_fuel [OF assms]
  by (auto simp: parse_ir_instr_line_with_def res_bind_Inl split: prod.splits if_splits)

lemma parse_ir_instr_line_with_agree:
  assumes "shrinking g" and "agree g h file"
  shows "parse_ir_instr_line_with g file line = parse_ir_instr_line_with h file line"
  using parse_ir_cond_agree [OF assms]
  by (auto simp: parse_ir_instr_line_with_def intro!: res_bind_cong)

section \<open>The four line loops\<close>

interpretation instrs: line_loop parse_ir_instrs_fuel "''unexpected eof in IR nested instructions''"
  "\<lambda>line. line = '']''" "\<lambda>line file. Inr ([], file)" parse_ir_instr_line_with Cons
  by unfold_locales
    (auto intro: parse_ir_instr_line_with_shortens parse_ir_instr_line_with_agree
      dest: parse_ir_instr_line_with_fuel)

declare parse_ir_instrs_fuel.simps [simp del]

lemma instrs_until_end_shrinking: "shrinking parse_ir_instrs_until_end"
  by (auto simp: shrinking_def parse_ir_instrs_until_end_def
      dest: shrinkingD [OF instrs.loop_shrinking])

lemma instrs_until_end_fuelled: "fuelled parse_ir_instrs_until_end file"
  using instrs.loop_enough by (auto simp: fuelled_def parse_ir_instrs_until_end_def)

lemma parse_ir_instr_line_shortens:
  "parse_ir_instr_line file line = Inr (i, file') \<Longrightarrow> length file' \<le> length file"
  unfolding parse_ir_instr_line_def
  by (rule parse_ir_instr_line_with_shortens [OF instrs_until_end_shrinking])

lemma parse_ir_instr_line_no_fuel [simp]: "parse_ir_instr_line file line \<noteq> Inl Diverges"
  unfolding parse_ir_instr_line_def
  by (rule parse_ir_instr_line_with_fuel [OF instrs_until_end_shrinking instrs_until_end_fuelled])

lemma parse_ir_term_no_fuel [simp]: "parse_ir_term line \<noteq> Inl Diverges"
  unfolding parse_ir_term_def
  by (auto simp: res_bind_Inl split: prod.splits if_splits option.splits)

interpretation block: line_loop parse_ir_block_fuel "''unexpected eof in IR block''" is_term_line
  "\<lambda>line file. res_bind (parse_ir_term line) (\<lambda>term. Inr (([], term), file))"
  "\<lambda>_. parse_ir_instr_line" "\<lambda>i (is, t). (i # is, t)"
proof (unfold_locales, goal_cases)
  case (2 n f)
  show ?case
    by (auto intro!: res_bind_cong split: option.split)
qed (auto simp: res_bind_Inl dest: parse_ir_instr_line_shortens)

lemma parse_ir_block_shortens:
  "parse_ir_block file line = Inr (b, file') \<Longrightarrow> length file' \<le> length file"
  by (fastforce simp: parse_ir_block_def simp del: parse_ir_block_fuel.simps split: if_splits
      dest: shrinkingD [OF block.loop_shrinking])

lemma parse_ir_block_no_fuel [simp]: "parse_ir_block file line \<noteq> Inl Diverges"
  using block.loop_enough [of "file" "Suc (length file)"]
  by (auto simp: parse_ir_block_def res_bind_Inl simp del: parse_ir_block_fuel.simps
      split: prod.splits if_splits)

interpretation blocks: line_loop parse_ir_function_fuel "''unexpected eof in IR function''"
  "\<lambda>line. line = ''E''" "\<lambda>line file. Inr ([], file)" "\<lambda>_. parse_ir_block" Cons
  by unfold_locales (auto dest: parse_ir_block_shortens)

lemma parse_ir_data_line_no_fuel [simp]: "parse_ir_data_line line \<noteq> Inl Diverges"
  by (auto simp: parse_ir_data_line_def append_zero_data_values_def res_bind_Inl
      split: prod.splits if_splits)

interpretation data: line_loop parse_ir_data_fuel "''unexpected eof in IR data''"
  "\<lambda>line. line = ''E''" "\<lambda>line file. Inr ([], file)"
  "\<lambda>_ file line. res_bind (parse_ir_data_line line) (\<lambda>vs. Inr (vs, file))" append
proof (unfold_locales, goal_cases)
  case (2 n f)
  show ?case
    by (auto simp: res_bind_assoc intro!: res_bind_cong split: option.split)
qed (auto simp: res_bind_Inl)

lemma parse_ir_function_no_fuel [simp]: "parse_ir_function file line \<noteq> Inl Diverges"
  using blocks.loop_enough [of "file" "Suc (length file)"]
  by (auto simp: parse_ir_function_def res_bind_Inl simp del: parse_ir_function_fuel.simps
      split: prod.splits if_splits)

lemma parse_ir_function_shortens:
  "parse_ir_function file line = Inr (fn, file') \<Longrightarrow> length file' < length file"
  by (auto simp: parse_ir_function_def simp del: parse_ir_function_fuel.simps split: if_splits
      dest: shrinkingD [OF blocks.loop_shrinking])

lemma parse_ir_data_item_no_fuel [simp]: "parse_ir_data_item file line \<noteq> Inl Diverges"
  using data.loop_enough [of "file" "Suc (length file)"]
  by (auto simp: parse_ir_data_item_def res_bind_Inl simp del: parse_ir_data_fuel.simps
      split: prod.splits if_splits)

lemma parse_ir_data_item_shortens:
  "parse_ir_data_item file line = Inr (item, file') \<Longrightarrow> length file' < length file"
  by (auto simp: parse_ir_data_item_def simp del: parse_ir_data_fuel.simps split: if_splits
      dest: shrinkingD [OF data.loop_shrinking])

end
