(* ===== verification/IrTypes.thy ===== *)
theory IrTypes
  imports IrParser
begin

text \<open>
  The types of the fields of the IR. The model holds the \<^verbatim>\<open>int\<close> and \<^verbatim>\<open>long\<close> fields of the structs of
  \<^verbatim>\<open>hcc_m1.c\<close> as unbounded integers; the reader stores only values of these types, names are tokens,
  and the number of elements of every array it counts is an \<^verbatim>\<open>int\<close>.
\<close>

section \<open>Well-typed values\<close>

definition typed_name :: "string \<Rightarrow> bool" where
  "typed_name name \<longleftrightarrow> list_all (\<lambda>c. \<not> is_blank c \<and> c \<noteq> newline) name"

fun typed_operand :: "Operand \<Rightarrow> bool" where
  "typed_operand OP_NONE = True"
| "typed_operand (OP_TEMP t) = long_ok t"
| "typed_operand (OP_IMM v) = long_ok v"
| "typed_operand (OP_BYTES bs) = (list_all int_ok bs \<and> int_ok (int (length bs)))"
| "typed_operand (OP_GLOBAL name) = typed_name name"
| "typed_operand (OP_FUNC name) = typed_name name"

definition typed_operands :: "Operand list \<Rightarrow> bool" where
  "typed_operands ops \<longleftrightarrow> list_all typed_operand ops \<and> int_ok (int (length ops))"

fun typed_instr :: "Instr \<Rightarrow> bool" where
  "typed_instr (IK_PARAM t v) = (int_ok t \<and> long_ok v)"
| "typed_instr (IK_ALLOCA t v) = (int_ok t \<and> long_ok v)"
| "typed_instr (IK_CONST t v) = (int_ok t \<and> long_ok v)"
| "typed_instr (IK_COPY t a) = (int_ok t \<and> typed_operand a)"
| "typed_instr (IK_ADDROF t t2) = (int_ok t \<and> int_ok t2)"
| "typed_instr (IK_LOAD64 t a) = (int_ok t \<and> typed_operand a)"
| "typed_instr (IK_LOAD32 t a) = (int_ok t \<and> typed_operand a)"
| "typed_instr (IK_LOADS32 t a) = (int_ok t \<and> typed_operand a)"
| "typed_instr (IK_LOAD16 t a) = (int_ok t \<and> typed_operand a)"
| "typed_instr (IK_LOADS16 t a) = (int_ok t \<and> typed_operand a)"
| "typed_instr (IK_LOAD8 t a) = (int_ok t \<and> typed_operand a)"
| "typed_instr (IK_LOADS8 t a) = (int_ok t \<and> typed_operand a)"
| "typed_instr (IK_STORE64 a b) = (typed_operand a \<and> typed_operand b)"
| "typed_instr (IK_STORE32 a b) = (typed_operand a \<and> typed_operand b)"
| "typed_instr (IK_STORE16 a b) = (typed_operand a \<and> typed_operand b)"
| "typed_instr (IK_STORE8 a b) = (typed_operand a \<and> typed_operand b)"
| "typed_instr (IK_BIN t binop a b) = (int_ok t \<and> int_ok binop \<and> typed_operand a \<and> typed_operand b)"
| "typed_instr (IK_CALL r name args) = (int_ok r \<and> typed_name name \<and> typed_operands args)"
| "typed_instr (IK_CALLI r callee args) = (int_ok r \<and> typed_operand callee \<and> typed_operands args)"
| "typed_instr (IK_COND t cs co ts to fs fo) =
     (int_ok t \<and> list_all typed_instr cs \<and> typed_operand co \<and> list_all typed_instr ts \<and>
      typed_operand to \<and> list_all typed_instr fs \<and> typed_operand fo)"
| "typed_instr (IK_SEXT t v a) = (int_ok t \<and> long_ok v \<and> typed_operand a)"
| "typed_instr (IK_ZEXT t v a) = (int_ok t \<and> long_ok v \<and> typed_operand a)"
| "typed_instr (IK_TRUNC t v a) = (int_ok t \<and> long_ok v \<and> typed_operand a)"

fun typed_term :: "Terminator \<Rightarrow> bool" where
  "typed_term (TK_RET op) = typed_operand op"
| "typed_term (TK_JUMP yes) = int_ok yes"
| "typed_term (TK_BRANCH op yes no) = (typed_operand op \<and> int_ok yes \<and> int_ok no)"
| "typed_term (TK_BRANCH_CMP binop a b yes no) =
     (int_ok binop \<and> typed_operand a \<and> typed_operand b \<and> int_ok yes \<and> int_ok no)"

definition typed_block :: "Block \<Rightarrow> bool" where
  "typed_block b \<longleftrightarrow>
     int_ok (block_id b) \<and> list_all typed_instr (block_instrs b) \<and> typed_term (block_term b)"

definition typed_function :: "Function \<Rightarrow> bool" where
  "typed_function fn \<longleftrightarrow> typed_name (fn_name fn) \<and> list_all typed_block (fn_blocks fn)"

fun typed_data_value :: "DataValue \<Rightarrow> bool" where
  "typed_data_value (DV_BYTE b) = int_ok b"
| "typed_data_value (DV_ADDRESS label) = typed_name label"

definition typed_data_item :: "DataItem \<Rightarrow> bool" where
  "typed_data_item item \<longleftrightarrow>
     typed_name (item_label item) \<and> list_all typed_data_value (item_values item)"

section \<open>Tokens and operands\<close>

named_theorems typed_rules \<open>what the readers return is well typed\<close>

lemma typed_name_tl: "typed_name name \<Longrightarrow> typed_name (tl name)"
  by (cases name) (simp_all add: typed_name_def)

text \<open>A line, and every rest of it, has no line end.\<close>

definition one_line :: "string \<Rightarrow> bool" where
  "one_line cursor \<longleftrightarrow> newline \<notin> set cursor"

lemma one_line_tl [typed_rules]: "one_line s \<Longrightarrow> one_line (tl s)"
  by (cases s) (simp_all add: one_line_def)

lemma one_line_dropWhile [typed_rules]: "one_line s \<Longrightarrow> one_line (dropWhile p s)"
  by (auto simp: one_line_def dest: set_dropWhileD)

lemma next_token_typed:
  "one_line cursor \<Longrightarrow> next_token cursor = (r, rest) \<Longrightarrow>
   one_line rest \<and> (\<forall>tok. r = Some tok \<longrightarrow> typed_name tok \<and> one_line tok)"
proof (intro conjI allI impI)
  assume line: "one_line cursor" and tok: "next_token cursor = (r, rest)"
  from line tok show "one_line rest"
    by (auto simp: next_token_def Let_def split: if_splits intro!: one_line_tl one_line_dropWhile)
      (simp add: one_line_def)
  fix name assume "r = Some name"
  with tok have "set name \<subseteq> set cursor" "\<forall>c \<in> set name. \<not> is_blank c"
    by (auto simp: next_token_def Let_def split: if_splits dest: set_takeWhileD set_dropWhileD)
  with line show "typed_name name" "one_line name"
    by (auto simp: typed_name_def one_line_def list_all_iff)
qed

lemma need_token_typed [typed_rules]:
  "need_token cursor = Inr (tok, rest) \<Longrightarrow> one_line cursor \<Longrightarrow> typed_name tok"
  "need_token cursor = Inr (tok, rest) \<Longrightarrow> one_line cursor \<Longrightarrow> one_line rest"
  by (cases "next_token cursor"; cases "fst (next_token cursor)";
      auto simp: need_token_def dest: next_token_typed)+

lemma next_token_typed_Some: "fst (next_token cursor) = Some tok \<Longrightarrow> one_line cursor \<Longrightarrow> one_line tok"
  by (cases "next_token cursor") (auto dest: next_token_typed)

lemma parse_long_text_typed [typed_rules]: "parse_long_text tok = Inr n \<Longrightarrow> long_ok n"
  by (auto simp: parse_long_text_def Let_def split: prod.splits if_splits)

lemma parse_long_token_typed [typed_rules]:
  "parse_long_token cursor = Inr (n, rest) \<Longrightarrow> long_ok n"
  "parse_long_token cursor = Inr (n, rest) \<Longrightarrow> one_line cursor \<Longrightarrow> one_line rest"
  by (auto simp: parse_long_token_def) (auto intro: typed_rules)

lemma parse_int_token_typed [typed_rules]:
  "parse_int_token cursor = Inr (n, rest) \<Longrightarrow> int_ok n"
  "parse_int_token cursor = Inr (n, rest) \<Longrightarrow> one_line cursor \<Longrightarrow> one_line rest"
  by (auto simp: parse_int_token_def) (auto intro: typed_rules)

lemma parse_ints_typed:
  "parse_ints n cursor = Inr (bs, rest) \<Longrightarrow> list_all int_ok bs \<and> length bs = n"
  "parse_ints n cursor = Inr (bs, rest) \<Longrightarrow> one_line cursor \<Longrightarrow> one_line rest"
  by (induction n cursor arbitrary: bs rest rule: parse_ints.induct)
    (fastforce dest: parse_int_token_typed)+

lemma int_ok_nat: "int_ok n \<Longrightarrow> int_ok (int (nat n))"
  by (auto simp: int_ok_def)

lemma parse_bytes_typed [typed_rules]:
  "parse_ints (nat (c_int n)) cursor = Inr (bs, rest) \<Longrightarrow> typed_operand (OP_BYTES bs)"
  by (drule parse_ints_typed(1)) (simp add: int_ok_nat del: int_nat_eq)

lemma parse_ir_operand_typed [typed_rules]:
  "parse_ir_operand cursor = Inr (op, rest) \<Longrightarrow> one_line cursor \<Longrightarrow> typed_operand op"
  "parse_ir_operand cursor = Inr (op, rest) \<Longrightarrow> one_line cursor \<Longrightarrow> one_line rest"
  by (auto simp: parse_ir_operand_def split: if_splits simp del: typed_operand.simps(4))
    (auto intro: typed_rules typed_name_tl parse_ints_typed simp del: typed_operand.simps(4))

lemma parse_ir_operands_typed:
  "parse_ir_operands n cursor = Inr (ops, rest) \<Longrightarrow> one_line cursor \<Longrightarrow>
   list_all typed_operand ops \<and> length ops = n"
  by (induction n cursor arbitrary: ops rest rule: parse_ir_operands.induct)
    (fastforce dest: parse_ir_operand_typed)+

lemma parse_ir_args_typed [typed_rules]:
  "parse_ir_operands (nat argc) cursor = Inr (ops, rest) \<Longrightarrow> one_line cursor \<Longrightarrow> int_ok argc \<Longrightarrow>
   typed_operands ops"
  by (drule parse_ir_operands_typed) (simp_all add: typed_operands_def int_ok_nat del: int_nat_eq)

lemma parse_ir_result_typed [typed_rules]:
  "parse_ir_result cursor = Inr (r, rest) \<Longrightarrow> int_ok r"
  "parse_ir_result cursor = Inr (r, rest) \<Longrightarrow> one_line cursor \<Longrightarrow> one_line rest"
  by (auto simp: parse_ir_result_def split: if_splits) (auto simp: int_ok_def intro: typed_rules)

lemma parse_ir_prefixed_operand_typed [typed_rules]:
  "parse_ir_prefixed_operand line p = Inr op \<Longrightarrow> one_line line \<Longrightarrow> typed_operand op"
  by (auto simp: parse_ir_prefixed_operand_def split: if_splits) (auto intro: typed_rules)

lemma read_line_one_line [typed_rules]:
  "read_line file cap = Inr (Some (line, rest)) \<Longrightarrow> one_line line"
  by (simp add: one_line_def read_line_no_newline)

section \<open>Instructions\<close>

lemmas shapes = parse_temp_value_def parse_temp_operand_def parse_temp_value_operand_def parse_two_operands_def

lemma parse_ir_simple_typed: "parse_ir_simple kind cursor = Inr i \<Longrightarrow> one_line cursor \<Longrightarrow> typed_instr i"
  unfolding parse_ir_simple_def shapes
  by (auto split: if_splits) (auto 4 10 intro: typed_rules)

lemma parse_cond_section_typed:
  "(\<And>f is f'. g f = Inr (is, f') \<Longrightarrow> list_all typed_instr is) \<Longrightarrow>
   parse_cond_section g missing file = Inr (is, op, rest) \<Longrightarrow> list_all typed_instr is \<and> typed_operand op"
  by (auto simp: parse_cond_section_def split: option.splits) (auto intro: typed_rules)

lemma parse_ir_instr_line_with_typed:
  assumes "\<And>f is f'. g f = Inr (is, f') \<Longrightarrow> list_all typed_instr is"
    and "parse_ir_instr_line_with g file line = Inr (i, rest)" and "one_line line"
  shows "typed_instr i"
proof -
  have sections: "list_all typed_instr is \<and> typed_operand op"
    if "parse_cond_section g missing f = Inr (is, op, r)" for missing f "is" op r
    using assms(1) that by (rule parse_cond_section_typed)
  from assms(2,3) show ?thesis
    by (auto simp: parse_ir_instr_line_with_def parse_ir_cond_def split: if_splits)
      (auto dest: sections intro: typed_rules parse_ir_simple_typed)
qed

lemma parse_ir_instrs_typed: "parse_ir_instrs_fuel n file = Inr (is, rest) \<Longrightarrow> list_all typed_instr is"
proof (rule instrs.loop_result [where R = "list_all typed_instr" and X = typed_instr])
  show "typed_instr x" if "\<And>f is f'. g f = Inr (is, f') \<Longrightarrow> list_all typed_instr is"
    "parse_ir_instr_line_with g f line = Inr (x, f')" "newline \<notin> set line" for g f line x f'
    using that(1,2) by (rule parse_ir_instr_line_with_typed) (use that(3) in \<open>simp_all add: one_line_def\<close>)
qed auto

lemma parse_ir_instr_line_typed:
  "parse_ir_instr_line file line = Inr (i, rest) \<Longrightarrow> one_line line \<Longrightarrow> typed_instr i"
  unfolding parse_ir_instr_line_def
  by (erule parse_ir_instr_line_with_typed [rotated])
    (auto simp: parse_ir_instrs_until_end_def intro: parse_ir_instrs_typed)

section \<open>Blocks, functions, data\<close>

declare parse_ir_block_fuel.simps [simp del] parse_ir_function_fuel.simps [simp del]
  parse_ir_data_fuel.simps [simp del]

lemma parse_ir_term_typed: "parse_ir_term line = Inr t \<Longrightarrow> one_line line \<Longrightarrow> typed_term t"
  by (auto simp: parse_ir_term_def split: if_splits option.splits)
    (auto 4 10 intro: typed_rules dest: next_token_typed_Some)

lemma parse_ir_block_body_typed:
  "parse_ir_block_fuel n file = Inr ((is, t), rest) \<Longrightarrow> list_all typed_instr is \<and> typed_term t"
proof (drule block.loop_result [where R = "\<lambda>(is, t). list_all typed_instr is \<and> typed_term t" and X = typed_instr,
        rotated 3])
  show "case r of (is, t) \<Rightarrow> list_all typed_instr is \<and> typed_term t"
    if "res_bind (parse_ir_term line) (\<lambda>term. Inr (([], term), f)) = Inr (r, f')" "newline \<notin> set line"
    for line f r f'
    using that by (auto simp: one_line_def intro: parse_ir_term_typed)
qed (auto simp: one_line_def intro: parse_ir_instr_line_typed)

lemma parse_ir_block_typed: "parse_ir_block file line = Inr (b, rest) \<Longrightarrow> one_line line \<Longrightarrow> typed_block b"
  by (auto simp: parse_ir_block_def typed_block_def split: if_splits)
    (auto dest: parse_ir_block_body_typed intro: typed_rules)

lemma parse_ir_blocks_typed: "parse_ir_function_fuel n file = Inr (bs, rest) \<Longrightarrow> list_all typed_block bs"
  by (rule blocks.loop_result [where R = "list_all typed_block" and X = typed_block])
    (auto simp: one_line_def intro: parse_ir_block_typed)

lemma parse_ir_data_line_typed: "parse_ir_data_line line = Inr vs \<Longrightarrow> one_line line \<Longrightarrow> list_all typed_data_value vs"
  by (auto simp: parse_ir_data_line_def append_zero_data_values_def list_all_iff split: if_splits)
    (auto simp: int_ok_def [of 0] intro: typed_rules)

lemma parse_ir_data_typed: "parse_ir_data_fuel n file = Inr (vs, rest) \<Longrightarrow> list_all typed_data_value vs"
  by (rule data.loop_result [where R = "list_all typed_data_value" and X = "list_all typed_data_value"])
    (auto simp: one_line_def intro: parse_ir_data_line_typed)

lemma parse_ir_function_typed: "parse_ir_function file line = Inr (fn, rest) \<Longrightarrow> one_line line \<Longrightarrow> typed_function fn"
  by (auto simp: parse_ir_function_def typed_function_def split: if_splits)
    (auto intro: typed_rules parse_ir_blocks_typed)

text \<open>
  C5. Every function and every data item the reader accepts, from any file and a first line without line
  end, is well typed: each \<^verbatim>\<open>int\<close>
  and \<^verbatim>\<open>long\<close> field holds a value of its type at every depth of the nested lists, names are single
  tokens, and the counts of the arrays fit an \<^verbatim>\<open>int\<close>.
\<close>

theorem parse_ir_typed:
  assumes "one_line line"
  shows "(\<forall>fn rest. parse_ir_function file line = Inr (fn, rest) \<longrightarrow> typed_function fn) \<and>
   (\<forall>item rest. parse_ir_data_item file line = Inr (item, rest) \<longrightarrow> typed_data_item item)"
proof (intro conjI allI impI)
  show "typed_function fn" if "parse_ir_function file line = Inr (fn, rest)" for fn rest
    using that assms by (rule parse_ir_function_typed)
  show "typed_data_item item" if "parse_ir_data_item file line = Inr (item, rest)" for item rest
    using that assms by (auto simp: parse_ir_data_item_def typed_data_item_def split: if_splits)
      (auto intro: typed_rules parse_ir_data_typed)
qed

text \<open>A number that needs 33 bits: the field keeps its low 32 bits.\<close>

theorem parse_ir_typed_witness:
  "\<exists>item rest. parse_ir_data_item (''b 4294967297'' @ [newline] @ ''E'') ''D x'' = Inr (item, rest) \<and>
      item_values item = [DV_BYTE 1] \<and> typed_data_item item"
proof -
  have "parse_ir_data_item (''b 4294967297'' @ [newline] @ ''E'') ''D x'' =
      Inr (\<lparr>item_label = ''x'', item_values = [DV_BYTE 1]\<rparr>, [])"
    by (simp add: parse_ir_data_item_def parse_ir_data_fuel.simps parse_ir_data_line_def need_token_def
        next_token_def is_blank_def read_line_def LINE_CAP_def newline_def carriage_return_def c_string_def
        parse_int_token_def parse_long_text_def is_digit_def c_int_def c_long_def)
  then show ?thesis
    using parse_ir_typed [of "''D x''" "''b 4294967297'' @ [newline] @ ''E''"]
    by (auto simp: one_line_def newline_def)
qed

end
