(* ===== verification/Amd64Code.thy ===== *)
theory Amd64Code
  imports Frame IrTypes
begin

text \<open>
  The single lines of amd64 code and the pieces made of them: loading an operand, storing a temporary,
  operators and extensions, each run at its place in a program, against the IR state.
\<close>

section \<open>Lines\<close>

definition exec :: "site \<Rightarrow> string \<Rightarrow> x86 \<Rightarrow> x86 \<Rightarrow> bool" where
  "exec c t x y \<longleftrightarrow> code_text t \<and> runs (s_address c) (s_spot c) (s_prog c) t x y"

lemma exec_append [intro]: "exec c a x y \<Longrightarrow> exec c b y z \<Longrightarrow> exec c (a @ b) x z"
  unfolding exec_def by (blast intro: code_text_append runs_append)

lemma exec_Nil [simp]: "exec c [] x x"
  by (simp add: exec_def)

lemma exec_run: "code_text t \<Longrightarrow> amd64_exec t x = Some y \<Longrightarrow> exec c t x y"
  by (simp add: exec_def runs_exec)

lemma amd64_hex_no_number: "amd64_hex w = Some h \<Longrightarrow> m1_number w = None"
proof -
  assume "amd64_hex w = Some h"
  then have "(w, h) \<in> set amd64_defines" by (simp add: amd64_hex_map_of map_of_SomeD)
  moreover have "list_all (\<lambda>(w, h). w \<noteq> [] \<and> hd w \<noteq> CHR ''%'') amd64_defines" by code_simp
  ultimately show ?thesis by (auto simp: list_all_iff m1_number_def)
qed

lemma code_text_line:
  assumes "word_ok w" and "m1_number w = None"
  shows "code_text (''  '' @ w @ [newline])" "code_text (''  '' @ w @ '' '' @ r @ [newline])"
  using m1_words_word [OF assms(1)] assms(2)
  by (auto simp: code_text_def whole_lines_def opens_def m1_words_blank)

lemma words_acc_prefix: "acc \<noteq> [] \<Longrightarrow> \<exists>t ws. words_acc acc s = (rev acc @ t) # ws"
proof (induction s arbitrary: acc)
  case (Cons c s)
  show ?case
  proof (cases "c = CHR '' '' \<or> c = newline")
    case False
    from Cons.IH [of "c # acc"] obtain t ws where "words_acc (c # acc) s = (rev (c # acc) @ t) # ws" by auto
    with False show ?thesis by simp
  qed (use Cons.prems in simp)
qed simp

lemma code_text_label: "code_text (CHR '':'' # r @ [newline])"
  using words_acc_prefix [of "'':''" "r @ [newline]"]
  by (auto simp: code_text_def whole_lines_def opens_def m1_words_def m1_number_def newline_def)

lemma exec_plain:
  assumes "word_ok w" and "amd64_hex w = Some h" and "take 4 h \<noteq> ''48B8''" and "x86_plain h x = Some y"
  shows "exec c (''  '' @ w @ [newline]) x y"
proof (rule exec_run)
  show "code_text (''  '' @ w @ [newline])"
    using code_text_line(1) [OF assms(1) amd64_hex_no_number [OF assms(2)]] .
  have "h \<noteq> ''48B8''" using assms(3) by auto
  then show "amd64_exec (''  '' @ w @ [newline]) x = Some y"
    using assms m1_words_word(2) [OF assms(1), of "[]"]
    by (simp add: amd64_exec_def m1_words_blank x86_run_one x86_one_def) (simp add: m1_words_def x86_run_one x86_one_def)
qed

lemma exec_imm:
  assumes "word_ok w" and "amd64_hex w = Some h" and "take 4 h \<noteq> ''48B8''" and "long_ok n"
    and "x86_imm h n x = Some y"
  shows "exec c (''  '' @ w @ '' %'' @ dec n @ [newline]) x y"
proof (rule exec_run)
  show "code_text (''  '' @ w @ '' %'' @ dec n @ [newline])"
    using code_text_line(2) [OF assms(1) amd64_hex_no_number [OF assms(2)], of "CHR ''%'' # dec n"] by simp
  show "amd64_exec (''  '' @ w @ '' %'' @ dec n @ [newline]) x = Some y"
    using amd64_exec_imm_line [OF assms(1-4)] assms(5) by simp
qed

text \<open>The address of a label as an immediate.\<close>

lemma exec_label_value:
  assumes "typed_name l"
  shows "exec c (''  LOAD_IMMEDIATE_rax &'' @ l @ [newline]) x (x\<lparr>rax := label_value (s_address c) l\<rparr>)"
proof -
  let ?w = "''LOAD_IMMEDIATE_rax''"
  have w: "word_ok ?w" "m1_number ?w = None" by (simp_all add: word_ok_def newline_def m1_number_def)
  have "word_ok (CHR ''&'' # l)"
    using assms by (auto simp: word_ok_def typed_name_def list_all_iff is_blank_def newline_def)
  then have words: "m1_words (''  LOAD_IMMEDIATE_rax &'' @ l @ [newline]) = [?w, CHR ''&'' # l]"
    using m1_words_word(1) [OF w(1), of "CHR ''&'' # l @ [newline]"] m1_words_word(2) [of "CHR ''&'' # l" "[]"]
    by (simp add: m1_words_blank) (simp add: m1_words_def)
  have "code_text (''  LOAD_IMMEDIATE_rax &'' @ l @ [newline])"
    using code_text_line(2) [OF w, of "CHR ''&'' # l"] by simp
  moreover have "x86_step A B P (?w # (CHR ''&'' # l) # rest, rets, x) =
      Some (rest, rets, x\<lparr>rax := label_value A l\<rparr>)" for A B P rest rets
    by (simp add: x86_step.simps(2) is_label_def machine_simps)
  ultimately show ?thesis
    unfolding exec_def runs_def words by (simp add: steps_one)
qed

lemma disp_word: "0 \<le> n \<Longrightarrow> n < 2 ^ 31 \<Longrightarrow> word_of_int (signed_take_bit 31 n) = (word_of_int n :: 64 word)"
  by (rule c_int_word) (simp add: int_ok_def)

lemma disp_long: "0 \<le> n \<Longrightarrow> n < 2 ^ 31 \<Longrightarrow> long_ok n"
  by (simp add: long_ok_def)

text \<open>The lines that address the stack.\<close>

lemma exec_stack:
  assumes "0 \<le> n" "n < 2 ^ 31"
  shows "exec c (''  LOAD_RSP_IMMEDIATE_into_rax %'' @ dec n @ [newline]) x
      (x\<lparr>rax := mem_read 8 (mem x) (rsp x + word_of_int n)\<rparr>)"
    "exec c (''  HCC_LOAD_EFFECTIVE_ADDRESS_rax %'' @ dec n @ [newline]) x
      (x\<lparr>rax := rsp x + word_of_int n\<rparr>)"
    "exec c (''  HCC_STORE_RSP_IMMEDIATE_from_rax %'' @ dec n @ [newline]) x
      (x\<lparr>mem := mem_write 8 (mem x) (rsp x + word_of_int n) (rax x)\<rparr>)"
    "exec c (''  HCC_ADD_IMMEDIATE_to_rsp %'' @ dec n @ [newline]) x (x\<lparr>rsp := rsp x + word_of_int n\<rparr>)"
    "exec c (''  HCC_SUB_IMMEDIATE_from_rsp %'' @ dec n @ [newline]) x (x\<lparr>rsp := rsp x - word_of_int n\<rparr>)"
proof -
  note n = disp_long [OF assms] disp_word [OF assms]
  have w: "word_ok ''LOAD_RSP_IMMEDIATE_into_rax''" "word_ok ''HCC_LOAD_EFFECTIVE_ADDRESS_rax''"
    "word_ok ''HCC_STORE_RSP_IMMEDIATE_from_rax''" "word_ok ''HCC_ADD_IMMEDIATE_to_rsp''"
    "word_ok ''HCC_SUB_IMMEDIATE_from_rsp''"
    by (simp_all add: word_ok_def newline_def)
  have h: "amd64_hex ''LOAD_RSP_IMMEDIATE_into_rax'' = Some ''488B8424''"
    "amd64_hex ''HCC_LOAD_EFFECTIVE_ADDRESS_rax'' = Some ''488D8424''"
    "amd64_hex ''HCC_STORE_RSP_IMMEDIATE_from_rax'' = Some ''48898424''"
    "amd64_hex ''HCC_ADD_IMMEDIATE_to_rsp'' = Some ''4881C4''"
    "amd64_hex ''HCC_SUB_IMMEDIATE_from_rsp'' = Some ''4881EC''"
    by (simp_all add: machine_simps)
  show "exec c (''  LOAD_RSP_IMMEDIATE_into_rax %'' @ dec n @ [newline]) x
      (x\<lparr>rax := mem_read 8 (mem x) (rsp x + word_of_int n)\<rparr>)"
    using exec_imm [OF w(1) h(1) _ n(1)] n(2) by (simp add: x86_imm_def Let_def)
  show "exec c (''  HCC_LOAD_EFFECTIVE_ADDRESS_rax %'' @ dec n @ [newline]) x
      (x\<lparr>rax := rsp x + word_of_int n\<rparr>)"
    using exec_imm [OF w(2) h(2) _ n(1)] n(2) by (simp add: x86_imm_def Let_def)
  show "exec c (''  HCC_STORE_RSP_IMMEDIATE_from_rax %'' @ dec n @ [newline]) x
      (x\<lparr>mem := mem_write 8 (mem x) (rsp x + word_of_int n) (rax x)\<rparr>)"
    using exec_imm [OF w(3) h(3) _ n(1)] n(2) by (simp add: x86_imm_def Let_def)
  show "exec c (''  HCC_ADD_IMMEDIATE_to_rsp %'' @ dec n @ [newline]) x (x\<lparr>rsp := rsp x + word_of_int n\<rparr>)"
    using exec_imm [OF w(4) h(4) _ n(1)] n(2) by (simp add: x86_imm_def Let_def)
  show "exec c (''  HCC_SUB_IMMEDIATE_from_rsp %'' @ dec n @ [newline]) x (x\<lparr>rsp := rsp x - word_of_int n\<rparr>)"
    using exec_imm [OF w(5) h(5) _ n(1)] n(2) by (simp add: x86_imm_def Let_def)
qed

lemma exec_add_rax:
  assumes "int_ok n"
  shows "exec c (''  HCC_ADD_IMMEDIATE_to_rax %'' @ dec n @ [newline]) x (x\<lparr>rax := rax x + word_of_int n\<rparr>)"
proof -
  have "word_ok ''HCC_ADD_IMMEDIATE_to_rax''" "amd64_hex ''HCC_ADD_IMMEDIATE_to_rax'' = Some ''4805''"
    by (simp_all add: word_ok_def newline_def machine_simps)
  from exec_imm [OF this _ int_ok_long_ok [OF assms]] show ?thesis
    using c_int_word [OF assms] by (simp add: x86_imm_def Let_def)
qed

lemma code_text_immediate: "code_text (load_immediate_amd64 v)"
  using code_text_line(2) [of "''LOAD_IMMEDIATE_rax''" "CHR ''%'' # dec v"]
    code_text_line(2) [of "''HCC_LOAD_IMMEDIATE64_rax''" "emit_bytes_le 8 0 (word_of_int v)"]
  by (auto simp: load_immediate_amd64_def Let_def word_ok_def newline_def m1_number_def
      simp del: emit_bytes_le.simps)

lemma code_text_immediate_bytes: "code_text (load_immediate_bytes_amd64 bs)"
  using code_text_line(1) [of "''HCC_LI64_80000000''"] code_text_line(1) [of "''HCC_LI64_FFFFFFFF''"]
    code_text_line(2) [of "''HCC_LOAD_IMMEDIATE64_rax''" "byte_list_text bs"]
  by (auto simp: load_immediate_bytes_amd64_def word_ok_def newline_def m1_number_def
      simp del: byte_list_text.simps)

lemma exec_immediate: "long_ok v \<Longrightarrow> exec c (load_immediate_amd64 v) x (x\<lparr>rax := word_of_int v\<rparr>)"
  by (rule exec_run [OF code_text_immediate amd64_immediate_correct])

lemma exec_immediate_bytes:
  "exec c (load_immediate_bytes_amd64 (take 8 (bs @ replicate 8 0))) x (x\<lparr>rax := ir_bytes bs\<rparr>)"
  unfolding ir_bytes_def
  by (rule exec_run [OF code_text_immediate_bytes amd64_immediate_bytes_correct]) simp

section \<open>Loading operands\<close>

text \<open>
  The operand is loaded while \<open>bias\<close> bytes are pushed. If its temporary is one whose store may have been
  left out, its value must still be in RAX. Only RAX changes.
\<close>

definition loadable :: "site \<Rightarrow> int \<Rightarrow> int \<Rightarrow> Operand \<Rightarrow> bool" where
  "loadable c r bias op \<longleftrightarrow>
     typed_operand op \<and>
     (\<forall>u \<in> s_elided c. 0 < operand_uses op u \<longrightarrow> bias = 0 \<and> r = u)"

definition cached :: "site \<Rightarrow> ir_state \<Rightarrow> int \<Rightarrow> 64 word \<Rightarrow> bool" where
  "cached c s r v \<longleftrightarrow> object_at (site_env c) r = None \<and> (\<forall>w. temps s r = Some w \<longrightarrow> w = v)"

definition amd64 :: "Globals \<Rightarrow> bool" where
  "amd64 g \<longleftrightarrow> target_arch g = TARGET_AMD64"

lemma no_temp_negative: "agrees c s m \<Longrightarrow> t < 0 \<Longrightarrow> temps s t = None"
  using agreesD(3) [of c s m t] by (cases "temps s t") (auto simp: stack_temp_def)

lemma cached_none: "agrees c s m \<Longrightarrow> cached c s (- 1) v"
  by (simp add: cached_def no_temp_negative object_site)

lemma object_at_negative [simp]: "object_at (site_env c) (- 1) = None"
  by (simp add: object_site)

lemma lookup_site:
  assumes "lookup_loc (s_locs c) t = Inr loc"
  shows "allocated (s_locs c) t" "loc = s_locs c ! nat t" "0 \<le> t" "t < int (length (s_locs c))"
  using assms by (auto simp: lookup_loc_def allocated_def die_def split: if_splits)

lemma load_operand_runs:
  assumes "amd64 g" "site_ok c" "emit_load_operand g (s_locs c) bias op st = Inr (t, st')"
    and "ir_operand (site_env c) s op = Some v" "loadable c (rax_temp st) bias op"
    and "agrees c s (mem x)" "rsp x = s_base c - word_of_int bias" "cached c s (rax_temp st) (rax x)"
    and "0 \<le> bias" "8 * s_frame c + bias < 2 ^ 31"
  shows "exec c t x (x\<lparr>rax := v\<rparr>) \<and> (\<exists>r. st' = st\<lparr>rax_temp := r\<rparr> \<and> cached c s r v)"
proof (cases op)
  case (OP_TEMP u)
  with assms(4) have u: "int_ok u" "c_int u = u" by (auto split: if_splits)
  from assms(3) OP_TEMP u(2) obtain loc where look: "lookup_loc (s_locs c) u = Inr loc"
    by (cases "lookup_loc (s_locs c) u") (auto simp: emit_load_operand_def)
  note l = lookup_site [OF look]
  have slot: "0 \<le> 8 * loc_slot loc + bias" "8 * loc_slot loc + bias < 2 ^ 31"
    using slot_bounds [OF assms(2) l(1)] assms(9,10) l(2) by simp_all
  note narrow = c_int_small [OF slot]
  have addr: "rsp x + word_of_int (8 * loc_slot loc + bias) = slot_addr c u"
    using assms(7) l(2) by (simp add: slot_addr_def)
  show ?thesis
  proof (cases "loc_kind loc")
    case LOC_NONE
    with look l show ?thesis by (auto simp: allocated_def)
  next
    case LOC_OBJECT
    with l assms(4) OP_TEMP u have "v = slot_addr c u" by (auto simp: object_site)
    with LOC_OBJECT OP_TEMP u assms(1,3,6) look exec_stack(2) [OF slot, of c x] addr show ?thesis
      by (auto simp: emit_load_operand_def emit_load_location_def emit_stack_address_def act_simps act_seq_def amd64_def
          narrow cached_none [OF assms(6)])
  next
    case LOC_STACK
    with l have ob: "object_at (site_env c) u = None" by (auto simp: object_site)
    with assms(4) OP_TEMP u have v: "temps s u = Some v" by simp
    show ?thesis
    proof (cases "bias = 0 \<and> rax_temp st = u")
      case True
      with LOC_STACK OP_TEMP u assms(3,8) look v have "t = []" "st' = st" "rax x = v"
        by (auto simp: emit_load_operand_def act_simps cached_def)
      then show ?thesis using assms(8) by (intro conjI exI [of _ "rax_temp st"]) (auto simp: cached_def)
    next
      case False
      then have "u \<notin> s_elided c" using assms(5) OP_TEMP u(2) by (auto simp: loadable_def operand_uses_def)
      then have "mem_read 8 (mem x) (slot_addr c u) = v" by (rule agreesD(4) [OF assms(6) v])
      with False LOC_STACK OP_TEMP u assms(1,3) look exec_stack(1) [OF slot, of c x] addr v ob narrow show ?thesis
        by (cases "bias = 0")
          (auto simp: emit_load_operand_def emit_load_location_def emit_load_stack_def act_simps act_seq_def amd64_def
            cached_none [OF assms(6)] cached_def no_temp_negative [OF assms(6)] object_at_negative)
    qed
  qed
next
  case (OP_IMM n)
  with assms(5) have "long_ok n" by (simp add: loadable_def)
  with OP_IMM assms(1,3,4) exec_immediate [of n c x] show ?thesis
    by (auto simp: emit_load_operand_def emit_load_immediate_def act_simps act_seq_def amd64_def cached_none [OF assms(6)])
next
  case (OP_BYTES bs)
  with assms(1,3,4) exec_immediate_bytes [of c bs x] show ?thesis
    by (auto simp: emit_load_operand_def emit_load_immediate_bytes_def Let_def act_simps act_seq_def amd64_def
        cached_none [OF assms(6)])
next
  case (OP_GLOBAL name)
  with assms(5) have "typed_name name" by (simp add: loadable_def)
  with OP_GLOBAL assms(1,3,4) exec_label_value [of name c x] show ?thesis
    by (auto simp: emit_load_operand_def act_simps act_seq_def amd64_def cached_none [OF assms(6)])
next
  case (OP_FUNC name)
  with assms(5) have "typed_name (''FUNCTION_'' @ name)"
    by (simp add: loadable_def typed_name_def is_blank_def newline_def)
  with OP_FUNC assms(1,3,4) exec_label_value [of "''FUNCTION_'' @ name" c x] show ?thesis
    by (auto simp: emit_load_operand_def act_simps act_seq_def amd64_def cached_none [OF assms(6)])
qed (use assms(4) in simp)

section \<open>Storing temporaries\<close>

lemma assign_stack:
  assumes "assign (site_env c) t v s = Some s'" "allocated (s_locs c) t"
  shows "stack_temp c t" "s' = s\<lparr>temps := (temps s)(t \<mapsto> v)\<rparr>"
proof -
  show "stack_temp c t"
    using assms by (cases "loc_kind (s_locs c ! nat t)")
      (auto simp: assign_def object_site stack_temp_def allocated_def split: if_splits)
  show "s' = s\<lparr>temps := (temps s)(t \<mapsto> v)\<rparr>"
    using assms(1) by (simp add: assign_def split: if_splits)
qed

lemma store_temp_runs:
  assumes "amd64 g" "site_ok c" "emit_store_temp g (s_locs c) t st = Inr (txt, st')"
    and "agrees c s (mem x)" "rsp x = s_base c" "assign (site_env c) t (rax x) s = Some s'"
    and "omit_store_temp st = t \<longrightarrow> t \<in> s_elided c"
  shows "\<exists>m. exec c txt x (x\<lparr>mem := m\<rparr>) \<and> agrees c s' m \<and> st' = st\<lparr>rax_temp := t\<rparr> \<and> cached c s' t (rax x)"
proof -
  from assms(3) obtain loc where look: "lookup_loc (s_locs c) t = Inr loc"
    by (cases "lookup_loc (s_locs c) t") (auto simp: emit_store_temp_def)
  note l = lookup_site [OF look]
  note t = assign_stack [OF assms(6) l(1)]
  have k: "loc_kind loc = LOC_STACK" using t(1) l(2) by (simp add: stack_temp_def)
  have c: "cached c s' t (rax x)" using t by (simp add: cached_def object_site stack_temp_def)
  show ?thesis
  proof (cases "omit_store_temp st = t")
    case True
    with assms(3,7) look k have "txt = []" "st' = st\<lparr>rax_temp := t\<rparr>" "t \<in> s_elided c"
      by (auto simp: emit_store_temp_def act_simps)
    then show ?thesis
      using agrees_elided [OF assms(4) t(1)] t(2) c by (intro exI [of _ "mem x"]) simp
  next
    case False
    have slot: "0 \<le> 8 * loc_slot loc" "8 * loc_slot loc < 2 ^ 31"
      using slot_bounds [OF assms(2) l(1)] l(2) assms(2) by (simp_all add: site_ok_def stack_top_def)
    have "rsp x + word_of_int (8 * loc_slot loc) = slot_addr c t"
      using assms(5) l(2) by (simp add: slot_addr_def)
    with False assms(1,3) look k exec_stack(3) [OF slot, of c x] agrees_store [OF assms(2,4) t(1), of "rax x"]
    show ?thesis
      by (intro exI [of _ "mem_write 8 (mem x) (slot_addr c t) (rax x)"])
        (auto simp: emit_store_temp_def act_simps act_seq_def amd64_def t(2) c [unfolded t(2)] c_int_small [OF slot])
  qed
qed

section \<open>Operators, extensions, memory\<close>

lemma code_text_binop: "code_text (emit_binop_amd64 op)"
proof (cases "op \<in> {1..23}")
  case True
  then show ?thesis
    by (rule binop_cases; simp add: code_text_def machine_simps opens_def m1_number_def;
        simp add: emit_binop_amd64_def whole_lines_def newline_def)
next
  case False
  then have "emit_binop_amd64 op = []" by (auto simp: emit_binop_amd64_def)
  then show ?thesis by simp
qed

lemma exec_binop:
  assumes "binop_sem op (rbx x) (rax x) = Some v"
  shows "\<exists>y. exec c (emit_binop_amd64 op) x y \<and> rax y = v \<and> rsp y = rsp x \<and> mem y = mem x"
  using amd64_binop_run [OF assms] exec_run [OF code_text_binop] by blast

lemma code_text_literals:
  "code_text ''  HCC_M_RAX_RBX\<newline>''" "code_text ''  XCHG_rax_rbx\<newline>''" "code_text ''  MOVEZX\<newline>''"
  "code_text ''  HCC_ZEXT16_RAX\<newline>''" "code_text ''  HCC_ZEXT32_RAX\<newline>''" "code_text ''  HCC_SEXT8_RAX\<newline>''"
  "code_text ''  HCC_SEXT16_RAX\<newline>''" "code_text ''  HCC_SEXT32_RAX\<newline>''" "code_text ''  HCC_LOAD_INTEGER\<newline>''"
  "code_text ''  HCC_LOAD_WORD\<newline>''" "code_text ''  HCC_LOAD_SIGNED_WORD\<newline>''" "code_text ''  HCC_LOAD_HALF\<newline>''"
  "code_text ''  HCC_LOAD_SIGNED_HALF\<newline>''" "code_text ''  LOAD_BYTE\<newline>  MOVEZX\<newline>''"
  "code_text ''  HCC_LOAD_SIGNED_CHAR\<newline>''" "code_text ''  HCC_STORE_INTEGER\<newline>''"
  "code_text ''  HCC_STORE_WORD\<newline>''" "code_text ''  HCC_STORE_HALF\<newline>''" "code_text ''  HCC_STORE_CHAR\<newline>''"
  "code_text ''  PUSH_RAX\<newline>''" "code_text ''  CMP\<newline>''" "code_text ''  TEST\<newline>''"
  by (simp_all add: code_text_def whole_lines_def opens_def m1_words_def m1_number_def newline_def)

lemma exec_moves:
  "exec c ''  HCC_M_RAX_RBX\<newline>'' x (x\<lparr>rbx := rax x\<rparr>)"
  "exec c ''  XCHG_rax_rbx\<newline>'' x (x\<lparr>rax := rbx x, rbx := rax x\<rparr>)"
  "exec c ''  PUSH_RAX\<newline>'' x (x\<lparr>rsp := rsp x - 8, mem := mem_write 8 (mem x) (rsp x - 8) (rax x)\<rparr>)"
  "exec c ''  CMP\<newline>'' x (x86_flags (rbx x) (rax x) x)"
  "exec c ''  TEST\<newline>'' x (x86_flags (rax x) 0 x)"
  by (rule exec_run; simp add: code_text_literals x86_run_simps m1_words_def newline_def x86_run_one x86_one_def)+

lemma sext_from_low: "take_bit 8 (sext_from 8 v) = take_bit 8 v"
proof (rule bit_word_eqI)
  fix n :: nat
  have "n < 7 \<or> n = 7 \<or> 8 \<le> n" by auto
  then show "bit (take_bit 8 (sext_from 8 v)) n = bit (take_bit 8 v) n"
    by (elim disjE)
      (simp_all add: sext_from_def bit_take_bit_iff bit_of_int_iff bit_signed_take_bit_iff bit_uint_iff min_def)
qed

lemma take_bit_byte: "take_bit 8 (mem_read (Suc 0) m a) = mem_read (Suc 0) m a"
  by (rule bit_word_eqI) (auto simp: bit_take_bit_iff bit_ucast_iff dest: bit_imp_le_length)

lemma exec_loads:
  "exec c ''  HCC_LOAD_INTEGER\<newline>'' x (x\<lparr>rax := mem_read 8 (mem x) (rax x)\<rparr>)"
  "exec c ''  HCC_LOAD_WORD\<newline>'' x (x\<lparr>rax := mem_read 4 (mem x) (rax x)\<rparr>)"
  "exec c ''  HCC_LOAD_SIGNED_WORD\<newline>'' x (x\<lparr>rax := sext_from 32 (mem_read 4 (mem x) (rax x))\<rparr>)"
  "exec c ''  HCC_LOAD_HALF\<newline>'' x (x\<lparr>rax := mem_read 2 (mem x) (rax x)\<rparr>)"
  "exec c ''  HCC_LOAD_SIGNED_HALF\<newline>'' x (x\<lparr>rax := sext_from 16 (mem_read 2 (mem x) (rax x))\<rparr>)"
  "exec c ''  LOAD_BYTE\<newline>  MOVEZX\<newline>'' x (x\<lparr>rax := mem_read 1 (mem x) (rax x)\<rparr>)"
  "exec c ''  HCC_LOAD_SIGNED_CHAR\<newline>'' x (x\<lparr>rax := sext_from 8 (mem_read 1 (mem x) (rax x))\<rparr>)"
  by (rule exec_run; simp add: code_text_literals x86_run_simps m1_words_def newline_def x86_run_one x86_one_def
      sext_from_low take_bit_byte del: mem_read.simps)+

lemma exec_stores:
  "exec c ''  HCC_STORE_INTEGER\<newline>'' x (x\<lparr>mem := mem_write 8 (mem x) (rbx x) (rax x)\<rparr>)"
  "exec c ''  HCC_STORE_WORD\<newline>'' x (x\<lparr>mem := mem_write 4 (mem x) (rbx x) (rax x)\<rparr>)"
  "exec c ''  HCC_STORE_HALF\<newline>'' x (x\<lparr>mem := mem_write 2 (mem x) (rbx x) (rax x)\<rparr>)"
  "exec c ''  HCC_STORE_CHAR\<newline>'' x (x\<lparr>mem := mem_write 1 (mem x) (rbx x) (rax x)\<rparr>)"
  by (rule exec_run; simp add: code_text_literals x86_run_simps m1_words_def newline_def x86_run_one x86_one_def
      del: mem_write.simps)+

lemma exec_zext: "exec c (emit_amd64_zext_loaded_rax w) x (x\<lparr>rax := ir_zext w (rax x)\<rparr>)"
  unfolding emit_amd64_zext_loaded_rax_def ir_zext_def
  by (auto intro!: exec_run simp: code_text_literals)
    (simp_all add: x86_run_simps m1_words_def newline_def x86_run_one x86_one_def)

lemma exec_sext: "exec c (emit_amd64_sext_loaded_rax w) x (x\<lparr>rax := ir_sext w (rax x)\<rparr>)"
  unfolding emit_amd64_sext_loaded_rax_def ir_sext_def
  by (auto intro!: exec_run simp: code_text_literals)
    (simp_all add: x86_run_simps m1_words_def newline_def x86_run_one x86_one_def)

end
