(* ===== verification/Amd64Instr.thy ===== *)
theory Amd64Instr
  imports Amd64Code
begin

text \<open>
  Every instruction that neither branches nor calls: its code takes a processor state that agrees with
  the IR state to one that agrees with the IR state after the instruction.
\<close>

section \<open>The relation\<close>

text \<open>The registers of the first six arguments, and where the others are.\<close>

definition arg_reg :: "nat \<Rightarrow> x86 \<Rightarrow> 64 word" where
  "arg_reg i x =
     (if i = 0 then rdi x else if i = 1 then rsi x else if i = 2 then rdx x
      else if i = 3 then rcx x else if i = 4 then r8 x else r9 x)"

lemma arg_reg_update [simp]:
  "arg_reg i (x\<lparr>rax := v\<rparr>) = arg_reg i x" "arg_reg i (x\<lparr>rbx := v\<rparr>) = arg_reg i x"
  "arg_reg i (x\<lparr>rsp := v\<rparr>) = arg_reg i x" "arg_reg i (x\<lparr>mem := m\<rparr>) = arg_reg i x"
  by (simp_all add: arg_reg_def)

definition param_offset :: "site \<Rightarrow> nat \<Rightarrow> int" where
  "param_offset c i = 8 * s_frame c + 8 + 8 * (int i - 6)"

definition param_addr :: "site \<Rightarrow> nat \<Rightarrow> 64 word" where
  "param_addr c i = s_base c + word_of_int (param_offset c i)"

definition params_in :: "site \<Rightarrow> ir_state \<Rightarrow> x86 \<Rightarrow> bool" where
  "params_in c s x \<longleftrightarrow>
     (\<forall>i < length (incoming s).
        if i < 6 then arg_reg i x = incoming s ! i
        else
          param_offset c i < 2 ^ 31 \<and> (\<forall>a \<in> cells 8 (param_addr c i). s_frozen c a) \<and>
          mem_read 8 (s_mem0 c) (param_addr c i) = incoming s ! i)"

lemma params_inD:
  assumes "params_in c s x" "i < length (incoming s)"
  shows "i < 6 \<Longrightarrow> arg_reg i x = incoming s ! i"
    and "\<not> i < 6 \<Longrightarrow> param_offset c i < 2 ^ 31"
    and "\<not> i < 6 \<Longrightarrow> \<forall>a \<in> cells 8 (param_addr c i). s_frozen c a"
    and "\<not> i < 6 \<Longrightarrow> mem_read 8 (s_mem0 c) (param_addr c i) = incoming s ! i"
  using assms(1) [unfolded params_in_def, rule_format, OF assms(2)] by simp_all

definition sim :: "site \<Rightarrow> int \<Rightarrow> ir_state \<Rightarrow> x86 \<Rightarrow> bool" where
  "sim c r s x \<longleftrightarrow>
     agrees c s (mem x) \<and> rsp x = s_base c \<and> cached c s r (rax x) \<and> params_in c s x"

lemma params_in_none: "incoming s = [] \<Longrightarrow> params_in c s x"
  by (simp add: params_in_def)

lemma sim_agrees: "sim c r s x \<Longrightarrow> agrees c s (mem x)"
  by (simp add: sim_def)

lemma sim_forget: "sim c r s x \<Longrightarrow> sim c (- 1) s x"
  using cached_none by (auto simp: sim_def)

lemma frame_small: "site_ok c \<Longrightarrow> 8 * s_frame c < 2 ^ 31"
  by (simp add: site_ok_def stack_top_def)

lemma load_sim:
  assumes "amd64 g" "site_ok c" "emit_load_operand g (s_locs c) 0 op st = Inr (t, st')"
    and "ir_operand (site_env c) s op = Some v" "loadable c (rax_temp st) 0 op" "sim c (rax_temp st) s x"
  shows "exec c t x (x\<lparr>rax := v\<rparr>)" "sim c (rax_temp st') s (x\<lparr>rax := v\<rparr>)"
    "omit_store_temp st' = omit_store_temp st"
proof -
  have "exec c t x (x\<lparr>rax := v\<rparr>) \<and> (\<exists>r. st' = st\<lparr>rax_temp := r\<rparr> \<and> cached c s r v)"
    using assms frame_small [OF assms(2)] by (intro load_operand_runs [of g c 0]) (simp_all add: sim_def)
  then show "exec c t x (x\<lparr>rax := v\<rparr>)" "sim c (rax_temp st') s (x\<lparr>rax := v\<rparr>)"
    "omit_store_temp st' = omit_store_temp st"
    using assms(6) by (auto simp: sim_def params_in_def)
qed

lemma store_sim:
  assumes "amd64 g" "site_ok c" "emit_store_temp g (s_locs c) t st = Inr (tx, st')"
    and "agrees c s (mem x)" "rsp x = s_base c" "params_in c s x"
    and "assign (site_env c) t (rax x) s = Some s'"
    and "omit_store_temp st = t \<longrightarrow> t \<in> s_elided c"
  shows "\<exists>y. exec c tx x y \<and> sim c (rax_temp st') s' y \<and> rax_temp st' = t \<and>
    omit_store_temp st' = omit_store_temp st"
proof -
  from store_temp_runs [OF assms(1-5,7,8)] obtain m where m: "exec c tx x (x\<lparr>mem := m\<rparr>)" "agrees c s' m"
    "st' = st\<lparr>rax_temp := t\<rparr>" "cached c s' t (rax x)"
    by blast
  have "incoming s' = incoming s" using assms(7) by (auto simp: assign_def split: if_splits)
  then have "params_in c s' (x\<lparr>mem := m\<rparr>)" using assms(6) by (auto simp: params_in_def)
  with m assms(5) show ?thesis by (intro exI [of _ "x\<lparr>mem := m\<rparr>"]) (simp add: sim_def)
qed

text \<open>
  An instruction may use a temporary whose store was left out only as the operand it takes from RAX, and
  only once.
\<close>

definition readable :: "Globals \<Rightarrow> site \<Rightarrow> int \<Rightarrow> Instr \<Rightarrow> bool" where
  "readable g c r i \<longleftrightarrow>
     (\<forall>u \<in> s_elided c. 0 < instr_uses i u \<longrightarrow>
        int_ok u \<and> u = r \<and> instr_uses i u = 1 \<and> instr_consumes_rax_temp g i u)"

definition may_omit :: "site \<Rightarrow> EmitState \<Rightarrow> bool" where
  "may_omit c st \<longleftrightarrow> 0 \<le> omit_store_temp st \<longrightarrow> omit_store_temp st \<in> s_elided c"

lemma may_omitD: "may_omit c st \<Longrightarrow> assign env t v s = Some s' \<Longrightarrow> omit_store_temp st = t \<longrightarrow> t \<in> s_elided c"
  by (auto simp: may_omit_def assign_def split: if_splits)

text \<open>One operand, an operation on RAX, and the result stored.\<close>

lemma unary_step:
  assumes "amd64 g" "site_ok c" "may_omit c st" "incoming s = []"
    and "emit_load_operand g (s_locs c) 0 a st = Inr (t1, st1)"
    and "st2 = st1\<lparr>rax_temp := r\<rparr>" "\<And>x. exec c t2 x (x\<lparr>rax := f (mem x) (rax x)\<rparr>)"
    and "emit_store_temp g (s_locs c) t st2 = Inr (t3, st')"
    and "ir_operand (site_env c) s a = Some v" "loadable c (rax_temp st) 0 a"
    and "sim c (rax_temp st) s x" "assign (site_env c) t (f (mem x) v) s = Some s'"
  shows "\<exists>y. exec c (t1 @ t2 @ t3) x y \<and> sim c (rax_temp st') s' y \<and> rax_temp st' = t \<and>
    omit_store_temp st' = omit_store_temp st"
proof -
  note l = load_sim [OF assms(1,2,5,9,10,11)]
  let ?x = "x\<lparr>rax := v\<rparr>"
  let ?y = "?x\<lparr>rax := f (mem x) v\<rparr>"
  have e: "exec c t2 ?x ?y" using assms(7) [of ?x] by simp
  have o: "omit_store_temp st2 = omit_store_temp st" using l(3) assms(6) by simp
  have "may_omit c st2" using assms(3) o by (simp add: may_omit_def)
  moreover have "agrees c s (mem ?y)" "rsp ?y = s_base c" using assms(11) by (simp_all add: sim_def)
  ultimately obtain z where "exec c t3 ?y z" "sim c (rax_temp st') s' z" "rax_temp st' = t"
    "omit_store_temp st' = omit_store_temp st2"
    using store_sim [OF assms(1,2,8), of s ?y s'] assms(4,12) may_omitD [of c st2 "site_env c" t "f (mem x) v" s s']
    by (auto simp: params_in_none)
  with l(1) e o show ?thesis by (intro exI [of _ z]) auto
qed

section \<open>Instructions with one operand\<close>

lemma readable_unary:
  assumes "readable g c r i" "\<And>u. instr_uses i u = operand_uses a u" "typed_operand a"
  shows "loadable c r 0 a"
  using assms by (auto simp: readable_def loadable_def)

lemma emit_extend_step:
  assumes "amd64 g" "site_ok c" "may_omit c st" "incoming s = []"
    and "emit_extend g (s_locs c) conv t a st = Inr (tx, st')"
    and "conv = seqs [out code, emit_forget_rax]" "\<And>x. exec c code x (x\<lparr>rax := f (rax x)\<rparr>)"
    and "ir_unary (site_env c) t f a s = Some s'" "loadable c (rax_temp st) 0 a"
    and "sim c (rax_temp st) s x"
  shows "\<exists>y. exec c tx x y \<and> sim c (rax_temp st') s' y \<and> rax_temp st' = t \<and>
    omit_store_temp st' = omit_store_temp st"
proof -
  from assms(5,6) obtain t1 st1 t3 where e: "emit_load_operand g (s_locs c) 0 a st = Inr (t1, st1)"
    "emit_store_temp g (s_locs c) t (st1\<lparr>rax_temp := - 1\<rparr>) = Inr (t3, st')" "tx = t1 @ code @ t3"
    by (auto simp: emit_extend_def act_simps act_seq_def)
  from assms(8) obtain v where "ir_operand (site_env c) s a = Some v" "assign (site_env c) t (f v) s = Some s'"
    by (auto simp: ir_unary_def Option.bind_eq_Some_conv)
  from unary_step [OF assms(1-4) e(1) refl assms(7) e(2) this(1) assms(9,10) this(2)] e(3)
  show ?thesis by simp
qed

lemma emit_memory_load_step:
  assumes "amd64 g" "site_ok c" "may_omit c st" "incoming s = []"
    and "emit_memory_load g (s_locs c) t a width sg code32 code st = Inr (tx, st')"
    and "\<And>x. exec c code x (x\<lparr>rax := (if sg then sext_from (8 * n) else id) (mem_read n (mem x) (rax x))\<rparr>)"
    and "ir_load (site_env c) t a n sg s = Some s'" "loadable c (rax_temp st) 0 a"
    and "sim c (rax_temp st) s x"
  shows "\<exists>y. exec c tx x y \<and> sim c (rax_temp st') s' y \<and> rax_temp st' = t \<and>
    omit_store_temp st' = omit_store_temp st"
proof -
  from assms(1,5) obtain t1 st1 t3 where e: "emit_load_operand g (s_locs c) 0 a st = Inr (t1, st1)"
    "emit_store_temp g (s_locs c) t (st1\<lparr>rax_temp := rax_temp st1\<rparr>) = Inr (t3, st')" "tx = t1 @ code @ t3"
    by (auto simp: emit_memory_load_def act_simps act_seq_def amd64_def)
  from assms(7) obtain p where p: "ir_operand (site_env c) s a = Some p"
    "visible (site_env c) n p" "written n (ir_mem s) p"
    "assign (site_env c) t ((if sg then sext_from (8 * n) else id) (ir_read n (ir_mem s) p)) s = Some s'"
    by (auto simp: ir_load_def Option.bind_eq_Some_conv split: if_splits)
  have "mem_read n (mem x) p = ir_read n (ir_mem s) p"
    by (rule agrees_ir_read [OF sim_agrees [OF assms(9)] p(2,3)])
  with unary_step [OF assms(1-4) e(1) refl assms(6) e(2) p(1) assms(8,9)] p(4) e(3)
  show ?thesis by simp
qed

section \<open>Two operands\<close>

lemma load_two:
  assumes "amd64 g" "site_ok c" "incoming s = []"
    and "emit_load_operand g (s_locs c) 0 a st = Inr (t1, st1)"
    and "emit_load_operand g (s_locs c) 0 b st1 = Inr (t2, st2)"
    and "ir_operand (site_env c) s a = Some v" "ir_operand (site_env c) s b = Some w"
    and "loadable c (rax_temp st) 0 a" "\<And>r. loadable c r 0 b" "sim c (rax_temp st) s x"
  shows "exec c (t1 @ ''  HCC_M_RAX_RBX\<newline>'' @ t2) x (x\<lparr>rax := w, rbx := v\<rparr>)"
    "sim c (rax_temp st2) s (x\<lparr>rax := w, rbx := v\<rparr>)" "omit_store_temp st2 = omit_store_temp st"
proof -
  note l = load_sim [OF assms(1,2,4,6,8,10)]
  let ?x = "x\<lparr>rax := v, rbx := v\<rparr>"
  have m: "exec c ''  HCC_M_RAX_RBX\<newline>'' (x\<lparr>rax := v\<rparr>) ?x"
    using exec_moves(1) [of c "x\<lparr>rax := v\<rparr>"] by simp
  have "sim c (rax_temp st1) s ?x" using l(2) assms(3) by (simp add: sim_def params_in_none)
  note k = load_sim [OF assms(1,2,5,7,9) this]
  have same: "?x\<lparr>rax := w\<rparr> = x\<lparr>rax := w, rbx := v\<rparr>" by simp
  show "exec c (t1 @ ''  HCC_M_RAX_RBX\<newline>'' @ t2) x (x\<lparr>rax := w, rbx := v\<rparr>)"
    using exec_append [OF l(1) exec_append [OF m k(1)]] unfolding same .
  show "sim c (rax_temp st2) s (x\<lparr>rax := w, rbx := v\<rparr>)" using k(2) unfolding same .
  show "omit_store_temp st2 = omit_store_temp st" using l(3) k(3) by simp
qed

text \<open>The value of the temporary in RAX goes to RBX first, and both are exchanged.\<close>

lemma load_exchange:
  assumes "amd64 g" "site_ok c" "incoming s = []"
    and "emit_load_operand g (s_locs c) 0 a st = Inr (t1, st1)"
    and "ir_operand (site_env c) s a = Some v" "ir_operand (site_env c) s (OP_TEMP (rax_temp st)) = Some w"
    and "loadable c (rax_temp st) 0 a" "sim c (rax_temp st) s x"
  shows "exec c (''  HCC_M_RAX_RBX\<newline>'' @ t1 @ ''  XCHG_rax_rbx\<newline>'') x (x\<lparr>rax := w, rbx := v\<rparr>)"
    "sim c (- 1) s (x\<lparr>rax := w, rbx := v\<rparr>)" "omit_store_temp st1 = omit_store_temp st"
proof -
  have w: "w = rax x"
    using assms(6,8) by (auto simp: sim_def cached_def split: if_splits)
  let ?x = "x\<lparr>rbx := w\<rparr>"
  have m: "exec c ''  HCC_M_RAX_RBX\<newline>'' x ?x" using exec_moves(1) [of c x] w by simp
  have "sim c (rax_temp st) s ?x" using assms(3,8) by (simp add: sim_def params_in_none)
  note l = load_sim [OF assms(1,2,4,5,7) this]
  have "exec c ''  XCHG_rax_rbx\<newline>'' (?x\<lparr>rax := v\<rparr>) (x\<lparr>rax := w, rbx := v\<rparr>)"
    using exec_moves(2) [of c "?x\<lparr>rax := v\<rparr>"] by simp
  with m l(1) show "exec c (''  HCC_M_RAX_RBX\<newline>'' @ t1 @ ''  XCHG_rax_rbx\<newline>'') x (x\<lparr>rax := w, rbx := v\<rparr>)"
    by (intro exec_append)
  show "sim c (- 1) s (x\<lparr>rax := w, rbx := v\<rparr>)"
    using sim_agrees [OF assms(8)] cached_none [OF sim_agrees [OF assms(8)]] assms(3,8)
    by (simp add: sim_def params_in_none)
  show "omit_store_temp st1 = omit_store_temp st" by (rule l(3))
qed

lemma loadable_unused:
  assumes "typed_operand a" "\<And>u. u \<in> s_elided c \<Longrightarrow> 0 < operand_uses a u \<Longrightarrow> False"
  shows "loadable c r n a"
  using assms by (auto simp: loadable_def)

lemma operand_uses_self: "int_ok u \<Longrightarrow> operand_uses (OP_TEMP u) u = 1"
  by (simp add: operand_uses_def)

lemma readable_two:
  assumes "readable g c r i" "\<And>u. instr_uses i u = operand_uses a u + operand_uses b u"
    and "typed_operand a" "typed_operand b"
    and "\<And>u. int_ok u \<Longrightarrow> u = r \<Longrightarrow> instr_consumes_rax_temp g i u \<Longrightarrow> 0 < operand_uses a u"
  shows "loadable c r 0 a" "loadable c r' 0 b"
proof -
  show "loadable c r 0 a" using assms(1-3) by (auto simp: readable_def loadable_def)
  show "loadable c r' 0 b"
  proof (rule loadable_unused [OF assms(4)])
    fix u assume u: "u \<in> s_elided c" "0 < operand_uses b u"
    with assms(1,2) have "int_ok u" "u = r" "instr_consumes_rax_temp g i u"
      "operand_uses a u + operand_uses b u = 1"
      by (auto simp: readable_def)
    with assms(5) u(2) show False by fastforce
  qed
qed

lemma emit_memory_store_step:
  assumes "amd64 g" "site_ok c" "incoming s = []"
    and "emit_memory_store g (s_locs c) a b width code st = Inr (tx, st')"
    and "\<And>x. exec c code x (x\<lparr>mem := mem_write n (mem x) (rbx x) (rax x)\<rparr>)"
    and "ir_store (site_env c) a b n s = Some s'" "loadable c (rax_temp st) 0 a" "\<And>r. loadable c r 0 b"
    and "sim c (rax_temp st) s x"
  shows "\<exists>y. exec c tx x y \<and> sim c (rax_temp st') s' y \<and> omit_store_temp st' = omit_store_temp st"
proof -
  from assms(1,4) obtain t1 st1 t2 where e: "emit_load_operand g (s_locs c) 0 a st = Inr (t1, st1)"
    "emit_load_operand g (s_locs c) 0 b st1 = Inr (t2, st')" "tx = (t1 @ ''  HCC_M_RAX_RBX\<newline>'' @ t2) @ code"
    by (auto simp: emit_memory_store_def emit_copy_acc_to_scratch_def act_simps act_seq_def amd64_def)
  from assms(6) obtain p v where p: "ir_operand (site_env c) s a = Some p" "ir_operand (site_env c) s b = Some v"
    "visible (site_env c) n p" "s' = s\<lparr>ir_mem := ir_write n (ir_mem s) p v\<rparr>"
    by (auto simp: ir_store_def Option.bind_eq_Some_conv split: if_splits)
  note l = load_two [OF assms(1-3) e(1,2) p(1,2) assms(7,8,9)]
  let ?y = "x\<lparr>rax := v, rbx := p\<rparr>"
  let ?z = "?y\<lparr>mem := mem_write n (mem x) p v\<rparr>"
  have "exec c code ?y ?z" using assms(5) [of ?y] by simp
  moreover have "agrees c s' (mem ?z)"
    unfolding p(4) using agrees_ir_write [OF sim_agrees [OF assms(9)] p(3)] by simp
  then have "sim c (rax_temp st') s' ?z"
    using l(2) assms(3) p(4) by (simp add: sim_def cached_def params_in_none)
  ultimately show ?thesis unfolding e(3) using exec_append [OF l(1)] l(3) by blast
qed

section \<open>Operators\<close>

lemma binop_sem_commutative: "binop_is_commutative op \<Longrightarrow> binop_sem op a b = binop_sem op b a"
  by (auto simp: binop_is_commutative_def binop_sem_def compare_sem_def ac_simps eq_commute [of a b])

lemma emit_bin_operands_step:
  assumes "amd64 g" "site_ok c" "incoming s = []"
    and "emit_bin_operands g (s_locs c) swapped a b st = Inr (t, st')"
    and "ir_operand (site_env c) s a = Some v" "ir_operand (site_env c) s b = Some w"
    and "loadable c (rax_temp st) 0 a"
    and "\<And>r. b \<noteq> OP_TEMP (rax_temp st) \<or> swapped \<Longrightarrow> loadable c r 0 b"
    and "sim c (rax_temp st) s x"
  shows "exec c t x (x\<lparr>rax := w, rbx := v\<rparr>)" "omit_store_temp st' = omit_store_temp st"
proof -
  have "exec c t x (x\<lparr>rax := w, rbx := v\<rparr>) \<and> omit_store_temp st' = omit_store_temp st"
  proof (cases "b = OP_TEMP (rax_temp st) \<and> \<not> swapped")
    case True
    with assms(1,4) obtain t1 st1 where e: "emit_load_operand g (s_locs c) 0 a st = Inr (t1, st1)"
      "t = ''  HCC_M_RAX_RBX\<newline>'' @ t1 @ ''  XCHG_rax_rbx\<newline>''" "st' = st1\<lparr>rax_temp := - 1\<rparr>"
      by (auto simp: emit_bin_operands_def emit_copy_acc_to_scratch_def act_simps act_seq_def amd64_def)
    with load_exchange [OF assms(1-3) e(1) assms(5) _ assms(7,9)] assms(6) True show ?thesis by simp
  next
    case False
    with assms(1,4) obtain t1 st1 t2 where e: "emit_load_operand g (s_locs c) 0 a st = Inr (t1, st1)"
      "emit_load_operand g (s_locs c) 0 b st1 = Inr (t2, st')" "t = t1 @ ''  HCC_M_RAX_RBX\<newline>'' @ t2"
      by (auto simp: emit_bin_operands_def act_simps act_seq_def amd64_def)
    with load_two [OF assms(1-3) e(1,2) assms(5,6,7,8,9)] False show ?thesis by auto
  qed
  then show "exec c t x (x\<lparr>rax := w, rbx := v\<rparr>)" "omit_store_temp st' = omit_store_temp st" by simp_all
qed

lemma store_result:
  assumes "amd64 g" "site_ok c" "may_omit c st" "incoming s = []"
    and "exec c t1 x y" "mem y = mem x" "rsp y = rsp x" "sim c r s x"
    and "emit_store_temp g (s_locs c) t st2 = Inr (t2, st')" "omit_store_temp st2 = omit_store_temp st"
    and "assign (site_env c) t (rax y) s = Some s'"
  shows "\<exists>z. exec c (t1 @ t2) x z \<and> sim c (rax_temp st') s' z \<and> rax_temp st' = t \<and>
    omit_store_temp st' = omit_store_temp st"
proof -
  have "may_omit c st2" using assms(3,10) by (simp add: may_omit_def)
  then obtain z where "exec c t2 y z" "sim c (rax_temp st') s' z" "rax_temp st' = t"
    "omit_store_temp st' = omit_store_temp st2"
    using store_sim [OF assms(1,2,9), of s y s'] assms(4,6-8,11) may_omitD [OF _ assms(11), of c st2]
    by (auto simp: params_in_none sim_def)
  with assms(5,10) show ?thesis by (intro exI [of _ z]) auto
qed

text \<open>The operands in the order in which the code loads them.\<close>

lemma emit_bin_swaps:
  assumes "amd64 g" "readable g c r (IK_BIN t op a b)" "typed_operand a" "typed_operand b"
    and "left = (if add_swap g op a b then b else a)" "right = (if add_swap g op a b then a else b)"
  shows "loadable c r 0 left"
    "right \<noteq> OP_TEMP r \<Longrightarrow> loadable c r' 0 right"
    "binop_is_commutative op \<Longrightarrow> right = OP_TEMP r \<Longrightarrow> \<not> add_swap g op a b"
    "binop_is_commutative op \<Longrightarrow> right = OP_TEMP r \<Longrightarrow> loadable c r'' 0 a"
    "right = OP_TEMP r \<Longrightarrow> loadable c r 0 right"
proof -
  note uses = assms(2) [unfolded readable_def, rule_format, simplified]
  have r: "int_ok u \<and> u = r \<and> operand_uses a u + operand_uses b u = 1 \<and>
      (a = OP_TEMP r \<or> binop_is_commutative op \<and> b = OP_TEMP r)"
    if "u \<in> s_elided c" "0 < operand_uses a u \<or> 0 < operand_uses b u" for u
    using uses [OF that(1)] that(2) by (auto simp: instr_consumes_rax_temp_def)
  have imm: "operand_uses a u = 0" if "add_swap g op a b" for u
    using that by (auto simp: add_swap_def is_imm_def operand_uses_def split: Operand.splits)
  have "loadable c r 0 a" "loadable c r 0 b" using r assms(3,4) by (auto simp: loadable_def)
  then have both: "loadable c r 0 left" "loadable c r 0 right" using assms(5,6) by simp_all
  show "loadable c r 0 left" by (rule both)
  show "right = OP_TEMP r \<Longrightarrow> loadable c r 0 right" by (rule both)
  have no: "\<not> add_swap g op a b" if "right = OP_TEMP r"
    using assms(6) that by (auto simp: add_swap_def is_imm_def split: if_splits)
  then show "binop_is_commutative op \<Longrightarrow> right = OP_TEMP r \<Longrightarrow> \<not> add_swap g op a b" by blast
  show "loadable c r'' 0 a" if "binop_is_commutative op" "right = OP_TEMP r"
  proof (intro loadable_unused)
    fix u assume u: "u \<in> s_elided c" "0 < operand_uses a u"
    have b: "b = OP_TEMP r" using that(2) assms(6) no [OF that(2)] by simp
    have "int_ok r" "u = r" "operand_uses a r + operand_uses b r = 1" using r [OF u(1)] u(2) by blast+
    with u(2) b operand_uses_self [of r] show False by simp
  qed (rule assms(3))
  show "loadable c r' 0 right" if "right \<noteq> OP_TEMP r"
  proof (rule loadable_unused)
    show "typed_operand right" using assms(3,4,6) by simp
    fix u assume u: "u \<in> s_elided c" "0 < operand_uses right u"
    then have b: "right = b" using imm [of u] assms(6) by (cases "add_swap g op a b") simp_all
    have "u = r" using r [OF u(1)] u(2) b by simp
    then have "int_ok r" "operand_uses a r + operand_uses b r = 1" "a = OP_TEMP r"
      using r [OF u(1)] u(2) that b by auto
    with u(2) b \<open>u = r\<close> operand_uses_self [of r] show False by simp
  qed
qed

lemma emit_bin_step:
  assumes "amd64 g" "site_ok c" "may_omit c st" "incoming s = []"
    and "emit_bin g (s_locs c) t op a b st = Inr (tx, st')"
    and "ir_instr (site_env c) (IK_BIN t op a b) s = Some s'"
    and "readable g c (rax_temp st) (IK_BIN t op a b)" "typed_operand a" "typed_operand b"
    and "sim c (rax_temp st) s x"
  shows "\<exists>y. exec c tx x y \<and> sim c (rax_temp st') s' y \<and> rax_temp st' = t \<and>
    omit_store_temp st' = omit_store_temp st"
proof -
  define left where "left = (if add_swap g op a b then b else a)"
  define right where "right = (if add_swap g op a b then a else b)"
  note sw = emit_bin_swaps [OF assms(1,7-9) left_def right_def]
  from assms(6) obtain p q v where v: "ir_operand (site_env c) s a = Some p" "ir_operand (site_env c) s b = Some q"
    "binop_sem op p q = Some v" "assign (site_env c) t v s = Some s'"
    by (auto simp: Option.bind_eq_Some_conv)
  have comm: "add_swap g op a b \<Longrightarrow> binop_is_commutative op"
    by (simp add: add_swap_def binop_is_commutative_def)
  obtain lv rv where lr: "ir_operand (site_env c) s left = Some lv" "ir_operand (site_env c) s right = Some rv"
    "binop_sem op lv rv = Some v"
    using v(1-3) binop_sem_commutative [OF comm, of p q] by (cases "add_swap g op a b") (auto simp: left_def right_def)
  show ?thesis
  proof (cases "add_immediate g op right")
    case (Some n)
    with assms(5) obtain t1 st1 t2 where e: "emit_load_operand g (s_locs c) 0 left st = Inr (t1, st1)"
      "emit_store_temp g (s_locs c) t (st1\<lparr>rax_temp := - 1\<rparr>) = Inr (t2, st')"
      "tx = (t1 @ ''  HCC_ADD_IMMEDIATE_to_rax %'' @ dec (c_int n) @ [newline]) @ t2"
      by (auto simp: emit_bin_def Let_def left_def right_def act_simps act_seq_def)
    from Some have n: "op = BK_ADD" "right = OP_IMM n" "int_ok n"
      by (auto simp: add_immediate_def int_ok_def split: if_splits Operand.splits)
    note l = load_sim [OF assms(1,2) e(1) lr(1) sw(1) assms(10)]
    have "v = lv + word_of_int n" using lr(2,3) n by (simp add: binop_sem_def)
    then have "exec c (t1 @ ''  HCC_ADD_IMMEDIATE_to_rax %'' @ dec (c_int n) @ [newline]) x (x\<lparr>rax := v\<rparr>)"
      using exec_append [OF l(1) exec_add_rax [OF n(3), of c "x\<lparr>rax := lv\<rparr>"]] n(3) by simp
    from store_result [OF assms(1-4) this _ _ assms(10) e(2)] v(4) l(3) e(3) show ?thesis by simp
  next
    case None
    obtain t1 st1 t2 where e:
      "(if binop_is_commutative op \<and> right = OP_TEMP (rax_temp st) then emit_bin_operands g (s_locs c) True b a
        else emit_bin_operands g (s_locs c) (add_swap g op a b) left right) st = Inr (t1, st1)"
      "emit_store_temp g (s_locs c) t st1 = Inr (t2, st')" "tx = (t1 @ emit_binop_amd64 op) @ t2"
      using assms(1,5) None
      by (cases "binop_is_commutative op \<and> right = OP_TEMP (rax_temp st)")
        (auto simp: emit_bin_def Let_def left_def [symmetric] right_def [symmetric] act_simps act_seq_def
          emit_binop_def amd64_def)
    have "\<exists>y. exec c t1 x y \<and> binop_sem op (rbx y) (rax y) = Some v \<and> mem y = mem x \<and> rsp y = rsp x \<and>
        omit_store_temp st1 = omit_store_temp st"
    proof (cases "binop_is_commutative op \<and> right = OP_TEMP (rax_temp st)")
      case True
      note a = sw(3) [OF True [THEN conjunct1] True [THEN conjunct2]]
      have "exec c t1 x (x\<lparr>rax := p, rbx := q\<rparr>)" "omit_store_temp st1 = omit_store_temp st"
        using emit_bin_operands_step [OF assms(1,2,4) _ v(2,1), of True st t1 st1 x] e(1) True sw(4,5) a assms(10)
        by (auto simp: right_def)
      then show ?thesis using v(3) binop_sem_commutative [of op p q] True by (intro exI [of _ "x\<lparr>rax := p, rbx := q\<rparr>"]) simp
    next
      case False
      have sound: "loadable c r' 0 right" if "right \<noteq> OP_TEMP (rax_temp st) \<or> add_swap g op a b" for r'
        using that False comm sw(2) by auto
      have "exec c t1 x (x\<lparr>rax := rv, rbx := lv\<rparr>)" "omit_store_temp st1 = omit_store_temp st"
        using emit_bin_operands_step [OF assms(1,2,4) _ lr(1,2) sw(1) sound assms(10)] e(1) False by auto
      then show ?thesis using lr(3) by (intro exI [of _ "x\<lparr>rax := rv, rbx := lv\<rparr>"]) simp
    qed
    then obtain y where y: "exec c t1 x y" "binop_sem op (rbx y) (rax y) = Some v" "mem y = mem x" "rsp y = rsp x"
      "omit_store_temp st1 = omit_store_temp st" by blast
    from exec_binop [OF y(2), of c] obtain z where z: "exec c (emit_binop_amd64 op) y z" "rax z = v"
      "rsp z = rsp y" "mem z = mem y" by blast
    from store_result [OF assms(1-4) exec_append [OF y(1) z(1)] _ _ assms(10) e(2)] y z v(4) e(3)
    show ?thesis by simp
  qed
qed

section \<open>Constants, addresses, parameters\<close>

lemma const_step:
  assumes "amd64 g" "site_ok c" "may_omit c st" "incoming s = []" "long_ok v"
    and "emit_instr g fn (s_locs c) n (IK_CONST t v) st = Inr (tx, st')"
    and "assign (site_env c) t (word_of_int v) s = Some s'" "sim c r s x"
  shows "\<exists>y. exec c tx x y \<and> sim c (rax_temp st') s' y \<and> rax_temp st' = t \<and>
    omit_store_temp st' = omit_store_temp st"
proof -
  from assms(1,6) obtain t2 where e: "emit_store_temp g (s_locs c) t (st\<lparr>rax_temp := - 1\<rparr>) = Inr (t2, st')"
    "tx = load_immediate_amd64 v @ t2"
    by (auto simp: emit_load_immediate_def act_simps act_seq_def amd64_def)
  from store_result [OF assms(1-4) exec_immediate [OF assms(5)] _ _ assms(8) e(1)] assms(7) e(2)
  show ?thesis by simp
qed

lemma addrof_step:
  assumes "amd64 g" "site_ok c" "may_omit c st" "incoming s = []"
    and "emit_instr g fn (s_locs c) n (IK_ADDROF t t2) st = Inr (tx, st')"
    and "ir_instr (site_env c) (IK_ADDROF t t2) s = Some s'" "sim c r s x"
  shows "\<exists>y. exec c tx x y \<and> sim c (rax_temp st') s' y \<and> rax_temp st' = t \<and>
    omit_store_temp st' = omit_store_temp st"
proof -
  from assms(6) obtain v where v: "object_at (site_env c) t2 = Some v" "assign (site_env c) t v s = Some s'"
    by (auto simp: Option.bind_eq_Some_conv)
  from v(1) have t2: "loc_kind (s_locs c ! nat t2) = LOC_OBJECT" "v = slot_addr c t2" "allocated (s_locs c) t2"
    by (auto simp: object_site allocated_def split: if_splits)
  then have look: "lookup_loc (s_locs c) t2 = Inr (s_locs c ! nat t2)"
    by (simp add: lookup_loc_allocated)
  let ?n = "8 * loc_slot (s_locs c ! nat t2)"
  have slot: "0 \<le> ?n" "?n < 2 ^ 31"
    using slot_bounds [OF assms(2) t2(3)] frame_small [OF assms(2)] by simp_all
  from look t2(1) assms(1,5) obtain t4 where
    e: "emit_store_temp g (s_locs c) t (st\<lparr>rax_temp := - 1\<rparr>) = Inr (t4, st')"
    "tx = (''  HCC_LOAD_EFFECTIVE_ADDRESS_rax %'' @ dec ?n @ [newline]) @ t4"
    by (auto simp: emit_address_of_def emit_stack_address_def act_simps act_seq_def amd64_def c_int_small [OF slot])
  have "rsp x + word_of_int ?n = v" using assms(7) t2(2) by (simp add: slot_addr_def sim_def)
  with store_result [OF assms(1-4) exec_stack(2) [OF slot] _ _ assms(7) e(1)] v(2) e(2)
  show ?thesis by simp
qed

lemma exec_param_moves:
  "exec c ''  HCC_M_RDI_RAX\<newline>'' x (x\<lparr>rax := rdi x\<rparr>)"
  "exec c ''  HCC_COPY_rsi_to_rax\<newline>'' x (x\<lparr>rax := rsi x\<rparr>)"
  "exec c ''  HCC_COPY_rdx_to_rax\<newline>'' x (x\<lparr>rax := rdx x\<rparr>)"
  "exec c ''  HCC_COPY_rcx_to_rax\<newline>'' x (x\<lparr>rax := rcx x\<rparr>)"
  "exec c ''  HCC_COPY_r8_to_rax\<newline>'' x (x\<lparr>rax := r8 x\<rparr>)"
  "exec c ''  HCC_COPY_r9_to_rax\<newline>'' x (x\<lparr>rax := r9 x\<rparr>)"
  by (rule exec_run; simp add: code_text_def whole_lines_def opens_def m1_number_def x86_run_simps m1_words_def newline_def
      x86_run_one x86_one_def)+

lemma exec_param:
  assumes "site_ok c" "params_in c s x" "agrees c s (mem x)" "rsp x = s_base c"
    and "0 \<le> v" "nat v < length (incoming s)" "amd64 g" "emit_param g (s_frame c) v st = Inr (t, st')"
  shows "exec c t x (x\<lparr>rax := incoming s ! nat v\<rparr>) \<and> st' = st"
proof (cases "v < 6")
  case True
  then have "arg_reg (nat v) x = incoming s ! nat v"
    using params_inD(1) [OF assms(2,6)] assms(5) by simp
  moreover have "v = 0 \<or> v = 1 \<or> v = 2 \<or> v = 3 \<or> v = 4 \<or> v = 5" using True assms(5) by linarith
  ultimately show ?thesis
    using assms(7,8) exec_param_moves [of c x]
    by (elim disjE) (auto simp: emit_param_def amd64_def act_simps arg_reg_def)
next
  case False
  then have p: "param_offset c (nat v) < 2 ^ 31" "\<forall>a \<in> cells 8 (param_addr c (nat v)). s_frozen c a"
    "mem_read 8 (s_mem0 c) (param_addr c (nat v)) = incoming s ! nat v"
    using params_inD [OF assms(2,6)] assms(5) by simp_all
  let ?n = "param_offset c (nat v)"
  have n: "0 \<le> ?n" "?n = s_frame c * 8 + 8 + (v - 6) * 8"
    using False assms(1,5) by (simp_all add: param_offset_def site_ok_def)
  have "c_int ?n = ?n" using n(1) p(1) by (intro c_int_id) (simp add: int_ok_def)
  then have e: "t = ''  LOAD_RSP_IMMEDIATE_into_rax %'' @ dec ?n @ [newline]" "st' = st"
    using False assms(7,8) n(2) by (auto simp: emit_param_def amd64_def act_simps)
  have "mem_read 8 (mem x) (param_addr c (nat v)) = incoming s ! nat v"
    using p(2,3) agreesD(2) [OF assms(3)] by (metis mem_read_cong)
  then show ?thesis
    using exec_stack(1) [OF n(1) p(1), of c x] assms(4) e by (simp add: param_addr_def)
qed

lemma param_step:
  assumes "amd64 g" "site_ok c" "may_omit c st"
    and "emit_instr g fn (s_locs c) (s_frame c) (IK_PARAM t v) st = Inr (tx, st')"
    and "ir_instr (site_env c) (IK_PARAM t v) s = Some s'" "sim c r s x"
  shows "\<exists>y. exec c tx x y \<and> sim c (rax_temp st') s' y \<and> rax_temp st' = t \<and>
    omit_store_temp st' = omit_store_temp st"
proof -
  from assms(4) obtain t1 st1 t2 where e: "emit_param g (s_frame c) v st = Inr (t1, st1)"
    "emit_store_temp g (s_locs c) t st1 = Inr (t2, st')" "tx = t1 @ t2"
    by (auto simp: act_simps act_seq_def)
  from assms(5) have v: "0 \<le> v" "nat v < length (incoming s)"
    "assign (site_env c) t (incoming s ! nat v) s = Some s'"
    by (auto split: if_splits)
  have x: "exec c t1 x (x\<lparr>rax := incoming s ! nat v\<rparr>)" "st1 = st"
    using exec_param [OF assms(2) _ _ _ v(1,2) assms(1) e(1)] assms(6) by (auto simp: sim_def)
  have "params_in c s (x\<lparr>rax := incoming s ! nat v\<rparr>)"
    using assms(6) by (auto simp: sim_def params_in_def)
  then obtain y where "exec c t2 (x\<lparr>rax := incoming s ! nat v\<rparr>) y" "sim c (rax_temp st') s' y"
    "rax_temp st' = t" "omit_store_temp st' = omit_store_temp st1"
    using store_sim [OF assms(1,2) e(2), of s "x\<lparr>rax := incoming s ! nat v\<rparr>" s'] v(3) assms(6)
      may_omitD [OF assms(3) v(3)] x(2) by (auto simp: sim_def)
  with x e(3) show ?thesis by (intro exI [of _ y]) auto
qed

section \<open>Every simple instruction\<close>

definition simple_instr :: "Instr \<Rightarrow> bool" where
  "simple_instr i \<longleftrightarrow>
     (case i of IK_COND t cs co ts to fs fo \<Rightarrow> False | IK_CALL r name args \<Rightarrow> False
      | IK_CALLI r f args \<Rightarrow> False | _ \<Rightarrow> True)"

lemma loads_fit:
  assumes "readable g c r i" "typed_instr i"
  shows "i = IK_COPY t a \<or> i = IK_SEXT t v a \<or> i = IK_ZEXT t v a \<or> i = IK_TRUNC t v a \<or> i = IK_LOAD64 t a \<or>
    i = IK_LOAD32 t a \<or> i = IK_LOADS32 t a \<or> i = IK_LOAD16 t a \<or> i = IK_LOADS16 t a \<or> i = IK_LOAD8 t a \<or>
    i = IK_LOADS8 t a \<Longrightarrow> loadable c r 0 a"
  by (rule readable_unary [OF assms(1)]; use assms(2) in auto)

lemma stores_fit:
  assumes "readable g c r i" "typed_instr i"
    and "i = IK_STORE64 a b \<or> i = IK_STORE32 a b \<or> i = IK_STORE16 a b \<or> i = IK_STORE8 a b"
  shows "loadable c r 0 a" "loadable c r' 0 b"
proof -
  have "instr_uses i u = operand_uses a u + operand_uses b u" for u using assms(3) by auto
  moreover have "typed_operand a" "typed_operand b" using assms(2,3) by auto
  moreover have "0 < operand_uses a u" if "int_ok u" "instr_consumes_rax_temp g i u" for u
    using that assms(3) operand_uses_self [of u] by (auto simp: instr_consumes_rax_temp_def)
  ultimately show "loadable c r 0 a" "loadable c r' 0 b" using readable_two [OF assms(1)] by blast+
qed

lemma exec_load_code:
  assumes "(n, sg, code) \<in> {(8, False, ''  HCC_LOAD_INTEGER\<newline>''), (4, False, ''  HCC_LOAD_WORD\<newline>''),
      (4, True, ''  HCC_LOAD_SIGNED_WORD\<newline>''), (2, False, ''  HCC_LOAD_HALF\<newline>''),
      (2, True, ''  HCC_LOAD_SIGNED_HALF\<newline>''), (1, False, ''  LOAD_BYTE\<newline>  MOVEZX\<newline>''),
      (1, True, ''  HCC_LOAD_SIGNED_CHAR\<newline>'')}"
  shows "exec c code x (x\<lparr>rax := (if sg then sext_from (8 * n) else id) (mem_read n (mem x) (rax x))\<rparr>)"
  using assms by (auto simp: exec_loads simp del: One_nat_def mem_read.simps)

lemma amd64_extensions:
  assumes "amd64 g"
  shows "emit_zext_loaded_acc g w = seqs [out (emit_amd64_zext_loaded_rax w), emit_forget_rax]"
    "emit_sext_loaded_acc g w = seqs [out (emit_amd64_sext_loaded_rax w), emit_forget_rax]"
  using assms by (simp_all add: emit_zext_loaded_acc_def emit_sext_loaded_acc_def amd64_def)

lemma copy_extend:
  "emit_instr g fn locs n (IK_COPY t a) st = Inr (tx, st') \<Longrightarrow>
   \<exists>t1 st1 t2. emit_load_operand g locs 0 a st = Inr (t1, st1) \<and>
     emit_store_temp g locs t (st1\<lparr>rax_temp := rax_temp st1\<rparr>) = Inr (t2, st') \<and> tx = t1 @ [] @ t2"
  by (auto simp: act_simps act_seq_def)

lemma simple_step:
  assumes "amd64 g" "site_ok c" "may_omit c st" "simple_instr i" "typed_instr i"
    and "emit_instr g fn (s_locs c) (s_frame c) i st = Inr (tx, st')"
    and "ir_instr (site_env c) i (before i s) = Some s'"
    and "readable g c (rax_temp st) i" "sim c (rax_temp st) s x"
  shows "\<exists>y. exec c tx x y \<and> sim c (rax_temp st') s' y \<and> omit_store_temp st' = omit_store_temp st \<and>
    (0 \<le> instr_def_temp i \<longrightarrow> rax_temp st' = instr_def_temp i)"
proof (cases "\<exists>t v. i = IK_PARAM t v")
  case True
  then obtain t v where i: "i = IK_PARAM t v" by blast
  with param_step [OF assms(1-3) assms(6) [unfolded i] _ assms(9)] assms(7) show ?thesis
    by (auto simp: before_def instr_def_temp_def)
next
  case False
  let ?s = "s\<lparr>incoming := []\<rparr>"
  have s: "before i s = ?s" using False by (cases i) (auto simp: before_def)
  have sim: "sim c (rax_temp st) ?s x"
    using assms(9) by (simp add: sim_def params_in_none cached_def)
  have in0: "incoming ?s = []" by simp
  note run = assms(7) [unfolded s]
  note fit = loads_fit [OF assms(8,5)] and fit2 = stores_fit [OF assms(8,5)]
  show ?thesis
    using assms(4)
  proof (cases i)
    case (IK_COPY t a)
    from copy_extend [OF assms(6) [unfolded IK_COPY]] obtain t1 st1 t2 where
      e: "emit_load_operand g (s_locs c) 0 a st = Inr (t1, st1)"
      "emit_store_temp g (s_locs c) t (st1\<lparr>rax_temp := rax_temp st1\<rparr>) = Inr (t2, st')" "tx = t1 @ [] @ t2"
      by blast
    from run IK_COPY obtain v where v: "ir_operand (site_env c) ?s a = Some v" "assign (site_env c) t v ?s = Some s'"
      by (auto simp: ir_unary_def Option.bind_eq_Some_conv)
    have "loadable c (rax_temp st) 0 a" using fit IK_COPY by blast
    from unary_step [where f = "\<lambda>m v. v" and ?t2.0 = "[]", OF assms(1-3) in0 e(1) refl _ e(2) v(1) this sim v(2)] e(3) IK_COPY show ?thesis
      by (auto simp: instr_def_temp_def)
  next
    case (IK_SEXT t v a)
    then have "emit_extend g (s_locs c) (emit_sext_loaded_acc g (c_int v)) t a st = Inr (tx, st')"
      "ir_unary (site_env c) t (ir_sext (c_int v)) a ?s = Some s'" "loadable c (rax_temp st) 0 a"
      using assms(6) run fit by auto
    from emit_extend_step [OF assms(1-3) in0 this(1) amd64_extensions(2) [OF assms(1)] exec_sext this(2,3) sim] IK_SEXT
    show ?thesis by (auto simp: instr_def_temp_def)
  next
    case (IK_ZEXT t v a)
    then have "emit_extend g (s_locs c) (emit_zext_loaded_acc g (c_int v)) t a st = Inr (tx, st')"
      "ir_unary (site_env c) t (ir_zext (c_int v)) a ?s = Some s'" "loadable c (rax_temp st) 0 a"
      using assms(6) run fit by auto
    from emit_extend_step [OF assms(1-3) in0 this(1) amd64_extensions(1) [OF assms(1)] exec_zext this(2,3) sim] IK_ZEXT
    show ?thesis by (auto simp: instr_def_temp_def)
  next
    case (IK_TRUNC t v a)
    then have "emit_extend g (s_locs c) (emit_zext_loaded_acc g (c_int v)) t a st = Inr (tx, st')"
      "ir_unary (site_env c) t (ir_zext (c_int v)) a ?s = Some s'" "loadable c (rax_temp st) 0 a"
      using assms(6) run fit by auto
    from emit_extend_step [OF assms(1-3) in0 this(1) amd64_extensions(1) [OF assms(1)] exec_zext this(2,3) sim] IK_TRUNC
    show ?thesis by (auto simp: instr_def_temp_def)
  next
    case (IK_CONST t v)
    with const_step [OF assms(1-3) in0 _ assms(6) [unfolded IK_CONST] _ sim] assms(5) run show ?thesis
      by (auto simp: instr_def_temp_def)
  next
    case (IK_ADDROF t t2)
    with addrof_step [OF assms(1-3) in0 assms(6) [unfolded IK_ADDROF] _ sim] run show ?thesis
      by (auto simp: instr_def_temp_def)
  next
    case (IK_BIN t op a b)
    with emit_bin_step [OF assms(1-3) in0 _ _ assms(8) [unfolded IK_BIN] _ _ sim] assms(5,6) run show ?thesis
      by (auto simp: instr_def_temp_def)
  next
    case (IK_ALLOCA t v)
    with assms(6) run sim show ?thesis by (auto simp: instr_def_temp_def intro: exI [of _ x])
  next
    case (IK_LOAD64 t a)
    then have "ir_load (site_env c) t a 8 False ?s = Some s'" "loadable c (rax_temp st) 0 a" using run fit by auto
    from emit_memory_load_step [OF assms(1-3) in0 assms(6) [unfolded IK_LOAD64 emit_instr.simps] exec_load_code this sim]
      IK_LOAD64 show ?thesis by (auto simp: instr_def_temp_def)
  next
    case (IK_LOAD32 t a)
    then have "ir_load (site_env c) t a 4 False ?s = Some s'" "loadable c (rax_temp st) 0 a" using run fit by auto
    from emit_memory_load_step [OF assms(1-3) in0 assms(6) [unfolded IK_LOAD32 emit_instr.simps] exec_load_code this sim]
      IK_LOAD32 show ?thesis by (auto simp: instr_def_temp_def)
  next
    case (IK_LOADS32 t a)
    then have "ir_load (site_env c) t a 4 True ?s = Some s'" "loadable c (rax_temp st) 0 a" using run fit by auto
    from emit_memory_load_step [OF assms(1-3) in0 assms(6) [unfolded IK_LOADS32 emit_instr.simps] exec_load_code this sim]
      IK_LOADS32 show ?thesis by (auto simp: instr_def_temp_def)
  next
    case (IK_LOAD16 t a)
    then have "ir_load (site_env c) t a 2 False ?s = Some s'" "loadable c (rax_temp st) 0 a" using run fit by auto
    from emit_memory_load_step [OF assms(1-3) in0 assms(6) [unfolded IK_LOAD16 emit_instr.simps] exec_load_code this sim]
      IK_LOAD16 show ?thesis by (auto simp: instr_def_temp_def)
  next
    case (IK_LOADS16 t a)
    then have "ir_load (site_env c) t a 2 True ?s = Some s'" "loadable c (rax_temp st) 0 a" using run fit by auto
    from emit_memory_load_step [OF assms(1-3) in0 assms(6) [unfolded IK_LOADS16 emit_instr.simps] exec_load_code this sim]
      IK_LOADS16 show ?thesis by (auto simp: instr_def_temp_def)
  next
    case (IK_LOAD8 t a)
    then have "ir_load (site_env c) t a 1 False ?s = Some s'" "loadable c (rax_temp st) 0 a" using run fit by auto
    from emit_memory_load_step [OF assms(1-3) in0 assms(6) [unfolded IK_LOAD8 emit_instr.simps] exec_load_code this sim]
      IK_LOAD8 show ?thesis by (auto simp: instr_def_temp_def)
  next
    case (IK_LOADS8 t a)
    then have "ir_load (site_env c) t a 1 True ?s = Some s'" "loadable c (rax_temp st) 0 a" using run fit by auto
    from emit_memory_load_step [OF assms(1-3) in0 assms(6) [unfolded IK_LOADS8 emit_instr.simps] exec_load_code this sim]
      IK_LOADS8 show ?thesis by (auto simp: instr_def_temp_def)
  next
    case (IK_STORE64 a b)
    then have "ir_store (site_env c) a b 8 ?s = Some s'" "loadable c (rax_temp st) 0 a" "\<And>r. loadable c r 0 b"
      using run fit2 by auto
    from emit_memory_store_step [OF assms(1,2) in0 assms(6) [unfolded IK_STORE64 emit_instr.simps] exec_stores(1)
        this sim] IK_STORE64 show ?thesis by (auto simp: instr_def_temp_def)
  next
    case (IK_STORE32 a b)
    then have "ir_store (site_env c) a b 4 ?s = Some s'" "loadable c (rax_temp st) 0 a" "\<And>r. loadable c r 0 b"
      using run fit2 by auto
    from emit_memory_store_step [OF assms(1,2) in0 assms(6) [unfolded IK_STORE32 emit_instr.simps] exec_stores(2)
        this sim] IK_STORE32 show ?thesis by (auto simp: instr_def_temp_def)
  next
    case (IK_STORE16 a b)
    then have "ir_store (site_env c) a b 2 ?s = Some s'" "loadable c (rax_temp st) 0 a" "\<And>r. loadable c r 0 b"
      using run fit2 by auto
    from emit_memory_store_step [OF assms(1,2) in0 assms(6) [unfolded IK_STORE16 emit_instr.simps] exec_stores(3)
        this sim] IK_STORE16 show ?thesis by (auto simp: instr_def_temp_def)
  next
    case (IK_STORE8 a b)
    then have "ir_store (site_env c) a b 1 ?s = Some s'" "loadable c (rax_temp st) 0 a" "\<And>r. loadable c r 0 b"
      using run fit2 by auto
    from emit_memory_store_step [OF assms(1,2) in0 assms(6) [unfolded IK_STORE8 emit_instr.simps] exec_stores(4)
        this sim] IK_STORE8 show ?thesis by (auto simp: instr_def_temp_def)
  next
    case (IK_PARAM t v)
    with False show ?thesis by blast
  qed (simp_all add: simple_instr_def)
qed

end
