(* ===== verification/Amd64Text.thy ===== *)
theory Amd64Text
  imports Amd64Code
begin

text \<open>
  Whatever the emitter writes for amd64 is made of whole lines, each a label or an instruction with its
  operands: another piece of code may follow, and the two keep their words.
\<close>

definition emits :: "action \<Rightarrow> bool" where
  "emits a \<longleftrightarrow> (\<forall>st t st'. a st = Inr (t, st') \<longrightarrow> code_text t)"

named_theorems emits_rules \<open>what writes code\<close>

lemma emitsD: "emits a \<Longrightarrow> a st = Inr (t, st') \<Longrightarrow> code_text t"
  by (auto simp: emits_def)

lemma emits_basic [emits_rules]:
  "emits (modify f)" "emits emit_forget_rax" "emits (emit_remember_rax_temp t)" "emits (set_omit t)"
  by (simp_all add: emits_def set_omit_def)

lemma emits_out [emits_rules]: "code_text t \<Longrightarrow> emits (out t)"
  by (simp add: emits_def)

lemma emits_out_res [emits_rules]: "(\<And>t. r = Inr t \<Longrightarrow> code_text t) \<Longrightarrow> emits (out_res r)"
  by (auto simp: emits_def out_res_def)

lemma emits_with_res [emits_rules]: "(\<And>x. r = Inr x \<Longrightarrow> emits (f x)) \<Longrightarrow> emits (with_res r f)"
  by (auto simp: emits_def with_res_def)

lemma emits_with_state [emits_rules]: "(\<And>st. emits (f st)) \<Longrightarrow> emits (with_state f)"
  by (auto simp: emits_def)

lemma emits_when_do [emits_rules]: "(b \<Longrightarrow> emits a) \<Longrightarrow> emits (when_do b a)"
  by (cases b) (auto simp: emits_def)

lemma emits_act_seq [emits_rules]: "emits a \<Longrightarrow> emits b \<Longrightarrow> emits (act_seq a b)"
  unfolding emits_def act_seq_Inr by (blast intro: code_text_append)

lemma code_text_open [emits_rules]:
  assumes "c \<noteq> CHR '' ''" "c \<noteq> newline" "c \<noteq> CHR ''%''" "last (c # s) = newline"
  shows "code_text (CHR '' '' # CHR '' '' # c # s)"
proof -
  have "m1_words (CHR '' '' # CHR '' '' # c # s) = words_acc [c] s"
    using assms by (simp add: m1_words_def)
  then show ?thesis
    using words_acc_prefix [of "[c]" s] assms
    by (auto simp: code_text_def whole_lines_def opens_def m1_number_def)
qed

lemma code_text_empty_line: "code_text [newline]"
  by (simp add: code_text_def whole_lines_def opens_def m1_words_def)

lemmas open_text = code_text_open code_text_literals code_text_binop code_text_immediate code_text_immediate_bytes
  code_text_empty_line

lemma code_text_extend: "code_text (emit_amd64_zext_loaded_rax w)" "code_text (emit_amd64_sext_loaded_rax w)"
  by (simp_all add: emit_amd64_zext_loaded_rax_def emit_amd64_sext_loaded_rax_def code_text_literals)


section \<open>The emitter's parts\<close>


lemma emits_seqs [emits_rules]: "list_all emits as \<Longrightarrow> emits (seqs as)"
  by (induction as rule: seqs.induct) (auto intro: emits_rules open_text)

lemma emits_load_operand [emits_rules]:
  assumes "amd64 g"
  shows "emits (emit_load_operand g locs bias op)" "emits (emit_store_temp g locs t)"
    "emits (emit_address_of g locs t)" "emits (emit_load_immediate g v)"
proof -
  have arch: "target_arch g = TARGET_AMD64" using assms by (simp add: amd64_def)
  show imm: "emits (emit_load_immediate g v)" for v
    by (auto simp: emit_load_immediate_def arch intro!: emits_rules open_text)
  have bytes: "emits (emit_load_immediate_bytes g bs)" for bs
    by (auto simp: emit_load_immediate_bytes_def Let_def arch intro!: emits_rules open_text)
  have loc: "emits (emit_load_location g loc bias)" for loc
    by (cases "loc_kind loc")
      (auto simp: emit_load_location_def emit_load_stack_def emit_stack_address_def arch newline_def
        intro!: emits_rules)
  show "emits (emit_load_operand g locs bias op)"
    by (cases op) (auto simp: emit_load_operand_def arch newline_def intro!: emits_rules imm bytes loc)
  show "emits (emit_store_temp g locs t)"
    by (auto simp: emit_store_temp_def arch newline_def split: LocKind.split intro!: emits_rules)
  show "emits (emit_address_of g locs t)"
    by (auto simp: emit_address_of_def emit_stack_address_def arch newline_def intro!: emits_rules)
qed

lemma emits_extensions [emits_rules]:
  assumes "amd64 g"
  shows "emits (emit_zext_loaded_acc g w)" "emits (emit_sext_loaded_acc g w)"
  using assms by (auto simp: emit_zext_loaded_acc_def emit_sext_loaded_acc_def amd64_def code_text_extend intro!: emits_rules)

lemma code_text_jump_named: "amd64 g \<Longrightarrow> emit_jump_named g p fn n = Inr t \<Longrightarrow> code_text t"
  by (auto simp: emit_jump_named_def amd64_def newline_def intro!: code_text_open)

lemma emits_jumps [emits_rules]:
  assumes "amd64 g"
  shows "emits (emit_truth_jump_named g p fn n b)" "emits (emit_compare g locs a c)"
    "emits (emit_compare_jump g fn op m)" "emits (emit_truth_branch g fn yes no next)"
    "emits (emit_compare_branch g fn op yes no next)"
proof -
  have arch: "target_arch g = TARGET_AMD64" using assms by (simp add: amd64_def)
  have test: "code_text (''  TEST\<newline>'' @ (if b then ''  JUMP_NE %'' else ''  JUMP_EQ %'') @ r @ [newline])" for b r
    by (rule code_text_append [OF code_text_literals(22)]) (auto simp: newline_def intro!: code_text_open)
  show t: "emits (emit_truth_jump_named g p fn n b)" for p n b
    unfolding emit_truth_jump_named_def arch Target.case by (rule emits_out [OF test])
  show "emits (emit_compare g locs a c)"
    by (auto simp: emit_compare_def emit_copy_acc_to_scratch_def arch newline_def intro!: emits_rules assms)
  have name: "c \<noteq> []  \<and> hd c = CHR ''H''" if "jump_name_for_binop op = Inr c" for op c
    using that by (auto simp: jump_name_for_binop_def split: if_splits)
  show c: "emits (emit_compare_jump g fn op m)" for op m
  proof -
    have "code_text (''  '' @ w @ '' %'' @ r @ [newline])" if "jump_name_for_binop op = Inr w" for w r
      using name [OF that] by (cases w) (auto simp: newline_def intro!: code_text_open)
    then show ?thesis
      by (auto simp: emit_compare_jump_def arch intro!: emits_with_res emits_out) 
  qed
  show "emits (emit_truth_branch g fn yes no next)"
    by (auto simp: emit_truth_branch_def emit_truth_jump_def emit_jump_def intro!: emits_rules t dest: code_text_jump_named [OF assms])
  show "emits (emit_compare_branch g fn op yes no next)"
    by (auto simp: emit_compare_branch_def emit_jump_def intro!: emits_rules c dest: code_text_jump_named [OF assms])
qed

lemma emits_arguments [emits_rules]:
  assumes "amd64 g"
  shows "emits (emit_arguments g locs args)"
proof -
  have arch: "target_arch g = TARGET_AMD64" using assms by (simp add: amd64_def)
  have push: "emits (push_args g locs w (Inr ''  PUSH_RAX\<newline>'') k ops)" for w k ops
    by (induction ops arbitrary: k) (auto simp: newline_def intro!: emits_rules assms open_text)
  have move: "emit_argument_move g i = Inr t \<Longrightarrow> code_text t" for i t
    by (auto simp: emit_argument_move_def arch newline_def split: if_splits intro!: code_text_open)
  have load: "emits (load_args g locs bias ops)" for bias ops
  proof (induction ops)
    case (Cons p ops)
    then show ?case by (cases p) (auto intro!: emits_rules assms dest: move)
  qed (simp add: emits_def)
  show ?thesis by (auto simp: emit_arguments_def Let_def arch intro!: emits_rules push load)
qed

lemma code_text_cleanup:
  "amd64 g \<Longrightarrow> emit_call_cleanup g n = Inr t \<Longrightarrow> code_text t"
  "amd64 g \<Longrightarrow> emit_cleanup_stack g n = Inr t \<Longrightarrow> code_text t"
  by (auto simp: emit_call_cleanup_def emit_cleanup_stack_def amd64_def newline_def Let_def split: if_splits
      intro!: code_text_open)

lemma emits_instr_parts [emits_rules]:
  assumes "amd64 g"
  shows "emits (emit_param g n v)" "emits (emit_bin g locs t op a b)"
    "emits (emit_call g locs r name args)" "emits (emit_calli g locs r f args)"
    "emits conv \<Longrightarrow> emits (emit_extend g locs conv t a)"
    "code_text code \<Longrightarrow> emits (emit_memory_load g locs t a w sg code32 code)"
    "code_text code \<Longrightarrow> emits (emit_memory_store g locs a b w code)"
proof -
  have arch: "target_arch g = TARGET_AMD64" using assms by (simp add: amd64_def)
  show "emits (emit_param g n v)"
    by (auto simp: emit_param_def arch newline_def intro!: emits_rules)
  have ops: "emits (emit_bin_operands g locs sw a b)" for sw a b
    by (auto simp: emit_bin_operands_def emit_copy_acc_to_scratch_def arch newline_def intro!: emits_rules assms)
  show "emits (emit_bin g locs t op a b)"
    by (auto simp: emit_bin_def Let_def emit_binop_def arch newline_def split: option.split
        intro!: emits_rules assms ops code_text_binop)
  show "emits (emit_call g locs r name args)"
    by (auto simp: emit_call_def arch newline_def intro!: emits_rules assms dest: code_text_cleanup(1) [OF assms])
  show "emits (emit_calli g locs r f args)"
    by (auto simp: emit_calli_def arch newline_def intro!: emits_rules assms dest: code_text_cleanup(1) [OF assms])
  show "emits conv \<Longrightarrow> emits (emit_extend g locs conv t a)"
    by (auto simp: emit_extend_def intro!: emits_rules assms)
  show "code_text code \<Longrightarrow> emits (emit_memory_load g locs t a w sg code32 code)"
    by (auto simp: emit_memory_load_def arch intro!: emits_rules assms)
  show "code_text code \<Longrightarrow> emits (emit_memory_store g locs a b w code)"
    by (auto simp: emit_memory_store_def emit_copy_acc_to_scratch_def arch newline_def intro!: emits_rules assms)
qed

lemma code_text_named_label: "code_text (emit_named_label p fn n)"
  using code_text_label [of "emit_named_ref p fn n"] by (simp add: emit_named_label_def)

lemma emits_instrs:
  "amd64 g \<Longrightarrow> emits (emit_instr g fn locs n i)" "amd64 g \<Longrightarrow> emits (emit_instrs g fn locs n is f)"
proof (induction g fn locs n i and g fn locs n "is" f rule: emit_instr_emit_instrs.induct)
  case (23 g fn locs n t cs co ts to fs fo)
  then show ?case
    by (auto intro!: emits_rules code_text_named_label dest: code_text_jump_named)
qed (auto intro!: emits_rules open_text simp: newline_def)

end
