(* ===== verification/Amd64Calls.thy ===== *)
theory Amd64Calls
  imports Amd64Instr Amd64Text
begin

text \<open>
  Calls: arguments are pushed and put into registers, control goes to the function and comes back, and
  the stack is cleaned up. What a called function does is a contract the caller relies on.
\<close>

section \<open>Texts that reach a state with a property\<close>

definition reaches :: "site \<Rightarrow> string \<Rightarrow> x86 \<Rightarrow> (x86 \<Rightarrow> bool) \<Rightarrow> bool" where
  "reaches c t x Q \<longleftrightarrow>
     code_text t \<and>
     (\<forall>pre rest rets. s_prog c = pre @ m1_words t @ rest \<longrightarrow> opens rest \<longrightarrow>
        (\<exists>y. Q y \<and> steps (s_address c) (s_spot c) (s_prog c) (m1_words t @ rest, rets, x) (rest, rets, y)))"

lemma reachesD:
  assumes "reaches c t x Q" "s_prog c = pre @ m1_words t @ rest" "opens rest"
  obtains y where "Q y"
    "steps (s_address c) (s_spot c) (s_prog c) (m1_words t @ rest, rets, x) (rest, rets, y)"
  using assms unfolding reaches_def by blast

lemma exec_reaches: "exec c t x y \<Longrightarrow> Q y \<Longrightarrow> reaches c t x Q"
  unfolding exec_def reaches_def runs_def by blast

lemma reaches_mono: "reaches c t x Q \<Longrightarrow> (\<And>y. Q y \<Longrightarrow> R y) \<Longrightarrow> reaches c t x R"
  unfolding reaches_def by blast

lemma reaches_append:
  assumes a: "reaches c a x Q" and b: "\<And>y. Q y \<Longrightarrow> reaches c b y R" and t: "code_text b"
  shows "reaches c (a @ b) x R"
  unfolding reaches_def
proof (intro conjI allI impI)
  have ta: "code_text a" using a by (simp add: reaches_def)
  then show "code_text (a @ b)" using t by (rule code_text_append)
  have w: "m1_words (a @ b) = m1_words a @ m1_words b" using ta by (simp add: code_text_def m1_words_lines)
  fix pre rest rets
  assume P: "s_prog c = pre @ m1_words (a @ b) @ rest" and "opens rest"
  then have "opens (m1_words b @ rest)" using t by (simp add: code_text_def opens_append)
  moreover have P1: "s_prog c = pre @ m1_words a @ m1_words b @ rest" using P w by simp
  ultimately obtain y where y: "Q y" "steps (s_address c) (s_spot c) (s_prog c)
      (m1_words a @ m1_words b @ rest, rets, x) (m1_words b @ rest, rets, y)"
    using reachesD [OF a] by blast
  have P2: "s_prog c = (pre @ m1_words a) @ m1_words b @ rest" using P1 by simp
  obtain z where z: "R z" "steps (s_address c) (s_spot c) (s_prog c) (m1_words b @ rest, rets, y) (rest, rets, z)"
    using reachesD [OF b [OF y(1)] P2 \<open>opens rest\<close>] by blast
  from z(1) steps_trans [OF y(2) z(2)]
  show "\<exists>y. R y \<and> steps (s_address c) (s_spot c) (s_prog c) (m1_words (a @ b) @ rest, rets, x) (rest, rets, y)"
    unfolding w by auto
qed

lemma exec_reaches_append:
  assumes "exec c a x y" "reaches c b y R"
  shows "reaches c (a @ b) x R"
proof (rule reaches_append)
  show "reaches c a x ((=) y)" by (rule exec_reaches [OF assms(1) refl])
  show "code_text b" using assms(2) by (simp add: reaches_def)
qed (use assms(2) in simp)

section \<open>The contract of a called function\<close>

text \<open>
  On entry the return address and the arguments from the seventh on are above the stack pointer, in bytes
  the function must keep; it may use the stack down to the limit.
\<close>

definition stack_arg :: "64 word \<Rightarrow> nat \<Rightarrow> 64 word" where
  "stack_arg sp i = sp + word_of_int (8 + 8 * (int i - 6))"

definition entry_ok ::
    "(string list \<Rightarrow> 64 word) \<Rightarrow> 64 word \<Rightarrow> (64 word \<Rightarrow> bool) \<Rightarrow> 64 word \<Rightarrow> 64 word list \<Rightarrow> bytes \<Rightarrow>
     string list \<Rightarrow> x86 \<Rightarrow> bool" where
  "entry_ok spot limit frozen sp args m ret x \<longleftrightarrow>
     rsp x = sp \<and> mem_read 8 (mem x) sp = spot ret \<and> (\<forall>a \<in> cells 8 sp. frozen a) \<and>
     uint limit \<le> uint sp \<and> uint sp + 8 + pushed_bytes (length args) < 2 ^ 64 \<and>
     uint sp + 8 + pushed_bytes (length args) - uint limit < 2 ^ 31 \<and>
     (\<forall>a. frozen a \<longrightarrow> \<not> (uint limit \<le> uint a \<and> uint a < uint sp)) \<and>
     (\<forall>a b. m a = Some b \<longrightarrow> \<not> frozen a \<longrightarrow> \<not> (limit \<le> a \<and> a < sp) \<longrightarrow> mem x a = b) \<and>
     (\<forall>i < length args.
        (i < 6 \<longrightarrow> arg_reg i x = args ! i) \<and>
        (6 \<le> i \<longrightarrow> (\<forall>a \<in> cells 8 (stack_arg sp i). frozen a) \<and> mem_read 8 (mem x) (stack_arg sp i) = args ! i))"

definition exit_ok ::
    "64 word \<Rightarrow> (64 word \<Rightarrow> bool) \<Rightarrow> 64 word \<Rightarrow> 64 word \<Rightarrow> bytes \<Rightarrow> x86 \<Rightarrow> x86 \<Rightarrow> bool" where
  "exit_ok limit frozen sp v m x y \<longleftrightarrow>
     rax y = v \<and> rsp y = sp + 8 \<and> (\<forall>a. frozen a \<longrightarrow> mem y a = mem x a) \<and>
     (\<forall>a b. m a = Some b \<longrightarrow> \<not> frozen a \<longrightarrow> \<not> (limit \<le> a \<and> a < sp) \<longrightarrow> mem y a = b)"

definition body_ok ::
    "(string \<Rightarrow> int) \<Rightarrow> (string list \<Rightarrow> 64 word) \<Rightarrow> string list \<Rightarrow> 64 word \<Rightarrow> caller \<Rightarrow> bool" where
  "body_ok address spot prog limit call \<longleftrightarrow>
     (\<forall>frozen sp name args m v m' x ret rets.
        call frozen sp name args m = Some (v, m') \<longrightarrow> entry_ok spot limit frozen sp args m ret x \<longrightarrow>
        (\<exists>place y. after_label (''FUNCTION_'' @ name) prog = Some place \<and>
           steps address spot prog (place, ret # rets, x) (ret, rets, y) \<and>
           exit_ok limit frozen sp v m' x y))"

text \<open>
  A program is linked for a function when labels are unique, the addresses of the functions lead to
  them, and calls keep the contract.
\<close>

definition linked :: "(string \<Rightarrow> int) \<Rightarrow> string list \<Rightarrow> string list \<Rightarrow> bool" where
  "linked address prog names \<longleftrightarrow>
     distinct (filter is_label prog) \<and>
     (\<forall>name \<in> set names.
        at_address address (label_value address (''FUNCTION_'' @ name)) prog =
        after_label (''FUNCTION_'' @ name) prog)"

definition prog_ok :: "site \<Rightarrow> bool" where
  "prog_ok c \<longleftrightarrow>
     linked (s_address c) (s_prog c) (s_names c) \<and>
     body_ok (s_address c) (s_spot c) (s_prog c) (s_limit c) (s_call c)"

section \<open>Below the frame\<close>

lemma cells_bounds:
  assumes "uint p + int n \<le> 2 ^ 64" "a \<in> cells n p"
  shows "uint p \<le> uint a" "uint a < uint p + int n"
proof -
  obtain i where i: "i < n" "a = p + of_nat i" using assms(2) by (auto simp: cells_def)
  have p: "0 \<le> uint p" by simp
  with i(1) assms(1) have "int i < 2 ^ 64" by linarith
  then have "uint (of_nat i :: 64 word) = int i"
    by (simp add: unsigned_of_nat take_bit_eq_mod mod_pos_pos_trivial)
  with p i assms(1) have "uint a = uint p + int i"
    by (simp add: uint_word_ariths mod_pos_pos_trivial)
  with i(1) show "uint p \<le> uint a" "uint a < uint p + int n" by simp_all
qed

lemma below_base:
  assumes "0 \<le> n" "uint l + n \<le> uint b"
  shows "uint (b - word_of_int n :: 64 word) = uint b - n"
proof -
  have "0 \<le> uint l" "uint b < 2 ^ 64" using uint_lt2p [of b] by simp_all
  with assms have n: "n < 2 ^ 64" "0 \<le> uint b - n" "uint b - n < 2 ^ 64" by linarith+
  then have "uint (word_of_int n :: 64 word) = n"
    using assms(1) by (simp only: uint_word_of_int) (simp add: mod_pos_pos_trivial)
  with n show ?thesis by (simp only: uint_word_ariths) (simp add: mod_pos_pos_trivial)
qed

lemma slot_byte_bounds:
  assumes "site_ok c" "slot_byte (s_locs c) (s_base c) a"
  shows "uint (s_base c) \<le> uint a" "uint a < stack_top c"
proof -
  obtain i where i: "i < length (s_locs c)" "loc_kind (s_locs c ! i) = LOC_STACK"
    "a - (s_base c + word_of_int (8 * loc_slot (s_locs c ! i))) < 8"
    using assms(2) by (auto simp: slot_byte_def list_ex_iff in_set_conv_nth)
  have t: "allocated (s_locs c) (int i)" using i by (simp add: allocated_def)
  define k where "k = a - slot_addr c (int i)"
  have k: "k < 8" "a = slot_addr c (int i) + k" using i(3) by (simp_all add: k_def slot_addr_def)
  then have "a = slot_addr c (int i) + of_nat (unat k)" "unat k < 8" by (simp_all add: word_less_nat_alt)
  then have "a \<in> cells 8 (slot_addr c (int i))" by (auto simp only: cells_def lessThan_iff)
  from slot_cells [OF assms(1) t this] slot_bounds(1) [OF assms(1) t]
  show "uint (s_base c) \<le> uint a" "uint a < stack_top c" by simp_all
qed

lemma below_not_kept:
  assumes "site_ok c" "uint (s_limit c) \<le> uint a" "uint a < uint (s_base c)"
  shows "\<not> s_frozen c a" "\<not> slot_byte (s_locs c) (s_base c) a" "hidden (site_env c) a"
proof -
  have "uint a < stack_top c" using assms by (simp add: site_ok_def stack_top_def)
  then show "\<not> s_frozen c a" using assms by (auto simp: site_ok_def)
  show "\<not> slot_byte (s_locs c) (s_base c) a" using slot_byte_bounds(1) [OF assms(1)] assms(3) by force
  show "hidden (site_env c) a" using assms(2,3) by (simp add: hidden_site word_le_def word_less_def)
qed

lemma agrees_below:
  assumes "site_ok c" "agrees c s m" "\<And>a. a \<in> cells n p \<Longrightarrow> uint (s_limit c) \<le> uint a \<and> uint a < uint (s_base c)"
  shows "agrees c s (mem_write n m p v)"
proof -
  have "agrees c (s\<lparr>ir_mem := ir_mem s\<rparr>) (mem_write n m p v)"
  proof (rule agrees_other_write [OF assms(2)])
    show "\<not> s_frozen c a \<and> \<not> slot_byte (s_locs c) (s_base c) a" if "a \<in> cells n p" for a
      using below_not_kept [OF assms(1)] assms(3) [OF that] by simp
    show "mem_write n m p v a = b" if "ir_mem s a = Some b" "\<not> hidden (site_env c) a" for a b
      using that below_not_kept(3) [OF assms(1)] assms(3) agreesD(1) [OF assms(2)]
      by (subst mem_write_other) blast+
  qed
  then show ?thesis by simp
qed

section \<open>Pushed arguments\<close>

definition push_addr :: "site \<Rightarrow> int \<Rightarrow> 64 word" where
  "push_addr c k = s_base c - word_of_int (8 * (k + 1))"

lemma push_cells:
  assumes "site_ok c" "0 \<le> k" "uint (s_limit c) + 8 * (k + 1) \<le> uint (s_base c)" "a \<in> cells 8 (push_addr c k)"
  shows "uint (s_base c) - 8 * (k + 1) \<le> uint a" "uint a < uint (s_base c) - 8 * k"
    "uint (s_limit c) \<le> uint a" "uint a < uint (s_base c)"
proof -
  have p: "uint (push_addr c k) = uint (s_base c) - 8 * (k + 1)"
    unfolding push_addr_def using assms(2,3) by (intro below_base [of _ "s_limit c"]) simp_all
  have "uint (s_base c) < 2 ^ 64" using uint_lt2p [of "s_base c"] by simp
  with p assms(2) have "uint (push_addr c k) + int 8 \<le> 2 ^ 64" by simp
  from cells_bounds [OF this assms(4)] p assms(2,3)
  show "uint (s_base c) - 8 * (k + 1) \<le> uint a" "uint a < uint (s_base c) - 8 * k"
    "uint (s_limit c) \<le> uint a" "uint a < uint (s_base c)" by simp_all
qed

definition free_operand :: "site \<Rightarrow> Operand \<Rightarrow> bool" where
  "free_operand c op \<longleftrightarrow> typed_operand op \<and> (\<forall>u \<in> s_elided c. operand_uses op u = 0)"

lemma free_operand_loadable: "free_operand c op \<Longrightarrow> loadable c r bias op"
  by (auto simp: free_operand_def loadable_def)

text \<open>The state while arguments are loaded: \<open>k\<close> of them are on the stack.\<close>

definition arg_sim :: "site \<Rightarrow> int \<Rightarrow> int \<Rightarrow> ir_state \<Rightarrow> x86 \<Rightarrow> bool" where
  "arg_sim c k r s x \<longleftrightarrow>
     agrees c s (mem x) \<and> rsp x = s_base c - word_of_int (8 * k) \<and> cached c s r (rax x)"

lemma load_arg_sim:
  assumes "amd64 g" "site_ok c" "emit_load_operand g (s_locs c) (8 * k) op st = Inr (t, st')"
    and "ir_operand (site_env c) s op = Some v" "loadable c (rax_temp st) (8 * k) op"
    and "arg_sim c k (rax_temp st) s x" "0 \<le> k" "uint (s_limit c) + 8 * k \<le> uint (s_base c)"
  shows "exec c t x (x\<lparr>rax := v\<rparr>)" "arg_sim c k (rax_temp st') s (x\<lparr>rax := v\<rparr>)"
    "omit_store_temp st' = omit_store_temp st"
proof -
  have "8 * s_frame c + 8 * k < 2 ^ 31"
    using assms(2,8) by (simp add: site_ok_def stack_top_def)
  then have "exec c t x (x\<lparr>rax := v\<rparr>) \<and> (\<exists>r. st' = st\<lparr>rax_temp := r\<rparr> \<and> cached c s r v)"
    using assms by (intro load_operand_runs [of g c "8 * k"]) (simp_all add: arg_sim_def)
  then show "exec c t x (x\<lparr>rax := v\<rparr>)" "arg_sim c k (rax_temp st') s (x\<lparr>rax := v\<rparr>)"
    "omit_store_temp st' = omit_store_temp st"
    using assms(6) by (auto simp: arg_sim_def)
qed

lemma ir_operands_all: "ir_operands env s ops = Some vs \<longleftrightarrow> list_all2 (\<lambda>op v. ir_operand env s op = Some v) ops vs"
  by (induction ops arbitrary: vs) (auto simp: Option.bind_eq_Some_conv list_all2_Cons1)

lemma ir_operands_parts:
  assumes "ir_operands env s ops = Some vs"
  shows "length vs = length ops" "ir_operands env s (take n ops) = Some (take n vs)"
    "ir_operands env s (rev (drop n ops)) = Some (rev (drop n vs))"
  using assms by (auto simp: ir_operands_all list_all2_lengthD intro: list_all2_takeI list_all2_dropI)

lemma push_sim:
  assumes "site_ok c" "arg_sim c k r s x" "0 \<le> k" "uint (s_limit c) + 8 * (k + 1) \<le> uint (s_base c)"
  defines "y \<equiv> x\<lparr>rsp := rsp x - 8, mem := mem_write 8 (mem x) (rsp x - 8) (rax x)\<rparr>"
  shows "arg_sim c (k + 1) r s y" "mem_read 8 (mem y) (push_addr c k) = rax x"
    "\<And>a. uint (s_base c) - 8 * k \<le> uint a \<Longrightarrow> mem y a = mem x a"
proof -
  have p: "rsp x - 8 = push_addr c k"
    using assms(2) by (simp add: arg_sim_def push_addr_def algebra_simps)
  note cells = push_cells [OF assms(1,3,4)]
  have "agrees c s (mem x)" using assms(2) by (simp add: arg_sim_def)
  then have "agrees c s (mem y)"
    unfolding y_def using cells(3,4) p by (simp add: agrees_below [OF assms(1)])
  then show "arg_sim c (k + 1) r s y"
    using assms(2) by (simp add: arg_sim_def y_def algebra_simps)
  show "mem_read 8 (mem y) (push_addr c k) = rax x" by (simp add: y_def p mem_read_write_8)
  show "mem y a = mem x a" if "uint (s_base c) - 8 * k \<le> uint a" for a
    using that cells(2) [of a] p by (simp add: y_def, subst mem_write_other) force+
qed

lemma push_args_runs:
  assumes "amd64 g" "site_ok c"
  shows "push_args g (s_locs c) 8 (Inr ''  PUSH_RAX\<newline>'') k ops st = Inr (t, st') \<Longrightarrow>
    ir_operands (site_env c) s ops = Some vs \<Longrightarrow> (\<forall>op \<in> set ops. free_operand c op) \<Longrightarrow>
    arg_sim c k (rax_temp st) s x \<Longrightarrow> 0 \<le> k \<Longrightarrow>
    uint (s_limit c) + 8 * (k + int (length ops)) \<le> uint (s_base c) \<Longrightarrow>
    \<exists>y. exec c t x y \<and> arg_sim c (k + int (length ops)) (rax_temp st') s y \<and>
      omit_store_temp st' = omit_store_temp st \<and>
      (\<forall>j < length ops. mem_read 8 (mem y) (push_addr c (k + int j)) = vs ! j) \<and>
      (\<forall>a. uint (s_base c) - 8 * k \<le> uint a \<longrightarrow> mem y a = mem x a)"
proof (induction ops arbitrary: k st t vs x)
  case Nil
  then show ?case by (auto simp: act_simps intro!: exI [of _ x])
next
  case (Cons op ops)
  from Cons.prems(1) obtain t1 st1 t2 where e: "emit_load_operand g (s_locs c) (8 * k) op st = Inr (t1, st1)"
    "push_args g (s_locs c) 8 (Inr ''  PUSH_RAX\<newline>'') (k + 1) ops st1 = Inr (t2, st')"
    "t = t1 @ ''  PUSH_RAX\<newline>'' @ t2"
    by (auto simp: act_simps act_seq_def mult.commute)
  from Cons.prems(2) obtain v ws where v: "ir_operand (site_env c) s op = Some v"
    "ir_operands (site_env c) s ops = Some ws" "vs = v # ws"
    by (auto simp: Option.bind_eq_Some_conv)
  have k: "uint (s_limit c) + 8 * k \<le> uint (s_base c)" "uint (s_limit c) + 8 * (k + 1) \<le> uint (s_base c)"
    using Cons.prems(5,6) by simp_all
  have free: "free_operand c op" using Cons.prems(3) by simp
  note l = load_arg_sim [OF assms e(1) v(1) free_operand_loadable [OF free] Cons.prems(4,5) k(1)]
  let ?x = "x\<lparr>rax := v\<rparr>"
  let ?y = "?x\<lparr>rsp := rsp ?x - 8, mem := mem_write 8 (mem ?x) (rsp ?x - 8) (rax ?x)\<rparr>"
  note p = push_sim [OF assms(2) l(2) Cons.prems(5) k(2)]
  from Cons.IH [OF e(2) v(2) _ p(1)] Cons.prems(3,5,6) obtain z where
    z: "exec c t2 ?y z" "arg_sim c (k + 1 + int (length ops)) (rax_temp st') s z"
      "omit_store_temp st' = omit_store_temp st1"
      "\<And>j. j < length ops \<Longrightarrow> mem_read 8 (mem z) (push_addr c (k + 1 + int j)) = ws ! j"
      "\<And>a. uint (s_base c) - 8 * (k + 1) \<le> uint a \<Longrightarrow> mem z a = mem ?y a"
    by (auto simp: add.assoc)
  have "exec c t x z"
    unfolding e(3) by (rule exec_append [OF l(1) exec_append [OF exec_moves(3) z(1)]])
  moreover have first: "mem_read 8 (mem z) (push_addr c k) = v"
  proof -
    have "mem_read 8 (mem z) (push_addr c k) = mem_read 8 (mem ?y) (push_addr c k)"
      by (rule mem_read_cong, rule z(5)) (rule push_cells(1) [OF assms(2) Cons.prems(5) k(2)])
    with p(2) show ?thesis by simp
  qed
  moreover have "mem_read 8 (mem z) (push_addr c (k + int j)) = vs ! j" if "j < length (op # ops)" for j
    using that first z(4) [of "j - 1"] v(3) by (cases j) (simp_all add: add.assoc)
  moreover have "mem z a = mem x a" if "uint (s_base c) - 8 * k \<le> uint a" for a
    using that z(5) [of a] p(3) [OF that] by simp
  ultimately show ?case using z(2,3) l(3) by (intro exI [of _ z]) (simp add: add.assoc)
qed

section \<open>Arguments in registers\<close>

lemma exec_argument_moves:
  "exec c ''  COPY_rax_to_rdi\<newline>'' x (x\<lparr>rdi := rax x\<rparr>)"
  "exec c ''  HCC_COPY_rax_to_rsi\<newline>'' x (x\<lparr>rsi := rax x\<rparr>)"
  "exec c ''  HCC_COPY_rax_to_rdx\<newline>'' x (x\<lparr>rdx := rax x\<rparr>)"
  "exec c ''  HCC_COPY_rax_to_rcx\<newline>'' x (x\<lparr>rcx := rax x\<rparr>)"
  "exec c ''  HCC_COPY_rax_to_r8\<newline>'' x (x\<lparr>r8 := rax x\<rparr>)"
  "exec c ''  HCC_COPY_rax_to_r9\<newline>'' x (x\<lparr>r9 := rax x\<rparr>)"
  by (rule exec_run; simp add: code_text_def whole_lines_def opens_def m1_number_def x86_run_simps m1_words_def newline_def
      x86_run_one x86_one_def)+

lemma exec_argument_move:
  assumes "amd64 g" "i < 6"
  shows "\<exists>t y. emit_argument_move g (int i) = Inr t \<and> exec c t x y \<and> rax y = rax x \<and> rsp y = rsp x \<and>
    mem y = mem x \<and> (\<forall>j < 6. arg_reg j y = (if j = i then rax x else arg_reg j x))"
proof -
  have "i = 0 \<or> i = 1 \<or> i = 2 \<or> i = 3 \<or> i = 4 \<or> i = 5" using assms(2) by auto
  then show ?thesis
    using assms(1)
    by (elim disjE) (auto simp: emit_argument_move_def amd64_def arg_reg_def intro!: exI exec_argument_moves)
qed

lemma load_args_runs:
  assumes "amd64 g" "site_ok c" "0 \<le> k" "uint (s_limit c) + 8 * k \<le> uint (s_base c)"
  shows "load_args g (s_locs c) (8 * k) (zip ops [i..<i + length ops]) st = Inr (t, st') \<Longrightarrow>
    i + length ops \<le> 6 \<Longrightarrow> ir_operands (site_env c) s ops = Some vs \<Longrightarrow>
    (ops \<noteq> [] \<longrightarrow> loadable c (rax_temp st) (8 * k) (hd ops)) \<Longrightarrow> (\<forall>op \<in> set (tl ops). free_operand c op) \<Longrightarrow>
    arg_sim c k (rax_temp st) s x \<Longrightarrow>
    \<exists>y. exec c t x y \<and> arg_sim c k (rax_temp st') s y \<and> mem y = mem x \<and>
      omit_store_temp st' = omit_store_temp st \<and>
      (\<forall>j < i. arg_reg j y = arg_reg j x) \<and> (\<forall>j < length ops. arg_reg (i + j) y = vs ! j)"
proof (induction ops arbitrary: i st t vs x)
  case Nil
  then show ?case by (auto simp: act_simps intro!: exI [of _ x])
next
  case (Cons op ops)
  have i: "i < 6" using Cons.prems(2) by simp
  have zip: "zip (op # ops) [i..<i + length (op # ops)] = (op, i) # zip ops [Suc i..<Suc i + length ops]"
    by (simp add: upt_conv_Cons del: upt_Suc)
  from Cons.prems(3) obtain v ws where v: "ir_operand (site_env c) s op = Some v"
    "ir_operands (site_env c) s ops = Some ws" "vs = v # ws"
    by (auto simp: Option.bind_eq_Some_conv)
  from exec_argument_move [OF assms(1) i, of c "x\<lparr>rax := v\<rparr>"] obtain tm y where
    m: "emit_argument_move g (int i) = Inr tm" "exec c tm (x\<lparr>rax := v\<rparr>) y" "rax y = v" "rsp y = rsp x"
      "mem y = mem x" "\<And>j. j < 6 \<Longrightarrow> arg_reg j y = (if j = i then v else arg_reg j x)"
    by auto
  from Cons.prems(1) m(1) obtain t1 st1 t2 where e: "emit_load_operand g (s_locs c) (8 * k) op st = Inr (t1, st1)"
    "load_args g (s_locs c) (8 * k) (zip ops [Suc i..<Suc i + length ops]) st1 = Inr (t2, st')"
    "t = t1 @ tm @ t2"
    unfolding zip by (auto simp: act_simps act_seq_def)
  have "loadable c (rax_temp st) (8 * k) op" using Cons.prems(4) by simp
  note l = load_arg_sim [OF assms(1,2) e(1) v(1) this Cons.prems(6) assms(3,4)]
  have y: "arg_sim c k (rax_temp st1) s y" using l(2) m(3-5) by (simp add: arg_sim_def)
  have "\<forall>op \<in> set (tl ops). free_operand c op" "ops \<noteq> [] \<longrightarrow> loadable c (rax_temp st1) (8 * k) (hd ops)"
    using Cons.prems(5) free_operand_loadable by (cases ops; simp)+
  with Cons.IH [OF e(2) _ v(2) _ _ y] Cons.prems(2) obtain z where
    z: "exec c t2 y z" "arg_sim c k (rax_temp st') s z" "mem z = mem y" "omit_store_temp st' = omit_store_temp st1"
      "\<And>j. j < Suc i \<Longrightarrow> arg_reg j z = arg_reg j y" "\<And>j. j < length ops \<Longrightarrow> arg_reg (Suc i + j) z = ws ! j"
    by auto
  have "arg_reg (i + j) z = vs ! j" if "j < length (op # ops)" for j
    using that z(5) [of i] z(6) [of "j - 1"] m(6) [OF i] v(3) by (cases j) simp_all
  moreover have "exec c t x z" unfolding e(3) by (rule exec_append [OF l(1) exec_append [OF m(2) z(1)]])
  moreover have "arg_reg j z = arg_reg j x" if "j < i" for j
    using that i z(5) [of j] m(6) [of j] by simp
  ultimately show ?case using z(2-4) m(5) l(3) by (intro exI [of _ z]) simp
qed

section \<open>All arguments\<close>

definition args_fit :: "site \<Rightarrow> int \<Rightarrow> Operand list \<Rightarrow> bool" where
  "args_fit c r args \<longleftrightarrow>
     (\<forall>op \<in> set (tl args). free_operand c op) \<and>
     (args \<noteq> [] \<longrightarrow> (if length args \<le> 6 then loadable c r 0 (hd args) else free_operand c (hd args)))"

lemma call_stack_bytes_amd64: "amd64 g \<Longrightarrow> call_stack_bytes g (int n) = pushed_bytes n"
  by (auto simp: call_stack_bytes_def pushed_bytes_def amd64_def target_register_arg_count_def Let_def)

lemma emit_arguments_runs:
  assumes "amd64 g" "site_ok c" "emit_arguments g (s_locs c) args st = Inr (t, st')"
    and "ir_operands (site_env c) s args = Some vs" "args_fit c (rax_temp st) args"
    and "arg_sim c 0 (rax_temp st) s x" "uint (s_limit c) + pushed_bytes (length args) \<le> uint (s_base c)"
  shows "\<exists>y. exec c t x y \<and> arg_sim c (int (length args - 6)) (rax_temp st') s y \<and>
    omit_store_temp st' = omit_store_temp st \<and>
    (\<forall>i < length args.
       (i < 6 \<longrightarrow> arg_reg i y = vs ! i) \<and>
       (6 \<le> i \<longrightarrow> mem_read 8 (mem y) (push_addr c (int (length args - Suc i))) = vs ! i))"
proof -
  let ?n = "length args" and ?k = "int (length args - 6)"
  note vs = ir_operands_parts(1) [OF assms(4)] ir_operands_parts(2,3) [OF assms(4), of 6]
  have bytes: "pushed_bytes ?n = 8 * ?k" by (simp add: pushed_bytes_def)
  from assms(3) obtain t1 st1 t2 where
    e: "push_args g (s_locs c) 8 (Inr ''  PUSH_RAX\<newline>'') 0 (rev (drop 6 args)) st = Inr (t1, st1)"
    "load_args g (s_locs c) (8 * ?k) (zip (take 6 args) [0..<6]) st1 = Inr (t2, st')" "t = t1 @ t2"
    using assms(1) call_stack_bytes_amd64 [OF assms(1), of ?n]
    by (auto simp: emit_arguments_def Let_def amd64_def register_args_def bytes act_simps act_seq_def)
  have drop: "\<forall>op \<in> set (rev (drop 6 args)). free_operand c op"
    using assms(5) by (cases args) (auto simp: args_fit_def dest: in_set_dropD)
  from push_args_runs [OF assms(1,2) e(1) vs(3) drop assms(6)] assms(7) bytes obtain y where
    y: "exec c t1 x y" "arg_sim c ?k (rax_temp st1) s y" "omit_store_temp st1 = omit_store_temp st"
      "\<And>j. j < ?n - 6 \<Longrightarrow> mem_read 8 (mem y) (push_addr c (int j)) = rev (drop 6 vs) ! j"
    by auto
  have zip: "zip (take 6 args) [0..<6] = zip (take 6 args) [0..<0 + length (take 6 args)]"
    by (rule nth_equalityI) auto
  have hd: "take 6 args \<noteq> [] \<longrightarrow> loadable c (rax_temp st1) (8 * ?k) (hd (take 6 args))"
  proof (cases "?n \<le> 6")
    case True
    then have "st1 = st" using e(1) by (simp add: act_simps)
    with True assms(5) show ?thesis by (simp add: args_fit_def)
  next
    case False
    with assms(5) free_operand_loadable show ?thesis by (auto simp: args_fit_def)
  qed
  have tl: "\<forall>op \<in> set (tl (take 6 args)). free_operand c op"
    using assms(5) by (cases args) (auto simp: args_fit_def dest: in_set_takeD)
  from load_args_runs [OF assms(1,2) _ _ e(2) [unfolded zip] _ vs(2) hd tl y(2)] assms(7) bytes obtain z where
    z: "exec c t2 y z" "arg_sim c ?k (rax_temp st') s z" "mem z = mem y" "omit_store_temp st' = omit_store_temp st1"
      "\<And>j. j < length (take 6 args) \<Longrightarrow> arg_reg j z = take 6 vs ! j"
    by auto
  have "mem_read 8 (mem z) (push_addr c (int (?n - Suc i))) = vs ! i" if "i < ?n" "6 \<le> i" for i
    using that y(4) [of "?n - Suc i"] z(3) vs(1) by (simp add: rev_nth)
  moreover have "arg_reg i z = vs ! i" if "i < ?n" "i < 6" for i using that z(5) [of i] by simp
  moreover have "exec c t x z" unfolding e(3) by (rule exec_append [OF y(1) z(1)])
  ultimately show ?thesis using z(2,4) y(3) by (intro exI [of _ z]) simp
qed

section \<open>Control goes to the function and back\<close>

lemma linked_place:
  "linked A P names \<Longrightarrow> name \<in> set names \<Longrightarrow>
   at_address A (label_value A (''FUNCTION_'' @ name)) P = after_label (''FUNCTION_'' @ name) P"
  by (simp add: linked_def)

lemma call_words:
  assumes "typed_name name"
  shows "m1_words (''  CALL_IMMEDIATE %FUNCTION_'' @ name @ [newline]) = [''CALL_IMMEDIATE'', ''%FUNCTION_'' @ name]"
    "code_text (''  CALL_IMMEDIATE %FUNCTION_'' @ name @ [newline])"
proof -
  have w: "word_ok ''CALL_IMMEDIATE''" "m1_number ''CALL_IMMEDIATE'' = None"
    by (simp_all add: word_ok_def newline_def m1_number_def)
  have n: "word_ok (''%FUNCTION_'' @ name)"
    using assms by (auto simp: word_ok_def typed_name_def list_all_iff is_blank_def newline_def)
  show "m1_words (''  CALL_IMMEDIATE %FUNCTION_'' @ name @ [newline]) = [''CALL_IMMEDIATE'', ''%FUNCTION_'' @ name]"
    using m1_words_word(1) [OF w(1), of "''%FUNCTION_'' @ name @ [newline]"] m1_words_word(2) [OF n, of "[]"]
    by (simp add: m1_words_blank) (simp add: m1_words_def)
  show "code_text (''  CALL_IMMEDIATE %FUNCTION_'' @ name @ [newline])"
    using code_text_line(2) [OF w, of "''%FUNCTION_'' @ name"] by simp
qed

lemma call_reaches:
  assumes "prog_ok c" "typed_name name"
    and "s_call c frozen sp name args m = Some (v, m')"
    and "\<And>ret. entry_ok (s_spot c) (s_limit c) frozen sp args m ret (x86_call (s_spot c) ret x)"
  shows "reaches c (''  CALL_IMMEDIATE %FUNCTION_'' @ name @ [newline]) x
    (\<lambda>z. \<exists>ret. exit_ok (s_limit c) frozen sp v m' (x86_call (s_spot c) ret x) z)"
  unfolding reaches_def call_words(1) [OF assms(2)]
proof (intro conjI allI impI)
  fix pre rest rets
  have "body_ok (s_address c) (s_spot c) (s_prog c) (s_limit c) (s_call c)"
    using assms(1) by (simp add: prog_ok_def)
  then obtain place y where p: "after_label (''FUNCTION_'' @ name) (s_prog c) = Some place"
    "steps (s_address c) (s_spot c) (s_prog c) (place, rest # rets, x86_call (s_spot c) rest x) (rest, rets, y)"
    "exit_ok (s_limit c) frozen sp v m' (x86_call (s_spot c) rest x) y"
    using assms(3) assms(4) [of rest] unfolding body_ok_def by metis
  have "amd64_hex ''CALL_IMMEDIATE'' = Some ''E8''" by (simp add: machine_simps)
  then have "x86_step (s_address c) (s_spot c) (s_prog c)
      ([''CALL_IMMEDIATE'', ''%FUNCTION_'' @ name] @ rest, rets, x) =
      Some (place, rest # rets, x86_call (s_spot c) rest x)"
    using p(1) by (simp add: x86_step.simps(2) is_label_def jump_operand_def)
  with p(2,3) show "\<exists>y. (\<exists>ret. exit_ok (s_limit c) frozen sp v m' (x86_call (s_spot c) ret x) y) \<and>
      steps (s_address c) (s_spot c) (s_prog c) ([''CALL_IMMEDIATE'', ''%FUNCTION_'' @ name] @ rest, rets, x)
        (rest, rets, y)"
    by (blast intro: steps_step)
qed (rule call_words(2) [OF assms(2)])

lemma call_rax_reaches:
  assumes "prog_ok c" "function_at (site_env c) (rax x) = Some name"
    and "s_call c frozen sp name args m = Some (v, m')"
    and "\<And>ret. entry_ok (s_spot c) (s_limit c) frozen sp args m ret (x86_call (s_spot c) ret x)"
  shows "reaches c ''  HCC_CALL_rax\<newline>'' x
    (\<lambda>z. \<exists>ret. exit_ok (s_limit c) frozen sp v m' (x86_call (s_spot c) ret x) z)"
  unfolding reaches_def
proof (intro conjI allI impI)
  fix pre rest rets
  have w: "m1_words ''  HCC_CALL_rax\<newline>'' = [''HCC_CALL_rax'']" by (simp add: m1_words_def newline_def)
  have "body_ok (s_address c) (s_spot c) (s_prog c) (s_limit c) (s_call c)"
    using assms(1) by (simp add: prog_ok_def)
  then obtain place y where p: "after_label (''FUNCTION_'' @ name) (s_prog c) = Some place"
    "steps (s_address c) (s_spot c) (s_prog c) (place, rest # rets, x86_call (s_spot c) rest x) (rest, rets, y)"
    "exit_ok (s_limit c) frozen sp v m' (x86_call (s_spot c) rest x) y"
    using assms(3) assms(4) [of rest] unfolding body_ok_def by metis
  from assms(2) have "name \<in> set (s_names c)" "label_value (s_address c) (''FUNCTION_'' @ name) = rax x"
    by (auto simp: site_env_def frame_env_def find_Some_iff)
  with linked_place [of "s_address c" "s_prog c" "s_names c" name] assms(1) p(1)
  have "at_address (s_address c) (rax x) (s_prog c) = Some place" by (simp add: prog_ok_def)
  moreover have "amd64_hex ''HCC_CALL_rax'' = Some ''FFD0''" by (simp add: machine_simps)
  ultimately have "x86_step (s_address c) (s_spot c) (s_prog c) (''HCC_CALL_rax'' # rest, rets, x) =
      Some (place, rest # rets, x86_call (s_spot c) rest x)"
    by (simp add: x86_step.simps(2) is_label_def)
  with p(2,3) w show "\<exists>y. (\<exists>ret. exit_ok (s_limit c) frozen sp v m' (x86_call (s_spot c) ret x) y) \<and>
      steps (s_address c) (s_spot c) (s_prog c) (m1_words ''  HCC_CALL_rax\<newline>'' @ rest, rets, x) (rest, rets, y)"
    by (auto intro!: exI [of _ y] intro: steps_step)
qed (simp add: code_text_def whole_lines_def opens_def m1_words_def m1_number_def newline_def)

section \<open>The caller's side of the contract\<close>

definition call_sp :: "site \<Rightarrow> nat \<Rightarrow> 64 word" where
  "call_sp c n = s_base c - word_of_int (pushed_bytes n + 8)"

definition call_frozen :: "site \<Rightarrow> nat \<Rightarrow> 64 word \<Rightarrow> bool" where
  "call_frozen c n a \<longleftrightarrow>
     s_frozen c a \<or> slot_byte (s_locs c) (s_base c) a \<or> call_sp c n \<le> a \<and> a < s_base c"

lemma callee_site:
  "callee (site_env c) name args m = Some r \<longleftrightarrow>
   uint (s_limit c) + pushed_bytes (length args) + 8 \<le> uint (s_base c) \<and>
   s_call c (call_frozen c (length args)) (call_sp c (length args)) name args m = Some r"
proof -
  have "call_frozen c n = (\<lambda>a. s_frozen c a \<or> slot_byte (s_locs c) (s_base c) a \<or> call_sp c n \<le> a \<and> a < s_base c)"
    for n by (rule ext) (simp add: call_frozen_def)
  then show ?thesis by (simp add: site_env_def frame_env_def Let_def call_sp_def)
qed

text \<open>The state just before the call: the arguments are in place.\<close>

definition args_in :: "site \<Rightarrow> 64 word list \<Rightarrow> x86 \<Rightarrow> bool" where
  "args_in c vs y \<longleftrightarrow>
     rsp y = s_base c - word_of_int (pushed_bytes (length vs)) \<and>
     (\<forall>i < length vs.
       (i < 6 \<longrightarrow> arg_reg i y = vs ! i) \<and>
       (6 \<le> i \<longrightarrow> mem_read 8 (mem y) (push_addr c (int (length vs - Suc i))) = vs ! i))"

lemma minus_plus_word: "b - of_int m + of_int n = b - of_int (m - n)" for b :: "64 word"
  by simp

lemma entry_from_args:
  assumes "site_ok c" "agrees c s (mem y)" "args_in c vs y"
    and "uint (s_limit c) + pushed_bytes (length vs) + 8 \<le> uint (s_base c)"
  shows "entry_ok (s_spot c) (s_limit c) (call_frozen c (length vs)) (call_sp c (length vs)) vs (ir_mem s) ret
    (x86_call (s_spot c) ret y)"
proof -
  let ?n = "length vs" and ?z = "x86_call (s_spot c) ret y"
  let ?sp = "call_sp c ?n" and ?k = "int (?n - 6)"
  have k: "pushed_bytes ?n = 8 * ?k" by (simp add: pushed_bytes_def)
  have sp: "?sp = push_addr c ?k" "rsp y - 8 = ?sp"
    using assms(3) by (simp_all add: call_sp_def push_addr_def args_in_def k algebra_simps)
  have room: "uint (s_limit c) + 8 * (?k + 1) \<le> uint (s_base c)" using assms(4) k by simp
  have usp: "uint ?sp = uint (s_base c) - 8 * ?k - 8"
    unfolding sp(1) push_addr_def using room by (subst below_base [of _ "s_limit c"]) simp_all
  note cells = push_cells [OF assms(1) _ room, folded sp(1)]
  have z: "rsp ?z = ?sp" "mem ?z = mem_write 8 (mem y) ?sp (s_spot c ret)"
    using sp(2) by (simp_all add: x86_call_def)
  have keep: "mem ?z a = mem y a" if "\<not> (uint ?sp \<le> uint a \<and> uint a < uint ?sp + 8)" for a
    unfolding z(2) using that cells(1,2) [of a] usp by (intro mem_write_other) auto
  have frozen: "call_frozen c ?n a" if "uint ?sp \<le> uint a" "uint a < uint (s_base c)" for a
    using that by (simp add: call_frozen_def word_le_def word_less_def)
  have "\<not> (uint (s_limit c) \<le> uint a \<and> uint a < uint ?sp)" if "call_frozen c ?n a" for a
    using that assms(1) slot_byte_bounds(1) [OF assms(1), of a] usp
    by (auto simp: call_frozen_def site_ok_def stack_top_def word_le_def word_less_def)
  moreover have "mem ?z a = b" if "ir_mem s a = Some b" "\<not> call_frozen c ?n a" "\<not> (s_limit c \<le> a \<and> a < ?sp)" for a b
  proof -
    have "\<not> hidden (site_env c) a" using that(2,3) by (auto simp: call_frozen_def hidden_site not_less not_le)
    from agreesD(1) [OF assms(2) that(1) this] show ?thesis
      using keep [of a] frozen [of a] that(2) usp by force
  qed
  moreover have "(\<forall>a \<in> cells 8 (stack_arg ?sp i). call_frozen c ?n a) \<and> mem_read 8 (mem ?z) (stack_arg ?sp i) = vs ! i"
    if i: "i < ?n" "6 \<le> i" for i
  proof -
    let ?j = "int (?n - Suc i)"
    have j: "?k = ?j + 1 + (int i - 6)" using i by simp
    then have "8 * (?j + 1) = 8 * (?k + 1) - (8 + 8 * (int i - 6))" by simp
    then have a: "stack_arg ?sp i = push_addr c ?j"
      unfolding stack_arg_def sp(1) push_addr_def by (simp only: minus_plus_word)
    have "l + 8 * (k + 1) \<le> b \<Longrightarrow> j \<le> k \<Longrightarrow> l + 8 * (j + 1) \<le> b" for l k j b :: int by simp
    moreover have "?j \<le> ?k" using i by simp
    ultimately have "uint (s_limit c) + 8 * (?j + 1) \<le> uint (s_base c)" using room by blast
    note c = push_cells [OF assms(1) _ this]
    have low: "uint ?sp + 8 \<le> uint b" "uint b < uint (s_base c)" if "b \<in> cells 8 (push_addr c ?j)" for b
      using c(1,4) [OF _ that] usp j i by simp_all
    have "mem_read 8 (mem ?z) (push_addr c ?j) = mem_read 8 (mem y) (push_addr c ?j)"
      by (rule mem_read_cong, rule keep) (use low in force)
    then show ?thesis using a assms(3) i low frozen by (force simp: args_in_def)
  qed
  moreover have "arg_reg i ?z = vs ! i" if "i < ?n" "i < 6" for i
    using assms(3) that by (simp add: args_in_def x86_call_def)
  moreover have "call_frozen c ?n a" if "a \<in> cells 8 ?sp" for a
    using cells(1,4) [OF _ that] usp frozen [of a] by simp
  ultimately show ?thesis
    unfolding entry_ok_def using z usp k assms(1,4)
    by (auto simp: site_ok_def stack_top_def mem_read_write_8)
qed

lemma exit_to_caller:
  assumes "site_ok c" "agrees c s (mem y)" "args_in c vs y"
    and "uint (s_limit c) + pushed_bytes (length vs) + 8 \<le> uint (s_base c)"
    and "exit_ok (s_limit c) (call_frozen c (length vs)) (call_sp c (length vs)) v m (x86_call (s_spot c) ret y) z"
  shows "rax z = v" "rsp z = rsp y" "agrees c (s\<lparr>ir_mem := m\<rparr>) (mem z)"
proof -
  let ?n = "length vs"
  have k: "pushed_bytes ?n = 8 * int (?n - 6)" by (simp add: pushed_bytes_def)
  have sp: "call_sp c ?n = push_addr c (int (?n - 6))" "rsp y - 8 = call_sp c ?n"
    using assms(3) by (simp_all add: call_sp_def push_addr_def args_in_def k algebra_simps)
  have "call_sp c ?n + 8 = rsp y" by (simp add: sp(2) [symmetric])
  then show "rax z = v" "rsp z = rsp y" using assms(5) by (auto simp: exit_ok_def)
  have room: "uint (s_limit c) + 8 * (int (?n - 6) + 1) \<le> uint (s_base c)" using assms(4) k by simp
  note cells = push_cells(3,4) [OF assms(1) _ room, folded sp(1)]
  have kept: "mem z a = mem y a" if "s_frozen c a \<or> slot_byte (s_locs c) (s_base c) a" for a
  proof -
    have "a \<notin> cells 8 (call_sp c ?n)"
      using that cells [of a] below_not_kept(1,2) [OF assms(1), of a] by auto
    moreover have "call_frozen c ?n a" using that by (auto simp: call_frozen_def)
    ultimately show ?thesis using assms(5) sp(2) by (simp add: exit_ok_def x86_call_def mem_write_other)
  qed
  have "uint (call_sp c ?n) = uint (s_base c) - 8 * (int (?n - 6) + 1)"
    unfolding sp(1) push_addr_def using room by (intro below_base [of _ "s_limit c"]) simp_all
  then have below: "call_sp c ?n \<le> s_base c" "s_limit c \<le> call_sp c ?n"
    using room by (simp_all add: word_le_def)
  show "agrees c (s\<lparr>ir_mem := m\<rparr>) (mem z)"
    unfolding agrees_def
  proof (intro conjI allI impI)
    fix a b assume "ir_mem (s\<lparr>ir_mem := m\<rparr>) a = Some b" "\<not> hidden (site_env c) a"
    then have "ir_mem (s\<lparr>ir_mem := m\<rparr>) a = Some b" "\<not> call_frozen c ?n a" "\<not> (s_limit c \<le> a \<and> a < call_sp c ?n)"
      using below by (auto simp: call_frozen_def hidden_site)
    then show "mem z a = b" using assms(5) by (auto simp: exit_ok_def)
  next
    fix a assume "s_frozen c a"
    then show "mem z a = s_mem0 c a" using kept agreesD(2) [OF assms(2)] by simp
  next
    fix t w assume w: "temps (s\<lparr>ir_mem := m\<rparr>) t = Some w"
    then show t: "stack_temp c t" using agreesD(3) [OF assms(2)] by simp
    have "mem_read 8 (mem z) (slot_addr c t) = mem_read 8 (mem y) (slot_addr c t)"
      by (rule mem_read_cong, rule kept) (use slot_cells_hidden [OF t] in blast)
    then show "mem_read 8 (mem z) (slot_addr c t) = w" if "t \<notin> s_elided c"
      using w agreesD(4) [OF assms(2) _ that] by simp
  qed
qed

section \<open>Call instructions\<close>

definition result_set :: "site \<Rightarrow> int \<Rightarrow> 64 word \<Rightarrow> ir_state \<Rightarrow> ir_state option" where
  "result_set c r v s = (if 0 \<le> r then assign (site_env c) r v s else Some s)"

lemma ir_apply_cases:
  assumes "ir_apply (site_env c) r name args s = Some s'"
  obtains vs v m where "ir_operands (site_env c) s args = Some vs"
    "callee (site_env c) name vs (ir_mem s) = Some (v, m)" "result_set c r v (s\<lparr>ir_mem := m\<rparr>) = Some s'"
  using assms by (auto simp: ir_apply_def result_set_def Option.bind_eq_Some_conv)

lemma emit_store_temp_state:
  assumes "amd64 g" "emit_store_temp g locs t st = Inr (tx, st')"
  shows "st' = st\<lparr>rax_temp := t\<rparr>"
  using assms by (auto simp: emit_store_temp_def lookup_loc_def amd64_def die_def act_simps act_seq_def
      split: if_splits LocKind.splits)

lemma call_finish_state:
  assumes "amd64 g" "out_res (emit_call_cleanup g (int n)) st = Inr (t1, st1)"
    and "when_do (0 \<le> r) (emit_store_temp g locs r) st1 = Inr (t2, st')"
  shows "omit_store_temp st' = omit_store_temp st" "0 \<le> r \<Longrightarrow> rax_temp st' = r" "st1 = st"
proof -
  show st1: "st1 = st" using assms(2) by (auto simp: out_res_def)
  show "omit_store_temp st' = omit_store_temp st" "0 \<le> r \<Longrightarrow> rax_temp st' = r"
    using assms(3) st1 emit_store_temp_state [OF assms(1), of locs r st t2 st'] by (cases "0 \<le> r"; simp)+
qed

lemma exec_call_cleanup:
  assumes "amd64 g" "site_ok c" "uint (s_limit c) + pushed_bytes n \<le> uint (s_base c)"
    and "emit_call_cleanup g (int n) = Inr t" "rsp z = s_base c - word_of_int (pushed_bytes n)"
  shows "exec c t z (z\<lparr>rsp := s_base c\<rparr>)"
proof (cases "0 < pushed_bytes n")
  case True
  then have "0 \<le> pushed_bytes n" "pushed_bytes n < 2 ^ 31"
    using assms(2,3) by (simp_all add: site_ok_def stack_top_def)
  moreover have "t = ''  HCC_ADD_IMMEDIATE_to_rsp %'' @ dec (pushed_bytes n) @ [newline]"
    using True assms(1,4) by (simp add: emit_call_cleanup_def call_stack_bytes_amd64 [OF assms(1)] amd64_def)
  moreover have "rsp z + word_of_int (pushed_bytes n) = s_base c" using assms(5) by simp
  ultimately show ?thesis using exec_stack(4) [of "pushed_bytes n" c z] by simp
next
  case False
  then have "pushed_bytes n = 0" by (simp add: pushed_bytes_def)
  moreover from this have "t = []" using assms(1,4) by (simp add: emit_call_cleanup_def call_stack_bytes_amd64)
  moreover from calculation have "z\<lparr>rsp := s_base c\<rparr> = z" using assms(5) by (cases z) simp
  ultimately show ?thesis by simp
qed

lemma call_finish:
  assumes "amd64 g" "site_ok c" "may_omit c st" "incoming s = []"
    and "uint (s_limit c) + pushed_bytes n \<le> uint (s_base c)"
    and "out_res (emit_call_cleanup g (int n)) st = Inr (t1, st1)"
    and "when_do (0 \<le> r) (emit_store_temp g (s_locs c) r) st1 = Inr (t2, st')" "rax_temp st = - 1"
    and "result_set c r v (s\<lparr>ir_mem := m\<rparr>) = Some s'"
    and "rax z = v" "rsp z = s_base c - word_of_int (pushed_bytes n)" "agrees c (s\<lparr>ir_mem := m\<rparr>) (mem z)"
  shows "reaches c (t1 @ t2) z (sim c (rax_temp st') s')"
proof -
  let ?y = "z\<lparr>rsp := s_base c\<rparr>" and ?s = "s\<lparr>ir_mem := m\<rparr>"
  have st1: "st1 = st" by (rule call_finish_state(3) [OF assms(1,6,7)])
  have "emit_call_cleanup g (int n) = Inr t1" using assms(6) by (auto simp: out_res_def)
  note e = exec_call_cleanup [OF assms(1,2,5) this assms(11)]
  have "\<exists>y. exec c t2 ?y y \<and> sim c (rax_temp st') s' y"
  proof (cases "0 \<le> r")
    case True
    with assms(7,9) have "emit_store_temp g (s_locs c) r st1 = Inr (t2, st')" "assign (site_env c) r v ?s = Some s'"
      by (simp_all add: result_set_def)
    from store_sim [OF assms(1,2) this(1), of ?s ?y s'] this(2) assms(4,10,12) st1 may_omitD [OF assms(3) this(2)]
    show ?thesis by (auto simp: params_in_none)
  next
    case False
    with assms(7,9) st1 have "t2 = []" "st' = st" "s' = ?s" by (simp_all add: result_set_def)
    then show ?thesis
      using assms(4,8,12) cached_none [OF assms(12)] by (auto simp: sim_def params_in_none intro!: exI [of _ ?y])
  qed
  with e show ?thesis using exec_reaches exec_append by blast
qed

lemma args_in_from_sim:
  assumes "arg_sim c (int (length args - 6)) r s y" "length vs = length args"
    and "\<forall>i < length args.
       (i < 6 \<longrightarrow> arg_reg i y = vs ! i) \<and>
       (6 \<le> i \<longrightarrow> mem_read 8 (mem y) (push_addr c (int (length args - Suc i))) = vs ! i)"
  shows "args_in c vs y"
  using assms by (simp add: args_in_def arg_sim_def pushed_bytes_def)

lemma readable_call:
  assumes "readable g c r i" "typed_operands args" "list_all typed_operand fs"
    and "\<And>u. instr_uses i u = operands_uses fs u + operands_uses args u"
    and "\<And>u. instr_consumes_rax_temp g i u \<Longrightarrow> args \<noteq> [] \<and> length args \<le> 6 \<and> hd args = OP_TEMP u"
  shows "args_fit c r args" "\<forall>op \<in> set fs. free_operand c op"
proof -
  have uses: "op \<in> set ops \<Longrightarrow> operand_uses op u \<le> operands_uses ops u" for op ops u
    by (induction ops) auto
  have r: "u = r \<and> operands_uses fs u + operands_uses args u = 1 \<and> args \<noteq> [] \<and> length args \<le> 6 \<and>
      hd args = OP_TEMP u \<and> operand_uses (hd args) u = 1"
    if "u \<in> s_elided c" "0 < operands_uses fs u + operands_uses args u" for u
    using assms(1,4,5) that operand_uses_self by (fastforce simp: readable_def)
  have "operands_uses fs u = 0 \<and> operands_uses (tl args) u = 0" if "u \<in> s_elided c" for u
  proof (cases "0 < operands_uses fs u + operands_uses args u")
    case True
    from r [OF that True] show ?thesis by (cases args) auto
  next
    case False
    then show ?thesis by (cases args) auto
  qed
  then have zero: "operand_uses op u = 0" if "u \<in> s_elided c" "op \<in> set fs \<or> op \<in> set (tl args)" for op u
    using uses [of op fs u] uses [of op "tl args" u] that by fastforce
  then show "\<forall>op \<in> set fs. free_operand c op"
    using assms(3) zero by (auto simp: free_operand_def list_all_iff)
  have typed: "\<forall>op \<in> set args. typed_operand op" using assms(2) by (simp add: typed_operands_def list_all_iff)
  show "args_fit c r args"
    unfolding args_fit_def
  proof (intro conjI impI ballI)
    show "free_operand c op" if "op \<in> set (tl args)" for op
      using that zero typed by (cases args) (auto simp: free_operand_def)
    assume "args \<noteq> []"
    then have first: "typed_operand (hd args)" "0 < operand_uses (hd args) u \<Longrightarrow> 0 < operands_uses args u" for u
      using typed by (cases args; simp)+
    have "u = r \<and> length args \<le> 6" if "u \<in> s_elided c" "0 < operand_uses (hd args) u" for u
      using r [OF that(1)] first(2) [OF that(2)] by simp
    then show "if length args \<le> 6 then loadable c r 0 (hd args) else free_operand c (hd args)"
      using first(1) by (auto simp: loadable_def free_operand_def)
  qed
qed

text \<open>From the call on, both call instructions do the same.\<close>

lemma call_rest:
  assumes "amd64 g" "site_ok c" "may_omit c st" "incoming s = []" "rax_temp st = - 1"
    and "out_res (emit_call_cleanup g (int (length vs))) st = Inr (t2, st3)"
    and "when_do (0 \<le> r) (emit_store_temp g (s_locs c) r) st3 = Inr (t3, st')"
    and "uint (s_limit c) + pushed_bytes (length vs) + 8 \<le> uint (s_base c)"
    and "result_set c r v (s\<lparr>ir_mem := m\<rparr>) = Some s'" "agrees c s (mem y)" "args_in c vs y"
    and "reaches c code y (\<lambda>z. \<exists>ret. exit_ok (s_limit c) (call_frozen c (length vs)) (call_sp c (length vs)) v m
      (x86_call (s_spot c) ret y) z)"
  shows "reaches c (code @ t2 @ t3) y (sim c (rax_temp st') s')"
proof (rule reaches_append [OF assms(12)])
  have "code_text t2" "code_text t3"
    using emitsD [OF emits_out_res assms(6)] code_text_cleanup(1) [OF assms(1)]
      emitsD [OF emits_when_do assms(7)] emits_load_operand(2) [OF assms(1)] by blast+
  then show "code_text (t2 @ t3)" by (rule code_text_append)
  fix z assume "\<exists>ret. exit_ok (s_limit c) (call_frozen c (length vs)) (call_sp c (length vs)) v m
      (x86_call (s_spot c) ret y) z"
  then obtain ret where "exit_ok (s_limit c) (call_frozen c (length vs)) (call_sp c (length vs)) v m
      (x86_call (s_spot c) ret y) z" ..
  note z = exit_to_caller [OF assms(2,10,11,8) this]
  have "uint (s_limit c) + pushed_bytes (length vs) \<le> uint (s_base c)" using assms(8) by simp
  moreover have "rsp y = s_base c - word_of_int (pushed_bytes (length vs))"
    using assms(11) by (simp add: args_in_def)
  ultimately show "reaches c (t2 @ t3) z (sim c (rax_temp st') s')"
    using call_finish [OF assms(1-4) _ assms(6,7,5,9)] z by simp
qed

lemma emit_call_step:
  assumes "amd64 g" "site_ok c" "prog_ok c" "may_omit c st" "incoming s = []" "typed_instr (IK_CALL r name args)"
    and "emit_call g (s_locs c) r name args st = Inr (t, st')"
    and "ir_apply (site_env c) r name args s = Some s'"
    and "readable g c (rax_temp st) (IK_CALL r name args)" "sim c (rax_temp st) s x"
  shows "reaches c t x (sim c (rax_temp st') s')" "omit_store_temp st' = omit_store_temp st"
    "0 \<le> r \<Longrightarrow> rax_temp st' = r"
proof -
  obtain t1 st1 t2 t3 st3 where e: "emit_arguments g (s_locs c) args st = Inr (t1, st1)"
    "out_res (emit_call_cleanup g (int (length args))) (st1\<lparr>rax_temp := - 1\<rparr>) = Inr (t2, st3)"
    "when_do (0 \<le> r) (emit_store_temp g (s_locs c) r) st3 = Inr (t3, st')"
    "t = t1 @ (''  CALL_IMMEDIATE %FUNCTION_'' @ name @ [newline]) @ t2 @ t3"
    using assms(1,7) by (auto simp: emit_call_def amd64_def act_simps act_seq_def)
  obtain vs v m where ir: "ir_operands (site_env c) s args = Some vs"
    "callee (site_env c) name vs (ir_mem s) = Some (v, m)" "result_set c r v (s\<lparr>ir_mem := m\<rparr>) = Some s'"
    by (rule ir_apply_cases [OF assms(8)])
  have len: "length vs = length args" by (rule ir_operands_parts(1) [OF ir(1)])
  note call = ir(2) [unfolded callee_site]
  have fit: "args_fit c (rax_temp st) args"
    using assms(6) by (intro readable_call(1) [OF assms(9), of args "[]"])
      (auto simp: instr_consumes_rax_temp_def)
  have "arg_sim c 0 (rax_temp st) s x" using assms(10) by (simp add: sim_def arg_sim_def)
  from emit_arguments_runs [OF assms(1,2) e(1) ir(1) fit this] call len obtain y where
    y: "exec c t1 x y" "arg_sim c (int (length args - 6)) (rax_temp st1) s y"
      "omit_store_temp st1 = omit_store_temp st" "args_in c vs y"
    using args_in_from_sim [OF _ len] by auto
  have ag: "agrees c s (mem y)" using y(2) by (simp add: arg_sim_def)
  have typed: "typed_name name" using assms(6) by simp
  have "may_omit c (st1\<lparr>rax_temp := - 1\<rparr>)" using assms(4) y(3) by (simp add: may_omit_def)
  from call_rest [OF assms(1,2) this assms(5) _ e(2,3) [folded len] call [THEN conjunct1] ir(3) ag y(4)
      call_reaches [OF assms(3) typed call [THEN conjunct2]
        entry_from_args [OF assms(2) ag y(4) call [THEN conjunct1]]]]
  show "reaches c t x (sim c (rax_temp st') s')"
    unfolding e(4) by (intro exec_reaches_append [OF y(1)]) simp
  show "omit_store_temp st' = omit_store_temp st" "0 \<le> r \<Longrightarrow> rax_temp st' = r"
    using call_finish_state [OF assms(1) e(2,3)] y(3) by simp_all
qed

lemma emit_calli_step:
  assumes "amd64 g" "site_ok c" "prog_ok c" "may_omit c st" "incoming s = []" "typed_instr (IK_CALLI r f args)"
    and "emit_calli g (s_locs c) r f args st = Inr (t, st')"
    and "ir_instr (site_env c) (IK_CALLI r f args) s = Some s'"
    and "readable g c (rax_temp st) (IK_CALLI r f args)" "sim c (rax_temp st) s x"
  shows "reaches c t x (sim c (rax_temp st') s')" "omit_store_temp st' = omit_store_temp st"
    "0 \<le> r \<Longrightarrow> rax_temp st' = r"
proof -
  let ?k = "int (length args - 6)"
  have bytes: "call_stack_bytes g (int (length args)) = 8 * ?k" "pushed_bytes (length args) = 8 * ?k"
    by (simp_all add: call_stack_bytes_amd64 [OF assms(1)] pushed_bytes_def)
  obtain t1 st1 tf st2 t2 t3 st3 where e: "emit_arguments g (s_locs c) args st = Inr (t1, st1)"
    "emit_load_operand g (s_locs c) (8 * ?k) f st1 = Inr (tf, st2)"
    "out_res (emit_call_cleanup g (int (length args))) (st2\<lparr>rax_temp := - 1\<rparr>) = Inr (t2, st3)"
    "when_do (0 \<le> r) (emit_store_temp g (s_locs c) r) st3 = Inr (t3, st')"
    "t = (t1 @ tf) @ ''  HCC_CALL_rax\<newline>'' @ t2 @ t3"
    using assms(1,7) unfolding emit_calli_def bytes by (auto simp: amd64_def act_simps act_seq_def)
  obtain p name where f: "ir_operand (site_env c) s f = Some p" "function_at (site_env c) p = Some name"
    "ir_apply (site_env c) r name args s = Some s'"
    using assms(8) by (auto simp: Option.bind_eq_Some_conv)
  obtain vs v m where ir: "ir_operands (site_env c) s args = Some vs"
    "callee (site_env c) name vs (ir_mem s) = Some (v, m)" "result_set c r v (s\<lparr>ir_mem := m\<rparr>) = Some s'"
    by (rule ir_apply_cases [OF f(3)])
  have len: "length vs = length args" by (rule ir_operands_parts(1) [OF ir(1)])
  note call = ir(2) [unfolded callee_site]
  have fit: "args_fit c (rax_temp st) args" "free_operand c f"
    using assms(6) readable_call [OF assms(9), of args "[f]"]
    by (auto simp: instr_consumes_rax_temp_def)
  have "arg_sim c 0 (rax_temp st) s x" using assms(10) by (simp add: sim_def arg_sim_def)
  from emit_arguments_runs [OF assms(1,2) e(1) ir(1) fit(1) this] call len obtain y where
    y: "exec c t1 x y" "arg_sim c ?k (rax_temp st1) s y"
      "omit_store_temp st1 = omit_store_temp st" "args_in c vs y"
    using args_in_from_sim [OF _ len] by auto
  let ?y = "y\<lparr>rax := p\<rparr>"
  have room: "uint (s_limit c) + 8 * ?k \<le> uint (s_base c)" using call len bytes by simp
  have l: "exec c tf y ?y" "arg_sim c ?k (rax_temp st2) s ?y" "omit_store_temp st2 = omit_store_temp st1"
    using load_arg_sim [OF assms(1,2) e(2) f(1) free_operand_loadable [OF fit(2)] y(2) _ room] by simp_all
  have ag: "agrees c s (mem ?y)" using y(2) by (simp add: arg_sim_def)
  have args: "args_in c vs ?y" using y(4) by (simp add: args_in_def)
  have "may_omit c (st2\<lparr>rax_temp := - 1\<rparr>)" using assms(4) y(3) l(3) by (simp add: may_omit_def)
  from call_rest [OF assms(1,2) this assms(5) _ e(3,4) [folded len] call [THEN conjunct1] ir(3) ag args
      call_rax_reaches [OF assms(3) _ call [THEN conjunct2]
        entry_from_args [OF assms(2) ag args call [THEN conjunct1]]]] f(2)
  show "reaches c t x (sim c (rax_temp st') s')"
    unfolding e(5) by (intro exec_reaches_append [OF exec_append [OF y(1) l(1)]]) simp
  show "omit_store_temp st' = omit_store_temp st" "0 \<le> r \<Longrightarrow> rax_temp st' = r"
    using call_finish_state [OF assms(1) e(3,4)] y(3) l(3) by simp_all
qed

end
