(* ===== verification/UseCounts.thy ===== *)
theory UseCounts
  imports EmitFn IrTypes
begin

text \<open>
  Why a store may be left out: the emitter omits the store of a temporary only when its one use is the
  next thing that happens, and finds it in the accumulator. The uses of a temporary are counted apart:
  those that follow an omitted store at once and take the value from the accumulator, and the loose
  ones. A temporary whose store is omitted somewhere has no loose use anywhere in the function.
\<close>

section \<open>Omitted stores\<close>

definition omit_of :: "Globals \<Rightarrow> LocArray \<Rightarrow> int \<Rightarrow> Instr \<Rightarrow> Instr list \<Rightarrow> int" where
  "omit_of g locs f i is = (case choose_omit g locs f i is of Inr d \<Rightarrow> d | Inl e \<Rightarrow> - 1)"

text \<open>The temporary that is only in the accumulator when a list of instructions ends.\<close>

fun pending :: "Globals \<Rightarrow> LocArray \<Rightarrow> int \<Rightarrow> Instr list \<Rightarrow> int \<Rightarrow> int" where
  "pending g locs p [] f = p"
| "pending g locs p (i # is) f = pending g locs (omit_of g locs f i is) is f"

definition spare :: "int \<Rightarrow> nat \<Rightarrow> int \<Rightarrow> nat" where
  "spare p n u = (if p = u then n - 1 else n)"

fun loose :: "Globals \<Rightarrow> LocArray \<Rightarrow> int \<Rightarrow> Instr \<Rightarrow> int \<Rightarrow> nat"
  and looses :: "Globals \<Rightarrow> LocArray \<Rightarrow> int \<Rightarrow> Instr list \<Rightarrow> int \<Rightarrow> int \<Rightarrow> nat"
where
  "loose g locs p i u =
     (case i of
        IK_COND t cs co ts to fs fo \<Rightarrow>
          looses g locs (- 1) cs (operand_temp co) u +
          spare (pending g locs (- 1) cs (operand_temp co)) (operand_uses co u) u +
          looses g locs (- 1) ts (operand_temp to) u +
          spare (pending g locs (- 1) ts (operand_temp to)) (operand_uses to u) u +
          looses g locs (- 1) fs (operand_temp fo) u +
          spare (pending g locs (- 1) fs (operand_temp fo)) (operand_uses fo u) u
      | _ \<Rightarrow> spare p (instr_uses i u) u)"
| "looses g locs p [] f u = 0"
| "looses g locs p (i # is) f u =
     loose g locs p i u + looses g locs (omit_of g locs f i is) is f u"

fun omits :: "Globals \<Rightarrow> LocArray \<Rightarrow> Instr \<Rightarrow> int \<Rightarrow> nat"
  and omitted :: "Globals \<Rightarrow> LocArray \<Rightarrow> Instr list \<Rightarrow> int \<Rightarrow> int \<Rightarrow> nat"
where
  "omits g locs i u =
     (case i of
        IK_COND t cs co ts to fs fo \<Rightarrow>
          omitted g locs cs (operand_temp co) u + omitted g locs ts (operand_temp to) u +
          omitted g locs fs (operand_temp fo) u
      | _ \<Rightarrow> 0)"
| "omitted g locs [] f u = 0"
| "omitted g locs (i # is) f u =
     omits g locs i u + (if omit_of g locs f i is = u then 1 else 0) + omitted g locs is f u"

declare loose.simps [simp del] omits.simps [simp del]

definition is_cond :: "Instr \<Rightarrow> bool" where
  "is_cond i \<longleftrightarrow> (case i of IK_COND t cs co ts to fs fo \<Rightarrow> True | _ \<Rightarrow> False)"

lemma loose_simple: "\<not> is_cond i \<Longrightarrow> loose g locs p i u = spare p (instr_uses i u) u"
  by (cases i) (simp_all add: is_cond_def loose.simps)

lemma omits_simple: "\<not> is_cond i \<Longrightarrow> omits g locs i u = 0"
  by (cases i) (simp_all add: is_cond_def omits.simps)

lemmas cond_counts = loose.simps [where i = "IK_COND t cs co ts to fs fo" for t cs co ts to fs fo, simplified]
  omits.simps [where i = "IK_COND t cs co ts to fs fo" for t cs co ts to fs fo, simplified]

section \<open>The counts add up\<close>

lemma consumes_uses: "int_ok u \<Longrightarrow> instr_consumes_rax_temp g i u \<Longrightarrow> 0 < instr_uses i u"
proof -
  assume "int_ok u"
  then have self: "operand_uses (OP_TEMP u) u = 1" by (simp add: operand_uses_def)
  have args: "args \<noteq> [] \<Longrightarrow> hd args = OP_TEMP u \<Longrightarrow> 0 < operands_uses args u" for args
    using self by (cases args) auto
  assume "instr_consumes_rax_temp g i u"
  then show ?thesis
    using self args by (cases i) (auto simp: instr_consumes_rax_temp_def Let_def)
qed

lemma omit_of_cases:
  assumes "omit_of g locs f i is = u" "0 \<le> u"
  shows "u = instr_def_temp i \<and> (if is = [] then f = u else instr_consumes_rax_temp g (hd is) u) \<and>
    (\<exists>loc. lookup_loc locs u = Inr loc \<and> loc_uses loc = 1)"
  using assms by (auto simp: omit_of_def choose_omit_def Let_def res_bind_def split: list.splits if_splits sum.splits)

lemma pending_final: "pending g locs p is f = u \<Longrightarrow> 0 \<le> u \<Longrightarrow> is \<noteq> [] \<Longrightarrow> f = u"
proof (induction "is" arbitrary: p)
  case (Cons i "is")
  then show ?case using omit_of_cases [of g locs f i "[]" u] by (cases "is = []") auto
qed simp

lemma spare_section:
  assumes "0 \<le> u" "int_ok u" "p = u \<longrightarrow> 0 < n"
  shows "n = spare p n u + (if p = u then 1 else 0)"
  using assms by (auto simp: spare_def)

lemma operand_temp_uses: "operand_temp op = u \<Longrightarrow> 0 \<le> u \<Longrightarrow> 0 < operand_uses op u"
  by (auto simp: operand_temp_def operand_uses_def split: Operand.splits)

lemma count_section:
  assumes "0 \<le> u"
    and "instrs_uses is u + (if pending g locs (- 1) is (operand_temp op) = u then 1 else 0) =
      looses g locs (- 1) is (operand_temp op) u + omitted g locs is (operand_temp op) u"
  shows "instrs_uses is u + operand_uses op u =
    looses g locs (- 1) is (operand_temp op) u +
    spare (pending g locs (- 1) is (operand_temp op)) (operand_uses op u) u +
    omitted g locs is (operand_temp op) u"
proof -
  have "0 < operand_uses op u" if "pending g locs (- 1) is (operand_temp op) = u"
    using that assms(1) pending_final [OF that assms(1)] operand_temp_uses [of op u] by (cases "is = []") auto
  then show ?thesis using assms(2) by (auto simp: spare_def split: if_splits)
qed

lemma count_instr:
  shows "0 \<le> u \<Longrightarrow> int_ok u \<Longrightarrow> (p = u \<longrightarrow> instr_consumes_rax_temp g i u) \<Longrightarrow>
      instr_uses i u = loose g locs p i u + omits g locs i u + (if p = u then 1 else 0)"
    and "0 \<le> u \<Longrightarrow> int_ok u \<Longrightarrow> (p = u \<longrightarrow> is = [] \<or> instr_consumes_rax_temp g (hd is) u) \<Longrightarrow>
      instrs_uses is u + (if pending g locs p is f = u then 1 else 0) =
      looses g locs p is f u + omitted g locs is f u + (if p = u then 1 else 0)"
proof (induction g locs p i u and g locs p "is" f u rule: loose_looses.induct)
  case (1 g locs p i u)
  show ?case
  proof (cases "is_cond i")
    case True
    then obtain t cs co ts to fs fo where i: "i = IK_COND t cs co ts to fs fo"
      by (auto simp: is_cond_def split: Instr.splits)
    with "1.prems" have p: "p \<noteq> u" by (auto simp: instr_consumes_rax_temp_def)
    have u: "- 1 \<noteq> u" using "1.prems"(1) by linarith
    note s = count_section [OF "1.prems"(1), of _ g locs]
    have "instr_uses i u = (instrs_uses cs u + operand_uses co u) + (instrs_uses ts u + operand_uses to u) +
        (instrs_uses fs u + operand_uses fo u)"
      by (simp add: i)
    then show ?thesis
      using s [of cs co] s [of ts to] s [of fs fo] "1.IH" [OF i "1.prems"(1,2)] p u
      by (simp only: i cond_counts) (simp del: instr_uses.simps)
  next
    case False
    then show ?thesis
      using "1.prems" consumes_uses [OF "1.prems"(2)] by (auto simp: loose_simple omits_simple spare_def)
  qed
next
  case (3 g locs p i "is" f u)
  let ?o = "omit_of g locs f i is"
  have "?o = u \<longrightarrow> is = [] \<or> instr_consumes_rax_temp g (hd is) u"
    using omit_of_cases [of g locs f i "is" u] "3.prems"(1) by (cases "is = []") auto
  with 3 show ?case by simp
qed simp

section \<open>Blocks and functions\<close>

definition block_pending :: "Globals \<Rightarrow> LocArray \<Rightarrow> Block \<Rightarrow> int" where
  "block_pending g locs b = pending g locs (- 1) (block_instrs b) (block_first_term_temp g b)"

definition block_loose :: "Globals \<Rightarrow> LocArray \<Rightarrow> Block \<Rightarrow> int \<Rightarrow> nat" where
  "block_loose g locs b u =
     looses g locs (- 1) (block_instrs b) (block_first_term_temp g b) u +
     spare (block_pending g locs b) (term_uses (block_term b) u) u"

definition block_omitted :: "Globals \<Rightarrow> LocArray \<Rightarrow> Block \<Rightarrow> int \<Rightarrow> nat" where
  "block_omitted g locs b = omitted g locs (block_instrs b) (block_first_term_temp g b)"

definition elided_temps :: "Globals \<Rightarrow> LocArray \<Rightarrow> Block list \<Rightarrow> int set" where
  "elided_temps g locs bs = {u. 0 \<le> u \<and> (\<exists>b \<in> set bs. 0 < block_omitted g locs b u)}"

lemma term_temp_uses:
  "block_first_term_temp g b = u \<Longrightarrow> 0 \<le> u \<Longrightarrow> int_ok u \<Longrightarrow> 0 < term_uses (block_term b) u"
  by (auto simp: block_first_term_temp_def operand_uses_def Let_def split: Terminator.splits Operand.splits if_splits)

lemma count_block:
  assumes "0 \<le> u" "int_ok u"
  shows "instrs_uses (block_instrs b) u + term_uses (block_term b) u = block_loose g locs b u + block_omitted g locs b u"
proof -
  have "u \<noteq> - 1" using assms(1) by linarith
  then have "instrs_uses (block_instrs b) u + (if block_pending g locs b = u then 1 else 0) =
      looses g locs (- 1) (block_instrs b) (block_first_term_temp g b) u + block_omitted g locs b u"
    using count_instr(2) [OF assms, of "- 1" "block_instrs b" g locs "block_first_term_temp g b"]
    by (simp add: block_pending_def block_omitted_def)
  moreover have "0 < term_uses (block_term b) u" if "block_pending g locs b = u"
    using that assms(1) \<open>u \<noteq> - 1\<close> pending_final [of g locs "- 1" "block_instrs b" "block_first_term_temp g b" u]
      term_temp_uses [OF _ assms, of g b]
    by (cases "block_instrs b = []") (auto simp: block_pending_def)
  ultimately show ?thesis by (auto simp: block_loose_def spare_def split: if_splits)
qed

lemma omit_of_def_temp:
  assumes "omit_of g locs f i is = u" "0 \<le> u" "typed_instr i"
  shows "int_ok u \<and> (\<exists>loc. lookup_loc locs u = Inr loc \<and> loc_uses loc = 1)"
  using omit_of_cases [OF assms(1,2)] assms(2,3) by (cases i) (auto simp: instr_def_temp_def)

lemma omitted_def_temp:
  shows "0 \<le> u \<Longrightarrow> 0 < omits g locs i u \<Longrightarrow> typed_instr i \<Longrightarrow>
      int_ok u \<and> (\<exists>loc. lookup_loc locs u = Inr loc \<and> loc_uses loc = 1)"
    and "0 \<le> u \<Longrightarrow> 0 < omitted g locs is f u \<Longrightarrow> list_all typed_instr is \<Longrightarrow>
      int_ok u \<and> (\<exists>loc. lookup_loc locs u = Inr loc \<and> loc_uses loc = 1)"
proof (induction g locs i u and g locs "is" f u rule: omits_omitted.induct)
  case (1 g locs i u)
  show ?case
  proof (cases "is_cond i")
    case True
    then obtain t cs co ts to fs fo where i: "i = IK_COND t cs co ts to fs fo"
      by (auto simp: is_cond_def split: Instr.splits)
    with 1 show ?thesis by (auto simp: cond_counts)
  qed (use 1 in \<open>simp add: omits_simple\<close>)
next
  case (3 g locs i "is" f u)
  then have "0 < omits g locs i u \<or> omit_of g locs f i is = u \<or> 0 < omitted g locs is f u"
    by (auto split: if_splits)
  with 3 omit_of_def_temp [of g locs f i "is" u] show ?case by auto
qed simp

lemma lookup_uses:
  assumes "allocate_function g fn = Inr (locs, frame)" "lookup_loc locs t = Inr loc"
  shows "loc_uses loc = int (function_uses fn t)"
proof -
  obtain l0 where i: "unused l0" and c: "counted (function_uses fn) l0 locs"
    using allocate_function_steps [OF assms(1)] by metis
  have "allocated locs t" "loc = locs ! nat t"
    using assms(2) by (auto simp: lookup_loc_allocated die_def split: if_splits)
  then have "allocated l0 t" "loc = locs ! nat t" using allocated_counted [OF c] by simp_all
  then show ?thesis
    using i c by (simp add: unused_def counted_def allocated_def nat_less_iff)
qed

lemma elided_counts:
  assumes "allocate_function a fn = Inr (locs, frame)" "typed_function fn"
    and "u \<in> elided_temps g locs (fn_blocks fn)"
  shows "int_ok u" "0 \<le> u" "function_uses fn u = 1"
    "b \<in> set (fn_blocks fn) \<Longrightarrow> block_loose g locs b u = 0"
proof -
  obtain d where d: "0 \<le> u" "d \<in> set (fn_blocks fn)" "0 < block_omitted g locs d u"
    using assms(3) by (auto simp: elided_temps_def)
  show "0 \<le> u" by (rule d)
  have "list_all typed_instr (block_instrs d)"
    using assms(2) d(2) by (auto simp: typed_function_def typed_block_def list_all_iff)
  from omitted_def_temp(2) [OF d(1) d(3) [unfolded block_omitted_def] this]
  obtain loc where u: "int_ok u" "lookup_loc locs u = Inr loc" "loc_uses loc = 1" by blast
  show "int_ok u" by (rule u)
  show uses: "function_uses fn u = 1" using lookup_uses [OF assms(1) u(2)] u(3) by simp
  then have s: "(\<Sum>b \<leftarrow> fn_blocks fn. block_loose g locs b u) + (\<Sum>b \<leftarrow> fn_blocks fn. block_omitted g locs b u) = 1"
    using count_block [OF d(1) u(1), of _ g locs] by (simp add: function_uses_def sum_list_addf)
  have "block_omitted g locs d u \<le> (\<Sum>b \<leftarrow> fn_blocks fn. block_omitted g locs b u)"
    using d(2) by (intro member_le_sum_list) auto
  with s d(3) have "(\<Sum>b \<leftarrow> fn_blocks fn. block_loose g locs b u) = 0" by linarith
  then show "b \<in> set (fn_blocks fn) \<Longrightarrow> block_loose g locs b u = 0" by auto
qed

end
