(* ===== verification/Amd64List.thy ===== *)
theory Amd64List
  imports Amd64Calls UseCounts
begin

text \<open>
  Lists of instructions, conditionals included: the code of a list simulates the list.
\<close>

section \<open>Jumps and labels\<close>

lemma word_ok_ref: "typed_name fn \<Longrightarrow> word_ok p \<Longrightarrow> word_ok (emit_named_ref p fn n)"
  using word_ok_dec [of n]
  by (auto simp: word_ok_def emit_named_ref_def typed_name_def list_all_iff is_blank_def newline_def)

lemma jump_words:
  assumes "word_ok w" "word_ok r"
  shows "m1_words (''  '' @ w @ '' %'' @ r @ [newline]) = [w, CHR ''%'' # r]"
proof -
  have "word_ok (CHR ''%'' # r)" using assms(2) by (auto simp: word_ok_def newline_def)
  then show ?thesis
    using m1_words_word(1) [OF assms(1), of "CHR ''%'' # r @ [newline]"] m1_words_word(2) [of "CHR ''%'' # r" "[]"]
    by (simp add: m1_words_blank) (simp add: m1_words_def)
qed

lemma label_words:
  assumes "word_ok r"
  shows "m1_words (CHR '':'' # r @ [newline]) = [CHR '':'' # r]"
proof -
  have "word_ok (CHR '':'' # r)" using assms by (auto simp: word_ok_def newline_def)
  from m1_words_word(2) [OF this, of "[]"] show ?thesis by simp (simp add: m1_words_def)
qed

lemma jump_step:
  assumes "amd64_hex w = Some ''E9''" "after_label r P = Some target"
  shows "x86_step A B P (w # (CHR ''%'' # r) # ws, rets, x) = Some (target, rets, x)"
proof -
  have "\<not> is_label w" using assms(1) amd64_hex_no_label [of w] by auto
  with assms show ?thesis by (simp add: x86_step.simps(2) jump_operand_def)
qed

lemma cond_jump_step:
  assumes "amd64_hex w = Some (''0F8'' @ h)" "x86_cc h x = Some b" "after_label r P = Some target"
  shows "x86_step A B P (w # (CHR ''%'' # r) # ws, rets, x) = Some (if b then target else ws, rets, x)"
proof -
  have "\<not> is_label w" using assms(1) amd64_hex_no_label [of w] by auto
  with assms show ?thesis by (simp add: x86_step.simps(2) jump_operand_def)
qed

lemma label_step: "x86_step A B P ((CHR '':'' # l) # ws, rets, x) = Some (ws, rets, x)"
  by (simp add: x86_step.simps(2) is_label_def)

lemma place_of_label:
  "linked A P names \<Longrightarrow> P = pre @ (CHR '':'' # l) # rest \<Longrightarrow> after_label l P = Some rest"
  using after_label_unique [of pre l rest] by (simp add: linked_def)

lemma sim_flags [simp]: "sim c r s (x86_flags a b x) = sim c r s x"
  by (simp add: sim_def params_in_def arg_reg_def x86_flags_def)

section \<open>The shape of a conditional\<close>

definition cond_text :: "string \<Rightarrow> string \<Rightarrow> string \<Rightarrow> string \<Rightarrow> string \<Rightarrow> string" where
  "cond_text els don a b d =
     a @ ''  TEST\<newline>'' @ (''  '' @ ''JUMP_EQ'' @ '' %'' @ els @ [newline]) @ b @
     (''  '' @ ''JUMP'' @ '' %'' @ don @ [newline]) @ (CHR '':'' # els @ [newline]) @ d @
     (CHR '':'' # don @ [newline])"

lemma code_text_jump: "w \<noteq> [] \<Longrightarrow> hd w = CHR ''J'' \<or> hd w = CHR ''H'' \<Longrightarrow> code_text (''  '' @ w @ '' %'' @ r @ [newline])"
  by (cases w) (auto simp: newline_def intro!: code_text_open)

lemma cond_text_words:
  assumes "code_text a" "code_text b" "code_text d" "word_ok els" "word_ok don"
  shows "code_text (cond_text els don a b d)"
    "m1_words (cond_text els don a b d) =
       m1_words a @ ''TEST'' # ''JUMP_EQ'' # (CHR ''%'' # els) # m1_words b @ ''JUMP'' # (CHR ''%'' # don) #
       (CHR '':'' # els) # m1_words d @ [CHR '':'' # don]"
proof -
  have lines: "whole_lines (''  TEST\<newline>'')" "whole_lines (''  '' @ ''JUMP_EQ'' @ '' %'' @ els @ [newline])"
    "whole_lines (''  '' @ ''JUMP'' @ '' %'' @ don @ [newline])" "whole_lines (CHR '':'' # els @ [newline])"
    "whole_lines a" "whole_lines b" "whole_lines d"
    using assms(1-3) by (simp_all add: whole_lines_def code_text_def newline_def)
  have w: "word_ok ''JUMP_EQ''" "word_ok ''JUMP''" by (simp_all add: word_ok_def newline_def)
  show "m1_words (cond_text els don a b d) =
       m1_words a @ ''TEST'' # ''JUMP_EQ'' # (CHR ''%'' # els) # m1_words b @ ''JUMP'' # (CHR ''%'' # don) #
       (CHR '':'' # els) # m1_words d @ [CHR '':'' # don]"
    unfolding cond_text_def m1_words_lines [OF lines(1)] m1_words_lines [OF lines(2)] m1_words_lines [OF lines(3)]
      m1_words_lines [OF lines(4)] m1_words_lines [OF lines(5)] m1_words_lines [OF lines(6)] m1_words_lines [OF lines(7)]
      jump_words [OF w(1) assms(4)] jump_words [OF w(2) assms(5)] label_words [OF assms(4)] label_words [OF assms(5)]
    by (simp add: m1_words_def newline_def)
  show "code_text (cond_text els don a b d)"
    unfolding cond_text_def
    by (intro code_text_append assms code_text_label code_text_jump code_text_literals) simp_all
qed

lemma runsD:
  "runs A B P t x y \<Longrightarrow> P = pre @ m1_words t @ rest \<Longrightarrow> opens rest \<Longrightarrow>
   steps A B P (m1_words t @ rest, rets, x) (rest, rets, y)"
  unfolding runs_def by blast

lemma cond_reaches:
  assumes "prog_ok c" "code_text b" "code_text d" "word_ok els" "word_ok don"
    and "reaches c a x Q"
    and "\<And>y. Q y \<Longrightarrow> reaches c (if rax y \<noteq> 0 then b else d) (x86_flags (rax y) 0 y) R"
  shows "reaches c (cond_text els don a b d) x R"
proof -
  have a: "code_text a" using assms(6) by (simp add: reaches_def)
  note w = cond_text_words [OF a assms(2-5)]
  let ?A = "s_address c" and ?B = "s_spot c" and ?P = "s_prog c"
  have link: "linked ?A ?P (s_names c)" using assms(1) by (simp add: prog_ok_def)
  have hex: "amd64_hex ''JUMP_EQ'' = Some (''0F8'' @ ''4'')" "amd64_hex ''JUMP'' = Some ''E9''"
    by (simp_all add: machine_simps)
  have test: "runs ?A ?B ?P ''  TEST\<newline>'' y (x86_flags (rax y) 0 y)" for y
    using exec_moves(5) [of c y] by (simp add: exec_def)
  have tw: "m1_words ''  TEST\<newline>'' = [''TEST'']" by (simp add: m1_words_def newline_def)
  show ?thesis
    unfolding reaches_def w(2)
  proof (intro conjI allI impI w(1))
    fix pre rest rets
    define don_at where "don_at = (CHR '':'' # don) # rest"
    define els_at where "els_at = m1_words d @ don_at"
    define after where "after = m1_words b @ ''JUMP'' # (CHR ''%'' # don) # (CHR '':'' # els) # els_at"
    define jump where "jump = ''JUMP_EQ'' # (CHR ''%'' # els) # after"
    assume "?P = pre @ (m1_words a @ ''TEST'' # ''JUMP_EQ'' # (CHR ''%'' # els) # m1_words b @ ''JUMP'' #
       (CHR ''%'' # don) # (CHR '':'' # els) # m1_words d @ [CHR '':'' # don]) @ rest" and rest: "opens rest"
    then have P: "?P = pre @ m1_words a @ ''TEST'' # jump"
      by (simp add: jump_def after_def els_at_def don_at_def)
    have els: "after_label els ?P = Some els_at"
      by (rule place_of_label [OF link, of "pre @ m1_words a @ ''TEST'' # ''JUMP_EQ'' # (CHR ''%'' # els) #
          m1_words b @ [''JUMP'', CHR ''%'' # don]"]) (simp add: P jump_def after_def)
    have don: "after_label don ?P = Some rest"
      by (rule place_of_label [OF link, of "pre @ m1_words a @ ''TEST'' # ''JUMP_EQ'' # (CHR ''%'' # els) #
          m1_words b @ ''JUMP'' # (CHR ''%'' # don) # (CHR '':'' # els) # m1_words d"])
        (simp add: P jump_def after_def els_at_def don_at_def)
    have op: "opens (''TEST'' # jump)" "opens jump" "opens (''JUMP'' # r)" "opens don_at" for r
      by (simp_all add: opens_def m1_number_def jump_def don_at_def)
    obtain y where y: "Q y" "steps ?A ?B ?P (m1_words a @ ''TEST'' # jump, rets, x) (''TEST'' # jump, rets, y)"
      using reachesD [OF assms(6) P op(1)] by blast
    let ?y = "x86_flags (rax y) 0 y"
    have "?P = (pre @ m1_words a) @ m1_words ''  TEST\<newline>'' @ jump" using P tw by simp
    from runsD [OF test [of y] this op(2)] have t: "steps ?A ?B ?P (''TEST'' # jump, rets, y) (jump, rets, ?y)"
      unfolding tw by simp
    have j: "steps ?A ?B ?P (jump, rets, ?y) (if rax y = 0 then els_at else after, rets, ?y)"
      unfolding jump_def using cond_jump_step [OF hex(1) _ els, of ?y "rax y = 0"]
      by (intro steps_one) (simp add: x86_cc_flags)
    have "\<exists>z. R z \<and> steps ?A ?B ?P (if rax y = 0 then els_at else after, rets, ?y) (rest, rets, z)"
    proof (cases "rax y = 0")
      case True
      have "?P = (pre @ m1_words a @ ''TEST'' # ''JUMP_EQ'' # (CHR ''%'' # els) #
          m1_words b @ ''JUMP'' # (CHR ''%'' # don) # [CHR '':'' # els]) @ m1_words d @ don_at"
        by (simp add: P jump_def after_def els_at_def)
      from reachesD [OF _ this op(4), of _ R rets] assms(7) [OF y(1)] True
      obtain z where "R z" "steps ?A ?B ?P (m1_words d @ don_at, rets, ?y) (don_at, rets, z)" by auto
      moreover have "steps ?A ?B ?P (don_at, rets, z) (rest, rets, z)" for z
        unfolding don_at_def by (rule steps_one [OF label_step])
      ultimately show ?thesis using True steps_trans by (auto simp: els_at_def)
    next
      case False
      let ?r = "''JUMP'' # (CHR ''%'' # don) # (CHR '':'' # els) # els_at"
      have "?P = (pre @ m1_words a @ ''TEST'' # ''JUMP_EQ'' # [CHR ''%'' # els]) @ m1_words b @ ?r"
        by (simp add: P jump_def after_def)
      from reachesD [OF _ this op(3), of _ R rets] assms(7) [OF y(1)] False
      obtain z where "R z" "steps ?A ?B ?P (m1_words b @ ?r, rets, ?y) (?r, rets, z)" by auto
      moreover have "steps ?A ?B ?P (?r, rets, z) (rest, rets, z)" for z
        by (rule steps_one [OF jump_step [OF hex(2) don]])
      ultimately show ?thesis using False steps_trans by (auto simp: after_def)
    qed
    then obtain z where z: "R z" "steps ?A ?B ?P (if rax y = 0 then els_at else after, rets, ?y) (rest, rets, z)" by blast
    have eq: "(m1_words a @ ''TEST'' # ''JUMP_EQ'' # (CHR ''%'' # els) # m1_words b @
        ''JUMP'' # (CHR ''%'' # don) # (CHR '':'' # els) # m1_words d @ [CHR '':'' # don]) @ rest = m1_words a @ ''TEST'' # jump"
      by (simp add: jump_def after_def els_at_def don_at_def)
    show "\<exists>z. R z \<and> steps ?A ?B ?P ((m1_words a @ ''TEST'' # ''JUMP_EQ'' # (CHR ''%'' # els) # m1_words b @
        ''JUMP'' # (CHR ''%'' # don) # (CHR '':'' # els) # m1_words d @ [CHR '':'' # don]) @ rest, rets, x) (rest, rets, z)"
      unfolding eq using z(1) steps_trans [OF y(2) steps_trans [OF t steps_trans [OF j z(2)]]] by blast
  qed
qed

section \<open>What the emitter remembers\<close>

lemma emit_load_operand_omit:
  assumes "amd64 g" "emit_load_operand g locs bias op st = Inr (t, st')"
  shows "omit_store_temp st' = omit_store_temp st"
  using assms
  by (cases op) (auto simp: emit_load_operand_def emit_load_immediate_def emit_load_immediate_bytes_def
      emit_load_location_def emit_load_stack_def emit_stack_address_def Let_def act_simps act_seq_def amd64_def
      when_do_def with_res_def split: if_splits LocKind.splits)

lemma emit_instrs_omit:
  "emit_instrs g fn locs n is f st = Inr (t, st') \<Longrightarrow> omit_store_temp st = - 1 \<Longrightarrow> omit_store_temp st' = - 1"
proof (induction "is" arbitrary: st t)
  case (Cons i "is")
  from Cons.prems(1) obtain st2 t2 where
    "emit_instrs g fn locs n is f (st2\<lparr>omit_store_temp := - 1\<rparr>) = Inr (t2, st')"
    by (auto simp: act_simps act_seq_def set_omit_def with_res_def)
  from Cons.IH [OF this] show ?case by simp
qed (simp add: act_simps)

lemma emit_instr_rax_temp:
  assumes "amd64 g" "emit_instr g fn locs n i st = Inr (t, st')" "0 \<le> instr_def_temp i"
  shows "rax_temp st' = instr_def_temp i"
proof -
  obtain s tx where store: "emit_store_temp g locs (instr_def_temp i) s = Inr (tx, st')"
    using assms
    by (cases i) (auto simp: instr_def_temp_def emit_extend_def emit_memory_load_def emit_bin_def emit_call_def
        emit_calli_def Let_def act_simps act_seq_def amd64_def when_do_def split: option.splits if_splits)
  from emit_store_temp_state [OF assms(1) this] show ?thesis by simp
qed

lemma omit_of_negative: "omit_of g locs f i is \<noteq> - 1 \<Longrightarrow> 0 \<le> omit_of g locs f i is"
  by (auto simp: omit_of_def choose_omit_def Let_def res_bind_def split: list.splits sum.splits if_splits)

lemma omit_of_cond: "is_cond i \<Longrightarrow> omit_of g locs f i is = - 1"
  by (auto simp: omit_of_def choose_omit_def Let_def instr_def_temp_def is_cond_def split: list.splits Instr.splits)

text \<open>The pending temporary is in RAX, and the next instruction takes it from there.\<close>

lemma pending_step:
  assumes "amd64 g" "emit_instr g fn locs n i st = Inr (t, st')"
  shows "omit_of g locs f i is = - 1 \<or>
    omit_of g locs f i is = rax_temp st' \<and> (is = [] \<or> instr_consumes_rax_temp g (hd is) (omit_of g locs f i is))"
proof (cases "omit_of g locs f i is = - 1")
  case False
  then have "0 \<le> omit_of g locs f i is" by (rule omit_of_negative)
  with omit_of_cases [OF refl this] emit_instr_rax_temp [OF assms] show ?thesis by (auto split: if_splits)
qed simp

lemma pending_in_rax:
  assumes "amd64 g"
  shows "emit_instrs g fn locs n is f st = Inr (t, st') \<Longrightarrow> p = - 1 \<or> p = rax_temp st \<Longrightarrow>
    pending g locs p is f = - 1 \<or> pending g locs p is f = rax_temp st'"
proof (induction "is" arbitrary: p st t)
  case (Cons i "is")
  obtain t1 st1 st2 t2 where e: "emit_instr g fn locs n i st1 = Inr (t1, st2)"
    "emit_instrs g fn locs n is f (st2\<lparr>omit_store_temp := - 1\<rparr>) = Inr (t2, st')"
    using Cons.prems(1) by (auto simp: act_simps act_seq_def set_omit_def with_res_def)
  from Cons.IH [OF e(2), of "omit_of g locs f i is"] pending_step [OF assms e(1), of f "is"] show ?case by auto
qed (auto simp: act_simps)

section \<open>Lists and conditionals\<close>

text \<open>
  \<open>elided_ok\<close>: the uses of the omitted temporaries are as the counts of theory \<open>UseCounts\<close> say, and
  \<open>p\<close> is the one that is pending, in RAX.
\<close>

definition elided_fit :: "site \<Rightarrow> (int \<Rightarrow> nat) \<Rightarrow> (int \<Rightarrow> nat) \<Rightarrow> bool" where
  "elided_fit c l m \<longleftrightarrow> (\<forall>u \<in> s_elided c. l u = 0) \<and> (\<forall>u. 0 \<le> u \<longrightarrow> 0 < m u \<longrightarrow> u \<in> s_elided c)"

definition instr_sim :: "Globals \<Rightarrow> site \<Rightarrow> string \<Rightarrow> Instr \<Rightarrow> bool" where
  "instr_sim g c fn i \<longleftrightarrow>
     (\<forall>st t st' s s' p x.
        emit_instr g fn (s_locs c) (s_frame c) i st = Inr (t, st') \<longrightarrow> typed_instr i \<longrightarrow>
        ir_instr (site_env c) i (before i s) = Some s' \<longrightarrow> may_omit c st \<longrightarrow>
        (is_cond i \<longrightarrow> omit_store_temp st = - 1) \<longrightarrow>
        p = - 1 \<or> p = rax_temp st \<and> instr_consumes_rax_temp g i p \<longrightarrow>
        elided_fit c (loose g (s_locs c) p i) (omits g (s_locs c) i) \<longrightarrow> sim c (rax_temp st) s x \<longrightarrow>
        reaches c t x (sim c (rax_temp st') s'))"

definition list_sim :: "Globals \<Rightarrow> site \<Rightarrow> string \<Rightarrow> Instr list \<Rightarrow> bool" where
  "list_sim g c fn is \<longleftrightarrow>
     (\<forall>f st t st' s s' p x.
        emit_instrs g fn (s_locs c) (s_frame c) is f st = Inr (t, st') \<longrightarrow> list_all typed_instr is \<longrightarrow>
        ir_instrs (site_env c) is s = Some s' \<longrightarrow> omit_store_temp st = - 1 \<longrightarrow>
        p = - 1 \<or> p = rax_temp st \<and> (is = [] \<or> instr_consumes_rax_temp g (hd is) p) \<longrightarrow>
        elided_fit c (looses g (s_locs c) p is f) (omitted g (s_locs c) is f) \<longrightarrow> sim c (rax_temp st) s x \<longrightarrow>
        reaches c t x (sim c (rax_temp st') s'))"

lemma list_simD:
  assumes "list_sim g c fn is" "emit_instrs g fn (s_locs c) (s_frame c) is f st = Inr (t, st')"
    and "list_all typed_instr is" "ir_instrs (site_env c) is s = Some s'" "omit_store_temp st = - 1"
    and "p = - 1 \<or> p = rax_temp st \<and> (is = [] \<or> instr_consumes_rax_temp g (hd is) p)"
    and "elided_fit c (looses g (s_locs c) p is f) (omitted g (s_locs c) is f)" "sim c (rax_temp st) s x"
  shows "reaches c t x (sim c (rax_temp st') s')"
  using assms unfolding list_sim_def by blast

lemma instr_simD:
  assumes "instr_sim g c fn i" "emit_instr g fn (s_locs c) (s_frame c) i st = Inr (t, st')" "typed_instr i"
    and "ir_instr (site_env c) i (before i s) = Some s'" "may_omit c st" "is_cond i \<longrightarrow> omit_store_temp st = - 1"
    and "p = - 1 \<or> p = rax_temp st \<and> instr_consumes_rax_temp g i p"
    and "elided_fit c (loose g (s_locs c) p i) (omits g (s_locs c) i)" "sim c (rax_temp st) s x"
  shows "reaches c t x (sim c (rax_temp st') s')"
  using assms unfolding instr_sim_def by blast

lemma list_sim_from_instrs:
  assumes "amd64 g" "\<forall>i \<in> set is. instr_sim g c fn i"
  shows "list_sim g c fn is"
  using assms(2)
proof (induction "is")
  case Nil
  then show ?case by (auto simp: list_sim_def act_simps intro: exec_reaches [OF exec_Nil])
next
  case (Cons i "is")
  have rest: "list_sim g c fn is" and inst: "instr_sim g c fn i" using Cons by simp_all
  show ?case
    unfolding list_sim_def
  proof (intro allI impI)
    fix f st t st' s s' p x
    assume em: "emit_instrs g fn (s_locs c) (s_frame c) (i # is) f st = Inr (t, st')"
      and ty: "list_all typed_instr (i # is)" and ir: "ir_instrs (site_env c) (i # is) s = Some s'"
      and om: "omit_store_temp st = - 1"
      and p: "p = - 1 \<or> p = rax_temp st \<and> (i # is = [] \<or> instr_consumes_rax_temp g (hd (i # is)) p)"
      and fit: "elided_fit c (looses g (s_locs c) p (i # is) f) (omitted g (s_locs c) (i # is) f)"
      and sim: "sim c (rax_temp st) s x"
    define d where "d = omit_of g (s_locs c) f i is"
    obtain t1 st2 t2 where e: "emit_instr g fn (s_locs c) (s_frame c) i (st\<lparr>omit_store_temp := d\<rparr>) = Inr (t1, st2)"
      "emit_instrs g fn (s_locs c) (s_frame c) is f (st2\<lparr>omit_store_temp := - 1\<rparr>) = Inr (t2, st')" "t = t1 @ t2"
      using em by (auto simp: act_simps act_seq_def set_omit_def with_res_def d_def omit_of_def)
    obtain s1 where s1: "ir_instr (site_env c) i (before i s) = Some s1" "ir_instrs (site_env c) is s1 = Some s'"
      using ir by (auto simp: Option.bind_eq_Some_conv)
    have fits: "elided_fit c (loose g (s_locs c) p i) (omits g (s_locs c) i)"
      "elided_fit c (looses g (s_locs c) d is f) (omitted g (s_locs c) is f)" "0 \<le> d \<Longrightarrow> d \<in> s_elided c"
      using fit by (auto simp: elided_fit_def d_def)
    have d: "may_omit c (st\<lparr>omit_store_temp := d\<rparr>)" "is_cond i \<longrightarrow> d = - 1"
      using fits(3) omit_of_cond by (auto simp: may_omit_def d_def)
    have one: "reaches c t1 x (sim c (rax_temp st2) s1)"
      using instr_simD [OF inst e(1) _ s1(1) d(1) _ _ fits(1), of x] ty d(2) p sim by simp
    note pd = pending_step [OF assms(1) e(1), of f "is", folded d_def]
    have two: "reaches c t2 y (sim c (rax_temp st') s')" if "sim c (rax_temp st2) s1 y" for y
      using list_simD [OF rest e(2) _ s1(2) _ _ fits(2), of y] pd ty that by simp
    have "code_text t2" by (rule emitsD [OF emits_instrs(2) [OF assms(1)] e(2)])
    from reaches_append [OF one two this] show "reaches c t x (sim c (rax_temp st') s')" by (simp add: e(3))
  qed
qed

text \<open>A list of instructions and the operand that follows it, taken from RAX where it is pending.\<close>

lemma section_sim:
  assumes "amd64 g" "site_ok c" "list_sim g c fn is" "\<forall>u \<in> s_elided c. 0 \<le> u \<and> int_ok u"
    and "emit_instrs g fn (s_locs c) (s_frame c) is f st = Inr (t1, st1)"
    and "emit_load_operand g (s_locs c) 0 op st1 = Inr (t2, st2)"
    and "list_all typed_instr is" "typed_operand op"
    and "ir_instrs (site_env c) is s = Some s1" "ir_operand (site_env c) s1 op = Some v" "omit_store_temp st = - 1"
    and "elided_fit c (looses g (s_locs c) (- 1) is f) (omitted g (s_locs c) is f)"
    and "\<forall>u \<in> s_elided c. spare (pending g (s_locs c) (- 1) is f) (operand_uses op u) u = 0"
    and "sim c (rax_temp st) s x"
  shows "reaches c (t1 @ t2) x (\<lambda>y. sim c (rax_temp st2) s1 y \<and> rax y = v)"
proof (rule reaches_append)
  show "reaches c t1 x (sim c (rax_temp st1) s1)"
    using list_simD [OF assms(3,5,7,9,11) _ assms(12,14)] by simp
  show "code_text t2" by (rule emitsD [OF emits_load_operand(1) [OF assms(1)] assms(6)])
  have "0 = (0 :: int) \<and> rax_temp st1 = u" if u: "u \<in> s_elided c" "0 < operand_uses op u" for u
  proof -
    have "pending g (s_locs c) (- 1) is f = u" "u \<noteq> - 1"
      using assms(4,13) u by (fastforce simp: spare_def operand_uses_def split: if_splits)+
    with pending_in_rax [OF assms(1,5), of "- 1"] show ?thesis by auto
  qed
  then have fit: "loadable c (rax_temp st1) 0 op" using assms(8) by (simp add: loadable_def)
  show "reaches c t2 y (\<lambda>y. sim c (rax_temp st2) s1 y \<and> rax y = v)" if "sim c (rax_temp st1) s1 y" for y
    using load_sim [OF assms(1,2,6,10) fit that] exec_reaches [of c t2 y "y\<lparr>rax := v\<rparr>"] by simp
qed

lemma store_reaches:
  assumes "amd64 g" "site_ok c" "emit_store_temp g (s_locs c) t st = Inr (tx, st')" "omit_store_temp st = - 1"
    and "assign (site_env c) t v s = Some s'" "sim c r s x \<and> rax x = v"
  shows "reaches c tx x (sim c (- 1) s')"
proof -
  have "omit_store_temp st = t \<longrightarrow> t \<in> s_elided c" using assms(4,5) by (auto simp: assign_def split: if_splits)
  with store_sim [OF assms(1-3), of s x s'] assms(5,6) obtain y where "exec c tx x y" "sim c (rax_temp st') s' y"
    by (auto simp: sim_def)
  then show ?thesis using sim_forget exec_reaches by blast
qed

text \<open>One arm of a conditional: its instructions, its operand, and the store of the result.\<close>

lemma arm_sim:
  assumes "amd64 g" "site_ok c" "list_sim g c fn is" "\<forall>u \<in> s_elided c. 0 \<le> u \<and> int_ok u"
    and "emit_instrs g fn (s_locs c) (s_frame c) is (operand_temp op) (st\<lparr>rax_temp := - 1\<rparr>) = Inr (t1, st1)"
    and "emit_load_operand g (s_locs c) 0 op st1 = Inr (t2, st2)" "emit_store_temp g (s_locs c) t st2 = Inr (t3, st3)"
    and "list_all typed_instr is" "typed_operand op" "omit_store_temp st = - 1"
    and "elided_fit c (looses g (s_locs c) (- 1) is (operand_temp op)) (omitted g (s_locs c) is (operand_temp op))"
    and "\<forall>u \<in> s_elided c. spare (pending g (s_locs c) (- 1) is (operand_temp op)) (operand_uses op u) u = 0"
    and "\<exists>s2 v. ir_instrs (site_env c) is s1 = Some s2 \<and> ir_operand (site_env c) s2 op = Some v \<and>
       assign (site_env c) t v s2 = Some s'"
    and "sim c (- 1) s1 x"
  shows "reaches c ((t1 @ t2) @ t3) x (sim c (- 1) s')" "omit_store_temp st3 = - 1"
proof -
  have om: "omit_store_temp (st\<lparr>rax_temp := - 1\<rparr>) = - 1" "omit_store_temp st2 = - 1"
    using assms(10) emit_instrs_omit [OF assms(5)] emit_load_operand_omit [OF assms(1,6)] by simp_all
  then show "omit_store_temp st3 = - 1" using emit_store_temp_state [OF assms(1,7)] by simp
  obtain s2 v where s2: "ir_instrs (site_env c) is s1 = Some s2" "ir_operand (site_env c) s2 op = Some v"
    "assign (site_env c) t v s2 = Some s'" using assms(13) by blast
  have "reaches c (t1 @ t2) x (\<lambda>y. sim c (rax_temp st2) s2 y \<and> rax y = v)"
    by (rule section_sim [OF assms(1-6,8,9) s2(1,2) om(1) assms(11,12)]) (use assms(14) in simp)
  moreover have "code_text t3" by (rule emitsD [OF emits_load_operand(2) [OF assms(1)] assms(7)])
  ultimately show "reaches c ((t1 @ t2) @ t3) x (sim c (- 1) s')"
    using reaches_append store_reaches [OF assms(1,2,7) om(2) s2(3)] by blast
qed

lemma cond_sim:
  assumes "amd64 g" "site_ok c" "prog_ok c" "typed_name fn" "\<forall>u \<in> s_elided c. 0 \<le> u \<and> int_ok u"
    and "list_sim g c fn cs" "list_sim g c fn ts" "list_sim g c fn fs"
  shows "instr_sim g c fn (IK_COND t cs co ts to fs fo)"
  unfolding instr_sim_def
proof (intro allI impI)
  let ?i = "IK_COND t cs co ts to fs fo"
  fix st tx st' s s' p x
  assume em: "emit_instr g fn (s_locs c) (s_frame c) ?i st = Inr (tx, st')" and ty: "typed_instr ?i"
    and ir: "ir_instr (site_env c) ?i (before ?i s) = Some s'" and om: "is_cond ?i \<longrightarrow> omit_store_temp st = - 1"
    and fit: "elided_fit c (loose g (s_locs c) p ?i) (omits g (s_locs c) ?i)" and sim: "sim c (rax_temp st) s x"
  let ?els = "emit_named_ref ''HCC_COND_ELSE'' fn t" and ?don = "emit_named_ref ''HCC_COND_DONE'' fn t"
  obtain t1 st1 t2 st2 t3 st3 t4 st4 t5 st5 t6 st6 t7 st7 t8 st8 where
    e: "emit_instrs g fn (s_locs c) (s_frame c) cs (operand_temp co) st = Inr (t1, st1)"
      "emit_load_operand g (s_locs c) 0 co st1 = Inr (t2, st2)"
      "emit_instrs g fn (s_locs c) (s_frame c) ts (operand_temp to) (st2\<lparr>rax_temp := - 1\<rparr>) = Inr (t3, st3)"
      "emit_load_operand g (s_locs c) 0 to st3 = Inr (t4, st4)"
      "emit_store_temp g (s_locs c) t st4 = Inr (t5, st5)"
      "emit_instrs g fn (s_locs c) (s_frame c) fs (operand_temp fo) (st5\<lparr>rax_temp := - 1\<rparr>) = Inr (t6, st6)"
      "emit_load_operand g (s_locs c) 0 fo st6 = Inr (t7, st7)"
      "emit_store_temp g (s_locs c) t st7 = Inr (t8, st8)"
      "st' = st8\<lparr>rax_temp := - 1\<rparr>"
      "tx = cond_text ?els ?don (t1 @ t2) ((t3 @ t4) @ t5) ((t6 @ t7) @ t8)"
    using em assms(1)
    by (auto simp: act_simps act_seq_def emit_truth_jump_named_def emit_jump_named_def emit_named_label_def amd64_def
        cond_text_def)
  have om: "omit_store_temp st = - 1" "omit_store_temp st2 = - 1" "omit_store_temp st5 = - 1"
    using om emit_instrs_omit [OF e(1)] emit_load_operand_omit [OF assms(1) e(2)] emit_instrs_omit [OF e(3)]
      emit_load_operand_omit [OF assms(1) e(4)] emit_store_temp_state [OF assms(1) e(5)] by (simp_all add: is_cond_def)
  let ?s = "s\<lparr>incoming := []\<rparr>"
  obtain s1 cv where s1: "ir_instrs (site_env c) cs ?s = Some s1" "ir_operand (site_env c) s1 co = Some cv"
    "cv \<noteq> 0 \<Longrightarrow> \<exists>s2 v. ir_instrs (site_env c) ts s1 = Some s2 \<and> ir_operand (site_env c) s2 to = Some v \<and>
       assign (site_env c) t v s2 = Some s'"
    "cv = 0 \<Longrightarrow> \<exists>s2 v. ir_instrs (site_env c) fs s1 = Some s2 \<and> ir_operand (site_env c) s2 fo = Some v \<and>
       assign (site_env c) t v s2 = Some s'"
    using ir by (auto simp: before_def Option.bind_eq_Some_conv split: if_splits)
  have sim: "sim c (rax_temp st) ?s x" using sim by (simp add: sim_def params_in_none cached_def)
  have fits: "elided_fit c (looses g (s_locs c) (- 1) cs (operand_temp co)) (omitted g (s_locs c) cs (operand_temp co))"
    "elided_fit c (looses g (s_locs c) (- 1) ts (operand_temp to)) (omitted g (s_locs c) ts (operand_temp to))"
    "elided_fit c (looses g (s_locs c) (- 1) fs (operand_temp fo)) (omitted g (s_locs c) fs (operand_temp fo))"
    "\<forall>u \<in> s_elided c. spare (pending g (s_locs c) (- 1) cs (operand_temp co)) (operand_uses co u) u = 0"
    "\<forall>u \<in> s_elided c. spare (pending g (s_locs c) (- 1) ts (operand_temp to)) (operand_uses to u) u = 0"
    "\<forall>u \<in> s_elided c. spare (pending g (s_locs c) (- 1) fs (operand_temp fo)) (operand_uses fo u) u = 0"
    using fit by (auto simp: elided_fit_def cond_counts)
  have typed: "list_all typed_instr cs" "typed_operand co" "list_all typed_instr ts" "typed_operand to"
    "list_all typed_instr fs" "typed_operand fo"
    using ty by simp_all
  have code: "code_text ((t3 @ t4) @ t5)" "code_text ((t6 @ t7) @ t8)"
    using emitsD [OF emits_instrs(2) [OF assms(1)]] emitsD [OF emits_load_operand(1) [OF assms(1)]]
      emitsD [OF emits_load_operand(2) [OF assms(1)]] e by (blast intro: code_text_append)+
  have words: "word_ok ?els" "word_ok ?don"
    by (rule word_ok_ref [OF assms(4)], simp add: word_ok_def newline_def)+
  have branch: "reaches c (if rax y \<noteq> 0 then (t3 @ t4) @ t5 else (t6 @ t7) @ t8) (x86_flags (rax y) 0 y) (sim c (- 1) s')"
    if y: "sim c (rax_temp st2) s1 y \<and> rax y = cv" for y
  proof -
    have z: "sim c (- 1) s1 (x86_flags (rax y) 0 y)" using y sim_forget by auto
    show ?thesis
    proof (cases "cv = 0")
      case False
      from arm_sim(1) [OF assms(1,2,7,5) e(3-5) typed(3,4) om(2) fits(2,5) s1(3) [OF this] z] y False show ?thesis by simp
    next
      case True
      from arm_sim(1) [OF assms(1,2,8,5) e(6-8) typed(5,6) om(3) fits(3,6) s1(4) [OF this] z] y True show ?thesis by simp
    qed
  qed
  from cond_reaches [OF assms(3) code words
      section_sim [OF assms(1,2,6,5) e(1,2) typed(1,2) s1(1,2) om(1) fits(1,4) sim] branch]
  show "reaches c tx x (sim c (rax_temp st') s')" by (simp add: e(9,10))
qed

section \<open>All instructions\<close>

lemma readable_from_counts:
  assumes "\<forall>u \<in> s_elided c. 0 \<le> u \<and> int_ok u" "\<not> is_cond i"
    and "p = - 1 \<or> p = r \<and> instr_consumes_rax_temp g i p" "\<forall>u \<in> s_elided c. loose g locs p i u = 0"
  shows "readable g c r i"
  unfolding readable_def
proof (intro ballI impI)
  fix u assume u: "u \<in> s_elided c" "0 < instr_uses i u"
  then have "spare p (instr_uses i u) u = 0" "0 \<le> u" "int_ok u"
    using assms(1,4) loose_simple [OF assms(2)] by auto
  with u(2) assms(3) show "int_ok u \<and> u = r \<and> instr_uses i u = 1 \<and> instr_consumes_rax_temp g i u"
    by (auto simp: spare_def split: if_splits)
qed

lemma simple_instr_sim:
  assumes "amd64 g" "site_ok c" "\<forall>u \<in> s_elided c. 0 \<le> u \<and> int_ok u" "simple_instr i"
  shows "instr_sim g c fn i"
  unfolding instr_sim_def
proof (intro allI impI)
  fix st t st' s s' p x
  assume a: "emit_instr g fn (s_locs c) (s_frame c) i st = Inr (t, st')" "typed_instr i"
    "ir_instr (site_env c) i (before i s) = Some s'" "may_omit c st"
    "p = - 1 \<or> p = rax_temp st \<and> instr_consumes_rax_temp g i p"
    "elided_fit c (loose g (s_locs c) p i) (omits g (s_locs c) i)" "sim c (rax_temp st) s x"
  have "\<not> is_cond i" using assms(4) by (auto simp: simple_instr_def is_cond_def split: Instr.splits)
  then have "readable g c (rax_temp st) i"
    using readable_from_counts [where locs = "s_locs c", OF assms(3) _ a(5)] a(6) by (simp add: elided_fit_def)
  from simple_step [OF assms(1,2) a(4) assms(4) a(2,1,3) this a(7)]
  show "reaches c t x (sim c (rax_temp st') s')" using exec_reaches by blast
qed

lemma all_instr_sim:
  assumes "amd64 g" "site_ok c" "prog_ok c" "typed_name fn" "\<forall>u \<in> s_elided c. 0 \<le> u \<and> int_ok u"
  shows "instr_sim g c fn i"
proof (induction i)
  case (IK_COND t cs co ts to fs fo)
  then have "list_sim g c fn cs" "list_sim g c fn ts" "list_sim g c fn fs"
    using list_sim_from_instrs [OF assms(1)] by blast+
  with cond_sim [OF assms(1-4)] assms(5) show ?case by blast
next
  case (IK_CALL r name args)
  show ?case
    unfolding instr_sim_def
  proof (intro allI impI)
    fix st t st' s s' p x
    assume a: "emit_instr g fn (s_locs c) (s_frame c) (IK_CALL r name args) st = Inr (t, st')"
      "typed_instr (IK_CALL r name args)"
      "ir_instr (site_env c) (IK_CALL r name args) (before (IK_CALL r name args) s) = Some s'" "may_omit c st"
      "p = - 1 \<or> p = rax_temp st \<and> instr_consumes_rax_temp g (IK_CALL r name args) p"
      "elided_fit c (loose g (s_locs c) p (IK_CALL r name args)) (omits g (s_locs c) (IK_CALL r name args))"
      "sim c (rax_temp st) s x"
    have "readable g c (rax_temp st) (IK_CALL r name args)"
      using readable_from_counts [where locs = "s_locs c", OF assms(5) _ a(5)] a(6) by (simp add: elided_fit_def is_cond_def)
    moreover have "sim c (rax_temp st) (s\<lparr>incoming := []\<rparr>) x"
      using a(7) by (simp add: sim_def params_in_none cached_def)
    ultimately show "reaches c t x (sim c (rax_temp st') s')"
      using emit_call_step(1) [OF assms(1-3) a(4) _ a(2), of "s\<lparr>incoming := []\<rparr>" t st' s' x] a(1,3)
      by (simp add: before_def)
  qed
next
  case (IK_CALLI r f args)
  show ?case
    unfolding instr_sim_def
  proof (intro allI impI)
    fix st t st' s s' p x
    assume a: "emit_instr g fn (s_locs c) (s_frame c) (IK_CALLI r f args) st = Inr (t, st')"
      "typed_instr (IK_CALLI r f args)"
      "ir_instr (site_env c) (IK_CALLI r f args) (before (IK_CALLI r f args) s) = Some s'" "may_omit c st"
      "p = - 1 \<or> p = rax_temp st \<and> instr_consumes_rax_temp g (IK_CALLI r f args) p"
      "elided_fit c (loose g (s_locs c) p (IK_CALLI r f args)) (omits g (s_locs c) (IK_CALLI r f args))"
      "sim c (rax_temp st) s x"
    have "readable g c (rax_temp st) (IK_CALLI r f args)"
      using readable_from_counts [where locs = "s_locs c", OF assms(5) _ a(5)] a(6) by (simp add: elided_fit_def is_cond_def)
    moreover have "sim c (rax_temp st) (s\<lparr>incoming := []\<rparr>) x"
      using a(7) by (simp add: sim_def params_in_none cached_def)
    ultimately show "reaches c t x (sim c (rax_temp st') s')"
      using emit_calli_step(1) [OF assms(1-3) a(4) _ a(2), of "s\<lparr>incoming := []\<rparr>" t st' s' x] a(1,3)
      by (simp add: before_def)
  qed
qed (rule simple_instr_sim [OF assms(1,2,5)]; simp add: simple_instr_def)+

end
