(* ===== verification/Amd64Term.thy ===== *)
theory Amd64Term
  imports Amd64List
begin

text \<open>
  Terminators: the code of a branch leads to the block the IR goes to, the code of a return leads back
  to the caller with the value in RAX.
\<close>

section \<open>Branches\<close>

definition branch_text :: "string \<Rightarrow> string \<Rightarrow> int \<Rightarrow> int \<Rightarrow> bool \<Rightarrow> string" where
  "branch_text fn j k1 k2 falls =
     (''  '' @ j @ '' %'' @ emit_block_ref fn k1 @ [newline]) @
     (if falls then [] else ''  '' @ ''JUMP'' @ '' %'' @ emit_block_ref fn k2 @ [newline])"

text \<open>Where the code of a block is: at its label, when it has one, and right behind the block before.\<close>

definition falls_to :: "string \<Rightarrow> int \<Rightarrow> string list \<Rightarrow> bool" where
  "falls_to fn k rest \<longleftrightarrow> (\<exists>r. rest = (CHR '':'' # emit_block_ref fn k) # r)"

definition block_place :: "string list \<Rightarrow> string \<Rightarrow> int \<Rightarrow> string list \<Rightarrow> bool" where
  "block_place P fn k target \<longleftrightarrow> after_label (emit_block_ref fn k) P = Some target"

lemma word_ok_block_ref: "typed_name fn \<Longrightarrow> word_ok (emit_block_ref fn k)"
  unfolding emit_block_ref_def by (rule word_ok_ref) (simp_all add: word_ok_def newline_def)

lemma branch_words:
  assumes "typed_name fn" "word_ok j"
  shows "m1_words (branch_text fn j k1 k2 falls) =
    j # (CHR ''%'' # emit_block_ref fn k1) #
    (if falls then [] else [''JUMP'', CHR ''%'' # emit_block_ref fn k2])"
proof -
  note w = word_ok_block_ref [OF assms(1)]
  have "whole_lines (''  '' @ j @ '' %'' @ emit_block_ref fn k1 @ [newline])" by (simp add: whole_lines_def)
  moreover have "word_ok ''JUMP''" by (simp add: word_ok_def newline_def)
  moreover have "m1_words [] = []" by (simp add: m1_words_def)
  ultimately show ?thesis
    using jump_words [OF assms(2) w] jump_words [OF _ w, of "''JUMP''"]
    unfolding branch_text_def by (cases falls) (simp_all only: m1_words_lines if_True if_False, simp_all)
qed

lemma fall_steps:
  assumes "linked A P names" "P = pre @ rest" "falls_to fn k rest"
  shows "\<exists>target. block_place P fn k target \<and> steps A B P (rest, rets, x) (target, rets, x)"
proof -
  obtain r where r: "rest = (CHR '':'' # emit_block_ref fn k) # r" using assms(3) by (auto simp: falls_to_def)
  have "block_place P fn k r" unfolding block_place_def by (rule place_of_label [OF assms(1)]) (simp add: assms(2) r)
  moreover have "steps A B P (rest, rets, x) (r, rets, x)" unfolding r by (rule steps_one [OF label_step])
  ultimately show ?thesis by blast
qed

lemma jump_to_block:
  assumes "block_place P fn k target"
  shows "steps A B P (''JUMP'' # (CHR ''%'' # emit_block_ref fn k) # rest, rets, x) (target, rets, x)"
  using assms by (intro steps_one jump_step) (simp_all add: block_place_def machine_simps)

lemma branch_steps:
  assumes "linked A P names" "typed_name fn" "word_ok j" "amd64_hex j = Some (''0F8'' @ h)" "x86_cc h x = Some b"
    and "P = pre @ m1_words (branch_text fn j k1 k2 falls) @ rest"
    and "block_place P fn k1 p1" "block_place P fn k2 p2" "falls \<longrightarrow> falls_to fn k2 rest"
  shows "\<exists>target. block_place P fn (if b then k1 else k2) target \<and>
    steps A B P (m1_words (branch_text fn j k1 k2 falls) @ rest, rets, x) (target, rets, x)"
proof -
  note w = branch_words [OF assms(2,3), of k1 k2 falls]
  define ws where "ws = (if falls then [] else [''JUMP'', CHR ''%'' # emit_block_ref fn k2]) @ rest"
  have all: "m1_words (branch_text fn j k1 k2 falls) @ rest = j # (CHR ''%'' # emit_block_ref fn k1) # ws"
    by (simp add: w ws_def)
  have P: "P = (pre @ [j, CHR ''%'' # emit_block_ref fn k1]) @ ws" using assms(6) all by simp
  have "x86_step A B P (j # (CHR ''%'' # emit_block_ref fn k1) # ws, rets, x) = Some (if b then p1 else ws, rets, x)"
    using assms(4,5,7) by (intro cond_jump_step) (simp_all add: block_place_def)
  then have one: "steps A B P (j # (CHR ''%'' # emit_block_ref fn k1) # ws, rets, x) (if b then p1 else ws, rets, x)"
    by (rule steps_one)
  have "\<exists>target. block_place P fn k2 target \<and> steps A B P (ws, rets, x) (target, rets, x)"
  proof (cases falls)
    case True
    then show ?thesis using fall_steps [OF assms(1) P] assms(9) by (simp add: ws_def)
  next
    case False
    then show ?thesis using jump_to_block [OF assms(8)] assms(8) by (auto simp: ws_def)
  qed
  with one assms(7) show ?thesis
    unfolding all by (cases b) (auto intro: steps_trans)
qed

text \<open>The operands of a terminator, one of which may be in RAX only.\<close>

definition term_fit :: "site \<Rightarrow> int \<Rightarrow> Terminator \<Rightarrow> bool" where
  "term_fit c r t \<longleftrightarrow> (\<forall>u \<in> s_elided c. 0 < term_uses t u \<longrightarrow> int_ok u \<and> u = r \<and> term_uses t u = 1)"

lemma compare_sim:
  assumes "amd64 g" "site_ok c" "incoming s = []" "emit_compare g (s_locs c) a b st = Inr (t, st')"
    and "ir_operand (site_env c) s a = Some v" "ir_operand (site_env c) s b = Some w"
    and "typed_operand a" "typed_operand b" "term_fit c (rax_temp st) (TK_BRANCH_CMP op a b yes no)"
    and "sim c (rax_temp st) s x"
  shows "\<exists>y. exec c t x (x86_flags v w y) \<and> sim c (- 1) s y"
proof -
  let ?y = "x\<lparr>rax := w, rbx := v\<rparr>"
  have cmp: "exec c ''  CMP\<newline>'' ?y (x86_flags v w ?y)" using exec_moves(4) [of c ?y] by simp
  have a: "loadable c (rax_temp st) 0 a"
    using assms(7,9) by (auto simp: loadable_def term_fit_def)
  have b: "loadable c r 0 b" if "b \<noteq> OP_TEMP (rax_temp st)" for r
  proof (rule loadable_unused [OF assms(8)])
    fix u assume u: "u \<in> s_elided c" "0 < operand_uses b u"
    then have "u = rax_temp st" "int_ok u" using assms(9) by (auto simp: term_fit_def)
    with u(2) assms(6) that show False
      by (cases b) (auto simp: operand_uses_def split: if_splits)
  qed
  have y: "sim c (- 1) s ?y"
    using sim_agrees [OF assms(10)] assms(3,10) cached_none by (auto simp: sim_def params_in_none)
  show ?thesis
  proof (cases "b = OP_TEMP (rax_temp st)")
    case True
    with assms(1,4) obtain t1 st1 where e: "emit_load_operand g (s_locs c) 0 a st = Inr (t1, st1)"
      "t = (''  HCC_M_RAX_RBX\<newline>'' @ t1 @ ''  XCHG_rax_rbx\<newline>'') @ ''  CMP\<newline>''"
      by (auto simp: emit_compare_def emit_copy_acc_to_scratch_def act_simps act_seq_def amd64_def)
    have "ir_operand (site_env c) s (OP_TEMP (rax_temp st)) = Some w" using assms(6) True by simp
    from exec_append [OF load_exchange(1) [OF assms(1-3) e(1) assms(5) this a assms(10)] cmp] y show ?thesis
      unfolding e(2) by blast
  next
    case False
    with assms(1,4) obtain t1 st1 t2 st2 where e: "emit_load_operand g (s_locs c) 0 a st = Inr (t1, st1)"
      "emit_load_operand g (s_locs c) 0 b st1 = Inr (t2, st2)"
      "t = (t1 @ ''  HCC_M_RAX_RBX\<newline>'' @ t2) @ ''  CMP\<newline>''"
      by (auto simp: emit_compare_def emit_copy_acc_to_scratch_def act_simps act_seq_def amd64_def)
    show ?thesis
      unfolding e(3) using exec_append [OF load_two(1) [OF assms(1-3) e(1,2) assms(5,6) a b [OF False] assms(10)] cmp] y
      by blast
  qed
qed

lemma compare_jump:
  assumes "compare_sem op v w = Some b"
  obtains name h where "jump_name_for_binop op = Inr name" "amd64_hex name = Some (''0F8'' @ h)" "word_ok name"
    "\<And>y. x86_cc h (x86_flags v w y) = Some b"
  using assms
  by (auto simp: compare_sem_def jump_name_for_binop_def machine_simps word_ok_def newline_def split: if_splits)

section \<open>Terminators\<close>

lemma truth_branch_text:
  assumes "amd64 g" "emit_truth_branch g fn yes no next_id st = Inr (t, st')"
  shows "st' = st" "next_id = yes \<Longrightarrow> t = ''  TEST\<newline>'' @ branch_text fn ''JUMP_EQ'' no yes True"
    "next_id \<noteq> yes \<Longrightarrow> t = ''  TEST\<newline>'' @ branch_text fn ''JUMP_NE'' yes no (next_id = no)"
  using assms
  by (auto simp: emit_truth_branch_def emit_truth_jump_def emit_truth_jump_named_def emit_jump_def emit_jump_named_def
      emit_block_ref_def branch_text_def amd64_def act_simps act_seq_def split: if_splits)

lemma compare_branch_text:
  assumes "amd64 g" "emit_compare_branch g fn op yes no next_id st = Inr (t, st')" "jump_name_for_binop op = Inr j"
    and "invert_binop op = Inr op'" "jump_name_for_binop op' = Inr j'"
  shows "st' = st" "next_id = yes \<Longrightarrow> t = branch_text fn j' no yes True"
    "next_id \<noteq> yes \<Longrightarrow> t = branch_text fn j yes no (next_id = no)"
  using assms
  by (auto simp: emit_compare_branch_def emit_compare_jump_def emit_jump_def emit_jump_named_def
      emit_block_ref_def branch_text_def amd64_def act_simps act_seq_def split: if_splits)

text \<open>The successors of a block, and the assumption that each is a labelled place of the program.\<close>

fun term_targets :: "Terminator \<Rightarrow> int set" where
  "term_targets (TK_RET op) = {}"
| "term_targets (TK_JUMP yes) = {yes}"
| "term_targets (TK_BRANCH op yes no) = {yes, no}"
| "term_targets (TK_BRANCH_CMP binop a b yes no) = {yes, no}"

definition targets_ok :: "site \<Rightarrow> string \<Rightarrow> int \<Rightarrow> Terminator \<Rightarrow> string list \<Rightarrow> bool" where
  "targets_ok c fn next_id t rest \<longleftrightarrow>
     (\<forall>k \<in> term_targets t. (\<exists>p. block_place (s_prog c) fn k p) \<and> (next_id = k \<longrightarrow> falls_to fn k rest))"

abbreviation runs_to :: "site \<Rightarrow> config \<Rightarrow> config \<Rightarrow> bool" where
  "runs_to c \<equiv> steps (s_address c) (s_spot c) (s_prog c)"

lemma exec_steps:
  assumes "exec c t x y" "s_prog c = pre @ m1_words (t @ t') @ rest" "opens (m1_words t' @ rest)"
  shows "m1_words (t @ t') = m1_words t @ m1_words t'"
    "runs_to c (m1_words (t @ t') @ rest, rets, x) (m1_words t' @ rest, rets, y)"
proof -
  show w: "m1_words (t @ t') = m1_words t @ m1_words t'"
    using assms(1) by (simp add: exec_def code_text_def m1_words_lines)
  have "s_prog c = pre @ m1_words t @ (m1_words t' @ rest)" using assms(2) w by simp
  from runsD [OF _ this assms(3)] assms(1) show "runs_to c (m1_words (t @ t') @ rest, rets, x) (m1_words t' @ rest, rets, y)"
    by (simp add: exec_def w)
qed

lemma branch_after:
  assumes "prog_ok c" "typed_name fn" "exec c t x y" "word_ok j" "amd64_hex j = Some (''0F8'' @ h)" "x86_cc h y = Some b"
    and "s_prog c = pre @ m1_words (t @ branch_text fn j k1 k2 falls) @ rest"
    and "\<exists>p. block_place (s_prog c) fn k1 p" "\<exists>p. block_place (s_prog c) fn k2 p" "falls \<longrightarrow> falls_to fn k2 rest"
  shows "\<exists>target. block_place (s_prog c) fn (if b then k1 else k2) target \<and>
    runs_to c (m1_words (t @ branch_text fn j k1 k2 falls) @ rest, rets, x) (target, rets, y)"
proof -
  have link: "linked (s_address c) (s_prog c) (s_names c)" using assms(1) by (simp add: prog_ok_def)
  obtain p1 p2 where p: "block_place (s_prog c) fn k1 p1" "block_place (s_prog c) fn k2 p2" using assms(8,9) by blast
  have "opens (m1_words (branch_text fn j k1 k2 falls) @ rest)"
    using amd64_hex_no_number [OF assms(5)] by (simp add: branch_words [OF assms(2,4)] opens_def)
  note one = exec_steps [OF assms(3,7) this]
  have "s_prog c = (pre @ m1_words t) @ m1_words (branch_text fn j k1 k2 falls) @ rest"
    using assms(7) one(1) by simp
  from branch_steps [OF link assms(2,4,5,6) this p assms(10)] show ?thesis
    using one(2) steps_trans by blast
qed

lemma goesI:
  assumes "\<exists>target. block_place P fn l target \<and> runs_to c q (target, rets, y)" "sim c (- 1) s y" "l = k"
  shows "\<exists>target z. block_place P fn k target \<and> sim c (- 1) s z \<and> runs_to c q (target, rets, z)"
  using assms by blast

lemma jump_goes:
  assumes "amd64 g" "site_ok c" "prog_ok c" "typed_name fn" "incoming s = []"
    and "emit_terminator g fn next_id (s_locs c) (s_frame c) (TK_JUMP yes) st = Inr (tx, st')" "typed_term (TK_JUMP yes)"
    and "ir_term (site_env c) s (TK_JUMP yes) = Some (Goto k)" "term_fit c (rax_temp st) (TK_JUMP yes)" "sim c (rax_temp st) s x"
    and "s_prog c = pre @ m1_words tx @ rest" "targets_ok c fn next_id (TK_JUMP yes) rest" "opens rest"
  shows "\<exists>target y. block_place (s_prog c) fn k target \<and> sim c (- 1) s y \<and>
    runs_to c (m1_words tx @ rest, rets, x) (target, rets, y)"
proof -
  from assms(8) have k: "k = yes" by simp
  obtain p where p: "block_place (s_prog c) fn k p" using assms(12) by (auto simp: targets_ok_def k)
  have link: "linked (s_address c) (s_prog c) (s_names c)" using assms(3) by (simp add: prog_ok_def)
  show ?thesis
  proof (cases "next_id = yes")
    case True
    with assms(6) have "m1_words tx = []"
      by (auto simp: emit_terminator_def act_simps act_seq_def when_do_def m1_words_def)
    then have P: "s_prog c = pre @ rest" using assms(11) by simp
    have "falls_to fn k rest" using assms(12) True by (simp add: targets_ok_def k)
    from goesI [OF fall_steps [OF link P this] sim_forget [OF assms(10)]] \<open>m1_words tx = []\<close> show ?thesis by simp
  next
    case False
    with assms(1,6) have tx: "tx = ''  '' @ ''JUMP'' @ '' %'' @ emit_block_ref fn yes @ [newline]"
      by (auto simp: emit_terminator_def act_simps act_seq_def emit_jump_def emit_jump_named_def amd64_def
          emit_block_ref_def when_do_def)
    have "word_ok ''JUMP''" by (simp add: word_ok_def newline_def)
    then have "m1_words tx = [''JUMP'', CHR ''%'' # emit_block_ref fn yes]"
      unfolding tx by (rule jump_words [OF _ word_ok_block_ref [OF assms(4)]])
    with jump_to_block [OF p] p sim_forget [OF assms(10)] show ?thesis
      by (intro exI [of _ p] exI [of _ x]) (simp add: k)
  qed
qed

lemma truth_goes:
  assumes "amd64 g" "site_ok c" "prog_ok c" "typed_name fn" "incoming s = []"
    and "emit_terminator g fn next_id (s_locs c) (s_frame c) (TK_BRANCH op yes no) st = Inr (tx, st')" "typed_term (TK_BRANCH op yes no)"
    and "ir_term (site_env c) s (TK_BRANCH op yes no) = Some (Goto k)" "term_fit c (rax_temp st) (TK_BRANCH op yes no)" "sim c (rax_temp st) s x"
    and "s_prog c = pre @ m1_words tx @ rest" "targets_ok c fn next_id (TK_BRANCH op yes no) rest" "opens rest"
  shows "\<exists>target y. block_place (s_prog c) fn k target \<and> sim c (- 1) s y \<and>
    runs_to c (m1_words tx @ rest, rets, x) (target, rets, y)"
proof -
  from assms(8) obtain v where v: "ir_operand (site_env c) s op = Some v" "k = (if v \<noteq> 0 then yes else no)" by auto
  from assms(6) obtain t1 st1 t2 st2 where e: "emit_load_operand g (s_locs c) 0 op st = Inr (t1, st1)"
    "emit_truth_branch g fn yes no next_id st1 = Inr (t2, st2)" "tx = t1 @ t2"
    by (auto simp: emit_terminator_def act_simps act_seq_def)
  have fit: "loadable c (rax_temp st) 0 op"
    using assms(7,9) by (auto simp: loadable_def term_fit_def)
  note l = load_sim [OF assms(1,2) e(1) v(1) fit assms(10)]
  let ?y = "x86_flags v 0 (x\<lparr>rax := v\<rparr>)"
  have y: "exec c (t1 @ ''  TEST\<newline>'') x ?y"
    using exec_append [OF l(1) exec_moves(5)] by simp
  have sim: "sim c (- 1) s ?y" using sim_forget [OF l(2)] by simp
  have tg: "\<exists>p. block_place (s_prog c) fn yes p" "\<exists>p. block_place (s_prog c) fn no p"
    "next_id = yes \<longrightarrow> falls_to fn yes rest" "next_id = no \<longrightarrow> falls_to fn no rest"
    using assms(12) by (auto simp: targets_ok_def)
  note b = truth_branch_text [OF assms(1) e(2)]
  have j: "word_ok ''JUMP_EQ''" "amd64_hex ''JUMP_EQ'' = Some (''0F8'' @ ''4'')"
    "word_ok ''JUMP_NE''" "amd64_hex ''JUMP_NE'' = Some (''0F8'' @ ''5'')"
    by (simp_all add: word_ok_def newline_def machine_simps)
  show ?thesis
  proof (cases "next_id = yes")
    case True
    have tx: "tx = (t1 @ ''  TEST\<newline>'') @ branch_text fn ''JUMP_EQ'' no yes True" using b(2) [OF True] e(3) by simp
    have cc: "x86_cc ''4'' ?y = Some (v = 0)" by (simp add: x86_cc_flags)
    from tg(3) True have fall: "True \<longrightarrow> falls_to fn yes rest" by simp
    show ?thesis
      unfolding tx by (rule goesI [OF branch_after [OF assms(3,4) y j(1,2) cc assms(11) [unfolded tx] tg(2,1) fall] sim]) (simp add: v(2))
  next
    case False
    have tx: "tx = (t1 @ ''  TEST\<newline>'') @ branch_text fn ''JUMP_NE'' yes no (next_id = no)"
      using b(3) [OF False] e(3) by simp
    have cc: "x86_cc ''5'' ?y = Some (v \<noteq> 0)" by (simp add: x86_cc_flags)
    show ?thesis
      unfolding tx by (rule goesI [OF branch_after [OF assms(3,4) y j(3,4) cc assms(11) [unfolded tx] tg(1,2,4)] sim]) (simp add: v(2))
  qed
qed

lemma compare_goes:
  assumes "amd64 g" "site_ok c" "prog_ok c" "typed_name fn" "incoming s = []"
    and "emit_terminator g fn next_id (s_locs c) (s_frame c) (TK_BRANCH_CMP op a b yes no) st = Inr (tx, st')" "typed_term (TK_BRANCH_CMP op a b yes no)"
    and "ir_term (site_env c) s (TK_BRANCH_CMP op a b yes no) = Some (Goto k)" "term_fit c (rax_temp st) (TK_BRANCH_CMP op a b yes no)" "sim c (rax_temp st) s x"
    and "s_prog c = pre @ m1_words tx @ rest" "targets_ok c fn next_id (TK_BRANCH_CMP op a b yes no) rest" "opens rest"
  shows "\<exists>target y. block_place (s_prog c) fn k target \<and> sim c (- 1) s y \<and>
    runs_to c (m1_words tx @ rest, rets, x) (target, rets, y)"
proof -
  from assms(8) obtain v w q where v: "ir_operand (site_env c) s a = Some v" "ir_operand (site_env c) s b = Some w"
    "compare_sem op v w = Some q" "k = (if q then yes else no)"
    by (auto simp: Option.bind_eq_Some_conv)
  from assms(6) obtain t1 st1 t2 st2 where e: "emit_compare g (s_locs c) a b st = Inr (t1, st1)"
    "emit_compare_branch g fn op yes no next_id st1 = Inr (t2, st2)" "tx = t1 @ t2"
    by (auto simp: emit_terminator_def act_simps act_seq_def)
  obtain z where z: "exec c t1 x (x86_flags v w z)" "sim c (- 1) s z"
    using compare_sim [OF assms(1,2,5) e(1) v(1,2) _ _ assms(9,10)] assms(7) by auto
  have sim: "sim c (- 1) s (x86_flags v w z)" using z(2) by simp
  obtain j h where j: "jump_name_for_binop op = Inr j" "amd64_hex j = Some (''0F8'' @ h)" "word_ok j"
    "\<And>y. x86_cc h (x86_flags v w y) = Some q"
    using compare_jump [OF v(3)] by blast
  obtain op' where op': "invert_binop op = Inr op'" "compare_sem op' v w = Some (\<not> q)"
    using v(3) by (auto simp: compare_sem_def invert_binop_def not_less not_le split: if_splits)
  obtain j' h' where j': "jump_name_for_binop op' = Inr j'" "amd64_hex j' = Some (''0F8'' @ h')" "word_ok j'"
    "\<And>y. x86_cc h' (x86_flags v w y) = Some (\<not> q)"
    using compare_jump [OF op'(2)] by blast
  note b = compare_branch_text [OF assms(1) e(2) j(1) op'(1) j'(1)]
  have tg: "\<exists>p. block_place (s_prog c) fn yes p" "\<exists>p. block_place (s_prog c) fn no p"
    "next_id = yes \<longrightarrow> falls_to fn yes rest" "next_id = no \<longrightarrow> falls_to fn no rest"
    using assms(12) by (auto simp: targets_ok_def)
  show ?thesis
  proof (cases "next_id = yes")
    case True
    have tx: "tx = t1 @ branch_text fn j' no yes True" using b(2) [OF True] e(3) by simp
    from tg(3) True have fall: "True \<longrightarrow> falls_to fn yes rest" by simp
    show ?thesis
      unfolding tx by (rule goesI [OF branch_after [OF assms(3,4) z(1) j'(3,2,4) assms(11) [unfolded tx] tg(2,1) fall] sim]) (simp add: v(4))
  next
    case False
    have tx: "tx = t1 @ branch_text fn j yes no (next_id = no)" using b(3) [OF False] e(3) by simp
    show ?thesis
      unfolding tx by (rule goesI [OF branch_after [OF assms(3,4) z(1) j(3,2,4) assms(11) [unfolded tx] tg(1,2,4)] sim]) (simp add: v(4))
  qed
qed

lemma branch_goes:
  assumes "amd64 g" "site_ok c" "prog_ok c" "typed_name fn" "incoming s = []"
    and "emit_terminator g fn next_id (s_locs c) (s_frame c) t st = Inr (tx, st')" "typed_term t"
    and "ir_term (site_env c) s t = Some (Goto k)" "term_fit c (rax_temp st) t" "sim c (rax_temp st) s x"
    and "s_prog c = pre @ m1_words tx @ rest" "targets_ok c fn next_id t rest" "opens rest"
  shows "\<exists>target y. block_place (s_prog c) fn k target \<and> sim c (- 1) s y \<and>
    runs_to c (m1_words tx @ rest, rets, x) (target, rets, y)"
  using jump_goes [OF assms(1-5)] truth_goes [OF assms(1-5)] compare_goes [OF assms(1-5)] assms(6-)
  by (cases t) (blast | simp split: if_splits)+

section \<open>Returns\<close>

definition return_addr :: "site \<Rightarrow> 64 word" where
  "return_addr c = s_base c + word_of_int (8 * s_frame c)"

definition returns :: "site \<Rightarrow> string list \<Rightarrow> bool" where
  "returns c ret \<longleftrightarrow>
     (\<forall>a \<in> cells 8 (return_addr c). s_frozen c a) \<and> mem_read 8 (s_mem0 c) (return_addr c) = s_spot c ret"

lemma return_value:
  assumes "amd64 g" "site_ok c" "typed_operand op" "term_fit c (rax_temp st) (TK_RET op)" "sim c (rax_temp st) s x"
    and "(if op = OP_NONE then emit_load_immediate g 0 else emit_load_operand g (s_locs c) 0 op) st = Inr (t, st')"
    and "ir_term (site_env c) s (TK_RET op) = Some (Return v)"
  shows "exec c t x (x\<lparr>rax := v\<rparr>)"
proof (cases "op = OP_NONE")
  case True
  have "long_ok 0" by (simp add: long_ok_def)
  from exec_immediate [OF this, of c x] True assms(1,6,7) show ?thesis
    by (auto simp: emit_load_immediate_def amd64_def act_simps act_seq_def)
next
  case False
  have "loadable c (rax_temp st) 0 op" using assms(3,4) by (auto simp: loadable_def term_fit_def)
  with False load_sim(1) [OF assms(1,2) _ _ _ assms(5), of op t st' v] assms(6,7) show ?thesis by auto
qed

lemma cleanup_exec:
  assumes "amd64 g" "site_ok c" "emit_cleanup_stack g (s_frame c) = Inr t" "rsp x = s_base c"
  shows "exec c t x (x\<lparr>rsp := return_addr c\<rparr>)"
proof (cases "0 < s_frame c")
  case True
  have n: "0 \<le> 8 * s_frame c" "8 * s_frame c < 2 ^ 31" using frame_small [OF assms(2)] True by simp_all
  have "c_int (s_frame c * 8) = s_frame c * 8" using n by (intro c_int_small) simp_all
  with exec_stack(4) [OF n, of c x] True assms show ?thesis
    by (simp add: emit_cleanup_stack_def amd64_def return_addr_def) (simp add: mult.commute)
next
  case False
  with assms(2) have "s_frame c = 0" by (simp add: site_ok_def)
  with assms have "t = []" "x\<lparr>rsp := return_addr c\<rparr> = x" by (simp_all add: emit_cleanup_stack_def return_addr_def)
  then show ?thesis by simp
qed

lemma return_goes:
  assumes "amd64 g" "site_ok c" "emit_terminator g fn next_id (s_locs c) (s_frame c) t st = Inr (tx, st')"
    and "typed_term t" "ir_term (site_env c) s t = Some (Return v)" "term_fit c (rax_temp st) t"
    and "sim c (rax_temp st) s x" "returns c ret" "s_prog c = pre @ m1_words tx @ rest"
  shows "\<exists>y. rax y = v \<and> rsp y = return_addr c + 8 \<and> mem y = mem x \<and>
    runs_to c (m1_words tx @ rest, ret # rets, x) (ret, rets, y)"
proof -
  obtain op where t: "t = TK_RET op" using assms(5) by (cases t) (auto simp: Option.bind_eq_Some_conv)
  obtain t1 st1 t2 where
    e: "(if op = OP_NONE then emit_load_immediate g 0 else emit_load_operand g (s_locs c) 0 op) st = Inr (t1, st1)"
      "emit_cleanup_stack g (s_frame c) = Inr t2" "tx = (t1 @ t2) @ ''  RETURN\<newline>''"
    using assms(1,3) by (auto simp: t emit_terminator_def act_simps act_seq_def out_res_def emit_return_def amd64_def
        split: if_splits sum.splits)
  have "exec c t1 x (x\<lparr>rax := v\<rparr>)"
    using return_value [OF assms(1,2) _ assms(6,7) [unfolded t] e(1)] assms(4,5) by (simp add: t)
  moreover have "rsp (x\<lparr>rax := v\<rparr>) = s_base c" using assms(7) by (simp add: sim_def)
  ultimately have ex: "exec c (t1 @ t2) x (x\<lparr>rax := v, rsp := return_addr c\<rparr>)"
    using exec_append cleanup_exec [OF assms(1,2) e(2)] by blast
  have r: "m1_words ''  RETURN\<newline>'' = [''RETURN'']" by (simp add: m1_words_def newline_def)
  have "opens (m1_words ''  RETURN\<newline>'' @ rest)" by (simp add: r opens_def m1_number_def)
  note one = exec_steps(2) [OF ex assms(9) [unfolded e(3)] this]
  have "mem_read 8 (mem x) (return_addr c) = mem_read 8 (s_mem0 c) (return_addr c)"
    using agreesD(2) [OF sim_agrees [OF assms(7)]] assms(8) by (intro mem_read_cong) (simp add: returns_def)
  then have ret: "mem_read 8 (mem x) (return_addr c) = s_spot c ret" using assms(8) by (simp add: returns_def)
  let ?y = "x\<lparr>rax := v, rsp := return_addr c + 8\<rparr>"
  have "x86_step (s_address c) (s_spot c) (s_prog c) (''RETURN'' # rest, ret # rets, x\<lparr>rax := v, rsp := return_addr c\<rparr>) =
      Some (ret, rets, ?y)"
    using ret by (simp add: x86_step.simps(2) is_label_def machine_simps)
  then have "runs_to c (m1_words ''  RETURN\<newline>'' @ rest, ret # rets, x\<lparr>rax := v, rsp := return_addr c\<rparr>) (ret, rets, ?y)"
    by (simp add: r steps_one)
  with one show ?thesis unfolding e(3) by (intro exI [of _ ?y]) (auto intro: steps_trans simp del: append_assoc)
qed

lemma emits_terminator: "amd64 g \<Longrightarrow> emits (emit_terminator g fn next_id locs n t)"
proof -
  assume g: "amd64 g"
  have "code_text (emit_return g)"
    using g by (simp add: emit_return_def amd64_def code_text_def whole_lines_def opens_def m1_words_def m1_number_def
        newline_def)
  then show ?thesis
    by (cases t)
      (auto simp: emit_terminator_def emit_jump_def intro!: emits_rules g dest: code_text_cleanup(2) [OF g]
        code_text_jump_named [OF g])
qed

end
