(* ===== verification/Amd64Blocks.thy ===== *)
theory Amd64Blocks
  imports Amd64Term
begin

text \<open>
  The blocks of a function: where their code stands in the program, and that running it follows the
  blocks the IR runs.
\<close>

section \<open>Where the code of a block is\<close>

definition block_at :: "Globals \<Rightarrow> site \<Rightarrow> string \<Rightarrow> Block \<Rightarrow> string list \<Rightarrow> bool" where
  "block_at g c fn b target \<longleftrightarrow>
     (\<exists>next_id pre rest t1 t2 st st1 st2.
        target = m1_words t1 @ m1_words t2 @ rest \<and> s_prog c = pre @ target \<and> opens rest \<and>
        rax_temp st = - 1 \<and> omit_store_temp st = - 1 \<and>
        emit_instrs g fn (s_locs c) (s_frame c) (block_instrs b) (block_first_term_temp g b) st = Inr (t1, st1) \<and>
        emit_terminator g fn next_id (s_locs c) (s_frame c) (block_term b) st1 = Inr (t2, st2) \<and>
        (0 < next_id \<longrightarrow> falls_to fn next_id rest))"

definition block_label :: "string \<Rightarrow> Block \<Rightarrow> string list" where
  "block_label fn b = (if block_id b = 0 then [] else [CHR '':'' # emit_block_ref fn (block_id b)])"

lemma m1_words_code: "code_text a \<Longrightarrow> m1_words (a @ b) = m1_words a @ m1_words b"
  by (simp add: code_text_def m1_words_lines)

lemma emit_terminator_state:
  assumes "amd64 g" "emit_terminator g fn next_id locs n t st = Inr (tx, st')" "omit_store_temp st = - 1"
  shows "rax_temp st' = - 1" "omit_store_temp st' = - 1"
proof -
  have imm: "emit_load_immediate g 0 st1 = Inr (t1, st2) \<Longrightarrow> omit_store_temp st2 = omit_store_temp st1" for st1 t1 st2
    using assms(1) by (auto simp: emit_load_immediate_def amd64_def act_simps act_seq_def)
  have cmp: "emit_compare g locs a b st1 = Inr (t1, st2) \<Longrightarrow> omit_store_temp st2 = omit_store_temp st1" for a b st1 t1 st2
    using assms(1) by (auto simp: emit_compare_def amd64_def act_simps act_seq_def split: if_splits
        dest!: emit_load_operand_omit [OF assms(1)])
  have cb: "emit_compare_branch g fn op yes no next_id st1 = Inr (t1, st2) \<Longrightarrow> st2 = st1" for op yes no st1 t1 st2
    using assms(1) by (auto simp: emit_compare_branch_def emit_compare_jump_def amd64_def act_simps act_seq_def
        with_res_def out_res_def split: if_splits sum.splits)
  have "rax_temp st' = - 1 \<and> omit_store_temp st' = omit_store_temp st"
    using assms(2)
    by (cases t)
      (auto simp: emit_terminator_def act_simps act_seq_def out_res_def when_do_def split: if_splits sum.splits
        dest!: imm cmp cb truth_branch_text(1) [OF assms(1)] emit_load_operand_omit [OF assms(1)])
  then show "rax_temp st' = - 1" "omit_store_temp st' = - 1" using assms(3) by simp_all
qed

lemma block_parts:
  assumes "amd64 g" "typed_name fn" "emit_block g fn locs n next_id b st = Inr (t, st')"
    and "rax_temp st = - 1" "omit_store_temp st = - 1"
  obtains t1 st1 t2 where
    "emit_instrs g fn locs n (block_instrs b) (block_first_term_temp g b) st = Inr (t1, st1)"
    "emit_terminator g fn next_id locs n (block_term b) st1 = Inr (t2, st')"
    "code_text t" "m1_words t = block_label fn b @ m1_words t1 @ m1_words t2"
    "rax_temp st' = - 1" "omit_store_temp st' = - 1"
proof -
  have st: "st\<lparr>rax_temp := - 1\<rparr> = st" using assms(4) by simp
  let ?l = "if block_id b = 0 then [] else CHR '':'' # emit_block_ref fn (block_id b) @ [newline]"
  obtain t1 st1 t2 where e: "emit_instrs g fn locs n (block_instrs b) (block_first_term_temp g b) st = Inr (t1, st1)"
    "emit_terminator g fn next_id locs n (block_term b) st1 = Inr (t2, st')" "t = ?l @ t1 @ t2"
    using assms(3) st by (auto simp: emit_block_def act_simps act_seq_def when_do_def split: if_splits)
  have c: "code_text ?l" "code_text t1" "code_text t2"
    using code_text_label emitsD [OF emits_instrs(2) [OF assms(1)] e(1)] emitsD [OF emits_terminator [OF assms(1)] e(2)]
    by simp_all
  have "m1_words ?l = block_label fn b"
    using label_words [OF word_ok_block_ref [OF assms(2)]] by (simp add: block_label_def) (simp add: m1_words_def)
  then have "m1_words t = block_label fn b @ m1_words t1 @ m1_words t2"
    unfolding e(3) m1_words_code [OF c(1)] m1_words_code [OF c(2)] by simp
  moreover have "code_text t" unfolding e(3) using c by (intro code_text_append)
  moreover have "omit_store_temp st1 = - 1" by (rule emit_instrs_omit [OF e(1) assms(5)])
  note emit_terminator_state [OF assms(1) e(2) this]
  ultimately show ?thesis using that e(1,2) by blast
qed

lemma emits_blocks: "amd64 g \<Longrightarrow> typed_name fn \<Longrightarrow> emit_blocks g fn locs n bs st = Inr (t, st') \<Longrightarrow>
    rax_temp st = - 1 \<Longrightarrow> omit_store_temp st = - 1 \<Longrightarrow> code_text t"
proof (induction bs arbitrary: st t)
  case (Cons b bs)
  from Cons.prems(3) obtain tb st1 ts where e: "emit_block g fn locs n (next_block_id bs) b st = Inr (tb, st1)"
    "emit_blocks g fn locs n bs st1 = Inr (ts, st')" "t = tb @ ts"
    by (auto simp: act_simps act_seq_def)
  from block_parts [OF Cons.prems(1,2) e(1) Cons.prems(4,5)] Cons.IH [OF Cons.prems(1,2) e(2)] e(3)
  show ?case by (metis code_text_append)
qed (simp add: act_simps)

lemma blocks_start:
  assumes "emit_blocks g fn locs n (b # bs) st = Inr (t, st')" "amd64 g" "typed_name fn" "rax_temp st = - 1"
    "omit_store_temp st = - 1"
  shows "\<exists>ws. m1_words t = block_label fn b @ ws"
proof -
  from assms(1) obtain tb st1 ts where e: "emit_block g fn locs n (next_block_id bs) b st = Inr (tb, st1)" "t = tb @ ts"
    by (auto simp: act_simps act_seq_def)
  from block_parts [OF assms(2,3) e(1) assms(4,5)] show ?thesis by (metis e(2) m1_words_code append.assoc)
qed

lemma blocks_placed:
  assumes "amd64 g" "typed_name fn"
  shows "emit_blocks g fn (s_locs c) (s_frame c) bs st = Inr (t, st') \<Longrightarrow> rax_temp st = - 1 \<Longrightarrow>
    omit_store_temp st = - 1 \<Longrightarrow> s_prog c = pre @ m1_words t @ rest \<Longrightarrow> opens rest \<Longrightarrow>
    (\<forall>b \<in> set bs. \<exists>pre target. block_at g c fn b target \<and> s_prog c = pre @ block_label fn b @ target) \<and>
    (bs \<noteq> [] \<longrightarrow> (\<exists>target. block_at g c fn (hd bs) target \<and> m1_words t @ rest = block_label fn (hd bs) @ target))"
proof (induction bs arbitrary: st t pre)
  case (Cons b bs)
  from Cons.prems(1) obtain tb st1 ts where e: "emit_block g fn (s_locs c) (s_frame c) (next_block_id bs) b st = Inr (tb, st1)"
    "emit_blocks g fn (s_locs c) (s_frame c) bs st1 = Inr (ts, st')" "t = tb @ ts"
    by (auto simp: act_simps act_seq_def)
  from block_parts [OF assms e(1) Cons.prems(2,3)] obtain t1 sm t2 where
    b: "emit_instrs g fn (s_locs c) (s_frame c) (block_instrs b) (block_first_term_temp g b) st = Inr (t1, sm)"
    "emit_terminator g fn (next_block_id bs) (s_locs c) (s_frame c) (block_term b) sm = Inr (t2, st1)"
    "code_text tb" "m1_words tb = block_label fn b @ m1_words t1 @ m1_words t2"
    "rax_temp st1 = - 1" "omit_store_temp st1 = - 1"
    by blast
  let ?rest = "m1_words ts @ rest" and ?target = "m1_words t1 @ m1_words t2 @ m1_words ts @ rest"
  have w: "m1_words t = block_label fn b @ m1_words t1 @ m1_words t2 @ m1_words ts"
    unfolding e(3) m1_words_code [OF b(3)] b(4) by simp
  have P: "s_prog c = (pre @ block_label fn b) @ ?target" using Cons.prems(4) w by simp
  have "code_text ts" by (rule emits_blocks [OF assms e(2) b(5,6)])
  then have "opens ?rest" using Cons.prems(5) by (simp add: code_text_def opens_append)
  moreover have "falls_to fn (next_block_id bs) ?rest" if "0 < next_block_id bs"
  proof (cases bs)
    case Nil
    with that show ?thesis by (simp add: next_block_id_def)
  next
    case (Cons d ds)
    with blocks_start [OF e(2) [unfolded Cons] assms b(5,6)] that show ?thesis
      by (auto simp: next_block_id_def block_label_def falls_to_def)
  qed
  ultimately have at: "block_at g c fn b ?target"
    unfolding block_at_def using P b(1,2) Cons.prems(2,3) by blast
  have "s_prog c = (pre @ block_label fn b @ m1_words t1 @ m1_words t2) @ m1_words ts @ rest" using P by simp
  from Cons.IH [OF e(2) b(5,6) this Cons.prems(5)] at P show ?case
    unfolding w by (auto 4 4)
qed simp

section \<open>One block\<close>

lemma ir_operand_incoming: "ir_operand env (s\<lparr>incoming := ps\<rparr>) op = ir_operand env s op"
  by (cases op) (simp_all split: option.split)

lemma ir_term_incoming: "ir_term env (s\<lparr>incoming := ps\<rparr>) t = ir_term env s t"
  by (cases t) (simp_all add: ir_operand_incoming)

lemma sim_incoming: "sim c r s x \<Longrightarrow> sim c r (s\<lparr>incoming := []\<rparr>) x"
  by (simp add: sim_def params_in_none cached_def)

text \<open>What the emitted code of a function relies on, for each of its blocks.\<close>

definition block_fit :: "Globals \<Rightarrow> site \<Rightarrow> Block \<Rightarrow> bool" where
  "block_fit g c b \<longleftrightarrow>
     typed_block b \<and>
     (\<forall>u \<in> s_elided c. block_loose g (s_locs c) b u = 0) \<and>
     (\<forall>u. 0 \<le> u \<longrightarrow> 0 < block_omitted g (s_locs c) b u \<longrightarrow> u \<in> s_elided c) \<and>
     (\<forall>k \<in> term_targets (block_term b). 0 < k)"

definition elided_typed :: "site \<Rightarrow> bool" where
  "elided_typed c \<longleftrightarrow> (\<forall>u \<in> s_elided c. 0 \<le> u \<and> int_ok u)"

lemma block_reaches:
  assumes "amd64 g" "site_ok c" "prog_ok c" "typed_name fn" "elided_typed c" "block_fit g c b"
    and "emit_instrs g fn (s_locs c) (s_frame c) (block_instrs b) (block_first_term_temp g b) st = Inr (t, st')"
    and "rax_temp st = - 1" "omit_store_temp st = - 1" "sim c (- 1) s x"
    and "ir_instrs (site_env c) (block_instrs b) s = Some s1"
  shows "reaches c t x (sim c (rax_temp st') s1)" "term_fit c (rax_temp st') (block_term b)"
proof -
  have el: "\<forall>u \<in> s_elided c. 0 \<le> u \<and> int_ok u" using assms(5) by (simp add: elided_typed_def)
  have list: "list_sim g c fn (block_instrs b)"
    using all_instr_sim [OF assms(1-4) el] by (intro list_sim_from_instrs [OF assms(1)]) blast
  have fit: "elided_fit c (looses g (s_locs c) (- 1) (block_instrs b) (block_first_term_temp g b))
      (omitted g (s_locs c) (block_instrs b) (block_first_term_temp g b))"
    using assms(6) by (auto simp: elided_fit_def block_fit_def block_loose_def block_omitted_def)
  have typed: "list_all typed_instr (block_instrs b)" using assms(6) by (simp add: block_fit_def typed_block_def)
  show "reaches c t x (sim c (rax_temp st') s1)"
    by (rule list_simD [OF list assms(7) typed assms(11,9) _ fit]) (use assms(8,10) in simp_all)
  show "term_fit c (rax_temp st') (block_term b)"
    unfolding term_fit_def
  proof (intro ballI impI)
    fix u assume u: "u \<in> s_elided c" "0 < term_uses (block_term b) u"
    then have "spare (block_pending g (s_locs c) b) (term_uses (block_term b) u) u = 0"
      using assms(6) by (auto simp: block_fit_def block_loose_def)
    with u(2) have "block_pending g (s_locs c) b = u" "term_uses (block_term b) u = 1"
      by (auto simp: spare_def split: if_splits)
    moreover have "0 \<le> u" "int_ok u" using el u(1) by simp_all
    moreover have "block_pending g (s_locs c) b = - 1 \<or> block_pending g (s_locs c) b = rax_temp st'"
      unfolding block_pending_def by (rule pending_in_rax [OF assms(1,7)]) simp
    ultimately show "int_ok u \<and> u = rax_temp st' \<and> term_uses (block_term b) u = 1" by auto
  qed
qed

definition goal_of :: "site \<Rightarrow> string \<Rightarrow> string list \<Rightarrow> ir_state \<Rightarrow> ir_next \<Rightarrow> string list \<Rightarrow> string list list \<Rightarrow> x86 \<Rightarrow> bool" where
  "goal_of c fn ret s nx target rets x \<longleftrightarrow>
     (case nx of
        Return v \<Rightarrow>
          \<exists>y. rax y = v \<and> rsp y = return_addr c + 8 \<and> agrees c s (mem y) \<and> runs_to c (target, ret # rets, x) (ret, rets, y)
      | Goto k \<Rightarrow>
          \<exists>next y. block_place (s_prog c) fn k next \<and> sim c (- 1) (s\<lparr>incoming := []\<rparr>) y \<and>
            runs_to c (target, ret # rets, x) (next, ret # rets, y))"

lemma block_goes:
  assumes "amd64 g" "site_ok c" "prog_ok c" "typed_name fn" "elided_typed c" "block_fit g c b"
    and "block_at g c fn b target" "sim c (- 1) s x" "returns c ret"
    and "\<forall>k \<in> term_targets (block_term b). \<exists>p. block_place (s_prog c) fn k p"
    and "ir_instrs (site_env c) (block_instrs b) s = Some s1" "ir_term (site_env c) s1 (block_term b) = Some nx"
  shows "goal_of c fn ret s1 nx target rets x"
proof -
  obtain next_id pre rest t1 t2 st st1 st2 where a: "target = m1_words t1 @ m1_words t2 @ rest"
    "s_prog c = pre @ m1_words t1 @ m1_words t2 @ rest" "opens rest" "rax_temp st = - 1" "omit_store_temp st = - 1"
    "emit_instrs g fn (s_locs c) (s_frame c) (block_instrs b) (block_first_term_temp g b) st = Inr (t1, st1)"
    "emit_terminator g fn next_id (s_locs c) (s_frame c) (block_term b) st1 = Inr (t2, st2)"
    "0 < next_id \<longrightarrow> falls_to fn next_id rest"
    using assms(7) by (auto simp: block_at_def)
  note r = block_reaches [OF assms(1-6) a(6,4,5) assms(8,11)]
  have "code_text t2" by (rule emitsD [OF emits_terminator [OF assms(1)] a(7)])
  then have "opens (m1_words t2 @ rest)" using a(3) by (simp add: code_text_def opens_append)
  from reachesD [OF r(1) a(2) this, of "ret # rets"] obtain y where y: "sim c (rax_temp st1) s1 y"
    "runs_to c (target, ret # rets, x) (m1_words t2 @ rest, ret # rets, y)" unfolding a(1) by blast
  let ?s = "s1\<lparr>incoming := []\<rparr>"
  note z = sim_incoming [OF y(1)]
  have P: "s_prog c = (pre @ m1_words t1) @ m1_words t2 @ rest" using a(2) by simp
  have typed: "typed_term (block_term b)" using assms(6) by (simp add: block_fit_def typed_block_def)
  have tg: "targets_ok c fn next_id (block_term b) rest"
    using assms(6,10) a(8) by (auto simp: targets_ok_def block_fit_def)
  show ?thesis
  proof (cases nx)
    case (Return v)
    with assms(12) have "ir_term (site_env c) ?s (block_term b) = Some (Return v)" by (simp add: ir_term_incoming)
    from return_goes [OF assms(1,2) a(7) typed this r(2) z assms(9) P, of rets] obtain q where
      q: "rax q = v" "rsp q = return_addr c + 8" "mem q = mem y"
        "runs_to c (m1_words t2 @ rest, ret # rets, y) (ret, rets, q)" by auto
    have "agrees c s1 (mem q)" using sim_agrees [OF y(1)] q(3) by simp
    with q(1,2) steps_trans [OF y(2) q(4)] Return show ?thesis by (auto simp: goal_of_def)
  next
    case (Goto k)
    with assms(12) have "ir_term (site_env c) ?s (block_term b) = Some (Goto k)" by (simp add: ir_term_incoming)
    from branch_goes [OF assms(1-4) _ a(7) typed this r(2) z P tg a(3), of "ret # rets"] obtain p q where
      q: "block_place (s_prog c) fn k p" "sim c (- 1) ?s q"
        "runs_to c (m1_words t2 @ rest, ret # rets, y) (p, ret # rets, q)" by auto
    with steps_trans [OF y(2) q(3)] Goto show ?thesis by (auto simp: goal_of_def)
  qed
qed

section \<open>The blocks a run goes through\<close>

definition blocks_at :: "Globals \<Rightarrow> site \<Rightarrow> string \<Rightarrow> Block list \<Rightarrow> bool" where
  "blocks_at g c fn bs \<longleftrightarrow>
     (\<forall>b \<in> set bs. block_fit g c b \<and> term_targets (block_term b) \<subseteq> block_id ` set bs \<and>
        (\<exists>pre target. block_at g c fn b target \<and> s_prog c = pre @ block_label fn b @ target))"

lemma labelled_place:
  assumes "blocks_at g c fn bs" "prog_ok c" "b \<in> set bs" "block_id b \<noteq> 0"
  shows "\<exists>target. block_at g c fn b target \<and> block_place (s_prog c) fn (block_id b) target"
proof -
  obtain pre target where t: "block_at g c fn b target" "s_prog c = pre @ block_label fn b @ target"
    using assms(1,3) by (auto simp: blocks_at_def)
  have "linked (s_address c) (s_prog c) (s_names c)" using assms(2) by (simp add: prog_ok_def)
  from place_of_label [OF this, of pre "emit_block_ref fn (block_id b)" target] t assms(4) show ?thesis
    by (auto simp: block_label_def block_place_def)
qed

lemma run_goes:
  assumes "amd64 g" "site_ok c" "prog_ok c" "typed_name fn" "elided_typed c" "blocks_at g c fn bs" "returns c ret"
  shows "ir_run n (site_env c) bs b s = Some (v, m) \<Longrightarrow> b \<in> set bs \<Longrightarrow> block_at g c fn b target \<Longrightarrow>
    sim c (- 1) s x \<Longrightarrow>
    \<exists>y s'. rax y = v \<and> rsp y = return_addr c + 8 \<and> agrees c s' (mem y) \<and> ir_mem s' = m \<and>
      runs_to c (target, ret # rets, x) (ret, rets, y)"
proof (induction n arbitrary: b s target x)
  case (Suc n)
  from Suc.prems(1) obtain s1 nx where ir: "ir_instrs (site_env c) (block_instrs b) s = Some s1"
    "ir_term (site_env c) s1 (block_term b) = Some nx"
    by (auto simp: Option.bind_eq_Some_conv)
  have fit: "block_fit g c b" and sub: "term_targets (block_term b) \<subseteq> block_id ` set bs"
    using assms(6) Suc.prems(2) by (auto simp: blocks_at_def)
  have "\<forall>k \<in> term_targets (block_term b). \<exists>p. block_place (s_prog c) fn k p"
  proof
    fix k assume k: "k \<in> term_targets (block_term b)"
    then obtain d where "d \<in> set bs" "block_id d = k" using sub by auto
    moreover have "k \<noteq> 0" using fit k by (auto simp: block_fit_def)
    ultimately show "\<exists>p. block_place (s_prog c) fn k p" using labelled_place [OF assms(6,3)] by blast
  qed
  note goal = block_goes [OF assms(1-5) fit Suc.prems(3,4) assms(7) this ir, of rets, unfolded goal_of_def]
  show ?case
  proof (cases nx)
    case (Return w)
    with Suc.prems(1) ir have "w = v" "ir_mem s1 = m" by auto
    with goal Return show ?thesis by auto
  next
    case (Goto k)
    with Suc.prems(1) ir obtain d where d: "k \<noteq> 0" "find (\<lambda>b. block_id b = k) bs = Some d"
      "ir_run n (site_env c) bs d (s1\<lparr>incoming := []\<rparr>) = Some (v, m)"
      by (auto simp: Option.bind_eq_Some_conv split: if_splits)
    have db: "d \<in> set bs" "block_id d = k" using d(2) by (auto simp: find_Some_iff)
    from goal Goto obtain p y where y: "block_place (s_prog c) fn k p" "sim c (- 1) (s1\<lparr>incoming := []\<rparr>) y"
      "runs_to c (target, ret # rets, x) (p, ret # rets, y)" by auto
    have "block_at g c fn d p"
      using labelled_place [OF assms(6,3) db(1)] d(1) db(2) y(1) by (auto simp: block_place_def)
    from Suc.IH [OF d(3) db(1) this y(2)] y(3) show ?thesis by (blast intro: steps_trans)
  qed
qed simp

end
