(* ===== verification/Amd64Function.thy ===== *)
theory Amd64Function
  imports Amd64Blocks
begin

text \<open>
  Functions and programs: the code of a function keeps the contract of theory \<open>Amd64Calls\<close>, if the
  functions it calls do, and so every function of a linked program computes what its IR computes.
\<close>

section \<open>Programs\<close>

definition has_code :: "Globals \<Rightarrow> string list \<Rightarrow> Function \<Rightarrow> bool" where
  "has_code g prog fn \<longleftrightarrow>
     (\<exists>pre rest t st st'. emit_function g fn st = Inr (t, st') \<and> prog = pre @ m1_words t @ rest \<and> opens rest)"

definition function_ok :: "Function \<Rightarrow> bool" where
  "function_ok fn \<longleftrightarrow>
     typed_function fn \<and>
     (\<forall>b \<in> set (fn_blocks fn). \<forall>k \<in> term_targets (block_term b). 0 < k \<and> k \<in> block_id ` set (fn_blocks fn))"

section \<open>The frame of one call\<close>

definition call_site ::
    "Globals \<Rightarrow> (string \<Rightarrow> int) \<Rightarrow> (string list \<Rightarrow> 64 word) \<Rightarrow> string list \<Rightarrow> 64 word \<Rightarrow> caller \<Rightarrow> string list \<Rightarrow>
     Block list \<Rightarrow> LocArray \<Rightarrow> int \<Rightarrow> (64 word \<Rightarrow> bool) \<Rightarrow> 64 word \<Rightarrow> x86 \<Rightarrow> site" where
  "call_site g address spot prog limit call names bs locs frame frozen sp x =
     \<lparr>s_address = address, s_spot = spot, s_prog = prog, s_locs = locs, s_frame = frame,
      s_base = sp - word_of_int (8 * frame), s_limit = limit, s_frozen = frozen, s_mem0 = mem x, s_call = call,
      s_names = names, s_elided = elided_temps g locs bs\<rparr>"

text \<open>What a call is made with: the allocation of the function, an entry that keeps the contract, room.\<close>

definition called ::
    "(string list \<Rightarrow> 64 word) \<Rightarrow> 64 word \<Rightarrow> Function \<Rightarrow> LocArray \<Rightarrow> int \<Rightarrow> (64 word \<Rightarrow> bool) \<Rightarrow> 64 word \<Rightarrow>
     64 word list \<Rightarrow> bytes \<Rightarrow> string list \<Rightarrow> x86 \<Rightarrow> bool" where
  "called spot limit fn locs frame frozen sp args m ret x \<longleftrightarrow>
     allocate_function TARGET_AMD64 fn = Inr (locs, frame) \<and> frame_bytes TARGET_AMD64 fn < 2 ^ 31 \<and> entry_ok spot limit frozen sp args m ret x \<and>
     uint limit + 8 * frame \<le> uint sp"

definition start_state :: "64 word \<Rightarrow> 64 word \<Rightarrow> 64 word list \<Rightarrow> bytes \<Rightarrow> ir_state" where
  "start_state base sp args m =
     \<lparr>temps = Map.empty, ir_mem = (\<lambda>a. if base \<le> a \<and> a < sp then None else m a), incoming = args\<rparr>"

lemma allocation_facts:
  assumes "allocate_function a fn = Inr (locs, frame)" "frame_bytes a fn < 2 ^ 31"
  shows "0 \<le> frame" "slots_in_frame locs frame" "slots_disjoint locs"
proof -
  obtain l0 where "alloc_inv (l0, frame)" and c: "counted (function_uses fn) l0 locs"
    using allocate_function_steps [OF assms(1)] assms(2) by metis
  then show "0 \<le> frame" "slots_in_frame locs frame" "slots_disjoint locs"
    by (simp_all add: alloc_inv_def slots_counted [OF c])
qed

lemma call_site_fields [simp]:
  "s_address (call_site g A B P limit call names bs locs frame frozen sp x) = A"
  "s_spot (call_site g A B P limit call names bs locs frame frozen sp x) = B"
  "s_prog (call_site g A B P limit call names bs locs frame frozen sp x) = P"
  "s_locs (call_site g A B P limit call names bs locs frame frozen sp x) = locs"
  "s_frame (call_site g A B P limit call names bs locs frame frozen sp x) = frame"
  "s_base (call_site g A B P limit call names bs locs frame frozen sp x) = sp - word_of_int (8 * frame)"
  "s_limit (call_site g A B P limit call names bs locs frame frozen sp x) = limit"
  "s_frozen (call_site g A B P limit call names bs locs frame frozen sp x) = frozen"
  "s_mem0 (call_site g A B P limit call names bs locs frame frozen sp x) = mem x"
  "s_call (call_site g A B P limit call names bs locs frame frozen sp x) = call"
  "s_names (call_site g A B P limit call names bs locs frame frozen sp x) = names"
  "s_elided (call_site g A B P limit call names bs locs frame frozen sp x) = elided_temps g locs bs"
  by (simp_all add: call_site_def)

lemma called_base:
  assumes "called spot limit fn locs frame frozen sp args m ret x"
  shows "uint (sp - word_of_int (8 * frame)) = uint sp - 8 * frame"
proof -
  have "0 \<le> frame" using assms allocation_facts(1) by (auto simp: called_def)
  then show ?thesis using assms by (intro below_base [of _ limit]) (simp_all add: called_def)
qed

lemma called_site_ok:
  assumes "called spot limit fn locs frame frozen sp args m ret x"
  shows "site_ok (call_site g A spot P limit call names bs locs frame frozen sp x)"
proof -
  note a = assms [unfolded called_def]
  have f: "0 \<le> frame" "slots_in_frame locs frame" "slots_disjoint locs"
    using allocation_facts [of _ fn locs frame] a by blast+
  have top: "stack_top (call_site g A spot P limit call names bs locs frame frozen sp x) = uint sp"
    using called_base [OF assms] by (simp add: stack_top_def)
  have "uint sp - uint limit < 2 ^ 31" using a by (auto simp: entry_ok_def pushed_bytes_def)
  moreover have "uint sp < 2 ^ 64" using uint_lt2p [of sp] by simp
  moreover have "uint limit \<le> uint sp - 8 * frame" using a by simp
  moreover have "\<not> (uint limit \<le> uint b \<and> uint b < uint sp)" if "frozen b" for b
    using a that by (simp add: entry_ok_def)
  ultimately show ?thesis
    using f called_base [OF assms] by (simp add: site_ok_def top)
qed

lemma called_return:
  assumes "called spot limit fn locs frame frozen sp args m ret x"
  shows "return_addr (call_site g A spot P limit call names bs locs frame frozen sp x) = sp"
    "returns (call_site g A spot P limit call names bs locs frame frozen sp x) ret"
  using assms by (simp_all add: return_addr_def returns_def called_def entry_ok_def)

lemma called_sim:
  assumes "called spot limit fn locs frame frozen sp args m ret x"
  shows "sim (call_site g A spot P limit call names bs locs frame frozen sp x) (- 1)
    (start_state (sp - word_of_int (8 * frame)) sp args m) (x\<lparr>rsp := sp - word_of_int (8 * frame)\<rparr>)"
proof -
  let ?c = "call_site g A spot P limit call names bs locs frame frozen sp x" and ?b = "sp - word_of_int (8 * frame)"
  let ?s = "start_state ?b sp args m"
  note a = assms [unfolded called_def]
  have frame: "0 \<le> frame" using allocation_facts(1) [of _ fn locs frame] a by blast
  have entry: "entry_ok spot limit frozen sp args m ret x" using a by simp
  have "mem x b = w" if b: "ir_mem ?s b = Some w" "\<not> hidden (site_env ?c) b" for b w
  proof -
    have "m b = Some w" "\<not> frozen b" "\<not> (limit \<le> b \<and> b < sp)"
      using b by (auto simp: start_state_def hidden_site split: if_splits)
    with entry show ?thesis by (simp add: entry_ok_def)
  qed
  then have ag: "agrees ?c ?s (mem x)" by (auto simp: agrees_def start_state_def)
  have small: "8 * frame + 8 + pushed_bytes (length args) < 2 ^ 31"
    using a by (simp add: entry_ok_def)
  have addr: "param_addr ?c i = stack_arg sp i" for i
    by (simp add: param_addr_def param_offset_def stack_arg_def algebra_simps)
  have "params_in ?c ?s (x\<lparr>rsp := ?b\<rparr>)"
    unfolding params_in_def
  proof (intro allI impI)
    fix i assume i: "i < length (incoming ?s)"
    then have "i < length args" by (simp add: start_state_def)
    with entry have "i < 6 \<longrightarrow> arg_reg i x = args ! i"
      "6 \<le> i \<longrightarrow> (\<forall>a \<in> cells 8 (stack_arg sp i). frozen a) \<and> mem_read 8 (mem x) (stack_arg sp i) = args ! i"
      by (simp_all add: entry_ok_def)
    moreover have "\<not> i < 6 \<longrightarrow> param_offset ?c i < 2 ^ 31"
      using \<open>i < length args\<close> small by (auto simp: param_offset_def pushed_bytes_def)
    ultimately show "if i < 6 then arg_reg i (x\<lparr>rsp := ?b\<rparr>) = incoming ?s ! i
        else param_offset ?c i < 2 ^ 31 \<and> (\<forall>a \<in> cells 8 (param_addr ?c i). s_frozen ?c a) \<and>
          mem_read 8 (s_mem0 ?c) (param_addr ?c i) = incoming ?s ! i"
      by (auto simp: addr start_state_def)
  qed
  then show ?thesis using ag cached_none [OF ag] by (simp add: sim_def)
qed

text \<open>Back in the caller: what the callee left in memory is what the contract promises.\<close>

lemma called_exit:
  assumes "called spot limit fn locs frame frozen sp args m ret x"
    and "agrees (call_site g A spot P limit call names bs locs frame frozen sp x) s (mem y)"
    and "rax y = v" "rsp y = sp + 8"
  shows "exit_ok limit frozen sp v (ir_mem s) x y"
  unfolding exit_ok_def
proof (intro conjI allI impI)
  let ?c = "call_site g A spot P limit call names bs locs frame frozen sp x"
  note ok = called_site_ok [OF assms(1), of g A P call names bs]
  note base = called_base [OF assms(1)]
  show "mem y a = mem x a" if "frozen a" for a using agreesD(2) [OF assms(2), of a] that by simp
  fix a b assume a: "ir_mem s a = Some b" "\<not> frozen a" "\<not> (limit \<le> a \<and> a < sp)"
  have "0 \<le> frame" "uint limit + 8 * frame \<le> uint sp"
    using allocation_facts(1) assms(1) by (auto simp: called_def)
  then have "\<not> (limit \<le> a \<and> a < sp - word_of_int (8 * frame))"
    using a(3) base by (auto simp: word_le_def word_less_def)
  moreover have "\<not> slot_byte locs (sp - word_of_int (8 * frame)) a"
  proof
    assume "slot_byte locs (sp - word_of_int (8 * frame)) a"
    with slot_byte_bounds [OF ok, of a] have "uint sp - 8 * frame \<le> uint a" "uint a < uint sp"
      using base by (simp_all add: stack_top_def)
    with a(3) \<open>uint limit + 8 * frame \<le> uint sp\<close> show False by (auto simp: word_le_def word_less_def)
  qed
  ultimately have "\<not> hidden (site_env ?c) a" using a(2) by (simp add: hidden_site)
  from agreesD(1) [OF assms(2) a(1) this] show "mem y a = b" .
qed (use assms(3,4) in simp_all)

section \<open>The code of a function\<close>

lemma prologue_exec:
  assumes "amd64 g" "emit_prologue g frame = Inr t" "0 \<le> frame" "8 * frame < 2 ^ 31" "rsp x = sp"
  shows "exec c t x (x\<lparr>rsp := sp - word_of_int (8 * frame)\<rparr>)"
proof (cases "0 < frame")
  case True
  have "c_int (frame * 8) = frame * 8" using assms(3,4) by (intro c_int_small) simp_all
  with exec_stack(5) [of "8 * frame" c x] True assms show ?thesis
    by (simp add: emit_prologue_def amd64_def) (simp add: mult.commute)
next
  case False
  with assms(3) have "frame = 0" by simp
  with assms have "t = []" "x\<lparr>rsp := sp - word_of_int (8 * frame)\<rparr> = x"
    by (simp_all add: emit_prologue_def amd64_def)
  then show ?thesis by simp
qed

lemma function_parts:
  assumes "amd64 g" "typed_name (fn_name fn)" "emit_function g fn st = Inr (t, st')"
    and "allocate_function TARGET_AMD64 fn = Inr (locs, frame)"
  obtains tp st1 tb st2 where "emit_prologue g frame = Inr tp" "rax_temp st1 = - 1" "omit_store_temp st1 = - 1"
    "emit_blocks g (fn_name fn) locs frame (fn_blocks fn) st1 = Inr (tb, st2)"
    "m1_words t = (CHR '':'' # ''FUNCTION_'' @ fn_name fn) # m1_words (tp @ tb)" "code_text t"
proof -
  have arch: "target_arch g = TARGET_AMD64" using assms(1) by (simp add: amd64_def)
  let ?st = "emit_state_init st" and ?l = "CHR '':'' # (''FUNCTION_'' @ fn_name fn) @ [newline]"
  obtain tp tb st2 where e: "emit_prologue g frame = Inr tp"
    "emit_blocks g (fn_name fn) locs frame (fn_blocks fn) ?st = Inr (tb, st2)" "t = ?l @ (tp @ tb) @ [newline]"
    using assms(3,4) arch by (auto simp: emit_function_def act_simps act_seq_def out_res_def split: sum.splits)
  have s: "rax_temp ?st = - 1" "omit_store_temp ?st = - 1" by (simp_all add: emit_state_init_def)
  have "code_text tb" by (rule emits_blocks [OF assms(1,2) e(2) s])
  moreover have "code_text tp"
    using e(1) assms(1) by (auto simp: emit_prologue_def amd64_def newline_def split: if_splits
        intro!: code_text_open)
  ultimately have c: "code_text (tp @ tb)" by (rule code_text_append [rotated])
  have "word_ok (''FUNCTION_'' @ fn_name fn)"
    using assms(2) by (auto simp: word_ok_def typed_name_def list_all_iff is_blank_def newline_def)
  from label_words [OF this] have "m1_words ?l = [CHR '':'' # ''FUNCTION_'' @ fn_name fn]" by simp
  moreover have "m1_words [newline] = []" by (simp add: m1_words_def)
  ultimately have "m1_words t = (CHR '':'' # ''FUNCTION_'' @ fn_name fn) # m1_words (tp @ tb)"
    unfolding e(3) m1_words_code [OF code_text_label] m1_words_code [OF c] by simp
  moreover have "code_text t"
    unfolding e(3) by (intro code_text_append code_text_label c code_text_empty_line)
  ultimately show ?thesis using that e(1,2) s by blast
qed

section \<open>Calls of calls\<close>

lemma call_site_elided:
  assumes "called spot limit fn locs frame frozen sp args m ret x" "function_ok fn"
  shows "elided_typed (call_site g A spot P limit call names (fn_blocks fn) locs frame frozen sp x)"
    "b \<in> set (fn_blocks fn) \<Longrightarrow>
      block_fit g (call_site g A spot P limit call names (fn_blocks fn) locs frame frozen sp x) b"
proof -
  have typed: "typed_function fn" using assms(2) by (simp add: function_ok_def)
  have a: "allocate_function TARGET_AMD64 fn = Inr (locs, frame)" using assms(1) by (simp add: called_def)
  note e = elided_counts [OF a typed]
  show "elided_typed (call_site g A spot P limit call names (fn_blocks fn) locs frame frozen sp x)"
    using e(1,2) by (auto simp: elided_typed_def)
  assume b: "b \<in> set (fn_blocks fn)"
  then have "typed_block b" using typed by (simp add: typed_function_def list_all_iff)
  moreover have "\<forall>k \<in> term_targets (block_term b). 0 < k" using assms(2) b by (simp add: function_ok_def)
  ultimately show "block_fit g (call_site g A spot P limit call names (fn_blocks fn) locs frame frozen sp x) b"
    using e(4) [OF _ b] b by (auto simp: block_fit_def elided_temps_def)
qed

lemma function_runs:
  assumes "amd64 g" "function_ok fn" "has_code g P fn" "linked A P names" "body_ok A spot P limit call"
    and "called spot limit fn locs frame frozen sp args m ret x" "fn_blocks fn \<noteq> []"
    and "ir_run n (frame_env call A names limit frozen locs (sp - word_of_int (8 * frame))) (fn_blocks fn)
      (hd (fn_blocks fn)) (start_state (sp - word_of_int (8 * frame)) sp args m) = Some (v, m')"
  shows "\<exists>target y. after_label (''FUNCTION_'' @ fn_name fn) P = Some target \<and>
    steps A spot P (target, ret # rets, x) (ret, rets, y) \<and> exit_ok limit frozen sp v m' x y"
proof -
  let ?c = "call_site g A spot P limit call names (fn_blocks fn) locs frame frozen sp x"
  let ?b = "sp - word_of_int (8 * frame)"
  have name: "typed_name (fn_name fn)" using assms(2) by (simp add: function_ok_def typed_function_def)
  have a: "allocate_function TARGET_AMD64 fn = Inr (locs, frame)" "rsp x = sp" "frame_bytes TARGET_AMD64 fn < 2 ^ 31"
    using assms(6) by (simp_all add: called_def entry_ok_def)
  obtain pre rest t st st' where code: "emit_function g fn st = Inr (t, st')" "P = pre @ m1_words t @ rest" "opens rest"
    using assms(3) by (auto simp: has_code_def)
  obtain tp st1 tb st2 where e: "emit_prologue g frame = Inr tp" "rax_temp st1 = - 1" "omit_store_temp st1 = - 1"
    "emit_blocks g (fn_name fn) locs frame (fn_blocks fn) st1 = Inr (tb, st2)"
    "m1_words t = (CHR '':'' # ''FUNCTION_'' @ fn_name fn) # m1_words (tp @ tb)"
    by (rule function_parts [OF assms(1) name code(1) a(1)])
  have P: "s_prog ?c = (pre @ [CHR '':'' # ''FUNCTION_'' @ fn_name fn]) @ m1_words (tp @ tb) @ rest"
    using code(2) e(5) by simp
  have start: "after_label (''FUNCTION_'' @ fn_name fn) P = Some (m1_words (tp @ tb) @ rest)"
    by (rule place_of_label [OF assms(4), of pre]) (use P in simp)
  have ok: "site_ok ?c" "prog_ok ?c" and "0 \<le> frame"
    using called_site_ok [OF assms(6)] allocation_facts(1) [OF a(1,3)] assms(4,5) by (simp_all add: prog_ok_def)
  moreover have "8 * frame < 2 ^ 31" using frame_small [OF ok(1)] by simp
  ultimately have pro: "exec ?c tp x (x\<lparr>rsp := ?b\<rparr>)" using prologue_exec [OF assms(1) e(1)] a(2) by blast
  have "code_text tb" by (rule emits_blocks [OF assms(1) name e(4,2,3)])
  then have op: "opens (m1_words tb @ rest)" using code(3) by (simp add: code_text_def opens_append)
  note one = exec_steps [OF pro P op]
  have P2: "P = (pre @ [CHR '':'' # ''FUNCTION_'' @ fn_name fn] @ m1_words tp) @ m1_words tb @ rest"
    using P one(1) by simp
  note placed = blocks_placed [OF assms(1) name, of ?c, simplified call_site_fields, OF e(4,2,3) P2 code(3)]
  have el: "elided_typed ?c" "\<And>b. b \<in> set (fn_blocks fn) \<Longrightarrow> block_fit g ?c b"
    by (rule call_site_elided [OF assms(6,2)])+
  have "\<forall>b \<in> set (fn_blocks fn). term_targets (block_term b) \<subseteq> block_id ` set (fn_blocks fn)"
    using assms(2) by (auto simp: function_ok_def)
  then have at: "blocks_at g ?c (fn_name fn) (fn_blocks fn)"
    using el(2) placed by (simp add: blocks_at_def)
  obtain target where t: "block_at g ?c (fn_name fn) (hd (fn_blocks fn)) target"
    "m1_words tb @ rest = block_label (fn_name fn) (hd (fn_blocks fn)) @ target"
    using placed assms(7) by auto
  have label: "runs_to ?c (m1_words tb @ rest, r, y) (target, r, y)" for r y
    unfolding t(2) by (auto simp: block_label_def steps_refl intro: steps_one [OF label_step])
  have "ir_run n (site_env ?c) (fn_blocks fn) (hd (fn_blocks fn)) (start_state ?b sp args m) = Some (v, m')"
    using assms(8) by (simp add: site_env_def)
  from run_goes [OF assms(1) ok name el(1) at called_return(2) [OF assms(6)] this _ t(1) called_sim [OF assms(6)], of rets]
  obtain y s' where y: "rax y = v" "rsp y = sp + 8" "agrees ?c s' (mem y)" "ir_mem s' = m'"
    "runs_to ?c (target, ret # rets, x\<lparr>rsp := ?b\<rparr>) (ret, rets, y)"
    using assms(7) called_return(1) [OF assms(6)] by auto
  have "steps A spot P (m1_words (tp @ tb) @ rest, ret # rets, x) (ret, rets, y)"
    using steps_trans [OF one(2) steps_trans [OF label y(5)]] by simp
  then show ?thesis using start called_exit [OF assms(6) y(3,1,2)] y(4) by auto
qed

lemma ir_call_cases:
  assumes "ir_call A limit fns (Suc n) frozen sp name args m = Some r"
  obtains fn locs frame where "find (\<lambda>fn. fn_name fn = name) fns = Some fn"
    "allocate_function TARGET_AMD64 fn = Inr (locs, frame)" "fn_blocks fn \<noteq> []"
    "frame_bytes TARGET_AMD64 fn < 2 ^ 31" "uint limit + 8 * frame \<le> uint sp"
    "ir_run n (frame_env (ir_call A limit fns n) A (map fn_name fns) limit frozen locs (sp - word_of_int (8 * frame)))
      (fn_blocks fn) (hd (fn_blocks fn)) (start_state (sp - word_of_int (8 * frame)) sp args m) = Some r"
proof -
  obtain fn where fn: "find (\<lambda>fn. fn_name fn = name) fns = Some fn"
    using assms by (cases "find (\<lambda>fn. fn_name fn = name) fns") simp_all
  obtain locs frame where a: "allocate_function TARGET_AMD64 fn = Inr (locs, frame)"
    using assms fn by (cases "allocate_function TARGET_AMD64 fn") auto
  show ?thesis
    by (rule that [OF fn a]) (use assms fn a in \<open>auto simp: Let_def start_state_def split: if_splits\<close>)
qed

lemma all_calls_ok:
  assumes "amd64 g" "\<forall>fn \<in> set fns. function_ok fn \<and> has_code g P fn" "linked A P (map fn_name fns)"
  shows "body_ok A spot P limit (ir_call A limit fns n)"
proof (induction n)
  case (Suc n)
  show ?case
    unfolding body_ok_def
  proof (intro allI impI)
    fix frozen sp name args m v m' x ret rets
    assume run: "ir_call A limit fns (Suc n) frozen sp name args m = Some (v, m')"
      and entry: "entry_ok spot limit frozen sp args m ret x"
    from ir_call_cases [OF run] obtain fn locs frame where f: "find (\<lambda>fn. fn_name fn = name) fns = Some fn"
      "allocate_function TARGET_AMD64 fn = Inr (locs, frame)" "fn_blocks fn \<noteq> []"
    "frame_bytes TARGET_AMD64 fn < 2 ^ 31" "uint limit + 8 * frame \<le> uint sp"
      "ir_run n (frame_env (ir_call A limit fns n) A (map fn_name fns) limit frozen locs (sp - word_of_int (8 * frame)))
        (fn_blocks fn) (hd (fn_blocks fn)) (start_state (sp - word_of_int (8 * frame)) sp args m) = Some (v, m')"
      by blast
    have fn: "fn \<in> set fns" "fn_name fn = name" using f(1) by (auto simp: find_Some_iff)
    have "called spot limit fn locs frame frozen sp args m ret x" using entry f(2,4,5) by (simp add: called_def)
    from function_runs [OF assms(1) _ _ assms(3) Suc.IH this f(3,6)] assms(2) fn
    show "\<exists>target y. after_label (''FUNCTION_'' @ name) P = Some target \<and>
        steps A spot P (target, ret # rets, x) (ret, rets, y) \<and> exit_ok limit frozen sp v m' x y"
      by blast
  qed
qed (simp add: body_ok_def)

end
