(* ===== verification/Translate.thy ===== *)
theory Translate
  imports EmitFn IrParser
begin

text \<open>
  The driver: \<^verbatim>\<open>translate_ir_module\<close>, which reads top-level items and emits each as it is read, the
  namespace of local labels, and \<^verbatim>\<open>main\<close>. The files \<^verbatim>\<open>main\<close> opens are parameters: the contents
  of readable files, which files can be written, and which paths name the same file.
\<close>

section \<open>Modules\<close>

fun translate_items :: "Globals \<Rightarrow> nat \<Rightarrow> string \<Rightarrow> action" where
  "translate_items g 0 file = out_res (Inl Diverges)"
| "translate_items g (Suc n) file =
     with_res (read_line file LINE_CAP) (\<lambda>r.
     case r of
       None \<Rightarrow> out []
     | Some (line, file) \<Rightarrow>
         if str_prefix_n line ''D '' 2 then
           with_res (parse_ir_data_item file line) (\<lambda>(item, file).
           seqs [out (emit_data_item g item), translate_items g n file])
         else if str_prefix_n line ''F '' 2 then
           with_res (parse_ir_function file line) (\<lambda>(fn, file).
           seqs [emit_function g fn, translate_items g n file])
         else if line \<noteq> [] then out_res (die ''unexpected IR top-level line'')
         else translate_items g n file)"

definition translate_ir_module :: "Globals \<Rightarrow> string \<Rightarrow> action" where
  "translate_ir_module g file =
     seqs [out (emit_header g), translate_items g (Suc (length file)) file]"

section \<open>The label namespace\<close>

definition is_label_char :: "char \<Rightarrow> bool" where
  "is_label_char c \<longleftrightarrow>
     97 \<le> char_code c \<and> char_code c \<le> 122 \<or> 65 \<le> char_code c \<and> char_code c \<le> 90 \<or>
     48 \<le> char_code c \<and> char_code c \<le> 57 \<or> char_code c = 95"

text \<open>The first loop: where the name after the last slash starts.\<close>

fun name_start :: "string \<Rightarrow> nat \<Rightarrow> nat \<Rightarrow> nat" where
  "name_start [] i start = start"
| "name_start (c # path) i start = name_start path (i + 1) (if c = CHR ''/'' then i + 1 else start)"

fun label_chars :: "string \<Rightarrow> nat \<Rightarrow> string" where
  "label_chars [] written = []"
| "label_chars (c # path) written =
     (if written < 120
      then (if is_label_char c then c else CHR ''_'') # label_chars path (written + 1)
      else [])"

definition set_label_namespace :: "string \<Rightarrow> string" where
  "set_label_namespace path =
     (let name = label_chars (drop (name_start path 0 0) path) 0
      in if name = [] then ''o'' else name)"

section \<open>The program\<close>

text \<open>
  \<open>Usage\<close> is the exit with status 2; \<open>Stopped\<close> the exit of \<^verbatim>\<open>die\<close>; \<open>Wrote\<close> the exit with status
  0 and the contents of the output file.
\<close>

datatype outcome = Usage | Stopped error | Wrote string string

definition parse_target :: "string \<Rightarrow> Target res" where
  "parse_target name =
     (if name = ''amd64'' \<or> name = ''x86_64'' then Inr TARGET_AMD64
      else if name = ''i386'' \<or> name = ''x86'' then Inr TARGET_I386
      else if name = ''aarch64'' \<or> name = ''arm64'' then Inr TARGET_AARCH64
      else if name = ''riscv64'' then Inr TARGET_RISCV64
      else die ''unknown target'')"

definition initial_state :: EmitState where
  "initial_state = \<lparr>rax_temp = -1, omit_store_temp = -1, literal_id = 0, branch_skip_id = 0,
     truth_skip_id = 0\<rparr>"

definition translate_file :: "Target \<Rightarrow> string \<Rightarrow> string \<Rightarrow> string res" where
  "translate_file target output contents =
     res_bind (read_line contents LINE_CAP) (\<lambda>r.
     case r of
       None \<Rightarrow> die ''empty input''
     | Some (header, rest) \<Rightarrow>
         if header \<noteq> ''HCCIR 1'' then die ''bad IR input header''
         else
           res_bind (translate_ir_module
               \<lparr>target_arch = target, label_namespace = set_label_namespace output\<rparr> rest initial_state)
             (\<lambda>(text, state). Inr text))"

text \<open>
  Opening the output for writing empties it before the first line is read, so an output that is the input
  leaves nothing to read.
\<close>

definition main_files ::
  "(string \<Rightarrow> string option) \<Rightarrow> (string \<Rightarrow> bool) \<Rightarrow> (string \<Rightarrow> string \<Rightarrow> bool) \<Rightarrow> Target \<Rightarrow> string list \<Rightarrow> outcome" where
  "main_files readable writable same_file target paths =
     (case paths of
        [input, output] \<Rightarrow>
          (case readable input of
             None \<Rightarrow> Stopped (Die ''cannot open input'')
           | Some contents \<Rightarrow>
               if \<not> writable output then Stopped (Die ''cannot open output'')
               else
                 let contents = (if same_file input output then [] else contents) in
                 (case translate_file target output contents of
                    Inl e \<Rightarrow> Stopped e
                  | Inr text \<Rightarrow> Wrote output text))
      | _ \<Rightarrow> Usage)"

text \<open>The arguments without the program's name, so that \<^verbatim>\<open>argc == 5\<close> is a list of four.\<close>

definition hcc_m1_main ::
  "(string \<Rightarrow> string option) \<Rightarrow> (string \<Rightarrow> bool) \<Rightarrow> (string \<Rightarrow> string \<Rightarrow> bool) \<Rightarrow> string list \<Rightarrow> outcome" where
  "hcc_m1_main readable writable same_file args =
     (if length args = 4 \<and> args ! 0 = ''--target'' then
        (case parse_target (args ! 1) of
           Inl e \<Rightarrow> Stopped e
         | Inr target \<Rightarrow> main_files readable writable same_file target (drop 2 args))
      else main_files readable writable same_file TARGET_AMD64 args)"

end
