(* ===== verification/M1Ir.thy ===== *)
theory M1Ir
  imports TextIO
begin

text \<open>
  The other side of the IR file: the types of \<^verbatim>\<open>hcc/src/Hcc/TypesIr.hs\<close> and the printer of
  \<^verbatim>\<open>hcc/src/Hcc/M1Ir.hs\<close>, with which \<^verbatim>\<open>hcc1\<close> writes what \<^verbatim>\<open>hcc-m1\<close> reads. A Haskell action
  that calls \<^verbatim>\<open>write\<close> once per line is the list of the lines it writes; the line writer of
  \<^verbatim>\<open>HccSystem.hs\<close> ends each with a newline. The prefix H marks a Haskell type or constructor whose
  name is taken by the C side. Haskell's \<^verbatim>\<open>Int\<close> is 64 bits wide; its \<^verbatim>\<open>show\<close> is \<open>dec\<close>.
\<close>

section \<open>TypesIr.hs\<close>

datatype Temp = Temp int

datatype BlockId = BlockId int

datatype HOperand =
    OTemp Temp
  | OImm int
  | OImmBytes "int list"
  | OGlobal string
  | OFunction string

datatype BinOp =
    IAdd | ISub | IMul | IDiv | IMod | IUDiv | IUMod | IShl | IShr | ISar
  | IEq | INe | ILt | ILe | IGt | IGe | IULt | IULe | IUGt | IUGe
  | IAnd | IOr | IXor

datatype HInstr =
    IParam Temp int
  | IAlloca Temp int
  | IConst Temp int
  | ICopy Temp HOperand
  | IAddrOf Temp Temp
  | ILoad64 Temp HOperand
  | ILoad32 Temp HOperand
  | ILoadS32 Temp HOperand
  | ILoad16 Temp HOperand
  | ILoadS16 Temp HOperand
  | ILoad8 Temp HOperand
  | ILoadS8 Temp HOperand
  | IStore64 HOperand HOperand
  | IStore32 HOperand HOperand
  | IStore16 HOperand HOperand
  | IStore8 HOperand HOperand
  | ISExt Temp int HOperand
  | IZExt Temp int HOperand
  | ITrunc Temp int HOperand
  | IBin Temp BinOp HOperand HOperand
  | ICond Temp "HInstr list" HOperand "HInstr list" HOperand "HInstr list" HOperand
  | ICall "Temp option" string "HOperand list"
  | ICallIndirect "Temp option" HOperand "HOperand list"

datatype HTerminator =
    TRet "HOperand option"
  | TJump BlockId
  | TBranch HOperand BlockId BlockId
  | TBranchCmp BinOp HOperand HOperand BlockId BlockId

datatype HBasicBlock = BasicBlock BlockId "HInstr list" HTerminator

datatype HDataValue = DByte int | DAddress string

datatype HDataItem = HDataItem string "HDataValue list"

datatype HFunctionIr = FunctionIr string "HBasicBlock list"

datatype HTopItemIr = TopData HDataItem | TopFunction HFunctionIr

section \<open>M1Ir.hs\<close>

fun tempText :: "Temp \<Rightarrow> string" where
  "tempText (Temp n) = dec n"

fun blockIdText :: "BlockId \<Rightarrow> string" where
  "blockIdText (BlockId n) = dec n"

fun binOpCode :: "BinOp \<Rightarrow> int" where
  "binOpCode IAdd = 1"
| "binOpCode ISub = 2"
| "binOpCode IMul = 3"
| "binOpCode IDiv = 4"
| "binOpCode IMod = 5"
| "binOpCode IShl = 6"
| "binOpCode IShr = 7"
| "binOpCode ISar = 8"
| "binOpCode IEq = 9"
| "binOpCode INe = 10"
| "binOpCode ILt = 11"
| "binOpCode ILe = 12"
| "binOpCode IGt = 13"
| "binOpCode IGe = 14"
| "binOpCode IULt = 15"
| "binOpCode IULe = 16"
| "binOpCode IUGt = 17"
| "binOpCode IUGe = 18"
| "binOpCode IAnd = 19"
| "binOpCode IOr = 20"
| "binOpCode IXor = 21"
| "binOpCode IUDiv = 22"
| "binOpCode IUMod = 23"

fun listIrFieldsRest :: "('a \<Rightarrow> string) \<Rightarrow> 'a list \<Rightarrow> string" where
  "listIrFieldsRest render [] = []"
| "listIrFieldsRest render (v # rest) = '' '' @ render v @ listIrFieldsRest render rest"

definition listIrFields :: "('a \<Rightarrow> string) \<Rightarrow> 'a list \<Rightarrow> string" where
  "listIrFields render values = dec (int (length values)) @ listIrFieldsRest render values"

fun operandIrFields :: "HOperand \<Rightarrow> string" where
  "operandIrFields (OTemp temp) = ''T'' @ tempText temp"
| "operandIrFields (OImm value) = ''I'' @ dec value"
| "operandIrFields (OImmBytes bytes) = ''B'' @ listIrFields dec bytes"
| "operandIrFields (OGlobal name) = ''G'' @ name"
| "operandIrFields (OFunction name) = ''F'' @ name"

fun terminatorIrLine :: "HTerminator \<Rightarrow> string" where
  "terminatorIrLine (TRet None) = ''R''"
| "terminatorIrLine (TRet (Some op)) = ''R '' @ operandIrFields op"
| "terminatorIrLine (TJump bid) = ''J '' @ blockIdText bid"
| "terminatorIrLine (TBranch op yes no) =
     ''B '' @ operandIrFields op @ '' '' @ blockIdText yes @ '' '' @ blockIdText no"
| "terminatorIrLine (TBranchCmp op a b yes no) =
     ''C '' @ dec (binOpCode op) @ '' '' @ operandIrFields a @ '' '' @ operandIrFields b @ '' '' @
     blockIdText yes @ '' '' @ blockIdText no"

definition emitTempOp :: "int \<Rightarrow> Temp \<Rightarrow> HOperand \<Rightarrow> string list" where
  "emitTempOp code temp op = [dec code @ '' '' @ tempText temp @ '' '' @ operandIrFields op]"

definition emitOpOp :: "int \<Rightarrow> HOperand \<Rightarrow> HOperand \<Rightarrow> string list" where
  "emitOpOp code a b = [dec code @ '' '' @ operandIrFields a @ '' '' @ operandIrFields b]"

definition emitExt :: "int \<Rightarrow> Temp \<Rightarrow> int \<Rightarrow> HOperand \<Rightarrow> string list" where
  "emitExt code temp sz op =
     [dec code @ '' '' @ tempText temp @ '' '' @ dec sz @ '' '' @ operandIrFields op]"

definition resultText :: "Temp option \<Rightarrow> string" where
  "resultText result = (case result of None \<Rightarrow> ''-'' | Some temp \<Rightarrow> tempText temp)"

fun emitInstrIr :: "HInstr \<Rightarrow> string list" where
  "emitInstrIr (IParam temp index) = [''1 '' @ tempText temp @ '' '' @ dec index]"
| "emitInstrIr (IAlloca temp sz) = [''2 '' @ tempText temp @ '' '' @ dec sz]"
| "emitInstrIr (IConst temp value) = [''3 '' @ tempText temp @ '' '' @ dec value]"
| "emitInstrIr (ICopy temp op) = emitTempOp 5 temp op"
| "emitInstrIr (IAddrOf temp source) = [''6 '' @ tempText temp @ '' '' @ tempText source]"
| "emitInstrIr (ILoad64 temp op) = emitTempOp 7 temp op"
| "emitInstrIr (ILoad32 temp op) = emitTempOp 8 temp op"
| "emitInstrIr (ILoadS32 temp op) = emitTempOp 9 temp op"
| "emitInstrIr (ILoad16 temp op) = emitTempOp 10 temp op"
| "emitInstrIr (ILoadS16 temp op) = emitTempOp 11 temp op"
| "emitInstrIr (ILoad8 temp op) = emitTempOp 12 temp op"
| "emitInstrIr (ILoadS8 temp op) = emitTempOp 13 temp op"
| "emitInstrIr (IStore64 addr v) = emitOpOp 14 addr v"
| "emitInstrIr (IStore32 addr v) = emitOpOp 15 addr v"
| "emitInstrIr (IStore16 addr v) = emitOpOp 16 addr v"
| "emitInstrIr (IStore8 addr v) = emitOpOp 17 addr v"
| "emitInstrIr (ISExt temp sz op) = emitExt 22 temp sz op"
| "emitInstrIr (IZExt temp sz op) = emitExt 23 temp sz op"
| "emitInstrIr (ITrunc temp sz op) = emitExt 24 temp sz op"
| "emitInstrIr (IBin temp op left right) =
     [''18 '' @ tempText temp @ '' '' @ dec (binOpCode op) @ '' '' @ operandIrFields left @ '' '' @
      operandIrFields right]"
| "emitInstrIr (ICall result name args) =
     [''19 '' @ resultText result @ '' '' @ name @ '' '' @ listIrFields operandIrFields args]"
| "emitInstrIr (ICallIndirect result callee args) =
     [''20 '' @ resultText result @ '' '' @ operandIrFields callee @ '' '' @
      listIrFields operandIrFields args]"
| "emitInstrIr (ICond temp condInstrs condOp trueInstrs trueOp falseInstrs falseOp) =
     [''21 '' @ tempText temp, ''['']
     @ concat (map emitInstrIr condInstrs)
     @ ['']'', ''O '' @ operandIrFields condOp, ''['']
     @ concat (map emitInstrIr trueInstrs)
     @ ['']'', ''O '' @ operandIrFields trueOp, ''['']
     @ concat (map emitInstrIr falseInstrs)
     @ ['']'', ''O '' @ operandIrFields falseOp, ''Q'']"

definition emitInstrsIr :: "HInstr list \<Rightarrow> string list" where
  "emitInstrsIr instrs = concat (map emitInstrIr instrs)"

fun emitBlockIr :: "HBasicBlock \<Rightarrow> string list" where
  "emitBlockIr (BasicBlock bid instrs term) =
     [''L '' @ blockIdText bid] @ emitInstrsIr instrs @ [terminatorIrLine term]"

definition emitBlocksIr :: "HBasicBlock list \<Rightarrow> string list" where
  "emitBlocksIr blocks = concat (map emitBlockIr blocks)"

fun emitFunctionIr :: "HFunctionIr \<Rightarrow> string list" where
  "emitFunctionIr (FunctionIr name blocks) = [''F '' @ name] @ emitBlocksIr blocks @ [''E'']"

fun zeroRun :: "HDataValue list \<Rightarrow> int \<times> HDataValue list" where
  "zeroRun (DByte b # rest) =
     (if b = 0 then (case zeroRun rest of (count, tailValues) \<Rightarrow> (count + 1, tailValues))
      else (0, DByte b # rest))"
| "zeroRun values = (0, values)"

lemma zeroRun_shorter: "length (snd (zeroRun vs)) \<le> length vs"
  by (induction vs rule: zeroRun.induct) (auto split: prod.split)

lemma zeroRun_length: "zeroRun vs = (n, rest) \<Longrightarrow> length rest \<le> length vs"
  using zeroRun_shorter [of vs] by simp

fun dataValueIrLine :: "HDataValue \<Rightarrow> string" where
  "dataValueIrLine (DByte byte) = ''b '' @ dec byte"
| "dataValueIrLine (DAddress label) = ''a '' @ label"

function emitDataValuesIr :: "HDataValue list \<Rightarrow> string list" where
  "emitDataValuesIr [] = []"
| "emitDataValuesIr (value # rest) =
     (if value = DByte 0 then
        (case zeroRun (value # rest) of
           (count, rest') \<Rightarrow> (''z '' @ dec count) # emitDataValuesIr rest')
      else dataValueIrLine value # emitDataValuesIr rest)"
  by pat_completeness auto
termination
  by (relation "measure length")
    (auto simp: less_Suc_eq_le split: prod.splits dest: zeroRun_length)

fun emitDataItemIr :: "HDataItem \<Rightarrow> string list" where
  "emitDataItemIr (HDataItem label values) = [''D '' @ label] @ emitDataValuesIr values @ [''E'']"

fun emitTopItemIr :: "HTopItemIr \<Rightarrow> string list" where
  "emitTopItemIr (TopData dataItem) = emitDataItemIr dataItem"
| "emitTopItemIr (TopFunction fn) = emitFunctionIr fn"

text \<open>The line writer: every line is followed by a newline.\<close>

definition unlines :: "string list \<Rightarrow> string" where
  "unlines ls = concat (map (\<lambda>l. l @ [newline]) ls)"

lemma unlines_simps [simp]:
  "unlines [] = []"
  "unlines (l # ls) = l @ newline # unlines ls"
  "unlines (ls @ ls') = unlines ls @ unlines ls'"
  by (simp_all add: unlines_def)

end
