(* ===== verification/RoundTrip.thy ===== *)
theory RoundTrip
  imports IrParser M1Ir
begin

text \<open>
  The contract between the two programs that share the IR file: what \<^verbatim>\<open>M1Ir.hs\<close> prints,
  \<^verbatim>\<open>hcc_m1.c\<close> reads back as the same function or data item. \<open>c_instr\<close> and its relatives say
  what "the same" is; the \<open>ok\<close> predicates say which IR is printable at all (names without
  blanks, numbers within the C types they are read into, lines within the reader's buffer).
\<close>

section \<open>The C value of a Haskell value\<close>

fun temp_id :: "Temp \<Rightarrow> int" where
  "temp_id (Temp n) = n"

fun block_no :: "BlockId \<Rightarrow> int" where
  "block_no (BlockId n) = n"

fun c_operand :: "HOperand \<Rightarrow> Operand" where
  "c_operand (OTemp t) = OP_TEMP (temp_id t)"
| "c_operand (OImm v) = OP_IMM v"
| "c_operand (OImmBytes bytes) = OP_BYTES bytes"
| "c_operand (OGlobal name) = OP_GLOBAL name"
| "c_operand (OFunction name) = OP_FUNC name"

definition c_result :: "Temp option \<Rightarrow> int" where
  "c_result r = (case r of None \<Rightarrow> -1 | Some t \<Rightarrow> temp_id t)"

fun c_instr :: "HInstr \<Rightarrow> Instr" where
  "c_instr (IParam t i) = IK_PARAM (temp_id t) i"
| "c_instr (IAlloca t s) = IK_ALLOCA (temp_id t) s"
| "c_instr (IConst t v) = IK_CONST (temp_id t) v"
| "c_instr (ICopy t a) = IK_COPY (temp_id t) (c_operand a)"
| "c_instr (IAddrOf t s) = IK_ADDROF (temp_id t) (temp_id s)"
| "c_instr (ILoad64 t a) = IK_LOAD64 (temp_id t) (c_operand a)"
| "c_instr (ILoad32 t a) = IK_LOAD32 (temp_id t) (c_operand a)"
| "c_instr (ILoadS32 t a) = IK_LOADS32 (temp_id t) (c_operand a)"
| "c_instr (ILoad16 t a) = IK_LOAD16 (temp_id t) (c_operand a)"
| "c_instr (ILoadS16 t a) = IK_LOADS16 (temp_id t) (c_operand a)"
| "c_instr (ILoad8 t a) = IK_LOAD8 (temp_id t) (c_operand a)"
| "c_instr (ILoadS8 t a) = IK_LOADS8 (temp_id t) (c_operand a)"
| "c_instr (IStore64 a b) = IK_STORE64 (c_operand a) (c_operand b)"
| "c_instr (IStore32 a b) = IK_STORE32 (c_operand a) (c_operand b)"
| "c_instr (IStore16 a b) = IK_STORE16 (c_operand a) (c_operand b)"
| "c_instr (IStore8 a b) = IK_STORE8 (c_operand a) (c_operand b)"
| "c_instr (ISExt t s a) = IK_SEXT (temp_id t) s (c_operand a)"
| "c_instr (IZExt t s a) = IK_ZEXT (temp_id t) s (c_operand a)"
| "c_instr (ITrunc t s a) = IK_TRUNC (temp_id t) s (c_operand a)"
| "c_instr (IBin t op a b) = IK_BIN (temp_id t) (binOpCode op) (c_operand a) (c_operand b)"
| "c_instr (ICall r name args) = IK_CALL (c_result r) name (map c_operand args)"
| "c_instr (ICallIndirect r callee args) =
     IK_CALLI (c_result r) (c_operand callee) (map c_operand args)"
| "c_instr (ICond t cs co ts to fs fo) =
     IK_COND (temp_id t) (map c_instr cs) (c_operand co) (map c_instr ts) (c_operand to)
       (map c_instr fs) (c_operand fo)"

fun c_term :: "HTerminator \<Rightarrow> Terminator" where
  "c_term (TRet None) = TK_RET OP_NONE"
| "c_term (TRet (Some op)) = TK_RET (c_operand op)"
| "c_term (TJump b) = TK_JUMP (block_no b)"
| "c_term (TBranch op y n) = TK_BRANCH (c_operand op) (block_no y) (block_no n)"
| "c_term (TBranchCmp op a b y n) =
     TK_BRANCH_CMP (binOpCode op) (c_operand a) (c_operand b) (block_no y) (block_no n)"

fun c_block :: "HBasicBlock \<Rightarrow> Block" where
  "c_block (BasicBlock b is t) =
     \<lparr>block_id = block_no b, block_instrs = map c_instr is, block_term = c_term t\<rparr>"

fun c_function :: "HFunctionIr \<Rightarrow> Function" where
  "c_function (FunctionIr name bs) = \<lparr>fn_name = name, fn_blocks = map c_block bs\<rparr>"

fun c_data_value :: "HDataValue \<Rightarrow> DataValue" where
  "c_data_value (DByte b) = DV_BYTE b"
| "c_data_value (DAddress l) = DV_ADDRESS l"

fun c_data_item :: "HDataItem \<Rightarrow> DataItem" where
  "c_data_item (HDataItem label vs) = \<lparr>item_label = label, item_values = map c_data_value vs\<rparr>"

section \<open>Printable IR\<close>

fun ok_operand :: "HOperand \<Rightarrow> bool" where
  "ok_operand (OTemp t) = long_ok (temp_id t)"
| "ok_operand (OImm v) = long_ok v"
| "ok_operand (OImmBytes bytes) = (int_ok (int (length bytes)) \<and> list_all int_ok bytes)"
| "ok_operand (OGlobal name) = list_all token_char name"
| "ok_operand (OFunction name) = list_all token_char name"

definition ok_operands :: "HOperand list \<Rightarrow> bool" where
  "ok_operands ops \<longleftrightarrow> int_ok (int (length ops)) \<and> list_all ok_operand ops"

definition ok_result :: "Temp option \<Rightarrow> bool" where
  "ok_result r \<longleftrightarrow> (case r of None \<Rightarrow> True | Some t \<Rightarrow> int_ok (temp_id t))"

fun ok_instr :: "HInstr \<Rightarrow> bool" where
  "ok_instr (IParam t i) = (int_ok (temp_id t) \<and> long_ok i)"
| "ok_instr (IAlloca t s) = (int_ok (temp_id t) \<and> long_ok s)"
| "ok_instr (IConst t v) = (int_ok (temp_id t) \<and> long_ok v)"
| "ok_instr (ICopy t a) = (int_ok (temp_id t) \<and> ok_operand a)"
| "ok_instr (IAddrOf t s) = (int_ok (temp_id t) \<and> int_ok (temp_id s))"
| "ok_instr (ILoad64 t a) = (int_ok (temp_id t) \<and> ok_operand a)"
| "ok_instr (ILoad32 t a) = (int_ok (temp_id t) \<and> ok_operand a)"
| "ok_instr (ILoadS32 t a) = (int_ok (temp_id t) \<and> ok_operand a)"
| "ok_instr (ILoad16 t a) = (int_ok (temp_id t) \<and> ok_operand a)"
| "ok_instr (ILoadS16 t a) = (int_ok (temp_id t) \<and> ok_operand a)"
| "ok_instr (ILoad8 t a) = (int_ok (temp_id t) \<and> ok_operand a)"
| "ok_instr (ILoadS8 t a) = (int_ok (temp_id t) \<and> ok_operand a)"
| "ok_instr (IStore64 a b) = (ok_operand a \<and> ok_operand b)"
| "ok_instr (IStore32 a b) = (ok_operand a \<and> ok_operand b)"
| "ok_instr (IStore16 a b) = (ok_operand a \<and> ok_operand b)"
| "ok_instr (IStore8 a b) = (ok_operand a \<and> ok_operand b)"
| "ok_instr (ISExt t s a) = (int_ok (temp_id t) \<and> long_ok s \<and> ok_operand a)"
| "ok_instr (IZExt t s a) = (int_ok (temp_id t) \<and> long_ok s \<and> ok_operand a)"
| "ok_instr (ITrunc t s a) = (int_ok (temp_id t) \<and> long_ok s \<and> ok_operand a)"
| "ok_instr (IBin t op a b) = (int_ok (temp_id t) \<and> ok_operand a \<and> ok_operand b)"
| "ok_instr (ICall r name args) = (ok_result r \<and> is_token name \<and> ok_operands args)"
| "ok_instr (ICallIndirect r callee args) = (ok_result r \<and> ok_operand callee \<and> ok_operands args)"
| "ok_instr (ICond t cs co ts to fs fo) =
     (int_ok (temp_id t) \<and> list_all ok_instr cs \<and> ok_operand co \<and> list_all ok_instr ts \<and>
      ok_operand to \<and> list_all ok_instr fs \<and> ok_operand fo)"

text \<open>
  A returned operand must be one token: the reader drops the bytes of an \<open>OImmBytes\<close>
  (see \<open>parse_ir_term\<close>), so only an empty byte list gets through.
\<close>

fun one_token :: "HOperand \<Rightarrow> bool" where
  "one_token (OImmBytes bytes) = (bytes = [])"
| "one_token _ = True"

fun ok_term :: "HTerminator \<Rightarrow> bool" where
  "ok_term (TRet None) = True"
| "ok_term (TRet (Some op)) = (ok_operand op \<and> one_token op)"
| "ok_term (TJump b) = int_ok (block_no b)"
| "ok_term (TBranch op y n) = (ok_operand op \<and> int_ok (block_no y) \<and> int_ok (block_no n))"
| "ok_term (TBranchCmp op a b y n) =
     (ok_operand a \<and> ok_operand b \<and> int_ok (block_no y) \<and> int_ok (block_no n))"

fun ok_block :: "HBasicBlock \<Rightarrow> bool" where
  "ok_block (BasicBlock b is t) = (int_ok (block_no b) \<and> list_all ok_instr is \<and> ok_term t)"

fun ok_function :: "HFunctionIr \<Rightarrow> bool" where
  "ok_function (FunctionIr name bs) = (is_token name \<and> list_all ok_block bs)"

fun ok_data_value :: "HDataValue \<Rightarrow> bool" where
  "ok_data_value (DByte b) = int_ok b"
| "ok_data_value (DAddress l) = is_token l"

fun ok_data_item :: "HDataItem \<Rightarrow> bool" where
  "ok_data_item (HDataItem label vs) =
     (is_token label \<and> list_all ok_data_value vs \<and> int_ok (int (length vs)))"

section \<open>Tokens followed by more text\<close>

definition tail_ok :: "string \<Rightarrow> bool" where
  "tail_ok r \<longleftrightarrow> r = [] \<or> hd r = CHR '' ''"

lemma tail_ok_simps [simp]: "tail_ok []" "tail_ok (CHR '' '' # r)"
  by (simp_all add: tail_ok_def)

lemma need_token_tail [text_simps]:
  "is_token t \<Longrightarrow> tail_ok r \<Longrightarrow> need_token (t @ r) = Inr (t, tl r)"
  by (cases r) (auto simp: tail_ok_def text_simps)

lemma need_token_char [text_simps]:
  "token_char a \<Longrightarrow> tail_ok r \<Longrightarrow> need_token (a # r) = Inr ([a], tl r)"
  using need_token_tail [of "[a]" r] by (simp add: is_token_def)

lemma need_token_char2 [text_simps]:
  "token_char a \<Longrightarrow> token_char b \<Longrightarrow> need_token (a # b # CHR '' '' # r) = Inr ([a, b], r)"
  using need_token_tail [of "[a, b]" "CHR '' '' # r"] by (simp add: is_token_def)

lemma need_token_dec [text_simps]: "tail_ok r \<Longrightarrow> need_token (dec n @ r) = Inr (dec n, tl r)"
  by (simp add: text_simps)

lemma parse_int_token_tail [text_simps]:
  "int_ok n \<Longrightarrow> tail_ok r \<Longrightarrow> parse_int_token (dec n @ r) = Inr (n, tl r)"
  by (simp add: parse_int_token_def text_simps int_ok_long_ok)

lemma parse_long_token_tail [text_simps]:
  "long_ok n \<Longrightarrow> tail_ok r \<Longrightarrow> parse_long_token (dec n @ r) = Inr (n, tl r)"
  by (simp add: parse_long_token_def text_simps)

lemma tail_ok_fields [simp]: "tail_ok r \<Longrightarrow> tail_ok (listIrFieldsRest render vs @ r)"
  by (cases vs) auto

lemma tail_ok_fields_last [simp]: "tail_ok (listIrFieldsRest render vs)"
  by (cases vs) auto

lemma tempText_eq [simp]: "tempText t = dec (temp_id t)"
  by (cases t) simp

lemma blockIdText_eq [simp]: "blockIdText b = dec (block_no b)"
  by (cases b) simp

lemma int_ok_binOpCode [simp]: "int_ok (binOpCode op)"
  by (cases op) (simp_all add: int_ok_def)

section \<open>Operands\<close>

lemma parse_ints_fields [text_simps]:
  "list_all int_ok bs \<Longrightarrow> tail_ok r \<Longrightarrow>
   parse_ints (length bs) (tl (listIrFieldsRest dec bs @ r)) = Inr (bs, tl r)"
  by (induction bs) (auto simp: text_simps)

lemma need_token_prefixed [text_simps]:
  "token_char a \<Longrightarrow> list_all token_char t \<Longrightarrow> tail_ok r \<Longrightarrow>
   need_token (a # t @ r) = Inr (a # t, tl r)"
  using need_token_tail [of "a # t" r] by (simp add: is_token_def)

lemma token_char_letters [simp]:
  "token_char CHR ''T''" "token_char CHR ''I''" "token_char CHR ''B''" "token_char CHR ''G''"
  "token_char CHR ''F''" "token_char CHR ''R''" "token_char CHR ''J''" "token_char CHR ''C''"
  "token_char CHR ''L''" "token_char CHR ''D''" "token_char CHR ''O''" "token_char CHR ''-''"
  "token_char CHR ''z''" "token_char CHR ''b''" "token_char CHR ''a''"
  "token_char CHR ''0''" "token_char CHR ''1''" "token_char CHR ''2''" "token_char CHR ''3''"
  "token_char CHR ''4''" "token_char CHR ''5''" "token_char CHR ''6''" "token_char CHR ''7''"
  "token_char CHR ''8''" "token_char CHR ''9''"
  by (simp_all add: token_char_def line_char_def is_blank_def newline_def carriage_return_def)

lemma dec_token_chars [simp]: "list_all token_char (dec n)"
  using is_token_dec [of n] by (simp add: is_token_def)

lemma parse_ir_operand_text [text_simps]:
  "ok_operand op \<Longrightarrow> tail_ok r \<Longrightarrow>
   parse_ir_operand (operandIrFields op @ r) = Inr (c_operand op, tl r)"
  by (cases op)
    (auto simp: parse_ir_operand_def text_simps listIrFields_def int_ok_long_ok)

lemma parse_ir_operand_last [text_simps]:
  "ok_operand op \<Longrightarrow> parse_ir_operand (operandIrFields op) = Inr (c_operand op, [])"
  using parse_ir_operand_text [of op "[]"] by simp

lemma parse_ir_operands_fields [text_simps]:
  "list_all ok_operand ops \<Longrightarrow> tail_ok r \<Longrightarrow>
   parse_ir_operands (length ops) (tl (listIrFieldsRest operandIrFields ops @ r)) =
     Inr (map c_operand ops, tl r)"
  by (induction ops) (auto simp: text_simps)

lemma parse_ir_operands_fields_last [text_simps]:
  "list_all ok_operand ops \<Longrightarrow>
   parse_ir_operands (length ops) (tl (listIrFieldsRest operandIrFields ops)) =
     Inr (map c_operand ops, [])"
  using parse_ir_operands_fields [of ops "[]"] by simp

lemma dec_not_minus: "dec n \<noteq> ''-''"
  using hd_dec_nat [of "nat n"] by (auto simp: dec_def is_digit_def)

lemma parse_ir_result_text [text_simps]:
  "ok_result r \<Longrightarrow> parse_ir_result (resultText r @ CHR '' '' # s) = Inr (c_result r, s)"
  by (cases r)
    (auto simp: parse_ir_result_def resultText_def ok_result_def c_result_def text_simps
      dec_not_minus int_ok_long_ok)

section \<open>Instructions\<close>

lemma parse_ir_operands_text [text_simps]:
  "list_all ok_operand ops \<Longrightarrow>
   parse_ir_operands (nat (int (length ops))) (tl (listIrFieldsRest operandIrFields ops)) =
     Inr (map c_operand ops, [])"
  by (simp add: text_simps)

lemma parse_shapes_text [text_simps]:
  "int_ok t \<Longrightarrow> long_ok v \<Longrightarrow>
     parse_temp_value mk (dec t @ CHR '' '' # dec v) = Inr (mk t v)"
  "int_ok t \<Longrightarrow> ok_operand a \<Longrightarrow>
     parse_temp_operand mko (dec t @ CHR '' '' # operandIrFields a) = Inr (mko t (c_operand a))"
  "int_ok t \<Longrightarrow> long_ok v \<Longrightarrow> ok_operand a \<Longrightarrow>
     parse_temp_value_operand mkv (dec t @ CHR '' '' # dec v @ CHR '' '' # operandIrFields a) =
       Inr (mkv t v (c_operand a))"
  "ok_operand a \<Longrightarrow> ok_operand b \<Longrightarrow>
     parse_two_operands mk2 (operandIrFields a @ CHR '' '' # operandIrFields b) =
       Inr (mk2 (c_operand a) (c_operand b))"
  by (simp_all add: parse_temp_value_def parse_temp_operand_def parse_temp_value_operand_def
      parse_two_operands_def text_simps)

lemma line_code1:
  "token_char a \<Longrightarrow> parse_long_text [a] = Inr k \<Longrightarrow> c_int k = k \<Longrightarrow> k \<noteq> 21 \<Longrightarrow>
   parse_ir_simple k s = Inr i \<Longrightarrow>
   parse_ir_instr_line_with g file (a # CHR '' '' # s) = Inr (i, file)"
  by (simp add: parse_ir_instr_line_with_def text_simps)

lemma line_code2:
  "token_char a \<Longrightarrow> token_char b \<Longrightarrow> parse_long_text [a, b] = Inr k \<Longrightarrow> c_int k = k \<Longrightarrow> k \<noteq> 21 \<Longrightarrow>
   parse_ir_simple k s = Inr i \<Longrightarrow>
   parse_ir_instr_line_with g file (a # b # CHR '' '' # s) = Inr (i, file)"
  by (simp add: parse_ir_instr_line_with_def text_simps)

lemma dec_codes [simp]:
  "dec 5 = ''5''" "dec 7 = ''7''" "dec 8 = ''8''" "dec 9 = ''9''" "dec 10 = ''10''"
  "dec 11 = ''11''" "dec 12 = ''12''" "dec 13 = ''13''" "dec 14 = ''14''" "dec 15 = ''15''"
  "dec 16 = ''16''" "dec 17 = ''17''" "dec 22 = ''22''" "dec 23 = ''23''" "dec 24 = ''24''"
  by code_simp+

lemma parse_codes [simp]:
  "parse_long_text ''1'' = Inr 1" "parse_long_text ''2'' = Inr 2" "parse_long_text ''3'' = Inr 3"
  "parse_long_text ''5'' = Inr 5" "parse_long_text ''6'' = Inr 6" "parse_long_text ''7'' = Inr 7"
  "parse_long_text ''8'' = Inr 8" "parse_long_text ''9'' = Inr 9" "parse_long_text ''10'' = Inr 10"
  "parse_long_text ''11'' = Inr 11" "parse_long_text ''12'' = Inr 12"
  "parse_long_text ''13'' = Inr 13" "parse_long_text ''14'' = Inr 14"
  "parse_long_text ''15'' = Inr 15" "parse_long_text ''16'' = Inr 16"
  "parse_long_text ''17'' = Inr 17" "parse_long_text ''18'' = Inr 18"
  "parse_long_text ''19'' = Inr 19" "parse_long_text ''20'' = Inr 20"
  "parse_long_text ''21'' = Inr 21" "parse_long_text ''22'' = Inr 22"
  "parse_long_text ''23'' = Inr 23" "parse_long_text ''24'' = Inr 24"
  by (simp_all add: parse_long_text_def is_digit_def long_ok_def)

definition one_line :: "HInstr \<Rightarrow> bool" where
  "one_line i \<longleftrightarrow> (case i of ICond _ _ _ _ _ _ _ \<Rightarrow> False | _ \<Rightarrow> True)"

lemma one_line_text:
  "ok_instr i \<Longrightarrow> one_line i \<Longrightarrow> emitInstrIr i = [l] \<Longrightarrow>
   parse_ir_instr_line_with g file l = Inr (c_instr i, file)"
  by (cases i)
    (auto simp: one_line_def emitTempOp_def emitOpOp_def emitExt_def listIrFields_def
      ok_operands_def int_ok_def [where n = "numeral _"] int_ok_def [where n = 1]
      parse_ir_simple_def text_simps
      intro!: line_code1 line_code2)

section \<open>Nested instruction lists\<close>

definition reads_instr :: "HInstr \<Rightarrow> bool" where
  "reads_instr i \<longleftrightarrow> (\<forall>l ls file n. emitInstrIr i = l # ls \<longrightarrow> list_all fits_line (l # ls) \<longrightarrow>
     length (unlines ls @ file) < n \<longrightarrow>
     parse_ir_instr_line_with (parse_ir_instrs_fuel n) (unlines ls @ file) l = Inr (c_instr i, file))"

lemma reads_instrD:
  "reads_instr i \<Longrightarrow> emitInstrIr i = l # ls \<Longrightarrow> list_all fits_line (l # ls) \<Longrightarrow>
   length (unlines ls @ file) < n \<Longrightarrow>
   parse_ir_instr_line_with (parse_ir_instrs_fuel n) (unlines ls @ file) l = Inr (c_instr i, file)"
  unfolding reads_instr_def by blast

lemma first_line_digit:
  obtains l ls where "emitInstrIr i = l # ls" and "l \<noteq> []" and "is_digit (hd l)"
  by (cases i)
    (auto simp: emitTempOp_def emitOpOp_def emitExt_def is_digit_def)

lemma digit_line [simp]:
  "l \<noteq> [] \<Longrightarrow> is_digit (hd l) \<Longrightarrow> l \<noteq> '']''"
  "l \<noteq> [] \<Longrightarrow> is_digit (hd l) \<Longrightarrow> \<not> is_term_line l"
  by (auto simp: is_digit_def is_term_line_def str_prefix_n_def neq_Nil_conv)

lemma fits_line_marks [simp]:
  "fits_line '']''" "fits_line ''[''" "fits_line ''Q''" "fits_line ''E''"
  by (simp_all add: fits_line_def line_char_def newline_def carriage_return_def LINE_CAP_def)

lemma read_mark [text_simps]:
  "read_line (CHR '']'' # newline # file) LINE_CAP = Inr (Some ('']'', file))"
  "read_line (CHR ''['' # newline # file) LINE_CAP = Inr (Some (''['', file))"
  "read_line (CHR ''Q'' # newline # file) LINE_CAP = Inr (Some (''Q'', file))"
  "read_line (CHR ''E'' # newline # file) LINE_CAP = Inr (Some (''E'', file))"
  using read_line_line [of "'']''" "file"] read_line_line [of "''[''" "file"]
    read_line_line [of "''Q''" "file"] read_line_line [of "''E''" "file"]
  by simp_all

lemma parse_instrs_lines:
  assumes "\<forall>i \<in> set is. reads_instr i"
    and "list_all fits_line (emitInstrsIr is)"
    and "length (unlines (emitInstrsIr is) @ CHR '']'' # newline # file) < n"
  shows "parse_ir_instrs_fuel n (unlines (emitInstrsIr is) @ CHR '']'' # newline # file) =
    Inr (map c_instr is, file)"
  using assms
proof (induction "is" arbitrary: n)
  case Nil
  then show ?case
    by (cases n) (auto simp: emitInstrsIr_def text_simps parse_ir_instrs_fuel.simps)
next
  case (Cons i "is")
  let ?rest = "unlines (emitInstrsIr is) @ CHR '']'' # newline # file"
  obtain l ls where i: "emitInstrIr i = l # ls" and l: "l \<noteq> []" "is_digit (hd l)"
    by (rule first_line_digit)
  have fits: "list_all fits_line (l # ls)" "fits_line l" "list_all fits_line (emitInstrsIr is)"
    using Cons.prems(2) by (auto simp: emitInstrsIr_def i)
  obtain m where n: "n = Suc m" and m: "length (unlines ls @ ?rest) < m"
    using Cons.prems(3) by (cases n) (auto simp: emitInstrsIr_def i)
  have "parse_ir_instr_line_with (parse_ir_instrs_fuel m) (unlines ls @ ?rest) l =
      Inr (c_instr i, ?rest)"
    using Cons.prems(1) by (intro reads_instrD [OF _ i fits(1) m]) simp
  moreover have "parse_ir_instrs_fuel m ?rest = Inr (map c_instr is, file)"
    using Cons.prems(1) fits(3) m by (intro Cons.IH) simp_all
  ultimately show ?case
    by (simp add: n i emitInstrsIr_def text_simps fits l parse_ir_instrs_fuel.simps)
qed

lemma expect_bracket [text_simps]:
  "expect_line (CHR ''['' # newline # file) ''['' = Inr file"
  "expect_line (CHR ''Q'' # newline # file) ''Q'' = Inr file"
  by (simp_all add: expect_line_def text_simps)

lemma parse_cond_section_lines:
  assumes "\<forall>i \<in> set is. reads_instr i" and "list_all fits_line (emitInstrsIr is)"
    and "length (unlines (emitInstrsIr is) @ CHR '']'' # newline # file) < n"
    and "ok_operand op" and "fits_line (''O '' @ operandIrFields op)"
    and "file = CHR ''O'' # CHR '' '' # operandIrFields op @ newline # rest"
  shows "parse_cond_section (parse_ir_instrs_fuel n) missing
     (CHR ''['' # newline # unlines (emitInstrsIr is) @ CHR '']'' # newline # file) =
     Inr (map c_instr is, c_operand op, rest)"
proof -
  have "read_line file LINE_CAP = Inr (Some (''O '' @ operandIrFields op, rest))"
    using read_line_line [OF assms(5), of rest] assms(6) by simp
  moreover have "parse_ir_prefixed_operand (''O '' @ operandIrFields op) ''O'' = Inr (c_operand op)"
    using assms(4) by (simp add: parse_ir_prefixed_operand_def text_simps)
  ultimately show ?thesis
    by (simp add: parse_cond_section_def text_simps parse_instrs_lines [OF assms(1-3)])
qed

lemma one_line_single: "one_line i \<Longrightarrow> length (emitInstrIr i) = 1"
  by (cases i) (simp_all add: one_line_def emitTempOp_def emitOpOp_def emitExt_def)

lemma reads_one_line:
  assumes "one_line i" and "ok_instr i"
  shows "reads_instr i"
proof -
  obtain l where l: "emitInstrIr i = [l]"
    using one_line_single [OF assms(1)] by (auto simp: length_Suc_conv)
  show ?thesis
    by (simp add: reads_instr_def l one_line_text [OF assms(2,1) l])
qed

lemma reads_instr_all: "ok_instr i \<Longrightarrow> reads_instr i"
proof (induction i)
  case (ICond t cs co ts tr fs fo)
  have reads: "\<forall>i \<in> set cs. reads_instr i" "\<forall>i \<in> set ts. reads_instr i" "\<forall>i \<in> set fs. reads_instr i"
    using ICond by (auto simp: list_all_iff)
  show ?case
    unfolding reads_instr_def
  proof (intro allI impI)
    fix l ls n and rest :: string
    let ?f3 = "CHR ''O'' # CHR '' '' # operandIrFields fo @ newline # CHR ''Q'' # newline # rest"
    let ?s3 = "CHR ''['' # newline # unlines (emitInstrsIr fs) @ CHR '']'' # newline # ?f3"
    let ?f2 = "CHR ''O'' # CHR '' '' # operandIrFields tr @ newline # ?s3"
    let ?s2 = "CHR ''['' # newline # unlines (emitInstrsIr ts) @ CHR '']'' # newline # ?f2"
    let ?f1 = "CHR ''O'' # CHR '' '' # operandIrFields co @ newline # ?s2"
    let ?s1 = "CHR ''['' # newline # unlines (emitInstrsIr cs) @ CHR '']'' # newline # ?f1"
    assume e: "emitInstrIr (ICond t cs co ts tr fs fo) = l # ls"
      and fits: "list_all fits_line (l # ls)" and n: "length (unlines ls @ rest) < n"
    have l: "l = ''21 '' @ dec (temp_id t)" and ls: "unlines ls @ rest = ?s1"
      using e by (auto simp: emitInstrsIr_def)
    have len: "length ?s1 < n" using n ls by simp
    have fits': "list_all fits_line (emitInstrsIr cs)" "list_all fits_line (emitInstrsIr ts)"
      "list_all fits_line (emitInstrsIr fs)"
      "fits_line (''O '' @ operandIrFields co)" "fits_line (''O '' @ operandIrFields tr)"
      "fits_line (''O '' @ operandIrFields fo)"
      using fits e by (auto simp: emitInstrsIr_def)
    have "parse_cond_section (parse_ir_instrs_fuel n) m ?s1 = Inr (map c_instr cs, c_operand co, ?s2)" for m
      by (rule parse_cond_section_lines) (use reads fits' len ICond.prems in auto)
    moreover have "parse_cond_section (parse_ir_instrs_fuel n) m ?s2 = Inr (map c_instr ts, c_operand tr, ?s3)" for m
      by (rule parse_cond_section_lines) (use reads fits' len ICond.prems in auto)
    moreover have "parse_cond_section (parse_ir_instrs_fuel n) m ?s3 =
        Inr (map c_instr fs, c_operand fo, CHR ''Q'' # newline # rest)" for m
      by (rule parse_cond_section_lines) (use reads fits' len ICond.prems in auto)
    ultimately have "parse_ir_cond (parse_ir_instrs_fuel n) ?s1 (dec (temp_id t)) =
        Inr (c_instr (ICond t cs co ts tr fs fo), rest)"
      using ICond.prems by (simp add: parse_ir_cond_def text_simps)
    then show "parse_ir_instr_line_with (parse_ir_instrs_fuel n) (unlines ls @ rest) l =
        Inr (c_instr (ICond t cs co ts tr fs fo), rest)"
      by (simp add: l ls parse_ir_instr_line_with_def text_simps int_ok_def)
  qed
qed (rule reads_one_line; simp add: one_line_def)+

section \<open>Terminators, blocks and functions\<close>

lemma parse_ir_term_text:
  "ok_term t \<Longrightarrow> parse_ir_term (terminatorIrLine t) = Inr (c_term t)"
proof (cases t)
  case (TRet r)
  moreover assume "ok_term t"
  moreover have one: "next_token (operandIrFields op) = (Some (operandIrFields op), [])"
    if "ok_operand op" and "one_token op" for op
    using that by (cases op) (auto intro!: next_token_last simp: is_token_def listIrFields_def)
  ultimately show ?thesis
    by (cases r) (auto simp: parse_ir_term_def text_simps need_token_char [where r = "[]", simplified]
        next_token_def [of "[]"])
qed (auto simp: parse_ir_term_def text_simps)

lemma is_term_line_text [simp]: "is_term_line (terminatorIrLine t)"
proof (cases t)
  case (TRet r)
  then show ?thesis by (cases r) (auto simp: is_term_line_def str_prefix_n_def)
qed (auto simp: is_term_line_def str_prefix_n_def)

lemma parse_ir_instr_line_text:
  assumes "ok_instr i" and "list_all fits_line (l # ls)" and "emitInstrIr i = l # ls"
  shows "parse_ir_instr_line (unlines ls @ file) l = Inr (c_instr i, file)"
proof -
  let ?f = "unlines ls @ file"
  let ?n = "Suc (length ?f)"
  have "agree (parse_ir_instrs_fuel ?n) parse_ir_instrs_until_end ?f"
    unfolding agree_def parse_ir_instrs_until_end_def
    by (auto intro!: instrs.loop_fuel_agree)
  then have "parse_ir_instr_line ?f l = parse_ir_instr_line_with (parse_ir_instrs_fuel ?n) ?f l"
    unfolding parse_ir_instr_line_def
    by (rule parse_ir_instr_line_with_agree [OF instrs.loop_shrinking, symmetric])
  then show ?thesis
    using reads_instrD [OF reads_instr_all assms(3,2), of "file" ?n] assms(1) by simp
qed

lemma parse_block_lines:
  assumes "list_all ok_instr is" and "ok_term t"
    and "list_all fits_line (emitInstrsIr is)" and "fits_line (terminatorIrLine t)"
    and "length (emitInstrsIr is) < n"
  shows "parse_ir_block_fuel n (unlines (emitInstrsIr is) @ terminatorIrLine t @ newline # file) =
     Inr ((map c_instr is, c_term t), file)"
  using assms
proof (induction "is" arbitrary: n)
  case Nil
  then show ?case
    by (cases n) (auto simp: emitInstrsIr_def text_simps parse_ir_term_text)
next
  case (Cons i "is")
  obtain l ls where i: "emitInstrIr i = l # ls" and l: "l \<noteq> []" "is_digit (hd l)"
    by (rule first_line_digit)
  obtain m where n: "n = Suc m" and m: "length (emitInstrsIr is) < m"
    using Cons.prems(5) by (cases n) (auto simp: emitInstrsIr_def i)
  have fits: "list_all fits_line (l # ls)" "fits_line l" "list_all fits_line (emitInstrsIr is)"
    using Cons.prems(3) by (auto simp: emitInstrsIr_def i)
  show ?case
    using parse_ir_instr_line_text [OF _ fits(1) i] Cons.IH [OF _ _ fits(3) _ m] Cons.prems fits l
    by (simp add: n emitInstrsIr_def i text_simps)
qed

lemma length_lines_le: "length ls \<le> length (unlines ls)"
  by (induction ls) auto

lemma parse_ir_block_text:
  assumes "ok_block b" and "list_all fits_line (emitBlockIr b)" and "emitBlockIr b = l # ls"
  shows "parse_ir_block (unlines ls @ file) l = Inr (c_block b, file)"
proof (cases b)
  case (BasicBlock bid "is" t)
  let ?f = "unlines ls @ file"
  have ls: "?f = unlines (emitInstrsIr is) @ terminatorIrLine t @ newline # file"
    and l: "l = ''L '' @ dec (block_no bid)"
    using assms(3) BasicBlock by auto
  have "parse_ir_block_fuel (Suc (length ?f)) ?f = Inr ((map c_instr is, c_term t), file)"
    unfolding ls using assms(1,2) BasicBlock length_lines_le [of "emitInstrsIr is"]
    by (intro parse_block_lines) auto
  with assms(1) BasicBlock l show ?thesis
    by (simp add: parse_ir_block_def text_simps del: parse_ir_block_fuel.simps)
qed

lemma parse_function_lines:
  assumes "list_all ok_block bs" and "list_all fits_line (emitBlocksIr bs)" and "length bs < n"
  shows "parse_ir_function_fuel n (unlines (emitBlocksIr bs) @ CHR ''E'' # newline # file) =
     Inr (map c_block bs, file)"
  using assms
proof (induction bs arbitrary: n)
  case Nil
  then show ?case
    by (cases n) (auto simp: emitBlocksIr_def text_simps)
next
  case (Cons b bs)
  obtain l ls where b: "emitBlockIr b = l # ls" and l: "l \<noteq> ''E''"
    by (cases b) auto
  obtain m where n: "n = Suc m" and m: "length bs < m"
    using Cons.prems(3) by (cases n) auto
  have fits: "list_all fits_line (emitBlockIr b)" "fits_line l" "list_all fits_line (emitBlocksIr bs)"
    using Cons.prems(2) by (auto simp: emitBlocksIr_def b)
  show ?case
    using parse_ir_block_text [OF _ fits(1) b] Cons.IH [OF _ fits(3) m] Cons.prems fits l
    by (simp add: n emitBlocksIr_def b text_simps)
qed

lemma length_blocks_le: "length bs \<le> length (emitBlocksIr bs)"
proof (induction bs)
  case (Cons b bs)
  then show ?case by (cases b) (auto simp: emitBlocksIr_def)
qed (simp add: emitBlocksIr_def)

lemma parse_ir_function_text:
  assumes "ok_function fn" and "list_all fits_line (emitFunctionIr fn)"
    and "emitFunctionIr fn = l # ls"
  shows "parse_ir_function (unlines ls @ file) l = Inr (c_function fn, file)"
proof (cases fn)
  case (FunctionIr name bs)
  let ?f = "unlines ls @ file"
  have ls: "?f = unlines (emitBlocksIr bs) @ CHR ''E'' # newline # file"
    and l: "l = ''F '' @ name"
    using assms(3) FunctionIr by auto
  have "parse_ir_function_fuel (Suc (length ?f)) ?f = Inr (map c_block bs, file)"
    unfolding ls
    using assms(1,2) FunctionIr length_lines_le [of "emitBlocksIr bs"] length_blocks_le [of bs]
    by (intro parse_function_lines) auto
  with assms(1) FunctionIr l show ?thesis
    by (simp add: parse_ir_function_def text_simps del: parse_ir_function_fuel.simps)
qed

section \<open>Data items\<close>

lemma zeroRun_spec:
  "zeroRun vs = (n, rest) \<Longrightarrow> 0 \<le> n \<and> vs = replicate (nat n) (DByte 0) @ rest"
proof (induction vs arbitrary: n rest rule: zeroRun.induct)
  case (1 b vs)
  obtain n' rest' where z: "zeroRun vs = (n', rest')" by fastforce
  show ?case
  proof (cases "b = 0")
    case True
    with 1 z have "0 \<le> n'" "vs = replicate (nat n') (DByte 0) @ rest'" by auto
    moreover have "n = n' + 1" "rest = rest'" using 1(2) True z by auto
    ultimately show ?thesis using True by (simp add: nat_add_distrib)
  next
    case False
    with 1 show ?thesis by auto
  qed
qed auto

lemma parse_data_line_text:
  "ok_data_value v \<Longrightarrow> parse_ir_data_line (dataValueIrLine v) = Inr [c_data_value v]"
  by (cases v) (auto simp: parse_ir_data_line_def text_simps)

lemma parse_zero_line_text:
  "int_ok n \<Longrightarrow> 0 \<le> n \<Longrightarrow>
   parse_ir_data_line (''z '' @ dec n) = Inr (replicate (nat n) (DV_BYTE 0))"
  by (auto simp: parse_ir_data_line_def append_zero_data_values_def text_simps)

lemma parse_data_lines:
  assumes "list_all ok_data_value vs" and "int_ok (int (length vs))"
    and "list_all fits_line (emitDataValuesIr vs)" and "length (emitDataValuesIr vs) < n"
  shows "parse_ir_data_fuel n (unlines (emitDataValuesIr vs) @ CHR ''E'' # newline # file) =
     Inr (map c_data_value vs, file)"
  using assms
proof (induction vs arbitrary: n rule: emitDataValuesIr.induct)
  case 1
  then show ?case by (cases n) (auto simp: text_simps)
next
  case (2 v vs)
  show ?case
  proof (cases "v = DByte 0")
    case False
    then have e: "emitDataValuesIr (v # vs) = dataValueIrLine v # emitDataValuesIr vs" by simp
    obtain m where n: "n = Suc m" and m: "length (emitDataValuesIr vs) < m"
      using "2.prems"(4) e by (cases n) auto
    have "dataValueIrLine v \<noteq> ''E''" by (cases v) auto
    with False "2.prems" m show ?thesis
      by (simp add: n e text_simps parse_data_line_text "2.IH"(2) int_ok_def del: emitDataValuesIr.simps)
  next
    case True
    obtain k rest where z: "zeroRun (v # vs) = (k, rest)" by fastforce
    have k: "0 \<le> k" and vs: "v # vs = replicate (nat k) (DByte 0) @ rest"
      using zeroRun_spec [OF z] by auto
    have len: "length (v # vs) = nat k + length rest" using vs by (metis length_append length_replicate)
    obtain l where l: "l = ''z '' @ dec k" by simp
    have e: "emitDataValuesIr (v # vs) = l # emitDataValuesIr rest" and l': "l \<noteq> ''E''"
      using True z by (simp_all add: l)
    obtain m where n: "n = Suc m" and m: "length (emitDataValuesIr rest) < m"
      using "2.prems"(4) e by (cases n) auto
    have ok: "list_all ok_data_value rest" "int_ok k" "int_ok (int (length rest))"
      using "2.prems"(1,2) len k unfolding vs by (auto simp: int_ok_def)
    have "parse_ir_data_fuel m (unlines (emitDataValuesIr rest) @ CHR ''E'' # newline # file) =
        Inr (map c_data_value rest, file)"
      by (rule "2.IH"(1) [OF True z [symmetric]])
        (use "2.prems"(3) ok e m in auto)
    moreover have "map c_data_value (v # vs) =
        replicate (nat k) (DV_BYTE 0) @ map c_data_value rest"
      unfolding vs by simp
    ultimately show ?thesis
      using "2.prems"(3) parse_zero_line_text [OF ok(2) k, folded l] l'
      by (simp add: n e text_simps del: emitDataValuesIr.simps list.map)
  qed
qed

lemma parse_ir_data_item_text:
  assumes "ok_data_item d" and "list_all fits_line (emitDataItemIr d)"
    and "emitDataItemIr d = l # ls"
  shows "parse_ir_data_item (unlines ls @ file) l = Inr (c_data_item d, file)"
proof (cases d)
  case (HDataItem label vs)
  let ?f = "unlines ls @ file"
  have ls: "?f = unlines (emitDataValuesIr vs) @ CHR ''E'' # newline # file"
    and l: "l = ''D '' @ label"
    using assms(3) HDataItem by auto
  have "parse_ir_data_fuel (Suc (length ?f)) ?f = Inr (map c_data_value vs, file)"
    unfolding ls
    using assms(1,2) HDataItem length_lines_le [of "emitDataValuesIr vs"]
    by (intro parse_data_lines) auto
  with assms(1) HDataItem l show ?thesis
    by (simp add: parse_ir_data_item_def text_simps del: parse_ir_data_fuel.simps)
qed

end
