(* ===== verification/Program.thy ===== *)
theory Program
  imports Translate RoundTrip
begin

text \<open>
  The program as a whole. Its loops end (the fuel the model gives the reading loops is never used
  up, and emission takes none), and on the text the Haskell printer writes for a module it does
  what translating the module's items one after the other does. The exception among the printable
  items, a returned byte literal, is shown to stop the reader.
\<close>

section \<open>The emitter needs no fuel\<close>

definition fuel_free :: "action \<Rightarrow> bool" where
  "fuel_free a \<longleftrightarrow> (\<forall>s. a s \<noteq> Inl Diverges)"

named_theorems no_fuel \<open>results that are not \<open>Diverges\<close>\<close>

lemma fuel_free_basic [no_fuel]:
  "fuel_free (out text)" "fuel_free (modify f)" "fuel_free emit_forget_rax"
  "fuel_free (emit_remember_rax_temp t)" "fuel_free (\<lambda>s. Inr (h s))"
  by (simp_all add: fuel_free_def)

lemma fuel_free_out_res [no_fuel]: "r \<noteq> Inl Diverges \<Longrightarrow> fuel_free (out_res r)"
  by (auto simp: fuel_free_def out_res_def res_bind_Inl)

lemma fuel_free_with_res [no_fuel]:
  "r \<noteq> Inl Diverges \<Longrightarrow> (\<And>x. r = Inr x \<Longrightarrow> fuel_free (f x)) \<Longrightarrow> fuel_free (with_res r f)"
  by (auto simp: fuel_free_def with_res_def res_bind_Inl)

lemma fuel_free_with_state [no_fuel]: "(\<And>s. fuel_free (h s)) \<Longrightarrow> fuel_free (with_state h)"
  by (auto simp: fuel_free_def with_state_def)

lemma fuel_free_when_do [no_fuel]: "(c \<Longrightarrow> fuel_free a) \<Longrightarrow> fuel_free (when_do c a)"
  by (auto simp: fuel_free_def when_do_def)

lemma fuel_free_act_seq [no_fuel]: "fuel_free a \<Longrightarrow> fuel_free b \<Longrightarrow> fuel_free (act_seq a b)"
  by (auto simp: fuel_free_def act_seq_def res_bind_Inl split: prod.splits)

lemma fuel_free_seqs: "list_all fuel_free as \<Longrightarrow> fuel_free (seqs as)"
  by (induction as rule: seqs.induct)
    (auto simp: fuel_free_def act_seq_def res_bind_Inl split: prod.splits)

lemma riscv64_names_no_fuel [simp]:
  "riscv64_rd r \<noteq> Inl Diverges" "riscv64_rs1 r \<noteq> Inl Diverges" "riscv64_rs2 r \<noteq> Inl Diverges"
  "riscv64_arg_reg r \<noteq> Inl Diverges"
  by (simp_all add: riscv64_rd_def riscv64_rs1_def riscv64_rs2_def riscv64_arg_reg_def)

lemma riscv64_addi_no_fuel [simp]: "riscv64_addi d s i \<noteq> Inl Diverges"
  by (auto simp: riscv64_addi_def res_bind_Inl intro!: no_fuel)

lemma riscv64_add_no_fuel [simp]:
  "riscv64_add_up d s r b \<noteq> Inl Diverges"
  "riscv64_add_down d s r b \<noteq> Inl Diverges"
  "riscv64_emit_mov_reg d s \<noteq> Inl Diverges"
proof -
  show "riscv64_add_up d s r b \<noteq> Inl Diverges"
    by (induction d s r b rule: riscv64_add_up.induct)
      (subst riscv64_add_up.simps, auto simp: res_bind_Inl)
  show "riscv64_add_down d s r b \<noteq> Inl Diverges"
    by (induction d s r b rule: riscv64_add_down.induct)
      (subst riscv64_add_down.simps, auto simp: res_bind_Inl)
  show "riscv64_emit_mov_reg d s \<noteq> Inl Diverges"
    by (auto simp: riscv64_emit_mov_reg_def res_bind_Inl intro!: no_fuel)
qed

lemma riscv64_texts_no_fuel [simp]:
  "riscv64_emit_add_imm_reg d s i \<noteq> Inl Diverges"
  "riscv64_load_address r l \<noteq> Inl Diverges"
  "riscv64_literal_text g n r v \<noteq> Inl Diverges"
  "riscv64_emit_binop op \<noteq> Inl Diverges"
  "riscv64_false_branch_kind op \<noteq> Inl Diverges"
  "riscv64_branch_op k \<noteq> Inl Diverges"
  by (simp_all add: riscv64_emit_add_imm_reg_def riscv64_load_address_def riscv64_literal_text_def
      riscv64_emit_binop_def riscv64_false_branch_kind_def riscv64_branch_op_def Let_def res_bind_Inl
      split: prod.split)

lemma riscv64_jumps_no_fuel [simp]:
  "riscv64_emit_load_label r l \<noteq> Inl Diverges"
  "riscv64_emit_load_function_label r l \<noteq> Inl Diverges"
  "riscv64_emit_address_stack i \<noteq> Inl Diverges"
  "riscv64_emit_jump_label_parts p l n \<noteq> Inl Diverges"
  "riscv64_compare_jump_text g n l op target \<noteq> Inl Diverges"
proof -
  show j: "riscv64_emit_jump_label_parts p l n \<noteq> Inl Diverges" for p l n
    by (auto simp: riscv64_emit_jump_label_parts_def riscv64_emit_load_label_parts_def res_bind_Inl intro!: no_fuel)
  show "riscv64_compare_jump_text g n l op target \<noteq> Inl Diverges"
    by (auto simp: riscv64_compare_jump_text_def Let_def j res_bind_Inl intro!: no_fuel)
qed (simp_all add: riscv64_emit_load_label_def riscv64_emit_load_function_label_def
    riscv64_emit_address_stack_def)

lemma riscv64_actions_fuel_free [no_fuel]:
  "fuel_free (riscv64_emit_load_literal g r v)"
  "fuel_free (riscv64_emit_load_immediate g r i)"
  "fuel_free (riscv64_emit_load_store_from g l w s b i src)"
  "fuel_free (riscv64_emit_load_store g l w s b i)"
  "fuel_free (riscv64_emit_load_stack g i)"
  "fuel_free (riscv64_emit_store_stack g i)"
  "fuel_free (riscv64_emit_compare_jump g f op target)"
  "fuel_free (riscv64_emit_truth_jump_label_parts g p f target c)"
proof -
  show l: "fuel_free (riscv64_emit_load_literal g r v)" for r v
    by (auto simp: riscv64_emit_load_literal_def Let_def res_bind_Inl intro!: no_fuel)
  show "fuel_free (riscv64_emit_load_immediate g r i)"
    by (auto simp: riscv64_emit_load_immediate_def l res_bind_Inl intro!: no_fuel)
  show f: "fuel_free (riscv64_emit_load_store_from g l w s b i src)" for l w s b i src
    by (auto simp: riscv64_emit_load_store_from_def l Let_def res_bind_Inl intro!: no_fuel)
  show s: "fuel_free (riscv64_emit_load_store g l w s b i)" for l w s b i
    by (simp add: riscv64_emit_load_store_def f)
  show "fuel_free (riscv64_emit_load_stack g i)" "fuel_free (riscv64_emit_store_stack g i)"
    by (simp_all add: riscv64_emit_load_stack_def riscv64_emit_store_stack_def s)
qed (auto simp: riscv64_emit_compare_jump_def riscv64_emit_truth_jump_label_parts_def Let_def res_bind_Inl
    intro!: no_fuel)

lemma emit_texts_no_fuel [simp]:
  "emit_binop g op \<noteq> Inl Diverges" "lookup_loc locs t \<noteq> Inl Diverges"
  "jump_name_for_binop op \<noteq> Inl Diverges" "invert_binop op \<noteq> Inl Diverges"
  "emit_jump_named g p f n \<noteq> Inl Diverges" "emit_jump g f n \<noteq> Inl Diverges"
  "emit_call_cleanup g n \<noteq> Inl Diverges" "emit_argument_move g n \<noteq> Inl Diverges"
  "emit_cleanup_stack g n \<noteq> Inl Diverges" "emit_prologue g n \<noteq> Inl Diverges"
  "choose_omit g locs ft i is \<noteq> Inl Diverges"
proof -
  show l: "lookup_loc locs t \<noteq> Inl Diverges" for t by (simp add: lookup_loc_def)
  show "emit_argument_move g n \<noteq> Inl Diverges"
    by (simp add: emit_argument_move_def res_bind_Inl)
  show "emit_prologue g n \<noteq> Inl Diverges"
    by (auto simp: emit_prologue_def res_bind_Inl split: Target.split intro!: no_fuel)
  show "choose_omit g locs ft i is \<noteq> Inl Diverges"
    by (auto simp: choose_omit_def Let_def l res_bind_Inl split: list.split)
qed (simp_all add: emit_binop_def jump_name_for_binop_def invert_binop_def emit_jump_def
    emit_jump_named_def emit_call_cleanup_def emit_cleanup_stack_def Let_def aarch64_emit_binop_def
    split: Target.split)


lemma load_fuel_free [no_fuel]:
  "fuel_free (emit_load_immediate g v)"
  "fuel_free (emit_load_immediate_bytes g bs)"
  "fuel_free (emit_load_stack g slot bias)"
  "fuel_free (emit_stack_address g slot bias)"
  "fuel_free (emit_load_location g loc bias)"
  "fuel_free (emit_load_operand g locs bias op)"
  "fuel_free (emit_store_temp g locs t)"
  "fuel_free (emit_address_of g locs t)"
proof -
  show i: "fuel_free (emit_load_immediate g v)" for v
    by (cases "target_arch g") (auto simp: emit_load_immediate_def intro!: no_fuel)
  show b: "fuel_free (emit_load_immediate_bytes g bs)" for bs
    by (cases "target_arch g") (auto simp: emit_load_immediate_bytes_def Let_def intro!: no_fuel)
  show s: "fuel_free (emit_load_stack g slot bias)" for slot bias
    by (cases "target_arch g") (auto simp: emit_load_stack_def intro!: no_fuel)
  show a: "fuel_free (emit_stack_address g slot bias)" for slot bias
    by (cases "target_arch g") (auto simp: emit_stack_address_def intro!: no_fuel)
  show l: "fuel_free (emit_load_location g loc bias)" for loc
    by (cases "loc_kind loc") (auto simp: emit_load_location_def intro!: no_fuel s a)
  show "fuel_free (emit_load_operand g locs bias op)"
    by (cases "target_arch g") (auto simp: emit_load_operand_def split: Operand.split
        intro!: no_fuel i b l)
  show "fuel_free (emit_store_temp g locs t)"
    by (cases "target_arch g") (auto simp: emit_store_temp_def split: LocKind.split intro!: no_fuel)
  show "fuel_free (emit_address_of g locs t)"
    by (auto simp: emit_address_of_def intro!: no_fuel a)
qed

lemma acc_fuel_free [no_fuel]:
  "fuel_free (emit_zext_loaded_acc g w)" "fuel_free (emit_sext_loaded_acc g w)"
  "fuel_free (emit_compare g locs a b)" "fuel_free (emit_truth_jump_named g p f n c)"
  "fuel_free (emit_truth_jump g f c n)" "fuel_free (emit_compare_jump g f op n)"
  "fuel_free (emit_truth_branch g f yes no next)"
  "fuel_free (emit_compare_branch g f op yes no next)"
proof -
  have w: "fuel_free (emit_binop_with_scratch g v op)" for v op
    by (auto simp: emit_binop_with_scratch_def intro!: no_fuel)
  show "fuel_free (emit_zext_loaded_acc g w)" "fuel_free (emit_sext_loaded_acc g w)"
    by (auto simp: emit_zext_loaded_acc_def emit_sext_loaded_acc_def emit_i386_zext_loaded_eax_def
        emit_i386_sext_loaded_eax_def emit_masked_zext_def emit_masked_sext_def
        split: Target.split intro!: no_fuel w)
  show "fuel_free (emit_compare g locs a b)"
    by (auto simp: emit_compare_def intro!: no_fuel)
  show j: "fuel_free (emit_truth_jump_named g p f n c)" for p n c
    by (auto simp: emit_truth_jump_named_def split: Target.split intro!: no_fuel)
  show t: "fuel_free (emit_truth_jump g f c n)" for c n
    by (simp add: emit_truth_jump_def j)
  have "aarch64_emit_compare_jump f op n \<noteq> Inl Diverges" for op n
    by (simp add: aarch64_emit_compare_jump_def aarch64_skip_name_for_binop_def res_bind_Inl)
  then show c: "fuel_free (emit_compare_jump g f op n)" for op n
    by (auto simp: emit_compare_jump_def split: Target.split intro!: no_fuel)
  show "fuel_free (emit_truth_branch g f yes no next)"
    by (auto simp: emit_truth_branch_def intro!: no_fuel t)
  show "fuel_free (emit_compare_branch g f op yes no next)"
    by (auto simp: emit_compare_branch_def intro!: no_fuel c)
qed

lemma push_args_fuel_free [no_fuel]:
  "push \<noteq> Inl Diverges \<Longrightarrow> fuel_free (push_args g locs w push n ops)"
  by (induction ops arbitrary: n) (auto intro!: no_fuel)

lemma load_args_fuel_free [no_fuel]: "fuel_free (load_args g locs bias ops)"
  by (induction g locs bias ops rule: load_args.induct) (auto intro!: no_fuel)

lemma emit_arguments_fuel_free [no_fuel]: "fuel_free (emit_arguments g locs args)"
  by (cases "target_arch g") (auto simp: emit_arguments_def Let_def res_bind_Inl intro!: no_fuel)

lemma instr_parts_fuel_free [no_fuel]:
  "fuel_free (emit_memory_load g locs t a w sg i386 other)"
  "fuel_free (emit_memory_store g locs a b w other)"
  "fuel_free (emit_param g n v)"
  "fuel_free (emit_bin g locs t op a b)"
  "fuel_free (emit_call g locs r name args)"
  "fuel_free (emit_calli g locs r a args)"
proof -
  have ops: "fuel_free (emit_bin_operands g locs sw a b)" for sw a b
    by (cases "target_arch g") (auto simp: emit_bin_operands_def intro!: no_fuel)
  show "fuel_free (emit_bin g locs t op a b)"
    by (auto simp: emit_bin_def Let_def split: option.split intro!: no_fuel ops)
qed (cases "target_arch g";
  auto simp: emit_memory_load_def emit_memory_store_def emit_param_def emit_call_def emit_calli_def
    Let_def res_bind_Inl intro!: no_fuel; fail)+

lemma emit_extend_fuel_free [no_fuel]: "fuel_free c \<Longrightarrow> fuel_free (emit_extend g locs c t a)"
  by (auto simp: emit_extend_def intro!: no_fuel)

lemma emit_instrs_fuel_free [no_fuel]:
  "fuel_free (emit_instr g f locs n i)" "fuel_free (emit_instrs g f locs n is ft)"
  by (induction g f locs n i and g f locs n "is" ft rule: emit_instr_emit_instrs.induct)
    (auto simp: set_omit_def intro!: no_fuel)

lemma emit_blocks_fuel_free [no_fuel]: "fuel_free (emit_blocks g f locs n bs)"
proof (induction bs)
  case (Cons b bs)
  have "fuel_free (emit_terminator g f next locs n t)" for "next" t
    by (cases t) (auto simp: emit_terminator_def intro!: no_fuel)
  with Cons show ?case by (auto simp: emit_block_def intro!: no_fuel)
qed (simp add: no_fuel)

text \<open>The one loop that may not end is that of \<^verbatim>\<open>ensure_loc\<close>, for a temporary of \<^verbatim>\<open>2 ^ 30\<close> or more.\<close>

lemma allocate_function_error:
  assumes "allocate_function g fn = Inl e"
  shows "e = Die ''missing allocation'' \<or> step_fails (function_temps fn) e"
  using assms
  by (auto simp: allocate_function_def res_bind_Inl alloc_inv_start function_temps_def split: prod.splits
      dest: allocates_Inl [OF allocates_blocks, of "([], 0)", simplified fst_conv, OF alloc_inv_start(2)]
        counts_Inl [OF counts_count_function])

lemma emit_function_fuel_free:
  assumes "\<forall>t \<in> function_temps fn. t < 2 ^ 30"
  shows "fuel_free (emit_function g fn)"
  using allocate_function_error [of "target_arch g" fn Diverges] assms
  by (force simp: emit_function_def step_fails_def intro!: no_fuel)

section \<open>The program stops\<close>

text \<open>The functions the reading loop finds in a file.\<close>

fun read_functions :: "nat \<Rightarrow> string \<Rightarrow> Function list" where
  "read_functions 0 file = []"
| "read_functions (Suc n) file =
     (case read_line file LINE_CAP of
        Inr (Some (line, file)) \<Rightarrow>
          if str_prefix_n line ''D '' 2 then
            (case parse_ir_data_item file line of
               Inr (item, file) \<Rightarrow> read_functions n file
             | Inl e \<Rightarrow> [])
          else if str_prefix_n line ''F '' 2 then
            (case parse_ir_function file line of
               Inr (fn, file) \<Rightarrow> fn # read_functions n file
             | Inl e \<Rightarrow> [])
          else read_functions n file
      | _ \<Rightarrow> [])"

definition module_functions :: "string \<Rightarrow> Function list" where
  "module_functions contents =
     (case read_line contents LINE_CAP of
        Inr (Some (header, rest)) \<Rightarrow> read_functions (Suc (length rest)) rest
      | _ \<Rightarrow> [])"

lemma translate_items_fuel_free:
  "length file < n \<Longrightarrow> \<forall>fn \<in> set (read_functions n file). \<forall>t \<in> function_temps fn. t < 2 ^ 30 \<Longrightarrow>
   fuel_free (translate_items g n file)"
proof (induction n arbitrary: "file")
  case (Suc n)
  show ?case
    unfolding translate_items.simps
  proof (intro fuel_free_with_res)
    fix r assume r: "read_line file LINE_CAP = Inr r"
    show "fuel_free (case r of
         None \<Rightarrow> out []
       | Some (line, file) \<Rightarrow>
           if str_prefix_n line ''D '' 2 then
             with_res (parse_ir_data_item file line) (\<lambda>(item, file).
             seqs [out (emit_data_item g item), translate_items g n file])
           else if str_prefix_n line ''F '' 2 then
             with_res (parse_ir_function file line) (\<lambda>(fn, file).
             seqs [emit_function g fn, translate_items g n file])
           else if line \<noteq> [] then out_res (die ''unexpected IR top-level line'')
           else translate_items g n file)"
    proof (cases r)
      case None
      then show ?thesis by (simp add: no_fuel)
    next
      case (Some p)
      obtain line rest where p: "p = (line, rest)" by fastforce
      have rest: "length rest < n"
        using read_line_shorter r Some p Suc.prems(1) by fastforce
      note found = Suc.prems(2) [simplified r Some p read_functions.simps, simplified]
      consider (item) "str_prefix_n line ''D '' 2"
        | (fn) "\<not> str_prefix_n line ''D '' 2" "str_prefix_n line ''F '' 2"
        | (other) "\<not> str_prefix_n line ''D '' 2" "\<not> str_prefix_n line ''F '' 2" by blast
      then show ?thesis
      proof cases
        case item
        have "fuel_free (translate_items g n f)" if "parse_ir_data_item rest line = Inr (x, f)" for x f
          using parse_ir_data_item_shortens [OF that] rest found item that by (intro Suc.IH) simp_all
        with item show ?thesis by (auto simp: Some p intro!: no_fuel)
      next
        case fn
        have "fuel_free (translate_items g n f)" "fuel_free (emit_function g h)"
          if "parse_ir_function rest line = Inr (h, f)" for h f
          using parse_ir_function_shortens [OF that] rest found fn that
          by (intro Suc.IH emit_function_fuel_free; simp)+
        with fn show ?thesis by (auto simp: Some p intro!: no_fuel)
      next
        case other
        then show ?thesis using rest found by (auto simp: Some p intro!: no_fuel Suc.IH)
      qed
    qed
  qed simp
qed simp

definition small_temps :: "string \<Rightarrow> bool" where
  "small_temps contents \<longleftrightarrow> (\<forall>fn \<in> set (module_functions contents). \<forall>t \<in> function_temps fn. t < 2 ^ 30)"

lemma translate_file_no_fuel:
  assumes "small_temps contents"
  shows "translate_file target output contents \<noteq> Inl Diverges"
proof (cases "read_line contents LINE_CAP")
  case (Inr r)
  have "translate_ir_module g rest s \<noteq> Inl Diverges" if "r = Some (header, rest)" for g s header rest
  proof -
    have "fuel_free (translate_ir_module g rest)"
      using assms that Inr
      by (auto simp: small_temps_def translate_ir_module_def module_functions_def simp del: translate_items.simps read_functions.simps
          intro!: no_fuel translate_items_fuel_free)
    then show ?thesis by (simp add: fuel_free_def)
  qed
  then show ?thesis
    using Inr by (auto simp: translate_file_def res_bind_Inl split: option.splits prod.splits if_splits)
qed (auto simp: translate_file_def)

text \<open>
  C4. Every loop of the program ends, on every input whose functions define no temporary of \<^verbatim>\<open>2 ^ 30\<close> or
  more (with one, \<^verbatim>\<open>ensure_loc\<close> can loop for ever: \<open>huge_temp_diverges\<close>): whatever the arguments and the
  files, \<^verbatim>\<open>main\<close> returns or exits with a message. In particular the fuel the model gives to the reading
  loops, one unit per character of the file, never runs out.
\<close>

theorem hcc_m1_main_terminates:
  assumes "\<forall>input \<in> set args. \<forall>contents. readable input = Some contents \<longrightarrow> small_temps contents"
  shows "hcc_m1_main readable writable same_file args \<noteq> Stopped Diverges"
proof -
  have empty: "translate_file target f [] \<noteq> Inl Diverges" for target f
    by (rule translate_file_no_fuel) (simp add: small_temps_def module_functions_def)
  have "main_files readable writable same_file target paths \<noteq> Stopped Diverges"
    if "set paths \<subseteq> set args" for target paths
  proof (cases "\<exists>input output. paths = [input, output]")
    case True
    then obtain p q where paths: "paths = [p, q]" by blast
    have "translate_file target q contents \<noteq> Inl Diverges" if "readable p = Some contents" for contents
      using assms that \<open>set paths \<subseteq> set args\<close> by (intro translate_file_no_fuel) (auto simp: paths)
    with empty show ?thesis by (auto simp: main_files_def paths split: option.splits sum.splits)
  qed (auto simp: main_files_def split: list.splits)
  moreover have "set (drop 2 args) \<subseteq> set args" by (rule set_drop_subset)
  ultimately show ?thesis
    by (auto simp: hcc_m1_main_def parse_target_def die_def split: sum.splits if_splits)
qed

definition small_file :: string where
  "small_file = concat (map (\<lambda>l. l @ [newline]) [''HCCIR 1'', ''F f'', ''L 0'', ''3 5 7'', ''R T5'', ''E''])"

theorem hcc_m1_main_terminates_witness:
  "hcc_m1_main (\<lambda>_. Some small_file) (\<lambda>_. True) (=) [''in'', ''out''] \<noteq> Stopped Diverges \<and>
   map function_temps (module_functions small_file) = [{5}]"
proof -
  have t: "map function_temps (module_functions small_file) = [{5}]" by code_simp
  then have "small_temps small_file" by (auto simp: small_temps_def)
  then show ?thesis using t by (intro conjI hcc_m1_main_terminates) simp_all
qed

section \<open>Whole modules\<close>

text \<open>What a printed item is translated to, and which items print lines that can be read back.\<close>

fun emit_top_item :: "Globals \<Rightarrow> HTopItemIr \<Rightarrow> action" where
  "emit_top_item g (TopData d) = out (emit_data_item g (c_data_item d))"
| "emit_top_item g (TopFunction fn) = emit_function g (c_function fn)"

fun ok_top_item :: "HTopItemIr \<Rightarrow> bool" where
  "ok_top_item (TopData d) \<longleftrightarrow> ok_data_item d"
| "ok_top_item (TopFunction fn) \<longleftrightarrow> ok_function fn"

definition module_text :: "HTopItemIr list \<Rightarrow> string" where
  "module_text tops = unlines (concat (map emitTopItemIr tops))"

definition hccir_text :: "HTopItemIr list \<Rightarrow> string" where
  "hccir_text tops = unlines (''HCCIR 1'' # concat (map emitTopItemIr tops))"

definition printable :: "HTopItemIr list \<Rightarrow> bool" where
  "printable tops \<longleftrightarrow>
     list_all (\<lambda>ti. ok_top_item ti \<and> list_all fits_line (emitTopItemIr ti)) tops"

lemma act_seq_nil: "act_seq a (out []) = a"
  by (auto simp: fun_eq_iff act_seq_def res_bind_def split: sum.split)

lemma act_seq_seqs_nil: "act_seq a (seqs []) = a"
  by (simp add: act_seq_nil del: out_run)

lemma seqs_Cons: "seqs (a # as) = act_seq a (seqs as)"
  by (cases as) (simp_all add: act_seq_nil)

lemma with_res_Inr: "with_res (Inr x) f = f x"
  by (simp add: fun_eq_iff with_res_def)

lemma top_item_lines:
  obtains l ls where "emitTopItemIr ti = l # ls"
    and "(\<exists>d. ti = TopData d \<and> str_prefix_n l ''D '' 2) \<or>
      (\<exists>fn. ti = TopFunction fn \<and> str_prefix_n l ''F '' 2 \<and> \<not> str_prefix_n l ''D '' 2)"
proof (cases ti)
  case (TopData d)
  then show ?thesis using that by (cases d) (auto simp: str_prefix_n_def)
next
  case (TopFunction fn)
  then show ?thesis using that by (cases fn) (auto simp: str_prefix_n_def)
qed

lemma translate_items_text:
  assumes "printable tops" and "length (module_text tops) < n"
  shows "translate_items g n (module_text tops) = seqs (map (emit_top_item g) tops)"
  using assms
proof (induction tops arbitrary: n)
  case Nil
  then obtain m where "n = Suc m" by (cases n) auto
  then show ?case by (simp add: module_text_def with_res_Inr)
next
  case (Cons ti tops)
  obtain l ls where e: "emitTopItemIr ti = l # ls"
    and kind: "(\<exists>d. ti = TopData d \<and> str_prefix_n l ''D '' 2) \<or>
      (\<exists>fn. ti = TopFunction fn \<and> str_prefix_n l ''F '' 2 \<and> \<not> str_prefix_n l ''D '' 2)"
    by (rule top_item_lines)
  have lines: "module_text (ti # tops) = l @ newline # unlines ls @ module_text tops"
    by (simp add: module_text_def e)
  obtain m where n: "n = Suc m" using Cons.prems(2) by (cases n) auto
  have IH: "translate_items g m (module_text tops) = seqs (map (emit_top_item g) tops)"
    using Cons.IH [of m] Cons.prems n lines by (simp add: printable_def)
  have fit: "fits_line l" and all: "list_all fits_line (emitTopItemIr ti)"
    and ok: "ok_top_item ti"
    using Cons.prems(1) e by (simp_all add: printable_def)
  have read: "read_line (module_text (ti # tops)) LINE_CAP =
      Inr (Some (l, unlines ls @ module_text tops))"
    unfolding lines by (rule read_line_line [OF fit])
  from kind show ?case
  proof
    assume "\<exists>d. ti = TopData d \<and> str_prefix_n l ''D '' 2"
    then obtain d where d: "ti = TopData d" and p: "str_prefix_n l ''D '' 2" by blast
    have "parse_ir_data_item (unlines ls @ module_text tops) l =
        Inr (c_data_item d, module_text tops)"
      using ok all e d by (intro parse_ir_data_item_text) auto
    with p d show ?thesis
      by (simp add: n read [unfolded d] with_res_Inr seqs_Cons IH act_seq_seqs_nil del: seqs.simps)
  next
    assume "\<exists>fn. ti = TopFunction fn \<and> str_prefix_n l ''F '' 2 \<and> \<not> str_prefix_n l ''D '' 2"
    then obtain fn where fn: "ti = TopFunction fn" and p: "str_prefix_n l ''F '' 2"
      "\<not> str_prefix_n l ''D '' 2" by blast
    have "parse_ir_function (unlines ls @ module_text tops) l =
        Inr (c_function fn, module_text tops)"
      using ok all e fn by (intro parse_ir_function_text) auto
    with p fn show ?thesis
      by (simp add: n read [unfolded fn] with_res_Inr seqs_Cons IH act_seq_seqs_nil del: seqs.simps)
  qed
qed

text \<open>
  Translating the text the Haskell printer writes for a module is translating the module: the
  header, then what each item is emitted as, in order. The items must be printable: numbers in
  range, names without blanks, lines that fit the reader's buffer, and no byte literal returned.
\<close>

theorem translate_printed_module:
  assumes "printable tops"
  shows "translate_ir_module g (module_text tops) =
     seqs (out (emit_header g) # map (emit_top_item g) tops)"
  using translate_items_text [OF assms, of "Suc (length (module_text tops))" g]
  by (simp add: translate_ir_module_def seqs_Cons act_seq_seqs_nil del: translate_items.simps seqs.simps)

definition module_sample :: "HTopItemIr list" where
  "module_sample =
    [TopData (HDataItem ''msg'' [DByte 104, DByte 0, DByte 0, DAddress ''main'']),
     TopFunction (FunctionIr ''main''
       [BasicBlock (BlockId 0) [IParam (Temp 0) 0, IBin (Temp 1) IMul (OTemp (Temp 0)) (OImm (-3))]
         (TRet (Some (OTemp (Temp 1))))])]"

lemma module_sample_printable: "printable module_sample"
  by code_simp

theorem translate_printed_module_witness:
  "translate_ir_module \<lparr>target_arch = TARGET_I386, label_namespace = ''o''\<rparr>
     (module_text module_sample) initial_state =
   seqs (out (emit_header \<lparr>target_arch = TARGET_I386, label_namespace = ''o''\<rparr>) #
     map (emit_top_item \<lparr>target_arch = TARGET_I386, label_namespace = ''o''\<rparr>) module_sample)
     initial_state"
  by (rule fun_cong [OF translate_printed_module [OF module_sample_printable]])



text \<open>
  C6. A returned byte literal does not survive: the printer writes its bytes after the operand's
  first token, and the reader, which has put a NUL after that token, dies on the line.
\<close>

theorem parse_ir_term_loses_bytes:
  assumes "bytes \<noteq> []" and "int_ok (int (length bytes))"
  shows "parse_ir_term (terminatorIrLine (TRet (Some (OImmBytes bytes)))) = die ''truncated input line''"
proof -
  have "is_token (CHR ''B'' # dec (int (length bytes)))"
    by (simp add: is_token_def)
  moreover obtain rest where "listIrFieldsRest dec bytes = CHR '' '' # rest"
    using assms(1) by (cases bytes) auto
  ultimately have next1: "next_token (operandIrFields (OImmBytes bytes)) =
      (Some (CHR ''B'' # dec (int (length bytes))), rest)"
    using next_token_space [of "CHR ''B'' # dec (int (length bytes))" rest]
    by (simp add: listIrFields_def)
  have "parse_ints (length bytes) [] = die ''truncated input line''"
    using assms(1) by (cases bytes) (simp_all add: parse_int_token_def need_token_def next_token_def)
  then have "parse_ir_operand (CHR ''B'' # dec (int (length bytes))) = die ''truncated input line''"
    using assms(2) by (simp add: parse_ir_operand_def text_simps int_ok_long_ok is_token_def
        need_token_last)
  with next1 show ?thesis
    by (simp add: parse_ir_term_def text_simps)
qed

theorem parse_ir_term_loses_bytes_witness:
  "terminatorIrLine (TRet (Some (OImmBytes [0, 0, 0, 128, 0, 0, 0, 0]))) = ''R B8 0 0 0 128 0 0 0 0'' \<and>
   parse_ir_term ''R B8 0 0 0 128 0 0 0 0'' = die ''truncated input line''"
proof -
  let ?bytes = "[0, 0, 0, 128, 0, 0, 0, 0]"
  have "terminatorIrLine (TRet (Some (OImmBytes ?bytes))) = ''R B8 0 0 0 128 0 0 0 0''"
    by code_simp
  moreover have "parse_ir_term (terminatorIrLine (TRet (Some (OImmBytes ?bytes)))) =
      die ''truncated input line''"
    by (rule parse_ir_term_loses_bytes) (simp_all add: int_ok_def)
  ultimately show ?thesis by simp
qed

end
