(* ===== verification/Amd64Program.thy ===== *)
theory Amd64Program
  imports Amd64Function Program
begin

text \<open>
  Whole modules for amd64: the text \<^verbatim>\<open>main\<close> writes holds the code of every function it reads, so in a
  program it is linked into, each function computes what its IR computes.
\<close>

section \<open>What a module must keep\<close>

definition branches_ok :: "Function \<Rightarrow> bool" where
  "branches_ok fn \<longleftrightarrow>
     (\<forall>b \<in> set (fn_blocks fn). \<forall>k \<in> term_targets (block_term b). 0 < k \<and> k \<in> block_id ` set (fn_blocks fn))"

section \<open>The text of an item\<close>

lemma data_value_text_start: "amd64 g \<Longrightarrow> \<exists>ch t. data_value_text g v = ch # t \<and> (ch = quote_char \<or> ch = CHR ''&'')"
  by (cases v) (simp_all add: data_value_text_def emit_byte_def amd64_def Let_def)

lemma data_row_text:
  assumes "data_row g 0 (v # vs) = (t, r)" "amd64 g"
  shows "\<exists>ch t'. t = ch # t' \<and> (ch = quote_char \<or> ch = CHR ''&'')"
proof -
  have "\<exists>t'. t = data_value_text g v @ t'"
    using assms(1) by (cases "data_row g 1 vs") auto
  with data_value_text_start [OF assms(2), of v] show ?thesis by auto
qed

lemma code_text_data_rows: "amd64 g \<Longrightarrow> code_text (data_rows g vs)"
proof (induction g vs rule: data_rows.induct)
  case (2 g v vs)
  obtain t r where row: "data_row g 0 (v # vs) = (t, r)" by fastforce
  from data_row_text [OF row "2.prems"] obtain ch t' where t: "t = ch # t'" "ch = quote_char \<or> ch = CHR ''&''" by blast
  from t(2) have ch: "ch \<noteq> CHR '' ''" "ch \<noteq> newline" "ch \<noteq> CHR ''%''" by (auto simp: newline_def quote_char_def)
  have "code_text (''  '' @ t @ [newline])" using code_text_open [OF ch, of "t' @ [newline]"] by (simp add: t(1))
  moreover have "code_text (data_rows g r)" using "2.IH" [OF row [symmetric] "2.prems"] .
  ultimately have "code_text ((''  '' @ t @ [newline]) @ data_rows g r)" by (rule code_text_append)
  moreover have "data_rows g (v # vs) = (''  '' @ t @ [newline]) @ data_rows g r"
    by (simp add: row del: data_row.simps)
  ultimately show ?case by (simp only:)
qed simp

lemma code_text_data_item: "amd64 g \<Longrightarrow> code_text (emit_data_item g item)"
  using code_text_append [OF code_text_label code_text_append [OF code_text_data_rows code_text_empty_line], of g]
  by (simp add: emit_data_item_def Let_def amd64_def)

lemma has_code_append: "has_code g P fn \<Longrightarrow> has_code g (pre @ P) fn"
  unfolding has_code_def by (metis append.assoc)

lemma emit_function_code:
  assumes "amd64 g" "typed_function fn" "emit_function g fn st = Inr (t, st')"
  shows "code_text t" "opens rest \<Longrightarrow> has_code g (m1_words t @ rest) fn"
proof -
  obtain locs frame where a: "allocate_function TARGET_AMD64 fn = Inr (locs, frame)"
    using assms(1,3) by (cases "allocate_function TARGET_AMD64 fn") (auto simp: emit_function_def amd64_def with_res_def)
  have "typed_name (fn_name fn)" using assms(2) by (simp add: typed_function_def)
  from function_parts [OF assms(1) this assms(3) a] show "code_text t" by blast
  show "opens rest \<Longrightarrow> has_code g (m1_words t @ rest) fn"
    unfolding has_code_def using assms(3) by (metis append_Nil)
qed

lemma translate_items_code:
  assumes "amd64 g"
  shows "translate_items g n file st = Inr (t, st') \<Longrightarrow>
    code_text t \<and>
    (\<forall>fn \<in> set (read_functions n file). typed_function fn \<and> (\<forall>rest. opens rest \<longrightarrow> has_code g (m1_words t @ rest) fn))"
proof (induction n arbitrary: "file" st t)
  case (Suc n)
  from Suc.prems obtain r where r: "read_line file LINE_CAP = Inr r"
    by (cases "read_line file LINE_CAP") (auto simp: with_res_def)
  show ?case
  proof (cases r)
    case None
    with Suc.prems r show ?thesis by (simp add: with_res_def)
  next
    case (Some p)
    obtain line rest where p: "p = (line, rest)" by fastforce
    note line = read_line_one_line [OF r [unfolded Some p]]
    consider "str_prefix_n line ''D '' 2" | "\<not> str_prefix_n line ''D '' 2" "str_prefix_n line ''F '' 2"
      | "\<not> str_prefix_n line ''D '' 2" "\<not> str_prefix_n line ''F '' 2" by blast
    then show ?thesis
    proof cases
      case 1
      with Suc.prems r Some p obtain item f2 t2 where d: "parse_ir_data_item rest line = Inr (item, f2)"
        "translate_items g n f2 st = Inr (t2, st')" "t = emit_data_item g item @ t2"
        by (auto simp: with_res_def act_seq_def act_simps split: sum.splits)
      note code = code_text_data_item [OF assms, of item]
      have "\<forall>fn \<in> set (read_functions n f2). typed_function fn \<and> (\<forall>rest. opens rest \<longrightarrow> has_code g (m1_words t @ rest) fn)"
        using Suc.IH [OF d(2)] has_code_append by (simp add: d(3) m1_words_code [OF code])
      with 1 r Some p d code_text_append [OF code] Suc.IH [OF d(2)] show ?thesis by simp
    next
      case 2
      with Suc.prems r Some p obtain fn f2 t1 st1 t2 where d: "parse_ir_function rest line = Inr (fn, f2)"
        "emit_function g fn st = Inr (t1, st1)" "translate_items g n f2 st1 = Inr (t2, st')" "t = t1 @ t2"
        by (auto simp: with_res_def act_seq_def act_simps split: sum.splits)
      have typed: "typed_function fn" by (rule parse_ir_function_typed [OF d(1) line])
      note code = emit_function_code [OF assms typed d(2)]
      note ih = Suc.IH [OF d(3)]
      have "has_code g (m1_words t @ r) fn" if "opens r" for r
        using code(2) [of "m1_words t2 @ r"] that ih by (simp add: d(4) m1_words_code [OF code(1)] code_text_def opens_append)
      moreover have "\<forall>fn \<in> set (read_functions n f2). typed_function fn \<and> (\<forall>rest. opens rest \<longrightarrow> has_code g (m1_words t @ rest) fn)"
        using ih has_code_append by (simp add: d(4) m1_words_code [OF code(1)])
      ultimately show ?thesis using 2 r Some p d typed code_text_append [OF code(1)] ih by simp
    next
      case 3
      with Suc.prems r Some p have "translate_items g n rest st = Inr (t, st')"
        by (auto simp: with_res_def out_res_def die_def split: if_splits)
      from Suc.IH [OF this] 3 r Some p show ?thesis by simp
    qed
  qed
qed (simp add: out_res_def)

lemma whole_lines_text_lines: "whole_lines (text_lines ls)"
  by (induction ls) (auto simp: text_lines_def whole_lines_def)

lemma translate_file_code:
  assumes "translate_file TARGET_AMD64 output contents = Inr text" "opens behind"
  shows "\<exists>g. amd64 g \<and> (\<forall>fn \<in> set (module_functions contents). typed_function fn \<and>
    has_code g (ahead @ m1_words text @ behind) fn)"
proof -
  let ?g = "\<lparr>target_arch = TARGET_AMD64, label_namespace = set_label_namespace output\<rparr>"
  from assms(1) obtain header rest state where r: "read_line contents LINE_CAP = Inr (Some (header, rest))"
    "translate_ir_module ?g rest initial_state = Inr (text, state)"
  proof (cases "read_line contents LINE_CAP")
    case (Inr p)
    with assms(1) show ?thesis using that
      by (cases p) (auto simp: translate_file_def res_bind_def die_def split: if_splits sum.splits)
  qed (simp add: translate_file_def res_bind_def)
  then obtain t where t: "translate_items ?g (Suc (length rest)) rest initial_state = Inr (t, state)"
    "text = emit_header ?g @ t"
    by (auto simp: translate_ir_module_def act_seq_def act_simps simp del: translate_items.simps)
  have g: "amd64 ?g" by (simp add: amd64_def)
  have "whole_lines (emit_header ?g)"
    by (auto simp: emit_header_def emit_header_amd64_def intro!: whole_lines_append whole_lines_text_lines)
  then have w: "m1_words text = m1_words (emit_header ?g) @ m1_words t" by (simp add: t(2) m1_words_lines)
  have fns: "module_functions contents = read_functions (Suc (length rest)) rest" by (simp add: module_functions_def r(1))
  from translate_items_code [OF g t(1)] assms(2) has_code_append [of ?g "m1_words t @ behind" _ "ahead @ m1_words (emit_header ?g)"] g
  show ?thesis unfolding fns w by (intro exI [of _ ?g]) simp
qed

section \<open>A module\<close>

definition max_function :: HFunctionIr where
  "max_function = FunctionIr ''max''
     [BasicBlock (BlockId 0) [IParam (Temp 0) 0, IParam (Temp 1) 1]
        (TBranchCmp IGt (OTemp (Temp 0)) (OTemp (Temp 1)) (BlockId 1) (BlockId 2)),
      BasicBlock (BlockId 1) [IBin (Temp 2) IAdd (OTemp (Temp 0)) (OImm 1)] (TRet (Some (OTemp (Temp 2)))),
      BasicBlock (BlockId 2) [] (TRet (Some (OTemp (Temp 1))))]"

definition max_regs :: x86 where
  "max_regs = \<lparr>rax = 0, rbx = 0, rcx = 0, rdx = 0, rsp = 0x2000, rsi = 3, rdi = 5, r8 = 0, r9 = 0,
     zf = False, sf = False, cf = False, ovf = False, mem = (\<lambda>_. 0)\<rparr>"

lemma max_entry:
  "entry_ok (\<lambda>_. 0) 0x1000 (\<lambda>a. a \<in> cells 8 0x2000) 0x2000 [5, 3] Map.empty [] max_regs"
proof -
  have "uint (0x2000 :: 64 word) + int 8 \<le> 2 ^ 64" by simp
  note b = cells_bounds [OF this]
  have "mem_read n (\<lambda>_. 0) a = 0" for n a by (induction n arbitrary: a) simp_all
  then show ?thesis
    using b(1) by (force simp: entry_ok_def max_regs_def pushed_bytes_def arg_reg_def less_Suc_eq)
qed

lemma read_functions_text:
  assumes "printable [TopFunction fn]" "length (module_text [TopFunction fn]) < n"
  shows "read_functions n (module_text [TopFunction fn]) = [c_function fn]"
proof -
  obtain l ls where e: "emitTopItemIr (TopFunction fn) = l # ls" and p: "str_prefix_n l ''F '' 2" "\<not> str_prefix_n l ''D '' 2"
    by (rule top_item_lines [of "TopFunction fn"]) auto
  have mt: "module_text [TopFunction fn] = l @ newline # unlines ls" using e by (simp add: module_text_def del: emitTopItemIr.simps)
  obtain m where n: "n = Suc (Suc m)" using assms(2) by (cases n; cases "n - 1") (auto simp: mt)
  have fit: "fits_line l" using assms(1) e by (simp add: printable_def)
  have "parse_ir_function (unlines ls @ []) l = Inr (c_function fn, [])"
    using assms(1) e by (intro parse_ir_function_text) (auto simp: printable_def)
  then show ?thesis
    using p unfolding mt n by (simp add: read_line_line [OF fit])
qed

lemma hccir_text_header:
  "read_line (hccir_text tops) LINE_CAP = Inr (Some (''HCCIR 1'', module_text tops))"
proof -
  have "fits_line ''HCCIR 1''" by code_simp
  from read_line_line [OF this] show ?thesis by (simp add: hccir_text_def module_text_def)
qed

lemma max_functions: "module_functions (hccir_text [TopFunction max_function]) = [c_function max_function]"
proof -
  have "printable [TopFunction max_function]" by code_simp
  then show ?thesis by (simp add: module_functions_def hccir_text_header read_functions_text del: read_functions.simps)
qed

lemma words_last_newline: "words_acc acc (l @ [newline]) = words_acc acc l"
  by (induction l arbitrary: acc) auto

lemma text_lines_no_label:
  "list_all (\<lambda>l. list_all (\<lambda>w. \<not> is_label w) (m1_words l)) ls \<Longrightarrow> filter is_label (m1_words (text_lines ls)) = []"
proof (induction ls)
  case (Cons l ls)
  have "whole_lines (l @ [newline])" by (simp add: whole_lines_def)
  from m1_words_lines [OF this, of "text_lines ls"]
  have "m1_words (text_lines (l # ls)) = m1_words l @ m1_words (text_lines ls)"
    by (simp add: text_lines_def m1_words_def words_last_newline)
  with Cons show ?case by (simp add: list_all_iff filter_empty_conv)
qed (simp add: text_lines_def m1_words_def)

lemma no_label_skip:
  assumes "filter is_label ws = []"
  shows "after_label l (ws @ rest) = after_label l rest" "at_address A v (ws @ rest) = at_address A v rest"
  using assms by (induction ws) (auto simp: is_label_def split: if_splits)

lemma max_linked:
  "\<exists>text. translate_file TARGET_AMD64 ''max.M1'' (hccir_text [TopFunction max_function]) = Inr text \<and>
     linked (\<lambda>_. 0) (m1_words text) [''max'']"
proof -
  let ?g = "\<lparr>target_arch = TARGET_AMD64, label_namespace = ''max_M1''\<rparr>"
  have name: "set_label_namespace ''max.M1'' = ''max_M1''" by code_simp
  have print: "printable [TopFunction max_function]" by code_simp
  have "case emit_function ?g (c_function max_function) initial_state of
      Inl e \<Rightarrow> False
    | Inr (t, s) \<Rightarrow> distinct (filter is_label (m1_words t)) \<and> at_address (\<lambda>_. 0) 0 (m1_words t) = after_label ''FUNCTION_max'' (m1_words t)"
    by code_simp
  then obtain t s where t: "emit_function ?g (c_function max_function) initial_state = Inr (t, s)"
    "distinct (filter is_label (m1_words t))" "at_address (\<lambda>_. 0) 0 (m1_words t) = after_label ''FUNCTION_max'' (m1_words t)"
    by (auto split: sum.splits)
  have tr: "translate_file TARGET_AMD64 ''max.M1'' (hccir_text [TopFunction max_function]) = Inr (emit_header ?g @ t)"
    using translate_items_text [OF print, of _ ?g] t(1)
    by (simp add: translate_file_def hccir_text_header name translate_ir_module_def act_seq_def res_bind_def
        del: translate_items.simps)
  have h: "emit_header ?g = text_lines (''## hcc M1 output'' # emit_header_amd64_lines)"
    by (simp add: emit_header_def emit_header_amd64_def text_lines_def)
  have "list_all (\<lambda>l. list_all (\<lambda>w. \<not> is_label w) (m1_words l)) (''## hcc M1 output'' # emit_header_amd64_lines)"
    by code_simp
  note no = text_lines_no_label [OF this, folded h]
  have "whole_lines (emit_header ?g)"
    unfolding h by (rule whole_lines_text_lines)
  then have w: "m1_words (emit_header ?g @ t) = m1_words (emit_header ?g) @ m1_words t" by (rule m1_words_lines)
  have "linked (\<lambda>_. 0) (m1_words (emit_header ?g @ t)) [''max'']"
    using t(2,3) no by (simp add: linked_def w no_label_skip [OF no] label_value_def)
  with tr show ?thesis by blast
qed

lemma max_run:
  "\<exists>m. ir_call (\<lambda>_. 0) 0x1000 [c_function max_function] 4 (\<lambda>a. a \<in> cells 8 0x2000) 0x2000 ''max'' [5, 3] Map.empty =
     Some (6, m)"
proof -
  have "map_option fst (ir_call (\<lambda>_. 0) 0x1000 [c_function max_function] 4 (\<lambda>a. a \<in> cells 8 0x2000) 0x2000
      ''max'' [5, 3] Map.empty) = Some 6"
    by code_simp
  then show ?thesis by auto
qed

section \<open>The theorem\<close>

text \<open>
  C1. The amd64 back end is correct on whole modules. Take any file \<^verbatim>\<open>main\<close> translates for amd64 without
  error, and any program its output is linked into, with distinct labels. Whenever a call of one of the
  file's functions has a meaning in the IR (it ends, within the stack, reads only what was written), the
  machine, entered at the function's label by the calling convention, runs to the return address with the
  result in RAX, the stack pointer popped, every byte of the callers kept and memory as the IR left it.
\<close>

theorem amd64_translation_correct:
  assumes "translate_file TARGET_AMD64 output contents = Inr text"
    and "prog = ahead @ m1_words text @ behind" and "opens behind"
    and "\<forall>fn \<in> set (module_functions contents). branches_ok fn"
    and "linked address prog (map fn_name (module_functions contents))"
    and "ir_call address limit (module_functions contents) n frozen sp name args m = Some (v, m')"
    and "entry_ok spot limit frozen sp args m ret x"
  shows "\<exists>target y. after_label (''FUNCTION_'' @ name) prog = Some target \<and>
     steps address spot prog (target, ret # rets, x) (ret, rets, y) \<and>
     exit_ok limit frozen sp v m' x y"
proof -
  obtain g where g: "amd64 g" "\<forall>fn \<in> set (module_functions contents). typed_function fn \<and> has_code g prog fn"
    using translate_file_code [OF assms(1,3)] assms(2) by blast
  then have "\<forall>fn \<in> set (module_functions contents). function_ok fn \<and> has_code g prog fn"
    using assms(4) by (simp add: function_ok_def branches_ok_def)
  from all_calls_ok [OF g(1) this assms(5)] assms(6,7) show ?thesis unfolding body_ok_def by blast
qed

theorem amd64_translation_correct_witness:
  "\<exists>code target y. translate_file TARGET_AMD64 ''max.M1'' (hccir_text [TopFunction max_function]) = Inr code \<and>
     after_label ''FUNCTION_max'' (m1_words code) = Some target \<and>
     steps (\<lambda>_. 0) (\<lambda>_. 0) (m1_words code) (target, [[]], max_regs) ([], [], y) \<and> rax y = 6 \<and> rsp y = 0x2008"
proof -
  obtain code where t: "translate_file TARGET_AMD64 ''max.M1'' (hccir_text [TopFunction max_function]) = Inr code"
    "linked (\<lambda>_. 0) (m1_words code) [''max'']"
    using max_linked by blast
  obtain m where m: "ir_call (\<lambda>_. 0) 0x1000 [c_function max_function] 4 (\<lambda>a. a \<in> cells 8 0x2000) 0x2000 ''max''
      [5, 3] Map.empty = Some (6, m)"
    using max_run by blast
  have b: "branches_ok (c_function max_function)" by code_simp
  have name: "fn_name (c_function max_function) = ''max''" by code_simp
  have "\<exists>target y. after_label (''FUNCTION_'' @ ''max'') (m1_words code) = Some target \<and>
      steps (\<lambda>_. 0) (\<lambda>_. 0) (m1_words code) (target, [[]], max_regs) ([], [], y) \<and>
      exit_ok 0x1000 (\<lambda>a. a \<in> cells 8 0x2000) 0x2000 6 m max_regs y"
    by (rule amd64_translation_correct [where ahead = "[]" and behind = "[]", OF t(1) _ _ _ _ m [folded max_functions] max_entry])
      (use t(2) b in \<open>simp_all add: max_functions opens_def name\<close>)
  with t(1) show ?thesis by (auto simp: exit_ok_def)
qed

end
