(* ===== verification/Elision.thy ===== *)
theory Elision
  imports UseCounts
begin

text \<open>
  The code of a function never looks at the slot of a temporary whose store was left out: with the slot
  anywhere else in the frame, the emitter writes the same text, on every target. The text of the
  instruction that sets the temporary does not mention the slot because the store is omitted, that of
  its one use because the value is taken from the accumulator, and no other instruction refers to it.
\<close>

section \<open>The same allocation with one slot elsewhere\<close>

definition move_slot :: "int \<Rightarrow> int \<Rightarrow> LocArray \<Rightarrow> LocArray" where
  "move_slot u k locs = locs[nat u := (locs ! nat u)\<lparr>loc_slot := k\<rparr>]"

lemma lookup_move_slot:
  "0 \<le> u \<Longrightarrow> lookup_loc (move_slot u k locs) t =
     (if t = u then map_sum id (\<lambda>loc. loc\<lparr>loc_slot := k\<rparr>) (lookup_loc locs t) else lookup_loc locs t)"
  by (cases "t < 0") (auto simp: lookup_loc_def move_slot_def die_def nth_list_update nat_eq_iff)

text \<open>The instructions that set a temporary.\<close>

fun instr_defs :: "Instr \<Rightarrow> int \<Rightarrow> nat"
  and instrs_defs :: "Instr list \<Rightarrow> int \<Rightarrow> nat"
where
  "instr_defs (IK_COND t cs co ts to fs fo) u =
     instrs_defs cs u + instrs_defs ts u + instrs_defs fs u + (if t = u then 1 else 0)"
| "instr_defs i u = (if instr_def_temp i = u then 1 else 0)"
| "instrs_defs [] u = 0"
| "instrs_defs (i # is) u = instr_defs i u + instrs_defs is u"

definition function_defs :: "Function \<Rightarrow> int \<Rightarrow> nat" where
  "function_defs fn u = (\<Sum>b \<leftarrow> fn_blocks fn. instrs_defs (block_instrs b) u)"

text \<open>
  The number of a temporary in an operand is a \<^verbatim>\<open>long\<close> that the emitter narrows in some places only: the
  operands that end a list or a block must hold an \<^verbatim>\<open>int\<close>.
\<close>

definition narrow_op :: "Operand \<Rightarrow> bool" where
  "narrow_op op \<longleftrightarrow> (case op of OP_TEMP v \<Rightarrow> int_ok v | _ \<Rightarrow> True)"

fun narrow_instr :: "Instr \<Rightarrow> bool" where
  "narrow_instr (IK_COND t cs co ts to fs fo) \<longleftrightarrow>
     list_all narrow_instr cs \<and> narrow_op co \<and> list_all narrow_instr ts \<and> narrow_op to \<and>
     list_all narrow_instr fs \<and> narrow_op fo"
| "narrow_instr i \<longleftrightarrow> True"

fun narrow_term :: "Terminator \<Rightarrow> bool" where
  "narrow_term (TK_RET op) \<longleftrightarrow> narrow_op op"
| "narrow_term (TK_BRANCH op yes no) \<longleftrightarrow> narrow_op op"
| "narrow_term t \<longleftrightarrow> True"

definition narrow_function :: "Function \<Rightarrow> bool" where
  "narrow_function fn \<longleftrightarrow>
     (\<forall>b \<in> set (fn_blocks fn). list_all narrow_instr (block_instrs b) \<and> narrow_term (block_term b))"

section \<open>Code that does not refer to the temporary\<close>

named_theorems same_code \<open>emission that does not depend on a slot\<close>

lemma same_operand [same_code]:
  "0 \<le> u \<Longrightarrow> operand_uses op u = 0 \<Longrightarrow>
   emit_load_operand g (move_slot u k locs) bias op = emit_load_operand g locs bias op"
  by (cases op) (auto simp: emit_load_operand_def operand_uses_def lookup_move_slot split: if_splits)

lemma same_store [same_code]:
  "0 \<le> u \<Longrightarrow> t \<noteq> u \<Longrightarrow> emit_store_temp g (move_slot u k locs) t = emit_store_temp g locs t"
  by (simp add: emit_store_temp_def lookup_move_slot)

lemma same_address [same_code]:
  "0 \<le> u \<Longrightarrow> t \<noteq> u \<Longrightarrow> emit_address_of g (move_slot u k locs) t = emit_address_of g locs t"
  by (simp add: emit_address_of_def lookup_move_slot)

lemma same_choose [same_code]:
  "0 \<le> u \<Longrightarrow> choose_omit g (move_slot u k locs) f i is = choose_omit g locs f i is"
  by (auto simp: choose_omit_def Let_def lookup_move_slot res_bind_def split: list.split sum.split)

lemma operands_uses_0: "operands_uses ops u = 0 \<longleftrightarrow> (\<forall>op \<in> set ops. operand_uses op u = 0)"
  by (induction ops) auto

lemma same_push [same_code]:
  "0 \<le> u \<Longrightarrow> \<forall>op \<in> set ops. operand_uses op u = 0 \<Longrightarrow>
   push_args g (move_slot u k locs) w push n ops = push_args g locs w push n ops"
  by (induction ops arbitrary: n) (simp_all add: same_code)

lemma same_load_args [same_code]:
  "0 \<le> u \<Longrightarrow> \<forall>(op, i) \<in> set ops. operand_uses op u = 0 \<Longrightarrow>
   load_args g (move_slot u k locs) bias ops = load_args g locs bias ops"
  by (induction ops) (auto simp: same_code)

lemma set_register_args: "(op, i) \<in> set (register_args n args) \<Longrightarrow> op \<in> set args"
  unfolding register_args_def by (blast dest: set_zip_leftD in_set_takeD)

lemma same_arguments [same_code]:
  assumes "0 \<le> u" "operands_uses args u = 0"
  shows "emit_arguments g (move_slot u k locs) args = emit_arguments g locs args"
proof -
  have "\<forall>op \<in> set (rev (drop n args)). operand_uses op u = 0"
    "\<forall>op \<in> set (rev args). operand_uses op u = 0"
    "\<forall>(op, i) \<in> set (register_args n args). operand_uses op u = 0"
    "\<forall>(op, i) \<in> set (rev (register_args n args)). operand_uses op u = 0" for n
    using assms(2) by (auto simp: operands_uses_0 dest: in_set_dropD set_register_args)
  with assms(1) show ?thesis
    by (simp add: emit_arguments_def same_code Let_def split: Target.split)
qed

lemma same_bin_operands [same_code]:
  assumes "0 \<le> u" "operand_uses a u = 0" "operand_uses b u = 0"
  shows "emit_bin_operands g (move_slot u k locs) sw a b = emit_bin_operands g locs sw a b"
  unfolding emit_bin_operands_def assms(2,3) [THEN same_operand [OF assms(1)]] ..

lemma same_bin_choice [same_code]:
  assumes "0 \<le> u" "operand_uses a u = 0" "operand_uses b u = 0"
  shows "with_state (\<lambda>s. if c s then emit_bin_operands g (move_slot u k locs) True a b
       else emit_bin_operands g (move_slot u k locs) sw a b) =
     with_state (\<lambda>s. if c s then emit_bin_operands g locs True a b else emit_bin_operands g locs sw a b)"
    "with_state (\<lambda>s. if c s then emit_bin_operands g (move_slot u k locs) True b a
       else emit_bin_operands g (move_slot u k locs) sw a b) =
     with_state (\<lambda>s. if c s then emit_bin_operands g locs True b a else emit_bin_operands g locs sw a b)"
  unfolding same_bin_operands [OF assms] same_bin_operands [OF assms(1,3,2)] by (rule refl)+

lemma same_bin [same_code]:
  "0 \<le> u \<Longrightarrow> operand_uses a u = 0 \<Longrightarrow> operand_uses b u = 0 \<Longrightarrow> t \<noteq> u \<Longrightarrow>
   emit_bin g (move_slot u k locs) t op a b = emit_bin g locs t op a b"
  by (cases "add_swap g op a b") (simp_all add: emit_bin_def Let_def same_code split: option.split)

lemma same_instr [same_code]:
  shows "0 \<le> u \<Longrightarrow> instr_uses i u = 0 \<Longrightarrow> instr_defs i u = 0 \<Longrightarrow>
      emit_instr g fn (move_slot u k locs) n i = emit_instr g fn locs n i"
    and "0 \<le> u \<Longrightarrow> instrs_uses is u = 0 \<Longrightarrow> instrs_defs is u = 0 \<Longrightarrow>
      emit_instrs g fn (move_slot u k locs) n is f = emit_instrs g fn locs n is f"
  by (induction g fn locs n i and g fn locs n "is" f rule: emit_instr_emit_instrs.induct)
    (simp_all add: same_code instr_def_temp_def emit_extend_def emit_memory_load_def emit_memory_store_def
      emit_call_def emit_calli_def when_do_def split: Target.split if_splits)

lemma same_terminator [same_code]:
  "0 \<le> u \<Longrightarrow> term_uses t u = 0 \<Longrightarrow>
   emit_terminator g fn next_id (move_slot u k locs) n t = emit_terminator g fn next_id locs n t"
proof (cases t)
  case (TK_BRANCH_CMP binop a b yes no)
  assume "0 \<le> u" "term_uses t u = 0"
  with TK_BRANCH_CMP have "operand_uses a u = 0" "operand_uses b u = 0" by simp_all
  note same = this [THEN same_operand [OF \<open>0 \<le> u\<close>]]
  show ?thesis unfolding TK_BRANCH_CMP emit_terminator_def emit_compare_def same Terminator.case ..
qed (simp_all add: emit_terminator_def same_code)

section \<open>Code that sets the temporary\<close>

definition keeps_omit :: "action \<Rightarrow> bool" where
  "keeps_omit a \<longleftrightarrow> (\<forall>s t s'. a s = Inr (t, s') \<longrightarrow> omit_store_temp s' = omit_store_temp s)"

named_theorems keeps \<open>actions that do not change which store is omitted\<close>

lemma keeps_basic [keeps]:
  "keeps_omit (out t)" "keeps_omit (out_res r)" "keeps_omit emit_forget_rax"
  "keeps_omit (emit_remember_rax_temp n)" "keeps_omit (\<lambda>s. Inr (t, s))"
  by (auto simp: keeps_omit_def out_res_def res_bind_Inr)

lemma keeps_modify [keeps]: "(\<And>s. omit_store_temp (f s) = omit_store_temp s) \<Longrightarrow> keeps_omit (modify f)"
  by (simp add: keeps_omit_def)

lemma keeps_with_res [keeps]: "(\<And>x. keeps_omit (f x)) \<Longrightarrow> keeps_omit (with_res r f)"
  by (auto simp: keeps_omit_def with_res_def res_bind_Inr)

lemma keeps_with_state [keeps]: "(\<And>s. keeps_omit (f s)) \<Longrightarrow> keeps_omit (with_state f)"
  by (auto simp: keeps_omit_def)

lemma keeps_when_do [keeps]: "keeps_omit a \<Longrightarrow> keeps_omit (when_do c a)"
  by (simp add: keeps_omit_def when_do_def)

lemma keeps_act_seq [keeps]: "keeps_omit a \<Longrightarrow> keeps_omit b \<Longrightarrow> keeps_omit (act_seq a b)"
  by (fastforce simp: keeps_omit_def act_seq_Inr)

lemma keeps_seqs [keeps]: "list_all keeps_omit as \<Longrightarrow> keeps_omit (seqs as)"
  by (induction as rule: seqs.induct) (auto intro: keeps)

lemma keeps_riscv64 [keeps]:
  "keeps_omit (riscv64_emit_load_immediate g r v)" "keeps_omit (riscv64_emit_load_store g l w s b i)"
  "keeps_omit (riscv64_emit_load_stack g i)"
proof -
  have l: "keeps_omit (riscv64_emit_load_literal g r v)" for r v
    by (auto simp: riscv64_emit_load_literal_def Let_def intro!: keeps)
  then show "keeps_omit (riscv64_emit_load_immediate g r v)"
    by (auto simp: riscv64_emit_load_immediate_def intro!: keeps)
  show m: "keeps_omit (riscv64_emit_load_store g l w s b i)" for l w s b i
    by (auto simp: riscv64_emit_load_store_def riscv64_emit_load_store_from_def Let_def intro!: keeps l)
  show "keeps_omit (riscv64_emit_load_stack g i)" using m by (simp add: riscv64_emit_load_stack_def)
qed

lemma keeps_load [keeps]:
  "keeps_omit (emit_load_immediate g v)" "keeps_omit (emit_load_operand g locs bias op)"
  "keeps_omit (emit_address_of g locs t)"
proof -
  show i: "keeps_omit (emit_load_immediate g v)" for v
    by (cases "target_arch g") (auto simp: emit_load_immediate_def intro!: keeps)
  have b: "keeps_omit (emit_load_immediate_bytes g bs)" for bs
    by (cases "target_arch g") (auto simp: emit_load_immediate_bytes_def Let_def intro!: keeps)
  have s: "keeps_omit (emit_load_stack g slot bias)" "keeps_omit (emit_stack_address g slot bias)" for slot bias
    by (cases "target_arch g"; auto simp: emit_load_stack_def emit_stack_address_def intro!: keeps)+
  have l: "keeps_omit (emit_load_location g loc bias)" for loc
    by (cases "loc_kind loc") (auto simp: emit_load_location_def intro!: keeps s)
  show "keeps_omit (emit_load_operand g locs bias op)"
    by (cases "target_arch g") (auto simp: emit_load_operand_def split: Operand.split intro!: keeps i b l)
  show "keeps_omit (emit_address_of g locs t)" by (auto simp: emit_address_of_def intro!: keeps s)
qed

lemma keeps_arguments [keeps]: "keeps_omit (emit_arguments g locs args)"
proof -
  have p: "keeps_omit (push_args g locs w push n ops)" for w push n ops
    by (induction ops arbitrary: n) (auto intro!: keeps)
  have "keeps_omit (load_args g locs bias ops)" for bias ops
    by (induction g locs bias ops rule: load_args.induct) (auto intro!: keeps)
  with p show ?thesis
    by (cases "target_arch g") (auto simp: emit_arguments_def Let_def intro!: keeps)
qed

lemma keeps_parts [keeps]:
  "keeps_omit (emit_zext_loaded_acc g w)" "keeps_omit (emit_sext_loaded_acc g w)"
  "keeps_omit (emit_param g n v)" "keeps_omit (emit_bin_operands g locs sw a b)"
proof -
  have w: "keeps_omit (emit_binop_with_scratch g v op)" for v op
    by (auto simp: emit_binop_with_scratch_def intro!: keeps)
  show "keeps_omit (emit_zext_loaded_acc g w)" "keeps_omit (emit_sext_loaded_acc g w)"
    by (auto simp: emit_zext_loaded_acc_def emit_sext_loaded_acc_def emit_i386_zext_loaded_eax_def
        emit_i386_sext_loaded_eax_def emit_masked_zext_def emit_masked_sext_def
        split: Target.split intro!: keeps w)
  show "keeps_omit (emit_param g n v)"
    by (cases "target_arch g") (auto simp: emit_param_def intro!: keeps)
  show "keeps_omit (emit_bin_operands g locs sw a b)"
    by (cases "target_arch g") (auto simp: emit_bin_operands_def intro!: keeps)
qed

text \<open>
  \<open>held\<close>: the temporary is in the accumulator. \<open>sets\<close> relates two versions of code that sets it with
  its store omitted: they write the same text, and leave the temporary in the accumulator.
\<close>

definition held :: "LocArray \<Rightarrow> int \<Rightarrow> EmitState \<Rightarrow> bool" where
  "held locs u s \<longleftrightarrow> rax_temp s = u \<and> (\<exists>loc. lookup_loc locs u = Inr loc \<and> loc_kind loc = LOC_STACK)"

definition sets :: "LocArray \<Rightarrow> int \<Rightarrow> action \<Rightarrow> action \<Rightarrow> bool" where
  "sets locs u a b \<longleftrightarrow>
     (\<forall>s. omit_store_temp s = u \<longrightarrow> a s = b s \<and> (\<forall>t s'. b s = Inr (t, s') \<longrightarrow> held locs u s'))"

lemma lookup_kind: "lookup_loc locs t = Inr loc \<Longrightarrow> loc_kind loc \<noteq> LOC_NONE"
  by (auto simp: lookup_loc_def die_def split: if_splits)

lemma sets_store:
  "0 \<le> u \<Longrightarrow> sets locs u (emit_store_temp g (move_slot u k locs) u) (emit_store_temp g locs u)"
  using lookup_kind [of locs u]
  by (cases "lookup_loc locs u")
    (auto simp: sets_def emit_store_temp_def lookup_move_slot held_def die_def split: LocKind.splits)

lemma sets_act_seq:
  assumes "keeps_omit a" "sets locs u b b'"
  shows "sets locs u (act_seq a b) (act_seq a b')"
  unfolding sets_def
proof (intro allI impI)
  fix s :: EmitState assume s: "omit_store_temp s = u"
  show "act_seq a b s = act_seq a b' s \<and> (\<forall>t s'. act_seq a b' s = Inr (t, s') \<longrightarrow> held locs u s')"
  proof (cases "a s")
    case (Inr p)
    obtain t1 s1 where p: "p = (t1, s1)" by fastforce
    have "omit_store_temp s1 = u" using assms(1) s Inr p by (simp add: keeps_omit_def)
    with assms(2) have "b s1 = b' s1" "\<forall>t s'. b' s1 = Inr (t, s') \<longrightarrow> held locs u s'"
      unfolding sets_def by blast+
    with Inr p show ?thesis by (auto simp: act_seq_def res_bind_def split: sum.splits)
  qed (simp add: act_seq_def)
qed

lemma sets_seqs:
  "list_all keeps_omit as \<Longrightarrow> sets locs u b b' \<Longrightarrow> sets locs u (seqs (as @ [b])) (seqs (as @ [b']))"
proof (induction as)
  case (Cons a as)
  then show ?case by (cases as) (auto intro: sets_act_seq)
qed simp

lemmas sets_list = sets_seqs [where as = "[a]" for a, simplified]
  sets_seqs [where as = "[a, b]" for a b, simplified]
  sets_seqs [where as = "[a, b, c]" for a b c, simplified]
  sets_seqs [where as = "[a, b, c, d]" for a b c d, simplified]

lemma sets_die: "sets locs u (out_res (die m)) (out_res (die m))"
  by (simp add: sets_def die_def)


lemma defining_instr:
  assumes "0 \<le> u" "instr_def_temp i = u" "instr_uses i u = 0"
  shows "sets locs u (emit_instr g fn (move_slot u k locs) n i) (emit_instr g fn locs n i)"
proof -
  note store = sets_list [OF _ sets_store [OF assms(1)], simplified]
  show ?thesis
  proof (cases i)
    case (IK_BIN t op a b)
    with assms have t: "t = u" "operand_uses a u = 0" "operand_uses b u = 0" by (simp_all add: instr_def_temp_def)
    then show ?thesis
      using assms(1) by (cases "add_swap g op a b")
        (auto simp: IK_BIN emit_bin_def Let_def same_code split: option.split intro!: store keeps)
  qed (use assms in \<open>auto simp: instr_def_temp_def same_code emit_extend_def emit_memory_load_def when_do_def
      emit_call_def emit_calli_def intro!: store keeps sets_die split: Target.split if_splits\<close>)
qed

section \<open>Code that takes the temporary from the accumulator\<close>

lemma load_held:
  assumes "0 \<le> u" "int_ok u" "held locs u s"
  shows "emit_load_operand g (move_slot u k locs) 0 (OP_TEMP u) s = Inr ([], s)"
    "emit_load_operand g locs 0 (OP_TEMP u) s = Inr ([], s)"
  using assms by (auto simp: emit_load_operand_def held_def lookup_move_slot)

lemma self_uses: "int_ok u \<Longrightarrow> operand_uses (OP_TEMP u) u = 1"
  by (simp add: operand_uses_def)

lemma no_self: "int_ok u \<Longrightarrow> operand_uses op u = 0 \<Longrightarrow> op \<noteq> OP_TEMP u"
  using self_uses [of u] by auto

lemma first_held:
  assumes "0 \<le> u" "int_ok u" "held locs u s" "b s = b' s"
  shows "act_seq (emit_load_operand g (move_slot u k locs) 0 (OP_TEMP u)) b s =
    act_seq (emit_load_operand g locs 0 (OP_TEMP u)) b' s"
  using load_held [OF assms(1-3)] assms(4) by (simp add: act_seq_def)

lemma first_act_seq: "a s = a' s \<Longrightarrow> act_seq a b s = act_seq a' b s"
  by (simp add: act_seq_def)

lemma bin_held:
  assumes "0 \<le> u" "int_ok u" "held locs u s" "t \<noteq> u"
    and "a = OP_TEMP u \<and> operand_uses b u = 0 \<or>
      binop_is_commutative op \<and> b = OP_TEMP u \<and> operand_uses a u = 0"
  shows "emit_bin g (move_slot u k locs) t op a b s = emit_bin g locs t op a b s"
  using assms(5)
proof
  have rax: "rax_temp s = u" using assms(3) by (simp add: held_def)
  assume a: "a = OP_TEMP u \<and> operand_uses b u = 0"
  then have "\<not> add_swap g op a b" "b \<noteq> OP_TEMP u"
    using no_self [OF assms(2)] by (auto simp: add_swap_def is_imm_def)
  with a assms(1,4) show ?thesis
    by (auto simp: rax load_held [OF assms(1-3)] emit_bin_def Let_def emit_bin_operands_def same_code
        split: option.split intro!: first_held [OF assms(1-3)] first_act_seq)
next
  have rax: "rax_temp s = u" using assms(3) by (simp add: held_def)
  assume b: "binop_is_commutative op \<and> b = OP_TEMP u \<and> operand_uses a u = 0"
  with assms(1,4) show ?thesis
    by (cases "add_swap g op a b")
      (auto simp: rax load_held [OF assms(1-3)] emit_bin_def Let_def emit_bin_operands_def same_code split: option.split
        intro!: first_held [OF assms(1-3)] first_act_seq)
qed

lemma act_seq_out_nil: "act_seq (out []) a s = a s"
  by (auto simp: act_seq_def res_bind_def split: sum.split)

lemma arguments_held:
  assumes "0 \<le> u" "int_ok u" "held locs u s" "operands_uses args u = 1"
    and "target_arch g = TARGET_AMD64" "args \<noteq> []" "length args \<le> 6" "hd args = OP_TEMP u"
  shows "emit_arguments g (move_slot u k locs) args s = emit_arguments g locs args s"
proof -
  obtain ops where args: "args = OP_TEMP u # ops" using assms(6,8) by (cases args) auto
  have "\<forall>op \<in> set ops. operand_uses op u = 0"
    using assms(4) self_uses [OF assms(2)] by (simp add: args operands_uses_0)
  then have rest: "\<forall>(op, i) \<in> set (zip ops [1..<n]). operand_uses op u = 0" for n
    by (auto dest: set_zip_leftD)
  have "register_args 6 args = (OP_TEMP u, 0) # zip ops [1..<6]"
    using assms(7) by (simp add: register_args_def args upt_conv_Cons del: upt_Suc)
  with assms(5,7) rest [THEN same_load_args [OF assms(1)]] show ?thesis
    by (auto simp: emit_arguments_def call_stack_bytes_def target_register_arg_count_def
        act_seq_out_nil intro!: first_held [OF assms(1-3)] simp del: upt_Suc)
qed

lemma consuming_instr:
  assumes "0 \<le> u" "int_ok u" "held locs u s" "instr_consumes_rax_temp g i u"
    and "instr_uses i u = 1" "instr_defs i u = 0"
  shows "emit_instr g fn (move_slot u k locs) n i s = emit_instr g fn locs n i s"
proof -
  note self = self_uses [OF assms(2)]
  note first = first_held [OF assms(1-3)] first_act_seq arguments_held [OF assms(1-3)]
  show ?thesis
  proof (cases i)
    case (IK_BIN t op a b)
    with assms(4-6) self bin_held [OF assms(1-3), of t a b op] show ?thesis
      by (auto simp: instr_consumes_rax_temp_def instr_def_temp_def split: if_splits)
  next
    case (IK_CALLI r callee args)
    with assms(4) have a: "target_arch g = TARGET_AMD64" "args \<noteq> []" "length args \<le> 6" "hd args = OP_TEMP u"
      by (simp_all add: instr_consumes_rax_temp_def)
    with self have "0 < operands_uses args u" by (cases args) auto
    with assms(5) IK_CALLI have u: "operand_uses callee u = 0" "operands_uses args u = 1" by simp_all
    with arguments_held [OF assms(1-3) u(2) a] a(1) assms(1,6) IK_CALLI show ?thesis
      by (auto simp: emit_calli_def when_do_def same_code instr_def_temp_def intro!: first_act_seq split: if_splits)
  qed (use assms self in \<open>auto simp: load_held [OF assms(1-3)] instr_consumes_rax_temp_def instr_def_temp_def same_code emit_extend_def
      emit_memory_load_def emit_memory_store_def emit_call_def emit_calli_def when_do_def Let_def
      intro!: first split: if_splits\<close>)
qed

lemma operand_held:
  assumes "0 \<le> u" "narrow_op op" "operand_temp op = u" "held locs u s"
  shows "emit_load_operand g (move_slot u k locs) 0 op s = emit_load_operand g locs 0 op s"
  using assms load_held [OF assms(1) _ assms(4)]
  by (auto simp: operand_temp_def narrow_op_def split: Operand.splits)

lemma terminator_held:
  assumes "0 \<le> u" "int_ok u" "held locs u s" "term_uses (block_term b) u = 1"
    and "narrow_term (block_term b)" "block_first_term_temp g b = u"
  shows "emit_terminator g fn next_id (move_slot u k locs) n (block_term b) s =
    emit_terminator g fn next_id locs n (block_term b) s"
proof (cases "block_term b")
  case (TK_BRANCH_CMP op x y yes no)
  have rax: "rax_temp s = u" using assms(3) by (simp add: held_def)
  note self = self_uses [OF assms(2)]
  from assms(6) TK_BRANCH_CMP assms(1) consider "x = OP_TEMP u" | "x \<noteq> OP_TEMP u" "y = OP_TEMP u" "target_arch g = TARGET_AMD64"
    by (auto simp: block_first_term_temp_def Let_def split: if_splits)
  then show ?thesis
  proof cases
    case 1
    with assms(4) self TK_BRANCH_CMP have y: "operand_uses y u = 0" by simp
    with 1 no_self [OF assms(2) y] same_operand [OF assms(1) y] show ?thesis
      by (auto simp: rax load_held [OF assms(1-3)] TK_BRANCH_CMP emit_terminator_def emit_compare_def
          intro!: first_held [OF assms(1-3)] first_act_seq)
  next
    case 2
    with assms(4) self TK_BRANCH_CMP have "operand_uses x u = 0" by simp
    with 2 same_operand [OF assms(1) this] show ?thesis
      by (auto simp: rax TK_BRANCH_CMP emit_terminator_def emit_compare_def intro!: first_act_seq)
  qed
qed (use assms operand_held [OF assms(1) _ _ assms(3)] in
    \<open>auto simp: emit_terminator_def block_first_term_temp_def operand_temp_def split: Operand.splits
      intro!: first_act_seq\<close>)

section \<open>Lists of instructions\<close>

lemma omitted_defs:
  shows "0 \<le> u \<Longrightarrow> 0 < omits g locs i u \<Longrightarrow> 0 < instr_defs i u"
    and "0 \<le> u \<Longrightarrow> 0 < omitted g locs is f u \<Longrightarrow> 0 < instrs_defs is u"
proof (induction g locs i u and g locs "is" f u rule: omits_omitted.induct)
  case (1 g locs i u)
  then show ?case by (cases i) (auto simp: omits.simps)
next
  case (3 g locs i "is" f u)
  have "0 < instr_defs i u" if "omit_of g locs f i is = u"
    using omit_of_cases [OF that "3.prems"(1)] "3.prems"(1) by (cases i) (auto simp: instr_def_temp_def)
  with 3 show ?case by (auto split: if_splits)
qed simp

lemma pending_omitted: "pending g locs p is f = u \<Longrightarrow> 0 \<le> u \<Longrightarrow> is \<noteq> [] \<Longrightarrow> 0 < omitted g locs is f u"
  by (induction "is" arbitrary: p) (auto, metis list.exhaust pending.simps(1))

text \<open>
  The text of a list in which the temporary's store is omitted, and of a list with the load that follows
  it. The temporary has one definition and one use.
\<close>

definition one_use :: "Globals \<Rightarrow> LocArray \<Rightarrow> Instr list \<Rightarrow> int \<Rightarrow> int \<Rightarrow> bool" where
  "one_use g locs is f u \<longleftrightarrow>
     instrs_uses is u + (if pending g locs (- 1) is f = u then 1 else 0) \<le> 1 \<and> instrs_defs is u \<le> 1"

definition leaves :: "LocArray \<Rightarrow> int \<Rightarrow> action \<Rightarrow> bool" where
  "leaves locs u a \<longleftrightarrow> (\<forall>s t s'. a s = Inr (t, s') \<longrightarrow> held locs u s')"

lemma then_same:
  assumes "leaves locs u a" "\<And>s. held locs u s \<Longrightarrow> b s = b' s"
  shows "act_seq a b = act_seq a b'"
  using assms by (auto simp: fun_eq_iff act_seq_def leaves_def res_bind_def split: sum.split)

lemma section_same:
  assumes "0 \<le> u" "narrow_op op"
    and "emit_instrs g fn (move_slot u k locs) n is (operand_temp op) = emit_instrs g fn locs n is (operand_temp op)"
    and "pending g locs (- 1) is (operand_temp op) = u \<longrightarrow> is \<noteq> [] \<and> leaves locs u (emit_instrs g fn locs n is (operand_temp op))"
    and "pending g locs (- 1) is (operand_temp op) \<noteq> u \<longrightarrow> operand_uses op u = 0"
  shows "act_seq (emit_instrs g fn (move_slot u k locs) n is (operand_temp op))
      (act_seq (emit_load_operand g (move_slot u k locs) 0 op) b) =
    act_seq (emit_instrs g fn locs n is (operand_temp op)) (act_seq (emit_load_operand g locs 0 op) b)"
proof (cases "pending g locs (- 1) is (operand_temp op) = u")
  case True
  with assms(4) have l: "is \<noteq> []" "leaves locs u (emit_instrs g fn locs n is (operand_temp op))" by simp_all
  have f: "operand_temp op = u" by (rule pending_final [OF True assms(1) l(1)])
  show ?thesis
    unfolding assms(3) by (rule then_same [OF l(2)]) (rule first_act_seq, rule operand_held [OF assms(1,2) f])
next
  case False
  with assms(5) have "operand_uses op u = 0" by simp
  from same_operand [OF assms(1) this] show ?thesis unfolding assms(3) by simp
qed

lemma act_seq_assoc: "act_seq (act_seq a b) c = act_seq a (act_seq b c)"
  by (auto simp: fun_eq_iff act_seq_def res_bind_def split: sum.split)

lemma leaves_act_seq: "leaves locs u b \<Longrightarrow> leaves locs u (act_seq a b)"
  by (auto simp: leaves_def act_seq_Inr)

lemma leaves_set_omit: "leaves locs u a \<Longrightarrow> leaves locs u (act_seq a (set_omit n))"
  by (auto simp: leaves_def act_seq_Inr set_omit_def held_def)

lemma pending_start: "is \<noteq> [] \<Longrightarrow> pending g locs p is f = pending g locs q is f"
  by (cases "is") simp_all

lemma section_count:
  assumes "0 \<le> u" "int_ok u" "instrs_uses is u + operand_uses op u \<le> 1" "instrs_defs is u \<le> 1"
  shows "0 < omitted g locs is (operand_temp op) u \<Longrightarrow> one_use g locs is (operand_temp op) u"
    and "0 < omitted g locs is (operand_temp op) u \<Longrightarrow> pending g locs (- 1) is (operand_temp op) \<noteq> u \<Longrightarrow>
      operand_uses op u = 0"
    and "0 < omitted g locs is (operand_temp op) u \<Longrightarrow> instrs_uses is u + operand_uses op u = 1 \<and> instrs_defs is u = 1"
proof -
  assume o: "0 < omitted g locs is (operand_temp op) u"
  have "is \<noteq> []" using o by auto
  then have p: "0 < operand_uses op u" if "pending g locs (- 1) is (operand_temp op) = u"
    using operand_temp_uses [OF pending_final [OF that assms(1)] assms(1)] by simp
  have n: "- 1 \<noteq> u" using assms(1) by linarith
  have c: "instrs_uses is u + (if pending g locs (- 1) is (operand_temp op) = u then 1 else 0) =
      looses g locs (- 1) is (operand_temp op) u + omitted g locs is (operand_temp op) u"
    using count_instr(2) [OF assms(1,2), of "- 1" "is" g locs "operand_temp op"] n by simp
  show "one_use g locs is (operand_temp op) u" using p assms(3,4) by (auto simp: one_use_def)
  show "operand_uses op u = 0" if "pending g locs (- 1) is (operand_temp op) \<noteq> u"
    using that c o assms(3) by simp
  have "0 < instrs_defs is u" by (rule omitted_defs(2) [OF assms(1) o])
  then show "instrs_uses is u + operand_uses op u = 1 \<and> instrs_defs is u = 1"
    using p c o assms(3,4) by (cases "pending g locs (- 1) is (operand_temp op) = u") simp_all
qed

text \<open>A section of a conditional: the store is omitted in it, or it does not refer to the temporary.\<close>

lemma section_either:
  assumes "0 \<le> u" "int_ok u" "instrs_uses is u + operand_uses op u \<le> 1" "instrs_defs is u \<le> 1" "narrow_op op"
    and "0 < omitted g locs is (operand_temp op) u \<or>
      instrs_uses is u + operand_uses op u = 0 \<and> instrs_defs is u = 0"
    and "0 < omitted g locs is (operand_temp op) u \<Longrightarrow> one_use g locs is (operand_temp op) u \<Longrightarrow>
      emit_instrs g fn (move_slot u k locs) n is (operand_temp op) = emit_instrs g fn locs n is (operand_temp op) \<and>
      (pending g locs (- 1) is (operand_temp op) = u \<longrightarrow> leaves locs u (emit_instrs g fn locs n is (operand_temp op)))"
  shows "act_seq (emit_instrs g fn (move_slot u k locs) n is (operand_temp op))
      (act_seq (emit_load_operand g (move_slot u k locs) 0 op) b) =
    act_seq (emit_instrs g fn locs n is (operand_temp op)) (act_seq (emit_load_operand g locs 0 op) b)"
proof (cases "0 < omitted g locs is (operand_temp op) u")
  case True
  note c = section_count [OF assms(1-4) True]
  have "is \<noteq> []" using True by auto
  with assms(7) [OF True c(1)] show ?thesis
    by (intro section_same [OF assms(1,5)] impI conjI c(2)) auto
next
  case False
  with assms(6) show ?thesis by (simp add: same_instr [OF assms(1)] same_operand [OF assms(1)])
qed

text \<open>The definition with its store omitted, and what follows at once.\<close>

lemma omitting_head:
  assumes "0 \<le> u" "int_ok u" "omit_of g locs f i is = u" "instrs_uses (i # is) u \<le> 1" "instrs_defs (i # is) u \<le> 1"
    and "is = [] \<longrightarrow> instr_uses i u = 0"
  shows "emit_instrs g fn (move_slot u k locs) n (i # is) f = emit_instrs g fn locs n (i # is) f"
    and "is = [] \<Longrightarrow> leaves locs u (emit_instrs g fn locs n (i # is) f)"
proof -
  let ?M = "move_slot u k locs"
  note o = omit_of_cases [OF assms(3,1)]
  have choose: "choose_omit g locs f i is = Inr u"
    using assms(1,3) by (auto simp: omit_of_def split: sum.splits)
  have "instr_def_temp i = u" "0 < instr_defs i u"
    using o assms(1) by (cases i; auto simp: instr_def_temp_def)+
  then have i: "instr_def_temp i = u" "instrs_defs is u = 0" using assms(5) by simp_all
  have unused: "instr_uses i u = 0"
    using o assms(4,6) consumes_uses [OF assms(2), of g "hd is"] by (cases "is") auto
  note s = defining_instr [OF assms(1) i(1) unused, unfolded sets_def, rule_format]
  let ?D = "act_seq (set_omit u) (emit_instr g fn locs n i)"
  have same: "act_seq (set_omit u) (emit_instr g fn ?M n i) = ?D"
    using s by (auto simp: fun_eq_iff act_seq_def set_omit_def)
  have "leaves locs u ?D" unfolding leaves_def
    by (auto simp: act_seq_Inr set_omit_def dest: conjunct2 [OF s, rule_format, rotated])
  then have leave: "leaves locs u (act_seq ?D (set_omit (- 1)))" by (rule leaves_set_omit)
  have emit: "emit_instrs g fn L n (i # is) f =
      act_seq (act_seq (act_seq (set_omit u) (emit_instr g fn L n i)) (set_omit (- 1))) (emit_instrs g fn L n is f)"
    if "choose_omit g L f i is = Inr u" for L
    using that by (simp add: act_seq_assoc with_res_def fun_eq_iff act_seq_def)
  have follow: "emit_instrs g fn ?M n is f st = emit_instrs g fn locs n is f st" if held: "held locs u st" for st
  proof (cases "is")
    case (Cons j r)
    have j: "instr_consumes_rax_temp g j u" using conjunct1 [OF conjunct2 [OF o]] Cons by simp
    then have "0 < instr_uses j u" by (rule consumes_uses [OF assms(2)])
    then have uses: "instr_uses j u = 1" "instrs_uses r u = 0" using assms(4) Cons by simp_all
    have defs: "instr_defs j u = 0" "instrs_defs r u = 0" using i(2) Cons by simp_all
    have "emit_instr g fn ?M n j (st\<lparr>omit_store_temp := x\<rparr>) = emit_instr g fn locs n j (st\<lparr>omit_store_temp := x\<rparr>)" for x
      by (rule consuming_instr [OF assms(1,2) _ j uses(1) defs(1)]) (use held in \<open>simp add: held_def\<close>)
    then show ?thesis
      using same_instr(2) [OF assms(1) uses(2) defs(2)] same_choose [OF assms(1)]
      by (cases "choose_omit g locs f j r") (simp_all add: Cons act_seq_def set_omit_def with_res_def)
  qed simp
  show "emit_instrs g fn ?M n (i # is) f = emit_instrs g fn locs n (i # is) f"
    unfolding emit [OF choose] emit [of ?M, unfolded same_choose [OF assms(1)], OF choose] same
    by (rule then_same [OF leave follow])
  show "leaves locs u (emit_instrs g fn locs n (i # is) f)" if "is = []"
    unfolding emit [OF choose] using leave that by (auto simp: leaves_def act_seq_Inr)
qed

lemma elided_same:
  shows "0 \<le> u \<Longrightarrow> int_ok u \<Longrightarrow> 0 < omits g locs i u \<Longrightarrow> instr_uses i u \<le> 1 \<Longrightarrow> instr_defs i u \<le> 1 \<Longrightarrow>
      narrow_instr i \<Longrightarrow> emit_instr g fn (move_slot u k locs) n i = emit_instr g fn locs n i"
    and "0 \<le> u \<Longrightarrow> int_ok u \<Longrightarrow> 0 < omitted g locs is f u \<Longrightarrow> one_use g locs is f u \<Longrightarrow>
      list_all narrow_instr is \<Longrightarrow>
      emit_instrs g fn (move_slot u k locs) n is f = emit_instrs g fn locs n is f \<and>
      (pending g locs (- 1) is f = u \<longrightarrow> leaves locs u (emit_instrs g fn locs n is f))"
proof (induction g locs i u and g locs "is" f u rule: omits_omitted.induct)
  case (1 g locs i u)
  then obtain t cs co ts to fs fo where i: "i = IK_COND t cs co ts to fs fo"
    using omits_simple [of i g locs u] by (cases "is_cond i") (auto simp: is_cond_def split: Instr.splits)
  note o = "1.prems"(3) [unfolded i cond_counts]
  have uses: "instrs_uses cs u + operand_uses co u + (instrs_uses ts u + operand_uses to u) +
      (instrs_uses fs u + operand_uses fo u) \<le> 1"
    using "1.prems"(4) by (simp add: i)
  have defs: "instrs_defs cs u + instrs_defs ts u + instrs_defs fs u + (if t = u then 1 else 0) \<le> 1"
    using "1.prems"(5) by (simp only: i instr_defs.simps)
  have u: "instrs_uses cs u + operand_uses co u \<le> 1" "instrs_uses ts u + operand_uses to u \<le> 1"
    "instrs_uses fs u + operand_uses fo u \<le> 1" "instrs_defs cs u \<le> 1" "instrs_defs ts u \<le> 1" "instrs_defs fs u \<le> 1"
    using uses defs by linarith+
  note c = section_count(3) [OF "1.prems"(1,2) u(1,4), of g locs] section_count(3) [OF "1.prems"(1,2) u(2,5), of g locs]
    section_count(3) [OF "1.prems"(1,2) u(3,6), of g locs]
  have t: "t \<noteq> u" using o c defs by (auto split: if_splits)
  have either: "0 < omitted g locs cs (operand_temp co) u \<or> instrs_uses cs u + operand_uses co u = 0 \<and> instrs_defs cs u = 0"
    "0 < omitted g locs ts (operand_temp to) u \<or> instrs_uses ts u + operand_uses to u = 0 \<and> instrs_defs ts u = 0"
    "0 < omitted g locs fs (operand_temp fo) u \<or> instrs_uses fs u + operand_uses fo u = 0 \<and> instrs_defs fs u = 0"
    using o c uses defs by linarith+
  have n: "narrow_op co" "narrow_op to" "narrow_op fo" "list_all narrow_instr cs" "list_all narrow_instr ts"
    "list_all narrow_instr fs"
    using "1.prems"(6) by (simp_all add: i)
  note s = section_either [OF "1.prems"(1,2) u(1,4) n(1) either(1) "1.IH"(1) [OF i "1.prems"(1,2) _ _ n(4)]]
    section_either [OF "1.prems"(1,2) u(2,5) n(2) either(2) "1.IH"(2) [OF i "1.prems"(1,2) _ _ n(5)]]
    section_either [OF "1.prems"(1,2) u(3,6) n(3) either(3) "1.IH"(3) [OF i "1.prems"(1,2) _ _ n(6)]]
  show ?case by (simp add: i s same_store [OF "1.prems"(1) t])
next
  case (3 g locs i "is" f u)
  let ?M = "move_slot u k locs" and ?p = "pending g locs (- 1) (i # is) f"
  note u = "3.prems"(1,2)
  have n: "- 1 \<noteq> u" using u(1) by linarith
  have all: "instrs_uses (i # is) u + (if ?p = u then 1 else 0) \<le> 1" "instrs_defs (i # is) u \<le> 1"
    using "3.prems"(4) by (simp_all only: one_use_def)
  have "instrs_uses (i # is) u + (if ?p = u then 1 else 0) =
      looses g locs (- 1) (i # is) f u + omitted g locs (i # is) f u"
    using count_instr(2) [OF u, of "- 1" "i # is" g locs f] n by simp
  with all(1) "3.prems"(3) have one: "omitted g locs (i # is) f u = 1" by linarith
  show ?case
  proof (cases "omit_of g locs f i is = u")
    case True
    then have o: "omitted g locs is f u = 0" using one by simp
    have p: "?p = u \<longleftrightarrow> is = []" using pending_omitted [of g locs u "is" f u] o u(1) True by (cases "is = []") auto
    then have "is = [] \<longrightarrow> instr_uses i u = 0" using all(1) by auto
    from omitting_head [OF u True _ all(2) this] all(1) p show ?thesis by auto
  next
    case False
    have c: "instr_uses i u = loose g locs (- 1) i u + omits g locs i u"
      using count_instr(1) [OF u, of "- 1" g i locs] n by simp
    have rest: "instrs_uses is u + (if pending g locs (omit_of g locs f i is) is f = u then 1 else 0) =
        looses g locs (omit_of g locs f i is) is f u + omitted g locs is f u"
      using count_instr(2) [OF u, of "omit_of g locs f i is" "is" g locs f] False by simp
    have emit: "emit_instrs g fn L n (i # is) f = act_seq (with_res (choose_omit g L f i is) set_omit)
        (act_seq (emit_instr g fn L n i) (act_seq (set_omit (- 1)) (emit_instrs g fn L n is f)))" for L
      by simp
    have "0 < omits g locs i u \<or> 0 < omitted g locs is f u" using one False by auto
    then show ?thesis
    proof
      assume o: "0 < omits g locs i u"
      with c all have zero: "instr_uses i u \<le> 1" "instrs_uses is u = 0" "?p \<noteq> u" by (auto split: if_splits)
      have d: "instr_defs i u \<le> 1" "instrs_defs is u = 0"
        using omitted_defs(1) [OF u(1) o] all(2) by simp_all
      have "emit_instr g fn ?M n i = emit_instr g fn locs n i"
        by (rule "3.IH"(1) [OF u o zero(1) d(1)]) (use "3.prems"(5) in simp)
      then show ?thesis
        unfolding emit using zero(3) same_instr(2) [OF u(1) zero(2) d(2)] same_choose [OF u(1)] by simp
    next
      assume o: "0 < omitted g locs is f u"
      then have "is \<noteq> []" by auto
      note p = pending_start [OF this, of g locs "omit_of g locs f i is" f "- 1"]
      have d: "0 < instrs_defs is u" by (rule omitted_defs(2) [OF u(1) o])
      have zero: "instr_uses i u = 0" "instr_defs i u = 0" "one_use g locs is f u"
        using o rest all d p by (auto simp: one_use_def split: if_splits)
      from "3.IH"(2) [OF u o zero(3)] "3.prems"(5)
      have ih: "emit_instrs g fn ?M n is f = emit_instrs g fn locs n is f"
        "pending g locs (- 1) is f = u \<longrightarrow> leaves locs u (emit_instrs g fn locs n is f)" by simp_all
      show ?thesis
        unfolding emit using ih p same_instr(1) [OF u(1) zero(1,2)] same_choose [OF u(1)]
        by (auto intro!: leaves_act_seq)
    qed
  qed
qed simp

section \<open>Blocks and functions\<close>

lemma block_same:
  assumes "0 \<le> u" "int_ok u" "instrs_uses (block_instrs b) u + term_uses (block_term b) u \<le> 1"
    and "instrs_defs (block_instrs b) u \<le> 1" "list_all narrow_instr (block_instrs b)" "narrow_term (block_term b)"
    and "0 < block_omitted g locs b u \<or>
      instrs_uses (block_instrs b) u + term_uses (block_term b) u = 0 \<and> instrs_defs (block_instrs b) u = 0"
  shows "emit_block g fn (move_slot u k locs) n next_id b = emit_block g fn locs n next_id b"
proof (cases "0 < block_omitted g locs b u")
  case True
  let ?is = "block_instrs b" and ?f = "block_first_term_temp g b"
  have o: "0 < omitted g locs ?is ?f u" using True by (simp add: block_omitted_def)
  then have "?is \<noteq> []" by auto
  then have fin: "pending g locs (- 1) ?is ?f = u \<Longrightarrow> ?f = u \<and> 0 < term_uses (block_term b) u"
    using pending_final [OF _ assms(1)] term_temp_uses [OF _ assms(1,2)] by blast
  have n: "- 1 \<noteq> u" using assms(1) by linarith
  have c: "instrs_uses ?is u + (if pending g locs (- 1) ?is ?f = u then 1 else 0) =
      looses g locs (- 1) ?is ?f u + omitted g locs ?is ?f u"
    using count_instr(2) [OF assms(1,2), of "- 1" ?is g locs ?f] n by simp
  have "one_use g locs ?is ?f u" using assms(3,4) fin by (auto simp: one_use_def)
  from elided_same(2) [OF assms(1,2) o this assms(5)]
  have list: "emit_instrs g fn (move_slot u k locs) n ?is ?f = emit_instrs g fn locs n ?is ?f"
    "pending g locs (- 1) ?is ?f = u \<Longrightarrow> leaves locs u (emit_instrs g fn locs n ?is ?f)" by blast+
  have "act_seq (emit_instrs g fn locs n ?is ?f) (emit_terminator g fn next_id (move_slot u k locs) n (block_term b)) =
      act_seq (emit_instrs g fn locs n ?is ?f) (emit_terminator g fn next_id locs n (block_term b))"
  proof (cases "pending g locs (- 1) ?is ?f = u")
    case True
    with fin assms(3) have "?f = u" "term_uses (block_term b) u = 1" by simp_all
    with terminator_held [OF assms(1,2) _ _ assms(6)] show ?thesis
      by (intro then_same [OF list(2) [OF True]]) blast
  next
    case False
    with c o assms(3) have "term_uses (block_term b) u = 0" by simp
    then show ?thesis by (simp add: same_terminator [OF assms(1)])
  qed
  then show ?thesis by (simp add: emit_block_def list(1))
next
  case False
  with assms(7) show ?thesis
    by (simp add: emit_block_def same_instr [OF assms(1)] same_terminator [OF assms(1)])
qed

lemma blocks_same:
  "(\<And>b next_id. b \<in> set bs \<Longrightarrow> emit_block g fn M n next_id b = emit_block g fn locs n next_id b) \<Longrightarrow>
   emit_blocks g fn M n bs = emit_blocks g fn locs n bs"
  by (induction bs) simp_all

text \<open>A sum of naturals that is one has one part that is one.\<close>

lemma sum_list_one:
  fixes h :: "'a \<Rightarrow> nat"
  assumes "(\<Sum>b \<leftarrow> bs. h b) = 1" "d \<in> set bs" "0 < h d" "b \<in> set bs"
  shows "h b \<le> 1" "b \<noteq> d \<Longrightarrow> h b = 0"
proof -
  show "h b \<le> 1" using member_le_sum_list [of "h b" "map h bs"] assms(1,4) by simp
  obtain xs ys where bs: "bs = xs @ d # ys" using assms(2) by (auto simp: in_set_conv_decomp)
  then have "(\<Sum>b \<leftarrow> xs. h b) + (h d + (\<Sum>b \<leftarrow> ys. h b)) = 1" using assms(1) by simp
  with assms(3) have "(\<Sum>b \<leftarrow> xs. h b) = 0" "(\<Sum>b \<leftarrow> ys. h b) = 0" by linarith+
  then show "h b = 0" if "b \<noteq> d" using that assms(4) bs by auto
qed

text \<open>
  C2. Take a function whose allocation succeeds, and a temporary it sets once whose store \<^verbatim>\<open>emit_instrs\<close>
  leaves out. The temporary has one use, and no code reads the slot that was never written: on every
  target, the text of the function is the same wherever in the frame that slot is put.
\<close>

theorem omitted_store_not_read:
  assumes "allocate_function (target_arch g) fn = Inr (locs, frame)" "typed_function fn" "narrow_function fn"
    and "u \<in> elided_temps g locs (fn_blocks fn)" "function_defs fn u = 1"
  shows "function_uses fn u = 1 \<and>
    emit_blocks g (fn_name fn) (move_slot u k locs) frame (fn_blocks fn) =
    emit_blocks g (fn_name fn) locs frame (fn_blocks fn)"
proof
  note e = elided_counts [OF assms(1,2,4)]
  show uses: "function_uses fn u = 1" by (rule e(3))
  obtain d where d: "d \<in> set (fn_blocks fn)" "0 < block_omitted g locs d u"
    using assms(4) by (auto simp: elided_temps_def)
  let ?uses = "\<lambda>b. instrs_uses (block_instrs b) u + term_uses (block_term b) u"
  have "0 < ?uses d" using count_block [OF e(2,1), of d g locs] d(2) by simp
  note use = sum_list_one [OF uses [unfolded function_uses_def] d(1) this]
  have "0 < instrs_defs (block_instrs d) u"
    using omitted_defs(2) [OF e(2)] d(2) by (simp add: block_omitted_def)
  note def = sum_list_one [OF assms(5) [unfolded function_defs_def] d(1) this]
  show "emit_blocks g (fn_name fn) (move_slot u k locs) frame (fn_blocks fn) =
    emit_blocks g (fn_name fn) locs frame (fn_blocks fn)"
  proof (rule blocks_same)
    fix b next_id assume b: "b \<in> set (fn_blocks fn)"
    then have "list_all narrow_instr (block_instrs b)" "narrow_term (block_term b)"
      using assms(3) by (simp_all add: narrow_function_def)
    moreover have "0 < block_omitted g locs b u \<or> ?uses b = 0 \<and> instrs_defs (block_instrs b) u = 0"
      using d(2) use(2) [OF b] def(2) [OF b] by (cases "b = d") simp_all
    ultimately show "emit_block g (fn_name fn) (move_slot u k locs) frame next_id b =
        emit_block g (fn_name fn) locs frame next_id b"
      by (intro block_same [OF e(2,1) use(1) [OF b] def(1) [OF b]])
  qed
qed

definition omit_sample :: Function where
  "omit_sample = \<lparr>fn_name = ''f'', fn_blocks =
     [\<lparr>block_id = 0, block_instrs = [IK_PARAM 0 0, IK_BIN 1 BK_ADD (OP_TEMP 0) (OP_IMM 1)],
       block_term = TK_RET (OP_TEMP 1)\<rparr>]\<rparr>"

theorem omitted_store_not_read_witness:
  "\<exists>locs. allocate_function TARGET_RISCV64 omit_sample = Inr (locs, 2) \<and>
     emit_blocks \<lparr>target_arch = TARGET_RISCV64, label_namespace = ''o''\<rparr> ''f'' (move_slot 1 77 locs) 2 (fn_blocks omit_sample) =
     emit_blocks \<lparr>target_arch = TARGET_RISCV64, label_namespace = ''o''\<rparr> ''f'' locs 2 (fn_blocks omit_sample)"
proof -
  let ?g = "\<lparr>target_arch = TARGET_RISCV64, label_namespace = ''o''\<rparr>"
  have "case allocate_function TARGET_RISCV64 omit_sample of
      Inl e \<Rightarrow> False
    | Inr (locs, frame) \<Rightarrow> frame = 2 \<and> 0 < block_omitted ?g locs (hd (fn_blocks omit_sample)) 1"
    by code_simp
  then obtain locs where l: "allocate_function TARGET_RISCV64 omit_sample = Inr (locs, 2)"
    "0 < block_omitted ?g locs (hd (fn_blocks omit_sample)) 1"
    by (auto split: sum.splits)
  have a: "allocate_function (target_arch ?g) omit_sample = Inr (locs, 2)" using l(1) by simp
  have t: "typed_function omit_sample" "narrow_function omit_sample" by code_simp+
  have d: "function_defs omit_sample 1 = 1" "fn_name omit_sample = ''f''" by code_simp+
  have "1 \<in> elided_temps ?g locs (fn_blocks omit_sample)"
    using l(2) by (simp add: elided_temps_def omit_sample_def)
  from conjunct2 [OF omitted_store_not_read [OF a t this d(1)], of 77] l(1) d(2) show ?thesis by auto
qed

end
