(* ===== verification/RV64.thy ===== *)
theory RV64
  imports RiscV64 Machine
begin

text \<open>
  The RISC-V code the emitter uses, run on the integer registers. M1 builds an instruction from
  the words before and including its mnemonic: it joins the masks (the definitions that start
  with a dot) with the bits of the mnemonic; \<^verbatim>\<open>!n\<close> gives the immediate. The joined word is then
  decoded as RV64IM decodes it, so that a wrong mask in the header makes the theorems fail.
\<close>

section \<open>The definitions\<close>

definition rv64_header :: string where
  "rv64_header = text_lines [''## hcc M1 output''] @ riscv64_emit_header"

definition rv64_header_defines :: "(string \<times> string) list" where
  "rv64_header_defines =
    [(''addi'', ''13000000''),
     (''auipc'', ''17000000''),
     (''jal'', ''6F000000''),
     (''jalr'', ''67000000''),
     (''beq'', ''63000000''),
     (''bne'', ''63100000''),
     (''blt'', ''63400000''),
     (''bge'', ''63500000''),
     (''bltu'', ''63600000''),
     (''bgeu'', ''63700000''),
     (''lb'', ''03000000''),
     (''lh'', ''03100000''),
     (''lw'', ''03200000''),
     (''lbu'', ''03400000''),
     (''lhu'', ''03500000''),
     (''lwu'', ''03600000''),
     (''ld'', ''03300000''),
     (''sb'', ''23000000''),
     (''sh'', ''23100000''),
     (''sw'', ''23200000''),
     (''sd'', ''23300000''),
     (''sltiu'', ''13300000''),
     (''xori'', ''13400000''),
     (''add'', ''33000000''),
     (''sub'', ''33000040''),
     (''sll'', ''33100000''),
     (''slt'', ''33200000''),
     (''sltu'', ''33300000''),
     (''xor'', ''33400000''),
     (''srl'', ''33500000''),
     (''sra'', ''33500040''),
     (''or'', ''33600000''),
     (''and'', ''33700000''),
     (''mul'', ''33000002''),
     (''div'', ''33400002''),
     (''rem'', ''33600002''),
     (''ecall'', ''73000000''),
     (''mv'', ''13000000''),
     (''beqz'', ''63000000''),
     (''bnez'', ''63100000''),
     (''ret'', ''67800000''),
     (''rd_x0'', ''.00000000''),
     (''rd_ra'', ''.80000000''),
     (''rd_sp'', ''.00010000''),
     (''rd_t0'', ''.80020000''),
     (''rd_t1'', ''.00030000''),
     (''rd_t2'', ''.80030000''),
     (''rd_a0'', ''.00050000''),
     (''rd_a1'', ''.80050000''),
     (''rd_a2'', ''.00060000''),
     (''rd_a3'', ''.80060000''),
     (''rd_a4'', ''.00070000''),
     (''rd_a5'', ''.80070000''),
     (''rd_a6'', ''.00080000''),
     (''rd_a7'', ''.80080000''),
     (''rs1_x0'', ''.00000000''),
     (''rs1_ra'', ''.00800000''),
     (''rs1_sp'', ''.00000100''),
     (''rs1_t0'', ''.00800200''),
     (''rs1_t1'', ''.00000300''),
     (''rs1_t2'', ''.00800300''),
     (''rs1_a0'', ''.00000500''),
     (''rs1_a1'', ''.00800500''),
     (''rs1_a2'', ''.00000600''),
     (''rs1_a3'', ''.00800600''),
     (''rs1_a4'', ''.00000700''),
     (''rs1_a5'', ''.00800700''),
     (''rs1_a6'', ''.00000800''),
     (''rs1_a7'', ''.00800800''),
     (''rs2_x0'', ''.00000000''),
     (''rs2_ra'', ''.00001000''),
     (''rs2_sp'', ''.00002000''),
     (''rs2_t0'', ''.00005000''),
     (''rs2_t1'', ''.00006000''),
     (''rs2_t2'', ''.00007000''),
     (''rs2_a0'', ''.0000A000''),
     (''rs2_a1'', ''.0000B000''),
     (''rs2_a2'', ''.0000C000''),
     (''rs2_a3'', ''.0000D000''),
     (''rs2_a4'', ''.0000E000''),
     (''rs2_a5'', ''.0000F000''),
     (''rs2_a6'', ''.00000001''),
     (''rs2_a7'', ''.00001001'')]"

text \<open>The unsigned division mnemonics are not in the header; \<^verbatim>\<open>riscv64-start.M1\<close> defines them.\<close>

definition riscv64_start_defines :: "(string \<times> string) list" where
  "riscv64_start_defines = [(''divu'', ''33500002''), (''remu'', ''33700002'')]"

lemma lines_ok_rv64: "lines_ok (''## hcc M1 output'' # riscv64_emit_header_lines)"
  by (simp add: lines_ok_def riscv64_emit_header_lines_def newline_def)

lemma line_defines_rv64:
  "concat (map line_define (''## hcc M1 output'' # riscv64_emit_header_lines)) = rv64_header_defines"
  unfolding riscv64_emit_header_lines_def rv64_header_defines_def
  by (simp add: line_define_def m1_words_def newline_def)

lemma header_defines_rv64: "header_defines rv64_header = rv64_header_defines"
proof -
  have "rv64_header = text_lines (''## hcc M1 output'' # riscv64_emit_header_lines)"
    by (simp add: rv64_header_def riscv64_emit_header_def text_lines_def)
  then show ?thesis
    using header_defines_text [OF lines_ok_rv64] line_defines_rv64 by simp
qed

definition rv64_hex :: "string \<Rightarrow> string option" where
  "rv64_hex = map_of (riscv64_start_defines @ header_defines rv64_header)"

section \<open>Words, instructions, registers\<close>

type_synonym rv64_regs = "int \<Rightarrow> 64 word"

definition rv_get :: "rv64_regs \<Rightarrow> int \<Rightarrow> 64 word" where
  "rv_get r k = (if k = 0 then 0 else r k)"

definition rv_set :: "rv64_regs \<Rightarrow> int \<Rightarrow> 64 word \<Rightarrow> rv64_regs" where
  "rv_set r k v = (if k = 0 then r else r(k := v))"

definition rv_div :: "64 word \<Rightarrow> 64 word \<Rightarrow> 64 word" where
  "rv_div a b = (if b = 0 then -1 else word_of_int (sint a sdiv sint b))"

definition rv_rem :: "64 word \<Rightarrow> 64 word \<Rightarrow> 64 word" where
  "rv_rem a b = (if b = 0 then a else word_of_int (sint a smod sint b))"

definition rv_op :: "int \<Rightarrow> int \<Rightarrow> 64 word \<Rightarrow> 64 word \<Rightarrow> 64 word option" where
  "rv_op funct7 funct3 a b =
     (if funct7 = 0 then
        (if funct3 = 0 then Some (a + b)
         else if funct3 = 1 then Some (push_bit (shift_count b) a)
         else if funct3 = 2 then Some (bool_word (sint a < sint b))
         else if funct3 = 3 then Some (bool_word (uint a < uint b))
         else if funct3 = 4 then Some (a XOR b)
         else if funct3 = 5 then Some (drop_bit (shift_count b) a)
         else if funct3 = 6 then Some (a OR b)
         else Some (a AND b))
      else if funct7 = 32 then
        (if funct3 = 0 then Some (a - b)
         else if funct3 = 5 then Some (signed_drop_bit (shift_count b) a)
         else None)
      else if funct7 = 1 then
        (if funct3 = 0 then Some (a * b)
         else if funct3 = 4 then Some (rv_div a b)
         else if funct3 = 5 then Some (if b = 0 then -1 else a div b)
         else if funct3 = 6 then Some (rv_rem a b)
         else if funct3 = 7 then Some (if b = 0 then a else a mod b)
         else None)
      else None)"

definition rv_op_imm :: "int \<Rightarrow> 64 word \<Rightarrow> 64 word \<Rightarrow> 64 word option" where
  "rv_op_imm funct3 a i =
     (if funct3 = 0 then Some (a + i)
      else if funct3 = 3 then Some (bool_word (uint a < uint i))
      else if funct3 = 4 then Some (a XOR i)
      else None)"

text \<open>One instruction: the joined word and the immediate.\<close>

definition rv_step :: "int \<Rightarrow> int \<Rightarrow> rv64_regs \<Rightarrow> rv64_regs option" where
  "rv_step w imm r =
     (let opcode = w mod 128; rd = w div 128 mod 32; funct3 = w div 4096 mod 8;
          rs1 = w div 32768 mod 32; rs2 = w div 1048576 mod 32; funct7 = w div 33554432 in
      if opcode = 51 \<and> imm = 0 then
        map_option (rv_set r rd) (rv_op funct7 funct3 (rv_get r rs1) (rv_get r rs2))
      else if opcode = 19 \<and> rs2 = 0 \<and> funct7 = 0 \<and> -2048 \<le> imm \<and> imm \<le> 2047 then
        map_option (rv_set r rd) (rv_op_imm funct3 (rv_get r rs1) (word_of_int imm))
      else None)"

fun hex_le :: "string \<Rightarrow> int" where
  "hex_le (h # l # rest) =
     (case (hex_value h, hex_value l) of
        (Some x, Some y) \<Rightarrow> 16 * x + y + 256 * hex_le rest | _ \<Rightarrow> 0)"
| "hex_le _ = 0"

definition rv_immediate :: "string \<Rightarrow> int option" where
  "rv_immediate w =
     (if w \<noteq> [] \<and> hd w = CHR ''!'' then
        (case parse_long_text (tl w) of Inr n \<Rightarrow> Some n | Inl e \<Rightarrow> None)
      else None)"

text \<open>A word is a mask (it starts with a dot) or a mnemonic, with its bits.\<close>

definition rv_word :: "string \<Rightarrow> (bool \<times> int) option" where
  "rv_word w =
     (case rv64_hex w of
        None \<Rightarrow> None
      | Some h \<Rightarrow>
          if h \<noteq> [] \<and> hd h = CHR ''.'' then Some (True, hex_le (tl h)) else Some (False, hex_le h))"

fun rv_run :: "string list \<Rightarrow> int \<Rightarrow> int \<Rightarrow> rv64_regs \<Rightarrow> rv64_regs option" where
  "rv_run [] acc imm r = (if acc = 0 \<and> imm = 0 then Some r else None)"
| "rv_run (w # ws) acc imm r =
     (case rv_immediate w of
        Some n \<Rightarrow> rv_run ws acc n r
      | None \<Rightarrow>
          (case rv_word w of
             None \<Rightarrow> None
           | Some (is_mask, bits) \<Rightarrow>
               if is_mask then rv_run ws (acc OR bits) imm r
               else Option.bind (rv_step (acc OR bits) imm r) (rv_run ws 0 0)))"

definition rv64_exec :: "string \<Rightarrow> rv64_regs \<Rightarrow> rv64_regs option" where
  "rv64_exec text = rv_run (m1_words text) 0 0"

named_theorems rv_simps \<open>running RISC-V words\<close>

lemma rv64_hex_map_of: "rv64_hex w = map_of (riscv64_start_defines @ rv64_header_defines) w"
  by (simp add: rv64_hex_def header_defines_rv64)

lemma rv64_hex_words1:
  "map_of (riscv64_start_defines @ rv64_header_defines) ''rd_a0'' = Some ''.00050000''"
  "map_of (riscv64_start_defines @ rv64_header_defines) ''rs1_a1'' = Some ''.00800500''"
  "map_of (riscv64_start_defines @ rv64_header_defines) ''rs2_a0'' = Some ''.0000A000''"
  "map_of (riscv64_start_defines @ rv64_header_defines) ''add'' = Some ''33000000''"
  "map_of (riscv64_start_defines @ rv64_header_defines) ''sub'' = Some ''33000040''"
  "map_of (riscv64_start_defines @ rv64_header_defines) ''mul'' = Some ''33000002''"
  "map_of (riscv64_start_defines @ rv64_header_defines) ''div'' = Some ''33400002''"
  "map_of (riscv64_start_defines @ rv64_header_defines) ''rem'' = Some ''33600002''"
  "map_of (riscv64_start_defines @ rv64_header_defines) ''divu'' = Some ''33500002''"
  "map_of (riscv64_start_defines @ rv64_header_defines) ''remu'' = Some ''33700002''"
  "map_of (riscv64_start_defines @ rv64_header_defines) ''sll'' = Some ''33100000''"
  "map_of (riscv64_start_defines @ rv64_header_defines) ''srl'' = Some ''33500000''"
  "map_of (riscv64_start_defines @ rv64_header_defines) ''sra'' = Some ''33500040''"
  "map_of (riscv64_start_defines @ rv64_header_defines) ''xor'' = Some ''33400000''"
  "map_of (riscv64_start_defines @ rv64_header_defines) ''rs1_a0'' = Some ''.00000500''"
  "map_of (riscv64_start_defines @ rv64_header_defines) ''sltiu'' = Some ''13300000''"
  "map_of (riscv64_start_defines @ rv64_header_defines) ''rs1_x0'' = Some ''.00000000''"
  "map_of (riscv64_start_defines @ rv64_header_defines) ''sltu'' = Some ''33300000''"
  "map_of (riscv64_start_defines @ rv64_header_defines) ''slt'' = Some ''33200000''"
  "map_of (riscv64_start_defines @ rv64_header_defines) ''rs2_a1'' = Some ''.0000B000''"
  "map_of (riscv64_start_defines @ rv64_header_defines) ''xori'' = Some ''13400000''"
  "map_of (riscv64_start_defines @ rv64_header_defines) ''and'' = Some ''33700000''"
  "map_of (riscv64_start_defines @ rv64_header_defines) ''or'' = Some ''33600000''"
  "map_of (riscv64_start_defines @ rv64_header_defines) ''addi'' = Some ''13000000''"
  "map_of (riscv64_start_defines @ rv64_header_defines) ''mv'' = Some ''13000000''"
  by code_simp+

lemma rv64_hex_words2:
  "map_of (riscv64_start_defines @ rv64_header_defines) ''rd_x0'' = Some ''.00000000''"
  "map_of (riscv64_start_defines @ rv64_header_defines) ''rd_ra'' = Some ''.80000000''"
  "map_of (riscv64_start_defines @ rv64_header_defines) ''rd_sp'' = Some ''.00010000''"
  "map_of (riscv64_start_defines @ rv64_header_defines) ''rd_t0'' = Some ''.80020000''"
  "map_of (riscv64_start_defines @ rv64_header_defines) ''rd_t1'' = Some ''.00030000''"
  "map_of (riscv64_start_defines @ rv64_header_defines) ''rd_t2'' = Some ''.80030000''"
  "map_of (riscv64_start_defines @ rv64_header_defines) ''rd_a1'' = Some ''.80050000''"
  "map_of (riscv64_start_defines @ rv64_header_defines) ''rd_a2'' = Some ''.00060000''"
  "map_of (riscv64_start_defines @ rv64_header_defines) ''rd_a3'' = Some ''.80060000''"
  "map_of (riscv64_start_defines @ rv64_header_defines) ''rd_a4'' = Some ''.00070000''"
  "map_of (riscv64_start_defines @ rv64_header_defines) ''rd_a5'' = Some ''.80070000''"
  "map_of (riscv64_start_defines @ rv64_header_defines) ''rd_a6'' = Some ''.00080000''"
  "map_of (riscv64_start_defines @ rv64_header_defines) ''rd_a7'' = Some ''.80080000''"
  "map_of (riscv64_start_defines @ rv64_header_defines) ''rs1_ra'' = Some ''.00800000''"
  "map_of (riscv64_start_defines @ rv64_header_defines) ''rs1_sp'' = Some ''.00000100''"
  "map_of (riscv64_start_defines @ rv64_header_defines) ''rs1_t0'' = Some ''.00800200''"
  "map_of (riscv64_start_defines @ rv64_header_defines) ''rs1_t1'' = Some ''.00000300''"
  "map_of (riscv64_start_defines @ rv64_header_defines) ''rs1_t2'' = Some ''.00800300''"
  "map_of (riscv64_start_defines @ rv64_header_defines) ''rs1_a2'' = Some ''.00000600''"
  "map_of (riscv64_start_defines @ rv64_header_defines) ''rs1_a3'' = Some ''.00800600''"
  "map_of (riscv64_start_defines @ rv64_header_defines) ''rs1_a4'' = Some ''.00000700''"
  "map_of (riscv64_start_defines @ rv64_header_defines) ''rs1_a5'' = Some ''.00800700''"
  "map_of (riscv64_start_defines @ rv64_header_defines) ''rs1_a6'' = Some ''.00000800''"
  "map_of (riscv64_start_defines @ rv64_header_defines) ''rs1_a7'' = Some ''.00800800''"
  by code_simp+

lemma rv_words [rv_simps]:
  "rv_word ''rd_a0'' = Some (True, 1280)"
  "rv_word ''rs1_a1'' = Some (True, 360448)"
  "rv_word ''rs2_a0'' = Some (True, 10485760)"
  "rv_word ''add'' = Some (False, 51)"
  "rv_word ''sub'' = Some (False, 1073741875)"
  "rv_word ''mul'' = Some (False, 33554483)"
  "rv_word ''div'' = Some (False, 33570867)"
  "rv_word ''rem'' = Some (False, 33579059)"
  "rv_word ''divu'' = Some (False, 33574963)"
  "rv_word ''remu'' = Some (False, 33583155)"
  "rv_word ''sll'' = Some (False, 4147)"
  "rv_word ''srl'' = Some (False, 20531)"
  "rv_word ''sra'' = Some (False, 1073762355)"
  "rv_word ''xor'' = Some (False, 16435)"
  "rv_word ''rs1_a0'' = Some (True, 327680)"
  "rv_word ''sltiu'' = Some (False, 12307)"
  "rv_word ''rs1_x0'' = Some (True, 0)"
  "rv_word ''sltu'' = Some (False, 12339)"
  "rv_word ''slt'' = Some (False, 8243)"
  "rv_word ''rs2_a1'' = Some (True, 11534336)"
  "rv_word ''xori'' = Some (False, 16403)"
  "rv_word ''and'' = Some (False, 28723)"
  "rv_word ''or'' = Some (False, 24627)"
  "rv_word ''addi'' = Some (False, 19)"
  "rv_word ''mv'' = Some (False, 19)"
  "rv_word ''rd_x0'' = Some (True, 0)"
  "rv_word ''rd_ra'' = Some (True, 128)"
  "rv_word ''rd_sp'' = Some (True, 256)"
  "rv_word ''rd_t0'' = Some (True, 640)"
  "rv_word ''rd_t1'' = Some (True, 768)"
  "rv_word ''rd_t2'' = Some (True, 896)"
  "rv_word ''rd_a1'' = Some (True, 1408)"
  "rv_word ''rd_a2'' = Some (True, 1536)"
  "rv_word ''rd_a3'' = Some (True, 1664)"
  "rv_word ''rd_a4'' = Some (True, 1792)"
  "rv_word ''rd_a5'' = Some (True, 1920)"
  "rv_word ''rd_a6'' = Some (True, 2048)"
  "rv_word ''rd_a7'' = Some (True, 2176)"
  "rv_word ''rs1_ra'' = Some (True, 32768)"
  "rv_word ''rs1_sp'' = Some (True, 65536)"
  "rv_word ''rs1_t0'' = Some (True, 163840)"
  "rv_word ''rs1_t1'' = Some (True, 196608)"
  "rv_word ''rs1_t2'' = Some (True, 229376)"
  "rv_word ''rs1_a2'' = Some (True, 393216)"
  "rv_word ''rs1_a3'' = Some (True, 425984)"
  "rv_word ''rs1_a4'' = Some (True, 458752)"
  "rv_word ''rs1_a5'' = Some (True, 491520)"
  "rv_word ''rs1_a6'' = Some (True, 524288)"
  "rv_word ''rs1_a7'' = Some (True, 557056)"
  by (simp_all add: rv_word_def rv64_hex_words1 [folded rv64_hex_map_of]
      rv64_hex_words2 [folded rv64_hex_map_of] hex_value_def is_digit_def)

definition rv_binop_text :: "int \<Rightarrow> string" where
  "rv_binop_text op = (case riscv64_emit_binop op of Inr t \<Rightarrow> t | Inl e \<Rightarrow> [])"

lemma binop_words_rv64 [rv_simps]:
  "m1_words (rv_binop_text BK_ADD) = [''rd_a0'', ''rs1_a1'', ''rs2_a0'', ''add'']"
  "m1_words (rv_binop_text BK_SUB) = [''rd_a0'', ''rs1_a1'', ''rs2_a0'', ''sub'']"
  "m1_words (rv_binop_text BK_MUL) = [''rd_a0'', ''rs1_a1'', ''rs2_a0'', ''mul'']"
  "m1_words (rv_binop_text BK_DIV) = [''rd_a0'', ''rs1_a1'', ''rs2_a0'', ''div'']"
  "m1_words (rv_binop_text BK_MOD) = [''rd_a0'', ''rs1_a1'', ''rs2_a0'', ''rem'']"
  "m1_words (rv_binop_text BK_UDIV) = [''rd_a0'', ''rs1_a1'', ''rs2_a0'', ''divu'']"
  "m1_words (rv_binop_text BK_UMOD) = [''rd_a0'', ''rs1_a1'', ''rs2_a0'', ''remu'']"
  "m1_words (rv_binop_text BK_SHL) = [''rd_a0'', ''rs1_a1'', ''rs2_a0'', ''sll'']"
  "m1_words (rv_binop_text BK_SHR) = [''rd_a0'', ''rs1_a1'', ''rs2_a0'', ''srl'']"
  "m1_words (rv_binop_text BK_SAR) = [''rd_a0'', ''rs1_a1'', ''rs2_a0'', ''sra'']"
  "m1_words (rv_binop_text BK_EQ) = [''rd_a0'', ''rs1_a1'', ''rs2_a0'', ''xor'', ''rd_a0'', ''rs1_a0'', ''!1'', ''sltiu'']"
  "m1_words (rv_binop_text BK_NE) = [''rd_a0'', ''rs1_a1'', ''rs2_a0'', ''xor'', ''rd_a0'', ''rs1_x0'', ''rs2_a0'', ''sltu'']"
  "m1_words (rv_binop_text BK_LT) = [''rd_a0'', ''rs1_a1'', ''rs2_a0'', ''slt'']"
  "m1_words (rv_binop_text BK_LE) = [''rd_a0'', ''rs1_a0'', ''rs2_a1'', ''slt'', ''rd_a0'', ''rs1_a0'', ''!1'', ''xori'']"
  "m1_words (rv_binop_text BK_GT) = [''rd_a0'', ''rs1_a0'', ''rs2_a1'', ''slt'']"
  "m1_words (rv_binop_text BK_GE) = [''rd_a0'', ''rs1_a1'', ''rs2_a0'', ''slt'', ''rd_a0'', ''rs1_a0'', ''!1'', ''xori'']"
  "m1_words (rv_binop_text BK_ULT) = [''rd_a0'', ''rs1_a1'', ''rs2_a0'', ''sltu'']"
  "m1_words (rv_binop_text BK_ULE) = [''rd_a0'', ''rs1_a0'', ''rs2_a1'', ''sltu'', ''rd_a0'', ''rs1_a0'', ''!1'', ''xori'']"
  "m1_words (rv_binop_text BK_UGT) = [''rd_a0'', ''rs1_a0'', ''rs2_a1'', ''sltu'']"
  "m1_words (rv_binop_text BK_UGE) = [''rd_a0'', ''rs1_a1'', ''rs2_a0'', ''sltu'', ''rd_a0'', ''rs1_a0'', ''!1'', ''xori'']"
  "m1_words (rv_binop_text BK_AND) = [''rd_a0'', ''rs1_a1'', ''rs2_a0'', ''and'']"
  "m1_words (rv_binop_text BK_OR) = [''rd_a0'', ''rs1_a1'', ''rs2_a0'', ''or'']"
  "m1_words (rv_binop_text BK_XOR) = [''rd_a0'', ''rs1_a1'', ''rs2_a0'', ''xor'']"
  by (simp_all add: rv_binop_text_def riscv64_emit_binop_def m1_words_def newline_def)

lemma rv_immediate_None [rv_simps]: "w = [] \<or> hd w \<noteq> CHR ''!'' \<Longrightarrow> rv_immediate w = None"
  by (auto simp: rv_immediate_def)

lemma rv_immediate_one [rv_simps]: "rv_immediate ''!1'' = Some 1"
  by code_simp

lemma div_ok_rv:
  "div_ok a b \<Longrightarrow> rv_div a b = word_of_int (sint a sdiv sint b)"
  "div_ok a b \<Longrightarrow> rv_rem a b = word_of_int (sint a smod sint b)"
  by (simp_all add: rv_div_def rv_rem_def div_ok_def)

lemma xor_eq_zero: "(a XOR b = 0) = (a = (b :: 64 word))"
proof
  assume "a XOR b = 0"
  then have "(a XOR b) XOR b = b" by simp
  then show "a = b" by (simp add: xor.assoc)
qed simp

lemma less_one_word: "uint (a :: 64 word) < 1 \<longleftrightarrow> a = 0"
proof -
  have "uint a < 1 \<longleftrightarrow> uint a = 0" using uint_ge_0 [of a] by linarith
  then show ?thesis by (simp add: uint_0_iff)
qed

lemma zero_less_word: "0 < uint (a :: 64 word) \<longleftrightarrow> a \<noteq> 0"
  using less_one_word [of a] by linarith

lemma bool_word_not: "bool_word c XOR 1 = bool_word (\<not> c)"
  by (simp add: bool_word_def)

lemmas rv_run_simps = rv_simps rv64_exec_def rv_step_def rv_op_def rv_op_imm_def rv_get_def
  rv_set_def div_ok_rv xor_eq_zero less_one_word zero_less_word bool_word_not
  not_less not_le

lemma riscv64_emit_binop_text: "op \<in> {1..23} \<Longrightarrow> riscv64_emit_binop op = Inr (rv_binop_text op)"
  by (erule binop_cases) (simp_all add: rv_binop_text_def riscv64_emit_binop_def)

text \<open>
  C11. On RISC-V, the instructions \<^verbatim>\<open>riscv64_emit_binop\<close> writes for an operator, assembled with the
  header's definitions and run with the left operand in a1 and the right one in a0, leave the
  value of the operator in a0 and change no other register.
\<close>

theorem riscv64_binop_correct:
  assumes "binop_sem op (r 11) (r 10) = Some v"
  shows "\<exists>text. riscv64_emit_binop op = Inr text \<and> rv64_exec text r = Some (r(10 := v))"
proof -
  have "rv64_exec (rv_binop_text op) r = Some (r(10 := v))"
    by (rule binop_cases [OF binop_sem_op [OF assms]]; insert assms; hypsubst;
        simp add: rv_run_simps binop_sem_def compare_sem_def split: if_splits)
  then show ?thesis using riscv64_emit_binop_text [OF binop_sem_op [OF assms]] by simp
qed

theorem riscv64_binop_correct_witness:
  "\<exists>text. riscv64_emit_binop BK_ULT = Inr text \<and>
     rv64_exec text (\<lambda>k. if k = 11 then 5 else 7) = Some ((\<lambda>k. if k = 11 then 5 else 7)(10 := 1))"
  using riscv64_binop_correct [of BK_ULT "\<lambda>k. if k = 11 then 5 else 7" 1]
  by (simp add: binop_sem_def compare_sem_def bool_word_def)

section \<open>Adding an immediate\<close>

definition rv_reg :: "int \<Rightarrow> bool" where
  "rv_reg k \<longleftrightarrow> k = 0 \<or> k = 1 \<or> k = 2 \<or> k = 5 \<or> k = 6 \<or> k = 7 \<or> 10 \<le> k \<and> k \<le> 17"

lemma rv_regE:
  assumes "rv_reg k"
  obtains "k = 0" | "k = 1" | "k = 2" | "k = 5" | "k = 6" | "k = 7" | "k = 10" | "k = 11" | "k = 12"
    | "k = 13" | "k = 14" | "k = 15" | "k = 16" | "k = 17"
proof -
  have "k = 0 \<or> k = 1 \<or> k = 2 \<or> k = 5 \<or> k = 6 \<or> k = 7 \<or> k = 10 \<or> k = 11 \<or> k = 12 \<or> k = 13 \<or>
      k = 14 \<or> k = 15 \<or> k = 16 \<or> k = 17"
    using assms unfolding rv_reg_def by presburger
  then show thesis using that by blast
qed

lemma riscv64_rd_word:
  assumes "rv_reg k"
  shows "\<exists>w. riscv64_rd k = Inr w \<and> rv_word w = Some (True, 128 * k) \<and> word_ok w \<and>
    hd w \<noteq> CHR ''!''"
  by (rule rv_regE [OF assms]) (simp_all add: riscv64_rd_def rv_simps word_ok_def newline_def)

lemma riscv64_rs1_word:
  assumes "rv_reg k"
  shows "\<exists>w. riscv64_rs1 k = Inr w \<and> rv_word w = Some (True, 32768 * k) \<and> word_ok w \<and>
    hd w \<noteq> CHR ''!''"
  by (rule rv_regE [OF assms]) (simp_all add: riscv64_rs1_def rv_simps word_ok_def newline_def)

lemma rv_fields:
  assumes "rv_reg d" and "rv_reg b"
  shows "(128 * d OR 32768 * b) OR 19 = 19 + 128 * (d + 32 * (0 + 8 * (b + 32 * 0)))"
proof -
  have d: "0 \<le> d" "d < 32" using assms(1) by (auto simp: rv_reg_def)
  have "128 * d OR 32768 * b = 32768 * b + 128 * d"
    using or_push_bit [of "128 * d" 15 b] d by (simp add: push_bit_eq_mult or.commute mult.commute)
  then have "128 * d OR 32768 * b = 128 * (d + 256 * b)" by simp
  then show ?thesis
    using or_push_bit [of 19 7 "d + 256 * b"] by (simp add: push_bit_eq_mult mult.commute)
qed

lemma rv_step_addi:
  assumes "rv_reg d" and "rv_reg b" and "-2048 \<le> imm" and "imm \<le> 2047"
  shows "rv_step ((128 * d OR 32768 * b) OR 19) imm r =
    Some (rv_set r d (rv_get r b + word_of_int imm))"
proof -
  define w where "w = (128 * d OR 32768 * b) OR 19"
  have w: "w = 19 + 128 * (d + 32 * (0 + 8 * (b + 32 * 0)))"
    unfolding w_def by (rule rv_fields [OF assms(1,2)])
  have d: "0 \<le> d" "d < 32" "0 \<le> b" "b < 32" using assms(1,2) by (auto simp: rv_reg_def)
  have 1: "w div 128 = d + 32 * (0 + 8 * (b + 32 * 0))" and "w mod 128 = 19"
    unfolding w by (rule digit_split; simp)+
  have "w div 4096 = w div 128 div 32" using zdiv_zmult2_eq [of 32 w 128] by simp
  then have 2: "w div 4096 = 0 + 8 * (b + 32 * 0)" unfolding 1 by (simp only: digit_split d)
  have "w div 32768 = w div 4096 div 8" using zdiv_zmult2_eq [of 8 w 4096] by simp
  then have 3: "w div 32768 = b" unfolding 2 by simp
  have "w div 1048576 = w div 32768 div 32" "w div 33554432 = w div 32768 div 1024"
    using zdiv_zmult2_eq [of 32 w 32768] zdiv_zmult2_eq [of 1024 w 32768] by simp_all
  then have 4: "w div 1048576 = 0" "w div 33554432 = 0" unfolding 3 using d by simp_all
  have 5: "w div 128 mod 32 = d" unfolding 1 by (rule digit_split) (use d in simp_all)
  have "rv_step w imm r = Some (rv_set r d (rv_get r b + word_of_int imm))"
    using assms(3,4) \<open>w mod 128 = 19\<close> d unfolding rv_step_def Let_def 5 2 3 4
    by (simp add: rv_op_imm_def)
  then show ?thesis by (simp only: w_def)
qed

lemma rv_immediate_dec: "long_ok n \<Longrightarrow> rv_immediate (CHR ''!'' # dec n) = Some n"
  by (simp add: rv_immediate_def parse_long_text_dec)

lemma rv_exec_addi:
  assumes "rv_reg d" and "rv_reg b" and "-2048 \<le> imm" and "imm \<le> 2047"
  obtains t where "riscv64_addi d b imm = Inr t"
    and "\<And>u r. rv64_exec (t @ u) r = rv64_exec u (rv_set r d (rv_get r b + word_of_int imm))"
proof -
  obtain wd where wd: "riscv64_rd d = Inr wd" "rv_word wd = Some (True, 128 * d)" "word_ok wd"
    "hd wd \<noteq> CHR ''!''" using riscv64_rd_word [OF assms(1)] by blast
  obtain wb where wb: "riscv64_rs1 b = Inr wb" "rv_word wb = Some (True, 32768 * b)" "word_ok wb"
    "hd wb \<noteq> CHR ''!''" using riscv64_rs1_word [OF assms(2)] by blast
  let ?t = "''  '' @ wd @ '' '' @ wb @ '' !'' @ dec imm @ '' addi\<newline>''"
  have imm: "long_ok imm" using assms(3,4) by (simp add: long_ok_def)
  have ok: "word_ok (CHR ''!'' # dec imm)" "word_ok ''addi''"
    using word_ok_dec [of imm] by (simp_all add: word_ok_def newline_def)
  have "m1_words (?t @ u) = [wd, wb, CHR ''!'' # dec imm, ''addi''] @ m1_words u" for u
    using m1_words_word(1) [OF wd(3)] m1_words_word(1) [OF wb(3)] m1_words_word(1) [OF ok(1)]
      m1_words_word(2) [OF ok(2)]
    by (simp add: m1_words_blank newline_def)
  then have "rv64_exec (?t @ u) r = rv64_exec u (rv_set r d (rv_get r b + word_of_int imm))" for u r
    using rv_step_addi [OF assms, of r] wd wb
    by (simp add: rv64_exec_def rv_immediate_None rv_immediate_dec [OF imm] rv_simps)
  moreover have "riscv64_addi d b imm = Inr ?t"
    using wd(1) wb(1) by (simp add: riscv64_addi_def)
  ultimately show thesis using that by blast
qed

lemma rv_get_set [simp]: "d \<noteq> 0 \<Longrightarrow> rv_get (rv_set r d v) d = v"
  "rv_set (rv_set r d v) d u = rv_set r d u"
  by (simp_all add: rv_get_def rv_set_def)

lemma rv64_exec_empty: "rv64_exec [] r = Some r"
  by (simp add: rv64_exec_def m1_words_def)

lemma riscv64_mov_run:
  assumes "rv_reg dst" and "rv_reg src" and "dst \<noteq> 0"
  shows "\<exists>text. riscv64_emit_mov_reg dst src = Inr text \<and>
    rv64_exec text r = Some (r(dst := rv_get r src))"
proof (cases "dst = src")
  case True
  then show ?thesis
    using assms(3) by (simp add: riscv64_emit_mov_reg_def rv64_exec_empty rv_get_def)
next
  case False
  obtain wd where wd: "riscv64_rd dst = Inr wd" "rv_word wd = Some (True, 128 * dst)" "word_ok wd"
    "hd wd \<noteq> CHR ''!''" using riscv64_rd_word [OF assms(1)] by blast
  obtain wb where wb: "riscv64_rs1 src = Inr wb" "rv_word wb = Some (True, 32768 * src)" "word_ok wb"
    "hd wb \<noteq> CHR ''!''" using riscv64_rs1_word [OF assms(2)] by blast
  let ?t = "''  '' @ wd @ '' '' @ wb @ '' mv\<newline>''"
  have ok: "word_ok ''mv''" by (simp add: word_ok_def newline_def)
  have "m1_words ?t = [wd, wb, ''mv'']"
    using m1_words_word(1) [OF wd(3)] m1_words_word(1) [OF wb(3)] m1_words_word(2) [OF ok, of "[]"]
    by (simp add: m1_words_blank newline_def) (simp add: m1_words_def)
  then have "rv64_exec ?t r = Some (r(dst := rv_get r src))"
    using rv_step_addi [OF assms(1,2), of 0 r] wd wb assms(3)
    by (simp add: rv64_exec_def rv_immediate_None rv_simps rv_set_def)
  then show ?thesis
    using False wd(1) wb(1) by (simp add: riscv64_emit_mov_reg_def)
qed

text \<open>
  What the loops keep: adding what remains to the base they would use next gives what adding the
  whole would have given.
\<close>

definition add_pending ::
  "int \<Rightarrow> int \<Rightarrow> string \<Rightarrow> int \<Rightarrow> bool \<Rightarrow> int \<Rightarrow> bool \<Rightarrow> bool" where
  "add_pending dst src t n first n' first' \<longleftrightarrow>
     (\<forall>u r. \<exists>r'. rv64_exec (t @ u) r = rv64_exec u r' \<and>
        rv_set r' dst (rv_get r' (if first' then src else dst) + word_of_int n') =
        rv_set r dst (rv_get r (if first then src else dst) + word_of_int n))"

lemma add_pending_refl: "add_pending dst src [] n first n first"
  by (auto simp: add_pending_def)

lemma add_pending_trans:
  assumes "add_pending dst src t n first n' first'" and "add_pending dst src t' n' first' n'' first''"
  shows "add_pending dst src (t @ t') n first n'' first''"
  unfolding add_pending_def
proof (intro allI)
  fix u r
  obtain r1 where 1: "rv64_exec (t @ t' @ u) r = rv64_exec (t' @ u) r1"
    "rv_set r1 dst (rv_get r1 (if first' then src else dst) + word_of_int n') =
     rv_set r dst (rv_get r (if first then src else dst) + word_of_int n)"
    using assms(1) unfolding add_pending_def by blast
  obtain r2 where 2: "rv64_exec (t' @ u) r1 = rv64_exec u r2"
    "rv_set r2 dst (rv_get r2 (if first'' then src else dst) + word_of_int n'') =
     rv_set r1 dst (rv_get r1 (if first' then src else dst) + word_of_int n')"
    using assms(2) unfolding add_pending_def by blast
  show "\<exists>r'. rv64_exec ((t @ t') @ u) r = rv64_exec u r' \<and>
        rv_set r' dst (rv_get r' (if first'' then src else dst) + word_of_int n'') =
        rv_set r dst (rv_get r (if first then src else dst) + word_of_int n)"
    using 1 2 by (intro exI [of _ r2]) simp
qed

lemma add_pending_step:
  assumes run: "\<And>u r. rv64_exec (l @ u) r = rv64_exec u (rv_set r dst (rv_get r base + word_of_int k))"
    and rest: "add_pending dst src t m False n' first'"
    and "dst \<noteq> 0" and "base = (if first then src else dst)" and "m = n - k"
  shows "add_pending dst src (l @ t) n first n' first'"
proof (rule add_pending_trans [OF _ rest])
  show "add_pending dst src l n first m False"
    unfolding add_pending_def
    using assms(3-5) by (auto simp: run intro!: exI [of _ "rv_set _ dst _"])
qed

lemma rv_add_up:
  assumes "rv_reg dst" and "rv_reg src" and "dst \<noteq> 0"
  shows "\<exists>t n' first'. riscv64_add_up dst src n first = Inr (t, n', first') \<and> n' \<le> 2047 \<and>
    (n < -2048 \<or> -2048 \<le> n') \<and> add_pending dst src t n first n' first'"
  using assms
proof (induction dst src n first rule: riscv64_add_up.induct)
  case (1 dst src n first)
  show ?case
  proof (cases "2047 < n")
    case False
    then show ?thesis by (auto simp: riscv64_add_up.simps add_pending_refl)
  next
    case True
    define base where "base = (if first then src else dst)"
    have b: "rv_reg base" using "1.prems" by (simp add: base_def)
    obtain l where l: "riscv64_addi dst base 2047 = Inr l"
      and run: "\<And>u r. rv64_exec (l @ u) r = rv64_exec u (rv_set r dst (rv_get r base + word_of_int 2047))"
      by (rule rv_exec_addi [OF "1.prems"(1) b, of 2047]) auto
    obtain t n' f' where t: "riscv64_add_up dst src (n - 2047) False = Inr (t, n', f')"
      and m: "n' \<le> 2047" "n - 2047 < -2048 \<or> -2048 \<le> n'"
      and c: "add_pending dst src t (n - 2047) False n' f'"
      using "1.IH" [OF True l [unfolded base_def] "1.prems"] by blast
    have "riscv64_add_up dst src n first = Inr (l @ t, n', f')"
      using True l t by (subst riscv64_add_up.simps) (simp add: base_def)
    moreover have "add_pending dst src (l @ t) n first n' f'"
      by (rule add_pending_step [OF run c "1.prems"(3)]) (simp_all add: base_def)
    ultimately show ?thesis using m True by auto
  qed
qed

lemma rv_add_down:
  assumes "rv_reg dst" and "rv_reg src" and "dst \<noteq> 0"
  shows "\<exists>t n' first'. riscv64_add_down dst src n first = Inr (t, n', first') \<and> -2048 \<le> n' \<and>
    (2047 < n \<or> n' \<le> 2047) \<and> add_pending dst src t n first n' first'"
  using assms
proof (induction dst src n first rule: riscv64_add_down.induct)
  case (1 dst src n first)
  show ?case
  proof (cases "n < -2048")
    case False
    then show ?thesis by (auto simp: riscv64_add_down.simps add_pending_refl)
  next
    case True
    define base where "base = (if first then src else dst)"
    have b: "rv_reg base" using "1.prems" by (simp add: base_def)
    obtain l where l: "riscv64_addi dst base (-2048) = Inr l"
      and run: "\<And>u r. rv64_exec (l @ u) r = rv64_exec u (rv_set r dst (rv_get r base + word_of_int (-2048)))"
      by (rule rv_exec_addi [OF "1.prems"(1) b, of "-2048"]) auto
    obtain t n' f' where t: "riscv64_add_down dst src (n + 2048) False = Inr (t, n', f')"
      and m: "-2048 \<le> n'" "2047 < n + 2048 \<or> n' \<le> 2047"
      and c: "add_pending dst src t (n + 2048) False n' f'"
      using "1.IH" [OF True l [unfolded base_def] "1.prems"] by blast
    have "riscv64_add_down dst src n first = Inr (l @ t, n', f')"
      using True l t by (subst riscv64_add_down.simps) (simp add: base_def)
    moreover have "add_pending dst src (l @ t) n first n' f'"
      by (rule add_pending_step [OF run c "1.prems"(3)]) (simp_all add: base_def)
    ultimately show ?thesis using m True by auto
  qed
qed

text \<open>
  C39. The RISC-V code \<^verbatim>\<open>riscv64_emit_add_imm_reg\<close> emits sets the destination to the source plus
  the immediate, for any positive or negative immediate and however many \<^verbatim>\<open>addi\<close> steps it takes,
  and changes no other register; it never dies on the registers the generator uses.
\<close>

theorem riscv64_add_imm_correct:
  assumes "rv_reg dst" and "rv_reg src" and "dst \<noteq> 0"
  shows "\<exists>text. riscv64_emit_add_imm_reg dst src imm = Inr text \<and>
    rv64_exec text r = Some (r(dst := rv_get r src + word_of_int imm))"
proof (cases "imm = 0")
  case True
  then show ?thesis
    using riscv64_mov_run [OF assms] by (simp add: riscv64_emit_add_imm_reg_def)
next
  case False
  obtain t1 n1 f1 where up: "riscv64_add_up dst src imm True = Inr (t1, n1, f1)"
    and 1: "n1 \<le> 2047" "add_pending dst src t1 imm True n1 f1"
    using rv_add_up [OF assms] by blast
  obtain t2 n2 f2 where down: "riscv64_add_down dst src n1 f1 = Inr (t2, n2, f2)"
    and 2: "-2048 \<le> n2" "n2 \<le> 2047" "add_pending dst src t2 n1 f1 n2 f2"
    using rv_add_down [OF assms, of n1 f1] 1(1) by (auto simp: not_less)
  define base where "base = (if f2 then src else dst)"
  have "rv_reg base" using assms by (simp add: base_def)
  then obtain l where l: "riscv64_addi dst base n2 = Inr l"
    and run: "\<And>u r. rv64_exec (l @ u) r = rv64_exec u (rv_set r dst (rv_get r base + word_of_int n2))"
    by (rule rv_exec_addi [OF assms(1) _ 2(1,2)]) auto
  have "\<exists>r'. rv64_exec ((t1 @ t2) @ l) r = rv64_exec l r' \<and>
      rv_set r' dst (rv_get r' base + word_of_int n2) = rv_set r dst (rv_get r src + word_of_int imm)"
    using add_pending_trans [OF 1(2) 2(3)] unfolding add_pending_def base_def if_True by blast
  then obtain r' where r': "rv64_exec ((t1 @ t2) @ l) r = rv64_exec l r'"
    "rv_set r' dst (rv_get r' base + word_of_int n2) = rv_set r dst (rv_get r src + word_of_int imm)"
    by blast
  have "rv64_exec (t1 @ t2 @ l) r = Some (r(dst := rv_get r src + word_of_int imm))"
    using r' run [of "[]" r'] assms(3) by (simp add: rv64_exec_empty rv_set_def)
  then show ?thesis
    using False up down l by (simp add: riscv64_emit_add_imm_reg_def base_def)
qed

theorem riscv64_add_imm_correct_witness:
  "\<exists>text. riscv64_emit_add_imm_reg 2 2 (-5000) = Inr text \<and>
     rv64_exec text (\<lambda>_. 9000) = Some ((\<lambda>_. 9000)(2 := 4000))"
  using riscv64_add_imm_correct [of 2 2 "-5000" "\<lambda>_. 9000"] by (simp add: rv_reg_def rv_get_def)

end
