(* ===== verification/CMemory.thy ===== *)
theory CMemory
  imports Prelude
begin

text \<open>
  Memory as C code without a type discipline sees it: bytes at addresses. An address is an
  integer, since C arithmetic on pointers does not wrap. The theories of the run-time support
  code (\<^verbatim>\<open>src/hcc/support\<close>, the allocators) are written over it.
\<close>

type_synonym cmem = "int \<Rightarrow> 8 word"

unbundle bit_operations_syntax

section \<open>Runs of bytes\<close>

definition bytes_at :: "cmem \<Rightarrow> int \<Rightarrow> nat \<Rightarrow> 8 word list" where
  "bytes_at m p n = map (\<lambda>i. m (p + int i)) [0..<n]"

lemma length_bytes_at [simp]: "length (bytes_at m p n) = n"
  by (simp add: bytes_at_def)

lemma bytes_at_nth [simp]: "i < n \<Longrightarrow> bytes_at m p n ! i = m (p + int i)"
  by (simp add: bytes_at_def)

lemma bytes_at_0 [simp]: "bytes_at m p 0 = []"
  by (simp add: bytes_at_def)

lemma bytes_at_Suc: "bytes_at m p (Suc n) = m p # bytes_at m (p + 1) n"
proof -
  have "[0..<Suc n] = 0 # map Suc [0..<n]" by (simp add: map_Suc_upt upt_conv_Cons del: upt_Suc)
  then show ?thesis by (simp add: bytes_at_def add.assoc del: upt_Suc)
qed

lemma bytes_at_eqI:
  "(\<And>i. i < n \<Longrightarrow> m (p + int i) = m' (p' + int i)) \<Longrightarrow> bytes_at m p n = bytes_at m' p' n"
  by (simp add: bytes_at_def)

lemma bytes_at_eq_iff:
  "bytes_at m p n = bytes_at m' p' n \<longleftrightarrow> (\<forall>i < n. m (p + int i) = m' (p' + int i))"
  by (auto simp: list_eq_iff_nth_eq)

lemma take_bytes_at [simp]: "k \<le> n \<Longrightarrow> take k (bytes_at m p n) = bytes_at m p k"
  by (intro nth_equalityI) auto

lemma bytes_at_append: "bytes_at m p j @ bytes_at m (p + int j) k = bytes_at m p (j + k)"
  by (intro nth_equalityI) (auto simp: nth_append less_diff_conv2)

text \<open>Two runs of bytes that do not meet.\<close>

definition apart :: "int \<Rightarrow> int \<Rightarrow> int \<Rightarrow> int \<Rightarrow> bool" where
  "apart p n q k \<longleftrightarrow> p + n \<le> q \<or> q + k \<le> p"

section \<open>Strings\<close>

text \<open>\<open>cstr m p s\<close>: the bytes at \<open>p\<close> are \<open>s\<close>, none of them zero, and then a zero.\<close>

fun cstr :: "cmem \<Rightarrow> int \<Rightarrow> 8 word list \<Rightarrow> bool" where
  "cstr m p [] \<longleftrightarrow> m p = 0"
| "cstr m p (b # s) \<longleftrightarrow> m p = b \<and> b \<noteq> 0 \<and> cstr m (p + 1) s"

lemma cstr_nth: "cstr m p s \<Longrightarrow> i < length s \<Longrightarrow> m (p + int i) = s ! i \<and> s ! i \<noteq> 0"
proof (induction s arbitrary: p i)
  case (Cons b s)
  show ?case
  proof (cases i)
    case (Suc j)
    with Cons.IH [of "p + 1" j] Cons.prems show ?thesis by (simp add: add.assoc)
  qed (use Cons.prems in auto)
qed simp

lemma cstr_end: "cstr m p s \<Longrightarrow> m (p + int (length s)) = 0"
proof (induction s arbitrary: p)
  case (Cons b s)
  from Cons.IH [of "p + 1"] Cons.prems show ?case by (simp add: add.assoc)
qed simp

lemma cstr_bytes: "cstr m p s \<Longrightarrow> bytes_at m p (length s) = s"
  by (simp add: list_eq_iff_nth_eq cstr_nth)

lemma cstr_nonzero: "cstr m p s \<Longrightarrow> 0 \<notin> set s"
  by (induction s arbitrary: p) auto

lemma cstrI:
  "(\<And>i. i < length s \<Longrightarrow> m (p + int i) = s ! i) \<Longrightarrow> 0 \<notin> set s \<Longrightarrow> m (p + int (length s)) = 0 \<Longrightarrow>
   cstr m p s"
proof (induction s arbitrary: p)
  case (Cons b s)
  from Cons.prems(1) [of 0] have "m p = b" by simp
  moreover have "cstr m (p + 1) s"
  proof (rule Cons.IH)
    show "m (p + 1 + int i) = s ! i" if "i < length s" for i
      using Cons.prems(1) [of "Suc i"] that by (simp add: add.assoc)
  qed (use Cons.prems in \<open>auto simp: add.assoc\<close>)
  ultimately show ?case using Cons.prems(2) by auto
qed simp

lemma cstr_unique: "cstr m p s \<Longrightarrow> cstr m p t \<Longrightarrow> s = t"
proof (induction s arbitrary: p t)
  case Nil
  then show ?case by (cases t) auto
next
  case (Cons b s)
  then show ?case by (cases t) auto
qed

lemma cstr_cong: "(\<And>a. p \<le> a \<Longrightarrow> a \<le> p + int (length s) \<Longrightarrow> m a = m' a) \<Longrightarrow> cstr m p s = cstr m' p s"
proof (induction s arbitrary: p)
  case (Cons b s)
  have "cstr m (p + 1) s = cstr m' (p + 1) s"
    by (rule Cons.IH) (use Cons.prems in auto)
  then show ?case using Cons.prems [of p] by simp
qed simp

text \<open>A string with its end mark, put at an address.\<close>

fun put_bytes :: "8 word list \<Rightarrow> int \<Rightarrow> cmem \<Rightarrow> cmem" where
  "put_bytes [] p m = m"
| "put_bytes (b # bs) p m = put_bytes bs (p + 1) (m(p := b))"

lemma put_bytes_apply:
  "put_bytes bs p m a = (if p \<le> a \<and> a < p + int (length bs) then bs ! nat (a - p) else m a)"
proof (induction bs arbitrary: p m)
  case (Cons b bs)
  have "nat (a - p) = Suc (nat (a - (p + 1)))" if "p + 1 \<le> a"
    using that by simp
  with Cons show ?case by (auto simp: nth_Cons')
qed auto

lemma bytes_at_put [simp]: "length bs = n \<Longrightarrow> bytes_at (put_bytes bs p m) p n = bs"
  by (auto simp: list_eq_iff_nth_eq put_bytes_apply)

lemma bytes_at_put_apart:
  "apart p (int (length bs)) q (int n) \<Longrightarrow> bytes_at (put_bytes bs p m) q n = bytes_at m q n"
  by (intro bytes_at_eqI) (auto simp: put_bytes_apply apart_def)

section \<open>Numbers in memory\<close>

text \<open>A \<^verbatim>\<open>long\<close> is eight bytes, least significant first.\<close>

fun word_bytes :: "nat \<Rightarrow> 64 word \<Rightarrow> 8 word list" where
  "word_bytes 0 v = []"
| "word_bytes (Suc n) v = ucast v # word_bytes n (drop_bit 8 v)"

fun bytes_word :: "8 word list \<Rightarrow> 64 word" where
  "bytes_word [] = 0"
| "bytes_word (b # bs) = ucast b OR push_bit 8 (bytes_word bs)"

lemma length_word_bytes [simp]: "length (word_bytes n v) = n"
  by (induction n arbitrary: v) auto

lemma bytes_word_bytes: "bytes_word (word_bytes n v) = take_bit (8 * n) v"
proof (induction n arbitrary: v)
  case (Suc n)
  show ?case
  proof (rule bit_word_eqI)
    fix k assume k: "k < LENGTH(64)"
    show "bit (bytes_word (word_bytes (Suc n) v)) k = bit (take_bit (8 * Suc n) v) k"
      using k by (auto simp: Suc bit_or_iff bit_push_bit_iff bit_take_bit_iff bit_drop_bit_eq
          bit_ucast_iff)
  qed
qed simp

definition store_long :: "int \<Rightarrow> 64 word \<Rightarrow> cmem \<Rightarrow> cmem" where
  "store_long p v m = put_bytes (word_bytes 8 v) p m"

definition load_long :: "int \<Rightarrow> cmem \<Rightarrow> 64 word" where
  "load_long p m = bytes_word (bytes_at m p 8)"

lemma load_store_long [simp]: "load_long p (store_long p v m) = v"
  by (simp add: load_long_def store_long_def bytes_word_bytes take_bit_word_eq_self)

lemma store_long_apart: "a < p \<or> p + 8 \<le> a \<Longrightarrow> store_long p v m a = m a"
  by (auto simp: store_long_def put_bytes_apply)

lemma load_long_cong: "(\<And>i. i < 8 \<Longrightarrow> m (p + int i) = m' (p + int i)) \<Longrightarrow> load_long p m = load_long p m'"
  by (simp add: load_long_def cong: bytes_at_eqI)

section \<open>Digits in memory\<close>

text \<open>The value of digits, the first the most significant.\<close>

definition digits_value :: "int \<Rightarrow> int list \<Rightarrow> int" where
  "digits_value b ds = foldl (\<lambda>v d. v * b + d) 0 ds"

text \<open>\<open>digits_at dv b m p ds\<close>: at \<open>p\<close> stand the digits \<open>ds\<close> of base \<open>b\<close>, and then no digit; \<open>dv\<close> is the value of a
  character as a digit.\<close>

fun digits_at :: "(int \<Rightarrow> int) \<Rightarrow> int \<Rightarrow> cmem \<Rightarrow> int \<Rightarrow> int list \<Rightarrow> bool" where
  "digits_at dv b m p [] \<longleftrightarrow> dv (sint (m p)) < 0 \<or> b \<le> dv (sint (m p))"
| "digits_at dv b m p (d # ds) \<longleftrightarrow>
     dv (sint (m p)) = d \<and> 0 \<le> d \<and> d < b \<and> digits_at dv b m (p + 1) ds"

end
