(* ===== verification/SupportSort.thy ===== *)
theory SupportSort
  imports CMemory "HOL-Library.Multiset"
begin

text \<open>
  \<^verbatim>\<open>qsort\<close> of \<^verbatim>\<open>tcc-bootstrap-support.c\<close>: an exchange sort that swaps elements byte by byte. The
  comparison function is the caller's; it is handed two addresses and reads the memory. The
  sort is refined to one on the list of the elements' bytes, which is shown to sort.
\<close>

section \<open>The code\<close>

fun swap_bytes :: "int \<Rightarrow> int \<Rightarrow> nat \<Rightarrow> cmem \<Rightarrow> cmem" where
  "swap_bytes left right 0 m = m"
| "swap_bytes left right (Suc n) m =
     (let tmp = m left; m = m(left := m right); m = m(right := tmp)
      in swap_bytes (left + 1) (right + 1) n m)"

type_synonym comparator = "int \<Rightarrow> int \<Rightarrow> cmem \<Rightarrow> int"

definition elem_addr :: "int \<Rightarrow> nat \<Rightarrow> nat \<Rightarrow> int" where
  "elem_addr bytes width i = bytes + int (i * width)"

function qsort_inner :: "comparator \<Rightarrow> int \<Rightarrow> nat \<Rightarrow> nat \<Rightarrow> nat \<Rightarrow> nat \<Rightarrow> cmem \<Rightarrow> cmem" where
  "qsort_inner compar bytes cnt width i j m =
     (if j < cnt then
        qsort_inner compar bytes cnt width i (j + 1)
          (if 0 < compar (elem_addr bytes width i) (elem_addr bytes width j) m
           then swap_bytes (elem_addr bytes width i) (elem_addr bytes width j) width m else m)
      else m)"
  by pat_completeness auto
termination
  by (relation "measure (\<lambda>(_, _, cnt, _, _, j, _). cnt - j)") auto

function qsort_outer :: "comparator \<Rightarrow> int \<Rightarrow> nat \<Rightarrow> nat \<Rightarrow> nat \<Rightarrow> cmem \<Rightarrow> cmem" where
  "qsort_outer compar bytes cnt width i m =
     (if i < cnt then
        qsort_outer compar bytes cnt width (i + 1)
          (qsort_inner compar bytes cnt width i (i + 1) m)
      else m)"
  by pat_completeness auto
termination
  by (relation "measure (\<lambda>(_, _, cnt, _, i, _). cnt - i)") auto

declare qsort_inner.simps [simp del] qsort_outer.simps [simp del]

definition qsort :: "int \<Rightarrow> nat \<Rightarrow> nat \<Rightarrow> comparator option \<Rightarrow> cmem \<Rightarrow> cmem" where
  "qsort base cnt width compar m =
     (case compar of
        None \<Rightarrow> m
      | Some compar \<Rightarrow> if base = 0 then m else qsort_outer compar base cnt width 0 m)"

section \<open>The sort on lists\<close>

definition list_swap :: "nat \<Rightarrow> nat \<Rightarrow> 'a list \<Rightarrow> 'a list" where
  "list_swap i j xs = xs[i := xs ! j, j := xs ! i]"

function inner_list :: "('a \<Rightarrow> 'a \<Rightarrow> int) \<Rightarrow> nat \<Rightarrow> nat \<Rightarrow> 'a list \<Rightarrow> 'a list" where
  "inner_list cmp i j xs =
     (if j < length xs then
        inner_list cmp i (j + 1) (if 0 < cmp (xs ! i) (xs ! j) then list_swap i j xs else xs)
      else xs)"
  by pat_completeness auto
termination
  by (relation "measure (\<lambda>(cmp, i, j, xs). length xs - j)") (auto simp: list_swap_def)

function outer_list :: "('a \<Rightarrow> 'a \<Rightarrow> int) \<Rightarrow> nat \<Rightarrow> 'a list \<Rightarrow> 'a list" where
  "outer_list cmp i xs =
     (if i < length xs then outer_list cmp (i + 1) (inner_list cmp i (i + 1) xs) else xs)"
  by pat_completeness auto

lemma length_inner_list [simp]: "length (inner_list cmp i j xs) = length xs"
proof (induction cmp i j xs rule: inner_list.induct)
  case (1 cmp i j xs)
  then show ?case by (subst inner_list.simps) (auto simp: list_swap_def simp del: inner_list.simps)
qed

termination outer_list
  by (relation "measure (\<lambda>(cmp, i, xs). length xs - i)") (auto simp del: inner_list.simps)

declare inner_list.simps [simp del] outer_list.simps [simp del]

lemma length_list_swap [simp]: "length (list_swap i j xs) = length xs"
  by (simp add: list_swap_def)

lemma list_swap_nth:
  "i < length xs \<Longrightarrow> j < length xs \<Longrightarrow>
   list_swap i j xs ! k = (if k = j then xs ! i else if k = i then xs ! j else xs ! k)"
  by (simp add: list_swap_def nth_list_update)

lemma mset_list_swap: "i < length xs \<Longrightarrow> j < length xs \<Longrightarrow> mset (list_swap i j xs) = mset xs"
  by (simp add: list_swap_def mset_swap)

lemma mset_inner_list: "i < j \<Longrightarrow> mset (inner_list cmp i j xs) = mset xs"
proof (induction cmp i j xs rule: inner_list.induct)
  case (1 cmp i j xs)
  then show ?case by (subst inner_list.simps) (auto simp: mset_list_swap)
qed

lemma mset_outer_list: "mset (outer_list cmp i xs) = mset xs"
proof (induction cmp i xs rule: outer_list.induct)
  case (1 cmp i xs)
  then show ?case by (subst outer_list.simps) (auto simp: mset_inner_list)
qed

definition total_preorder :: "('a \<Rightarrow> 'a \<Rightarrow> int) \<Rightarrow> bool" where
  "total_preorder cmp \<longleftrightarrow>
     (\<forall>x y. 0 < cmp x y \<longrightarrow> cmp y x \<le> 0) \<and>
     (\<forall>x y z. cmp x y \<le> 0 \<longrightarrow> cmp y z \<le> 0 \<longrightarrow> cmp x z \<le> 0)"

text \<open>
  After the inner loop the element at \<open>i\<close> is at most every later one, the elements before \<open>i\<close>
  have not moved, and the later ones are a rearrangement of those that were at \<open>i\<close> and later.
\<close>

lemma inner_list_step:
  assumes "total_preorder cmp"
  shows "i < j \<Longrightarrow> i < length xs \<Longrightarrow> (\<forall>k. i < k \<and> k < j \<and> k < length xs \<longrightarrow> cmp (xs ! i) (xs ! k) \<le> 0) \<Longrightarrow>
   (let ys = inner_list cmp i j xs in
     (\<forall>k. i < k \<and> k < length xs \<longrightarrow> cmp (ys ! i) (ys ! k) \<le> 0) \<and>
     (\<forall>k < i. ys ! k = xs ! k) \<and>
     (\<forall>k. i \<le> k \<and> k < length xs \<longrightarrow> (\<exists>l. i \<le> l \<and> l < length xs \<and> ys ! k = xs ! l)))"
proof (induction "length xs - j" arbitrary: j xs)
  case 0
  then show ?case by (subst inner_list.simps) (auto simp: Let_def)
next
  case (Suc n)
  then have j: "j < length xs" and ij: "i < length xs" by simp_all
  let ?xs = "if 0 < cmp (xs ! i) (xs ! j) then list_swap i j xs else xs"
  have len: "length ?xs = length xs" by simp
  have le: "cmp (?xs ! i) (?xs ! k) \<le> 0" if k: "i < k" "k < j + 1" "k < length xs" for k
  proof (cases "0 < cmp (xs ! i) (xs ! j)")
    case True
    then have ji: "cmp (xs ! j) (xs ! i) \<le> 0" using assms by (simp add: total_preorder_def)
    show ?thesis
    proof (cases "k = j")
      case False
      then have "cmp (xs ! i) (xs ! k) \<le> 0" using Suc.prems(3) k by simp
      with ji have "cmp (xs ! j) (xs ! k) \<le> 0" using assms unfolding total_preorder_def by blast
      then show ?thesis using True False Suc.prems(1) k j ij by (simp add: list_swap_nth)
    qed (use True ji Suc.prems(1) j ij in \<open>simp add: list_swap_nth\<close>)
  next
    case False
    then show ?thesis using Suc.prems(3) k by (cases "k = j") auto
  qed
  have step: "inner_list cmp i j xs = inner_list cmp i (j + 1) ?xs"
    using j by (subst inner_list.simps) simp
  have IH: "let ys = inner_list cmp i (j + 1) ?xs in
     (\<forall>k. i < k \<and> k < length ?xs \<longrightarrow> cmp (ys ! i) (ys ! k) \<le> 0) \<and>
     (\<forall>k < i. ys ! k = ?xs ! k) \<and>
     (\<forall>k. i \<le> k \<and> k < length ?xs \<longrightarrow> (\<exists>l. i \<le> l \<and> l < length ?xs \<and> ys ! k = ?xs ! l))"
    by (rule Suc.hyps(1)) (use Suc.hyps(2) Suc.prems le len in auto)
  have old: "\<exists>l'. i \<le> l' \<and> l' < length xs \<and> ?xs ! l = xs ! l'" if "i \<le> l" "l < length xs" for l
    using that j ij Suc.prems(1)
    by (cases "0 < cmp (xs ! i) (xs ! j)") (auto simp: list_swap_nth intro: less_imp_le)
  have same: "?xs ! k = xs ! k" if "k < i" for k
    using that j ij Suc.prems(1) by (auto simp: list_swap_nth)
  show ?case
    unfolding step Let_def
    using IH [unfolded Let_def len] old same by metis
qed

lemma outer_list_sorts:
  assumes "total_preorder cmp"
  shows "(\<forall>k l. k < i \<and> k < l \<and> l < length xs \<longrightarrow> cmp (xs ! k) (xs ! l) \<le> 0) \<Longrightarrow>
   sorted_wrt (\<lambda>x y. cmp x y \<le> 0) (outer_list cmp i xs)"
proof (induction "length xs - i" arbitrary: i xs)
  case 0
  then show ?case by (subst outer_list.simps) (simp add: sorted_wrt_iff_nth_less)
next
  case (Suc n)
  then have i: "i < length xs" by simp
  let ?ys = "inner_list cmp i (i + 1) xs"
  have ys: "\<forall>k. i < k \<and> k < length xs \<longrightarrow> cmp (?ys ! i) (?ys ! k) \<le> 0"
    "\<forall>k < i. ?ys ! k = xs ! k"
    "\<forall>k. i \<le> k \<and> k < length xs \<longrightarrow> (\<exists>l. i \<le> l \<and> l < length xs \<and> ?ys ! k = xs ! l)"
    using inner_list_step [OF assms, of i "i + 1" xs] i by (simp_all add: Let_def)
  have "cmp (?ys ! k) (?ys ! l) \<le> 0" if kl: "k < i + 1" "k < l" "l < length xs" for k l
  proof (cases "k = i")
    case False
    then have k: "k < i" using kl by simp
    show ?thesis
    proof (cases "l < i")
      case True
      then show ?thesis using ys(2) k kl Suc.prems by simp
    next
      case False
      then obtain l' where "i \<le> l'" "l' < length xs" "?ys ! l = xs ! l'"
        using ys(3) [rule_format, of l] kl by auto
      then show ?thesis using ys(2) k Suc.prems by simp
    qed
  qed (use ys(1) kl in simp)
  then have "sorted_wrt (\<lambda>x y. cmp x y \<le> 0) (outer_list cmp (i + 1) ?ys)"
    by (intro Suc.hyps(1)) (use Suc.hyps(2) in auto)
  then show ?case using i by (subst outer_list.simps) simp
qed

section \<open>The refinement\<close>

definition elems :: "int \<Rightarrow> nat \<Rightarrow> nat \<Rightarrow> cmem \<Rightarrow> 8 word list list" where
  "elems base cnt width m = map (\<lambda>i. bytes_at m (elem_addr base width i) width) [0..<cnt]"

definition reads_elements :: "comparator \<Rightarrow> nat \<Rightarrow> (8 word list \<Rightarrow> 8 word list \<Rightarrow> int) \<Rightarrow> bool" where
  "reads_elements compar width cmp \<longleftrightarrow>
     (\<forall>a b m. compar a b m = cmp (bytes_at m a width) (bytes_at m b width))"

lemma swap_bytes_apply:
  "apart left (int n) right (int n) \<Longrightarrow>
   swap_bytes left right n m a =
     (if left \<le> a \<and> a < left + int n then m (right + (a - left))
      else if right \<le> a \<and> a < right + int n then m (left + (a - right)) else m a)"
proof (induction n arbitrary: left right m)
  case (Suc n)
  have "apart (left + 1) (int n) (right + 1) (int n)" using Suc.prems by (auto simp: apart_def)
  from Suc.IH [OF this] Suc.prems show ?case
    by (cases "a = left"; cases "a = right") (auto simp: apart_def Let_def)
qed auto

lemma elems_apart: "i \<noteq> j \<Longrightarrow> apart (elem_addr b w i) (int w) (elem_addr b w j) (int w)"
proof -
  have less: "int (i * w) + int w \<le> int (j * w)" if "i < j" for i j
  proof -
    have "(i + 1) * w \<le> j * w" using that by (intro mult_le_mono1) simp
    then have "int ((i + 1) * w) \<le> int (j * w)" by (simp only: of_nat_le_iff)
    then show ?thesis by (simp add: algebra_simps)
  qed
  assume "i \<noteq> j"
  then show ?thesis
  proof (cases "i < j")
    case True
    with less [of i j] show ?thesis by (simp add: apart_def elem_addr_def)
  next
    case False
    with less [of j i] \<open>i \<noteq> j\<close> show ?thesis by (simp add: apart_def elem_addr_def)
  qed
qed

lemma swap_elems:
  assumes "i \<noteq> j" and "i < cnt" and "j < cnt"
  shows "elems b cnt w (swap_bytes (elem_addr b w i) (elem_addr b w j) w m) =
     list_swap i j (elems b cnt w m)"
proof (rule nth_equalityI)
  fix k assume "k < length (elems b cnt w (swap_bytes (elem_addr b w i) (elem_addr b w j) w m))"
  then have k: "k < cnt" by (simp add: elems_def)
  let ?A = "elem_addr b w"
  note sw = swap_bytes_apply [OF elems_apart [OF assms(1), of b w]]
  have "bytes_at (swap_bytes (?A i) (?A j) w m) (?A k) w =
      bytes_at m (if k = j then ?A i else if k = i then ?A j else ?A k) w"
    using elems_apart [of k i b w] elems_apart [of k j b w] elems_apart [OF assms(1), of b w]
    by (intro bytes_at_eqI) (auto simp: sw apart_def)
  then show "elems b cnt w (swap_bytes (?A i) (?A j) w m) ! k = list_swap i j (elems b cnt w m) ! k"
    using k assms by (simp add: elems_def list_swap_nth)
qed (simp add: elems_def)

lemma inner_refines:
  assumes "reads_elements compar w cmp"
  shows "i < j \<Longrightarrow> i < cnt \<Longrightarrow>
    elems b cnt w (qsort_inner compar b cnt w i j m) = inner_list cmp i j (elems b cnt w m)"
proof (induction "cnt - j" arbitrary: j m)
  case 0
  then show ?case by (subst qsort_inner.simps, subst inner_list.simps) (simp add: elems_def)
next
  case (Suc n)
  then have j: "j < cnt" by simp
  let ?A = "elem_addr b w"
  let ?m = "if 0 < compar (?A i) (?A j) m then swap_bytes (?A i) (?A j) w m else m"
  have c: "compar (?A i) (?A j) m = cmp (elems b cnt w m ! i) (elems b cnt w m ! j)"
    using assms Suc.prems j by (simp add: reads_elements_def elems_def)
  have "elems b cnt w ?m =
      (if 0 < cmp (elems b cnt w m ! i) (elems b cnt w m ! j)
       then list_swap i j (elems b cnt w m) else elems b cnt w m)"
    using Suc.prems j by (simp add: c swap_elems)
  moreover have "elems b cnt w (qsort_inner compar b cnt w i (j + 1) ?m) =
      inner_list cmp i (j + 1) (elems b cnt w ?m)"
    by (rule Suc.hyps(1)) (use Suc in auto)
  moreover have "length (elems b cnt w m) = cnt" by (simp add: elems_def)
  ultimately show ?case
    using j by (subst qsort_inner.simps, subst inner_list.simps) simp
qed

lemma outer_refines:
  assumes "reads_elements compar w cmp"
  shows "elems b cnt w (qsort_outer compar b cnt w i m) = outer_list cmp i (elems b cnt w m)"
proof (induction "cnt - i" arbitrary: i m)
  case 0
  then show ?case by (subst qsort_outer.simps, subst outer_list.simps) (simp add: elems_def)
next
  case (Suc n)
  then have i: "i < cnt" by simp
  have "elems b cnt w (qsort_outer compar b cnt w (i + 1) (qsort_inner compar b cnt w i (i + 1) m)) =
      outer_list cmp (i + 1) (elems b cnt w (qsort_inner compar b cnt w i (i + 1) m))"
    by (rule Suc.hyps(1)) (use Suc in auto)
  moreover have "length (elems b cnt w m) = cnt" by (simp add: elems_def)
  ultimately show ?case
    using i by (subst qsort_outer.simps, subst outer_list.simps) (simp add: inner_refines [OF assms])
qed

lemma elem_inside:
  assumes "a < base \<or> base + int (cnt * w) \<le> a" and "i < cnt"
  shows "\<not> (elem_addr base w i \<le> a \<and> a < elem_addr base w i + int w)"
proof -
  have "(i + 1) * w \<le> cnt * w" using assms(2) by (intro mult_le_mono1) simp
  then have "int ((i + 1) * w) \<le> int (cnt * w)" by (simp only: of_nat_le_iff)
  moreover have "int ((i + 1) * w) = int (i * w) + int w" by (simp add: algebra_simps)
  ultimately show ?thesis using assms(1) unfolding elem_addr_def by linarith
qed

lemma inner_outside:
  "i < j \<Longrightarrow> i < cnt \<Longrightarrow> a < base \<or> base + int (cnt * w) \<le> a \<Longrightarrow>
   qsort_inner compar base cnt w i j m a = m a"
proof (induction compar base cnt w i j m rule: qsort_inner.induct)
  case (1 compar base cnt w i j m)
  have "swap_bytes (elem_addr base w i) (elem_addr base w j) w m a = m a" if "j < cnt"
    using elem_inside [OF "1.prems"(3), of i] elem_inside [OF "1.prems"(3), of j] that "1.prems"(1,2)
    by (auto simp: swap_bytes_apply elems_apart)
  with 1 show ?case by (subst qsort_inner.simps) auto
qed

lemma outer_outside:
  "a < base \<or> base + int (cnt * w) \<le> a \<Longrightarrow> qsort_outer compar base cnt w i m a = m a"
proof (induction compar base cnt w i m rule: qsort_outer.induct)
  case (1 compar base cnt w i m)
  then show ?case by (subst qsort_outer.simps) (auto simp: inner_outside)
qed

text \<open>
  C36. \<^verbatim>\<open>qsort\<close> on memory is the exchange sort on the list of the elements' bytes, and it leaves
  every byte outside the array as it was.
\<close>

theorem qsort_refines_list:
  assumes "reads_elements compar w cmp" and "base \<noteq> 0"
  shows "elems base cnt w (qsort base cnt w (Some compar) m) = outer_list cmp 0 (elems base cnt w m) \<and>
    (\<forall>a. a < base \<or> base + int (cnt * w) \<le> a \<longrightarrow> qsort base cnt w (Some compar) m a = m a)"
  using outer_refines [OF assms(1)] assms(2) outer_outside by (simp add: qsort_def)

text \<open>The witnesses sort two-byte numbers, least significant byte first.\<close>

definition pair_cmp :: "8 word list \<Rightarrow> 8 word list \<Rightarrow> int" where
  "pair_cmp x y = uint (x ! 0) + 256 * uint (x ! 1) - (uint (y ! 0) + 256 * uint (y ! 1))"

definition pair_compar :: comparator where
  "pair_compar a b m = uint (m a) + 256 * uint (m (a + 1)) - (uint (m b) + 256 * uint (m (b + 1)))"

definition pair_mem :: cmem where
  "pair_mem = put_bytes [3, 1, 2, 0, 1, 1] 40 (\<lambda>_. 9)"

lemma pair_reads: "reads_elements pair_compar 2 pair_cmp"
  by (simp add: reads_elements_def pair_cmp_def pair_compar_def)

lemma pair_elems: "elems 40 3 2 pair_mem = [[3, 1], [2, 0], [1, 1]]"
  by (simp add: elems_def elem_addr_def pair_mem_def numeral_3_eq_3 numeral_2_eq_2 bytes_at_Suc
      put_bytes_apply)

theorem qsort_refines_list_witness:
  "elems 40 3 2 (qsort 40 3 2 (Some pair_compar) pair_mem) = [[2, 0], [1, 1], [3, 1]]"
proof -
  have "outer_list pair_cmp 0 [[3, 1], [2, 0], [1, 1]] = [[2, 0], [1, 1], [3, 1]]" by code_simp
  then show ?thesis
    using qsort_refines_list [OF pair_reads, of 40 3 pair_mem] by (simp add: pair_elems)
qed

text \<open>
  C35. \<^verbatim>\<open>qsort\<close> sorts: for a comparison that reads the two elements and is a total preorder, the
  elements are afterwards in order, and they are the elements that were there.
\<close>

theorem qsort_sorts:
  assumes "reads_elements compar w cmp" and "total_preorder cmp" and "base \<noteq> 0"
  shows "sorted_wrt (\<lambda>x y. cmp x y \<le> 0) (elems base cnt w (qsort base cnt w (Some compar) m)) \<and>
    mset (elems base cnt w (qsort base cnt w (Some compar) m)) = mset (elems base cnt w m)"
  using outer_refines [OF assms(1)] assms(3) outer_list_sorts [OF assms(2), of 0]
  by (simp add: qsort_def mset_outer_list)

theorem qsort_sorts_witness:
  "sorted_wrt (\<lambda>x y. pair_cmp x y \<le> 0) (elems 40 3 2 (qsort 40 3 2 (Some pair_compar) pair_mem)) \<and>
   mset (elems 40 3 2 (qsort 40 3 2 (Some pair_compar) pair_mem)) = {#[3, 1], [2, 0], [1, 1]#}"
proof -
  have "total_preorder pair_cmp" by (simp add: total_preorder_def pair_cmp_def)
  from qsort_sorts [OF pair_reads this, of 40 3 pair_mem] show ?thesis by (simp add: pair_elems)
qed

end
