(* ===== verification/Writes.thy ===== *)
theory Writes
  imports CMemory
begin

text \<open>
  The three loops that hand a block of bytes to the system call \<^verbatim>\<open>write\<close> until all of it is out:
  \<^verbatim>\<open>m1_checked_write\<close> (\<^verbatim>\<open>hcc_m1.c\<close>), \<^verbatim>\<open>checked_write\<close> (\<^verbatim>\<open>hcc_runtime_m2.c\<close>) and the loop of
  \<^verbatim>\<open>hcc_stream_write\<close> (\<^verbatim>\<open>tcc-bootstrap-support.c\<close>). The system call is a parameter: it is handed a
  descriptor and the bytes, and returns its result and the new state of the world. What POSIX
  says of it is \<open>posix_write\<close>. The locale \<open>write_loop\<close> is what the three loops have in common.
\<close>

section \<open>The system call\<close>

type_synonym 'w sys_write = "int \<Rightarrow> 8 word list \<Rightarrow> 'w \<Rightarrow> int \<times> 'w"

text \<open>
  A call that is asked to write some bytes appends a prefix of them to what the descriptor has
  received and returns its length, or returns a number that is not positive and writes nothing.
\<close>

definition posix_write :: "('w \<Rightarrow> int \<Rightarrow> 8 word list) \<Rightarrow> 'w sys_write \<Rightarrow> bool" where
  "posix_write received sys_write \<longleftrightarrow>
     (\<forall>fd bs w. bs \<noteq> [] \<longrightarrow>
       (case sys_write fd bs w of (n, w') \<Rightarrow>
         n \<le> int (length bs) \<and>
         received w' = (received w)(fd := received w fd @ take (nat n) bs)))"

text \<open>A call that fails is one with a result that is not positive.\<close>

definition never_fails :: "'w sys_write \<Rightarrow> bool" where
  "never_fails sys_write \<longleftrightarrow> (\<forall>fd bs w. bs \<noteq> [] \<longrightarrow> 0 < fst (sys_write fd bs w))"

lemma posix_writeD:
  assumes "posix_write received sys_write" and "bs \<noteq> []" and "sys_write fd bs w = (n, w')"
  shows "n \<le> int (length bs)" and "received w' = (received w)(fd := received w fd @ take (nat n) bs)"
  using assms unfolding posix_write_def by (metis (mono_tags, lifting) case_prod_conv)+

lemma never_failsD: "never_fails sys_write \<Longrightarrow> bs \<noteq> [] \<Longrightarrow> 0 < fst (sys_write fd bs w)"
  by (simp add: never_fails_def)

text \<open>What a routine that may end the program leaves: a value, or the status it exits with.\<close>

datatype 'a ran = Ran 'a | Exited int

definition ascii :: "string \<Rightarrow> 8 word list" where
  "ascii s = map (\<lambda>c. of_nat (of_char c)) s"

section \<open>The loops\<close>

text \<open>
  \<^verbatim>\<open>m1_checked_write\<close> and \<^verbatim>\<open>checked_write\<close> are compiled by M2-Planet, where \<^verbatim>\<open>int\<close> and \<^verbatim>\<open>unsigned\<close>
  are machine words (\<^verbatim>\<open>hcc_runtime_m2.c\<close> keeps pointers in \<^verbatim>\<open>unsigned\<close> arrays).
\<close>

partial_function (option) m1_write_loop ::
    "'w sys_write \<Rightarrow> int \<Rightarrow> cmem \<Rightarrow> int \<Rightarrow> 64 word \<Rightarrow> 'w \<Rightarrow> ('w \<times> unit ran) option" where
  "m1_write_loop sys_write fd m data remaining w =
     (if 0 < remaining then
        (case sys_write fd (bytes_at m data (unat remaining)) w of (written, w) \<Rightarrow>
         if written \<le> 0 then
           (case sys_write 2 (ascii ''hcc-m1: output write error\<newline>'') w of (_, w) \<Rightarrow>
            Some (w, Exited 1))
         else
           m1_write_loop sys_write fd m (data + written) (remaining - word_of_int written) w)
      else Some (w, Ran ()))"

definition m1_checked_write ::
    "'w sys_write \<Rightarrow> int \<Rightarrow> cmem \<Rightarrow> int \<Rightarrow> 64 word \<Rightarrow> 'w \<Rightarrow> ('w \<times> 64 word ran) option" where
  "m1_checked_write sys_write fd m data cnt w =
     map_option (\<lambda>(w, r). (w, case r of Ran _ \<Rightarrow> Ran cnt | Exited s \<Rightarrow> Exited s))
       (m1_write_loop sys_write fd m data cnt w)"

text \<open>
  \<^verbatim>\<open>output_failure\<close> prints to \<^verbatim>\<open>stderr\<close> by the library's \<^verbatim>\<open>fputs\<close>, here a parameter, and exits.
\<close>

definition output_failure :: "(string \<Rightarrow> 'w \<Rightarrow> 'w) \<Rightarrow> 'w \<Rightarrow> 'w \<times> 'a ran" where
  "output_failure fputs_stderr w = (fputs_stderr ''hcc runtime: output error\<newline>'' w, Exited 1)"

partial_function (option) checked_write ::
    "(string \<Rightarrow> 'w \<Rightarrow> 'w) \<Rightarrow> 'w sys_write \<Rightarrow> int \<Rightarrow> cmem \<Rightarrow> int \<Rightarrow> 64 word \<Rightarrow> 'w \<Rightarrow>
     ('w \<times> unit ran) option" where
  "checked_write fputs_stderr sys_write fd m data len w =
     (if 0 < len then
        (case sys_write fd (bytes_at m data (unat len)) w of (written, w) \<Rightarrow>
         if written \<le> 0 then Some (output_failure fputs_stderr w)
         else
           checked_write fputs_stderr sys_write fd m (data + written)
             (len - word_of_int written) w)
      else Some (w, Ran ()))"

text \<open>
  The loop of \<^verbatim>\<open>hcc_stream_write\<close>: the number of bytes done, and whether the error mark is set.
\<close>

partial_function (option) stream_write_loop ::
    "'w sys_write \<Rightarrow> int \<Rightarrow> cmem \<Rightarrow> int \<Rightarrow> 64 word \<Rightarrow> 64 word \<Rightarrow> 'w \<Rightarrow>
     ('w \<times> 64 word \<times> bool) option" where
  "stream_write_loop sys_write fd m p cnt finished w =
     (if finished < cnt then
        let chunk = cnt - finished;
            chunk = (if 0x7fffffff < chunk then 0x7fffffff else chunk)
        in
        (case sys_write fd (bytes_at m (p + uint finished) (unat chunk)) w of (n, w) \<Rightarrow>
         if n \<le> 0 then Some (w, finished, True)
         else stream_write_loop sys_write fd m p cnt (finished + word_of_int n) w)
      else Some (w, finished, False))"

section \<open>What they share\<close>

text \<open>
  A loop over an address and a number of bytes. \<open>limit\<close> is the most one call is asked to write,
  \<open>bound\<close> the numbers of bytes the loop's counter can hold; the loop's equations need hold only
  for a call that does not claim to have written more than it was given.
\<close>

locale write_loop =
  fixes sys_write :: "'w sys_write" and fd :: int and m :: cmem
    and limit :: nat and bound :: nat
    and loop :: "int \<Rightarrow> nat \<Rightarrow> 'w \<Rightarrow> 'r option"
    and complete :: "'w \<Rightarrow> 'r" and failed :: "nat \<Rightarrow> 'w \<Rightarrow> 'r"
  assumes limit_pos: "0 < limit"
    and loop_end: "loop p 0 w = Some (complete w)"
    and loop_step: "0 < n \<Longrightarrow> n \<le> bound \<Longrightarrow>
      sys_write fd (bytes_at m p (min n limit)) w = (k, w') \<Longrightarrow> k \<le> int (min n limit) \<Longrightarrow>
      loop p n w = (if k \<le> 0 then Some (failed n w') else loop (p + k) (n - nat k) w')"
begin

lemma writes_all_or_fails:
  assumes "posix_write received sys_write"
  shows "n \<le> bound \<Longrightarrow>
    \<exists>w' left. left \<le> n \<and>
      received w' = (received w)(fd := received w fd @ bytes_at m p (n - left)) \<and>
      loop p n w = Some (if left = 0 then complete w' else failed left w') \<and>
      (never_fails sys_write \<longrightarrow> left = 0)"
proof (induction n arbitrary: p w rule: less_induct)
  case (less n)
  show ?case
  proof (cases "n = 0")
    case True
    then show ?thesis
      by (intro exI [of _ w] exI [of _ 0]) (simp add: loop_end)
  next
    case False
    let ?bs = "bytes_at m p (min n limit)"
    obtain k w1 where call: "sys_write fd ?bs w = (k, w1)" by fastforce
    have ne: "?bs \<noteq> []" using False limit_pos by (metis length_bytes_at list.size(3) min_def neq0_conv)
    have post: "k \<le> int (min n limit)" "received w1 = (received w)(fd := received w fd @ take (nat k) ?bs)"
      using assms ne call by (auto simp: posix_write_def dest!: spec [of _ fd] spec [of _ ?bs] spec [of _ w])
    have step: "loop p n w = (if k \<le> 0 then Some (failed n w1) else loop (p + k) (n - nat k) w1)"
      using loop_step [OF _ less.prems call post(1)] False by simp
    show ?thesis
    proof (cases "k \<le> 0")
      case True
      moreover have "\<not> never_fails sys_write"
        using True call ne never_failsD [of sys_write ?bs fd w] by auto
      ultimately show ?thesis using step post False
        by (intro exI [of _ w1] exI [of _ n]) simp
    next
      case k: False
      let ?k = "nat k"
      from k post(1) have kn: "?k \<le> min n limit" "0 < ?k" by auto
      have "n - ?k < n" "n - ?k \<le> bound" using kn less.prems by auto
    from less.IH [OF this, of w1 "p + k"] obtain w' left where
        IH: "left \<le> n - ?k"
        "received w' = (received w1)(fd := received w1 fd @ bytes_at m (p + k) (n - ?k - left))"
        "loop (p + k) (n - ?k) w1 = Some (if left = 0 then complete w' else failed left w')"
        "never_fails sys_write \<longrightarrow> left = 0"
        by blast
      have "?k + (n - ?k - left) = n - left" using kn IH(1) by arith
      then have "take ?k ?bs @ bytes_at m (p + k) (n - ?k - left) = bytes_at m p (n - left)"
        using kn IH(1) k bytes_at_append [of m p ?k "n - ?k - left"]
        by (simp del: diff_diff_left)
      with IH kn k step post(2) show ?thesis
        by (intro exI [of _ w'] exI [of _ left]) auto
    qed
  qed
qed

end

lemma unat_minus_of_int:
  "0 < k \<Longrightarrow> k \<le> int n \<Longrightarrow> (of_nat n :: 'a::len word) - word_of_int k = of_nat (n - nat k)"
  by (simp add: of_nat_diff)

lemma case_snd: "(case x of (_, w) \<Rightarrow> f w) = f (snd x)"
  by (cases x) simp

interpretation m1: write_loop sys_write fd m "2 ^ 64" "2 ^ 64 - 1"
    "\<lambda>p n w. m1_write_loop sys_write fd m p (of_nat n) w" "\<lambda>w. (w, Ran ())"
    "\<lambda>n w. (snd (sys_write 2 (ascii ''hcc-m1: output write error\<newline>'') w), Exited 1)"
  for sys_write fd m
proof
  fix p n w k w'
  assume n: "0 < n" "n \<le> 2 ^ 64 - 1"
    and call: "sys_write fd (bytes_at m p (min n (2 ^ 64))) w = (k, w')"
    and k: "k \<le> int (min n (2 ^ 64))"
  from n have u: "unat (of_nat n :: 64 word) = n" by (simp add: unat_of_nat)
  then have pos: "0 < (of_nat n :: 64 word)" using n by (simp add: word_less_nat_alt)
  from n have "min n (2 ^ 64) = n" by simp
  with call k u pos show "m1_write_loop sys_write fd m p (of_nat n) w =
    (if k \<le> 0 then Some (snd (sys_write 2 (ascii ''hcc-m1: output write error\<newline>'') w'), Exited 1)
     else m1_write_loop sys_write fd m (p + k) (of_nat (n - nat k)) w')"
    by (simp add: m1_write_loop.simps [of sys_write fd m p "of_nat n" w] unat_minus_of_int case_snd del: unat_of_nat of_nat_diff)
next
  show "m1_write_loop sys_write fd m p (of_nat 0) w = Some (w, Ran ())" for p w
    by (simp add: m1_write_loop.simps)
qed simp


interpretation m2: write_loop sys_write fd m "2 ^ 64" "2 ^ 64 - 1"
    "\<lambda>p n w. checked_write fputs_stderr sys_write fd m p (of_nat n) w" "\<lambda>w. (w, Ran ())"
    "\<lambda>n w. output_failure fputs_stderr w"
  for fputs_stderr :: "string \<Rightarrow> 'w \<Rightarrow> 'w" and sys_write fd m
proof
  fix p n and w w' :: 'w and k
  assume n: "0 < n" "n \<le> 2 ^ 64 - 1"
    and call: "sys_write fd (bytes_at m p (min n (2 ^ 64))) w = (k, w')"
    and k: "k \<le> int (min n (2 ^ 64))"
  from n have u: "unat (of_nat n :: 64 word) = n" by (simp add: unat_of_nat)
  then have pos: "0 < (of_nat n :: 64 word)" using n by (simp add: word_less_nat_alt)
  from n have "min n (2 ^ 64) = n" by simp
  with call k u pos show "checked_write fputs_stderr sys_write fd m p (of_nat n) w =
    (if k \<le> 0 then Some (output_failure fputs_stderr w')
     else checked_write fputs_stderr sys_write fd m (p + k) (of_nat (n - nat k)) w')"
    by (simp add: checked_write.simps [of fputs_stderr sys_write fd m p "of_nat n" w]
        unat_minus_of_int del: unat_of_nat of_nat_diff)
next
  show "checked_write fputs_stderr sys_write fd m p (of_nat 0) w = Some (w, Ran ())" for p w
    by (simp add: checked_write.simps)
qed simp

text \<open>
  The loop of \<^verbatim>\<open>hcc_stream_write\<close> counts up, and asks for at most \<open>0x7fffffff\<close> bytes at a time; seen
  from the bytes that are left it is the same loop.
\<close>

interpretation stream: write_loop sys_write fd m "0x7fffffff" "unat cnt"
    "\<lambda>q n w. stream_write_loop sys_write fd m (q - int (unat cnt - n)) cnt (cnt - of_nat n) w"
    "\<lambda>w. (w, cnt, False)" "\<lambda>n w. (w, cnt - of_nat n, True)"
  for sys_write fd m and cnt :: "64 word"
proof
  fix q n w k w'
  assume n: "0 < n" "n \<le> unat cnt"
    and call: "sys_write fd (bytes_at m q (min n 0x7fffffff)) w = (k, w')"
    and k: "k \<le> int (min n 0x7fffffff)"
  let ?d = "cnt - of_nat n"
  from n have n64: "n < 2 ^ 64" using unsigned_less [of cnt, where 'a = nat] by simp
  then have u: "unat (of_nat n :: 64 word) = n" by (simp add: unat_of_nat)
  have d: "unat ?d = unat cnt - n" using n u by (simp add: unat_sub word_le_nat_alt)
  have less: "?d < cnt" using d n by (simp add: word_less_nat_alt)
  have left: "cnt - ?d = of_nat n" by simp
  let ?chunk = "if 0x7fffffff < (of_nat n :: 64 word) then 0x7fffffff else of_nat n :: 64 word"
  have chunk: "unat ?chunk = min n 0x7fffffff"
    using u by (auto simp: word_less_nat_alt)
  have at: "q - int (unat cnt - n) + uint ?d = q"
    using d by (simp add: uint_nat)
  have step: "stream_write_loop sys_write fd m (q - int (unat cnt - n)) cnt ?d w =
    (if k \<le> 0 then Some (w', ?d, True)
     else stream_write_loop sys_write fd m (q - int (unat cnt - n)) cnt (?d + word_of_int k) w')"
    using call chunk at less left by (subst stream_write_loop.simps) (simp add: Let_def)
  show "stream_write_loop sys_write fd m (q - int (unat cnt - n)) cnt ?d w =
    (if k \<le> 0 then Some (w', ?d, True)
     else stream_write_loop sys_write fd m (q + k - int (unat cnt - (n - nat k))) cnt
       (cnt - of_nat (n - nat k)) w')"
  proof (cases "k \<le> 0")
    case False
    then have kn: "nat k \<le> n" "int (nat k) = k" using k by auto
    then have "word_of_int k = (of_nat (nat k) :: 64 word)" by (metis of_int_of_nat_eq)
    with kn(1) have "?d + word_of_int k = cnt - of_nat (n - nat k)"
      by (simp add: algebra_simps)
    moreover have "q - int (unat cnt - n) = q + k - int (unat cnt - (n - nat k))"
      using kn n by simp
    ultimately show ?thesis using False step by (simp only: if_False)
  qed (use step in simp)
next
  show "stream_write_loop sys_write fd m (q - int (unat cnt - 0)) cnt (cnt - of_nat 0) w = Some (w, cnt, False)"
    for q w
    by (simp add: stream_write_loop.simps)
qed simp


section \<open>What the routines promise\<close>

text \<open>
  C25. \<^verbatim>\<open>m1_checked_write\<close> always returns or exits. If it returns, with the count, the descriptor
  has received all the bytes, in order and once each; otherwise it has received a proper prefix
  of them when the message is sent to descriptor 2 and the program exits with status 1. It does
  not exit when no call fails.
\<close>

theorem m1_checked_write_complete:
  assumes "posix_write received sys_write"
  shows "\<exists>w' left. left \<le> unat cnt \<and>
    received w' = (received w)(fd := received w fd @ bytes_at m data (unat cnt - left)) \<and>
    m1_checked_write sys_write fd m data cnt w =
      Some (if left = 0 then (w', Ran cnt)
        else (snd (sys_write 2 (ascii ''hcc-m1: output write error\<newline>'') w'), Exited 1)) \<and>
    (never_fails sys_write \<longrightarrow> left = 0)"
proof -
  have "unat cnt \<le> 2 ^ 64 - 1" using unsigned_less [of cnt, where 'a = nat] by simp
  from m1.writes_all_or_fails [OF assms this, of w fd m data] obtain w' left where
    "left \<le> unat cnt"
    "received w' = (received w)(fd := received w fd @ bytes_at m data (unat cnt - left))"
    "m1_write_loop sys_write fd m data cnt w = Some (if left = 0 then (w', Ran ())
      else (snd (sys_write 2 (ascii ''hcc-m1: output write error\<newline>'') w'), Exited 1))"
    "never_fails sys_write \<longrightarrow> left = 0"
    by auto
  then show ?thesis
    by (intro exI [of _ w'] exI [of _ left]) (simp add: m1_checked_write_def)
qed

text \<open>
  A kernel that writes at most two bytes at a time and refuses to write to descriptors above 9:
  the state is what each descriptor has received.
\<close>

definition slow_write :: "(int \<Rightarrow> 8 word list) sys_write" where
  "slow_write fd bs w =
     (if 9 < fd then (- 1, w)
      else (int (min 2 (length bs)), w(fd := w fd @ take 2 bs)))"

lemma slow_write_posix: "posix_write (\<lambda>w. w) slow_write"
  by (simp add: posix_write_def slow_write_def min_def)

theorem m1_checked_write_complete_witness:
  "\<exists>w' left. left \<le> 3 \<and>
    w' = (\<lambda>_. [])(1 := bytes_at (\<lambda>a. word_of_int a) 65 (3 - left)) \<and>
    m1_checked_write slow_write 1 (\<lambda>a. word_of_int a) 65 3 (\<lambda>_. []) =
      Some (if left = 0 then (w', Ran 3)
        else (snd (slow_write 2 (ascii ''hcc-m1: output write error\<newline>'') w'), Exited 1))"
  using m1_checked_write_complete [OF slow_write_posix, of 3 "\<lambda>_. []" 1 "\<lambda>a. word_of_int a" 65]
  by auto

end
