(* ===== verification/SupportFormat.thy ===== *)
theory SupportFormat
  imports Writes
begin

text \<open>
  The formatted output of \<^verbatim>\<open>tcc-bootstrap-support.c\<close>: the \<^verbatim>\<open>hcc_append_*\<close> functions, \<^verbatim>\<open>hcc_vformat\<close>
  behind \<^verbatim>\<open>sprintf\<close>, \<^verbatim>\<open>snprintf\<close> and \<^verbatim>\<open>fprintf\<close>, and the \<^verbatim>\<open>vsnprintf\<close> of the build by TinyCC.
  Arguments are 64-bit words; a string argument is an address in memory, with 0 the null pointer.
  A loop that runs to the end of a string is a \<open>partial_function\<close>.
\<close>

section \<open>Appending\<close>

text \<open>
  What the functions thread: the memory, the address of the next byte (\<^verbatim>\<open>out\<close>) and the number of
  bytes so far (\<^verbatim>\<open>*total\<close>), a C \<^verbatim>\<open>int\<close> that wraps. \<open>en\<close> is the C code's \<^verbatim>\<open>end\<close>.
\<close>

record sink =
  smem :: cmem
  sout :: int
  stotal :: int

definition hcc_append_char :: "int \<Rightarrow> int \<Rightarrow> sink \<Rightarrow> sink" where
  "hcc_append_char en c s =
     (let s = (if sout s < en
               then s\<lparr>smem := (smem s)(sout s := word_of_int c), sout := sout s + 1\<rparr> else s)
      in s\<lparr>stotal := c_int (stotal s + 1)\<rparr>)"

text \<open>The character at an index of a string argument, where null stands for the text (null).\<close>

definition null_text :: "8 word list" where
  "null_text = ascii ''(null)'' @ [0]"

definition text_at :: "cmem \<Rightarrow> int \<Rightarrow> int \<Rightarrow> 8 word" where
  "text_at m p i = (if p = 0 then null_text ! nat i else m (p + i))"

partial_function (option) append_string_from :: "int \<Rightarrow> int \<Rightarrow> int \<Rightarrow> sink \<Rightarrow> sink option" where
  "append_string_from en p i s =
     (if text_at (smem s) p i \<noteq> 0
      then append_string_from en p (i + 1) (hcc_append_char en (sint (text_at (smem s) p i)) s)
      else Some s)"

definition hcc_append_string :: "int \<Rightarrow> int \<Rightarrow> sink \<Rightarrow> sink option" where
  "hcc_append_string en p s = append_string_from en p 0 s"

partial_function (option) append_limit_from :: "int \<Rightarrow> int \<Rightarrow> int \<Rightarrow> int \<Rightarrow> sink \<Rightarrow> sink option" where
  "append_limit_from en p limit n s =
     (if text_at (smem s) p n \<noteq> 0 \<and> (limit < 0 \<or> n < limit)
      then append_limit_from en p limit (n + 1) (hcc_append_char en (sint (text_at (smem s) p n)) s)
      else Some s)"

definition hcc_append_string_limit :: "int \<Rightarrow> int \<Rightarrow> int \<Rightarrow> sink \<Rightarrow> sink option" where
  "hcc_append_string_limit en p limit s = append_limit_from en p limit 0 s"

partial_function (option) string_len_from :: "cmem \<Rightarrow> int \<Rightarrow> int \<Rightarrow> int option" where
  "string_len_from m p n =
     (if text_at m p n \<noteq> 0 then string_len_from m p (c_int (n + 1)) else Some n)"

definition hcc_string_len :: "cmem \<Rightarrow> int \<Rightarrow> int option" where
  "hcc_string_len m p = string_len_from m p 0"

partial_function (option) string_n_len_from :: "cmem \<Rightarrow> int \<Rightarrow> int \<Rightarrow> int \<Rightarrow> int option" where
  "string_n_len_from m p limit n =
     (if text_at m p n \<noteq> 0 \<and> (limit < 0 \<or> n < limit) then string_n_len_from m p limit (c_int (n + 1))
      else Some n)"

definition hcc_string_n_len :: "cmem \<Rightarrow> int \<Rightarrow> int \<Rightarrow> int option" where
  "hcc_string_n_len m p limit = string_n_len_from m p limit 0"

partial_function (option) unsigned_len_from :: "int \<Rightarrow> 64 word \<Rightarrow> 64 word \<Rightarrow> int option" where
  "unsigned_len_from n v base =
     (if base \<le> v then unsigned_len_from (n + 1) (v div base) base else Some n)"

definition hcc_unsigned_len :: "64 word \<Rightarrow> int \<Rightarrow> int option" where
  "hcc_unsigned_len v base = unsigned_len_from 1 v (word_of_int base)"

definition hcc_signed_len :: "64 word \<Rightarrow> int option" where
  "hcc_signed_len v =
     (if sint v < 0 then map_option (\<lambda>n. 1 + n) (hcc_unsigned_len (- v) 10)
      else hcc_unsigned_len v 10)"

text \<open>The width is an \<^verbatim>\<open>int\<close> above \<open>used\<close> whenever it is lowered, so this does not wrap.\<close>

function hcc_append_padding :: "int \<Rightarrow> int \<Rightarrow> int \<Rightarrow> sink \<Rightarrow> sink" where
  "hcc_append_padding en width used s =
     (if used < width then hcc_append_padding en (width - 1) used (hcc_append_char en 32 s) else s)"
  by pat_completeness auto
termination
  by (relation "measure (\<lambda>(en, width, used, s). nat (width - used))") auto

declare hcc_append_padding.simps [simp del]

text \<open>
  The digits of a number, the least significant first in the array; the list holds the array's
  used part in the order in which it is printed.
\<close>

definition digit_code :: "64 word \<Rightarrow> int" where
  "digit_code d = (if d < 10 then 48 + uint d else 97 + uint d - 10)"

partial_function (option) digits_of :: "64 word \<Rightarrow> 64 word \<Rightarrow> int list \<Rightarrow> int list option" where
  "digits_of v base digits =
     (if v \<noteq> 0 then digits_of (v div base) base (digit_code (v mod base) # digits) else Some digits)"

fun append_digits :: "int \<Rightarrow> int list \<Rightarrow> sink \<Rightarrow> sink" where
  "append_digits en [] s = s"
| "append_digits en (d # ds) s = append_digits en ds (hcc_append_char en d s)"

definition hcc_append_unsigned :: "int \<Rightarrow> 64 word \<Rightarrow> int \<Rightarrow> sink \<Rightarrow> sink option" where
  "hcc_append_unsigned en v base s =
     (if v = 0 then Some (hcc_append_char en 48 s)
      else map_option (\<lambda>ds. append_digits en ds s) (digits_of v (word_of_int base) []))"

definition hcc_append_signed :: "int \<Rightarrow> 64 word \<Rightarrow> sink \<Rightarrow> sink option" where
  "hcc_append_signed en v s =
     (if sint v < 0 then hcc_append_unsigned en (- v) 10 (hcc_append_char en 45 s)
      else hcc_append_unsigned en v 10 s)"

section \<open>hcc_vformat\<close>

definition hcc_format_arg :: "int \<Rightarrow> 64 word \<Rightarrow> 64 word \<Rightarrow> 64 word \<Rightarrow> 64 word" where
  "hcc_format_arg i a b c = (if i = 0 then a else if i = 1 then b else c)"

text \<open>Reading a decimal number in a format, into an \<^verbatim>\<open>int\<close>.\<close>

partial_function (option) format_number :: "cmem \<Rightarrow> int \<Rightarrow> int \<Rightarrow> (int \<times> int) option" where
  "format_number m fmt n =
     (if 48 \<le> m fmt \<and> m fmt \<le> 57 then format_number m (fmt + 1) (c_int (n * 10 + uint (m fmt) - 48))
      else Some (n, fmt))"

text \<open>Padding on the left or on the right of what \<open>act\<close> appends.\<close>

definition with_padding ::
    "int \<Rightarrow> bool \<Rightarrow> int \<Rightarrow> int option \<Rightarrow> (sink \<Rightarrow> sink option) \<Rightarrow> sink \<Rightarrow> sink option" where
  "with_padding en left width used act s =
     Option.bind used (\<lambda>used.
     map_option (\<lambda>s. if left then hcc_append_padding en width used s else s)
       (act (if left then s else hcc_append_padding en width used s)))"

text \<open>
  One conversion of \<^verbatim>\<open>hcc_vformat\<close>: what is appended for the character after the flags, and how many
  arguments it takes.
\<close>

definition vformat_conversion ::
    "int \<Rightarrow> bool \<Rightarrow> int \<Rightarrow> 8 word \<Rightarrow> 64 word \<Rightarrow> sink \<Rightarrow> (sink \<times> int) option" where
  "vformat_conversion en left width c v s =
     (if c = 115 then
        map_option (\<lambda>s. (s, 1)) (with_padding en left width (hcc_string_len (smem s) (uint v))
          (hcc_append_string en (uint v)) s)
      else if c = 100 \<or> c = 105 then
        map_option (\<lambda>s. (s, 1)) (with_padding en left width (hcc_signed_len v)
          (hcc_append_signed en v) s)
      else if c = 117 then
        map_option (\<lambda>s. (s, 1)) (with_padding en left width (hcc_unsigned_len v 10)
          (hcc_append_unsigned en v 10) s)
      else if c = 120 \<or> c = 88 then
        map_option (\<lambda>s. (s, 1)) (with_padding en left width (hcc_unsigned_len v 16)
          (hcc_append_unsigned en v 16) s)
      else if c = 99 then
        map_option (\<lambda>s. (s, 1)) (with_padding en left width (Some 1)
          (\<lambda>s. Some (hcc_append_char en (sint v) s)) s)
      else if c = 37 then Some (hcc_append_char en 37 s, 0)
      else Some (hcc_append_char en (sint c) (hcc_append_char en 37 s), 1))"

text \<open>What follows a percent sign: the new sink, the next argument and the rest of the format.\<close>

definition vformat_directive ::
    "int \<Rightarrow> (int \<Rightarrow> 64 word) \<Rightarrow> int \<Rightarrow> int \<Rightarrow> sink \<Rightarrow> (sink \<times> int \<times> int) option" where
  "vformat_directive en args fmt arg s =
     (let left = (smem s fmt = 45);
          fmt = (if left then fmt + 1 else fmt)
      in
      Option.bind (format_number (smem s) fmt 0) (\<lambda>(width, fmt).
      let fmt = (if smem s fmt = 108 then fmt + 1 else fmt); c = smem s fmt in
      map_option (\<lambda>(s, taken). (s, c_int (arg + taken), if smem s fmt \<noteq> 0 then fmt + 1 else fmt))
        (vformat_conversion en left width c (args arg) s)))"

partial_function (option) vformat_loop ::
    "int \<Rightarrow> (int \<Rightarrow> 64 word) \<Rightarrow> int \<Rightarrow> int \<Rightarrow> sink \<Rightarrow> sink option" where
  "vformat_loop en args fmt arg s =
     (if smem s fmt = 0 then Some s
      else if smem s fmt \<noteq> 37 then
        vformat_loop en args (fmt + 1) arg (hcc_append_char en (sint (smem s fmt)) s)
      else
        Option.bind (vformat_directive en args (fmt + 1) arg s) (\<lambda>(s, arg, fmt).
        vformat_loop en args fmt arg s))"

definition hcc_vformat ::
    "int \<Rightarrow> 32 word \<Rightarrow> int \<Rightarrow> 64 word \<Rightarrow> 64 word \<Rightarrow> 64 word \<Rightarrow> cmem \<Rightarrow> (int \<times> cmem) option" where
  "hcc_vformat out width fmt a b c m =
     (let en = (if width \<noteq> 0 then out + uint width - 1 else out) in
      map_option
        (\<lambda>s. (stotal s, if width \<noteq> 0 then (smem s)(sout s := 0) else smem s))
        (vformat_loop en (\<lambda>i. hcc_format_arg i a b c) fmt 0 \<lparr>smem = m, sout = out, stotal = 0\<rparr>))"

definition sprintf :: "int \<Rightarrow> int \<Rightarrow> 64 word \<Rightarrow> 64 word \<Rightarrow> 64 word \<Rightarrow> cmem \<Rightarrow> (int \<times> cmem) option" where
  "sprintf out fmt a b c m = hcc_vformat out 0xffffffff fmt a b c m"

definition snprintf ::
    "int \<Rightarrow> 32 word \<Rightarrow> int \<Rightarrow> 64 word \<Rightarrow> 64 word \<Rightarrow> 64 word \<Rightarrow> cmem \<Rightarrow> (int \<times> cmem) option" where
  "snprintf out width fmt a b c m = hcc_vformat out width fmt a b c m"


section \<open>What a sink holds\<close>

text \<open>
  \<open>holds m lo en t s\<close>: starting at \<open>lo\<close> in memory \<open>m\<close>, the bytes \<open>t\<close> have been appended to
  \<open>s\<close>; those that did not fit below \<open>en\<close> were counted and dropped. The count is an \<^verbatim>\<open>int\<close>.
\<close>

definition holds :: "cmem \<Rightarrow> int \<Rightarrow> int \<Rightarrow> 8 word list \<Rightarrow> sink \<Rightarrow> bool" where
  "holds m lo en t s \<longleftrightarrow>
     smem s = put_bytes (take (nat (en - lo)) t) lo m \<and>
     sout s = lo + int (length (take (nat (en - lo)) t)) \<and> stotal s = c_int (int (length t))"

lemma put_bytes_append: "put_bytes (xs @ ys) p m = put_bytes ys (p + int (length xs)) (put_bytes xs p m)"
  by (induction xs arbitrary: p m) (auto simp: add.assoc)

lemma holds_append_char:
  "holds m lo en t s \<Longrightarrow> holds m lo en (t @ [word_of_int c]) (hcc_append_char en c s)"
  by (cases "length t < nat (en - lo)")
    (auto simp: holds_def hcc_append_char_def Let_def put_bytes_append min_def
      c_int_plus c_int_plus_right add.commute)

lemma holds_char: "holds m lo en t s \<Longrightarrow> holds m lo en (t @ [b]) (hcc_append_char en (sint b) s)"
  using holds_append_char [of m lo en t s "sint b"] by simp

lemma holds_outside: "holds m lo en t s \<Longrightarrow> a < lo \<or> en \<le> a \<Longrightarrow> smem s a = m a"
  by (auto simp: holds_def put_bytes_apply)

lemma holds_start: "holds m lo en [] \<lparr>smem = m, sout = lo, stotal = 0\<rparr>"
  by (simp add: holds_def)

lemma holds_padding:
  "holds m lo en t s \<Longrightarrow>
   holds m lo en (t @ replicate (nat (width - used)) 32) (hcc_append_padding en width used s)"
proof (induction en width used s arbitrary: t rule: hcc_append_padding.induct)
  case (1 en width used s)
  show ?case
  proof (cases "used < width")
    case True
    then have "nat (width - used) = Suc (nat (width - 1 - used))" by simp
    with "1.IH" [OF True holds_append_char [OF "1.prems", of 32]] True show ?thesis
      by (subst hcc_append_padding.simps) simp
  qed (use "1.prems" in \<open>subst hcc_append_padding.simps, simp\<close>)
qed

lemma holds_digits:
  "holds m lo en t s \<Longrightarrow> holds m lo en (t @ map word_of_int ds) (append_digits en ds s)"
proof (induction ds arbitrary: t s)
  case (Cons d ds)
  from Cons.IH [OF holds_append_char [OF Cons.prems, of d]] show ?case by simp
qed simp

section \<open>Texts of numbers\<close>

text \<open>The numeral of a number in a base, in the code's digits.\<close>

definition digit_byte :: "nat \<Rightarrow> 8 word" where
  "digit_byte d = of_nat (if d < 10 then 48 + d else 87 + d)"

function numeral_text :: "nat \<Rightarrow> nat \<Rightarrow> 8 word list" where
  "numeral_text b n =
     (if b < 2 \<or> n < b then [digit_byte n] else numeral_text b (n div b) @ [digit_byte (n mod b)])"
  by pat_completeness auto
termination
  by (relation "measure snd") auto

declare numeral_text.simps [simp del]

definition signed_text :: "64 word \<Rightarrow> 8 word list" where
  "signed_text v = (if sint v < 0 then 45 # numeral_text 10 (unat (- v)) else numeral_text 10 (unat v))"

lemma numeral_text_dec: "numeral_text 10 n = ascii (dec_nat n)"
proof (induction n rule: dec_nat.induct)
  case (1 n)
  then show ?case
    by (subst numeral_text.simps, subst dec_nat.simps)
      (auto simp: ascii_def digit_byte_def)
qed

lemma unat_uminus_negative: "sint v < 0 \<Longrightarrow> unat (- v) = nat (- sint (v :: 64 word))"
proof -
  assume neg: "sint v < 0"
  then have "sint v = uint v - 2 ^ 64" by (auto simp: sint_uint_64 split: if_splits)
  moreover have "uint v \<noteq> 0" using neg by (auto simp: uint_0_iff)
  moreover have "uint v mod 2 ^ 64 = uint v" using uint_lt2p [of v] by simp
  ultimately show ?thesis
    by (simp add: unat_eq_nat_uint uint_word_ariths zmod_zminus1_eq_if)
qed

lemma sint_nonneg_64: "0 \<le> sint v \<Longrightarrow> sint v = uint (v :: 64 word)"
  using uint_lt2p [of v] by (auto simp: sint_uint_64 split: if_splits)

lemma signed_text_dec: "signed_text v = ascii (dec (sint v))"
proof (cases "sint v < 0")
  case True
  with unat_uminus_negative [OF True] show ?thesis
    by (simp add: signed_text_def dec_def numeral_text_dec ascii_def)
next
  case False
  then show ?thesis by (simp add: signed_text_def dec_def numeral_text_dec sint_nonneg_64)
qed

lemma unat_base: "1 < b \<Longrightarrow> b < 2 ^ 64 \<Longrightarrow> unat (of_nat b :: 64 word) = b"
  by (simp add: unat_of_nat)

lemma digits_of_numeral:
  assumes "1 < b" and "b < 37"
  shows "v \<noteq> 0 \<Longrightarrow> \<exists>ds. digits_of v (of_nat b) acc = Some (ds @ acc) \<and>
    map word_of_int ds = numeral_text b (unat v)"
proof (induction "unat v" arbitrary: v acc rule: less_induct)
  case less
  let ?b = "of_nat b :: 64 word"
  have b: "unat ?b = b" using assms by (simp add: unat_base)
  have digit: "word_of_int (digit_code (v mod ?b)) = digit_byte (unat (v mod ?b))"
  proof -
    define d where "d = unat (v mod ?b)"
    have "uint (v mod ?b) = int d" "v mod ?b < 10 \<longleftrightarrow> d < 10"
      unfolding d_def word_less_nat_alt by simp_all
    then show ?thesis
      unfolding d_def [symmetric] by (simp add: digit_code_def digit_byte_def)
  qed
  have mod: "unat (v mod ?b) = unat v mod b" and div: "unat (v div ?b) = unat v div b"
    by (simp_all add: unat_mod unat_div b)
  show ?case
  proof (cases "v div ?b = 0")
    case True
    then have "unat v div b = 0" using div by simp
    then have small: "unat v < b" using assms(1) by (simp add: div_eq_0_iff)
    with True less.prems digit mod show ?thesis
      by (subst digits_of.simps, subst digits_of.simps) (subst numeral_text.simps, simp)
  next
    case False
    have "unat (v div ?b) < unat v"
      using less.prems assms(1) div by (simp add: unat_gt_0)
    from less.hyps [OF this False, of "digit_code (v mod ?b) # acc"] obtain ds where
      ds: "digits_of (v div ?b) ?b (digit_code (v mod ?b) # acc) = Some (ds @ digit_code (v mod ?b) # acc)"
      "map word_of_int ds = numeral_text b (unat (v div ?b))" by blast
    have big: "\<not> unat v < b" using False div by (metis div_less unat_eq_zero)
    show ?thesis
      using ds less.prems digit mod div big assms(1)
      by (intro exI [of _ "ds @ [digit_code (v mod ?b)]"])
        (subst digits_of.simps, subst numeral_text.simps, simp)
  qed
qed


lemma append_unsigned_holds:
  assumes "1 < b" and "b < 37" and "holds m lo en t s"
  shows "\<exists>s'. hcc_append_unsigned en v (int b) s = Some s' \<and>
    holds m lo en (t @ numeral_text b (unat v)) s'"
proof (cases "v = 0")
  case True
  with assms holds_append_char [OF assms(3), of 48] show ?thesis
    by (subst numeral_text.simps) (simp add: hcc_append_unsigned_def digit_byte_def)
next
  case False
  from digits_of_numeral [OF assms(1,2) False, of "[]"] obtain ds where
    "digits_of v (word_of_int (int b)) [] = Some ds" "map word_of_int ds = numeral_text b (unat v)"
    by auto
  with False holds_digits [OF assms(3), of ds] show ?thesis
    by (simp add: hcc_append_unsigned_def)
qed

lemma append_signed_holds:
  assumes "holds m lo en t s"
  shows "\<exists>s'. hcc_append_signed en v s = Some s' \<and> holds m lo en (t @ signed_text v) s'"
proof (cases "sint v < 0")
  case True
  from append_unsigned_holds [of 10, OF _ _ holds_append_char [OF assms, of 45], of "- v"] True
  show ?thesis by (auto simp: hcc_append_signed_def signed_text_def)
next
  case False
  from append_unsigned_holds [of 10, OF _ _ assms, of v] False
  show ?thesis by (auto simp: hcc_append_signed_def signed_text_def)
qed

lemma length_numeral_text: "1 < b \<Longrightarrow> n < b ^ Suc k \<Longrightarrow> length (numeral_text b n) \<le> Suc k"
proof (induction k arbitrary: n)
  case 0
  then show ?case by (subst numeral_text.simps) simp
next
  case (Suc k)
  then have "n div b < b ^ Suc k" by (simp add: less_mult_imp_div_less mult.commute)
  with Suc show ?case by (subst numeral_text.simps) simp
qed

text \<open>The 32 digits of the array are enough for the bases in use.\<close>

lemma digits_fit: "b = 10 \<or> b = 16 \<Longrightarrow> length (numeral_text b (unat (v :: 64 word))) \<le> 20"
  using length_numeral_text [of b "unat v" 19] unsigned_less [of v, where 'a = nat] by auto

lemma unsigned_len_numeral:
  assumes "1 < b" and "b < 37"
  shows "unsigned_len_from n v (of_nat b) = Some (n - 1 + int (length (numeral_text b (unat v))))"
proof (induction "unat v" arbitrary: n v rule: less_induct)
  case less
  let ?b = "of_nat b :: 64 word"
  have b: "unat ?b = b" using assms by (simp add: unat_base)
  show ?case
  proof (cases "?b \<le> v")
    case True
    then have big: "b \<le> unat v" using b by (simp add: word_le_nat_alt)
    then have "unat (v div ?b) < unat v" using assms(1) b by (simp add: unat_div)
    from less.hyps [OF this, of "n + 1"] True big assms(1) b show ?thesis
      by (subst unsigned_len_from.simps, subst numeral_text.simps) (simp add: unat_div)
  next
    case False
    then have "unat v < b" using b by (simp add: word_le_nat_alt)
    with False show ?thesis
      by (subst unsigned_len_from.simps, subst numeral_text.simps) simp
  qed
qed

lemma hcc_unsigned_len_text:
  "1 < b \<Longrightarrow> b < 37 \<Longrightarrow> hcc_unsigned_len v (int b) = Some (int (length (numeral_text b (unat v))))"
  by (simp add: hcc_unsigned_len_def unsigned_len_numeral)

lemma hcc_signed_len_text: "hcc_signed_len v = Some (int (length (signed_text v)))"
  using hcc_unsigned_len_text [of 10] by (simp add: hcc_signed_len_def signed_text_def)

section \<open>Texts of strings\<close>

text \<open>
  \<open>arg_text m p t\<close>: the string argument \<open>p\<close> stands for the text \<open>t\<close>, which is
  less than 2 GiB long, so that its length is an \<^verbatim>\<open>int\<close>.
\<close>

definition arg_text :: "cmem \<Rightarrow> int \<Rightarrow> 8 word list \<Rightarrow> bool" where
  "arg_text m p t \<longleftrightarrow> length t < 2 ^ 31 \<and> (if p = 0 then t = ascii ''(null)'' else cstr m p t)"

definition reads_text :: "cmem \<Rightarrow> int \<Rightarrow> 8 word list \<Rightarrow> bool" where
  "reads_text m p t \<longleftrightarrow> (\<forall>i \<le> length t. text_at m p (int i) = (t @ [0]) ! i) \<and> 0 \<notin> set t \<and> length t < 2 ^ 31"

lemma reads_text_step: "reads_text m p t \<Longrightarrow> i < length t \<Longrightarrow> c_int (int i + 1) = int (Suc i)"
  by (subst c_int_small) (auto simp: reads_text_def)

lemma reads_text_end: "reads_text m p t \<Longrightarrow> text_at m p (int (length t)) = 0"
  by (simp add: reads_text_def nth_append)

lemma reads_text_nth: "reads_text m p t \<Longrightarrow> i < length t \<Longrightarrow> text_at m p (int i) = t ! i \<and> t ! i \<noteq> 0"
  by (metis less_imp_le nth_append nth_mem reads_text_def)

lemma null_text_bytes: "null_text = [40, 110, 117, 108, 108, 41, 0]"
  by (simp add: null_text_def ascii_def)

lemma arg_text_reads: "arg_text m p t \<Longrightarrow> reads_text m p t"
proof (cases "p = 0")
  case True
  assume "arg_text m p t"
  then have "t @ [0] = null_text" "length t = 6" "0 \<notin> set t"
    using True by (simp_all add: arg_text_def null_text_def ascii_def)
  then show ?thesis using True by (simp add: reads_text_def text_at_def)
next
  case False
  assume "arg_text m p t"
  then have "cstr m p t" "length t < 2 ^ 31" using False by (simp_all add: arg_text_def)
  then show ?thesis using False cstr_nonzero [of m p t]
    by (auto simp: reads_text_def text_at_def nth_append cstr_nth cstr_end le_less)
qed

lemma append_string_holds:
  assumes "\<And>s' t'. holds m lo en t' s' \<Longrightarrow> reads_text (smem s') p u"
  shows "i \<le> length u \<Longrightarrow> holds m lo en t s \<Longrightarrow>
    \<exists>s'. append_string_from en p (int i) s = Some s' \<and> holds m lo en (t @ drop i u) s'"
proof (induction "length u - i" arbitrary: i t s)
  case 0
  then have "text_at (smem s) p (int i) = 0"
    using reads_text_end [OF assms [of t s]] by simp
  then show ?case using 0 by (subst append_string_from.simps) simp
next
  case (Suc n)
  then have i: "i < length u" by simp
  then have at: "text_at (smem s) p (int i) = u ! i" "u ! i \<noteq> 0"
    using reads_text_nth [OF assms [OF Suc.prems(2)]] by simp_all
  from Suc.hyps(1) [of "Suc i", OF _ _ holds_char [OF Suc.prems(2), of "u ! i"]] Suc.hyps(2) i
  have "\<exists>s'. append_string_from en p (int (Suc i)) (hcc_append_char en (sint (u ! i)) s) = Some s' \<and>
    holds m lo en ((t @ [u ! i]) @ drop (Suc i) u) s'" by simp
  then show ?case using at i
    by (subst append_string_from.simps) (simp add: add.commute Cons_nth_drop_Suc [symmetric])
qed

lemma string_len_text:
  assumes "reads_text m p u"
  shows "i \<le> length u \<Longrightarrow> string_len_from m p (int i) = Some (int (length u))"
proof (induction "length u - i" arbitrary: i)
  case 0
  then show ?case using reads_text_end [OF assms] by (subst string_len_from.simps) simp
next
  case (Suc n)
  then have "text_at m p (int i) \<noteq> 0"
    using reads_text_nth [OF assms] by simp
  moreover have "string_len_from m p (int (Suc i)) = Some (int (length u))"
    by (rule Suc.hyps(1)) (use Suc.hyps(2) in simp_all)
  ultimately show ?case
    using reads_text_step [OF assms, of i] Suc.hyps(2) by (subst string_len_from.simps) simp
qed


section \<open>The format as a function on lists\<close>

text \<open>
  What a format stands for, independently of memory and of where the text goes. \<open>strs\<close> gives the
  texts of string arguments. A number argument is printed by \<open>signed_text\<close> or \<open>numeral_text\<close>; a
  format that ends after a percent sign yields the sign and a zero byte.
\<close>

definition padded :: "bool \<Rightarrow> int \<Rightarrow> 8 word list \<Rightarrow> 8 word list" where
  "padded left width t =
     (let blanks = replicate (nat (width - int (length t))) 32 in
      if left then t @ blanks else blanks @ t)"

definition is_decimal :: "8 word \<Rightarrow> bool" where
  "is_decimal c \<longleftrightarrow> 48 \<le> c \<and> c \<le> 57"

text \<open>The number a format begins with, and its value as a C \<^verbatim>\<open>int\<close>.\<close>

definition decimal_value :: "8 word list \<Rightarrow> int" where
  "decimal_value f = foldl (\<lambda>n c. n * 10 + (uint c - 48)) 0 (takeWhile is_decimal f)"

definition spec_number :: "8 word list \<Rightarrow> int" where
  "spec_number f = c_int (decimal_value f)"

definition skip :: "8 word \<Rightarrow> 8 word list \<Rightarrow> 8 word list" where
  "skip c f = (if f \<noteq> [] \<and> hd f = c then tl f else f)"

definition first :: "8 word list \<Rightarrow> 8 word" where
  "first f = (if f = [] then 0 else hd f)"

definition spec_conversion ::
    "bool \<Rightarrow> int \<Rightarrow> 8 word \<Rightarrow> 64 word \<Rightarrow> (64 word \<Rightarrow> 8 word list option) \<Rightarrow>
     (8 word list \<times> int) option" where
  "spec_conversion left width c v strs =
     (if c = 115 then map_option (\<lambda>t. (padded left width t, 1)) (strs v)
      else if c = 100 \<or> c = 105 then Some (padded left width (signed_text v), 1)
      else if c = 117 then Some (padded left width (numeral_text 10 (unat v)), 1)
      else if c = 120 \<or> c = 88 then Some (padded left width (numeral_text 16 (unat v)), 1)
      else if c = 99 then Some (padded left width [ucast v], 1)
      else if c = 37 then Some ([37], 0)
      else Some ([37, c], 1))"

text \<open>
  A format is read from left to right; \<open>dir\<close> is the reading of a conversion after its percent sign.
\<close>

partial_function (option) format_spec ::
    "(8 word list \<Rightarrow> int \<Rightarrow> (8 word list \<times> int \<times> 8 word list) option) \<Rightarrow> 8 word list \<Rightarrow> int \<Rightarrow>
     8 word list option" where
  "format_spec dir f arg =
     (case f of
        [] \<Rightarrow> Some []
      | c # f \<Rightarrow>
          if c \<noteq> 37 then Option.bind (format_spec dir f arg) (\<lambda>t. Some (c # t))
          else
            Option.bind (dir f arg) (\<lambda>(t, arg, f).
            Option.bind (format_spec dir f arg) (\<lambda>t'. Some (t @ t'))))"

lemma format_spec_simps:
  "format_spec dir [] arg = Some []"
  "format_spec dir (c # f) arg =
     (if c \<noteq> 37 then Option.bind (format_spec dir f arg) (\<lambda>t. Some (c # t))
      else
        Option.bind (dir f arg) (\<lambda>(t, arg, f).
        Option.bind (format_spec dir f arg) (\<lambda>t'. Some (t @ t'))))"
  by (subst format_spec.simps, simp)+

text \<open>The conversions of \<^verbatim>\<open>snprintf\<close>: a minus sign, a width, the letter l, the conversion.\<close>

definition spec_directive ::
    "(int \<Rightarrow> 64 word) \<Rightarrow> (64 word \<Rightarrow> 8 word list option) \<Rightarrow> 8 word list \<Rightarrow> int \<Rightarrow>
     (8 word list \<times> int \<times> 8 word list) option" where
  "spec_directive args strs f arg =
     (let f1 = skip 45 f; f2 = skip 108 (dropWhile is_decimal f1) in
      map_option (\<lambda>(t, n). (t, c_int (arg + n), tl f2))
        (spec_conversion (first f = 45) (spec_number f1) (first f2) (args arg) strs))"

lemma length_skip: "length (skip c f) \<le> length f"
  by (auto simp: skip_def)

lemma spec_directive_shorter: "spec_directive args strs f arg = Some (t, arg', g) \<Longrightarrow> length g \<le> length f"
proof -
  assume "spec_directive args strs f arg = Some (t, arg', g)"
  then have "g = tl (skip 108 (dropWhile is_decimal (skip 45 f)))"
    by (auto simp: spec_directive_def Let_def)
  moreover have "length (tl f2) \<le> length f2" for f2 :: "8 word list" by simp
  ultimately show ?thesis
    using length_skip length_dropWhile_le by (metis le_trans)
qed

section \<open>The code computes the format\<close>

lemma cstr_first: "cstr m p f \<Longrightarrow> m p = first f"
  by (cases f) (auto simp: first_def)

lemma cstr_tl: "cstr m p f \<Longrightarrow> first f \<noteq> 0 \<Longrightarrow> cstr m (p + 1) (tl f)"
  by (cases f) (auto simp: first_def)

lemma cstr_skip: "cstr m p f \<Longrightarrow> c \<noteq> 0 \<Longrightarrow> cstr m (if m p = c then p + 1 else p) (skip c f)"
  by (cases f) (auto simp: skip_def)

definition c_int_fold :: "int \<Rightarrow> 8 word list \<Rightarrow> int" where
  "c_int_fold n ds = foldl (\<lambda>n c. c_int (n * 10 + uint c - 48)) n ds"

lemma c_int_fold_value:
  "c_int_fold (c_int n) ds = c_int (foldl (\<lambda>n c. n * 10 + (uint c - 48)) n ds)"
proof (induction ds arbitrary: n)
  case (Cons d ds)
  have "c_int (c_int n * 10 + uint d - 48) = c_int (n * 10 + (uint d - 48))"
    using c_int_plus [of "c_int n * 10" "uint d - 48"] c_int_plus [of "n * 10" "uint d - 48"]
      c_int_times [of n 10] by (simp add: add_diff_eq)
  with Cons [of "n * 10 + (uint d - 48)"] show ?case by (simp add: c_int_fold_def)
qed (simp add: c_int_fold_def)

lemma format_number_text:
  "cstr m p f \<Longrightarrow> format_number m p n =
     Some (c_int_fold n (takeWhile is_decimal f), p + int (length (takeWhile is_decimal f)))"
proof (induction f arbitrary: p n)
  case Nil
  then show ?case by (subst format_number.simps) (simp add: c_int_fold_def)
next
  case (Cons c f)
  then have c: "m p = c" "cstr m (p + 1) f" by auto
  with Cons show ?case
    by (subst format_number.simps) (simp add: is_decimal_def [symmetric] add.assoc c_int_fold_def)
qed

lemma format_number_spec:
  "cstr m p f \<Longrightarrow>
   format_number m p 0 = Some (spec_number f, p + int (length (takeWhile is_decimal f)))"
  using c_int_fold_value [of 0 "takeWhile is_decimal f"]
  by (simp add: format_number_text spec_number_def decimal_value_def c_int_small)

lemma cstr_drop: "cstr m p f \<Longrightarrow> k \<le> length f \<Longrightarrow> cstr m (p + int k) (drop k f)"
proof (induction f arbitrary: p k)
  case (Cons c f)
  then show ?case by (cases k) (auto simp: add.assoc [symmetric])
qed simp

lemma with_padding_holds:
  assumes "holds m lo en t s"
    and "\<And>t s. holds m lo en t s \<Longrightarrow> \<exists>s'. act s = Some s' \<and> holds m lo en (t @ u) s'"
  shows "\<exists>s'. with_padding en left width (Some (int (length u))) act s = Some s' \<and>
    holds m lo en (t @ padded left width u) s'"
proof (cases left)
  case True
  from assms(2) [OF assms(1)] obtain s' where "act s = Some s'" "holds m lo en (t @ u) s'" by blast
  with True holds_padding [of m lo en "t @ u" s' width "int (length u)"] show ?thesis
    by (simp add: with_padding_def padded_def)
next
  case False
  from assms(2) [OF holds_padding [OF assms(1), of width "int (length u)"]] False show ?thesis
    by (auto simp: with_padding_def padded_def)
qed


text \<open>
  Reading is not disturbed by writing: the format and the strings lie outside the bytes from
  \<open>lo\<close> to \<open>en\<close>.
\<close>

definition kept :: "int \<Rightarrow> int \<Rightarrow> int \<Rightarrow> 8 word list \<Rightarrow> bool" where
  "kept lo en p t \<longleftrightarrow> apart lo (en - lo) p (int (length t) + 1)"

definition strings_ok :: "cmem \<Rightarrow> int \<Rightarrow> int \<Rightarrow> (64 word \<Rightarrow> 8 word list option) \<Rightarrow> bool" where
  "strings_ok m lo en strs \<longleftrightarrow>
     (\<forall>v t. strs v = Some t \<longrightarrow> arg_text m (uint v) t \<and> (v = 0 \<or> kept lo en (uint v) t))"

lemma cstr_kept: "holds m lo en t s \<Longrightarrow> cstr m p f \<Longrightarrow> kept lo en p f \<Longrightarrow> cstr (smem s) p f"
  by (subst cstr_cong [of p f "smem s" m]) (auto simp: kept_def apart_def intro!: holds_outside)

text \<open>The rest of the format is at an address, out of the way of the output.\<close>

definition place :: "cmem \<Rightarrow> int \<Rightarrow> int \<Rightarrow> int \<Rightarrow> 8 word list \<Rightarrow> bool" where
  "place m lo en p f \<longleftrightarrow> cstr m p f \<and> kept lo en p f"

lemma place_drop:
  "place m lo en p f \<Longrightarrow> k \<le> length f \<Longrightarrow> place m lo en (p + int k) (drop k f)"
  by (auto simp: place_def cstr_drop kept_def apart_def)

lemma place_tl: "place m lo en p f \<Longrightarrow> f \<noteq> [] \<Longrightarrow> place m lo en (p + 1) (tl f)"
  using place_drop [of m lo en p f 1] by (cases f) (auto simp: Suc_le_eq)

lemma place_skip:
  "place m lo en p f \<Longrightarrow> c \<noteq> 0 \<Longrightarrow> place m lo en (if first f = c then p + 1 else p) (skip c f)"
  by (auto simp: first_def skip_def place_tl)

lemma place_number:
  "place m lo en p f \<Longrightarrow> place m lo en (p + int (length (takeWhile is_decimal f))) (dropWhile is_decimal f)"
  using place_drop [of m lo en p f "length (takeWhile is_decimal f)"]
  by (simp add: dropWhile_eq_drop length_takeWhile_le)

lemma place_read: "place m lo en p f \<Longrightarrow> holds m lo en t s \<Longrightarrow> cstr (smem s) p f"
  by (simp add: place_def cstr_kept)

lemma place_first: "place m lo en p f \<Longrightarrow> holds m lo en t s \<Longrightarrow> smem s p = first f"
  by (simp add: place_read cstr_first)

lemma kept_less: "kept lo en p f \<Longrightarrow> en' \<le> en \<Longrightarrow> kept lo en' p f"
  by (auto simp: kept_def apart_def)

lemma strings_ok_less: "strings_ok m lo en strs \<Longrightarrow> en' \<le> en \<Longrightarrow> strings_ok m lo en' strs"
  unfolding strings_ok_def by (meson kept_less)

lemma string_reads:
  assumes "strings_ok m lo en strs" and "strs v = Some u" and "holds m lo en t s"
  shows "reads_text (smem s) (uint v) u"
proof (cases "v = 0")
  case True
  then show ?thesis using assms by (intro arg_text_reads) (auto simp: strings_ok_def arg_text_def)
next
  case False
  then show ?thesis using assms cstr_kept [OF assms(3), of "uint v" u]
    by (intro arg_text_reads) (auto simp: strings_ok_def arg_text_def uint_0_iff)
qed

lemma vformat_conversion_holds:
  assumes "strings_ok m lo en strs" and "holds m lo en t s"
    and "spec_conversion left width c v strs = Some (u, n)"
  shows "\<exists>s'. vformat_conversion en left width c v s = Some (s', n) \<and> holds m lo en (t @ u) s'"
proof -
  consider "c = 115" | "c = 100 \<or> c = 105" | "c = 117" | "c = 120 \<or> c = 88" | "c = 99" | "c = 37"
    | "c \<notin> {115, 100, 105, 117, 120, 88, 99, 37}" by auto
  then show ?thesis
  proof cases
    case 1
    with assms(3) obtain w where w: "strs v = Some w" "u = padded left width w" "n = 1"
      by (auto simp: spec_conversion_def)
    have "hcc_string_len (smem s) (uint v) = Some (int (length w))"
      using string_len_text [OF string_reads [OF assms(1) w(1) assms(2)], of 0]
      by (simp add: hcc_string_len_def)
    moreover have "\<exists>s'. hcc_append_string en (uint v) s = Some s' \<and> holds m lo en (t @ w) s'"
      if "holds m lo en t s" for t s
      using append_string_holds [of m lo en "uint v" w 0 t s, OF string_reads [OF assms(1) w(1)]] that
      by (auto simp: hcc_append_string_def)
    ultimately show ?thesis using with_padding_holds [OF assms(2), of "hcc_append_string en (uint v)" w left width] 1 w
      by (auto simp: vformat_conversion_def)
  next
    case 2
    with with_padding_holds [OF assms(2), of "hcc_append_signed en v" "signed_text v" left width,
        OF append_signed_holds] assms(3)
    show ?thesis by (auto simp: vformat_conversion_def spec_conversion_def hcc_signed_len_text)
  next
    case 3
    with with_padding_holds [OF assms(2), of "hcc_append_unsigned en v 10" "numeral_text 10 (unat v)" left width]
      append_unsigned_holds [of 10 m lo en] hcc_unsigned_len_text [of 10 v] assms(3)
    show ?thesis by (auto simp: vformat_conversion_def spec_conversion_def)
  next
    case 4
    with with_padding_holds [OF assms(2), of "hcc_append_unsigned en v 16" "numeral_text 16 (unat v)" left width]
      append_unsigned_holds [of 16 m lo en] hcc_unsigned_len_text [of 16 v] assms(3)
    show ?thesis by (auto simp: vformat_conversion_def spec_conversion_def)
  next
    case 5
    have "word_of_int (sint v) = (ucast v :: 8 word)"
      by (rule bit_word_eqI) (simp add: bit_signed_iff bit_ucast_iff)
    with 5 with_padding_holds [OF assms(2), of "\<lambda>s. Some (hcc_append_char en (sint v) s)" "[ucast v]" left width]
      holds_append_char [of m lo en _ _ "sint v"] assms(3)
    show ?thesis by (auto simp: vformat_conversion_def spec_conversion_def)
  next
    case 6
    with holds_append_char [OF assms(2), of 37] assms(3) show ?thesis
      by (auto simp: vformat_conversion_def spec_conversion_def)
  next
    case 7
    with holds_char [OF holds_append_char [OF assms(2), of 37], of c] assms(3) show ?thesis
      by (auto simp: vformat_conversion_def spec_conversion_def)
  qed
qed


text \<open>
  A loop over a format, whatever its conversions: if they append what a reading of the format
  says, so does the loop.
\<close>

locale format_loop =
  fixes m :: cmem and lo en :: int
    and loop :: "int \<Rightarrow> int \<Rightarrow> sink \<Rightarrow> sink option"
    and directive :: "int \<Rightarrow> int \<Rightarrow> sink \<Rightarrow> (sink \<times> int \<times> int) option"
    and dir :: "8 word list \<Rightarrow> int \<Rightarrow> (8 word list \<times> int \<times> 8 word list) option"
  assumes loop_eq: "loop p arg s =
      (if smem s p = 0 then Some s
       else if smem s p \<noteq> 37 then loop (p + 1) arg (hcc_append_char en (sint (smem s p)) s)
       else Option.bind (directive (p + 1) arg s) (\<lambda>(s, arg, p). loop p arg s))"
    and dir_shorter: "dir f arg = Some (u, arg', g) \<Longrightarrow> length g \<le> length f"
    and directive_text: "place m lo en p f \<Longrightarrow> holds m lo en t s \<Longrightarrow> dir f arg = Some (u, arg', g) \<Longrightarrow>
      \<exists>s' q. directive p arg s = Some (s', arg', q) \<and> holds m lo en (t @ u) s' \<and> place m lo en q g"
begin

lemma loop_text:
  "format_spec dir f arg = Some u \<Longrightarrow> place m lo en p f \<Longrightarrow> holds m lo en t s \<Longrightarrow>
   \<exists>s'. loop p arg s = Some s' \<and> holds m lo en (t @ u) s'"
proof (induction "length f" arbitrary: f arg u p t s rule: less_induct)
  case less
  show ?case
  proof (cases f)
    case Nil
    then have "smem s p = 0" using place_first [OF less.prems(2,3)] by (simp add: first_def)
    with less.prems Nil show ?thesis by (subst loop_eq) (simp add: format_spec_simps)
  next
    case (Cons c g)
    have c: "smem s p = c" "c \<noteq> 0"
      using place_first [OF less.prems(2,3)] less.prems(2) Cons by (auto simp: first_def place_def)
    have rest: "place m lo en (p + 1) g" using place_tl [OF less.prems(2)] Cons by simp
    show ?thesis
    proof (cases "c = 37")
      case False
      with less.prems(1) Cons obtain u' where u: "format_spec dir g arg = Some u'" "u = c # u'"
        by (auto simp: format_spec_simps bind_eq_Some_conv)
      from less.hyps [OF _ u(1) rest holds_char [OF less.prems(3), of c]] c False Cons u(2)
      show ?thesis by (subst loop_eq) simp
    next
      case True
      with less.prems(1) Cons obtain t1 arg1 h t2 where
        d: "dir g arg = Some (t1, arg1, h)" "format_spec dir h arg1 = Some t2" "u = t1 @ t2"
        by (auto simp: format_spec_simps bind_eq_Some_conv)
      from directive_text [OF rest less.prems(3) d(1)] obtain s1 q where
        s1: "directive (p + 1) arg s = Some (s1, arg1, q)" "holds m lo en (t @ t1) s1" "place m lo en q h"
        by blast
      have "length h < length f" using dir_shorter [OF d(1)] Cons by simp
      from less.hyps [OF this d(2) s1(3,2)] c True s1(1) d(3)
      show ?thesis by (subst loop_eq) simp
    qed
  qed
qed

end

lemma vformat_directive_text:
  assumes "strings_ok m lo en strs" and "place m lo en p f" and "holds m lo en t s"
    and "spec_directive args strs f arg = Some (u, arg', g)"
  shows "\<exists>s' q. vformat_directive en args p arg s = Some (s', arg', q) \<and> holds m lo en (t @ u) s' \<and>
    place m lo en q g"
proof -
  define left where "left = (first f = 45)"
  define f1 where "f1 = skip 45 f"
  define p1 where "p1 = (if left then p + 1 else p)"
  define q where "q = p1 + int (length (takeWhile is_decimal f1))"
  define f2 where "f2 = skip 108 (dropWhile is_decimal f1)"
  define q2 where "q2 = (if first (dropWhile is_decimal f1) = 108 then q + 1 else q)"
  from assms(4) obtain n where
    conv: "spec_conversion left (spec_number f1) (first f2) (args arg) strs = Some (u, n)" and
    res: "arg' = c_int (arg + n)" "g = tl f2"
    by (auto simp del: c_int_id simp: spec_directive_def Let_def left_def f1_def f2_def)
  have p1: "place m lo en p1 f1"
    using place_skip [OF assms(2), of 45] by (simp add: p1_def f1_def left_def)
  have q: "place m lo en q (dropWhile is_decimal f1)"
    using place_number [OF p1] by (simp add: q_def)
  have q2: "place m lo en q2 f2"
    using place_skip [OF q, of 108] by (simp add: q2_def f2_def)
  from vformat_conversion_holds [OF assms(1,3) conv] obtain s1 where
    s1: "vformat_conversion en left (spec_number f1) (first f2) (args arg) s = Some (s1, n)"
    "holds m lo en (t @ u) s1" by blast
  have next_place: "place m lo en (if first f2 \<noteq> 0 then q2 + 1 else q2) (tl f2)"
    using place_tl [OF q2] q2 by (cases f2) (auto simp: first_def place_def)
  have "format_number (smem s) p1 0 = Some (spec_number f1, q)"
    using format_number_spec [OF place_read [OF p1 assms(3)]] by (simp add: q_def)
  then show ?thesis
    using s1 res next_place place_first [OF assms(2,3)] place_first [OF q assms(3)]
      place_first [OF q2 assms(3)] place_first [OF q2 s1(2)]
    by (cases "first f2 = 0")
      (simp_all add: vformat_directive_def Let_def left_def [symmetric] p1_def [symmetric] q2_def [symmetric])
qed

text \<open>
  The interpretation needs the strings in place; it is made for a reading that stops where they
  are not.
\<close>

definition ready :: "cmem \<Rightarrow> int \<Rightarrow> int \<Rightarrow> (64 word \<Rightarrow> 8 word list option) \<Rightarrow> 64 word \<Rightarrow> 8 word list option" where
  "ready m lo en strs = (if strings_ok m lo en strs then strs else (\<lambda>_. None))"

lemma ready_ok: "strings_ok m lo en (ready m lo en strs)"
  by (simp add: ready_def strings_ok_def)

interpretation vformat: format_loop m lo en "vformat_loop en args" "vformat_directive en args"
    "spec_directive args (ready m lo en strs)"
  for m lo en args strs
proof
  show "vformat_loop en args p arg s =
      (if smem s p = 0 then Some s
       else if smem s p \<noteq> 37 then vformat_loop en args (p + 1) arg (hcc_append_char en (sint (smem s p)) s)
       else Option.bind (vformat_directive en args (p + 1) arg s) (\<lambda>(s, arg, p). vformat_loop en args p arg s))"
    for p arg s
    by (rule vformat_loop.simps)
next
  show "\<exists>s' q. vformat_directive en args p arg s = Some (s', arg', q) \<and> holds m lo en (t @ u) s' \<and>
      place m lo en q g"
    if "place m lo en p f" "holds m lo en t s"
      "spec_directive args (ready m lo en strs) f arg = Some (u, arg', g)" for p f t s arg u arg' g
    using vformat_directive_text [OF ready_ok that] .
qed (rule spec_directive_shorter)

section \<open>What snprintf promises\<close>

lemma vformat_text:
  assumes "cstr m fmt f" and "kept out (out + uint width) fmt f"
    and "strings_ok m out (out + uint width) strs"
    and "format_spec (spec_directive (\<lambda>i. hcc_format_arg i a b c) strs) f 0 = Some t"
  shows "hcc_vformat out width fmt a b c m =
    Some (c_int (int (length t)),
      if width = 0 then m else put_bytes (take (unat width - 1) t @ [0]) out m)"
proof -
  let ?en = "if width \<noteq> 0 then out + uint width - 1 else out"
  have widths: "nat (?en - out) = unat width - 1"
    by (simp add: nat_diff_distrib')
  have "?en \<le> out + uint width" by simp
  then have "kept out ?en fmt f" "strings_ok m out ?en strs"
    using assms(2,3) kept_less strings_ok_less by blast+
  then have "place m out ?en fmt f" using assms(1) by (simp add: place_def)
  moreover have "ready m out ?en strs = strs"
    using \<open>strings_ok m out ?en strs\<close> by (simp add: ready_def)
  ultimately obtain s where loop: "vformat_loop ?en (\<lambda>i. hcc_format_arg i a b c) fmt 0 \<lparr>smem = m, sout = out, stotal = 0\<rparr> = Some s"
    and held: "holds m out ?en t s"
    using vformat.loop_text [of "\<lambda>i. hcc_format_arg i a b c" m out ?en strs f 0 t fmt "[]", OF _ _ holds_start]
      assms(4) by auto
  from held have "smem s = put_bytes (take (unat width - 1) t) out m"
    "sout s = out + int (length (take (unat width - 1) t))" "stotal s = c_int (int (length t))"
    unfolding holds_def widths by blast+
  with loop show ?thesis
    by (cases "width = 0") (simp_all add: hcc_vformat_def put_bytes_append)
qed

text \<open>
  C26. \<^verbatim>\<open>snprintf\<close> returns the length of the whole formatted text, as an \<^verbatim>\<open>int\<close>, and stores as much
  of it as fits with a zero byte at the end, changing no byte outside the buffer; with a size of
  zero it changes nothing. Numbers are printed in full, the smallest \<^verbatim>\<open>long\<close> included, and padded to
  the width in the format, taken modulo the range of \<^verbatim>\<open>int\<close>: the width of \<^verbatim>\<open>%4294967297d\<close> is 1. The
  string arguments are shorter than 2 GiB, and they and the format lie outside the buffer. A format
  that ends after a percent sign stands for the sign and a zero byte, which is counted. The call
  always returns.
\<close>

theorem snprintf_text:
  assumes "cstr m fmt f" and "kept out (out + uint width) fmt f"
    and "strings_ok m out (out + uint width) strs"
    and "format_spec (spec_directive (\<lambda>i. hcc_format_arg i a b c) strs) f 0 = Some t"
  shows "snprintf out width fmt a b c m =
    Some (c_int (int (length t)),
      if width = 0 then m else put_bytes (take (unat width - 1) t @ [0]) out m)"
  using vformat_text [OF assms] by (simp add: snprintf_def)

theorem snprintf_text_witness:
  "let m = put_bytes [120, 61, 37, 45, 52, 100, 124, 37, 115, 0] 10 (put_bytes [97, 98, 99, 0] 40 (\<lambda>_. 7)) in
   snprintf 100 8 10 (- 5) 40 0 m = Some (10, put_bytes [120, 61, 45, 53, 32, 32, 124, 0] 100 m)"
proof -
  let ?m = "put_bytes [120, 61, 37, 45, 52, 100, 124, 37, 115, 0] 10 (put_bytes [97, 98, 99, 0] 40 (\<lambda>_. 7)) :: cmem"
  let ?strs = "\<lambda>v. if v = 40 then Some [97, 98, 99] else None"
  have str: "cstr ?m 40 [97, 98, 99]" by simp
  have blanks: "replicate 2 (32 :: 8 word) = [32, 32]" by (simp add: numeral_2_eq_2)
  have "format_spec (spec_directive (\<lambda>i. hcc_format_arg i (- 5) 40 0) ?strs) [120, 61, 37, 45, 52, 100, 124, 37, 115] 0 =
      Some [120, 61, 45, 53, 32, 32, 124, 97, 98, 99]"
    by (simp add: format_spec_simps spec_directive_def first_def skip_def spec_number_def decimal_value_def c_int_small is_decimal_def spec_conversion_def hcc_format_arg_def
        signed_text_def numeral_text.simps digit_byte_def padded_def blanks)
  moreover have "strings_ok ?m 100 (100 + uint (8 :: 32 word)) ?strs"
    using str by (simp add: strings_ok_def arg_text_def kept_def apart_def)
  ultimately show ?thesis
    using snprintf_text [of ?m 10 "[120, 61, 37, 45, 52, 100, 124, 37, 115]" 100 8 ?strs "- 5" 40 0]
    by (simp add: kept_def apart_def Let_def c_int_small)
qed

end
