(* ===== verification/SupportString.thy ===== *)
theory SupportString
  imports CMemory "HOL-Library.Sublist"
begin

text \<open>
  The memory and string functions of \<^verbatim>\<open>tcc-bootstrap-support.c\<close>. Each loop is the C loop, over
  addresses; a loop bounded by a count is recursion on the count, one that runs to the end of a
  string is a \<open>partial_function\<close>, so that a string that never ends gives \<open>None\<close>. Characters of
  \<^verbatim>\<open>char\<close> type are compared as signed bytes, those of \<^verbatim>\<open>unsigned char\<close> as unsigned ones.
\<close>

section \<open>memcpy, memmove, memset, memcmp\<close>

fun copy_up :: "nat \<Rightarrow> int \<Rightarrow> int \<Rightarrow> cmem \<Rightarrow> cmem" where
  "copy_up 0 d s m = m"
| "copy_up (Suc n) d s m = copy_up n (d + 1) (s + 1) (m(d := m s))"

fun copy_down :: "nat \<Rightarrow> int \<Rightarrow> int \<Rightarrow> cmem \<Rightarrow> cmem" where
  "copy_down 0 d s m = m"
| "copy_down (Suc n) d s m =
     (let d = d - 1; s = s - 1 in copy_down n d s (m(d := m s)))"

definition memcpy :: "int \<Rightarrow> int \<Rightarrow> nat \<Rightarrow> cmem \<Rightarrow> cmem \<times> int" where
  "memcpy dest src n m = (copy_up n dest src m, dest)"

definition memmove :: "int \<Rightarrow> int \<Rightarrow> nat \<Rightarrow> cmem \<Rightarrow> cmem \<times> int" where
  "memmove dest src n m =
     (if dest < src then memcpy dest src n m
      else (copy_down n (dest + int n) (src + int n) m, dest))"

fun fill_up :: "nat \<Rightarrow> int \<Rightarrow> 8 word \<Rightarrow> cmem \<Rightarrow> cmem" where
  "fill_up 0 p c m = m"
| "fill_up (Suc n) p c m = fill_up n (p + 1) c (m(p := c))"

definition memset :: "int \<Rightarrow> int \<Rightarrow> nat \<Rightarrow> cmem \<Rightarrow> cmem \<times> int" where
  "memset s c n m = (fill_up n s (word_of_int c) m, s)"

text \<open>The loop of \<^verbatim>\<open>memcmp\<close>, entered with a size that is not zero.\<close>

fun memcmp_loop :: "nat \<Rightarrow> int \<Rightarrow> int \<Rightarrow> cmem \<Rightarrow> int" where
  "memcmp_loop n a b m =
     (if m a = m b \<and> 1 < n then memcmp_loop (n - 1) (a + 1) (b + 1) m else uint (m a) - uint (m b))"

declare memcmp_loop.simps [simp del]

definition memcmp :: "int \<Rightarrow> int \<Rightarrow> nat \<Rightarrow> cmem \<Rightarrow> int" where
  "memcmp s1 s2 n m = (if n = 0 then 0 else memcmp_loop n s1 s2 m)"

section \<open>String functions\<close>

partial_function (option) strlen_from :: "int \<Rightarrow> int \<Rightarrow> cmem \<Rightarrow> int option" where
  "strlen_from n p m = (if m (p + n) \<noteq> 0 then strlen_from (n + 1) p m else Some n)"

definition strlen :: "int \<Rightarrow> cmem \<Rightarrow> int option" where
  "strlen p m = strlen_from 0 p m"

partial_function (option) strcmp :: "int \<Rightarrow> int \<Rightarrow> cmem \<Rightarrow> int option" where
  "strcmp left right m =
     (if m left \<noteq> 0 \<and> m right \<noteq> 0 \<and> m left = m right then strcmp (left + 1) (right + 1) m
      else Some (sint (m left) - sint (m right)))"

partial_function (option) strncmp_loop :: "int \<Rightarrow> int \<Rightarrow> nat \<Rightarrow> cmem \<Rightarrow> int option" where
  "strncmp_loop left right n m =
     (if m left \<noteq> 0 \<and> m right \<noteq> 0 \<and> m left = m right \<and> 1 < n
      then strncmp_loop (left + 1) (right + 1) (n - 1) m
      else Some (sint (m left) - sint (m right)))"

definition strncmp :: "int \<Rightarrow> int \<Rightarrow> nat \<Rightarrow> cmem \<Rightarrow> int option" where
  "strncmp left right n m = (if n = 0 then Some 0 else strncmp_loop left right n m)"

partial_function (option) strcpy_loop :: "int \<Rightarrow> int \<Rightarrow> cmem \<Rightarrow> cmem option" where
  "strcpy_loop dest src m =
     (if m src \<noteq> 0 then strcpy_loop (dest + 1) (src + 1) (m(dest := m src))
      else Some (m(dest := 0)))"

definition strcpy :: "int \<Rightarrow> int \<Rightarrow> cmem \<Rightarrow> (cmem \<times> int) option" where
  "strcpy dest src m = map_option (\<lambda>m. (m, dest)) (strcpy_loop dest src m)"

fun strncpy_loop :: "int \<Rightarrow> int \<Rightarrow> nat \<Rightarrow> cmem \<Rightarrow> cmem" where
  "strncpy_loop dest src 0 m = m"
| "strncpy_loop dest src (Suc n) m =
     (if m src \<noteq> 0 then strncpy_loop (dest + 1) (src + 1) n (m(dest := m src))
      else fill_up (Suc n) dest 0 m)"

definition strncpy :: "int \<Rightarrow> int \<Rightarrow> nat \<Rightarrow> cmem \<Rightarrow> cmem \<times> int" where
  "strncpy dest src n m = (strncpy_loop dest src n m, dest)"

text \<open>The null pointer is address 0.\<close>

partial_function (option) strchr :: "int \<Rightarrow> int \<Rightarrow> cmem \<Rightarrow> int option" where
  "strchr p c m =
     (if m p \<noteq> 0 \<or> c = 0 then (if sint (m p) = c then Some p else strchr (p + 1) c m)
      else Some 0)"

partial_function (option) strrchr_loop :: "int \<Rightarrow> int \<Rightarrow> int \<Rightarrow> cmem \<Rightarrow> int option" where
  "strrchr_loop p found c m =
     (if m p \<noteq> 0 then strrchr_loop (p + 1) (if sint (m p) = c then p else found) c m
      else Some (if c = 0 then p else found))"

definition strrchr :: "int \<Rightarrow> int \<Rightarrow> cmem \<Rightarrow> int option" where
  "strrchr p c m = strrchr_loop p 0 c m"

definition strcat :: "int \<Rightarrow> int \<Rightarrow> cmem \<Rightarrow> (cmem \<times> int) option" where
  "strcat dest src m =
     Option.bind (strchr dest 0 m) (\<lambda>p. map_option (\<lambda>m. (m, dest)) (strcpy_loop p src m))"

partial_function (option) strpbrk :: "int \<Rightarrow> int \<Rightarrow> cmem \<Rightarrow> int option" where
  "strpbrk p stop m =
     (if m p \<noteq> 0 then
        Option.bind (strchr stop (sint (m p)) m) (\<lambda>r.
        if r \<noteq> 0 then Some p else strpbrk (p + 1) stop m)
      else Some 0)"

text \<open>The inner loop of \<^verbatim>\<open>strstr\<close> returns where it stopped in the needle.\<close>

partial_function (option) match_from :: "int \<Rightarrow> int \<Rightarrow> cmem \<Rightarrow> int option" where
  "match_from h n m =
     (if m h \<noteq> 0 \<and> m n \<noteq> 0 \<and> m h = m n then match_from (h + 1) (n + 1) m else Some n)"

partial_function (option) strstr_loop :: "int \<Rightarrow> int \<Rightarrow> cmem \<Rightarrow> int option" where
  "strstr_loop haystack needle m =
     (if m haystack \<noteq> 0 then
        Option.bind (match_from haystack needle m) (\<lambda>n.
        if m n = 0 then Some haystack else strstr_loop (haystack + 1) needle m)
      else Some 0)"

definition strstr :: "int \<Rightarrow> int \<Rightarrow> cmem \<Rightarrow> int option" where
  "strstr haystack needle m =
     (if m needle = 0 then Some haystack else strstr_loop haystack needle m)"

section \<open>What the memory functions leave\<close>

text \<open>
  Copying upwards is right when the destination does not run into the source that is still to be
  read; copying downwards when it does not from above.
\<close>

lemma copy_up_apply:
  "d \<le> s \<or> s + int n \<le> d \<Longrightarrow>
   copy_up n d s m a = (if d \<le> a \<and> a < d + int n then m (s + (a - d)) else m a)"
proof (induction n arbitrary: d s m)
  case (Suc n)
  have "copy_up n (d + 1) (s + 1) (m(d := m s)) a =
      (if d + 1 \<le> a \<and> a < d + 1 + int n then (m(d := m s)) (s + 1 + (a - (d + 1)))
       else (m(d := m s)) a)"
    by (rule Suc.IH) (use Suc.prems in auto)
  then show ?case using Suc.prems by auto
qed auto

lemma copy_down_apply:
  "s \<le> d \<Longrightarrow>
   copy_down n (d + int n) (s + int n) m a =
     (if d \<le> a \<and> a < d + int n then m (s + (a - d)) else m a)"
proof (induction n arbitrary: m)
  case (Suc n)
  have "copy_down n (d + int n) (s + int n) (m(d + int n := m (s + int n))) a =
      (if d \<le> a \<and> a < d + int n then (m(d + int n := m (s + int n))) (s + (a - d))
       else (m(d + int n := m (s + int n))) a)"
    by (rule Suc.IH) (use Suc.prems in auto)
  then show ?case using Suc.prems by (auto simp: Let_def add.assoc)
qed auto

lemma memcpy_apply:
  "d \<le> s \<or> s + int n \<le> d \<Longrightarrow>
   fst (memcpy d s n m) a = (if d \<le> a \<and> a < d + int n then m (s + (a - d)) else m a)"
  by (simp add: memcpy_def copy_up_apply)

lemma fill_up_apply:
  "fill_up n p c m a = (if p \<le> a \<and> a < p + int n then c else m a)"
  by (induction n arbitrary: p m) auto

text \<open>
  C38. \<^verbatim>\<open>memmove\<close> moves, however the two regions overlap: afterwards the destination holds what the
  source held before, every byte outside the destination is as it was, and the destination is
  returned.
\<close>

theorem memmove_moves:
  "snd (memmove d s n m) = d \<and>
   fst (memmove d s n m) a = (if d \<le> a \<and> a < d + int n then m (s + (a - d)) else m a)"
  by (simp add: memmove_def memcpy_apply copy_down_apply) (simp add: memcpy_def)

lemma memcmp_loop_diff:
  assumes "0 < n"
  shows "\<exists>i < n. (\<forall>j < i. m (a + int j) = m (b + int j)) \<and>
     memcmp_loop n a b m = uint (m (a + int i)) - uint (m (b + int i)) \<and>
     (i + 1 < n \<longrightarrow> m (a + int i) \<noteq> m (b + int i))"
  using assms
proof (induction n arbitrary: a b rule: less_induct)
  case (less n)
  show ?case
  proof (cases "m a = m b \<and> 1 < n")
    case True
    then obtain i where i: "i < n - 1" "\<forall>j < i. m (a + 1 + int j) = m (b + 1 + int j)"
      "memcmp_loop (n - 1) (a + 1) (b + 1) m = uint (m (a + 1 + int i)) - uint (m (b + 1 + int i))"
      "i + 1 < n - 1 \<longrightarrow> m (a + 1 + int i) \<noteq> m (b + 1 + int i)"
      using less.IH [of "n - 1" "a + 1" "b + 1"] by auto
    have "m (a + int j) = m (b + int j)" if "j < Suc i" for j
      using i(2) True that by (cases j) (auto simp: add.assoc)
    moreover have "memcmp_loop n a b m = memcmp_loop (n - 1) (a + 1) (b + 1) m"
      using True by (subst memcmp_loop.simps) simp
    ultimately show ?thesis
      using i by (intro exI [of _ "Suc i"]) (auto simp: add.assoc)
  next
    case False
    then have "memcmp_loop n a b m = uint (m a) - uint (m b)"
      by (subst memcmp_loop.simps) auto
    then show ?thesis using False less.prems by (intro exI [of _ 0]) auto
  qed
qed

text \<open>
  \<^verbatim>\<open>memcmp\<close> returns 0 exactly for equal regions; otherwise its sign is that of the first
  difference, taken as unsigned bytes.
\<close>

theorem memcmp_compares:
  "(memcmp a b n m = 0 \<longleftrightarrow> bytes_at m a n = bytes_at m b n) \<and>
   (memcmp a b n m < 0 \<longleftrightarrow>
     (\<exists>i < n. (\<forall>j < i. m (a + int j) = m (b + int j)) \<and> m (a + int i) < m (b + int i)))"
proof (cases "n = 0")
  case False
  then obtain i where i: "i < n" "\<forall>j < i. m (a + int j) = m (b + int j)"
    "memcmp a b n m = uint (m (a + int i)) - uint (m (b + int i))"
    "i + 1 < n \<longrightarrow> m (a + int i) \<noteq> m (b + int i)"
    using memcmp_loop_diff [of n m a b] by (auto simp: memcmp_def)
  show ?thesis
  proof (cases "m (a + int i) = m (b + int i)")
    case True
    with i have "i + 1 = n" by linarith
    with i True have eq: "m (a + int j) = m (b + int j)" if "j < n" for j
      using that by (cases "j = i") auto
    then show ?thesis using i(3) True by (auto simp: bytes_at_eq_iff)
  next
    case False
    then have "\<not> (\<exists>j < n. (\<forall>k < j. m (a + int k) = m (b + int k)) \<and> m (a + int j) < m (b + int j) \<and> j \<noteq> i)"
      using i(2) by (metis less_irrefl nat_neq_iff)
    moreover have "uint (m (a + int i)) \<noteq> uint (m (b + int i))"
      using False by (simp add: word_uint_eq_iff)
    ultimately show ?thesis using i False
      by (auto simp: bytes_at_eq_iff word_less_def)
  qed
qed (simp add: memcmp_def)

section \<open>What the string functions return\<close>

lemma strlen_from_cstr:
  "cstr m (p + n) s \<Longrightarrow> strlen_from n p m = Some (n + int (length s))"
proof (induction s arbitrary: n)
  case Nil
  then show ?case by (subst strlen_from.simps) simp
next
  case (Cons b s)
  with Cons.IH [of "n + 1"] show ?case by (subst strlen_from.simps) (auto simp: add.assoc)
qed

theorem memcmp_compares_witness:
  "let m = put_bytes [7, 200] 10 (put_bytes [7, 30] 20 (\<lambda>_. 0)) in
   memcmp 10 20 2 m \<noteq> 0 \<and> memcmp 20 10 2 m < 0"
proof -
  let ?m = "put_bytes [7, 200] 10 (put_bytes [7, 30] 20 (\<lambda>_. 0)) :: cmem"
  have "bytes_at ?m 10 2 \<noteq> bytes_at ?m 20 2" by (simp add: bytes_at_def)
  moreover have "\<exists>i < 2. (\<forall>j < i. ?m (20 + int j) = ?m (10 + int j)) \<and>
      ?m (20 + int i) < ?m (10 + int i)"
    by (rule exI [of _ 1]) simp
  ultimately show ?thesis
    using memcmp_compares [of 10 20 2 ?m] memcmp_compares [of 20 10 2 ?m] unfolding Let_def by blast
qed

text \<open>\<^verbatim>\<open>strlen\<close> returns the number of bytes before the end mark.\<close>

lemma strlen_cstr: "cstr m p s \<Longrightarrow> strlen p m = Some (int (length s))"
  using strlen_from_cstr [of m p 0 s] by (simp add: strlen_def)

fun str_diff :: "8 word list \<Rightarrow> 8 word list \<Rightarrow> int" where
  "str_diff [] [] = 0"
| "str_diff (a # s) [] = sint a"
| "str_diff [] (b # t) = - sint b"
| "str_diff (a # s) (b # t) = (if a = b then str_diff s t else sint a - sint b)"

lemma strcmp_cstr: "cstr m p s \<Longrightarrow> cstr m q t \<Longrightarrow> strcmp p q m = Some (str_diff s t)"
proof (induction s t arbitrary: p q rule: str_diff.induct)
  case (4 a s b t)
  then show ?case by (subst strcmp.simps) auto
qed (subst strcmp.simps; auto)+

lemma sint_eq_iff: "sint (a :: 8 word) = sint b \<longleftrightarrow> a = b"
  by (auto intro: signed_word_eqI)

lemma str_diff_0: "0 \<notin> set s \<Longrightarrow> 0 \<notin> set t \<Longrightarrow> str_diff s t = 0 \<longleftrightarrow> s = t"
  using sint_eq_iff [of _ 0]
  by (induction s t rule: str_diff.induct) (auto simp: sint_eq_iff)

text \<open>\<^verbatim>\<open>strcmp\<close> returns 0 exactly for equal strings.\<close>

theorem strcmp_equal:
  assumes "cstr m p s" and "cstr m q t"
  shows "strcmp p q m = Some 0 \<longleftrightarrow> s = t"
  using str_diff_0 [of s t] assms by (simp add: strcmp_cstr cstr_nonzero)

theorem strcmp_equal_witness:
  "let m = put_bytes [104, 105, 0] 10 (put_bytes [104, 200, 0] 20 (\<lambda>_. 7)) in
   strcmp 10 20 m \<noteq> Some 0"
proof -
  let ?m = "put_bytes [104, 105, 0] 10 (put_bytes [104, 200, 0] 20 (\<lambda>_. 7)) :: cmem"
  have "cstr ?m 10 [104, 105]" "cstr ?m 20 [104, 200]" by simp_all
  from strcmp_equal [OF this] show ?thesis by (simp add: Let_def)
qed

lemma strcpy_loop_cstr:
  assumes "cstr m s t" and "apart d (int (length t) + 1) s (int (length t) + 1)"
  shows "strcpy_loop d s m = Some (put_bytes (t @ [0]) d m)"
  using assms
proof (induction t arbitrary: d s m)
  case Nil
  then show ?case by (subst strcpy_loop.simps) simp
next
  case (Cons b t)
  have "cstr (m(d := b)) (s + 1) t = cstr m (s + 1) t"
    by (rule cstr_cong) (use Cons.prems(2) in \<open>auto simp: apart_def\<close>)
  then have "cstr (m(d := b)) (s + 1) t" using Cons.prems(1) by simp
  moreover have "apart (d + 1) (int (length t) + 1) (s + 1) (int (length t) + 1)"
    using Cons.prems(2) by (auto simp: apart_def)
  ultimately have "strcpy_loop (d + 1) (s + 1) (m(d := b)) = Some (put_bytes (t @ [0]) (d + 1) (m(d := b)))"
    by (rule Cons.IH)
  then show ?case using Cons.prems(1) by (subst strcpy_loop.simps) auto
qed

lemma cstr_put: "0 \<notin> set t \<Longrightarrow> cstr (put_bytes (t @ [0]) d m) d t"
  by (rule cstrI) (auto simp: put_bytes_apply nth_append)

text \<open>\<^verbatim>\<open>strchr\<close> looking for the end mark, as \<^verbatim>\<open>strcat\<close> does.\<close>

lemma strchr_end: "cstr m p s \<Longrightarrow> strchr p 0 m = Some (p + int (length s))"
proof (induction s arbitrary: p)
  case Nil
  then show ?case by (subst strchr.simps) simp
next
  case (Cons b s)
  then have "sint b \<noteq> 0" using sint_eq_iff [of b 0] by simp
  with Cons show ?case by (subst strchr.simps) (auto simp: add.assoc)
qed

text \<open>
  \<^verbatim>\<open>strcat\<close> appends: if the appended string lies apart from the space the result takes, the
  call returns, the destination holds both strings one after the other with an end mark, and no
  byte outside the appended part changes.
\<close>

theorem strcat_appends:
  assumes "cstr m d u" and "cstr m s t"
    and "apart (d + int (length u)) (int (length t) + 1) s (int (length t) + 1)"
  shows "\<exists>m'. strcat d s m = Some (m', d) \<and> cstr m' d (u @ t) \<and>
     (\<forall>a. a < d + int (length u) \<or> d + int (length u) + int (length t) < a \<longrightarrow> m' a = m a)"
proof -
  let ?e = "d + int (length u)"
  let ?m = "put_bytes (t @ [0]) ?e m"
  have run: "strcat d s m = Some (?m, d)"
    using strchr_end [OF assms(1)] strcpy_loop_cstr [OF assms(2,3)] by (simp add: strcat_def)
  have "cstr ?m d (u @ t)"
  proof (rule cstrI)
    show "?m (d + int i) = (u @ t) ! i" if "i < length (u @ t)" for i
      using that cstr_nth [OF assms(1), of i] by (auto simp: put_bytes_apply nth_append nat_minus_as_int)
    show "0 \<notin> set (u @ t)" using assms cstr_nonzero by auto
    show "?m (d + int (length (u @ t))) = 0" by (simp add: put_bytes_apply nth_append)
  qed
  with run show ?thesis by (auto simp: put_bytes_apply)
qed

theorem strcat_appends_witness:
  "let m = put_bytes [104, 0] 10 (put_bytes [105, 0] 20 (\<lambda>_. 7)) in
   \<exists>m'. strcat 10 20 m = Some (m', 10) \<and> cstr m' 10 [104, 105]"
proof -
  let ?m = "put_bytes [104, 0] 10 (put_bytes [105, 0] 20 (\<lambda>_. 7)) :: cmem"
  have "cstr ?m 10 [104]" "cstr ?m 20 [105]" by simp_all
  from strcat_appends [OF this] show ?thesis by (auto simp: Let_def apart_def)
qed

section \<open>Searching\<close>

lemma match_from_cstr:
  "cstr m h s \<Longrightarrow> cstr m n t \<Longrightarrow>
   \<exists>r. match_from h n m = Some r \<and> (m r = 0 \<longleftrightarrow> prefix t s)"
proof (induction t arbitrary: h n s)
  case Nil
  then show ?case by (subst match_from.simps) auto
next
  case (Cons b t)
  show ?case
  proof (cases s)
    case Nil
    with Cons.prems show ?thesis by (subst match_from.simps) auto
  next
    case (Cons c s')
    show ?thesis
    proof (cases "b = c")
      case True
      with Cons.IH [of "h + 1" s' "n + 1"] Cons Cons.prems show ?thesis
        by (subst match_from.simps) auto
    next
      case False
      with Cons Cons.prems show ?thesis by (subst match_from.simps) auto
    qed
  qed
qed

definition find_sub :: "8 word list \<Rightarrow> 8 word list \<Rightarrow> nat option" where
  "find_sub t s = find (\<lambda>i. prefix t (drop i s)) [0..<length s]"

lemma find_map: "find P (map f xs) = map_option f (find (P \<circ> f) xs)"
  by (induction xs) auto

lemma find_sub_Cons:
  "find_sub t (c # s) = (if prefix t (c # s) then Some 0 else map_option Suc (find_sub t s))"
proof -
  have "[0..<length (c # s)] = 0 # map Suc [0..<length s]"
    by (simp add: map_Suc_upt upt_conv_Cons del: upt_Suc)
  then show ?thesis by (simp add: find_sub_def find_map comp_def del: upt_Suc)
qed

lemma strstr_loop_cstr:
  assumes "cstr m n t" and "t \<noteq> []"
  shows "cstr m h s \<Longrightarrow>
    strstr_loop h n m = Some (case find_sub t s of None \<Rightarrow> 0 | Some i \<Rightarrow> h + int i)"
proof (induction s arbitrary: h)
  case Nil
  then show ?case by (subst strstr_loop.simps) (simp add: find_sub_def)
next
  case (Cons c s)
  obtain r where r: "match_from h n m = Some r" "m r = 0 \<longleftrightarrow> prefix t (c # s)"
    using match_from_cstr [OF Cons.prems assms(1)] by blast
  have "m h \<noteq> 0" and "cstr m (h + 1) s" using Cons.prems by auto
  with Cons.IH [of "h + 1"] r show ?case
    by (subst strstr_loop.simps) (auto simp: find_sub_Cons split: option.split)
qed

text \<open>
  C37. \<^verbatim>\<open>strstr\<close> returns the address of the first place in the haystack where the needle starts, the
  null pointer when there is none, and always returns.
\<close>

theorem strstr_first:
  assumes "cstr m h s" and "cstr m n t"
  shows "strstr h n m =
     Some (if t = [] then h else case find_sub t s of None \<Rightarrow> 0 | Some i \<Rightarrow> h + int i)"
proof (cases "t = []")
  case False
  then have "m n \<noteq> 0" using assms(2) by (cases t) auto
  with strstr_loop_cstr [OF assms(2) False assms(1)] False show ?thesis by (simp add: strstr_def)
qed (use assms(2) in \<open>simp add: strstr_def\<close>)

theorem strstr_first_witness:
  "let m = put_bytes [97, 98, 97, 99, 0] 10 (put_bytes [97, 99, 0] 20 (\<lambda>_. 7)) in
   strstr 10 20 m = Some 12"
proof -
  let ?m = "put_bytes [97, 98, 97, 99, 0] 10 (put_bytes [97, 99, 0] 20 (\<lambda>_. 7)) :: cmem"
  have "cstr ?m 10 [97, 98, 97, 99]" "cstr ?m 20 [97, 99]" by simp_all
  from strstr_first [OF this] have "strstr 10 20 ?m =
      Some (case find_sub [97, 99] [97, 98, 97, 99] of None \<Rightarrow> 0 | Some i \<Rightarrow> 10 + int i)" by simp
  moreover have "find_sub [97, 99] [97, 98, 97, 99] = Some 2" by code_simp
  ultimately show ?thesis by (simp add: Let_def)
qed

end
