(* ===== verification/SupportStream.thy ===== *)
theory SupportStream
  imports Writes SupportString "HOL-Library.Multiset"
begin

text \<open>
  The streams of \<^verbatim>\<open>tcc-bootstrap-support.c\<close>: a \<^verbatim>\<open>FILE *\<close> is a descriptor number, and error marks are
  kept in a linked list with reused nodes and in an array for the standard descriptors. The
  system calls and \<^verbatim>\<open>malloc\<close> are parameters, collected in the record \<open>kernel\<close>; \<open>'w\<close> is the state
  of the world they act on.
\<close>

section \<open>State\<close>

record 'w kernel =
  sys_write :: "'w sys_write"
  sys_read :: "int \<Rightarrow> 64 word \<Rightarrow> 'w \<Rightarrow> int \<times> 8 word list \<times> 'w"
  sys_open :: "cmem \<Rightarrow> int \<Rightarrow> int \<Rightarrow> int \<Rightarrow> 'w \<Rightarrow> int \<times> 'w"
  sys_close :: "int \<Rightarrow> 'w \<Rightarrow> int \<times> 'w"
  sys_lseek :: "int \<Rightarrow> int \<Rightarrow> int \<Rightarrow> 'w \<Rightarrow> int \<times> 'w"
  sys_malloc :: "nat \<Rightarrow> 'w \<Rightarrow> bool \<times> 'w"

record hcc_stream_state =
  node_fd :: int
  node_error :: int

text \<open>The list starts with the node \<^verbatim>\<open>hcc_streams\<close> points to.\<close>

record streams =
  hcc_streams :: "hcc_stream_state list"
  hcc_standard_errors :: "int list"

definition initial_streams :: streams where
  "initial_streams = \<lparr>hcc_streams = [], hcc_standard_errors = [0, 0, 0]\<rparr>"

text \<open>The pointer \<^verbatim>\<open>hcc_stream_error\<close> returns: to an element of the array, or into a node.\<close>

datatype error_pointer = Standard nat | Node nat

fun node_of :: "int \<Rightarrow> hcc_stream_state list \<Rightarrow> nat option" where
  "node_of fd [] = None"
| "node_of fd (p # ps) = (if node_fd p = fd then Some 0 else map_option Suc (node_of fd ps))"

definition hcc_stream_error :: "int \<Rightarrow> streams \<Rightarrow> error_pointer option" where
  "hcc_stream_error fd s =
     (if 0 \<le> fd \<and> fd < 3 then Some (Standard (nat fd))
      else map_option Node (node_of fd (hcc_streams s)))"

fun get_error :: "error_pointer \<Rightarrow> streams \<Rightarrow> int" where
  "get_error (Standard i) s = hcc_standard_errors s ! i"
| "get_error (Node i) s = node_error (hcc_streams s ! i)"

fun set_error :: "error_pointer \<Rightarrow> int \<Rightarrow> streams \<Rightarrow> streams" where
  "set_error (Standard i) v s = s\<lparr>hcc_standard_errors := (hcc_standard_errors s)[i := v]\<rparr>"
| "set_error (Node i) v s =
     s\<lparr>hcc_streams := (hcc_streams s)[i := (hcc_streams s ! i)\<lparr>node_error := v\<rparr>]\<rparr>"

text \<open>\<^verbatim>\<open>(int)(long)stream\<close>; the standard streams are 0, 1 and 2.\<close>

definition stream_fd :: "int \<Rightarrow> int" where
  "stream_fd stream = c_int stream"

section \<open>Opening and closing\<close>

definition hcc_stream_open :: "'w kernel \<Rightarrow> int \<Rightarrow> streams \<Rightarrow> 'w \<Rightarrow> int \<times> streams \<times> 'w" where
  "hcc_stream_open K fd s w =
     (case hcc_stream_error fd s of
        Some e \<Rightarrow> (1, set_error e 0 s, w)
      | None \<Rightarrow>
          (case node_of (- 1) (hcc_streams s) of
             Some i \<Rightarrow>
               (1, s\<lparr>hcc_streams := (hcc_streams s)[i := \<lparr>node_fd = fd, node_error = 0\<rparr>]\<rparr>, w)
           | None \<Rightarrow>
               (case sys_malloc K 16 w of (ok, w) \<Rightarrow>
                if \<not> ok then (0, s, w)
                else (1, s\<lparr>hcc_streams := \<lparr>node_fd = fd, node_error = 0\<rparr> # hcc_streams s\<rparr>, w))))"

definition ferror :: "int \<Rightarrow> streams \<Rightarrow> int" where
  "ferror stream s =
     (case hcc_stream_error (stream_fd stream) s of None \<Rightarrow> 1 | Some e \<Rightarrow> get_error e s)"

definition clearerr :: "int \<Rightarrow> streams \<Rightarrow> streams" where
  "clearerr stream s =
     (case hcc_stream_error (stream_fd stream) s of None \<Rightarrow> s | Some e \<Rightarrow> set_error e 0 s)"

text \<open>The loop over the mode string looks for a plus sign.\<close>

partial_function (option) mode_update :: "int \<Rightarrow> int \<Rightarrow> cmem \<Rightarrow> int option" where
  "mode_update p update m =
     (if m p \<noteq> 0 then mode_update (p + 1) (if m p = 43 then 1 else update) m else Some update)"

definition open_flags :: "8 word \<Rightarrow> int \<Rightarrow> int" where
  "open_flags c update =
     (if c = 119 then (if update \<noteq> 0 then 578 else 577)
      else if c = 97 then (if update \<noteq> 0 then 1090 else 1089)
      else 0)"

text \<open>Descriptors below 3 are given up until another one comes.\<close>

partial_function (option) open_above :: "'w kernel \<Rightarrow> cmem \<Rightarrow> int \<Rightarrow> int \<Rightarrow> int \<Rightarrow> 'w \<Rightarrow> (int \<times> 'w) option" where
  "open_above K m path flags fd w =
     (if 0 \<le> fd \<and> fd < 3 then
        (case sys_open K m path flags 384 w of (fd, w) \<Rightarrow> open_above K m path flags fd w)
      else Some (fd, w))"

definition fopen :: "'w kernel \<Rightarrow> cmem \<Rightarrow> int \<Rightarrow> int \<Rightarrow> streams \<Rightarrow> 'w \<Rightarrow> (int \<times> streams \<times> 'w) option" where
  "fopen K m path mode s w =
     Option.bind (mode_update mode 0 m) (\<lambda>update.
     let flags = open_flags (m mode) update in
     case sys_open K m path flags 384 w of (fd, w) \<Rightarrow>
     Option.bind (open_above K m path flags fd w) (\<lambda>(fd, w).
     if fd < 0 then Some (0, s, w)
     else
       (case hcc_stream_open K fd s w of (ok, s, w) \<Rightarrow>
        if ok = 0 then (case sys_close K fd w of (_, w) \<Rightarrow> Some (0, s, w))
        else Some (fd, s, w))))"

definition fclose :: "'w kernel \<Rightarrow> int \<Rightarrow> streams \<Rightarrow> 'w \<Rightarrow> int \<times> streams \<times> 'w" where
  "fclose K stream s w =
     (let fd = stream_fd stream in
      if fd < 3 then (0, s, w)
      else
        (case sys_close K fd w of (result, w) \<Rightarrow>
         (result,
          s\<lparr>hcc_streams :=
              map (\<lambda>p. if node_fd p = fd then p\<lparr>node_fd := - 1\<rparr> else p) (hcc_streams s)\<rparr>, w)))"

definition freopen ::
    "'w kernel \<Rightarrow> cmem \<Rightarrow> int \<Rightarrow> int \<Rightarrow> int \<Rightarrow> streams \<Rightarrow> 'w \<Rightarrow> (int \<times> streams \<times> 'w) option" where
  "freopen K m path mode stream s w =
     map_option
       (\<lambda>(next_stream, s, w).
         if next_stream \<noteq> 0 \<and> stream \<noteq> 0 \<and> stream \<notin> {0, 1, 2} then
           (case fclose K stream s w of (_, s, w) \<Rightarrow> (next_stream, s, w))
         else (next_stream, s, w))
       (fopen K m path mode s w)"

definition fdopen :: "'w kernel \<Rightarrow> int \<Rightarrow> streams \<Rightarrow> 'w \<Rightarrow> int \<times> streams \<times> 'w" where
  "fdopen K fd s w =
     (if fd < 0 then (0, s, w)
      else
        (case hcc_stream_open K fd s w of (ok, s, w) \<Rightarrow>
         if ok = 0 then (0, s, w) else (fd, s, w)))"

definition fflush :: "int \<Rightarrow> int" where
  "fflush stream = 0"

section \<open>Reading and writing\<close>

definition hcc_stream_write ::
    "'w kernel \<Rightarrow> cmem \<Rightarrow> int \<Rightarrow> 64 word \<Rightarrow> int \<Rightarrow> streams \<Rightarrow> 'w \<Rightarrow>
     (64 word \<times> streams \<times> 'w) option" where
  "hcc_stream_write K m data cnt stream s w =
     (let fd = stream_fd stream in
      case hcc_stream_error fd s of
        None \<Rightarrow> Some (0, s, w)
      | Some e \<Rightarrow>
          map_option
            (\<lambda>(w, finished, failed). (finished, if failed then set_error e 1 s else s, w))
            (stream_write_loop (sys_write K) fd m data cnt 0 w))"

definition fgetc :: "'w kernel \<Rightarrow> int \<Rightarrow> streams \<Rightarrow> 'w \<Rightarrow> int \<times> streams \<times> 'w" where
  "fgetc K stream s w =
     (let fd = stream_fd stream in
      case hcc_stream_error fd s of
        None \<Rightarrow> (- 1, s, w)
      | Some e \<Rightarrow>
          (case sys_read K fd 1 w of (n, bs, w) \<Rightarrow>
           if n = 1 then (uint (hd bs), s, w)
           else if n < 0 then (- 1, set_error e 1 s, w)
           else (- 1, s, w)))"

text \<open>The character is written from a local variable.\<close>

definition fputc :: "'w kernel \<Rightarrow> int \<Rightarrow> int \<Rightarrow> streams \<Rightarrow> 'w \<Rightarrow> (int \<times> streams \<times> 'w) option" where
  "fputc K c stream s w =
     (let ch = word_of_int c in
      map_option (\<lambda>(n, s, w). (if n = 1 then uint ch else - 1, s, w))
        (hcc_stream_write K (\<lambda>_. ch) 0 1 stream s w))"

definition fputs :: "'w kernel \<Rightarrow> cmem \<Rightarrow> int \<Rightarrow> int \<Rightarrow> streams \<Rightarrow> 'w \<Rightarrow> (int \<times> streams \<times> 'w) option" where
  "fputs K m txt stream s w =
     Option.bind (strlen txt m) (\<lambda>n.
     map_option (\<lambda>(r, s, w). (if r \<noteq> word_of_int n then - 1 else 0, s, w))
       (hcc_stream_write K m txt (word_of_int n) stream s w))"

definition fread ::
    "'w kernel \<Rightarrow> cmem \<Rightarrow> int \<Rightarrow> 64 word \<Rightarrow> 64 word \<Rightarrow> int \<Rightarrow> streams \<Rightarrow> 'w \<Rightarrow>
     64 word \<times> cmem \<times> streams \<times> 'w" where
  "fread K m data width cnt stream s w =
     (let fd = stream_fd stream in
      case hcc_stream_error fd s of
        None \<Rightarrow> (0, m, s, w)
      | Some e \<Rightarrow>
          if width = 0 \<or> cnt = 0 then (0, m, s, w)
          else
            (case sys_read K fd (width * cnt) w of (n, bs, w) \<Rightarrow>
             let m = put_bytes bs data m; s = (if n < 0 then set_error e 1 s else s) in
             if n \<le> 0 then (0, m, s, w) else (word_of_int n div width, m, s, w)))"

definition fwrite ::
    "'w kernel \<Rightarrow> cmem \<Rightarrow> int \<Rightarrow> 64 word \<Rightarrow> 64 word \<Rightarrow> int \<Rightarrow> streams \<Rightarrow> 'w \<Rightarrow>
     (64 word \<times> streams \<times> 'w) option" where
  "fwrite K m data width cnt stream s w =
     (case hcc_stream_error (stream_fd stream) s of
        None \<Rightarrow> Some (0, s, w)
      | Some e \<Rightarrow>
          if width = 0 \<or> cnt = 0 then Some (0, s, w)
          else if (- 1) div width < cnt then Some (0, set_error e 1 s, w)
          else
            map_option (\<lambda>(n, s, w). (n div width, s, w))
              (hcc_stream_write K m data (width * cnt) stream s w))"

definition fseek :: "'w kernel \<Rightarrow> int \<Rightarrow> int \<Rightarrow> int \<Rightarrow> 'w \<Rightarrow> int \<times> 'w" where
  "fseek K stream offset whence w =
     (case sys_lseek K (stream_fd stream) offset whence w of (r, w) \<Rightarrow>
      (if r < 0 then - 1 else 0, w))"

definition ftell :: "'w kernel \<Rightarrow> int \<Rightarrow> 'w \<Rightarrow> int \<times> 'w" where
  "ftell K stream w = sys_lseek K (stream_fd stream) 0 1 w"


section \<open>The table of streams\<close>

text \<open>
  Every node is free (descriptor -1) or belongs to a descriptor above the standard ones, no two
  nodes to the same one.
\<close>

definition open_fds :: "streams \<Rightarrow> int list" where
  "open_fds s = filter (\<lambda>fd. fd \<noteq> - 1) (map node_fd (hcc_streams s))"

definition streams_ok :: "streams \<Rightarrow> bool" where
  "streams_ok s \<longleftrightarrow> length (hcc_standard_errors s) = 3 \<and>
     (\<forall>fd \<in> set (open_fds s). 3 \<le> fd) \<and> distinct (open_fds s)"

text \<open>A change that touches error marks only.\<close>

definition marks_only :: "streams \<Rightarrow> streams \<Rightarrow> bool" where
  "marks_only s s' \<longleftrightarrow> map node_fd (hcc_streams s') = map node_fd (hcc_streams s) \<and>
     length (hcc_standard_errors s') = length (hcc_standard_errors s)"

lemma marks_only_refl [simp]: "marks_only s s"
  by (simp add: marks_only_def)

lemma map_update_same: "f x = f (xs ! i) \<Longrightarrow> map f (xs[i := x]) = map f xs"
  by (cases "i < length xs") (simp_all add: map_update list_update_same_conv list_update_beyond)

lemma marks_only_set_error [simp]: "marks_only s (set_error e v s)"
  by (cases e) (auto simp: marks_only_def map_update_same)

lemma marks_only_open_fds: "marks_only s s' \<Longrightarrow> open_fds s' = open_fds s"
  by (simp add: marks_only_def open_fds_def)

lemma marks_only_ok: "marks_only s s' \<Longrightarrow> streams_ok s' = streams_ok s"
  by (simp add: streams_ok_def marks_only_open_fds) (simp add: marks_only_def)

lemma marks_only_length: "marks_only s s' \<Longrightarrow> length (hcc_streams s') = length (hcc_streams s)"
  unfolding marks_only_def by (metis length_map)

lemma node_of_None: "node_of fd ps = None \<longleftrightarrow> fd \<notin> set (map node_fd ps)"
  by (induction ps) auto

lemma node_of_Some: "node_of fd ps = Some i \<Longrightarrow> i < length ps \<and> node_fd (ps ! i) = fd"
  by (induction ps arbitrary: i) (auto split: if_splits)

lemma set_filter_update:
  "i < length ps \<Longrightarrow> node_fd (ps ! i) = - 1 \<Longrightarrow> node_fd q = fd \<Longrightarrow> fd \<noteq> - 1 \<Longrightarrow>
   fd \<notin> set (map node_fd ps) \<Longrightarrow>
   mset (filter (\<lambda>fd. fd \<noteq> - 1) (map node_fd (ps[i := q]))) =
   add_mset fd (mset (filter (\<lambda>fd. fd \<noteq> - 1) (map node_fd ps)))"
proof (induction ps arbitrary: i)
  case (Cons p ps)
  then show ?case by (cases i) auto
qed simp

text \<open>
  Opening a descriptor above the standard ones clears its mark, or adds it to the open ones; a
  node is allocated only when all nodes are in use.
\<close>

lemma hcc_stream_open_table:
  assumes "hcc_stream_open K fd s w = (r, s', w')" and "3 \<le> fd"
  shows "marks_only s s' \<or>
    (mset (open_fds s') = add_mset fd (mset (open_fds s)) \<and> fd \<notin> set (open_fds s) \<and>
     hcc_standard_errors s' = hcc_standard_errors s \<and>
     (length (hcc_streams s') = length (hcc_streams s) \<or>
      length (hcc_streams s') = length (open_fds s') \<and>
      length (hcc_streams s) \<le> length (open_fds s')))"
proof (cases "hcc_stream_error fd s")
  case (Some e)
  then show ?thesis using assms by (auto simp: hcc_stream_open_def)
next
  case None
  then have new: "fd \<notin> set (map node_fd (hcc_streams s))"
    using assms(2) by (auto simp: hcc_stream_error_def node_of_None split: if_splits)
  show ?thesis
  proof (cases "node_of (- 1) (hcc_streams s)")
    case (Some i)
    then show ?thesis
      using assms None new node_of_Some [OF Some]
        set_filter_update [of i "hcc_streams s" "\<lparr>node_fd = fd, node_error = 0\<rparr>" fd]
      by (auto simp: hcc_stream_open_def open_fds_def)
  next
    case no_free: None
    then have "\<forall>fd \<in> set (map node_fd (hcc_streams s)). fd \<noteq> - 1"
      unfolding node_of_None by metis
    then have "filter (\<lambda>fd. fd \<noteq> - 1) (map node_fd (hcc_streams s)) = map node_fd (hcc_streams s)"
      by (rule filter_True)
    then have "length (filter (\<lambda>fd. fd \<noteq> - 1) (map node_fd (hcc_streams s))) = length (hcc_streams s)"
      "filter (\<lambda>fd. fd \<noteq> - 1) (map node_fd (hcc_streams s)) = map node_fd (hcc_streams s)"
      by simp_all
    then have "s' = s \<or> (open_fds s' = fd # open_fds s \<and> hcc_standard_errors s' = hcc_standard_errors s \<and>
        length (hcc_streams s') = length (open_fds s') \<and>
        length (hcc_streams s) \<le> length (open_fds s'))"
      using assms None no_free
      by (auto simp: hcc_stream_open_def open_fds_def simp del: length_filter_map filter_map split: prod.splits if_splits)
    then show ?thesis using new by (auto simp: open_fds_def simp del: mset_filter mset_map)
  qed
qed

lemma hcc_stream_open_ok:
  assumes "hcc_stream_open K fd s w = (r, s', w')" and "0 \<le> fd" and "streams_ok s"
  shows "streams_ok s'"
proof (cases "fd < 3")
  case True
  then have "marks_only s s'" using assms by (auto simp: hcc_stream_open_def hcc_stream_error_def marks_only_def)
  then show ?thesis using assms(3) by (simp add: marks_only_ok)
next
  case False
  then have "3 \<le> fd" by simp
  from hcc_stream_open_table [OF assms(1) this] show ?thesis
  proof
    assume add: "mset (open_fds s') = add_mset fd (mset (open_fds s)) \<and> fd \<notin> set (open_fds s) \<and>
      hcc_standard_errors s' = hcc_standard_errors s \<and>
     (length (hcc_streams s') = length (hcc_streams s) \<or>
      length (hcc_streams s') = length (open_fds s') \<and>
      length (hcc_streams s) \<le> length (open_fds s'))"
    then have "mset (open_fds s') = mset (fd # open_fds s)" by simp
    then have "set (open_fds s') = insert fd (set (open_fds s))"
      "distinct (open_fds s') = distinct (fd # open_fds s)"
      by (metis list.simps(15) mset_eq_setD, metis mset_eq_imp_distinct_iff)
    with add False assms(3) show ?thesis by (simp add: streams_ok_def)
  qed (use assms(3) False in \<open>simp_all add: marks_only_ok\<close>)
qed


lemma fclose_table:
  assumes "fclose K stream s w = (r, s', w')"
  shows "open_fds s' = open_fds s \<or> open_fds s' = filter (\<lambda>fd. fd \<noteq> stream_fd stream) (open_fds s)"
    and "length (hcc_streams s') = length (hcc_streams s)"
    and "hcc_standard_errors s' = hcc_standard_errors s"
proof -
  have "filter (\<lambda>x. x \<noteq> - 1) (map node_fd (map (\<lambda>p. if node_fd p = fd then p\<lparr>node_fd := - 1\<rparr> else p) ps)) =
      filter (\<lambda>x. x \<noteq> fd) (filter (\<lambda>x. x \<noteq> - 1) (map node_fd ps))"
    for fd and ps :: "hcc_stream_state list"
    by (induction ps) auto
  then show "open_fds s' = open_fds s \<or> open_fds s' = filter (\<lambda>fd. fd \<noteq> stream_fd stream) (open_fds s)"
    using assms by (auto simp: fclose_def open_fds_def Let_def split: if_splits prod.splits)
qed (use assms in \<open>auto simp: fclose_def Let_def split: if_splits prod.splits\<close>)

lemma fclose_ok: "fclose K stream s w = (r, s', w') \<Longrightarrow> streams_ok s \<Longrightarrow> streams_ok s'"
  using fclose_table [of K stream s w r s' w'] by (auto simp: streams_ok_def)

lemma open_above_result:
  assumes "open_above K m path flags fd w = Some r"
  shows "fst r < 0 \<or> 3 \<le> fst r"
  by (rule open_above.raw_induct [OF _ assms, where P = "\<lambda>K m path flags fd w r. fst r < 0 \<or> 3 \<le> fst r"])
    (auto split: prod.splits if_splits)

lemma fopen_table:
  assumes "fopen K m path mode s w = Some (stream, s', w')"
  shows "s' = s \<or> (\<exists>fd r w1 w2. 3 \<le> fd \<and> hcc_stream_open K fd s w1 = (r, s', w2))"
proof -
  from assms obtain update where
    "(case sys_open K m path (open_flags (m mode) update) 384 w of (fd, w) \<Rightarrow>
      Option.bind (open_above K m path (open_flags (m mode) update) fd w) (\<lambda>(fd, w).
      if fd < 0 then Some (0, s, w)
      else
        (case hcc_stream_open K fd s w of (ok, s, w) \<Rightarrow>
         if ok = 0 then (case sys_close K fd w of (_, w) \<Rightarrow> Some (0, s, w))
         else Some (fd, s, w)))) = Some (stream, s', w')"
    by (auto simp: fopen_def Let_def bind_eq_Some_conv)
  then obtain fd w0 fd1 w1 where
    "open_above K m path (open_flags (m mode) update) fd w0 = Some (fd1, w1)" and
    res: "(if fd1 < 0 then Some (0, s, w1)
     else
       (case hcc_stream_open K fd1 s w1 of (ok, s, w) \<Rightarrow>
        if ok = 0 then (case sys_close K fd1 w of (_, w) \<Rightarrow> Some (0, s, w))
        else Some (fd1, s, w))) = Some (stream, s', w')"
    by (cases "sys_open K m path (open_flags (m mode) update) 384 w") (auto simp: bind_eq_Some_conv)
  then have fd1: "fd1 < 0 \<or> 3 \<le> fd1" using open_above_result by fastforce
  obtain ok s1 w2 where opened: "hcc_stream_open K fd1 s w1 = (ok, s1, w2)" by (cases "hcc_stream_open K fd1 s w1")
  with res fd1 show ?thesis
    by (auto split: if_splits prod.splits)
qed

text \<open>Reading and writing at most set one mark.\<close>

definition sets_mark :: "streams \<Rightarrow> streams \<Rightarrow> bool" where
  "sets_mark s s' \<longleftrightarrow> s' = s \<or> (\<exists>e. s' = set_error e 1 s)"

lemma sets_mark_simps [simp]: "sets_mark s s" "sets_mark s (set_error e 1 s)"
  by (auto simp: sets_mark_def)

lemma sets_mark_marks: "sets_mark s s' \<Longrightarrow> marks_only s s'"
  by (auto simp: sets_mark_def)

lemma writing_marks:
  "hcc_stream_write K m data cnt stream s w = Some (r, s', w') \<Longrightarrow> sets_mark s s'"
  "fgetc K stream s w = (c, s', w') \<Longrightarrow> sets_mark s s'"
  "fputc K ch stream s w = Some (c, s', w') \<Longrightarrow> sets_mark s s'"
  "fputs K m p stream s w = Some (c, s', w') \<Longrightarrow> sets_mark s s'"
  "fread K m data width cnt stream s w = (r, m', s', w') \<Longrightarrow> sets_mark s s'"
  "fwrite K m data width cnt stream s w = Some (r, s', w') \<Longrightarrow> sets_mark s s'"
proof -
  show hw: "hcc_stream_write K m data cnt stream s w = Some (r, s', w') \<Longrightarrow> sets_mark s s'"
    for m data cnt s' w' r
    by (auto simp: hcc_stream_write_def Let_def split: option.splits prod.splits if_splits)
  show "fgetc K stream s w = (c, s', w') \<Longrightarrow> sets_mark s s'"
    by (auto simp: fgetc_def Let_def split: option.splits prod.splits if_splits)
  show "fputc K ch stream s w = Some (c, s', w') \<Longrightarrow> sets_mark s s'"
    by (auto simp: fputc_def Let_def intro: hw)
  show "fputs K m p stream s w = Some (c, s', w') \<Longrightarrow> sets_mark s s'"
    by (auto simp: fputs_def bind_eq_Some_conv intro: hw)
  show "fread K m data width cnt stream s w = (r, m', s', w') \<Longrightarrow> sets_mark s s'"
    by (auto simp: fread_def Let_def split: option.splits prod.splits if_splits)
  show "fwrite K m data width cnt stream s w = Some (r, s', w') \<Longrightarrow> sets_mark s s'"
    by (auto simp: fwrite_def Let_def split: option.splits prod.splits if_splits intro: hw)
qed

lemma clearerr_marks: "marks_only s (clearerr stream s)"
  by (auto simp: clearerr_def split: option.splits)

section \<open>Runs of the library\<close>

text \<open>
  \<open>stream_run K s k\<close>: calls in any order, in any states of the world, have led from the initial
  state to \<open>s\<close>, and at most \<open>k\<close> streams above the standard ones were open at any time.
\<close>

inductive stream_run :: "'w kernel \<Rightarrow> streams \<Rightarrow> nat \<Rightarrow> bool" for K where
  start: "stream_run K initial_streams 0"
| fopen: "stream_run K s k \<Longrightarrow> fopen K m path mode s w = Some (stream, s', w') \<Longrightarrow>
    stream_run K s' (max k (length (open_fds s')))"
| fdopen: "stream_run K s k \<Longrightarrow> fdopen K fd s w = (stream, s', w') \<Longrightarrow>
    stream_run K s' (max k (length (open_fds s')))"
| fclose: "stream_run K s k \<Longrightarrow> fclose K stream s w = (r, s', w') \<Longrightarrow> stream_run K s' k"
| fgetc: "stream_run K s k \<Longrightarrow> fgetc K stream s w = (c, s', w') \<Longrightarrow> stream_run K s' k"
| fputc: "stream_run K s k \<Longrightarrow> fputc K c stream s w = Some (r, s', w') \<Longrightarrow> stream_run K s' k"
| fputs: "stream_run K s k \<Longrightarrow> fputs K m p stream s w = Some (r, s', w') \<Longrightarrow> stream_run K s' k"
| fread: "stream_run K s k \<Longrightarrow> fread K m data width cnt stream s w = (r, m', s', w') \<Longrightarrow>
    stream_run K s' k"
| fwrite: "stream_run K s k \<Longrightarrow> fwrite K m data width cnt stream s w = Some (r, s', w') \<Longrightarrow>
    stream_run K s' k"
| clearerr: "stream_run K s k \<Longrightarrow> stream_run K (clearerr stream s) k"

definition peak_inv :: "streams \<Rightarrow> nat \<Rightarrow> bool" where
  "peak_inv s k \<longleftrightarrow> streams_ok s \<and> length (open_fds s) \<le> k \<and> length (hcc_streams s) = k"

lemma peak_inv_marks: "marks_only s s' \<Longrightarrow> peak_inv s k \<Longrightarrow> peak_inv s' k"
  by (simp add: peak_inv_def marks_only_ok marks_only_open_fds marks_only_length)

lemma length_open_fds: "length (open_fds s) \<le> length (hcc_streams s)"
  unfolding open_fds_def by (metis length_filter_le length_map)

lemma peak_inv_open:
  assumes "hcc_stream_open K fd s w = (r, s', w')" and "0 \<le> fd" and "peak_inv s k"
  shows "peak_inv s' (max k (length (open_fds s')))"
proof (cases "fd < 3")
  case True
  then have "marks_only s s'"
    using assms by (auto simp: hcc_stream_open_def hcc_stream_error_def marks_only_def)
  then show ?thesis using assms(3)
    by (simp add: peak_inv_def marks_only_ok marks_only_open_fds marks_only_length)
next
  case False
  have ok: "streams_ok s'" using hcc_stream_open_ok [OF assms(1,2)] assms(3) by (simp add: peak_inv_def)
  from False have "3 \<le> fd" by simp
  from hcc_stream_open_table [OF assms(1) this] show ?thesis
  proof (rule disjE)
    assume "marks_only s s'"
    then show ?thesis using assms(3)
      by (simp add: peak_inv_def marks_only_ok marks_only_open_fds marks_only_length)
  qed (use assms(3) ok length_open_fds [of s'] in \<open>auto simp: peak_inv_def max_def\<close>)
qed

lemma stream_run_peak: "stream_run K s k \<Longrightarrow> peak_inv s k"
proof (induction rule: stream_run.induct)
  case start
  then show ?case by (simp add: peak_inv_def streams_ok_def open_fds_def initial_streams_def)
next
  case (fopen s k m path mode w stream s' w')
  from fopen_table [OF fopen.hyps(2)] show ?case
  proof
    assume "s' = s"
    with fopen.IH show ?case by (simp add: peak_inv_def max_absorb1)
  next
    assume "\<exists>fd r w1 w2. 3 \<le> fd \<and> hcc_stream_open K fd s w1 = (r, s', w2)"
    then obtain fd r w1 w2 where "hcc_stream_open K fd s w1 = (r, s', w2)" "0 \<le> fd" by fastforce
    then show ?case using fopen.IH by (rule peak_inv_open)
  qed
next
  case (fdopen s k fd w stream s' w')
  then show ?case
    by (auto simp: fdopen_def peak_inv_def max_absorb1 split: if_splits prod.splits
        dest!: peak_inv_open)
next
  case (fclose s k stream w r s' w')
  with fclose_table [OF fclose.hyps(2)] fclose_ok [OF fclose.hyps(2)] show ?case
    by (auto simp: peak_inv_def intro: order_trans [OF length_filter_le])
qed (auto intro: peak_inv_marks clearerr_marks sets_mark_marks [OF writing_marks(2)]
    sets_mark_marks [OF writing_marks(3)] sets_mark_marks [OF writing_marks(4)]
    sets_mark_marks [OF writing_marks(5)] sets_mark_marks [OF writing_marks(6)])


section \<open>Error marks\<close>

lemma node_of_cong: "map node_fd ps = map node_fd qs \<Longrightarrow> node_of fd ps = node_of fd qs"
proof (induction ps arbitrary: qs)
  case (Cons p ps)
  then show ?case by (cases qs) auto
qed simp

lemma hcc_stream_error_marks: "marks_only s s' \<Longrightarrow> hcc_stream_error fd s' = hcc_stream_error fd s"
  unfolding hcc_stream_error_def marks_only_def by (simp cong: node_of_cong)

lemma get_set_error:
  assumes "hcc_stream_error fd s = Some e" and "length (hcc_standard_errors s) = 3"
  shows "get_error e (set_error e v s) = v"
proof (cases e)
  case (Standard i)
  then show ?thesis using assms by (auto simp: hcc_stream_error_def split: if_splits)
next
  case (Node i)
  then show ?thesis using assms node_of_Some [of fd "hcc_streams s" i]
    by (auto simp: hcc_stream_error_def split: if_splits)
qed

lemma get_error_sticks:
  assumes "get_error e s \<noteq> 0" and "sets_mark s s'"
  shows "get_error e s' \<noteq> 0"
proof -
  have "xs ! i \<noteq> 0 \<Longrightarrow> xs[j := 1] ! i \<noteq> 0" for xs :: "int list" and i j
    by (cases "i = j"; cases "j < length xs") (auto simp: list_update_beyond)
  moreover have "node_error (ps ! i) \<noteq> 0 \<Longrightarrow> node_error (ps[j := (ps ! j)\<lparr>node_error := 1\<rparr>] ! i) \<noteq> 0"
    for ps :: "hcc_stream_state list" and i j
    by (cases "i = j"; cases "j < length ps") (auto simp: list_update_beyond)
  ultimately have "get_error e (set_error e' 1 s) \<noteq> 0" for e'
    using assms(1) by (cases e; cases e') auto
  then show ?thesis using assms by (auto simp: sets_mark_def)
qed


section \<open>What the streams promise\<close>

text \<open>
  A sample of a world for the witnesses: the open descriptors, of which there can be eight, and
  what each descriptor has received. Reads find the end of the file.
\<close>

definition sample_open :: "int set \<Rightarrow> int" where
  "sample_open fds = (case find (\<lambda>fd. fd \<notin> fds) [0, 1, 2, 3, 4, 5, 6, 7] of None \<Rightarrow> - 24 | Some fd \<Rightarrow> fd)"

definition sample_kernel :: "(int set \<times> (int \<Rightarrow> 8 word list)) kernel" where
  "sample_kernel =
     \<lparr>sys_write = (\<lambda>fd bs (fds, f).
        if fd \<in> fds then (case slow_write fd bs f of (n, f) \<Rightarrow> (n, (fds, f))) else (- 9, (fds, f))),
      sys_read = (\<lambda>fd n w. (0, [], w)),
      sys_open = (\<lambda>m path flags mode (fds, f).
        let fd = sample_open fds in if fd < 0 then (fd, (fds, f)) else (fd, (insert fd fds, f))),
      sys_close = (\<lambda>fd (fds, f). (0, (fds - {fd}, f))),
      sys_lseek = (\<lambda>fd offset whence w. (- 29, w)),
      sys_malloc = (\<lambda>n w. (True, w))\<rparr>"

text \<open>
  C21. Whatever calls have been made, in whatever order and whatever the kernel answered, every
  node of the list is free or belongs to one open descriptor above 2, no two nodes to the same,
  and the number of nodes is the largest number of streams that were open at one time.
\<close>

theorem stream_table_invariant:
  assumes "stream_run K s k"
  shows "(\<forall>p \<in> set (hcc_streams s). node_fd p = - 1 \<or> 3 \<le> node_fd p) \<and> distinct (open_fds s) \<and>
    length (hcc_streams s) = k \<and> length (hcc_standard_errors s) = 3"
proof -
  from stream_run_peak [OF assms] have inv: "streams_ok s" "length (hcc_streams s) = k"
    by (simp_all add: peak_inv_def)
  then have "node_fd p = - 1 \<or> 3 \<le> node_fd p" if "p \<in> set (hcc_streams s)" for p
    using that by (auto simp: streams_ok_def open_fds_def)
  with inv show ?thesis by (auto simp: streams_ok_def)
qed

text \<open>
  C24. Error marks are sticky: once \<^verbatim>\<open>ferror\<close> reports an error for a stream, it does so after any
  reading and writing, on this stream or another, and after \<^verbatim>\<open>fflush\<close>, which changes nothing.
\<close>

theorem ferror_sticky:
  assumes "ferror t s \<noteq> 0"
    and "fwrite K m data width cnt stream s w = Some (r, s', w') \<or>
      fputc K ch stream s w = Some (c, s', w') \<or> fputs K m data stream s w = Some (c, s', w') \<or>
      fgetc K stream s w = (c, s', w') \<or> fread K m data width cnt stream s w = (r, m', s', w')"
  shows "ferror t s' \<noteq> 0"
proof -
  from assms(2) have sets: "sets_mark s s'" using writing_marks by metis
  then have "hcc_stream_error (stream_fd t) s' = hcc_stream_error (stream_fd t) s"
    using hcc_stream_error_marks sets_mark_marks by blast
  with assms(1) sets show ?thesis
    by (auto simp: ferror_def get_error_sticks split: option.splits)
qed

lemma hcc_stream_write_runs:
  assumes "posix_write received (sys_write K)" and "hcc_stream_error (stream_fd stream) s = Some e"
  shows "\<exists>w' left. left \<le> unat cnt \<and>
    received w' = (received w)(stream_fd stream :=
      received w (stream_fd stream) @ bytes_at m data (unat cnt - left)) \<and>
    hcc_stream_write K m data cnt stream s w =
      Some (if left = 0 then (cnt, s, w') else (cnt - of_nat left, set_error e 1 s, w')) \<and>
    (never_fails (sys_write K) \<longrightarrow> left = 0)"
proof -
  let ?fd = "stream_fd stream"
  from stream.writes_all_or_fails [OF assms(1), of "unat cnt" cnt w ?fd m data]
  obtain w' left where "left \<le> unat cnt"
    "received w' = (received w)(?fd := received w ?fd @ bytes_at m data (unat cnt - left))"
    "stream_write_loop (sys_write K) ?fd m data cnt 0 w =
      Some (if left = 0 then (w', cnt, False) else (w', cnt - of_nat left, True))"
    "never_fails (sys_write K) \<longrightarrow> left = 0"
    by auto
  then show ?thesis using assms(2)
    by (intro exI [of _ w'] exI [of _ left]) (simp add: hcc_stream_write_def Let_def)
qed


text \<open>The overflow guard of \<^verbatim>\<open>fwrite\<close>.\<close>

lemma fwrite_guard:
  fixes width cnt :: "64 word"
  assumes "width \<noteq> 0" and "\<not> (- 1) div width < cnt"
  shows "unat (width * cnt) = unat width * unat cnt"
proof -
  have "unat cnt \<le> unat (- 1 :: 64 word) div unat width"
    using assms(2) by (simp add: not_less word_le_nat_alt unat_div)
  also have "unat (- 1 :: 64 word) = 2 ^ 64 - 1" by (simp add: unsigned_minus_1_eq_mask mask_eq_exp_minus_1)
  finally have "unat width * unat cnt \<le> 2 ^ 64 - 1"
    by (metis div_times_less_eq_dividend le_trans mult.commute mult_le_mono1)
  then show ?thesis by (simp add: unat_word_ariths)
qed

text \<open>
  C22. \<^verbatim>\<open>fwrite\<close> to an open stream always returns, although \<^verbatim>\<open>write\<close> may take any number of bytes at a
  time. It returns the count exactly when all the bytes have gone out, in order, and then no mark
  changes; otherwise it returns the number of whole elements that went out, a prefix of the bytes
  has been received, and \<^verbatim>\<open>ferror\<close> reports the failure. A product of sizes that does not fit 64
  bits is such a failure, with nothing written.
\<close>

theorem fwrite_complete:
  assumes "posix_write received (sys_write K)" and "streams_ok s"
    and "hcc_stream_error (stream_fd stream) s = Some e" and "width \<noteq> 0" and "cnt \<noteq> 0"
  shows "\<exists>n s' w' k. fwrite K m data width cnt stream s w = Some (n, s', w') \<and>
    received w' = (received w)(stream_fd stream := received w (stream_fd stream) @ bytes_at m data k) \<and>
    unat n = k div unat width \<and>
    (if k = unat width * unat cnt then n = cnt \<and> s' = s
     else k < unat width * unat cnt \<and> n < cnt \<and> ferror stream s' \<noteq> 0)"
proof -
  let ?fd = "stream_fd stream"
  have pos: "0 < unat width" "0 < unat cnt" using assms(4,5) by (simp_all add: unat_gt_0)
  have marked: "ferror stream (set_error e 1 s) \<noteq> 0"
    using assms(2,3) by (simp add: ferror_def hcc_stream_error_marks [OF marks_only_set_error] get_set_error streams_ok_def)
  show ?thesis
  proof (cases "(- 1) div width < cnt")
    case True
    then show ?thesis using assms marked pos
      by (intro exI [of _ 0] exI [of _ "set_error e 1 s"] exI [of _ w])
        (simp add: fwrite_def word_less_nat_alt)
  next
    case False
    let ?n = "width * cnt"
    have n: "unat ?n = unat width * unat cnt" using fwrite_guard [OF assms(4) False] .
    obtain w' left where left: "left \<le> unat ?n"
      "received w' = (received w)(?fd := received w ?fd @ bytes_at m data (unat ?n - left))"
      "hcc_stream_write K m data ?n stream s w =
        Some (if left = 0 then (?n, s, w') else (?n - of_nat left, set_error e 1 s, w'))"
      using hcc_stream_write_runs [OF assms(1,3)] by blast
    let ?k = "unat ?n - left"
    let ?r = "(?n - of_nat left) div width"
    have "unat (of_nat left :: 64 word) = left"
      using left(1) unsigned_less [of ?n, where 'a = nat] by (simp add: unat_of_nat)
    then have k: "unat (?n - of_nat left) = ?k"
      using left(1) by (simp add: unat_sub word_le_nat_alt)
    have r: "unat ?r = ?k div unat width" by (simp add: unat_div k)
    have call: "fwrite K m data width cnt stream s w =
        Some (?r, if left = 0 then s else set_error e 1 s, w')"
      using left(3) assms(3,4,5) False by (simp add: fwrite_def)
    have all: "?r = cnt" if "left = 0"
      using r n pos that by (intro word_unat_eq_iff [THEN iffD2]) simp
    have some: "?r < cnt" "?k < unat width * unat cnt" if "left \<noteq> 0"
    proof -
      show less: "?k < unat width * unat cnt" using that left(1) n pos by simp
      then show "?r < cnt" unfolding word_less_nat_alt r
        by (simp add: less_mult_imp_div_less mult.commute)
    qed
    show ?thesis
      using call left(2) r all some marked n
      by (intro exI [of _ ?r] exI [of _ "if left = 0 then s else set_error e 1 s"] exI [of _ w']
          exI [of _ ?k]) auto
  qed
qed

text \<open>A call of \<^verbatim>\<open>open\<close> that succeeds returns a descriptor that was not open.\<close>

definition posix_open :: "('w \<Rightarrow> int set) \<Rightarrow> 'w kernel \<Rightarrow> bool" where
  "posix_open opened K \<longleftrightarrow>
     (\<forall>m path flags mode w.
       case sys_open K m path flags mode w of (fd, w') \<Rightarrow>
         fd < 0 \<or> fd \<notin> opened w \<and> opened w' = insert fd (opened w))"

lemma posix_openD:
  "posix_open opened K \<Longrightarrow> sys_open K m path flags mode w = (fd, w') \<Longrightarrow>
   fd < 0 \<or> fd \<notin> opened w \<and> opened w' = insert fd (opened w)"
  unfolding posix_open_def by (drule spec [of _ m], drule spec [of _ path], drule spec [of _ flags],
    drule spec [of _ mode], drule spec [of _ w]) simp

lemma open_above_returns:
  assumes "posix_open opened K" and "0 \<le> fd \<longrightarrow> fd \<in> opened w"
  shows "\<exists>r. open_above K m path flags fd w = Some r"
  using assms(2)
proof (induction "card ({0, 1, 2} - opened w)" arbitrary: fd w rule: less_induct)
  case less
  show ?case
  proof (cases "0 \<le> fd \<and> fd < 3")
    case True
    obtain fd1 w1 where call: "sys_open K m path flags 384 w = (fd1, w1)" by fastforce
    then have post: "fd1 < 0 \<or> fd1 \<notin> opened w \<and> opened w1 = insert fd1 (opened w)"
      by (rule posix_openD [OF assms(1)])
    have "\<exists>r. open_above K m path flags fd1 w1 = Some r"
    proof (cases "0 \<le> fd1 \<and> fd1 < 3")
      case low: True
      then have "fd1 \<in> {0, 1, 2}" by auto
      with low post have "card ({0, 1, 2} - opened w1) < card ({0, 1, 2} - opened w)"
        by (intro psubset_card_mono) auto
      then show ?thesis using less.hyps low post by auto
    next
      case False
      then show ?thesis by (subst open_above.simps) auto
    qed
    then show ?thesis using True call by (subst open_above.simps) simp
  qed (subst open_above.simps, auto)
qed

lemma mode_update_returns: "cstr m p s \<Longrightarrow> \<exists>u. mode_update p v m = Some u"
proof (induction s arbitrary: p v)
  case Nil
  then show ?case by (subst mode_update.simps) simp
next
  case (Cons c s)
  then have "\<exists>u. mode_update (p + 1) (if m p = 43 then 1 else v) m = Some u" by simp
  with Cons.prems show ?case by (subst mode_update.simps) auto
qed

text \<open>
  C23. \<^verbatim>\<open>fopen\<close> with a mode string always returns: the loop that gives up the descriptors 0, 1 and 2
  ends. The stream it returns is null or a descriptor above 2.
\<close>

theorem fopen_returns:
  assumes "posix_open opened K" and "cstr m mode str"
  shows "\<exists>stream s' w'. fopen K m path mode s w = Some (stream, s', w') \<and> (stream = 0 \<or> 3 \<le> stream)"
proof -
  obtain u where u: "mode_update mode 0 m = Some u" using mode_update_returns [OF assms(2)] by blast
  let ?flags = "open_flags (m mode) u"
  obtain fd w1 where call: "sys_open K m path ?flags 384 w = (fd, w1)" by fastforce
  then have "fd < 0 \<or> opened w1 = insert fd (opened w)"
    using posix_openD [OF assms(1)] by blast
  then obtain fd2 w2 where above: "open_above K m path ?flags fd w1 = Some (fd2, w2)"
    using open_above_returns [OF assms(1), of fd w1 m path ?flags] by auto
  obtain ok s3 w3 where opened: "hcc_stream_open K fd2 s w2 = (ok, s3, w3)"
    by (cases "hcc_stream_open K fd2 s w2") auto
  obtain r w4 where "sys_close K fd2 w3 = (r, w4)" by fastforce
  with u call above opened open_above_result [OF above] show ?thesis
    by (auto simp: fopen_def Let_def)
qed


section \<open>Witnesses\<close>

lemma sample_write: "posix_write snd (sys_write sample_kernel)"
  using slow_write_posix by (auto simp: posix_write_def sample_kernel_def split: prod.splits)

lemma sample_posix_open: "posix_open fst sample_kernel"
proof -
  have "sample_open fds < 0 \<or> sample_open fds \<notin> fds" for fds
    by (auto simp: sample_open_def find_Some_iff split: option.splits)
  then show ?thesis
    by (auto simp: posix_open_def sample_kernel_def Let_def split: prod.splits)
qed

text \<open>Descriptor 3 is opened and closed, then 4 is opened: one node is enough.\<close>

theorem stream_table_invariant_witness:
  "length (hcc_streams (fst (snd (fdopen sample_kernel 4
     (fst (snd (fclose sample_kernel 3
       (fst (snd (fdopen sample_kernel 3 initial_streams ({}, \<lambda>_. []))))
     ({}, \<lambda>_. [])))) ({}, \<lambda>_. []))))) = 1"
proof -
  let ?w = "({}, \<lambda>_. []) :: int set \<times> (int \<Rightarrow> 8 word list)"
  let ?s1 = "fst (snd (fdopen sample_kernel 3 initial_streams ?w))"
  let ?s2 = "fst (snd (fclose sample_kernel 3 ?s1 ?w))"
  let ?s3 = "fst (snd (fdopen sample_kernel 4 ?s2 ?w))"
  have "stream_run sample_kernel ?s1 (max 0 (length (open_fds ?s1)))"
    by (rule stream_run.fdopen [OF stream_run.start]) (simp add: prod_eq_iff)
  then have "stream_run sample_kernel ?s2 (max 0 (length (open_fds ?s1)))"
    by (rule stream_run.fclose) (simp add: prod_eq_iff)
  then have "stream_run sample_kernel ?s3 (max (max 0 (length (open_fds ?s1))) (length (open_fds ?s3)))"
    by (rule stream_run.fdopen) (simp add: prod_eq_iff)
  from stream_table_invariant [OF this]
  have "length (hcc_streams ?s3) = max (length (open_fds ?s1)) (length (open_fds ?s3))" by simp
  moreover have "length (open_fds ?s1) = 1" "length (open_fds ?s3) = 1"
    by (simp_all add: fdopen_def fclose_def hcc_stream_open_def hcc_stream_error_def initial_streams_def
        sample_kernel_def open_fds_def stream_fd_def int_ok_def)
  ultimately show ?thesis by simp
qed

theorem ferror_sticky_witness:
  "ferror 1 (fst (snd (fgetc sample_kernel 0 \<lparr>hcc_streams = [], hcc_standard_errors = [0, 1, 0]\<rparr>
     ({0}, \<lambda>_. [])))) \<noteq> 0"
proof (rule ferror_sticky)
  show "ferror 1 \<lparr>hcc_streams = [], hcc_standard_errors = [0, 1, 0]\<rparr> \<noteq> 0"
    by (simp add: ferror_def hcc_stream_error_def stream_fd_def int_ok_def)
qed (intro disjI2 disjI1, rule prod_eqI, simp, rule prod_eqI, simp_all)

theorem fwrite_complete_witness:
  "\<exists>n s' w' k. fwrite sample_kernel (\<lambda>a. word_of_int a) 65 2 3 1 initial_streams ({1}, \<lambda>_. []) = Some (n, s', w') \<and>
    snd w' = (\<lambda>_. [])(1 := bytes_at (\<lambda>a. word_of_int a) 65 k) \<and> unat n = k div 2 \<and>
    (if k = 6 then n = 3 \<and> s' = initial_streams else k < 6 \<and> n < 3 \<and> ferror 1 s' \<noteq> 0)"
proof -
  have "hcc_stream_error (stream_fd 1) initial_streams = Some (Standard 1)" "stream_fd 1 = 1"
    "streams_ok initial_streams"
    by (simp_all add: hcc_stream_error_def stream_fd_def int_ok_def initial_streams_def
        streams_ok_def open_fds_def)
  moreover have "unat (2 :: 64 word) * unat (3 :: 64 word) = 6" "unat (2 :: 64 word) = 2"
    "(2 :: 64 word) \<noteq> 0" "(3 :: 64 word) \<noteq> 0"
    by simp_all
  ultimately show ?thesis
    using fwrite_complete [OF sample_write, of initial_streams 1 "Standard 1" 2 3 "\<lambda>a. word_of_int a"
        65 "({1}, \<lambda>_. [])"]
    by (simp only: simp_thms snd_conv append_Nil)
qed

theorem fopen_returns_witness:
  "\<exists>stream s' w'. fopen sample_kernel (put_bytes [119, 0] 20 (\<lambda>_. 0)) 10 20 initial_streams ({0}, \<lambda>_. []) =
    Some (stream, s', w') \<and> (stream = 0 \<or> 3 \<le> stream)"
  by (rule fopen_returns [OF sample_posix_open, where str = "[119]"]) simp

end
