(* ===== verification/SupportPrintf.thy ===== *)
theory SupportPrintf
  imports SupportFormat SupportStream
begin

text \<open>
  The \<^verbatim>\<open>vsnprintf\<close> of \<^verbatim>\<open>tcc-bootstrap-support.c\<close> as TinyCC builds it, with precisions and \<^verbatim>\<open>va_arg\<close>,
  and printing to a stream. The arguments of a \<^verbatim>\<open>va_list\<close> are words at consecutive indices.
\<close>

section \<open>vsnprintf\<close>

text \<open>\<^verbatim>\<open>va_arg\<close> at type \<^verbatim>\<open>int\<close> or \<^verbatim>\<open>unsigned int\<close>, widened to \<^verbatim>\<open>long\<close>.\<close>

definition va_int :: "64 word \<Rightarrow> 64 word" where
  "va_int v = scast (ucast v :: 32 word)"

definition va_unsigned :: "64 word \<Rightarrow> 64 word" where
  "va_unsigned v = ucast (ucast v :: 32 word)"

definition vsnprintf_conversion ::
    "int \<Rightarrow> bool \<Rightarrow> int \<Rightarrow> int \<Rightarrow> bool \<Rightarrow> 8 word \<Rightarrow> 64 word \<Rightarrow> sink \<Rightarrow> (sink \<times> int) option" where
  "vsnprintf_conversion en left width precision is_long c v s =
     (if c = 115 then
        map_option (\<lambda>s. (s, 1))
          (with_padding en left width (hcc_string_n_len (smem s) (uint v) precision)
            (hcc_append_string_limit en (uint v) precision) s)
      else if c = 100 \<or> c = 105 then
        let v = (if is_long then v else va_int v) in
        map_option (\<lambda>s. (s, 1)) (with_padding en left width (hcc_signed_len v)
          (hcc_append_signed en v) s)
      else if c = 117 then
        let v = (if is_long then v else va_unsigned v) in
        map_option (\<lambda>s. (s, 1)) (with_padding en left width (hcc_unsigned_len v 10)
          (hcc_append_unsigned en v 10) s)
      else if c = 120 \<or> c = 88 then
        let v = (if is_long then v else va_unsigned v) in
        map_option (\<lambda>s. (s, 1)) (with_padding en left width (hcc_unsigned_len v 16)
          (hcc_append_unsigned en v 16) s)
      else if c = 99 then
        map_option (\<lambda>s. (s, 1)) (with_padding en left width (Some 1)
          (\<lambda>s. Some (hcc_append_char en (sint (va_int v)) s)) s)
      else if c = 37 then Some (hcc_append_char en 37 s, 0)
      else Some (hcc_append_char en (sint c) (hcc_append_char en 37 s), 0))"

text \<open>The precision, the next argument, and where the format goes on.\<close>

definition format_precision :: "cmem \<Rightarrow> (int \<Rightarrow> 64 word) \<Rightarrow> int \<Rightarrow> int \<Rightarrow> (int \<times> int \<times> int) option" where
  "format_precision m args fmt arg =
     (if m fmt \<noteq> 46 then Some (- 1, arg, fmt)
      else
        let fmt = fmt + 1 in
        if m fmt = 42 then Some (sint (va_int (args arg)), arg + 1, fmt + 1)
        else map_option (\<lambda>(n, fmt). (n, arg, fmt)) (format_number m fmt 0))"

definition vsnprintf_directive ::
    "int \<Rightarrow> (int \<Rightarrow> 64 word) \<Rightarrow> int \<Rightarrow> int \<Rightarrow> sink \<Rightarrow> (sink \<times> int \<times> int) option" where
  "vsnprintf_directive en args fmt arg s =
     (let left = (smem s fmt = 45);
          fmt = (if left then fmt + 1 else fmt)
      in
      Option.bind (format_number (smem s) fmt 0) (\<lambda>(width, fmt).
      Option.bind (format_precision (smem s) args fmt arg) (\<lambda>(precision, arg, fmt).
      let is_long = (smem s fmt = 108);
          fmt = (if is_long then fmt + 1 else fmt);
          fmt = (if is_long \<and> smem s fmt = 108 then fmt + 1 else fmt);
          c = smem s fmt
      in
      map_option (\<lambda>(s, taken). (s, arg + taken, if smem s fmt \<noteq> 0 then fmt + 1 else fmt))
        (vsnprintf_conversion en left width precision is_long c (args arg) s))))"

partial_function (option) vsnprintf_loop ::
    "int \<Rightarrow> (int \<Rightarrow> 64 word) \<Rightarrow> int \<Rightarrow> int \<Rightarrow> sink \<Rightarrow> sink option" where
  "vsnprintf_loop en args fmt arg s =
     (if smem s fmt = 0 then Some s
      else if smem s fmt \<noteq> 37 then
        vsnprintf_loop en args (fmt + 1) arg (hcc_append_char en (sint (smem s fmt)) s)
      else
        Option.bind (vsnprintf_directive en args (fmt + 1) arg s) (\<lambda>(s, arg, fmt).
        vsnprintf_loop en args fmt arg s))"

definition vsnprintf ::
    "int \<Rightarrow> 32 word \<Rightarrow> int \<Rightarrow> (int \<Rightarrow> 64 word) \<Rightarrow> cmem \<Rightarrow> (int \<times> cmem) option" where
  "vsnprintf out width fmt args m =
     (let en = (if width \<noteq> 0 then out + uint width - 1 else out) in
      map_option
        (\<lambda>s. (stotal s, if out \<noteq> 0 \<and> width \<noteq> 0 then (smem s)(sout s := 0) else smem s))
        (vsnprintf_loop en args fmt 0 \<lparr>smem = m, sout = out, stotal = 0\<rparr>))"

definition vsprintf :: "int \<Rightarrow> int \<Rightarrow> (int \<Rightarrow> 64 word) \<Rightarrow> cmem \<Rightarrow> (int \<times> cmem) option" where
  "vsprintf out fmt args m = vsnprintf out 0xffffffff fmt args m"

section \<open>What vsnprintf's format stands for\<close>

definition limited :: "int \<Rightarrow> 8 word list \<Rightarrow> 8 word list" where
  "limited limit t = (if limit < 0 then t else take (nat limit) t)"

definition va_conversion ::
    "bool \<Rightarrow> int \<Rightarrow> int \<Rightarrow> bool \<Rightarrow> 8 word \<Rightarrow> 64 word \<Rightarrow> (64 word \<Rightarrow> 8 word list option) \<Rightarrow>
     (8 word list \<times> int) option" where
  "va_conversion left width precision is_long c v strs =
     (if c = 115 then map_option (\<lambda>t. (padded left width (limited precision t), 1)) (strs v)
      else if c = 100 \<or> c = 105 then
        Some (padded left width (signed_text (if is_long then v else va_int v)), 1)
      else if c = 117 then
        Some (padded left width (numeral_text 10 (unat (if is_long then v else va_unsigned v))), 1)
      else if c = 120 \<or> c = 88 then
        Some (padded left width (numeral_text 16 (unat (if is_long then v else va_unsigned v))), 1)
      else if c = 99 then Some (padded left width [ucast v], 1)
      else if c = 37 then Some ([37], 0)
      else Some ([37, c], 0))"

definition va_precision :: "(int \<Rightarrow> 64 word) \<Rightarrow> 8 word list \<Rightarrow> int \<Rightarrow> int \<times> int \<times> 8 word list" where
  "va_precision args f arg =
     (if first f \<noteq> 46 then (- 1, arg, f)
      else if first (tl f) = 42 then (sint (va_int (args arg)), arg + 1, tl (tl f))
      else (spec_number (tl f), arg, dropWhile is_decimal (tl f)))"

definition va_directive ::
    "(int \<Rightarrow> 64 word) \<Rightarrow> (64 word \<Rightarrow> 8 word list option) \<Rightarrow> 8 word list \<Rightarrow> int \<Rightarrow>
     (8 word list \<times> int \<times> 8 word list) option" where
  "va_directive args strs f arg =
     (let f1 = skip 45 f in
      case va_precision args (dropWhile is_decimal f1) arg of (precision, arg, f2) \<Rightarrow>
      let f3 = skip 108 f2; f4 = (if first f2 = 108 then skip 108 f3 else f3) in
      map_option (\<lambda>(t, n). (t, arg + n, tl f4))
        (va_conversion (first f = 45) (spec_number f1) precision (first f2 = 108) (first f4)
          (args arg) strs))"

lemma va_precision_shorter: "va_precision args f arg = (n, arg', g) \<Longrightarrow> length g \<le> length f"
  using length_dropWhile_le [of is_decimal "tl f"]
  by (auto simp: va_precision_def split: if_splits)

lemma va_directive_shorter: "va_directive args strs f arg = Some (t, arg', g) \<Longrightarrow> length g \<le> length f"
proof -
  assume run: "va_directive args strs f arg = Some (t, arg', g)"
  obtain n arg1 f2 where prec: "va_precision args (dropWhile is_decimal (skip 45 f)) arg = (n, arg1, f2)"
    by (cases "va_precision args (dropWhile is_decimal (skip 45 f)) arg")
  with run have "g = tl (if first f2 = 108 then skip 108 (skip 108 f2) else skip 108 f2)"
    by (auto simp: va_directive_def Let_def)
  then have "length g \<le> length f2"
    using length_skip [of 108 f2] length_skip [of 108 "skip 108 f2"] by (auto simp: le_diff_conv)
  also have "length f2 \<le> length f"
    using va_precision_shorter [OF prec] length_dropWhile_le [of is_decimal "skip 45 f"] length_skip [of 45 f]
    by linarith
  finally show ?thesis .
qed

section \<open>Strings with a limit\<close>

lemma append_limit_holds:
  assumes "\<And>s' t'. holds m lo en t' s' \<Longrightarrow> reads_text (smem s') p u"
  shows "i \<le> length (limited limit u) \<Longrightarrow> holds m lo en t s \<Longrightarrow>
    \<exists>s'. append_limit_from en p limit (int i) s = Some s' \<and>
      holds m lo en (t @ drop i (limited limit u)) s'"
proof (induction "length (limited limit u) - i" arbitrary: i t s)
  case 0
  then have "text_at (smem s) p (int i) = 0 \<or> \<not> (limit < 0 \<or> int i < limit)"
    using reads_text_end [OF assms [of t s]] by (auto simp: limited_def split: if_splits)
  then show ?case using 0 by (subst append_limit_from.simps) auto
next
  case (Suc n)
  then have i: "i < length (limited limit u)" by simp
  then have iu: "i < length u" "limited limit u ! i = u ! i" "limit < 0 \<or> int i < limit"
    by (auto simp: limited_def split: if_splits)
  then have at: "text_at (smem s) p (int i) = u ! i" "u ! i \<noteq> 0"
    using reads_text_nth [OF assms [OF Suc.prems(2)]] by simp_all
  have "\<exists>s'. append_limit_from en p limit (int (Suc i)) (hcc_append_char en (sint (u ! i)) s) = Some s' \<and>
    holds m lo en ((t @ [u ! i]) @ drop (Suc i) (limited limit u)) s'"
    by (rule Suc.hyps(1)) (use Suc.hyps(2) i holds_char [OF Suc.prems(2)] in simp_all)
  then show ?case using at iu Cons_nth_drop_Suc [OF i]
    by (subst append_limit_from.simps) (auto simp: add.commute)
qed

lemma string_n_len_text:
  assumes "reads_text m p u"
  shows "i \<le> length (limited limit u) \<Longrightarrow>
    string_n_len_from m p limit (int i) = Some (int (length (limited limit u)))"
proof (induction "length (limited limit u) - i" arbitrary: i)
  case 0
  then have "text_at m p (int i) = 0 \<or> \<not> (limit < 0 \<or> int i < limit)"
    using reads_text_end [OF assms] by (auto simp: limited_def split: if_splits)
  then show ?case using 0 by (subst string_n_len_from.simps) auto
next
  case (Suc n)
  then have "i < length u" "limit < 0 \<or> int i < limit"
    by (auto simp: limited_def split: if_splits)
  then have "text_at m p (int i) \<noteq> 0 \<and> (limit < 0 \<or> int i < limit)"
    using reads_text_nth [OF assms] by simp
  moreover have "string_n_len_from m p limit (int (Suc i)) = Some (int (length (limited limit u)))"
    by (rule Suc.hyps(1)) (use Suc.hyps(2) in simp_all)
  ultimately show ?case
    using reads_text_step [OF assms \<open>i < length u\<close>] by (subst string_n_len_from.simps) simp
qed


section \<open>The code computes it\<close>

lemma va_int_char: "word_of_int (sint (va_int v)) = (ucast v :: 8 word)"
  by (rule bit_word_eqI) (simp add: va_int_def bit_signed_iff bit_ucast_iff)

lemma signed_conversion_holds:
  "holds m lo en t s \<Longrightarrow> \<exists>s'. with_padding en left width (hcc_signed_len v) (hcc_append_signed en v) s = Some s' \<and>
    holds m lo en (t @ padded left width (signed_text v)) s'"
  unfolding hcc_signed_len_text by (rule with_padding_holds [OF _ append_signed_holds])

lemma unsigned_conversion_holds:
  "b = 10 \<or> b = 16 \<Longrightarrow> holds m lo en t s \<Longrightarrow>
   \<exists>s'. with_padding en left width (hcc_unsigned_len v (int b)) (hcc_append_unsigned en v (int b)) s = Some s' \<and>
    holds m lo en (t @ padded left width (numeral_text b (unat v))) s'"
proof -
  assume b: "b = 10 \<or> b = 16" and s: "holds m lo en t s"
  then have "1 < b" "b < 37" by auto
  then show ?thesis
    unfolding hcc_unsigned_len_text [OF \<open>1 < b\<close> \<open>b < 37\<close>]
    by (intro with_padding_holds [OF s] append_unsigned_holds)
qed

lemma vsnprintf_conversion_holds:
  assumes "strings_ok m lo en strs" and "holds m lo en t s"
    and "va_conversion left width precision is_long c v strs = Some (u, n)"
  shows "\<exists>s'. vsnprintf_conversion en left width precision is_long c v s = Some (s', n) \<and>
    holds m lo en (t @ u) s'"
proof -
  consider "c = 115" | "c = 100 \<or> c = 105" | "c = 117" | "c = 120 \<or> c = 88" | "c = 99" | "c = 37"
    | "c \<notin> {115, 100, 105, 117, 120, 88, 99, 37}" by auto
  then show ?thesis
  proof cases
    case 1
    with assms(3) obtain w where w: "strs v = Some w" "u = padded left width (limited precision w)" "n = 1"
      by (auto simp: va_conversion_def)
    have "hcc_string_n_len (smem s) (uint v) precision = Some (int (length (limited precision w)))"
      using string_n_len_text [OF string_reads [OF assms(1) w(1) assms(2)], of 0]
      by (simp add: hcc_string_n_len_def)
    moreover have "\<exists>s'. hcc_append_string_limit en (uint v) precision s = Some s' \<and>
        holds m lo en (t @ limited precision w) s'"
      if "holds m lo en t s" for t s
      using append_limit_holds [of m lo en "uint v" w 0 precision t s, OF string_reads [OF assms(1) w(1)]] that
      by (auto simp: hcc_append_string_limit_def)
    ultimately show ?thesis
      using with_padding_holds [OF assms(2), of "hcc_append_string_limit en (uint v) precision"
          "limited precision w" left width] 1 w
      by (auto simp: vsnprintf_conversion_def)
  next
    case 2
    with signed_conversion_holds [OF assms(2), of left width "if is_long then v else va_int v"] assms(3)
    show ?thesis by (auto simp: vsnprintf_conversion_def va_conversion_def Let_def)
  next
    case 3
    with unsigned_conversion_holds [of 10, OF _ assms(2), of left width "if is_long then v else va_unsigned v"]
      assms(3)
    show ?thesis by (auto simp: vsnprintf_conversion_def va_conversion_def Let_def)
  next
    case 4
    with unsigned_conversion_holds [of 16, OF _ assms(2), of left width "if is_long then v else va_unsigned v"]
      assms(3)
    show ?thesis by (auto simp: vsnprintf_conversion_def va_conversion_def Let_def)
  next
    case 5
    with with_padding_holds [OF assms(2), of "\<lambda>s. Some (hcc_append_char en (sint (va_int v)) s)" "[ucast v]" left width]
      holds_append_char [of m lo en _ _ "sint (va_int v)"] assms(3) va_int_char [of v]
    show ?thesis by (auto simp: vsnprintf_conversion_def va_conversion_def)
  next
    case 6
    with holds_append_char [OF assms(2), of 37] assms(3) show ?thesis
      by (auto simp: vsnprintf_conversion_def va_conversion_def)
  next
    case 7
    with holds_char [OF holds_append_char [OF assms(2), of 37], of c] assms(3) show ?thesis
      by (auto simp: vsnprintf_conversion_def va_conversion_def)
  qed
qed

lemma format_precision_text:
  assumes "place m lo en p f" and "holds m lo en t s" and "va_precision args f arg = (n, arg', g)"
  shows "\<exists>q. format_precision (smem s) args p arg = Some (n, arg', q) \<and> place m lo en q g"
proof (cases "first f = 46")
  case True
  then have f: "f \<noteq> []" by (auto simp: first_def)
  have tl: "place m lo en (p + 1) (tl f)" using place_tl [OF assms(1) f] .
  show ?thesis
  proof (cases "first (tl f) = 42")
    case star: True
    then have "tl f \<noteq> []" by (auto simp: first_def)
    with place_tl [OF tl this] star True assms(3) place_first [OF assms(1,2)] place_first [OF tl assms(2)]
    show ?thesis by (simp add: format_precision_def va_precision_def)
  next
    case False
    with place_number [OF tl] format_number_spec [OF place_read [OF tl assms(2)]] True assms(3)
      place_first [OF assms(1,2)] place_first [OF tl assms(2)]
    show ?thesis by (auto simp: format_precision_def va_precision_def)
  qed
qed (use assms place_first [OF assms(1,2)] in \<open>simp add: format_precision_def va_precision_def\<close>)

lemma vsnprintf_directive_text:
  assumes "strings_ok m lo en strs" and "place m lo en p f" and "holds m lo en t s"
    and "va_directive args strs f arg = Some (u, arg', g)"
  shows "\<exists>s' q. vsnprintf_directive en args p arg s = Some (s', arg', q) \<and> holds m lo en (t @ u) s' \<and>
    place m lo en q g"
proof -
  define f1 where "f1 = skip 45 f"
  define p1 where "p1 = (if first f = 45 then p + 1 else p)"
  define q1 where "q1 = p1 + int (length (takeWhile is_decimal f1))"
  obtain precision arg1 f2 where prec: "va_precision args (dropWhile is_decimal f1) arg = (precision, arg1, f2)"
    by (cases "va_precision args (dropWhile is_decimal f1) arg")
  define f3 where "f3 = skip 108 f2"
  define f4 where "f4 = (if first f2 = 108 then skip 108 f3 else f3)"
  have p1: "place m lo en p1 f1"
    using place_skip [OF assms(2), of 45] by (simp add: p1_def f1_def)
  have q1: "place m lo en q1 (dropWhile is_decimal f1)"
    using place_number [OF p1] by (simp add: q1_def)
  obtain q2 where q2: "format_precision (smem s) args q1 arg = Some (precision, arg1, q2)" "place m lo en q2 f2"
    using format_precision_text [OF q1 assms(3) prec] by blast
  define q3 where "q3 = (if first f2 = 108 then q2 + 1 else q2)"
  define q4 where "q4 = (if first f2 = 108 \<and> first f3 = 108 then q3 + 1 else q3)"
  have q3: "place m lo en q3 f3" using place_skip [OF q2(2), of 108] by (simp add: q3_def f3_def)
  have q4: "place m lo en q4 f4"
    using place_skip [OF q3, of 108] q3 by (auto simp: q4_def f4_def)
  from assms(4) prec obtain n where
    conv: "va_conversion (first f = 45) (spec_number f1) precision (first f2 = 108) (first f4) (args arg1) strs = Some (u, n)" and
    res: "arg' = arg1 + n" "g = tl f4"
    unfolding f1_def f3_def f4_def by (auto simp: va_directive_def Let_def)
  from vsnprintf_conversion_holds [OF assms(1,3) conv] obtain s1 where
    s1: "vsnprintf_conversion en (first f = 45) (spec_number f1) precision (first f2 = 108) (first f4) (args arg1) s
      = Some (s1, n)" "holds m lo en (t @ u) s1" by blast
  have next_place: "place m lo en (if first f4 \<noteq> 0 then q4 + 1 else q4) (tl f4)"
    using place_tl [OF q4] q4 by (cases f4) (auto simp: first_def place_def)
  have "format_number (smem s) p1 0 = Some (spec_number f1, q1)"
    using format_number_spec [OF place_read [OF p1 assms(3)]] by (simp add: q1_def)
  then show ?thesis
    using s1 res next_place q2(1) place_first [OF assms(2,3)] place_first [OF q2(2) assms(3)]
      place_first [OF q3 assms(3)] place_first [OF q4 assms(3)] place_first [OF q4 s1(2)]
    by (cases "first f2 = 108"; cases "first f3 = 108"; cases "first f4 = 0")
      (simp_all add: vsnprintf_directive_def Let_def p1_def [symmetric] q3_def q4_def)
qed


interpretation vsnprintf: format_loop m lo en "vsnprintf_loop en args" "vsnprintf_directive en args"
    "va_directive args (ready m lo en strs)"
  for m lo en args strs
proof
  show "vsnprintf_loop en args p arg s =
      (if smem s p = 0 then Some s
       else if smem s p \<noteq> 37 then vsnprintf_loop en args (p + 1) arg (hcc_append_char en (sint (smem s p)) s)
       else Option.bind (vsnprintf_directive en args (p + 1) arg s)
         (\<lambda>(s, arg, p). vsnprintf_loop en args p arg s))"
    for p arg s
    by (rule vsnprintf_loop.simps)
next
  show "\<exists>s' q. vsnprintf_directive en args p arg s = Some (s', arg', q) \<and> holds m lo en (t @ u) s' \<and>
      place m lo en q g"
    if "place m lo en p f" "holds m lo en t s"
      "va_directive args (ready m lo en strs) f arg = Some (u, arg', g)" for p f t s arg u arg' g
    using vsnprintf_directive_text [OF ready_ok that] .
qed (rule va_directive_shorter)

text \<open>
  C27. \<^verbatim>\<open>vsnprintf\<close> returns the length of the whole formatted text, as an \<^verbatim>\<open>int\<close>, and stores as much
  of it as fits with a zero byte at the end, changing no byte outside the buffer. The text honours
  widths and precisions, taken modulo the range of \<^verbatim>\<open>int\<close>, a precision taken from an argument
  included; a negative precision, which a number in the format can wrap to, is no limit. Arguments of
  \<^verbatim>\<open>int\<close> size are read as such. The string arguments are shorter than 2 GiB, and they and the format
  lie outside the buffer, which is not at the null address.
\<close>

theorem vsnprintf_text:
  assumes "cstr m fmt f" and "kept out (out + uint width) fmt f"
    and "strings_ok m out (out + uint width) strs" and "out \<noteq> 0"
    and "format_spec (va_directive args strs) f 0 = Some t"
  shows "vsnprintf out width fmt args m =
    Some (c_int (int (length t)),
      if width = 0 then m else put_bytes (take (unat width - 1) t @ [0]) out m)"
proof -
  let ?en = "if width \<noteq> 0 then out + uint width - 1 else out"
  have widths: "nat (?en - out) = unat width - 1"
    by (simp add: nat_diff_distrib')
  have "?en \<le> out + uint width" by simp
  then have "kept out ?en fmt f" "strings_ok m out ?en strs"
    using assms(2,3) kept_less strings_ok_less by blast+
  then have "place m out ?en fmt f" using assms(1) by (simp add: place_def)
  moreover have "ready m out ?en strs = strs"
    using \<open>strings_ok m out ?en strs\<close> by (simp add: ready_def)
  ultimately obtain s where loop: "vsnprintf_loop ?en args fmt 0 \<lparr>smem = m, sout = out, stotal = 0\<rparr> = Some s"
    and held: "holds m out ?en t s"
    using vsnprintf.loop_text [of args m out ?en strs f 0 t fmt "[]", OF _ _ holds_start] assms(5) by auto
  from held have "smem s = put_bytes (take (unat width - 1) t) out m"
    "sout s = out + int (length (take (unat width - 1) t))" "stotal s = c_int (int (length t))"
    unfolding holds_def widths by blast+
  with loop assms(4) show ?thesis
    by (cases "width = 0") (simp_all add: vsnprintf_def put_bytes_append)
qed

text \<open>The format is \<^verbatim>\<open>%4.2s|%ld\<close>, the arguments the string \<^verbatim>\<open>abc\<close> and the number -7.\<close>

theorem vsnprintf_text_witness:
  "let m = put_bytes [37, 52, 46, 50, 115, 124, 37, 108, 100, 0] 10 (put_bytes [97, 98, 99, 0] 40 (\<lambda>_. 7)) in
   vsnprintf 100 7 10 (\<lambda>i. if i = 0 then 40 else - 7) m = Some (7, put_bytes [32, 32, 97, 98, 124, 45, 0] 100 m)"
proof -
  let ?m = "put_bytes [37, 52, 46, 50, 115, 124, 37, 108, 100, 0] 10 (put_bytes [97, 98, 99, 0] 40 (\<lambda>_. 7)) :: cmem"
  let ?strs = "\<lambda>v. if v = 40 then Some [97, 98, 99] else None"
  let ?args = "\<lambda>i. if i = (0 :: int) then 40 else - 7"
  have str: "cstr ?m 40 [97, 98, 99]" by simp
  have blanks: "replicate 2 (32 :: 8 word) = [32, 32]" by (simp add: numeral_2_eq_2)
  have "format_spec (va_directive ?args ?strs) [37, 52, 46, 50, 115, 124, 37, 108, 100] 0 =
      Some [32, 32, 97, 98, 124, 45, 55]"
    by (simp add: format_spec_simps va_directive_def va_precision_def limited_def first_def skip_def
        spec_number_def decimal_value_def c_int_small is_decimal_def va_conversion_def signed_text_def numeral_text.simps
        digit_byte_def padded_def blanks)
  moreover have "strings_ok ?m 100 (100 + uint (7 :: 32 word)) ?strs"
    using str by (simp add: strings_ok_def arg_text_def kept_def apart_def)
  ultimately show ?thesis
    using vsnprintf_text [of ?m 10 "[37, 52, 46, 50, 115, 124, 37, 108, 100]" 100 7 ?strs ?args]
    by (simp add: kept_def apart_def Let_def c_int_small)
qed


section \<open>Printing to a stream\<close>

text \<open>\<open>buffer\<close> is the address of the local array of \<^verbatim>\<open>fprintf\<close>.\<close>

definition fprintf ::
    "'w kernel \<Rightarrow> int \<Rightarrow> cmem \<Rightarrow> int \<Rightarrow> int \<Rightarrow> 64 word \<Rightarrow> 64 word \<Rightarrow> 64 word \<Rightarrow> streams \<Rightarrow> 'w \<Rightarrow>
     (int \<times> cmem \<times> streams \<times> 'w) option" where
  "fprintf K buffer m stream fmt a b c s w =
     Option.bind (hcc_vformat buffer 1024 fmt a b c m) (\<lambda>(n, m).
     map_option (\<lambda>(r, s, w). (if r < 0 then - 1 else n, m, s, w)) (fputs K m buffer stream s w))"

definition printf ::
    "'w kernel \<Rightarrow> int \<Rightarrow> cmem \<Rightarrow> int \<Rightarrow> 64 word \<Rightarrow> 64 word \<Rightarrow> 64 word \<Rightarrow> streams \<Rightarrow> 'w \<Rightarrow>
     (int \<times> cmem \<times> streams \<times> 'w) option" where
  "printf K buffer m fmt a b c s w = fprintf K buffer m 1 fmt a b c s w"

text \<open>\<^verbatim>\<open>vfprintf\<close> prints the format itself.\<close>

definition vfprintf :: "'w kernel \<Rightarrow> cmem \<Rightarrow> int \<Rightarrow> int \<Rightarrow> streams \<Rightarrow> 'w \<Rightarrow> (int \<times> streams \<times> 'w) option" where
  "vfprintf K m stream fmt s w = fputs K m fmt stream s w"

text \<open>
  C28. \<^verbatim>\<open>fprintf\<close> prints the formatted text through a buffer of 1024 bytes: a text without zero
  bytes is sent to the stream, but only its first 1023 bytes, while the result is the length of
  the whole text, as an \<^verbatim>\<open>int\<close>. The stream is open and no write fails, though each may be short.
\<close>

theorem fprintf_cuts:
  assumes "posix_write received (sys_write K)" and "never_fails (sys_write K)"
    and "hcc_stream_error (stream_fd stream) s = Some e"
    and "cstr m fmt f" and "kept buffer (buffer + 1024) fmt f"
    and "strings_ok m buffer (buffer + 1024) strs"
    and "format_spec (spec_directive (\<lambda>i. hcc_format_arg i a b c) strs) f 0 = Some t" and "0 \<notin> set t"
  shows "\<exists>m' w'. fprintf K buffer m stream fmt a b c s w = Some (c_int (int (length t)), m', s, w') \<and>
    received w' = (received w)(stream_fd stream := received w (stream_fd stream) @ take 1023 t)"
proof -
  let ?m = "put_bytes (take 1023 t @ [0]) buffer m"
  have "hcc_vformat buffer 1024 fmt a b c m = Some (c_int (int (length t)), ?m)"
    using vformat_text [of m fmt f buffer 1024 strs a b c t] assms(4-7) by simp
  moreover have str: "cstr ?m buffer (take 1023 t)"
    by (rule cstrI) (use assms(8) in \<open>auto simp: put_bytes_apply nth_append dest: in_set_takeD\<close>)
  moreover have "\<exists>w'. received w' = (received w)(stream_fd stream := received w (stream_fd stream) @ take 1023 t) \<and>
      hcc_stream_write K ?m buffer (of_nat (length (take 1023 t))) stream s w =
        Some (of_nat (length (take 1023 t)), s, w')"
    using hcc_stream_write_runs [OF assms(1,3), of "of_nat (length (take 1023 t))" w ?m buffer] assms(2)
      cstr_bytes [OF str] by (auto simp: unat_of_nat)
  ultimately show ?thesis
    using strlen_cstr [OF str] by (auto simp: fprintf_def fputs_def)
qed


text \<open>The format is \<^verbatim>\<open>%1025d\<close>: the digit is lost. The kernel takes two bytes at a time.\<close>

definition patient_kernel :: "(int set \<times> (int \<Rightarrow> 8 word list)) kernel" where
  "patient_kernel = sample_kernel\<lparr>sys_write :=
     \<lambda>fd bs (fds, f). (int (min 2 (length bs)), (fds, f(fd := f fd @ take 2 bs)))\<rparr>"

theorem fprintf_cuts_witness:
  "\<exists>m' w'. fprintf patient_kernel 100 (put_bytes [37, 49, 48, 50, 53, 100, 0] 10 (\<lambda>_. 7)) 1 10 5 0 0
      initial_streams ({}, \<lambda>_. []) = Some (1025, m', initial_streams, w') \<and>
    snd w' 1 = replicate 1023 32"
proof -
  let ?f = "[37, 49, 48, 50, 53, 100] :: 8 word list"
  let ?m = "put_bytes (?f @ [0]) 10 (\<lambda>_. 7) :: cmem"
  let ?t = "replicate 1024 32 @ [53] :: 8 word list"
  have 1: "posix_write snd (sys_write patient_kernel)" "never_fails (sys_write patient_kernel)"
    by (auto simp: posix_write_def never_fails_def patient_kernel_def min_def)
  have 2: "hcc_stream_error (stream_fd 1) initial_streams = Some (Standard 1)" "stream_fd 1 = 1"
    by (simp_all add: hcc_stream_error_def stream_fd_def int_ok_def)
  have 3: "cstr ?m 10 ?f" by simp
  have 4: "kept 100 (100 + 1024) 10 ?f" by (simp add: kept_def apart_def)
  have 5: "strings_ok ?m 100 (100 + 1024) (\<lambda>_. None)" by (simp add: strings_ok_def)
  have 6: "format_spec (spec_directive (\<lambda>i. hcc_format_arg i 5 0 0) (\<lambda>_. None)) ?f 0 = Some ?t"
    by (simp add: format_spec_simps spec_directive_def first_def skip_def spec_number_def decimal_value_def c_int_small is_decimal_def
        spec_conversion_def hcc_format_arg_def signed_text_def numeral_text.simps digit_byte_def padded_def)
  have 7: "0 \<notin> set ?t" by simp
  obtain m' w' where "fprintf patient_kernel 100 ?m 1 10 5 0 0 initial_streams ({}, \<lambda>_. []) =
      Some (c_int (int (length ?t)), m', initial_streams, w')"
    "snd w' = (\<lambda>_. [])(stream_fd 1 := [] @ take 1023 ?t)"
    using fprintf_cuts [OF 1 2(1) 3 4 5 6 7, of "({}, \<lambda>_. [])"] unfolding snd_conv by blast
  then show ?thesis unfolding 2(2) by (simp add: c_int_small)
qed

end
