(* ===== verification/Doubles.thy ===== *)
theory Doubles
  imports Prelude Complex_Main
begin

text \<open>
  The two routines that build a double from an integer and a power of two without a floating
  point library: \<^verbatim>\<open>hcc_double_from_scaled_uint64\<close> (\<^verbatim>\<open>tcc-bootstrap-support.c\<close>) and
  \<^verbatim>\<open>hcc_strtod_double_from_scaled_uint64\<close> (\<^verbatim>\<open>mes-libc/strtod.c\<close>). A double is its bit pattern. The
  loops are \<open>partial_function\<close>s: a loop that does not end gives \<open>None\<close>.
\<close>

unbundle bit_operations_syntax

section \<open>The code\<close>

partial_function (option) scale_down :: "64 word \<Rightarrow> int \<Rightarrow> (64 word \<times> int) option" where
  "scale_down mantissa exp2 =
     (if 0x20000000000000 \<le> mantissa then scale_down (drop_bit 1 (mantissa + 1)) (exp2 + 1)
      else Some (mantissa, exp2))"

partial_function (option) scale_up :: "64 word \<Rightarrow> int \<Rightarrow> (64 word \<times> int) option" where
  "scale_up mantissa exp2 =
     (if mantissa < 0x10000000000000 then scale_up (push_bit 1 mantissa) (exp2 - 1)
      else Some (mantissa, exp2))"

definition pack_double :: "64 word \<Rightarrow> int \<Rightarrow> 64 word" where
  "pack_double mantissa exp2 =
     (let exponent = exp2 + 52 in
      if exponent \<le> - 1023 then 0
      else if 1024 \<le> exponent then 0x7ff0000000000000
      else push_bit 52 (word_of_int (exponent + 1023)) OR (mantissa - 0x10000000000000))"

definition hcc_double_from_scaled_uint64 :: "64 word \<Rightarrow> int \<Rightarrow> 64 word option" where
  "hcc_double_from_scaled_uint64 mantissa exp2 =
     (if mantissa = 0 then Some 0
      else
        Option.bind (scale_down mantissa exp2) (\<lambda>(mantissa, exp2).
        map_option (\<lambda>(mantissa, exp2). pack_double mantissa exp2) (scale_up mantissa exp2)))"

text \<open>The version of the Mes library differs in the first loop.\<close>

partial_function (option) strtod_scale_down :: "64 word \<Rightarrow> int \<Rightarrow> (64 word \<times> int) option" where
  "strtod_scale_down mantissa exp2 =
     (if 0x20000000000000 \<le> mantissa
      then strtod_scale_down (drop_bit 1 mantissa + (mantissa AND 1)) (exp2 + 1)
      else Some (mantissa, exp2))"

definition hcc_strtod_double_from_scaled_uint64 :: "64 word \<Rightarrow> int \<Rightarrow> 64 word option" where
  "hcc_strtod_double_from_scaled_uint64 mantissa exp2 =
     (if mantissa = 0 then Some 0
      else
        Option.bind (strtod_scale_down mantissa exp2) (\<lambda>(mantissa, exp2).
        map_option (\<lambda>(mantissa, exp2). pack_double mantissa exp2) (scale_up mantissa exp2)))"

section \<open>What a bit pattern stands for\<close>

text \<open>The number a pattern of a finite double denotes (IEEE 754 binary64).\<close>

definition double_value :: "64 word \<Rightarrow> real" where
  "double_value b =
     (let x = uint (take_bit 11 (drop_bit 52 b)); f = uint (take_bit 52 b) in
      (if bit b 63 then - 1 else 1) *
      (if x = 0 then real_of_int f * 2 powi (- 1074)
       else real_of_int (2 ^ 52 + f) * 2 powi (x - 1075)))"

lemma pack_double_value:
  assumes "2 ^ 52 \<le> unat m" and "unat m < 2 ^ 53" and "- 1074 \<le> e" and "e \<le> 971"
  shows "double_value (pack_double m e) = real (unat m) * 2 powi e"
proof -
  define x where "x = e + 1075"
  have xr: "1 \<le> x" "x < 2047" using assms(3,4) by (simp_all add: x_def)
  let ?f = "m - 0x10000000000000"
  let ?b = "push_bit 52 (word_of_int x) OR ?f :: 64 word"
  have pack: "pack_double m e = ?b"
    using assms(3,4) by (simp add: pack_double_def Let_def x_def add.commute)
  have f: "unat ?f = unat m - 2 ^ 52"
    using assms(1) by (simp add: unat_sub word_le_nat_alt)
  have f52: "take_bit 52 ?f = ?f"
  proof -
    have "unat ?f < 2 ^ 52" using f assms(2) by simp
    then have "unat (take_bit 52 ?f) = unat ?f"
      unfolding unsigned_take_bit_eq by (simp add: take_bit_nat_eq_self)
    then show ?thesis by (rule word_unat_eq_iff [THEN iffD2])
  qed
  have x11: "take_bit 11 (word_of_int x :: 64 word) = word_of_int x"
  proof -
    have "take_bit 11 x = x" using xr by (intro take_bit_int_eq_self) simp_all
    then show ?thesis by (metis take_bit_of_int)
  qed
  have low: "take_bit 52 ?b = ?f"
    by (subst (2) f52 [symmetric]) (rule bit_word_eqI, auto simp: bit_simps)
  have high: "take_bit 11 (drop_bit 52 ?b) = word_of_int x"
    by (subst f52 [symmetric], subst (2) x11 [symmetric]) (rule bit_word_eqI, auto simp: bit_simps)
  have sign: "\<not> bit ?b 63"
    by (subst f52 [symmetric], subst x11 [symmetric]) (simp add: bit_simps)
  have "uint (word_of_int x :: 64 word) = x"
    using xr by (simp add: uint_word_of_int)
  moreover have "real_of_int (2 ^ 52 + uint ?f) = real (unat m)"
    unfolding uint_nat f using assms(1) by (simp add: of_nat_diff)
  ultimately show ?thesis
    using xr unfolding pack double_value_def low high by (simp add: sign Let_def) (simp add: x_def)
qed


section \<open>The loops\<close>

text \<open>Numbers of at most 53 significant bits.\<close>

definition fits53 :: "nat \<Rightarrow> bool" where
  "fits53 n \<longleftrightarrow> (\<exists>c k. n = c * 2 ^ k \<and> c < 2 ^ 53)"

text \<open>\<open>n\<close> is the least number of at most 53 significant bits that is not below \<open>v\<close>.\<close>

definition rounded_up :: "nat \<Rightarrow> nat \<Rightarrow> bool" where
  "rounded_up v n \<longleftrightarrow> v \<le> n \<and> fits53 n \<and> (\<forall>k. v \<le> k \<and> fits53 k \<longrightarrow> n \<le> k)"

lemma fits53_double: "fits53 n \<Longrightarrow> fits53 (2 * n)"
  unfolding fits53_def by (metis mult.left_commute power_Suc)

lemma fits53_big:
  assumes "fits53 n" and "2 ^ 53 \<le> n"
  shows "\<exists>k. n = 2 * k \<and> fits53 k"
proof -
  from assms(1) obtain c k where n: "n = c * 2 ^ k" "c < 2 ^ 53" by (auto simp: fits53_def)
  with assms(2) have "k \<noteq> 0" by (cases k) auto
  then obtain j where "k = Suc j" by (cases k) auto
  with n show ?thesis unfolding fits53_def by (intro exI [of _ "c * 2 ^ j"]) auto
qed

lemma rounded_up_small: "v < 2 ^ 53 \<Longrightarrow> rounded_up v v"
  unfolding rounded_up_def fits53_def by (metis le_refl mult.right_neutral power_0)

lemma rounded_up_half:
  assumes "2 ^ 53 \<le> v" and "rounded_up ((v + 1) div 2) n"
  shows "rounded_up v (2 * n)"
  unfolding rounded_up_def
proof (intro conjI allI impI)
  show "v \<le> 2 * n" using assms(2) by (auto simp: rounded_up_def)
  show "fits53 (2 * n)" using assms(2) by (simp add: rounded_up_def fits53_double)
  fix k assume k: "v \<le> k \<and> fits53 k"
  with assms(1) fits53_big [of k] obtain j where j: "k = 2 * j" "fits53 j" by auto
  with k have "(v + 1) div 2 \<le> j" by linarith
  with assms(2) j show "2 * n \<le> k" by (simp add: rounded_up_def)
qed

lemma half_up:
  fixes m :: "64 word"
  assumes "m \<noteq> - 1"
  shows "unat (drop_bit 1 (m + 1)) = (unat m + 1) div 2"
    and "drop_bit 1 m + (m AND 1) = drop_bit 1 (m + 1)"
proof -
  have ne: "unat m \<noteq> 2 ^ 64 - 1"
    using assms by (auto simp: word_unat_eq_iff unsigned_minus_1_eq_mask mask_eq_exp_minus_1)
  have "unat m < 2 ^ 64" using unsigned_less [of m, where 'a = nat] by simp
  with ne have lt: "unat m + 1 < 2 ^ 64" by simp
  then have inc: "unat (m + 1) = unat m + 1" by (simp add: unat_word_ariths)
  show half: "unat (drop_bit 1 (m + 1)) = (unat m + 1) div 2"
    unfolding unsigned_drop_bit_eq inc using lt by (simp add: drop_bit_eq_div take_bit_nat_eq_self)
  have "unat (drop_bit 1 m) = unat m div 2"
    unfolding unsigned_drop_bit_eq using lt by (simp add: drop_bit_eq_div take_bit_nat_eq_self)
  moreover have "unat (m AND 1) = unat m mod 2" by (simp add: and_one_eq unat_mod)
  ultimately have "unat (drop_bit 1 m + (m AND 1)) = (unat m + 1) div 2"
    using lt by (subst unat_word_ariths) (simp, arith)
  then show "drop_bit 1 m + (m AND 1) = drop_bit 1 (m + 1)"
    using half by (simp add: word_unat_eq_iff)
qed

lemma powi_shift: "real n * 2 powi (e + 1) = real (2 * n) * 2 powi e"
  by (simp add: power_int_add)

lemma scale_down_rounds:
  "m \<noteq> - 1 \<Longrightarrow> m \<noteq> 0 \<Longrightarrow> unat m \<le> 2 ^ (53 + j) \<Longrightarrow>
   \<exists>m' e' n. scale_down m e = Some (m', e') \<and> strtod_scale_down m e = Some (m', e') \<and>
     0 < unat m' \<and> unat m' < 2 ^ 53 \<and> e \<le> e' \<and> e' \<le> e + int j + 1 \<and>
     real (unat m') * 2 powi e' = real n * 2 powi e \<and> rounded_up (unat m) n"
proof (induction "unat m" arbitrary: m e j rule: less_induct)
  case less
  show ?case
  proof (cases "0x20000000000000 \<le> m")
    case False
    then have "unat m < 2 ^ 53" by (simp add: word_le_nat_alt)
    with False less.prems rounded_up_small [of "unat m"] show ?thesis
      by (intro exI [of _ m] exI [of _ e] exI [of _ "unat m"])
        (simp add: scale_down.simps [of m] strtod_scale_down.simps [of m] unat_gt_0)
  next
    case True
    then have big: "2 ^ 53 \<le> unat m" by (simp add: word_le_nat_alt)
    define h where "h = drop_bit 1 (m + 1)"
    have h: "unat h = (unat m + 1) div 2" "drop_bit 1 m + (m AND 1) = h"
      using half_up [OF less.prems(1)] by (simp_all add: h_def)
    have step: "scale_down m e = scale_down h (e + 1)" "strtod_scale_down m e = strtod_scale_down h (e + 1)"
      using True h(2) by (subst scale_down.simps, simp add: h_def, subst strtod_scale_down.simps, simp)
    have ne: "h \<noteq> - 1"
    proof
      assume "h = - 1"
      then have "unat h = 2 ^ 64 - 1" by (simp add: unsigned_minus_1_eq_mask mask_eq_exp_minus_1)
      moreover have "unat m < 2 ^ 64" using unsigned_less [of m, where 'a = nat] by simp
      ultimately show False using h(1) by simp
    qed
    have "unat h < unat m" "h \<noteq> 0" using h(1) big by (auto simp: word_unat_eq_iff)
    show ?thesis
    proof (cases j)
      case 0
      with less.prems(3) big have m: "unat m = 2 ^ 53" by simp
      then have uh: "unat h = 2 ^ 52" using h(1) by simp
      then have small: "\<not> 0x20000000000000 \<le> h" by (simp add: word_le_nat_alt)
      have "rounded_up (2 ^ 52) (2 ^ 52)" by (rule rounded_up_small) simp
      then have "rounded_up (unat m) (2 * 2 ^ 52)"
        using rounded_up_half [of "2 ^ 53" "2 ^ 52"] m by simp
      moreover have "scale_down h (e + 1) = Some (h, e + 1)" "strtod_scale_down h (e + 1) = Some (h, e + 1)"
        using small by (subst scale_down.simps, simp, subst strtod_scale_down.simps, simp)
      ultimately show ?thesis
        using step uh 0 powi_shift [of "2 ^ 52" e]
        by (intro exI [of _ h] exI [of _ "e + 1"] exI [of _ "2 * 2 ^ 52"]) simp
    next
      case (Suc i)
      have "unat m \<le> 2 * 2 ^ (53 + i)" using less.prems(3) Suc by (simp add: power_add)
      then have "unat h \<le> 2 ^ (53 + i)" unfolding h(1) by linarith
      from less.hyps [OF \<open>unat h < unat m\<close> ne \<open>h \<noteq> 0\<close> this, of "e + 1"] obtain m' e' n where
        IH: "scale_down h (e + 1) = Some (m', e')" "strtod_scale_down h (e + 1) = Some (m', e')"
        "0 < unat m'" "unat m' < 2 ^ 53" "e + 1 \<le> e'" "e' \<le> e + 1 + int i + 1"
        "real (unat m') * 2 powi e' = real n * 2 powi (e + 1)" "rounded_up (unat h) n"
        by blast
      have "rounded_up (unat m) (2 * n)" using rounded_up_half [OF big] IH(8) h(1) by simp
      with IH(1-6) IH(7) [unfolded powi_shift] step Suc show ?thesis
        by (intro exI [of _ m'] exI [of _ e'] exI [of _ "2 * n"]) simp
    qed
  qed
qed

lemma scale_up_scales:
  "0 < unat m \<Longrightarrow> unat m < 2 ^ 53 \<Longrightarrow> 2 ^ (53 - j) \<le> 2 * unat m \<Longrightarrow> j \<le> 53 \<Longrightarrow>
   \<exists>m' e'. scale_up m e = Some (m', e') \<and> 2 ^ 52 \<le> unat m' \<and> unat m' < 2 ^ 53 \<and> e - int j \<le> e' \<and> e' \<le> e \<and>
     real (unat m') * 2 powi e' = real (unat m) * 2 powi e"
proof (induction j arbitrary: m e)
  case 0
  then have "\<not> m < 0x10000000000000" by (simp add: word_less_nat_alt)
  with 0 show ?case by (intro exI [of _ m] exI [of _ e]) (simp add: scale_up.simps [of m])
next
  case (Suc j)
  show ?case
  proof (cases "m < 0x10000000000000")
    case True
    then have small: "unat m < 2 ^ 52" by (simp add: word_less_nat_alt)
    then have d: "unat (push_bit 1 m) = 2 * unat m"
      by (simp add: push_bit_eq_mult unat_word_ariths)
    have "2 ^ (53 - j) \<le> 2 * unat (push_bit 1 m)"
    proof -
      have "53 - j = Suc (53 - Suc j)" using Suc.prems(4) by simp
      then show ?thesis using Suc.prems(3) d by simp
    qed
    then obtain m' e' where IH: "scale_up (push_bit 1 m) (e - 1) = Some (m', e')" "2 ^ 52 \<le> unat m'" "unat m' < 2 ^ 53"
      "e - 1 - int j \<le> e'" "e' \<le> e - 1"
      "real (unat m') * 2 powi e' = real (unat (push_bit 1 m)) * 2 powi (e - 1)"
      using Suc.IH [of "push_bit 1 m" "e - 1"] Suc.prems small d by auto
    have "scale_up m e = Some (m', e')" using True IH(1) by (simp add: scale_up.simps [of m])
    moreover have "real (2 * unat m) * 2 powi (e - 1) = real (unat m) * 2 powi e"
      by (metis powi_shift diff_add_cancel)
    then have "real (unat m') * 2 powi e' = real (unat m) * 2 powi e"
      by (rule trans [OF IH(6) [unfolded d]])
    ultimately show ?thesis using IH(2-5)
      by (intro exI [of _ m'] exI [of _ e']) simp
  next
    case False
    with Suc.prems show ?thesis
      by (intro exI [of _ m] exI [of _ e]) (simp add: scale_up.simps [of m] word_less_nat_alt)
  qed
qed


lemma unat_bound_64: "unat (m :: 64 word) \<le> 2 ^ (53 + 11)"
  using unsigned_less [of m, where 'a = nat] by simp

lemma double_value_exists:
  assumes "m \<noteq> - 1" and "m \<noteq> 0" and "- 1022 \<le> e" and "e \<le> 959"
  shows "\<exists>b n. hcc_double_from_scaled_uint64 m e = Some b \<and>
    double_value b = real n * 2 powi e \<and> rounded_up (unat m) n"
proof -
  obtain m1 e1 n where down: "scale_down m e = Some (m1, e1)" "0 < unat m1" "unat m1 < 2 ^ 53"
    "e \<le> e1" "e1 \<le> e + int 11 + 1" "real (unat m1) * 2 powi e1 = real n * 2 powi e" "rounded_up (unat m) n"
    using scale_down_rounds [OF assms(1,2) unat_bound_64, of e] by blast
  have "2 ^ (53 - 53) \<le> 2 * unat m1" using down(2) by simp
  from scale_up_scales [OF down(2,3) this] obtain m2 e2 where up: "scale_up m1 e1 = Some (m2, e2)"
    "2 ^ 52 \<le> unat m2" "unat m2 < 2 ^ 53" "e1 - int 53 \<le> e2" "e2 \<le> e1"
    "real (unat m2) * 2 powi e2 = real (unat m1) * 2 powi e1"
    by blast
  have "- 1074 \<le> e2"
  proof (rule ccontr)
    assume "\<not> - 1074 \<le> e2"
    then have e2: "e2 = e - 53" "e1 = e" using up(4) down(4) assms(3) by auto
    have "real (unat m2) * 2 powi e2 = real (unat m1) * 2 powi (e2 + 53)"
      using up(6) e2 by simp
    then have "real (unat m2) = real (unat m1) * 2 ^ 53" by (simp add: power_int_add)
    then have "real (unat m2) = real (unat m1 * 2 ^ 53)" by simp
    then have "unat m2 = unat m1 * 2 ^ 53" unfolding of_nat_eq_iff .
    with up(3) down(2) show False by simp
  qed
  moreover have "e2 \<le> 971" using up(5) down(5) assms(4) by simp
  ultimately have "double_value (pack_double m2 e2) = real n * 2 powi e"
    using pack_double_value [OF up(2,3)] up(6) down(6) by simp
  then show ?thesis
    using down(1,7) up(1) assms(2) by (auto simp: hcc_double_from_scaled_uint64_def)
qed

lemma scale_up_zero:
  assumes "scale_up m e = Some r"
  shows "m \<noteq> 0"
proof (rule scale_up.raw_induct [OF _ assms, where P = "\<lambda>m e r. m \<noteq> 0"])
  fix f :: "64 word \<Rightarrow> int \<Rightarrow> (64 word \<times> int) option" and m e r
  assume IH: "\<And>m e r. f m e = Some r \<Longrightarrow> m \<noteq> 0"
    and body: "(if m < 0x10000000000000 then f (push_bit 1 m) (e - 1) else Some (m, e)) = Some r"
  show "m \<noteq> 0"
  proof
    assume "m = 0"
    with body have "f 0 (e - 1) = Some r" by simp
    with IH show False by blast
  qed
qed

lemma scale_down_wraps: "scale_down (- 1) e = Some (0, e + 1)"
  by (simp add: scale_down.simps [of "- 1"] scale_down.simps [of 0])

section \<open>What the routines promise\<close>

text \<open>
  C32. \<^verbatim>\<open>hcc_double_from_scaled_uint64\<close> rounds up: for an exponent in the normal range, the double it
  returns stands for the mantissa times the power of two, where a mantissa of more than 53
  significant bits is replaced by the least number of 53 bits above it.
\<close>

theorem hcc_double_rounds_up:
  assumes "m \<noteq> - 1" and "m \<noteq> 0" and "- 1022 \<le> e" and "e \<le> 959"
  shows "\<exists>b n. hcc_double_from_scaled_uint64 m e = Some b \<and> double_value b = real n * 2 powi e \<and>
    rounded_up (unat m) n \<and> (unat m < 2 ^ 53 \<longrightarrow> n = unat m)"
proof -
  have "n = unat m" if "rounded_up (unat m) n" "unat m < 2 ^ 53" for n
    using that rounded_up_small [of "unat m"] by (auto simp: rounded_up_def intro: antisym)
  then show ?thesis using double_value_exists [OF assms] by blast
qed

theorem hcc_double_rounds_up_witness:
  "\<exists>b n. hcc_double_from_scaled_uint64 10 (- 3) = Some b \<and> double_value b = real n * 2 powi (- 3) \<and> n = 10"
  using hcc_double_rounds_up [of 10 "- 3"] by auto

lemma double_versions_same:
  assumes "m \<noteq> - 1"
  shows "hcc_double_from_scaled_uint64 m e = hcc_strtod_double_from_scaled_uint64 m e"
    and "hcc_double_from_scaled_uint64 m e \<noteq> None"
proof -
  have "hcc_double_from_scaled_uint64 m e = hcc_strtod_double_from_scaled_uint64 m e \<and>
      hcc_double_from_scaled_uint64 m e \<noteq> None"
  proof (cases "m = 0")
    case False
    obtain m1 e1 where down: "scale_down m e = Some (m1, e1)" "strtod_scale_down m e = Some (m1, e1)"
      "0 < unat m1" "unat m1 < 2 ^ 53"
      using scale_down_rounds [OF assms False unat_bound_64, of e] by blast
    have "2 ^ (53 - 53) \<le> 2 * unat m1" using down(3) by simp
    from scale_up_scales [OF down(3,4) this, of e1] obtain r where "scale_up m1 e1 = Some r" by auto
    with down False show ?thesis
      by (simp add: hcc_double_from_scaled_uint64_def hcc_strtod_double_from_scaled_uint64_def)
  qed (simp add: hcc_double_from_scaled_uint64_def hcc_strtod_double_from_scaled_uint64_def)
  then show "hcc_double_from_scaled_uint64 m e = hcc_strtod_double_from_scaled_uint64 m e"
    and "hcc_double_from_scaled_uint64 m e \<noteq> None" by blast+
qed

text \<open>
  C33. The two versions of the routine agree, but for the largest mantissa: on it the version of
  the support library never returns, because adding one to it gives zero, while the other does.
\<close>

theorem double_versions_agree:
  "(m \<noteq> - 1 \<longrightarrow> hcc_double_from_scaled_uint64 m e = hcc_strtod_double_from_scaled_uint64 m e) \<and>
   (hcc_double_from_scaled_uint64 m e = None \<longleftrightarrow> m = - 1) \<and>
   hcc_strtod_double_from_scaled_uint64 m e \<noteq> None"
proof (cases "m = - 1")
  case True
  let ?h = "drop_bit 1 (- 1 :: 64 word) + ((- 1) AND 1)"
  have "unat (- 1 :: 64 word) = 2 ^ 64 - 1" by (simp add: unsigned_minus_1_eq_mask mask_eq_exp_minus_1)
  have "?h = 2 ^ 63" by (simp add: drop_bit_eq_div)
  then have h: "?h \<noteq> - 1" "?h \<noteq> 0" by simp_all
  obtain m1 e1 where down: "strtod_scale_down ?h (e + 1) = Some (m1, e1)" "0 < unat m1" "unat m1 < 2 ^ 53"
    using scale_down_rounds [OF h unat_bound_64, of "e + 1"] by blast
  have "2 ^ (53 - 53) \<le> 2 * unat m1" using down(2) by simp
  from scale_up_scales [OF down(2,3) this, of e1] obtain r where "scale_up m1 e1 = Some r" by auto
  moreover have "strtod_scale_down (- 1) e = Some (m1, e1)"
    using down(1) by (simp add: strtod_scale_down.simps [of "- 1"])
  moreover have "scale_up 0 (e + 1) = None" using scale_up_zero [of 0 "e + 1"] by (cases "scale_up 0 (e + 1)") auto
  ultimately show ?thesis
    using True by (simp add: hcc_double_from_scaled_uint64_def hcc_strtod_double_from_scaled_uint64_def scale_down_wraps)
next
  case False
  from double_versions_same [OF this, of e] False show ?thesis by metis
qed

theorem double_versions_agree_witness:
  "hcc_double_from_scaled_uint64 12 5 = hcc_strtod_double_from_scaled_uint64 12 5 \<and>
   hcc_double_from_scaled_uint64 (- 1) 5 = None"
  using double_versions_agree [of 12 5] double_versions_agree [of "- 1" 5] by simp

end
