(* ===== verification/SupportNumber.thy ===== *)
theory SupportNumber
  imports SupportFormat Doubles
begin

text \<open>
  The number readers of \<^verbatim>\<open>tcc-bootstrap-support.c\<close> (\<^verbatim>\<open>strtol\<close>, \<^verbatim>\<open>strtoul\<close>, \<^verbatim>\<open>atoi\<close>) and the packing of
  ELF symbol and relocation words. A reader returns its value together with the address that it
  stores to \<^verbatim>\<open>*endptr\<close>; \<^verbatim>\<open>long\<close> values are words.
\<close>

unbundle bit_operations_syntax

section \<open>Reading numbers\<close>

definition digit_value :: "int \<Rightarrow> int" where
  "digit_value c =
     (if 48 \<le> c \<and> c \<le> 57 then c - 48
      else if 97 \<le> c \<and> c \<le> 122 then c - 97 + 10
      else if 65 \<le> c \<and> c \<le> 90 then c - 65 + 10
      else - 1)"

partial_function (option) skip_blanks :: "int \<Rightarrow> cmem \<Rightarrow> int option" where
  "skip_blanks p m =
     (if m p = 32 \<or> m p = 9 \<or> m p = 10 then skip_blanks (p + 1) m else Some p)"

partial_function (option) parse_digits_from ::
    "int \<Rightarrow> 64 word \<Rightarrow> int \<Rightarrow> cmem \<Rightarrow> (64 word \<times> int) option" where
  "parse_digits_from base v p m =
     (if digit_value (sint (m p)) < 0 \<or> base \<le> digit_value (sint (m p)) then Some (v, p)
      else
        parse_digits_from base (v * word_of_int base + word_of_int (digit_value (sint (m p))))
          (p + 1) m)"

text \<open>Base 0 stands for the base the number's prefix says.\<close>

definition parse_prefix :: "int \<Rightarrow> int \<Rightarrow> cmem \<Rightarrow> int \<times> int" where
  "parse_prefix base p m =
     (if base = 0 then
        if m p = 48 then
          if m (p + 1) = 120 \<or> m (p + 1) = 88 then (16, p + 2) else (8, p + 1)
        else (10, p)
      else (base, p))"

definition parse_unsigned :: "int \<Rightarrow> int \<Rightarrow> cmem \<Rightarrow> (64 word \<times> int) option" where
  "parse_unsigned nptr base m =
     Option.bind (skip_blanks nptr m) (\<lambda>p.
     case parse_prefix base p m of (base, p) \<Rightarrow> parse_digits_from base 0 p m)"

definition strtol :: "int \<Rightarrow> int \<Rightarrow> cmem \<Rightarrow> (64 word \<times> int) option" where
  "strtol nptr base m =
     Option.bind (skip_blanks nptr m) (\<lambda>p.
     if m p = 45 then map_option (\<lambda>(v, p). (- v, p)) (parse_unsigned (p + 1) base m)
     else if m p = 43 then parse_unsigned (p + 1) base m
     else parse_unsigned p base m)"

definition strtoul :: "int \<Rightarrow> int \<Rightarrow> cmem \<Rightarrow> (64 word \<times> int) option" where
  "strtoul nptr base m = parse_unsigned nptr base m"

definition strtoull :: "int \<Rightarrow> int \<Rightarrow> cmem \<Rightarrow> (64 word \<times> int) option" where
  "strtoull nptr base m = parse_unsigned nptr base m"

definition strtoll :: "int \<Rightarrow> int \<Rightarrow> cmem \<Rightarrow> (64 word \<times> int) option" where
  "strtoll nptr base m = strtol nptr base m"

definition atoi :: "int \<Rightarrow> cmem \<Rightarrow> int option" where
  "atoi nptr m = map_option (\<lambda>(v, p). sint (ucast v :: 32 word)) (strtol nptr 10 m)"

text \<open>The double is its bit pattern; the sign of a negative one is its top bit.\<close>

definition strtod :: "int \<Rightarrow> cmem \<Rightarrow> (64 word \<times> int) option" where
  "strtod nptr m =
     Option.bind (strtol nptr 10 m) (\<lambda>(v, p).
     if sint v < 0 then
       map_option (\<lambda>b. (b XOR 0x8000000000000000, p)) (hcc_double_from_scaled_uint64 (0 - v) 0)
     else map_option (\<lambda>b. (b, p)) (hcc_double_from_scaled_uint64 v 0))"

section \<open>What is read\<close>

lemma parse_digits_value:
  "digits_at digit_value b m p ds \<Longrightarrow>
   parse_digits_from b (word_of_int v) p m =
     Some (word_of_int (foldl (\<lambda>v d. v * b + d) v ds), p + int (length ds))"
proof (induction ds arbitrary: p v)
  case Nil
  then show ?case by (subst parse_digits_from.simps) simp
next
  case (Cons d ds)
  then have d: "digit_value (sint (m p)) = d" "0 \<le> d" "d < b" "digits_at digit_value b m (p + 1) ds"
    by simp_all
  have "parse_digits_from b (word_of_int (v * b + d)) (p + 1) m =
      Some (word_of_int (foldl (\<lambda>v d. v * b + d) (v * b + d) ds), p + 1 + int (length ds))"
    by (rule Cons.IH [OF d(4)])
  with d show ?case by (subst parse_digits_from.simps) (simp add: add.assoc)
qed

lemma skip_blanks_none: "m p \<noteq> 32 \<Longrightarrow> m p \<noteq> 9 \<Longrightarrow> m p \<noteq> 10 \<Longrightarrow> skip_blanks p m = Some p"
  by (subst skip_blanks.simps) simp

lemma digit_not_blank:
  "0 \<le> digit_value (sint (c :: 8 word)) \<Longrightarrow> c \<noteq> 32 \<and> c \<noteq> 9 \<and> c \<noteq> 10 \<and> c \<noteq> 45 \<and> c \<noteq> 43"
  by (auto simp: digit_value_def)

lemma parse_unsigned_digits:
  assumes "digits_at digit_value b m p ds" and "ds \<noteq> []" and "b \<noteq> 0"
  shows "parse_unsigned p b m = Some (word_of_int (digits_value b ds), p + int (length ds))"
proof -
  from assms(2) obtain d ds' where ds: "ds = d # ds'" by (cases ds) auto
  then have "0 \<le> digit_value (sint (m p))" using assms(1) by simp
  then have "skip_blanks p m = Some p" using digit_not_blank skip_blanks_none by blast
  then show ?thesis
    using parse_digits_value [OF assms(1), of 0] assms(3)
    by (simp add: parse_unsigned_def parse_prefix_def digits_value_def)
qed

section \<open>Reading what was printed\<close>

lemma digit_value_byte: "d < 36 \<Longrightarrow> digit_value (sint (digit_byte d)) = int d"
proof -
  have "\<forall>d \<in> set [0..<36]. digit_value (sint (digit_byte d)) = int d"
    by code_simp
  then show "d < 36 \<Longrightarrow> digit_value (sint (digit_byte d)) = int d" by simp
qed


lemma bytes_at_appendD:
  "bytes_at m p n = xs @ ys \<Longrightarrow> bytes_at m p (length xs) = xs \<and> bytes_at m (p + int (length xs)) (length ys) = ys"
proof -
  assume eq: "bytes_at m p n = xs @ ys"
  then have n: "n = length xs + length ys" by (metis length_append length_bytes_at)
  then have "bytes_at m p (length xs) @ bytes_at m (p + int (length xs)) (length ys) = xs @ ys"
    using eq by (simp add: bytes_at_append)
  then show ?thesis by simp
qed

lemma parse_numeral:
  assumes "1 < b" and "b \<le> 36"
  shows "bytes_at m p (length (numeral_text b n)) = numeral_text b n \<Longrightarrow>
    parse_digits_from (int b) (word_of_int v) p m =
      parse_digits_from (int b) (word_of_int (v * int b ^ length (numeral_text b n) + int n))
        (p + int (length (numeral_text b n))) m"
proof (induction n arbitrary: v rule: less_induct)
  case (less n)
  have step: "parse_digits_from (int b) (word_of_int v) q m =
      parse_digits_from (int b) (word_of_int (v * int b + int d)) (q + 1) m"
    if "m q = digit_byte d" and "d < b" for q d and v :: int
    using that digit_value_byte [of d] assms(2) by (subst parse_digits_from.simps) simp
  show ?case
  proof (cases "n < b")
    case True
    then have nt: "numeral_text b n = [digit_byte n]" by (subst numeral_text.simps) simp
    with less.prems have "m p = digit_byte n" by (simp add: bytes_at_Suc)
    with step [OF this True] nt show ?thesis by simp
  next
    case False
    let ?t = "numeral_text b (n div b)"
    have nt: "numeral_text b n = ?t @ [digit_byte (n mod b)]"
      using False assms(1) by (subst numeral_text.simps) simp
    from bytes_at_appendD [OF less.prems [unfolded nt]]
    have t: "bytes_at m p (length ?t) = ?t" "m (p + int (length ?t)) = digit_byte (n mod b)"
      by (simp_all add: bytes_at_Suc)
    have "n div b < n" "n mod b < b" using False assms(1) by simp_all
    moreover have "(v * int b ^ length ?t + int (n div b)) * int b + int (n mod b) =
        v * int b ^ length (numeral_text b n) + int n"
      by (simp add: nt algebra_simps flip: of_nat_mult of_nat_add)
    ultimately show ?thesis
      using less.IH [OF _ t(1), of v] step [OF t(2), of "v * int b ^ length ?t + int (n div b)"]
      by (simp add: nt add_ac)
  qed
qed

text \<open>The byte after a number ends it when it is no digit of the base.\<close>

definition no_digit :: "nat \<Rightarrow> 8 word \<Rightarrow> bool" where
  "no_digit b c \<longleftrightarrow> digit_value (sint c) < 0 \<or> int b \<le> digit_value (sint c)"

lemma numeral_text_first:
  assumes "1 < b" and "b \<le> 36"
  shows "\<exists>d < b. hd (numeral_text b n) = digit_byte d \<and> numeral_text b n \<noteq> []"
proof (induction n rule: less_induct)
  case (less n)
  show ?case
  proof (cases "n < b")
    case True
    then have "numeral_text b n = [digit_byte n]" by (subst numeral_text.simps) simp
    with True show ?thesis by auto
  next
    case False
    then have "numeral_text b n = numeral_text b (n div b) @ [digit_byte (n mod b)]"
      using assms by (subst numeral_text.simps) simp
    moreover have "n div b < n" using False assms by simp
    ultimately show ?thesis using less by (auto simp: hd_append)
  qed
qed

lemma parse_unsigned_numeral:
  assumes "1 < b" and "b \<le> 36"
    and "bytes_at m p (length (numeral_text b n)) = numeral_text b n"
    and "no_digit b (m (p + int (length (numeral_text b n))))"
  shows "parse_unsigned p (int b) m = Some (of_nat n, p + int (length (numeral_text b n)))"
    and "m p \<noteq> 32 \<and> m p \<noteq> 9 \<and> m p \<noteq> 10 \<and> m p \<noteq> 45 \<and> m p \<noteq> 43"
proof -
  obtain d where d: "d < b" "hd (numeral_text b n) = digit_byte d" "numeral_text b n \<noteq> []"
    using numeral_text_first [OF assms(1,2)] by blast
  then have "m p = digit_byte d"
    using assms(3) by (metis bytes_at_Suc length_0_conv list.sel(1) not0_implies_Suc)
  then show digit: "m p \<noteq> 32 \<and> m p \<noteq> 9 \<and> m p \<noteq> 10 \<and> m p \<noteq> 45 \<and> m p \<noteq> 43"
    using digit_value_byte [of d] d(1) assms(2) digit_not_blank [of "digit_byte d"] by simp
  then have "skip_blanks p m = Some p" by (simp add: skip_blanks_none)
  moreover have "parse_digits_from (int b) 0 p m = Some (of_nat n, p + int (length (numeral_text b n)))"
    using parse_numeral [OF assms(1-3), of 0] assms(4)
    by (subst (asm) parse_digits_from.simps [of _ "word_of_int _"]) (auto simp: no_digit_def)
  ultimately show "parse_unsigned p (int b) m = Some (of_nat n, p + int (length (numeral_text b n)))"
    using assms(1) by (simp add: parse_unsigned_def parse_prefix_def)
qed


text \<open>
  \<^verbatim>\<open>strtoul\<close> in an explicit base from 2 to 36 reads a sequence of digits up to the first byte
  that is no digit: it returns the digits' value reduced to 64 bits and the address of that byte.
\<close>

theorem strtoul_digits:
  assumes "digits_at digit_value b m p ds" and "ds \<noteq> []" and "2 \<le> b" and "b \<le> 36"
  shows "\<exists>v. strtoul p b m = Some (v, p + int (length ds)) \<and> uint v = digits_value b ds mod 2 ^ 64"
  using parse_unsigned_digits [OF assms(1,2)] assms(3)
  by (simp add: strtoul_def uint_word_of_int)

text \<open>The digits are those of ffz in base 16.\<close>

theorem strtoul_digits_witness:
  "\<exists>v. strtoul 10 16 (put_bytes [102, 70, 122] 10 (\<lambda>_. 0)) = Some (v, 12) \<and> uint v = 255"
  using strtoul_digits [of 16 "put_bytes [102, 70, 122] 10 (\<lambda>_. 0)" 10 "[15, 15]"]
  by (simp add: digit_value_def digits_value_def)

lemma strtol_signed_text:
  assumes "bytes_at m p (length (signed_text v)) = signed_text v"
    and "no_digit 10 (m (p + int (length (signed_text v))))"
  shows "strtol p 10 m = Some (v, p + int (length (signed_text v)))"
proof (cases "sint v < 0")
  case True
  let ?t = "numeral_text 10 (unat (- v))"
  have st: "signed_text v = 45 # ?t" using True by (simp add: signed_text_def)
  with assms(1) have t: "m p = 45" "bytes_at m (p + 1) (length ?t) = ?t"
    by (simp_all add: bytes_at_Suc)
  have "parse_unsigned (p + 1) 10 m = Some (of_nat (unat (- v)), p + 1 + int (length ?t))"
    using parse_unsigned_numeral(1) [of 10 m "p + 1" "unat (- v)", OF _ _ t(2)] assms(2) st
    by (simp add: add_ac)
  then show ?thesis using t(1) st by (simp add: strtol_def skip_blanks_none)
next
  case False
  let ?t = "numeral_text 10 (unat v)"
  have st: "signed_text v = ?t" using False by (simp add: signed_text_def)
  with assms have t: "bytes_at m p (length ?t) = ?t" "no_digit 10 (m (p + int (length ?t)))" by simp_all
  from parse_unsigned_numeral [of 10, OF _ _ t] st show ?thesis
    by (simp add: strtol_def skip_blanks_none)
qed

lemma double_value_negated:
  assumes "\<not> bit b 63"
  shows "double_value (b XOR 0x8000000000000000) = - double_value b"
proof -
  have top: "(0x8000000000000000 :: 64 word) = push_bit 63 1" by (simp add: push_bit_eq_mult)
  have "take_bit 52 (b XOR push_bit 63 1) = take_bit 52 b"
    "take_bit 11 (drop_bit 52 (b XOR push_bit 63 1)) = take_bit 11 (drop_bit 52 b)"
    by (rule bit_word_eqI, auto simp: bit_simps)+
  moreover have "bit (b XOR push_bit 63 1) 63" using assms by (simp add: bit_simps)
  ultimately show ?thesis using assms unfolding top double_value_def Let_def by simp
qed

lemma double_positive: "0 < double_value b \<Longrightarrow> \<not> bit b 63"
proof
  assume pos: "0 < double_value b" and "bit b 63"
  define c where "c = (if uint (take_bit 11 (drop_bit 52 b)) = 0
    then real_of_int (uint (take_bit 52 b)) * 2 powi (- 1074)
    else real_of_int (2 ^ 52 + uint (take_bit 52 b)) * 2 powi (uint (take_bit 11 (drop_bit 52 b)) - 1075))"
  have "0 \<le> real_of_int (uint (take_bit 52 b))" "0 \<le> real_of_int (2 ^ 52 + uint (take_bit 52 b))"
    unfolding of_int_0_le_iff by simp_all
  then have "0 \<le> c" unfolding c_def by (simp only: if_split) (auto intro!: mult_nonneg_nonneg)
  moreover have "double_value b = - c"
    using \<open>bit b 63\<close> by (simp only: double_value_def Let_def c_def) simp
  ultimately have "double_value b \<le> 0" by simp
  with pos show False by simp
qed

lemma length_signed_text: "length (signed_text v) \<le> 21"
  using digits_fit [of 10 "- v"] digits_fit [of 10 v] by (simp add: signed_text_def)

text \<open>
  C30. \<^verbatim>\<open>strtod\<close> of the support library is exact on the decimal integers below 2 to the 53rd in size:
  it returns the double that stands for the number, sign included.
\<close>

theorem strtod_signed_exact:
  assumes "bytes_at m p (length (signed_text v)) = signed_text v"
    and "no_digit 10 (m (p + int (length (signed_text v))))" and "\<bar>sint v\<bar> < 2 ^ 53"
  shows "\<exists>b. strtod p m = Some (b, p + int (length (signed_text v))) \<and> double_value b = real_of_int (sint v)"
proof -
  have exact: "\<exists>b. hcc_double_from_scaled_uint64 u 0 = Some b \<and> double_value b = real (unat u)"
    if "unat u < 2 ^ 53" "u \<noteq> 0" for u
  proof -
    have "u \<noteq> - 1"
      using that(1) by (auto simp: unsigned_minus_1_eq_mask mask_eq_exp_minus_1)
    from double_value_exists [OF this that(2), of 0] obtain b n where
      "hcc_double_from_scaled_uint64 u 0 = Some b" "double_value b = real n" "rounded_up (unat u) n" by auto
    moreover have "n = unat u"
      using calculation(3) rounded_up_small [OF that(1)] by (auto simp: rounded_up_def intro: antisym)
    ultimately show ?thesis by blast
  qed
  note read = strtol_signed_text [OF assms(1,2)]
  have abs: "sint v < 0 \<Longrightarrow> int (unat (- v)) = - sint v" "0 \<le> sint v \<Longrightarrow> int (unat v) = sint v"
    by (simp_all add: unat_uminus_negative sint_nonneg_64)
  consider "v = 0" | "sint v < 0" | "v \<noteq> 0" "0 \<le> sint v" by linarith
  then show ?thesis
  proof cases
    case 1
    then show ?thesis using read
      by (simp add: strtod_def hcc_double_from_scaled_uint64_def double_value_def)
  next
    case 2
    then have "int (unat (- v)) < 2 ^ 53" using abs(1) assms(3) by linarith
    then have u: "unat (- v) < 2 ^ 53" "- v \<noteq> 0"
      using 2 by (metis of_nat_less_numeral_power_cancel_iff, auto)
    from exact [OF this] obtain b where b: "hcc_double_from_scaled_uint64 (- v) 0 = Some b"
      "double_value b = real (unat (- v))" by blast
    have "real (unat (- v)) = - real_of_int (sint v)" using abs(1) 2 by (metis of_int_minus of_int_of_nat_eq)
    moreover have "0 < real (unat (- v))" using u(2) unfolding of_nat_0_less_iff unat_gt_0 .
    then have "\<not> bit b 63" using b(2) by (intro double_positive) (simp only:)
    ultimately show ?thesis
      using 2 read b double_value_negated [of b] by (simp add: strtod_def)
  next
    case 3
    then have "int (unat v) < 2 ^ 53" using abs(2) assms(3) by linarith
    then have "unat v < 2 ^ 53" by (metis of_nat_less_numeral_power_cancel_iff)
    from exact [OF this 3(1)] obtain b where b: "hcc_double_from_scaled_uint64 v 0 = Some b"
      "double_value b = real (unat v)" by blast
    moreover have "real (unat v) = real_of_int (sint v)" using abs(2) 3 by (metis of_int_of_nat_eq)
    ultimately show ?thesis using 3 read by (simp add: strtod_def)
  qed
qed

theorem strtod_signed_exact_witness:
  "\<exists>b. strtod 10 (put_bytes [45, 49, 50, 0] 10 (\<lambda>_. 7)) = Some (b, 13) \<and> double_value b = - 12"
proof -
  have t: "signed_text (- 12) = [45, 49, 50]"
    by (simp add: signed_text_def numeral_text.simps digit_byte_def)
  show ?thesis
    using strtod_signed_exact [of "put_bytes [45, 49, 50, 0] 10 (\<lambda>_. 7)" 10 "- 12"]
    by (simp add: t bytes_at_def upt_rec numeral_3_eq_3 no_digit_def digit_value_def)
qed

text \<open>
  C29. What \<^verbatim>\<open>snprintf\<close> prints for \<^verbatim>\<open>%ld\<close> is read back by \<^verbatim>\<open>strtol\<close>: every 64-bit value, the
  smallest one included, and the reading stops at the end of the text.
\<close>

theorem snprintf_strtol:
  assumes "cstr m fmt [37, 108, 100]" and "kept out (out + uint width) fmt [37, 108, 100]"
    and "21 < width"
  shows "\<exists>n m'. snprintf out width fmt v 0 0 m = Some (n, m') \<and> strtol out 10 m' = Some (v, out + n)"
proof -
  let ?t = "signed_text v"
  let ?m = "put_bytes (?t @ [0]) out m"
  have "format_spec (spec_directive (\<lambda>i. hcc_format_arg i v 0 0) (\<lambda>_. None)) [37, 108, 100] 0 = Some ?t"
    by (simp add: format_spec_simps spec_directive_def first_def skip_def spec_number_def decimal_value_def c_int_small is_decimal_def
        spec_conversion_def hcc_format_arg_def padded_def)
  from vformat_text [OF assms(1,2) _ this] have "hcc_vformat out width fmt v 0 0 m =
      Some (int (length ?t), if width = 0 then m else put_bytes (take (unat width - 1) ?t @ [0]) out m)"
    using length_signed_text [of v] by (simp add: strings_ok_def c_int_small)
  moreover have "take (unat width - 1) ?t = ?t" "width \<noteq> 0"
    using length_signed_text [of v] assms(3) by (auto simp: word_less_nat_alt)
  moreover have "bytes_at ?m out (length ?t) = ?t"
    by (intro nth_equalityI) (simp_all add: put_bytes_apply nth_append)
  moreover have "?m (out + int (length ?t)) = 0" by (simp add: put_bytes_apply nth_append)
  ultimately show ?thesis
    using strtol_signed_text [of ?m out v]
    by (simp add: snprintf_def no_digit_def digit_value_def)
qed

theorem snprintf_strtol_witness:
  "\<exists>n m'. snprintf 100 32 10 (- (2 ^ 63)) 0 0 (put_bytes [37, 108, 100, 0] 10 (\<lambda>_. 7)) = Some (n, m') \<and>
    strtol 100 10 m' = Some (- (2 ^ 63), 100 + n)"
  by (rule snprintf_strtol) (simp_all add: kept_def apart_def)

text \<open>
  With base 16 given, the prefix 0x is not skipped: \<^verbatim>\<open>strtoul\<close> reads the zero and stops at the x,
  while with base 0 it reads the number.
\<close>

theorem strtoul_prefix:
  assumes "m p = 48" and "m (p + 1) = 120" and "digits_at digit_value 16 m (p + 2) ds"
  shows "strtoul p 16 m = Some (0, p + 1) \<and>
    strtoul p 0 m = Some (word_of_int (digits_value 16 ds), p + 2 + int (length ds))"
proof -
  have "digits_at digit_value 16 m p [0]" using assms(1,2) by (simp add: digit_value_def)
  then have "strtoul p 16 m = Some (0, p + 1)"
    using parse_unsigned_digits [of 16 m p "[0]"] by (simp add: strtoul_def digits_value_def)
  moreover have "skip_blanks p m = Some p" using assms(1) by (simp add: skip_blanks_none)
  ultimately show ?thesis
    using assms(1,2) parse_digits_value [OF assms(3), of 0]
    by (simp add: strtoul_def parse_unsigned_def parse_prefix_def digits_value_def)
qed

theorem strtoul_prefix_witness:
  "strtoul 10 16 (put_bytes [48, 120, 49, 102] 10 (\<lambda>_. 0)) = Some (0, 11) \<and>
   strtoul 10 0 (put_bytes [48, 120, 49, 102] 10 (\<lambda>_. 0)) = Some (31, 14)"
  using strtoul_prefix [of "put_bytes [48, 120, 49, 102] 10 (\<lambda>_. 0)" 10 "[1, 15]"]
  by (simp add: digit_value_def digits_value_def)

section \<open>ELF words\<close>

definition ELF64_ST_BIND :: "int \<Rightarrow> int" where
  "ELF64_ST_BIND v = drop_bit 4 v AND 15"

definition ELF64_ST_TYPE :: "int \<Rightarrow> int" where
  "ELF64_ST_TYPE v = v AND 15"

definition ELF64_ST_INFO :: "int \<Rightarrow> int \<Rightarrow> int" where
  "ELF64_ST_INFO bind type = c_int (push_bit 4 bind) + (type AND 15)"

definition ELF64_ST_VISIBILITY :: "int \<Rightarrow> int" where
  "ELF64_ST_VISIBILITY v = v AND 3"

definition ELF64_R_SYM :: "64 word \<Rightarrow> 64 word" where
  "ELF64_R_SYM v = drop_bit 32 v"

definition ELF64_R_TYPE :: "64 word \<Rightarrow> 64 word" where
  "ELF64_R_TYPE v = v AND 0xffffffff"

definition ELF64_R_INFO :: "64 word \<Rightarrow> 64 word \<Rightarrow> 64 word" where
  "ELF64_R_INFO symbol type = push_bit 32 symbol + type"

lemma take_bit_32_small: "v < 2 ^ 32 \<Longrightarrow> take_bit 32 (v :: 64 word) = v"
  unfolding word_less_def word_uint_eq_iff unsigned_take_bit_eq by (simp add: take_bit_int_eq_self)

text \<open>
  The ELF words round trip: a relocation's symbol and type of 32 bits each, and a symbol's
  binding and type of four bits each, are what is unpacked from the packed word.
\<close>

theorem ELF64_unpack:
  assumes "symbol < 2 ^ 32" and "type < 2 ^ 32" and "0 \<le> bind" and "bind < 16" and "0 \<le> kind" and "kind < 16"
  shows "ELF64_R_SYM (ELF64_R_INFO symbol type) = symbol \<and> ELF64_R_TYPE (ELF64_R_INFO symbol type) = type \<and>
    ELF64_ST_BIND (ELF64_ST_INFO bind kind) = bind \<and> ELF64_ST_TYPE (ELF64_ST_INFO bind kind) = kind"
proof -
  have mask: "(0xffffffff :: 64 word) = mask 32" "(15 :: int) = mask 4" by (simp_all add: mask_eq_exp_minus_1)
  have type: "take_bit 32 type = type" using assms(2) by (rule take_bit_32_small)
  have symb: "take_bit 32 symbol = symbol" using assms(1) by (rule take_bit_32_small)
  have "push_bit 32 symbol AND type = 0"
    by (subst type [symmetric]) (rule bit_word_eqI, auto simp: bit_simps)
  then have word: "ELF64_R_INFO symbol type = push_bit 32 symbol OR type"
    by (simp add: ELF64_R_INFO_def disjunctive_add_eq_or)
  have "ELF64_R_SYM (ELF64_R_INFO symbol type) = symbol"
    unfolding ELF64_R_SYM_def word
    by (subst type [symmetric], subst (2) symb [symmetric]) (rule bit_word_eqI, auto simp: bit_simps)
  moreover have "ELF64_R_TYPE (ELF64_R_INFO symbol type) = type"
    unfolding ELF64_R_TYPE_def word mask take_bit_eq_mask [symmetric]
    by (subst (2) type [symmetric]) (rule bit_word_eqI, auto simp: bit_simps)
  moreover have "ELF64_ST_INFO bind kind = bind * 16 + kind"
    using assms(3-6) unfolding ELF64_ST_INFO_def mask
    by (simp add: push_bit_eq_mult take_bit_eq_mask [symmetric] take_bit_eq_mod int_ok_def)
  ultimately show ?thesis
    using assms(3-6)
    by (simp add: ELF64_ST_BIND_def ELF64_ST_TYPE_def mask(2) take_bit_eq_mask [symmetric] take_bit_eq_mod drop_bit_eq_div)
qed

theorem ELF64_unpack_witness:
  "ELF64_R_SYM (ELF64_R_INFO 7 1026) = 7 \<and> ELF64_ST_BIND (ELF64_ST_INFO 1 2) = 1"
  using ELF64_unpack [of 7 1026 1 2] by simp

end
