(* ===== verification/MesStrtod.thy ===== *)
theory MesStrtod
  imports CMemory Doubles
begin

text \<open>
  \<^verbatim>\<open>abtod\<close> and \<^verbatim>\<open>strtod\<close> of \<^verbatim>\<open>mes-libc/strtod.c\<close>, and \<^verbatim>\<open>ldexp\<close> of \<^verbatim>\<open>mes-libc/ldexp-ldexpl.c\<close>. The
  arithmetic on doubles is the machine's: it is a parameter, the record \<open>arith\<close>. A reader returns
  its value with the address that it stores to \<^verbatim>\<open>*p\<close>.
\<close>

unbundle bit_operations_syntax

record 'd arith =
  d_of_bits :: "64 word \<Rightarrow> 'd"
  d_of_int :: "int \<Rightarrow> 'd"
  d_add :: "'d \<Rightarrow> 'd \<Rightarrow> 'd"
  d_mul :: "'d \<Rightarrow> 'd \<Rightarrow> 'd"
  d_div :: "'d \<Rightarrow> 'd \<Rightarrow> 'd"
  d_neg :: "'d \<Rightarrow> 'd"

section \<open>The code\<close>

definition hcc_strtod_digit_value :: "int \<Rightarrow> int" where
  "hcc_strtod_digit_value c =
     (if 48 \<le> c \<and> c \<le> 57 then c - 48
      else if 97 \<le> c \<and> c \<le> 102 then c - 97 + 10
      else if 65 \<le> c \<and> c \<le> 70 then c - 65 + 10
      else 99)"

text \<open>The loop that makes room for the next digit.\<close>

function abtod_reduce :: "64 word \<Rightarrow> 64 word \<Rightarrow> 64 word \<Rightarrow> int \<Rightarrow> 64 word \<times> int" where
  "abtod_reduce base digit integer exp2 =
     (if (0xffffffffffffffff - digit) div base < integer
      then abtod_reduce base digit (drop_bit 1 integer) (if exp2 < 4096 then exp2 + 1 else exp2)
      else (integer, exp2))"
  by pat_completeness auto
termination
proof (relation "measure (\<lambda>(base, digit, integer, exp2). unat integer)")
  fix base digit integer :: "64 word" and exp2 :: int
  assume "(0xffffffffffffffff - digit) div base < integer"
  then have "integer \<noteq> 0" by auto
  then have "0 < unat integer" by (simp add: unat_gt_0)
  moreover have "unat (drop_bit 1 integer) \<le> unat integer div 2"
    unfolding unsigned_drop_bit_eq by (simp add: drop_bit_eq_div take_bit_nat_less_eq_self div_le_mono)
  ultimately show "((base, digit, drop_bit 1 integer, if exp2 < 4096 then exp2 + 1 else exp2),
      base, digit, integer, exp2) \<in> measure (\<lambda>(base, digit, integer, exp2). unat integer)"
    by simp
qed simp

declare abtod_reduce.simps [simp del]

partial_function (option) abtod_integer ::
    "int \<Rightarrow> cmem \<Rightarrow> int \<Rightarrow> 64 word \<Rightarrow> int \<Rightarrow> (64 word \<times> int \<times> int) option" where
  "abtod_integer base m s integer exp2 =
     (let digit = hcc_strtod_digit_value (sint (m s)) in
      if digit < base then
        (case abtod_reduce (word_of_int base) (word_of_int digit) integer exp2 of (integer, exp2) \<Rightarrow>
         let addend = (if exp2 < 64 then drop_bit (nat exp2) (word_of_int digit) else 0) in
         abtod_integer base m (s + 1) (integer * word_of_int base + addend) exp2)
      else Some (integer, exp2, s))"

partial_function (option) abtod_fraction ::
    "'d arith \<Rightarrow> int \<Rightarrow> cmem \<Rightarrow> int \<Rightarrow> 'd \<Rightarrow> 'd \<Rightarrow> ('d \<times> int) option" where
  "abtod_fraction A base m s out scale =
     (let digit = hcc_strtod_digit_value (sint (m s)) in
      if digit < base then
        abtod_fraction A base m (s + 1) (d_add A out (d_div A (d_of_int A digit) scale))
          (d_mul A scale (d_of_int A base))
      else Some (out, s))"

partial_function (option) abtod_exponent :: "cmem \<Rightarrow> int \<Rightarrow> int \<Rightarrow> (int \<times> int) option" where
  "abtod_exponent m s ex =
     (if 48 \<le> sint (m s) \<and> sint (m s) \<le> 57 then
        abtod_exponent m (s + 1)
          (if ex < 4096 then min 4096 (ex * 10 + (sint (m s) - 48)) else ex)
      else Some (ex, s))"

fun abtod_power :: "'d arith \<Rightarrow> bool \<Rightarrow> nat \<Rightarrow> 'd \<Rightarrow> 'd" where
  "abtod_power A negative 0 out = out"
| "abtod_power A negative (Suc n) out =
     abtod_power A negative n
       (if negative then d_div A out (d_of_int A 10) else d_mul A out (d_of_int A 10))"

definition abtod :: "'d arith \<Rightarrow> cmem \<Rightarrow> int \<Rightarrow> int \<Rightarrow> ('d \<times> int) option" where
  "abtod A m s base =
     (let base = (if base = 0 then 10 else base);
          negative = (m s = 45);
          s = (if m s = 45 \<or> m s = 43 then s + 1 else s)
      in
      Option.bind (abtod_integer base m s 0 0) (\<lambda>(integer, exp2, s).
      Option.bind (hcc_strtod_double_from_scaled_uint64 integer exp2) (\<lambda>bits.
      Option.bind
        (if m s = 46 then abtod_fraction A base m (s + 1) (d_of_bits A bits) (d_of_int A base)
         else Some (d_of_bits A bits, s)) (\<lambda>(out, s).
      Option.bind
        (if m s = 101 \<or> m s = 69 then
           let s = s + 1;
               exp_negative = (m s = 45);
               s = (if m s = 45 \<or> m s = 43 then s + 1 else s)
           in map_option (\<lambda>(ex, s). (abtod_power A exp_negative (nat ex) out, s)) (abtod_exponent m s 0)
         else Some (out, s)) (\<lambda>(out, s).
      Some (if negative then d_neg A out else out, s))))))"

definition strtod :: "'d arith \<Rightarrow> cmem \<Rightarrow> int \<Rightarrow> ('d \<times> int) option" where
  "strtod A m string =
     (if m string = 48 \<and> (m (string + 1) = 120 \<or> m (string + 1) = 88)
      then abtod A m (string + 2) 16 else abtod A m string 10)"

fun ldexp_up :: "'d arith \<Rightarrow> nat \<Rightarrow> 'd \<Rightarrow> 'd" where
  "ldexp_up A 0 v = v"
| "ldexp_up A (Suc n) v = ldexp_up A n (d_mul A v (d_of_int A 2))"

fun ldexp_down :: "'d arith \<Rightarrow> nat \<Rightarrow> 'd \<Rightarrow> 'd" where
  "ldexp_down A 0 v = v"
| "ldexp_down A (Suc n) v = ldexp_down A n (d_div A v (d_of_int A 2))"

definition ldexp :: "'d arith \<Rightarrow> 'd \<Rightarrow> int \<Rightarrow> 'd" where
  "ldexp A v exponent = ldexp_down A (nat (- exponent)) (ldexp_up A (nat exponent) v)"


section \<open>The integer part\<close>

definition room :: "nat \<Rightarrow> nat \<Rightarrow> nat" where
  "room b d = (2 ^ 64 - 1 - d) div b"

lemma room_word:
  fixes digit base :: "64 word"
  shows "unat ((0xffffffffffffffff - digit) div base) = room (unat base) (unat digit)"
proof -
  have max: "(0xffffffffffffffff :: 64 word) = - 1" by simp
  have "unat (- 1 - digit) = 2 ^ 64 - 1 - unat digit"
    by (subst unat_sub) (simp_all add: unsigned_minus_1_eq_mask mask_eq_exp_minus_1)
  then show ?thesis unfolding max room_def by (simp add: unat_div)
qed

lemma abtod_reduce_room:
  "abtod_reduce base digit integer e = (i, e') \<Longrightarrow> 0 \<le> e \<Longrightarrow>
   unat i \<le> room (unat base) (unat digit) \<and> e \<le> e' \<and>
   uint i * 2 ^ nat e' \<le> uint integer * 2 ^ nat e \<and>
   (unat integer \<le> room (unat base) (unat digit) \<longrightarrow> i = integer \<and> e' = e)"
proof (induction base digit integer e rule: abtod_reduce.induct)
  case (1 base digit integer e)
  show ?case
  proof (cases "(0xffffffffffffffff - digit) div base < integer")
    case False
    then have "unat integer \<le> room (unat base) (unat digit)"
      unfolding word_less_nat_alt room_word by simp
    with False "1.prems" show ?thesis by (simp add: abtod_reduce.simps [of base digit integer])
  next
    case True
    let ?e = "if e < 4096 then e + 1 else e"
    let ?h = "drop_bit 1 integer"
    have run: "abtod_reduce base digit ?h ?e = (i, e')"
      using True "1.prems" by (simp add: abtod_reduce.simps [of base digit integer])
    have IH: "unat i \<le> room (unat base) (unat digit)" "?e \<le> e'" "uint i * 2 ^ nat e' \<le> uint ?h * 2 ^ nat ?e"
      using "1.IH" [OF True run] "1.prems"(2) by auto
    have h: "uint ?h = uint integer div 2"
    proof -
      have "take_bit 64 (uint integer) = uint integer"
        using uint_lt2p [of integer] by (intro take_bit_int_eq_self) simp_all
      then show ?thesis unfolding unsigned_drop_bit_eq by (simp add: drop_bit_eq_div)
    qed
    have "uint ?h * 2 ^ nat ?e \<le> uint ?h * 2 ^ nat (e + 1)"
      using "1.prems"(2) by (intro mult_left_mono) (simp_all add: nat_add_distrib)
    also have "\<dots> = (2 * uint ?h) * 2 ^ nat e" using "1.prems"(2) by (simp add: nat_add_distrib)
    also have "\<dots> \<le> uint integer * 2 ^ nat e"
      unfolding h by (intro mult_right_mono) simp_all
    finally have "uint i * 2 ^ nat e' \<le> uint integer * 2 ^ nat e" using IH(3) by simp
    moreover have "\<not> unat integer \<le> room (unat base) (unat digit)"
      using True unfolding word_less_nat_alt room_word by simp
    moreover have "e \<le> e'" using IH(2) by (simp split: if_splits)
    ultimately show ?thesis using IH(1) by simp
  qed
qed

lemma room_fits: "0 < b \<Longrightarrow> d < 2 ^ 64 \<Longrightarrow> i \<le> room b d \<Longrightarrow> i * b + d < 2 ^ 64"
proof -
  assume "0 < b" "d < 2 ^ 64" "i \<le> room b d"
  then have "i * b \<le> 2 ^ 64 - 1 - d"
    unfolding room_def by (metis div_times_less_eq_dividend le_trans mult_le_mono1)
  with \<open>d < 2 ^ 64\<close> show ?thesis by simp
qed

lemma room_least: "0 < b \<Longrightarrow> i * b + d < 2 ^ 64 \<Longrightarrow> i \<le> room b d"
  unfolding room_def by (simp add: less_eq_div_iff_mult_less_eq)


lemma foldl_digits_mono:
  assumes "0 < b" and "\<forall>d \<in> set ds. 0 \<le> d"
  shows "v \<le> w \<Longrightarrow> foldl (\<lambda>v d. v * b + d) v ds \<le> foldl (\<lambda>v d. v * b + d) (w :: int) ds"
  using assms
proof (induction ds arbitrary: v w)
  case (Cons d ds)
  have "v * b + d \<le> w * b + d" using Cons.prems by (simp add: mult_right_mono)
  with Cons show ?case by simp
qed simp

lemma foldl_digits_grow:
  assumes "0 < b" and "\<forall>d \<in> set ds. 0 \<le> d"
  shows "0 \<le> v \<Longrightarrow> v \<le> foldl (\<lambda>v d. v * b + d) (v :: int) ds"
  using assms
proof (induction ds arbitrary: v)
  case (Cons d ds)
  have "v * 1 \<le> v * b" using Cons.prems by (intro mult_left_mono) simp_all
  then have "v \<le> v * b + d" using Cons.prems by simp
  also have "\<dots> \<le> foldl (\<lambda>v d. v * b + d) (v * b + d) ds"
    by (rule Cons.IH) (use Cons.prems in simp_all)
  finally show ?case by simp
qed simp

lemma digits_at_nonneg: "digits_at dv b m p ds \<Longrightarrow> \<forall>d \<in> set ds. 0 \<le> d \<and> d < b"
  by (induction ds arbitrary: p) auto

text \<open>One digit: no sum wraps, what is kept is below the number, and a number that fits is kept.\<close>

lemma abtod_digit:
  assumes "2 \<le> b" and "b \<le> 16" and "0 \<le> d" and "d < b" and "0 \<le> e"
    and "abtod_reduce (word_of_int b) (word_of_int d) integer e = (i, e')"
  shows "let i' = i * word_of_int b + (if e' < 64 then drop_bit (nat e') (word_of_int d) else 0) in
    e \<le> e' \<and> uint i' * 2 ^ nat e' \<le> (uint integer * 2 ^ nat e) * b + d \<and>
    (e = 0 \<and> uint integer * b + d < 2 ^ 64 \<longrightarrow> e' = 0 \<and> uint i' = uint integer * b + d)"
proof -
  have ub: "uint (word_of_int b :: 64 word) = b" and ud: "uint (word_of_int d :: 64 word) = d"
    using assms(1-4) by (simp_all add: uint_word_of_int)
  then have nb: "unat (word_of_int b :: 64 word) = nat b" and nd: "unat (word_of_int d :: 64 word) = nat d"
    by (simp_all flip: nat_uint_eq)
  note red = abtod_reduce_room [OF assms(6,5), unfolded nb nd]
  let ?a = "if e' < 64 then drop_bit (nat e') (word_of_int d) else 0 :: 64 word"
  have a: "uint ?a * 2 ^ nat e' \<le> d \<and> 0 \<le> uint ?a \<and> uint ?a \<le> d"
  proof (cases "e' < 64")
    case True
    have "take_bit 64 d = d" using assms(1-4) by (intro take_bit_int_eq_self) simp_all
    then have "uint (drop_bit (nat e') (word_of_int d :: 64 word)) = d div 2 ^ nat e'"
      unfolding unsigned_drop_bit_eq ud by (simp add: drop_bit_eq_div)
    moreover have "d div 2 ^ nat e' * 2 ^ nat e' \<le> d"
      by (metis div_mult_mod_eq le_add_same_cancel1 pos_mod_sign zero_less_numeral zero_less_power)
    moreover have "d div 2 ^ nat e' * 1 \<le> d div 2 ^ nat e' * 2 ^ nat e'"
      using assms(3) by (intro mult_left_mono) (simp_all add: pos_imp_zdiv_nonneg_iff)
    ultimately show ?thesis using True assms(3) by (simp add: pos_imp_zdiv_nonneg_iff)
  qed (use assms(3) in simp)
  have "unat i * nat b + nat d < 2 ^ 64"
    by (rule room_fits) (use red assms(1-4) in simp_all)
  then have "int (unat i * nat b + nat d) < 2 ^ 64" by (metis of_nat_less_numeral_power_cancel_iff)
  then have fits: "uint i * b + d < 2 ^ 64" using assms(1,3) by simp
  have no_wrap: "uint (i * word_of_int b + ?a) = uint i * b + uint ?a"
  proof -
    have "0 \<le> uint i * b + uint ?a" "uint i * b + uint ?a < 2 ^ 64"
      using fits a assms(1) by auto
    moreover have "uint i * b < 2 ^ 64" using fits assms(3) by simp
    ultimately show ?thesis using assms(1) by (simp add: uint_word_ariths ub)
  qed
  have "(uint i * b + uint ?a) * 2 ^ nat e' = (uint i * 2 ^ nat e') * b + uint ?a * 2 ^ nat e'"
    by (simp add: algebra_simps)
  also have "\<dots> \<le> (uint integer * 2 ^ nat e) * b + d"
    using red a assms(1) by (intro add_mono mult_right_mono) simp_all
  finally have below: "(uint i * b + uint ?a) * 2 ^ nat e' \<le> (uint integer * 2 ^ nat e) * b + d" .
  have exact: "e' = 0 \<and> uint i * b + uint ?a = uint integer * b + d"
    if "e = 0" "uint integer * b + d < 2 ^ 64"
  proof -
    have "int (unat integer * nat b + nat d) < 2 ^ 64" using that(2) assms(1,3) by simp
    then have "unat integer * nat b + nat d < 2 ^ 64" by (metis of_nat_less_numeral_power_cancel_iff)
    then have "unat integer \<le> room (nat b) (nat d)" using assms(1) by (intro room_least) simp_all
    then have "i = integer" "e' = e" using red by simp_all
    then show ?thesis using that ud by simp
  qed
  show ?thesis unfolding Let_def no_wrap using red below exact by blast
qed


lemma abtod_integer_reads:
  assumes "2 \<le> b" and "b \<le> 16"
  shows "digits_at hcc_strtod_digit_value b m s ds \<Longrightarrow> 0 \<le> e \<Longrightarrow>
    \<exists>i e'. abtod_integer b m s v e = Some (i, e', s + int (length ds)) \<and> e \<le> e' \<and>
      uint i * 2 ^ nat e' \<le> foldl (\<lambda>v d. v * b + d) (uint v * 2 ^ nat e) ds \<and>
      (e = 0 \<and> foldl (\<lambda>v d. v * b + d) (uint v) ds < 2 ^ 64 \<longrightarrow>
        e' = 0 \<and> uint i = foldl (\<lambda>v d. v * b + d) (uint v) ds)"
proof (induction ds arbitrary: s v e)
  case Nil
  have "\<not> hcc_strtod_digit_value (sint (m s)) < 0" by (simp add: hcc_strtod_digit_value_def)
  with Nil show ?case by (subst abtod_integer.simps) simp
next
  case (Cons d ds)
  then have d: "hcc_strtod_digit_value (sint (m s)) = d" "0 \<le> d" "d < b"
    "digits_at hcc_strtod_digit_value b m (s + 1) ds" by simp_all
  note ge = digits_at_nonneg [OF d(4)]
  obtain i e1 where red: "abtod_reduce (word_of_int b) (word_of_int d) v e = (i, e1)" by fastforce
  let ?i = "i * word_of_int b + (if e1 < 64 then drop_bit (nat e1) (word_of_int d) else 0)"
  note digit = abtod_digit [OF assms d(2,3) Cons.prems(2) red, unfolded Let_def]
  then have "0 \<le> e1" using Cons.prems(2) by simp
  from Cons.IH [OF d(4) this, of ?i] obtain j e2 where
    IH: "abtod_integer b m (s + 1) ?i e1 = Some (j, e2, s + 1 + int (length ds))" "e1 \<le> e2"
      "uint j * 2 ^ nat e2 \<le> foldl (\<lambda>v d. v * b + d) (uint ?i * 2 ^ nat e1) ds"
      "e1 = 0 \<and> foldl (\<lambda>v d. v * b + d) (uint ?i) ds < 2 ^ 64 \<longrightarrow>
        e2 = 0 \<and> uint j = foldl (\<lambda>v d. v * b + d) (uint ?i) ds" by blast
  have "abtod_integer b m s v e = Some (j, e2, s + int (length (d # ds)))"
    using IH(1) d(1,3) red by (subst abtod_integer.simps) (simp add: Let_def add_ac)
  moreover have "uint j * 2 ^ nat e2 \<le> foldl (\<lambda>v d. v * b + d) (uint v * 2 ^ nat e) (d # ds)"
  proof -
    have "foldl (\<lambda>v d. v * b + d) (uint ?i * 2 ^ nat e1) ds \<le>
        foldl (\<lambda>v d. v * b + d) (uint v * 2 ^ nat e * b + d) ds"
      by (rule foldl_digits_mono) (use digit assms(1) ge in auto)
    with IH(3) show ?thesis by simp
  qed
  moreover have "e2 = 0 \<and> uint j = foldl (\<lambda>v d. v * b + d) (uint v) (d # ds)"
    if "e = 0" "foldl (\<lambda>v d. v * b + d) (uint v) (d # ds) < 2 ^ 64"
  proof -
    have "uint v * b + d \<le> foldl (\<lambda>v d. v * b + d) (uint v * b + d) ds"
      by (rule foldl_digits_grow) (use assms(1) ge d(2) in auto)
    then have "uint v * b + d < 2 ^ 64" using that(2) by simp
    with digit that(1) have "e1 = 0" "uint ?i = uint v * b + d" by blast+
    with IH(4) that(2) show ?thesis by simp
  qed
  ultimately show ?case using digit IH(2) by (intro exI [of _ j] exI [of _ e2]) auto
qed

section \<open>What strtod promises\<close>

text \<open>
  The integer part: \<^verbatim>\<open>abtod\<close>'s loop consumes all the digits, however many; the significand it keeps,
  scaled, is never above the number, and it is the number exactly when that fits 64 bits.
\<close>

theorem abtod_integer_bounds:
  assumes "digits_at hcc_strtod_digit_value b m s ds" and "2 \<le> b" and "b \<le> 16"
  shows "\<exists>i e. abtod_integer b m s 0 0 = Some (i, e, s + int (length ds)) \<and> 0 \<le> e \<and>
    uint i * 2 ^ nat e \<le> digits_value b ds \<and>
    (digits_value b ds < 2 ^ 64 \<longrightarrow> e = 0 \<and> uint i = digits_value b ds)"
  using abtod_integer_reads [OF assms(2,3,1), of 0 0] by (simp add: digits_value_def)

theorem abtod_integer_bounds_witness:
  "\<exists>i e. abtod_integer 10 (put_bytes [52, 50, 0] 7 (\<lambda>_. 0)) 7 0 0 = Some (i, e, 9) \<and> e = 0 \<and> uint i = 42"
  using abtod_integer_bounds [of 10 "put_bytes [52, 50, 0] 7 (\<lambda>_. 0)" 7 "[4, 2]"]
  by (auto simp: hcc_strtod_digit_value_def digits_value_def)

lemma strtod_double_exact:
  assumes "uint i < 2 ^ 53"
  shows "\<exists>bits. hcc_strtod_double_from_scaled_uint64 i 0 = Some bits \<and> double_value bits = real_of_int (uint i)"
proof (cases "i = 0")
  case True
  then show ?thesis
    by (simp add: hcc_strtod_double_from_scaled_uint64_def double_value_def)
next
  case False
  have small: "unat i < 2 ^ 53" using assms by (simp add: unat_eq_nat_uint nat_less_iff flip: nat_uint_eq)
  have "i \<noteq> - 1"
  proof
    assume "i = - 1"
    with small show False by (simp add: unsigned_minus_1_eq_mask mask_eq_exp_minus_1)
  qed
  from double_value_exists [OF this False, of 0] double_versions_same(1) [OF this, of 0]
  obtain b n where b: "hcc_strtod_double_from_scaled_uint64 i 0 = Some b" "double_value b = real n"
    "rounded_up (unat i) n" by auto
  moreover have "n = unat i"
    using b(3) rounded_up_small [OF small] by (auto simp: rounded_up_def intro: antisym)
  ultimately have "double_value b = real (unat i)" by simp
  also have "\<dots> = real_of_int (uint i)" unfolding uint_nat by (simp only: of_int_of_nat_eq)
  finally show ?thesis using b(1) by blast
qed

text \<open>
  C31. \<^verbatim>\<open>strtod\<close> is exact on decimal integers below 2 to the 53rd: a text of digits that is followed by no
  point, exponent or letter x gives the double that stands for the number, and the reading stops
  after the digits.
\<close>

theorem strtod_decimal_exact:
  assumes "digits_at hcc_strtod_digit_value 10 m s ds" and "ds \<noteq> []" and "digits_value 10 ds < 2 ^ 53"
    and "m (s + int (length ds)) \<notin> {46, 101, 69}" and "m (s + 1) \<notin> {120, 88}"
  shows "\<exists>bits. strtod A m s = Some (d_of_bits A bits, s + int (length ds)) \<and>
    double_value bits = real_of_int (digits_value 10 ds)"
proof -
  obtain i where i: "abtod_integer 10 m s 0 0 = Some (i, 0, s + int (length ds))" "uint i = digits_value 10 ds"
    using abtod_integer_reads [OF _ _ assms(1), of 0 0] assms(3) by (auto simp: digits_value_def)
  obtain bits where bits: "hcc_strtod_double_from_scaled_uint64 i 0 = Some bits"
    "double_value bits = real_of_int (uint i)"
    using strtod_double_exact [of i] i(2) assms(3) by auto
  from assms(1,2) obtain d ds' where "ds = d # ds'" "hcc_strtod_digit_value (sint (m s)) < 10"
    by (cases ds) auto
  then have "m s \<noteq> 45 \<and> m s \<noteq> 43" by (auto simp: hcc_strtod_digit_value_def)
  with i bits(1) assms(4,5) have "strtod A m s = Some (d_of_bits A bits, s + int (length ds))"
    by (simp add: strtod_def abtod_def Let_def)
  then show ?thesis using bits(2) i(2) by (intro exI [of _ bits]) simp
qed

text \<open>The witness takes bit patterns themselves for doubles.\<close>

definition bit_arith :: "64 word arith" where
  "bit_arith = \<lparr>d_of_bits = (\<lambda>b. b), d_of_int = word_of_int, d_add = (+), d_mul = (*), d_div = (div),
     d_neg = (\<lambda>b. b XOR 0x8000000000000000)\<rparr>"

theorem strtod_decimal_exact_witness:
  "\<exists>bits. strtod bit_arith (put_bytes [52, 50, 0] 7 (\<lambda>_. 0)) 7 = Some (bits, 9) \<and> double_value bits = 42"
  using strtod_decimal_exact [of "put_bytes [52, 50, 0] 7 (\<lambda>_. 0)" 7 "[4, 2]" bit_arith]
  by (simp add: hcc_strtod_digit_value_def digits_value_def bit_arith_def)

end
