(* ===== verification/RuntimeBase.thy ===== *)
theory RuntimeBase
  imports Prelude
begin

text \<open>
  What the two versions of the runtime of the Haskell program (\<^verbatim>\<open>hcc_runtime.c\<close> for a hosted build,
  \<^verbatim>\<open>hcc_runtime_m2.c\<close> for the bootstrap by M2-Planet) have in common: character arrays that grow by
  doubling, runs that may end the program, and the contract of the output buffers that both
  implement.
\<close>

section \<open>Runs\<close>

text \<open>
  A routine returns, ends the program with a status after leaving a message on the standard error, or
  accesses an array outside its bounds, which C leaves undefined; the last is proved not to happen.
\<close>

datatype 'a run = Done 'a | Exits int string | Fault

fun run_bind :: "'a run \<Rightarrow> ('a \<Rightarrow> 'b run) \<Rightarrow> 'b run" where
  "run_bind (Done x) f = f x"
| "run_bind (Exits n m) f = Exits n m"
| "run_bind Fault f = Fault"

lemma run_bind_Done: "run_bind r f = Done y \<longleftrightarrow> (\<exists>x. r = Done x \<and> f x = Done y)"
  by (cases r) auto

lemma run_bind_cong [fundef_cong]:
  "r = r' \<Longrightarrow> (\<And>x. r' = Done x \<Longrightarrow> f x = g x) \<Longrightarrow> run_bind r f = run_bind r' g"
  by (cases r') auto

definition out_of_memory :: "'a run" where
  "out_of_memory = Exits 1 ''hcc runtime: out of memory\<newline>''"

definition output_failure :: "'a run" where
  "output_failure = Exits 1 ''hcc runtime: output error\<newline>''"

lemma run_bind_exits [simp]:
  "run_bind out_of_memory f = out_of_memory" "run_bind output_failure f = output_failure"
  by (simp_all add: out_of_memory_def output_failure_def)

text \<open>
  \<open>leads E P r\<close>: the routine returns something that satisfies \<open>P\<close>, or it ends the program and \<open>E\<close>
  holds; it does not fault.
\<close>

definition leads :: "bool \<Rightarrow> ('a \<Rightarrow> bool) \<Rightarrow> 'a run \<Rightarrow> bool" where
  "leads E P r \<longleftrightarrow> (case r of Done x \<Rightarrow> P x | Exits n m \<Rightarrow> E | Fault \<Rightarrow> False)"

lemma leads_simps [simp]:
  "leads E P (Done x) \<longleftrightarrow> P x" "leads E P (Exits n m) \<longleftrightarrow> E" "\<not> leads E P Fault"
  "leads E P out_of_memory \<longleftrightarrow> E" "leads E P output_failure \<longleftrightarrow> E"
  by (simp_all add: leads_def out_of_memory_def output_failure_def)

lemma leads_bind: "leads E P r \<Longrightarrow> (\<And>x. P x \<Longrightarrow> leads E Q (f x)) \<Longrightarrow> leads E Q (run_bind r f)"
  by (cases r) auto

lemma leads_mono: "leads E P r \<Longrightarrow> (\<And>x. P x \<Longrightarrow> Q x) \<Longrightarrow> leads E Q r"
  by (cases r) auto

lemma leads_False: "leads False P r \<Longrightarrow> \<exists>x. r = Done x \<and> P x"
  by (cases r) auto

text \<open>Routines that act on the world.\<close>

type_synonym ('w, 'a) act = "'w \<Rightarrow> 'a run \<times> 'w"

fun act_bind :: "'a run \<times> 'w \<Rightarrow> ('a \<Rightarrow> ('w, 'b) act) \<Rightarrow> 'b run \<times> 'w" where
  "act_bind (Done x, w) f = f x w"
| "act_bind (Exits n m, w) f = (Exits n m, w)"
| "act_bind (Fault, w) f = (Fault, w)"

section \<open>Character arrays\<close>

text \<open>
  A block of characters and its capacity as the code keeps it. The null pointer is the block
  without characters. What fresh memory holds and which requests the allocator grants is not the
  runtime's to say: \<open>heap\<close> is a parameter.
\<close>

record heap =
  grants :: "nat \<Rightarrow> bool"
  fresh :: "nat \<Rightarrow> 8 word"

record chars =
  cdata :: "8 word list"
  ccap :: nat

definition no_chars :: chars where
  "no_chars = \<lparr>cdata = [], ccap = 0\<rparr>"

definition store :: "nat \<Rightarrow> int \<Rightarrow> 8 word list \<Rightarrow> 8 word list run" where
  "store i v cs = (if i < length cs then Done (cs[i := word_of_int v]) else Fault)"

text \<open>Storing one character after the other, as consecutive assignments do.\<close>

fun stores :: "nat \<Rightarrow> int list \<Rightarrow> 8 word list \<Rightarrow> 8 word list run" where
  "stores i [] cs = Done cs"
| "stores i (v # vs) cs = run_bind (store i v cs) (stores (i + 1) vs)"

lemma stores_Done:
  "i + length vs \<le> length cs \<Longrightarrow>
   stores i vs cs = Done (take i cs @ map word_of_int vs @ drop (i + length vs) cs)"
proof (induction vs arbitrary: i cs)
  case (Cons v vs)
  then have "i < length cs" by simp
  with Cons show ?case
    by (simp add: store_def take_Suc_conv_app_nth upd_conv_take_nth_drop add.commute)
qed simp

text \<open>
  The doubling loop. It is entered with a number that is not 0.
\<close>

function doubled_to :: "nat \<Rightarrow> nat \<Rightarrow> nat" where
  "doubled_to next needed = (if next < needed \<and> next \<noteq> 0 then doubled_to (next * 2) needed else next)"
  by pat_completeness auto
termination
  by (relation "measure (\<lambda>(next, needed). needed - next)") auto

declare doubled_to.simps [simp del]

lemma doubled_to_enough: "next \<noteq> 0 \<Longrightarrow> needed \<le> doubled_to next needed"
proof (induction "next" needed rule: doubled_to.induct)
  case (1 "next" needed)
  then show ?case by (subst doubled_to.simps) auto
qed

text \<open>Moving a block: what fits of the old characters, and fresh ones after them.\<close>

definition moved :: "heap \<Rightarrow> nat \<Rightarrow> 8 word list \<Rightarrow> 8 word list" where
  "moved H n cs = take n cs @ map (fresh H) [length (take n cs)..<n]"

lemma length_moved [simp]: "length (moved H n cs) = n"
  by (simp add: moved_def)

lemma take_moved: "k \<le> length cs \<Longrightarrow> k \<le> n \<Longrightarrow> take k (moved H n cs) = take k cs"
  by (simp add: moved_def min_def)

definition chars_ok :: "chars \<Rightarrow> bool" where
  "chars_ok b \<longleftrightarrow> length (cdata b) = ccap b"

text \<open>What making room owes: the array is as long as the capacity says, and keeps its characters.\<close>

definition roomy :: "nat \<Rightarrow> chars \<Rightarrow> chars \<Rightarrow> bool" where
  "roomy needed b b' \<longleftrightarrow>
     chars_ok b' \<and> needed \<le> ccap b' \<and> ccap b \<le> ccap b' \<and> take (ccap b) (cdata b') = cdata b"

lemma roomy_same: "chars_ok b \<Longrightarrow> needed \<le> ccap b \<Longrightarrow> roomy needed b b"
  by (simp add: roomy_def chars_ok_def)

lemma roomy_take: "roomy needed b b' \<Longrightarrow> k \<le> ccap b \<Longrightarrow> take k (cdata b') = take k (cdata b)"
  by (metis min.absorb1 roomy_def take_take)

lemma roomy_moved:
  assumes "chars_ok b" "ccap b < needed"
  shows "roomy needed b
    \<lparr>cdata = moved H (doubled_to (if ccap b \<noteq> 0 then ccap b else 64) needed) (cdata b),
     ccap = doubled_to (if ccap b \<noteq> 0 then ccap b else 64) needed\<rparr>"
proof -
  have "needed \<le> doubled_to (if ccap b \<noteq> 0 then ccap b else 64) needed"
    by (rule doubled_to_enough) simp
  with assms show ?thesis
    by (auto simp: roomy_def chars_ok_def take_moved)
qed

text \<open>Making room with \<open>ensure\<close>, then assignments from an index on.\<close>

definition put_chars ::
    "(chars \<Rightarrow> nat \<Rightarrow> chars run) \<Rightarrow> nat \<Rightarrow> nat \<Rightarrow> int list \<Rightarrow> chars \<Rightarrow> chars run" where
  "put_chars ensure needed i vs b =
     run_bind (ensure b needed) (\<lambda>b.
     run_bind (stores i vs (cdata b)) (\<lambda>cs. Done (b\<lparr>cdata := cs\<rparr>)))"

text \<open>
  A text of \<open>n\<close> characters with a zero after it; the null pointer is an empty text nothing was
  stored in.
\<close>

definition text_ok :: "chars \<Rightarrow> nat \<Rightarrow> bool" where
  "text_ok b n \<longleftrightarrow>
     chars_ok b \<and> (if cdata b = [] then n = 0 else n < ccap b \<and> cdata b ! n = 0)"

lemma text_okD: "text_ok b n \<Longrightarrow> chars_ok b" "text_ok b n \<Longrightarrow> n \<le> ccap b"
  by (auto simp: text_ok_def split: if_splits)

definition text_of :: "chars \<Rightarrow> nat \<Rightarrow> 8 word list" where
  "text_of b n = take n (cdata b)"

text \<open>The C string that a pointer to an array stands for.\<close>

definition c_string :: "chars \<Rightarrow> 8 word list" where
  "c_string b = takeWhile (\<lambda>c. c \<noteq> 0) (cdata b)"

lemma c_string_text:
  assumes "text_ok b n" "cdata b \<noteq> []"
  shows "c_string b = takeWhile (\<lambda>c. c \<noteq> 0) (text_of b n)"
proof -
  from assms have "n < length (cdata b)" "cdata b ! n = 0"
    by (simp_all add: text_ok_def chars_ok_def)
  then have "cdata b = take n (cdata b) @ 0 # drop (Suc n) (cdata b)"
    by (metis id_take_nth_drop)
  then show ?thesis
    unfolding c_string_def text_of_def
    by (metis (mono_tags, lifting) takeWhile_tail)
qed

text \<open>Appending characters to a text, with one check of the room.\<close>

definition put_text :: "(chars \<Rightarrow> nat \<Rightarrow> chars run) \<Rightarrow> int list \<Rightarrow> nat \<Rightarrow> chars \<Rightarrow> chars run" where
  "put_text ensure vs n b = put_chars ensure (n + length vs + 1) n (vs @ [0]) b"

text \<open>
  The loop over the characters of a file, from the character read last; the zero after the last
  character is stored when the end is met. A file without an end is read for ever.
\<close>

partial_function (option) read_loop ::
    "('w \<Rightarrow> int \<times> 'w) \<Rightarrow> (chars \<Rightarrow> nat \<Rightarrow> chars run) \<Rightarrow> int \<Rightarrow> chars \<Rightarrow> nat \<Rightarrow> 'w \<Rightarrow>
     ((chars \<times> nat) run \<times> 'w) option" where
  "read_loop getc ensure c b n w =
     (if c \<noteq> - 1 then
        (case put_chars ensure (n + 2) n [c] b of
           Done b \<Rightarrow> (case getc w of (c, w) \<Rightarrow> read_loop getc ensure c b (n + 1) w)
         | Exits e m \<Rightarrow> Some (Exits e m, w)
         | Fault \<Rightarrow> Some (Fault, w))
      else
        Some (run_bind (stores n [0] (cdata b)) (\<lambda>cs. Done (b\<lparr>cdata := cs\<rparr>, n)), w))"

text \<open>
  What the C library's reading promises for a file with given bytes: the bytes one after the other as
  unsigned numbers, then \<^verbatim>\<open>EOF\<close>, which is -1.
\<close>

fun stream_from :: "('w \<Rightarrow> int \<times> 'w) \<Rightarrow> 8 word list \<Rightarrow> int \<times> 'w \<Rightarrow> bool" where
  "stream_from getc [] (c, w) \<longleftrightarrow> c = - 1"
| "stream_from getc (b # bs) (c, w) \<longleftrightarrow> c = uint b \<and> stream_from getc bs (getc w)"

text \<open>What a routine that makes room owes to those that call it.\<close>

locale char_arrays =
  fixes ensure :: "chars \<Rightarrow> nat \<Rightarrow> chars run"
    and refused :: bool
  assumes ensure_roomy: "chars_ok b \<Longrightarrow> leads refused (roomy needed b) (ensure b needed)"
begin

lemma put_chars_leads:
  assumes "chars_ok b" "i \<le> ccap b" "i + length vs \<le> needed"
  shows "leads refused
    (\<lambda>b'. chars_ok b' \<and> needed \<le> ccap b' \<and>
       take (i + length vs) (cdata b') = take i (cdata b) @ map word_of_int vs)
    (put_chars ensure needed i vs b)"
  unfolding put_chars_def
proof (rule leads_bind [OF ensure_roomy [OF assms(1)]])
  fix b' assume b': "roomy needed b b'"
  then have "needed \<le> length (cdata b')" by (simp add: roomy_def chars_ok_def)
  with assms b' show "leads refused
    (\<lambda>b'. chars_ok b' \<and> needed \<le> ccap b' \<and>
       take (i + length vs) (cdata b') = take i (cdata b) @ map word_of_int vs)
    (run_bind (stores i vs (cdata b')) (\<lambda>cs. Done (b'\<lparr>cdata := cs\<rparr>)))"
    by (simp add: stores_Done roomy_take [OF b']) (auto simp: roomy_def chars_ok_def)
qed

lemma put_text_leads:
  assumes "chars_ok b" "n \<le> ccap b"
  shows "leads refused
    (\<lambda>b'. text_ok b' (n + length vs) \<and> cdata b' \<noteq> [] \<and>
       text_of b' (n + length vs) = text_of b n @ map word_of_int vs)
    (put_text ensure vs n b)"
proof -
  from assms have "leads refused
    (\<lambda>b'. chars_ok b' \<and> n + length vs + 1 \<le> ccap b' \<and>
       take (n + length (vs @ [0])) (cdata b') = take n (cdata b) @ map word_of_int (vs @ [0]))
    (put_text ensure vs n b)"
    unfolding put_text_def by (intro put_chars_leads) simp_all
  then show ?thesis
  proof (rule leads_mono)
    fix b'
    assume b': "chars_ok b' \<and> n + length vs + 1 \<le> ccap b' \<and>
       take (n + length (vs @ [0])) (cdata b') = take n (cdata b) @ map word_of_int (vs @ [0])"
    let ?t = "take n (cdata b) @ map word_of_int vs"
    have len: "length ?t = n + length vs"
      using assms by (simp add: chars_ok_def)
    from b' have t: "take (Suc (n + length vs)) (cdata b') = ?t @ [0]" by simp
    then have "take (n + length vs) (cdata b') = ?t"
      by (metis append_eq_conv_conj len lessI less_imp_le_nat min.absorb1 take_take)
    moreover from t have "cdata b' ! (n + length vs) = 0"
      by (metis len lessI nth_append_length nth_take)
    ultimately show "text_ok b' (n + length vs) \<and> cdata b' \<noteq> [] \<and>
       text_of b' (n + length vs) = text_of b n @ map word_of_int vs"
      using b' by (auto simp: text_ok_def text_of_def chars_ok_def)
  qed
qed

lemma read_loop_reads:
  assumes "chars_ok b" "n < ccap b" "stream_from getc bs (c, w)"
  shows "\<exists>r w'. read_loop getc ensure c b n w = Some (r, w') \<and>
    leads refused (\<lambda>(b', n'). text_ok b' n' \<and> cdata b' \<noteq> [] \<and> n' = n + length bs \<and>
      text_of b' n' = text_of b n @ bs) r"
  using assms
proof (induction bs arbitrary: b n c w)
  case Nil
  then have "n < length (cdata b)" "c = - 1" by (simp_all add: chars_ok_def)
  then show ?case using Nil
    by (subst read_loop.simps) (auto simp: store_def text_ok_def text_of_def chars_ok_def)
next
  case (Cons x bs)
  have "uint x \<noteq> - 1" using uint_nonnegative [of x] by linarith
  with Cons.prems have c: "c = uint x" "c \<noteq> - 1" "stream_from getc bs (getc w)"
    by simp_all
  have L: "leads refused
    (\<lambda>b'. chars_ok b' \<and> n + 2 \<le> ccap b' \<and>
       take (n + length [c]) (cdata b') = take n (cdata b) @ map word_of_int [c])
    (put_chars ensure (n + 2) n [c] b)"
    using Cons.prems by (intro put_chars_leads) simp_all
  show ?case
  proof (cases "put_chars ensure (n + 2) n [c] b")
    case (Done b')
    obtain c' w' where g: "getc w = (c', w')" by (cases "getc w")
    from L Done have b': "chars_ok b'" "n + 1 < ccap b'"
      "text_of b' (n + 1) = text_of b n @ [x]"
      by (simp_all add: text_of_def c(1))
    from c(3) g have st: "stream_from getc bs (c', w')" by simp
    from Cons.IH [OF b'(1,2) st] obtain r w'' where
      "read_loop getc ensure c' b' (n + 1) w' = Some (r, w'')"
      "leads refused (\<lambda>(b'', n'). text_ok b'' n' \<and> cdata b'' \<noteq> [] \<and> n' = n + 1 + length bs \<and>
        text_of b'' n' = text_of b' (n + 1) @ bs) r"
      by blast
    then show ?thesis
      using c(2) Done g b'(3) by (subst read_loop.simps) (auto elim!: leads_mono)
  next
    case (Exits e m)
    then show ?thesis using L c(2) by (subst read_loop.simps) auto
  next
    case Fault
    then show ?thesis using L by auto
  qed
qed

end

text \<open>The first entry of a table that satisfies a predicate.\<close>

fun first_free :: "('a \<Rightarrow> bool) \<Rightarrow> 'a list \<Rightarrow> nat option" where
  "first_free P [] = None"
| "first_free P (x # xs) = (if P x then Some 0 else map_option Suc (first_free P xs))"

lemma first_free_Some: "first_free P xs = Some i \<Longrightarrow> i < length xs \<and> P (xs ! i)"
  by (induction xs arbitrary: i) (auto split: if_splits)

lemma first_free_None: "first_free P xs = None \<longleftrightarrow> (\<forall>x \<in> set xs. \<not> P x)"
  by (induction xs) auto

lemma find_of_map: "find P (map f xs) = map_option f (find (\<lambda>x. P (f x)) xs)"
  by (induction xs) auto

lemma first_free_find: "first_free P xs = find (\<lambda>i. P (xs ! i)) [0..<length xs]"
proof (induction xs)
  case (Cons x xs)
  have "[0..<length (x # xs)] = 0 # map Suc [0..<length xs]"
    by (simp only: map_Suc_upt length_Cons upt_conv_Cons zero_less_Suc)
  with Cons show ?case by (simp add: find_of_map del: upt_Suc)
qed simp

section \<open>The contract of the output buffers\<close>

text \<open>
  Seen from outside, the output buffers are a partial map from handles to bytes. The handles are 1
  to 256; a new buffer gets the least free one, and 0 says that there is none.
\<close>

type_synonym buffers = "nat \<Rightarrow> 8 word list option"

datatype obuf_op =
    Obuf_new int | Obuf_free nat | Obuf_clear nat
  | Obuf_put nat int | Obuf_put4 nat int int int int
  | Obuf_put8 nat int int int int int int int int

definition free_handle :: "buffers \<Rightarrow> nat" where
  "free_handle t = (case find (\<lambda>h. t h = None) [1..<257] of None \<Rightarrow> 0 | Some h \<Rightarrow> h)"

lemma free_handle_first:
  assumes "length xs = 256" "\<And>i. i < 256 \<Longrightarrow> t (i + 1) = None \<longleftrightarrow> P (xs ! i)"
  shows "free_handle t = (case first_free P xs of None \<Rightarrow> 0 | Some i \<Rightarrow> i + 1)"
proof -
  have "[1..<257] = map Suc [0..<256]" by (simp only: map_Suc_upt) simp
  moreover have "find (\<lambda>i. t (Suc i) = None) [0..<256] = find (\<lambda>i. P (xs ! i)) [0..<256]"
    using assms(2) by (intro find_cong) auto
  ultimately show ?thesis
    by (simp add: free_handle_def first_free_find assms(1) find_of_map split: option.split del: upt_Suc)
qed

definition spec_append :: "nat \<Rightarrow> int list \<Rightarrow> buffers \<Rightarrow> buffers" where
  "spec_append h vs t = t(h := map_option (\<lambda>bs. bs @ map word_of_int vs) (t h))"

fun spec_op :: "obuf_op \<Rightarrow> buffers \<Rightarrow> nat \<times> buffers" where
  "spec_op (Obuf_new cap) t =
     (let h = free_handle t in (h, if h = 0 then t else t(h \<mapsto> [])))"
| "spec_op (Obuf_free h) t = (0, t(h := None))"
| "spec_op (Obuf_clear h) t = (0, t(h := map_option (\<lambda>_. []) (t h)))"
| "spec_op (Obuf_put h a) t = (0, spec_append h [a] t)"
| "spec_op (Obuf_put4 h a b c d) t = (0, spec_append h [a, b, c, d] t)"
| "spec_op (Obuf_put8 h a b c d e f g i) t = (0, spec_append h [a, b, c, d, e, f, g, i] t)"

fun spec_ops :: "obuf_op list \<Rightarrow> buffers \<Rightarrow> nat list \<times> buffers" where
  "spec_ops [] t = ([], t)"
| "spec_ops (p # ps) t =
     (let (r, t) = spec_op p t; (rs, t) = spec_ops ps t in (r # rs, t))"

text \<open>A sequence of operations of an implementation.\<close>

fun run_ops :: "(obuf_op \<Rightarrow> 's \<Rightarrow> (nat \<times> 's) run) \<Rightarrow> obuf_op list \<Rightarrow> 's \<Rightarrow> (nat list \<times> 's) run" where
  "run_ops f [] s = Done ([], s)"
| "run_ops f (p # ps) s =
     run_bind (f p s) (\<lambda>(r, s). run_bind (run_ops f ps s) (\<lambda>(rs, s). Done (r # rs, s)))"

text \<open>
  What an implementation owes: its operations keep its invariant, do not fault, and act on the view
  of its state as the contract says, unless memory was refused.
\<close>

locale output_buffers =
  fixes op :: "obuf_op \<Rightarrow> 's \<Rightarrow> (nat \<times> 's) run"
    and ok :: "'s \<Rightarrow> bool"
    and view :: "'s \<Rightarrow> buffers"
    and refused :: bool
  assumes op_refines:
    "ok s \<Longrightarrow> leads refused (\<lambda>(r, s'). ok s' \<and> spec_op p (view s) = (r, view s')) (op p s)"
begin

lemma ops_refine:
  "ok s \<Longrightarrow>
   leads refused (\<lambda>(rs, s'). ok s' \<and> spec_ops ps (view s) = (rs, view s')) (run_ops op ps s)"
proof (induction ps arbitrary: s)
  case (Cons p ps)
  show ?case
    unfolding run_ops.simps
  proof (rule leads_bind [OF op_refines [OF Cons.prems]])
    fix x assume x: "case x of (r, s') \<Rightarrow> ok s' \<and> spec_op p (view s) = (r, view s')"
    then show "leads refused (\<lambda>(rs, s'). ok s' \<and> spec_ops (p # ps) (view s) = (rs, view s'))
        (case x of (r, s) \<Rightarrow> run_bind (run_ops op ps s) (\<lambda>(rs, s). Done (r # rs, s)))"
      by (cases x) (auto intro!: leads_bind [OF Cons.IH])
  qed
qed simp

end

end
