(* ===== verification/Runtime.thy ===== *)
theory Runtime
  imports RuntimeBase
begin

text \<open>
  \<^verbatim>\<open>hcc_runtime.c\<close>: the C side of the hosted build of the Haskell program. The C library acts on
  the world \<open>'w\<close> and is a parameter, the record \<open>libc\<close>; a \<^verbatim>\<open>FILE *\<close> is a number with 0 for the null
  pointer. Sizes are natural numbers: a block that the allocator grants is far smaller than 2 to the
  64th, so no sum wraps.
\<close>

record 'w libc =
  l_fopen :: "8 word list \<Rightarrow> string \<Rightarrow> 'w \<Rightarrow> nat \<times> 'w"
  l_fgetc :: "nat \<Rightarrow> 'w \<Rightarrow> int \<times> 'w"
  l_fputc :: "int \<Rightarrow> nat \<Rightarrow> 'w \<Rightarrow> 'w"
  l_fwrite :: "8 word list \<Rightarrow> nat \<Rightarrow> 'w \<Rightarrow> nat \<times> 'w"
  l_fflush :: "nat \<Rightarrow> 'w \<Rightarrow> int \<times> 'w"
  l_fclose :: "nat \<Rightarrow> 'w \<Rightarrow> int \<times> 'w"
  l_getcwd :: "8 word list \<Rightarrow> 'w \<Rightarrow> (bool \<times> 8 word list) \<times> 'w"
  l_realpath :: "8 word list \<Rightarrow> 'w \<Rightarrow> 8 word list option \<times> 'w"
  l_stat :: "8 word list \<Rightarrow> 'w \<Rightarrow> (int \<times> bool) \<times> 'w"
  l_stdout :: nat
  l_stderr :: nat

section \<open>State\<close>

text \<open>\<^verbatim>\<open>struct hcc_obuf\<close>; the static variables.\<close>

record hcc_obuf =
  obuf_chars :: chars
  obuf_len :: nat

record runtime =
  buffer :: chars
  buffer_len :: nat
  result :: chars
  result_len :: nat
  handles :: "nat list"
  obufs :: "hcc_obuf option list"

definition HCC_MAX_HANDLES :: nat where "HCC_MAX_HANDLES = 256"

definition HCC_MAX_OBUFS :: nat where "HCC_MAX_OBUFS = 256"

definition PATH_MAX :: nat where "PATH_MAX = 4096"

definition initial_runtime :: runtime where
  "initial_runtime =
     \<lparr>buffer = no_chars, buffer_len = 0, result = no_chars, result_len = 0,
      handles = replicate HCC_MAX_HANDLES 0, obufs = replicate HCC_MAX_OBUFS None\<rparr>"

section \<open>Memory\<close>

definition checked_realloc :: "heap \<Rightarrow> 8 word list \<Rightarrow> nat \<Rightarrow> 8 word list run" where
  "checked_realloc H p n = (if grants H n then Done (moved H n p) else out_of_memory)"

definition ensure_chars :: "heap \<Rightarrow> chars \<Rightarrow> nat \<Rightarrow> chars run" where
  "ensure_chars H b needed =
     (if needed \<le> ccap b then Done b
      else
        let next = doubled_to (if ccap b \<noteq> 0 then ccap b else 64) needed in
        run_bind (checked_realloc H (cdata b) next) (\<lambda>cs. Done \<lparr>cdata = cs, ccap = next\<rparr>))"

lemma ensure_chars_roomy:
  "chars_ok b \<Longrightarrow> leads (\<exists>n. \<not> grants H n) (roomy needed b) (ensure_chars H b needed)"
  using roomy_moved [of b needed H]
  by (auto simp: ensure_chars_def Let_def checked_realloc_def roomy_same)

interpretation chars: char_arrays "ensure_chars H" "\<exists>n. \<not> grants H n" for H
  by unfold_locales (rule ensure_chars_roomy)

section \<open>The text the Haskell program passes\<close>

definition hcc_buffer_clear :: "heap \<Rightarrow> runtime \<Rightarrow> runtime run" where
  "hcc_buffer_clear H s =
     run_bind (put_text (ensure_chars H) [] 0 (buffer s)) (\<lambda>b. Done (s\<lparr>buffer := b, buffer_len := 0\<rparr>))"

definition buffer_append :: "heap \<Rightarrow> int list \<Rightarrow> runtime \<Rightarrow> runtime run" where
  "buffer_append H vs s =
     run_bind (put_text (ensure_chars H) vs (buffer_len s) (buffer s))
       (\<lambda>b. Done (s\<lparr>buffer := b, buffer_len := buffer_len s + length vs\<rparr>))"

definition hcc_buffer_put :: "heap \<Rightarrow> int \<Rightarrow> runtime \<Rightarrow> runtime run" where
  "hcc_buffer_put H c s = buffer_append H [c] s"

definition hcc_buffer_put4 :: "heap \<Rightarrow> int \<Rightarrow> int \<Rightarrow> int \<Rightarrow> int \<Rightarrow> runtime \<Rightarrow> runtime run" where
  "hcc_buffer_put4 H c1 c2 c3 c4 s = buffer_append H [c1, c2, c3, c4] s"

definition hcc_buffer_put8 ::
    "heap \<Rightarrow> int \<Rightarrow> int \<Rightarrow> int \<Rightarrow> int \<Rightarrow> int \<Rightarrow> int \<Rightarrow> int \<Rightarrow> int \<Rightarrow> runtime \<Rightarrow> runtime run" where
  "hcc_buffer_put8 H c1 c2 c3 c4 c5 c6 c7 c8 s = buffer_append H [c1, c2, c3, c4, c5, c6, c7, c8] s"

text \<open>The null pointer is a buffer that was never cleared or written.\<close>

definition current_buffer :: "heap \<Rightarrow> runtime \<Rightarrow> runtime run" where
  "current_buffer H s = (if cdata (buffer s) = [] then hcc_buffer_clear H s else Done s)"

definition hcc_stdout_buffer :: "'w libc \<Rightarrow> heap \<Rightarrow> runtime \<Rightarrow> ('w, runtime) act" where
  "hcc_stdout_buffer L H s w =
     act_bind (current_buffer H s, w) (\<lambda>s w.
     case l_fwrite L (take (buffer_len s) (cdata (buffer s))) (l_stdout L) w of (n, w) \<Rightarrow>
     if n \<noteq> buffer_len s then (output_failure, w)
     else
       (case l_fflush L (l_stdout L) w of (r, w) \<Rightarrow>
        if r \<noteq> 0 then (output_failure, w) else (Done s, w)))"

section \<open>Results\<close>

definition set_result :: "heap \<Rightarrow> 8 word list \<Rightarrow> runtime \<Rightarrow> runtime run" where
  "set_result H str s =
     run_bind (put_text (ensure_chars H) (map uint str) 0 (result s))
       (\<lambda>b. Done (s\<lparr>result := b, result_len := length str\<rparr>))"

definition hcc_read_file :: "'w libc \<Rightarrow> heap \<Rightarrow> runtime \<Rightarrow> 'w \<Rightarrow> ((int \<times> runtime) run \<times> 'w) option" where
  "hcc_read_file L H s w =
     (case current_buffer H s of
        Done s \<Rightarrow>
          (case l_fopen L (c_string (buffer s)) ''rb'' w of (file, w) \<Rightarrow>
           if file = 0 then Some (Done (0, s), w)
           else
             (case ensure_chars H (result s) 1 of
                Done b \<Rightarrow>
                  (case l_fgetc L file w of (c, w) \<Rightarrow>
                   map_option
                     (\<lambda>(r, w). act_bind (r, w) (\<lambda>(b, n) w.
                        (Done (1, s\<lparr>result := b, result_len := n\<rparr>), snd (l_fclose L file w))))
                     (read_loop (l_fgetc L file) (ensure_chars H) c b 0 w))
              | Exits n m \<Rightarrow> Some (Exits n m, w)
              | Fault \<Rightarrow> Some (Fault, w)))
      | Exits n m \<Rightarrow> Some (Exits n m, w)
      | Fault \<Rightarrow> Some (Fault, w))"

definition hcc_result_len :: "runtime \<Rightarrow> int" where
  "hcc_result_len s = c_int (int (result_len s))"

definition hcc_result_at :: "int \<Rightarrow> runtime \<Rightarrow> int run" where
  "hcc_result_at index s =
     (if index < 0 \<or> int (result_len s) \<le> index then Done 0
      else if nat index < length (cdata (result s)) then Done (uint (cdata (result s) ! nat index))
      else Fault)"

section \<open>The standard streams and the end of the program\<close>

definition hcc_stderr_char :: "'w libc \<Rightarrow> int \<Rightarrow> 'w \<Rightarrow> 'w" where
  "hcc_stderr_char L c w = snd (l_fflush L (l_stderr L) (l_fputc L c (l_stderr L) w))"

definition hcc_exit_success :: "'w libc \<Rightarrow> ('w, unit) act" where
  "hcc_exit_success L w =
     (case l_fflush L (l_stdout L) w of (r, w) \<Rightarrow>
      if r \<noteq> 0 then (output_failure, w)
      else
        (case l_fclose L (l_stdout L) w of (r, w) \<Rightarrow>
         if r \<noteq> 0 then (output_failure, w) else (Exits 0 [], w)))"

definition hcc_exit_failure :: "unit run" where
  "hcc_exit_failure = Exits 1 []"

section \<open>File handles\<close>

definition alloc_handle :: "'w libc \<Rightarrow> nat \<Rightarrow> runtime \<Rightarrow> 'w \<Rightarrow> (nat \<times> runtime) \<times> 'w" where
  "alloc_handle L file s w =
     (if file = 0 then ((0, s), w)
      else
        (case first_free (\<lambda>f. f = 0) (handles s) of
           Some i \<Rightarrow> ((i + 1, s\<lparr>handles := (handles s)[i := file]\<rparr>), w)
         | None \<Rightarrow> ((0, s), snd (l_fclose L file w))))"

definition get_handle :: "int \<Rightarrow> runtime \<Rightarrow> nat" where
  "get_handle handle s =
     (if handle \<le> 0 \<or> int HCC_MAX_HANDLES < handle then 0 else handles s ! nat (handle - 1))"

definition hcc_open_write :: "'w libc \<Rightarrow> heap \<Rightarrow> runtime \<Rightarrow> ('w, nat \<times> runtime) act" where
  "hcc_open_write L H s w =
     act_bind (current_buffer H s, w) (\<lambda>s w.
     case l_fopen L (c_string (buffer s)) ''wb'' w of (file, w) \<Rightarrow>
     case alloc_handle L file s w of (r, w) \<Rightarrow> (Done r, w))"

definition hcc_handle_flush :: "'w libc \<Rightarrow> int \<Rightarrow> runtime \<Rightarrow> ('w, unit) act" where
  "hcc_handle_flush L handle s w =
     (let file = get_handle handle s in
      if file = 0 then (output_failure, w)
      else
        (case l_fflush L file w of (r, w) \<Rightarrow>
         if r \<noteq> 0 then (output_failure, w) else (Done (), w)))"

definition hcc_close :: "'w libc \<Rightarrow> int \<Rightarrow> runtime \<Rightarrow> ('w, runtime) act" where
  "hcc_close L handle s w =
     (if handle \<le> 0 \<or> int HCC_MAX_HANDLES < handle then (Done s, w)
      else
        let file = handles s ! nat (handle - 1) in
        if file = 0 then (Done s, w)
        else
          (case l_fclose L file w of (r, w) \<Rightarrow>
           if r \<noteq> 0 then (output_failure, w)
           else (Done (s\<lparr>handles := (handles s)[nat (handle - 1) := 0]\<rparr>), w)))"

section \<open>Output buffers\<close>

definition alloc_obuf :: "hcc_obuf \<Rightarrow> runtime \<Rightarrow> nat \<times> runtime" where
  "alloc_obuf out s =
     (case first_free (\<lambda>out. out = None) (obufs s) of
        Some i \<Rightarrow> (i + 1, s\<lparr>obufs := (obufs s)[i := Some out]\<rparr>)
      | None \<Rightarrow> (0, s))"

definition hcc_obuf_new :: "heap \<Rightarrow> int \<Rightarrow> runtime \<Rightarrow> (nat \<times> runtime) run" where
  "hcc_obuf_new H initial_cap s =
     (let cap = (if 0 < initial_cap then nat initial_cap else 64) in
      run_bind (checked_realloc H [] 24) (\<lambda>_.
      run_bind (checked_realloc H [] cap) (\<lambda>cs.
      Done (alloc_obuf \<lparr>obuf_chars = \<lparr>cdata = cs, ccap = cap\<rparr>, obuf_len = 0\<rparr> s))))"

definition get_obuf :: "nat \<Rightarrow> runtime \<Rightarrow> hcc_obuf option" where
  "get_obuf handle s =
     (if handle = 0 \<or> HCC_MAX_OBUFS < handle then None else obufs s ! (handle - 1))"

definition set_obuf :: "nat \<Rightarrow> hcc_obuf option \<Rightarrow> runtime \<Rightarrow> runtime" where
  "set_obuf handle out s = s\<lparr>obufs := (obufs s)[handle - 1 := out]\<rparr>"

definition hcc_obuf_free :: "nat \<Rightarrow> runtime \<Rightarrow> runtime" where
  "hcc_obuf_free handle s = (case get_obuf handle s of None \<Rightarrow> s | Some out \<Rightarrow> set_obuf handle None s)"

definition hcc_obuf_clear :: "nat \<Rightarrow> runtime \<Rightarrow> runtime" where
  "hcc_obuf_clear handle s =
     (case get_obuf handle s of None \<Rightarrow> s | Some out \<Rightarrow> set_obuf handle (Some (out\<lparr>obuf_len := 0\<rparr>)) s)"

definition hcc_obuf_len :: "nat \<Rightarrow> runtime \<Rightarrow> int" where
  "hcc_obuf_len handle s =
     (case get_obuf handle s of None \<Rightarrow> 0 | Some out \<Rightarrow> c_int (int (obuf_len out)))"

definition obuf_append :: "heap \<Rightarrow> nat \<Rightarrow> int list \<Rightarrow> runtime \<Rightarrow> runtime run" where
  "obuf_append H handle vs s =
     (case get_obuf handle s of
        None \<Rightarrow> Done s
      | Some out \<Rightarrow>
          run_bind (put_chars (ensure_chars H) (obuf_len out + length vs) (obuf_len out) vs (obuf_chars out)) (\<lambda>b.
          Done (set_obuf handle (Some \<lparr>obuf_chars = b, obuf_len = obuf_len out + length vs\<rparr>) s)))"

definition hcc_obuf_put :: "heap \<Rightarrow> nat \<Rightarrow> int \<Rightarrow> runtime \<Rightarrow> runtime run" where
  "hcc_obuf_put H handle c s = obuf_append H handle [c] s"

definition hcc_obuf_put4 :: "heap \<Rightarrow> nat \<Rightarrow> int \<Rightarrow> int \<Rightarrow> int \<Rightarrow> int \<Rightarrow> runtime \<Rightarrow> runtime run" where
  "hcc_obuf_put4 H handle c1 c2 c3 c4 s = obuf_append H handle [c1, c2, c3, c4] s"

definition hcc_obuf_put8 ::
    "heap \<Rightarrow> nat \<Rightarrow> int \<Rightarrow> int \<Rightarrow> int \<Rightarrow> int \<Rightarrow> int \<Rightarrow> int \<Rightarrow> int \<Rightarrow> int \<Rightarrow> runtime \<Rightarrow> runtime run" where
  "hcc_obuf_put8 H handle c1 c2 c3 c4 c5 c6 c7 c8 s =
     obuf_append H handle [c1, c2, c3, c4, c5, c6, c7, c8] s"

definition hcc_obuf_write :: "'w libc \<Rightarrow> int \<Rightarrow> nat \<Rightarrow> runtime \<Rightarrow> ('w, unit) act" where
  "hcc_obuf_write L handle obuf_handle s w =
     (let file = get_handle handle s in
      case get_obuf obuf_handle s of
        None \<Rightarrow> (output_failure, w)
      | Some out \<Rightarrow>
          if file = 0 then (output_failure, w)
          else if obuf_len out = 0 then (Done (), w)
          else
            (case l_fwrite L (take (obuf_len out) (cdata (obuf_chars out))) file w of (n, w) \<Rightarrow>
             if n \<noteq> obuf_len out then (output_failure, w) else (Done (), w)))"

section \<open>Paths\<close>

text \<open>
  \<^verbatim>\<open>getcwd\<close> writes into the array whether it succeeds or not.
\<close>

definition hcc_getcwd :: "'w libc \<Rightarrow> heap \<Rightarrow> runtime \<Rightarrow> ('w, int \<times> runtime) act" where
  "hcc_getcwd L H s w =
     act_bind (ensure_chars H (result s) PATH_MAX, w) (\<lambda>b w.
     case l_getcwd L (cdata b) w of ((found, cs), w) \<Rightarrow>
     let b = b\<lparr>cdata := cs\<rparr> in
     if \<not> found then (Done (0, s\<lparr>result := b\<rparr>), w)
     else (Done (1, s\<lparr>result := b, result_len := length (c_string b)\<rparr>), w))"

definition hcc_canonicalize :: "'w libc \<Rightarrow> heap \<Rightarrow> runtime \<Rightarrow> ('w, runtime) act" where
  "hcc_canonicalize L H s w =
     act_bind (current_buffer H s, w) (\<lambda>s w.
     case l_realpath L (c_string (buffer s)) w of
       (Some resolved, w) \<Rightarrow> (set_result H resolved s, w)
     | (None, w) \<Rightarrow>
         act_bind (current_buffer H s, w) (\<lambda>s w. (set_result H (c_string (buffer s)) s, w)))"

definition hcc_does_file_exist :: "'w libc \<Rightarrow> heap \<Rightarrow> runtime \<Rightarrow> ('w, int \<times> runtime) act" where
  "hcc_does_file_exist L H s w =
     act_bind (current_buffer H s, w) (\<lambda>s w.
     case l_stat L (c_string (buffer s)) w of ((r, regular), w) \<Rightarrow>
     (Done (if r = 0 \<and> regular then 1 else 0, s), w))"

section \<open>The invariant\<close>

definition obuf_ok :: "hcc_obuf option \<Rightarrow> bool" where
  "obuf_ok x = (case x of None \<Rightarrow> True | Some out \<Rightarrow> chars_ok (obuf_chars out) \<and> obuf_len out \<le> ccap (obuf_chars out))"

definition runtime_ok :: "runtime \<Rightarrow> bool" where
  "runtime_ok s \<longleftrightarrow>
     text_ok (buffer s) (buffer_len s) \<and> chars_ok (result s) \<and> result_len s \<le> ccap (result s) \<and>
     length (handles s) = HCC_MAX_HANDLES \<and> length (obufs s) = HCC_MAX_OBUFS \<and>
     list_all obuf_ok (obufs s)"

lemma runtime_ok_initial: "runtime_ok initial_runtime"
  by (simp add: runtime_ok_def initial_runtime_def text_ok_def chars_ok_def no_chars_def
      obuf_ok_def list_all_iff)

lemma runtime_ok_buffer:
  "runtime_ok s \<Longrightarrow> text_ok b n \<Longrightarrow> runtime_ok (s\<lparr>buffer := b, buffer_len := n\<rparr>)"
  by (simp add: runtime_ok_def)

lemma runtime_ok_result:
  "runtime_ok s \<Longrightarrow> text_ok b n \<Longrightarrow> runtime_ok (s\<lparr>result := b, result_len := n\<rparr>)"
  by (simp add: runtime_ok_def text_okD)

lemma set_obuf_ok: "runtime_ok s \<Longrightarrow> obuf_ok x \<Longrightarrow> runtime_ok (set_obuf h x s)"
  by (auto simp: runtime_ok_def set_obuf_def list_all_iff dest: set_update_subset_insert [THEN subsetD])

text \<open>What is appended to the buffer is appended to its text, and nothing else changes.\<close>

lemma buffer_append_leads:
  assumes "runtime_ok s"
  shows "leads (\<exists>n. \<not> grants H n)
    (\<lambda>s'. runtime_ok s' \<and> cdata (buffer s') \<noteq> [] \<and>
       text_of (buffer s') (buffer_len s') = text_of (buffer s) (buffer_len s) @ map word_of_int vs \<and>
       result s' = result s \<and> result_len s' = result_len s \<and> handles s' = handles s \<and> obufs s' = obufs s)
    (buffer_append H vs s)"
  unfolding buffer_append_def
proof (rule leads_bind [OF chars.put_text_leads])
  from assms show "chars_ok (buffer s)" "buffer_len s \<le> ccap (buffer s)"
    by (auto simp: runtime_ok_def text_okD)
qed (use assms in \<open>simp add: runtime_ok_buffer\<close>)

lemma hcc_buffer_clear_leads:
  assumes "runtime_ok s"
  shows "leads (\<exists>n. \<not> grants H n)
    (\<lambda>s'. runtime_ok s' \<and> cdata (buffer s') \<noteq> [] \<and> buffer_len s' = 0 \<and> handles s' = handles s \<and>
       obufs s' = obufs s)
    (hcc_buffer_clear H s)"
  unfolding hcc_buffer_clear_def
proof (rule leads_bind [OF chars.put_text_leads])
  from assms show "chars_ok (buffer s)" "0 \<le> ccap (buffer s)"
    by (auto simp: runtime_ok_def text_okD)
qed (use assms in \<open>simp add: runtime_ok_buffer\<close>)

text \<open>The name a routine passes to the C library.\<close>

definition buffer_name :: "runtime \<Rightarrow> 8 word list" where
  "buffer_name s = takeWhile (\<lambda>c. c \<noteq> 0) (text_of (buffer s) (buffer_len s))"

lemma current_buffer_leads:
  assumes "runtime_ok s"
  shows "leads (\<exists>n. \<not> grants H n)
    (\<lambda>s'. runtime_ok s' \<and> c_string (buffer s') = buffer_name s \<and> handles s' = handles s \<and>
       obufs s' = obufs s)
    (current_buffer H s)"
proof (cases "cdata (buffer s) = []")
  case True
  with assms have "buffer_name s = []"
    by (simp add: buffer_name_def text_of_def)
  with True show ?thesis
    by (auto simp: current_buffer_def c_string_text runtime_ok_def text_of_def
        intro!: leads_mono [OF hcc_buffer_clear_leads [OF assms]])
next
  case False
  with assms show ?thesis
    by (simp add: current_buffer_def buffer_name_def c_string_text runtime_ok_def)
qed

section \<open>Reading a file\<close>

lemma hcc_result_at_text:
  assumes "text_of (result s) (result_len s) = bs" "result_len s = length bs"
  shows "hcc_result_at i s = Done (if 0 \<le> i \<and> i < int (length bs) then uint (bs ! nat i) else 0)"
proof -
  from assms have t: "take (length bs) (cdata (result s)) = bs" by (simp add: text_of_def)
  then have "length bs \<le> length (cdata (result s))"
    by (metis length_take min.cobounded1)
  moreover have "cdata (result s) ! k = bs ! k" if "k < length bs" for k
    using t that by (metis nth_take)
  ultimately show ?thesis
    using assms(2) by (auto simp: hcc_result_at_def nat_less_iff)
qed

lemma room_in_result:
  assumes "runtime_ok s"
  shows "leads (\<exists>n. \<not> grants H n) (\<lambda>b. chars_ok b \<and> 0 < ccap b) (ensure_chars H (result s) 1)"
  using chars.ensure_roomy [of "result s" H 1] assms
  by (auto simp: runtime_ok_def roomy_def elim!: leads_mono)

text \<open>
  C15. When \<^verbatim>\<open>fopen\<close> finds the file that the buffer names, and \<^verbatim>\<open>fgetc\<close> gives its bytes and then
  \<^verbatim>\<open>EOF\<close>, \<^verbatim>\<open>hcc_read_file\<close> returns 1, and \<^verbatim>\<open>hcc_result_len\<close> and \<^verbatim>\<open>hcc_result_at\<close> give those bytes:
  all of them, 0 outside them, for files of any size, zeros included. It faults in no case, and exits
  only when memory is refused.
\<close>

theorem hcc_read_file_reads:
  assumes "runtime_ok s"
    and "l_fopen L (buffer_name s) ''rb'' w = (file, w1)" "file \<noteq> 0"
    and "stream_from (l_fgetc L file) bs (l_fgetc L file w1)"
  shows "\<exists>r w'. hcc_read_file L H s w = Some (r, w') \<and>
    leads (\<exists>n. \<not> grants H n)
      (\<lambda>(found, s'). found = 1 \<and> runtime_ok s' \<and> hcc_result_len s' = c_int (int (length bs)) \<and>
         (\<forall>i. hcc_result_at i s' =
            Done (if 0 \<le> i \<and> i < int (length bs) then uint (bs ! nat i) else 0)))
      r"
proof (cases "current_buffer H s")
  case (Done s1)
  with current_buffer_leads [OF assms(1), of H]
  have s1: "runtime_ok s1" "c_string (buffer s1) = buffer_name s" by simp_all
  note room = room_in_result [OF s1(1), of H]
  show ?thesis
  proof (cases "ensure_chars H (result s1) 1")
    case r: (Done b)
    with room have b: "chars_ok b" "0 < ccap b" by simp_all
    obtain c w2 where c: "l_fgetc L file w1 = (c, w2)" by (cases "l_fgetc L file w1")
    from chars.read_loop_reads [OF b, of "l_fgetc L file" bs c w2 H] assms(4) c obtain rr w3 where
      rr: "read_loop (l_fgetc L file) (ensure_chars H) c b 0 w2 = Some (rr, w3)"
        "leads (\<exists>n. \<not> grants H n) (\<lambda>(b', n'). text_ok b' n' \<and> cdata b' \<noteq> [] \<and>
           n' = 0 + length bs \<and> text_of b' n' = text_of b 0 @ bs) rr"
      by auto
    show ?thesis
      using Done r c rr s1 assms(2,3)
      by (cases rr)
        (auto simp: hcc_read_file_def hcc_result_len_def text_of_def runtime_ok_result
          hcc_result_at_text [of _ bs])
  qed (use Done room s1 assms(2,3) in \<open>auto simp: hcc_read_file_def\<close>)
qed (use current_buffer_leads [OF assms(1), of H] in \<open>auto simp: hcc_read_file_def\<close>)

section \<open>The output buffers keep their contract\<close>

definition obuf_view :: "runtime \<Rightarrow> buffers" where
  "obuf_view s h = map_option (\<lambda>out. text_of (obuf_chars out) (obuf_len out)) (get_obuf h s)"

fun obuf_step :: "heap \<Rightarrow> obuf_op \<Rightarrow> runtime \<Rightarrow> (nat \<times> runtime) run" where
  "obuf_step H (Obuf_new c) s = hcc_obuf_new H c s"
| "obuf_step H (Obuf_free h) s = Done (0, hcc_obuf_free h s)"
| "obuf_step H (Obuf_clear h) s = Done (0, hcc_obuf_clear h s)"
| "obuf_step H (Obuf_put h a) s = run_bind (hcc_obuf_put H h a s) (\<lambda>s. Done (0, s))"
| "obuf_step H (Obuf_put4 h a b c d) s =
     run_bind (hcc_obuf_put4 H h a b c d s) (\<lambda>s. Done (0, s))"
| "obuf_step H (Obuf_put8 h a b c d e f g i) s =
     run_bind (hcc_obuf_put8 H h a b c d e f g i s) (\<lambda>s. Done (0, s))"

lemma get_obuf_ok:
  assumes "runtime_ok s" "get_obuf h s = Some out"
  shows "obuf_ok (Some out)"
proof -
  from assms(2) have "h - 1 < HCC_MAX_OBUFS" "obufs s ! (h - 1) = Some out"
    by (auto simp: get_obuf_def split: if_splits)
  with assms(1) show ?thesis
    unfolding runtime_ok_def list_all_length by metis
qed

lemma get_obuf_range: "get_obuf h s = Some out \<Longrightarrow> h - 1 < HCC_MAX_OBUFS \<and> h \<noteq> 0"
  by (auto simp: get_obuf_def split: if_splits)

lemma get_set_obuf:
  assumes "runtime_ok s" "h \<noteq> 0" "h - 1 < HCC_MAX_OBUFS"
  shows "get_obuf h' (set_obuf h x s) = (if h' = h then x else get_obuf h' s)"
  using assms by (auto simp: get_obuf_def set_obuf_def runtime_ok_def nth_list_update)

lemma obuf_view_set:
  assumes "runtime_ok s" "h \<noteq> 0" "h - 1 < HCC_MAX_OBUFS"
  shows "obuf_view (set_obuf h x s) =
    (obuf_view s)(h := map_option (\<lambda>out. text_of (obuf_chars out) (obuf_len out)) x)"
  by (rule ext) (simp add: obuf_view_def get_set_obuf [OF assms])

lemma obuf_view_None [simp]: "get_obuf h s = None \<Longrightarrow> (obuf_view s)(h := None) = obuf_view s"
  by (rule ext) (simp add: obuf_view_def)

lemma obuf_view_free:
  assumes "runtime_ok s"
  shows "free_handle (obuf_view s) =
    (case first_free (\<lambda>out. out = None) (obufs s) of None \<Rightarrow> 0 | Some i \<Rightarrow> i + 1)"
proof (rule free_handle_first)
  show "length (obufs s) = 256" using assms by (simp add: runtime_ok_def HCC_MAX_OBUFS_def)
qed (simp add: obuf_view_def get_obuf_def HCC_MAX_OBUFS_def)

lemma hcc_obuf_new_refines:
  assumes "runtime_ok s"
  shows "leads (\<exists>n. \<not> grants H n)
    (\<lambda>(r, s'). runtime_ok s' \<and> spec_op (Obuf_new c) (obuf_view s) = (r, obuf_view s'))
    (hcc_obuf_new H c s)"
proof -
  have ok: "obuf_ok (Some \<lparr>obuf_chars = \<lparr>cdata = moved H n [], ccap = n\<rparr>, obuf_len = 0\<rparr>)" for n
    by (simp add: obuf_ok_def chars_ok_def)
  have *: "runtime_ok s' \<and> spec_op (Obuf_new c) (obuf_view s) = (r, obuf_view s')"
    if "alloc_obuf \<lparr>obuf_chars = \<lparr>cdata = moved H n [], ccap = n\<rparr>, obuf_len = 0\<rparr> s = (r, s')" for n r s'
  proof (cases "first_free (\<lambda>out. out = None) (obufs s)")
    case None
    with that show ?thesis using assms by (simp add: alloc_obuf_def obuf_view_free)
  next
    case (Some i)
    with first_free_Some [OF Some] have i: "Suc i \<noteq> 0" "Suc i - 1 < HCC_MAX_OBUFS"
      using assms by (simp_all add: runtime_ok_def)
    from that Some have "s' = set_obuf (Suc i) (Some \<lparr>obuf_chars = \<lparr>cdata = moved H n [], ccap = n\<rparr>, obuf_len = 0\<rparr>) s"
      "r = Suc i" by (auto simp: alloc_obuf_def set_obuf_def)
    with Some show ?thesis using assms
      by (simp add: obuf_view_free obuf_view_set [OF assms i] text_of_def)
        (simp add: set_obuf_ok ok)
  qed
  show ?thesis
    by (auto simp: hcc_obuf_new_def Let_def checked_realloc_def split: prod.split dest!: *)
qed

lemma obuf_append_refines:
  assumes "runtime_ok s"
  shows "leads (\<exists>n. \<not> grants H n)
    (\<lambda>s'. runtime_ok s' \<and> obuf_view s' = spec_append h vs (obuf_view s)) (obuf_append H h vs s)"
proof (cases "get_obuf h s")
  case None
  then have "obuf_view s h = None" by (simp add: obuf_view_def)
  then have "spec_append h vs (obuf_view s) = obuf_view s"
    by (simp add: spec_append_def fun_upd_idem)
  with None assms show ?thesis by (simp add: obuf_append_def)
next
  case (Some out)
  have out: "chars_ok (obuf_chars out)" "obuf_len out \<le> ccap (obuf_chars out)"
    using get_obuf_ok [OF assms Some] by (simp_all add: obuf_ok_def)
  note h = get_obuf_range [OF Some]
  have "leads (\<exists>n. \<not> grants H n)
    (\<lambda>s'. runtime_ok s' \<and> obuf_view s' = spec_append h vs (obuf_view s))
    (run_bind (put_chars (ensure_chars H) (obuf_len out + length vs) (obuf_len out) vs (obuf_chars out)) (\<lambda>b.
       Done (set_obuf h (Some \<lparr>obuf_chars = b, obuf_len = obuf_len out + length vs\<rparr>) s)))"
  proof (rule leads_bind [OF chars.put_chars_leads [OF out order_refl]])
    fix b assume "chars_ok b \<and> obuf_len out + length vs \<le> ccap b \<and>
      take (obuf_len out + length vs) (cdata b) = take (obuf_len out) (cdata (obuf_chars out)) @ map word_of_int vs"
    with h Some assms show "leads (\<exists>n. \<not> grants H n)
      (\<lambda>s'. runtime_ok s' \<and> obuf_view s' = spec_append h vs (obuf_view s))
      (Done (set_obuf h (Some \<lparr>obuf_chars = b, obuf_len = obuf_len out + length vs\<rparr>) s))"
      by (simp add: obuf_view_set spec_append_def obuf_view_def text_of_def)
        (simp add: set_obuf_ok obuf_ok_def)
  qed
  with Some show ?thesis by (simp add: obuf_append_def)
qed

lemma obuf_put_refines:
  assumes "runtime_ok s"
  shows "leads (\<exists>n. \<not> grants H n)
    (\<lambda>(r, s'). runtime_ok s' \<and> r = 0 \<and> spec_append h vs (obuf_view s) = obuf_view s')
    (run_bind (obuf_append H h vs s) (\<lambda>s. Done (0, s)))"
  by (rule leads_bind [OF obuf_append_refines [OF assms]]) simp

lemma obuf_step_refines:
  assumes "runtime_ok s"
  shows "leads (\<exists>n. \<not> grants H n)
    (\<lambda>(r, s'). runtime_ok s' \<and> spec_op p (obuf_view s) = (r, obuf_view s')) (obuf_step H p s)"
proof (cases p)
  case (Obuf_new c)
  then show ?thesis using hcc_obuf_new_refines [OF assms] by simp
next
  case (Obuf_free h)
  then show ?thesis using assms
    by (cases "get_obuf h s")
      (auto simp: hcc_obuf_free_def obuf_view_set set_obuf_ok obuf_ok_def dest: get_obuf_range)
next
  case (Obuf_clear h)
  show ?thesis
  proof (cases "get_obuf h s")
    case None
    then have "obuf_view s h = None" by (simp add: obuf_view_def)
    then show ?thesis using None assms Obuf_clear by (simp add: hcc_obuf_clear_def fun_upd_idem)
  next
    case (Some out)
    then show ?thesis using assms Obuf_clear get_obuf_ok [OF assms Some] get_obuf_range [OF Some]
      by (simp add: hcc_obuf_clear_def obuf_view_set obuf_view_def text_of_def)
        (simp add: set_obuf_ok obuf_ok_def)
  qed
qed (simp_all add: hcc_obuf_put_def hcc_obuf_put4_def hcc_obuf_put8_def obuf_put_refines [OF assms])

interpretation hosted: output_buffers "obuf_step H" runtime_ok obuf_view "\<exists>n. \<not> grants H n" for H
  by unfold_locales (rule obuf_step_refines)

lemma obuf_view_initial: "obuf_view initial_runtime = (\<lambda>_. None)"
  by (rule ext) (auto simp: obuf_view_def get_obuf_def initial_runtime_def HCC_MAX_OBUFS_def nth_Cons')

lemma hcc_obuf_len_view:
  "runtime_ok s \<Longrightarrow>
   hcc_obuf_len h s = (case obuf_view s h of None \<Rightarrow> 0 | Some bs \<Rightarrow> c_int (int (length bs)))"
  using get_obuf_ok [of s h]
  by (auto simp: hcc_obuf_len_def obuf_view_def text_of_def obuf_ok_def chars_ok_def min_def
      split: option.split)

text \<open>
  C12. The output buffers of the hosted runtime implement the table from handles to bytes: whatever
  sequence of operations the Haskell program makes, with handles that are valid, freed or never
  given, the results and the bytes of every buffer are those of the table, and no access is out of
  bounds. The program ends early only when memory is refused. \<^verbatim>\<open>hcc_obuf_len\<close> reads off the length.
\<close>

theorem hosted_buffers_refine:
  "leads (\<exists>n. \<not> grants H n)
     (\<lambda>(rs, s). spec_ops ps (\<lambda>_. None) = (rs, obuf_view s) \<and>
        (\<forall>h. hcc_obuf_len h s = (case obuf_view s h of None \<Rightarrow> 0 | Some bs \<Rightarrow> c_int (int (length bs)))))
     (run_ops (obuf_step H) ps initial_runtime)"
  using hosted.ops_refine [OF runtime_ok_initial, of H ps]
  by (rule leads_mono) (auto simp: obuf_view_initial hcc_obuf_len_view)

section \<open>A library for the witnesses\<close>

text \<open>
  One file with two characters, a zero among them; the world is what is left to read of it.
\<close>

definition sample_libc :: "8 word list libc" where
  "sample_libc =
     \<lparr>l_fopen = (\<lambda>name mode w. (if name = [] then (5, [0, 200]) else (0, w))),
      l_fgetc = (\<lambda>_ w. case w of [] \<Rightarrow> (- 1, []) | b # bs \<Rightarrow> (uint b, bs)),
      l_fputc = (\<lambda>_ _ w. w), l_fwrite = (\<lambda>bs _ w. (length bs, w)), l_fflush = (\<lambda>_ w. (0, w)),
      l_fclose = (\<lambda>_ w. (0, w)), l_getcwd = (\<lambda>cs w. ((False, cs), w)),
      l_realpath = (\<lambda>_ w. (None, w)), l_stat = (\<lambda>_ w. ((0, True), w)), l_stdout = 1, l_stderr = 2\<rparr>"

theorem hcc_read_file_reads_witness:
  "\<exists>r w'. hcc_read_file sample_libc \<lparr>grants = \<lambda>_. True, fresh = \<lambda>_. 7\<rparr> initial_runtime [] = Some (r, w') \<and>
    leads False (\<lambda>(found, s'). found = 1 \<and> hcc_result_len s' = 2 \<and> hcc_result_at 1 s' = Done 200) r"
proof -
  have n: "buffer_name initial_runtime = []"
    by (simp add: buffer_name_def initial_runtime_def text_of_def no_chars_def)
  have o: "l_fopen sample_libc (buffer_name initial_runtime) ''rb'' [] = (5, [0, 200])"
    by (simp add: n sample_libc_def)
  have st: "stream_from (l_fgetc sample_libc 5) [0, 200] (l_fgetc sample_libc 5 [0, 200])"
    by (simp add: sample_libc_def)
  from hcc_read_file_reads [OF runtime_ok_initial o _ st, of "\<lparr>grants = \<lambda>_. True, fresh = \<lambda>_. 7\<rparr>"]
  show ?thesis
    by (auto simp: c_int_def elim!: leads_mono)
qed

end
