(* ===== verification/RuntimeM2.thy ===== *)
theory RuntimeM2
  imports RuntimeBase Writes
begin

text \<open>
  \<^verbatim>\<open>hcc_runtime_m2.c\<close>: the C side of the Haskell program in the bootstrap, compiled by M2-Planet and
  linked with M2libc. That library acts on the world \<open>'w\<close> and is a parameter, the record \<open>m2libc\<close>; a
  \<^verbatim>\<open>FILE *\<close> is a number with 0 for the null pointer, and the fields of the \<^verbatim>\<open>FILE\<close> that the code
  reads and writes are the record \<open>m2file\<close>. M2-Planet's \<^verbatim>\<open>unsigned\<close> holds pointers, so it has 64
  bits; lengths and capacities are natural numbers, as in \<^verbatim>\<open>Runtime\<close>.
\<close>

record m2file =
  fd :: int
  fbuffer :: "8 word list"
  bufpos :: nat
  file_pos :: nat

record 'w m2libc =
  m_file :: "nat \<Rightarrow> 'w \<Rightarrow> m2file"
  m_set_file :: "nat \<Rightarrow> m2file \<Rightarrow> 'w \<Rightarrow> 'w"
  m_write :: "'w sys_write"
  m_fopen :: "8 word list \<Rightarrow> string \<Rightarrow> 'w \<Rightarrow> nat \<times> 'w"
  m_fgetc :: "nat \<Rightarrow> 'w \<Rightarrow> int \<times> 'w"
  m_fputc :: "int \<Rightarrow> nat \<Rightarrow> 'w \<Rightarrow> 'w"
  m_fflush :: "nat \<Rightarrow> 'w \<Rightarrow> int \<times> 'w"
  m_fclose :: "nat \<Rightarrow> 'w \<Rightarrow> int \<times> 'w"
  m_close :: "int \<Rightarrow> 'w \<Rightarrow> int \<times> 'w"
  m_getcwd :: "8 word list \<Rightarrow> 'w \<Rightarrow> (int \<times> 8 word list) \<times> 'w"
  m_char :: "8 word \<Rightarrow> int"
  m_stdout :: nat
  m_stderr :: nat

section \<open>State\<close>

text \<open>
  The static variables. An output buffer is an index into four arrays.
\<close>

record runtime_m2 =
  buffer :: chars
  buffer_len :: nat
  result :: chars
  result_len :: nat
  handles :: "nat list"
  obuf_data :: "8 word list list"
  obuf_len :: "nat list"
  obuf_cap :: "nat list"
  obuf_used :: "int list"

definition HCC_MAX_HANDLES :: nat where "HCC_MAX_HANDLES = 256"

definition HCC_MAX_OBUFS :: nat where "HCC_MAX_OBUFS = 256"

definition initial_m2 :: runtime_m2 where
  "initial_m2 =
     \<lparr>buffer = no_chars, buffer_len = 0, result = no_chars, result_len = 0,
      handles = replicate HCC_MAX_HANDLES 0, obuf_data = replicate HCC_MAX_OBUFS [],
      obuf_len = replicate HCC_MAX_OBUFS 0, obuf_cap = replicate HCC_MAX_OBUFS 0,
      obuf_used = replicate HCC_MAX_OBUFS 0\<rparr>"

section \<open>Memory\<close>

definition hcc_rts_alloc :: "heap \<Rightarrow> nat \<Rightarrow> 8 word list run" where
  "hcc_rts_alloc H n = (if grants H n then Done (map (fresh H) [0..<n]) else out_of_memory)"

definition hcc_alloc :: "heap \<Rightarrow> nat \<Rightarrow> 8 word list run" where
  "hcc_alloc H n = (if grants H n then Done (map (fresh H) [0..<n]) else out_of_memory)"

text \<open>The loop that copies the old block into the new one.\<close>

function copy_chars ::
    "nat \<Rightarrow> nat \<Rightarrow> nat \<Rightarrow> 8 word list \<Rightarrow> 8 word list \<Rightarrow> 8 word list run" where
  "copy_chars i old_size new_size inp out =
     (if i < old_size then
        if new_size \<le> i then Done out
        else if i < length inp \<and> i < length out then
          copy_chars (i + 1) old_size new_size inp (out[i := inp ! i])
        else Fault
      else Done out)"
  by pat_completeness auto
termination
  by (relation "measure (\<lambda>(i, old_size, _). old_size - i)") auto

declare copy_chars.simps [simp del]

definition hcc_realloc :: "heap \<Rightarrow> 8 word list \<Rightarrow> nat \<Rightarrow> nat \<Rightarrow> 8 word list run" where
  "hcc_realloc H ptr old_size new_size =
     run_bind (hcc_alloc H new_size) (copy_chars 0 old_size new_size ptr)"

definition ensure_chars :: "heap \<Rightarrow> chars \<Rightarrow> nat \<Rightarrow> chars run" where
  "ensure_chars H b needed =
     (if needed \<le> ccap b then Done b
      else
        let next = doubled_to (if ccap b = 0 then 64 else ccap b) needed in
        run_bind (hcc_realloc H (cdata b) (ccap b) next) (\<lambda>cs. Done \<lparr>cdata = cs, ccap = next\<rparr>))"

lemma copy_chars_moves:
  "i \<le> length inp \<Longrightarrow> length inp \<le> length out \<Longrightarrow>
   copy_chars i (length inp) (length out) inp out =
     Done (take i out @ drop i inp @ drop (length inp) out)"
proof (induction "length inp - i" arbitrary: i out)
  case 0
  then show ?case by (subst copy_chars.simps) (simp flip: append_assoc)
next
  case (Suc n)
  then have i: "i < length inp" "i < length out" by auto
  with Suc have "copy_chars (i + 1) (length inp) (length (out[i := inp ! i])) inp (out[i := inp ! i]) =
      Done (take (i + 1) (out[i := inp ! i]) @ drop (i + 1) inp @ drop (length inp) (out[i := inp ! i]))"
    by (intro Suc.hyps(1)) auto
  with i show ?case
    by (subst copy_chars.simps)
      (simp add: take_Suc_conv_app_nth Cons_nth_drop_Suc drop_update_cancel)
qed

lemma hcc_realloc_moves:
  assumes "chars_ok b" "ccap b \<le> n"
  shows "hcc_realloc H (cdata b) (ccap b) n =
    (if grants H n then Done (moved H n (cdata b)) else out_of_memory)"
proof (cases "grants H n")
  case True
  let ?out = "map (fresh H) [0..<n]"
  from assms have l: "ccap b = length (cdata b)" "length (cdata b) \<le> length ?out"
    by (simp_all add: chars_ok_def)
  then have "drop (length (cdata b)) ?out = map (fresh H) [length (cdata b)..<n]"
    by (simp add: drop_map)
  then show ?thesis
    using True copy_chars_moves [of 0 "cdata b" ?out] l
    by (simp add: hcc_realloc_def hcc_alloc_def moved_def min_absorb2)
qed (simp add: hcc_realloc_def hcc_alloc_def)

lemma m2_ensure_chars_roomy:
  assumes "chars_ok b"
  shows "leads (\<exists>n. \<not> grants H n) (roomy needed b) (ensure_chars H b needed)"
proof (cases "needed \<le> ccap b")
  case True
  with assms show ?thesis by (simp add: ensure_chars_def roomy_same)
next
  case False
  let ?next = "doubled_to (if ccap b = 0 then 64 else ccap b) needed"
  have "needed \<le> ?next" by (rule doubled_to_enough) simp
  with False have "ccap b \<le> ?next" by simp
  from False roomy_moved [OF assms, of needed H]
  have "roomy needed b \<lparr>cdata = moved H ?next (cdata b), ccap = ?next\<rparr>"
    by (simp split: if_splits)
  with False show ?thesis
    by (auto simp: ensure_chars_def Let_def hcc_realloc_moves [OF assms \<open>ccap b \<le> ?next\<close>])
qed

interpretation chars_m2: char_arrays "ensure_chars H" "\<exists>n. \<not> grants H n" for H
  by unfold_locales (rule m2_ensure_chars_roomy)

section \<open>The text the Haskell program passes\<close>

definition hcc_buffer_clear :: "heap \<Rightarrow> runtime_m2 \<Rightarrow> runtime_m2 run" where
  "hcc_buffer_clear H s =
     run_bind (put_text (ensure_chars H) [] 0 (buffer s)) (\<lambda>b. Done (s\<lparr>buffer := b, buffer_len := 0\<rparr>))"

definition buffer_append :: "heap \<Rightarrow> int list \<Rightarrow> runtime_m2 \<Rightarrow> runtime_m2 run" where
  "buffer_append H vs s =
     run_bind (put_text (ensure_chars H) vs (buffer_len s) (buffer s))
       (\<lambda>b. Done (s\<lparr>buffer := b, buffer_len := buffer_len s + length vs\<rparr>))"

definition hcc_buffer_put :: "heap \<Rightarrow> int \<Rightarrow> runtime_m2 \<Rightarrow> runtime_m2 run" where
  "hcc_buffer_put H c s = buffer_append H [c] s"

definition hcc_buffer_put4 :: "heap \<Rightarrow> int \<Rightarrow> int \<Rightarrow> int \<Rightarrow> int \<Rightarrow> runtime_m2 \<Rightarrow> runtime_m2 run" where
  "hcc_buffer_put4 H c1 c2 c3 c4 s = buffer_append H [c1, c2, c3, c4] s"

definition hcc_buffer_put8 ::
    "heap \<Rightarrow> int \<Rightarrow> int \<Rightarrow> int \<Rightarrow> int \<Rightarrow> int \<Rightarrow> int \<Rightarrow> int \<Rightarrow> int \<Rightarrow> runtime_m2 \<Rightarrow> runtime_m2 run" where
  "hcc_buffer_put8 H c1 c2 c3 c4 c5 c6 c7 c8 s = buffer_append H [c1, c2, c3, c4, c5, c6, c7, c8] s"

definition current_buffer :: "heap \<Rightarrow> runtime_m2 \<Rightarrow> runtime_m2 run" where
  "current_buffer H s = (if cdata (buffer s) = [] then hcc_buffer_clear H s else Done s)"

section \<open>Output\<close>

text \<open>
  \<^verbatim>\<open>checked_write\<close> is the loop of \<^verbatim>\<open>Writes\<close>, run here on a block of bytes. The message of
  \<^verbatim>\<open>output_failure\<close> is part of the run's result.
\<close>

definition block :: "8 word list \<Rightarrow> cmem" where
  "block cs a = (if 0 \<le> a \<and> nat a < length cs then cs ! nat a else 0)"

definition write_out ::
    "'w m2libc \<Rightarrow> nat \<Rightarrow> 8 word list \<Rightarrow> nat \<Rightarrow> 'w \<Rightarrow> (unit run \<times> 'w) option" where
  "write_out L file data len w =
     map_option (\<lambda>(w, r). (case r of Ran _ \<Rightarrow> Done () | Exited _ \<Rightarrow> RuntimeBase.output_failure, w))
       (checked_write (\<lambda>_ w. w) (m_write L) (fd (m_file L file w)) (block data) 0 (of_nat len) w)"

fun loop_bind ::
    "('a run \<times> 'w) option \<Rightarrow> ('a \<Rightarrow> 'w \<Rightarrow> ('b run \<times> 'w) option) \<Rightarrow> ('b run \<times> 'w) option" where
  "loop_bind None f = None"
| "loop_bind (Some (Done x, w)) f = f x w"
| "loop_bind (Some (Exits n m, w)) f = Some (Exits n m, w)"
| "loop_bind (Some (Fault, w)) f = Some (Fault, w)"

definition checked_flush :: "'w m2libc \<Rightarrow> nat \<Rightarrow> 'w \<Rightarrow> (unit run \<times> 'w) option" where
  "checked_flush L file w =
     loop_bind (write_out L file (fbuffer (m_file L file w)) (bufpos (m_file L file w)) w) (\<lambda>_ w.
       let f = m_file L file w in
       Some (Done (), m_set_file L file (f\<lparr>file_pos := file_pos f + bufpos f, bufpos := 0\<rparr>) w))"

definition hcc_stdout_buffer ::
    "'w m2libc \<Rightarrow> heap \<Rightarrow> runtime_m2 \<Rightarrow> 'w \<Rightarrow> (runtime_m2 run \<times> 'w) option" where
  "hcc_stdout_buffer L H s w =
     loop_bind (Some (current_buffer H s, w)) (\<lambda>s w.
     loop_bind (checked_flush L (m_stdout L) w) (\<lambda>_ w.
     loop_bind (write_out L (m_stdout L) (cdata (buffer s)) (buffer_len s) w) (\<lambda>_ w.
     Some (Done s, w))))"

definition hcc_stderr_char :: "'w m2libc \<Rightarrow> int \<Rightarrow> 'w \<Rightarrow> 'w" where
  "hcc_stderr_char L c w = snd (m_fflush L (m_stderr L) (m_fputc L c (m_stderr L) w))"

definition hcc_exit_success :: "'w m2libc \<Rightarrow> 'w \<Rightarrow> (unit run \<times> 'w) option" where
  "hcc_exit_success L w =
     loop_bind (checked_flush L (m_stdout L) w) (\<lambda>_ w.
     case m_close L (fd (m_file L (m_stdout L) w)) w of (r, w) \<Rightarrow>
     Some (if r \<noteq> 0 then RuntimeBase.output_failure else Exits 0 [], w))"

definition hcc_exit_failure :: "unit run" where
  "hcc_exit_failure = Exits 1 []"

section \<open>Results\<close>

definition set_result :: "heap \<Rightarrow> 8 word list \<Rightarrow> runtime_m2 \<Rightarrow> runtime_m2 run" where
  "set_result H str s =
     run_bind (put_text (ensure_chars H) (map uint str) 0 (result s))
       (\<lambda>b. Done (s\<lparr>result := b, result_len := length str\<rparr>))"

definition hcc_read_file ::
    "'w m2libc \<Rightarrow> heap \<Rightarrow> runtime_m2 \<Rightarrow> 'w \<Rightarrow> ((int \<times> runtime_m2) run \<times> 'w) option" where
  "hcc_read_file L H s w =
     loop_bind (Some (current_buffer H s, w)) (\<lambda>s w.
     case m_fopen L (c_string (buffer s)) ''r'' w of (file, w) \<Rightarrow>
     if file = 0 then Some (Done (0, s), w)
     else
       loop_bind (Some (ensure_chars H (result s) 1, w)) (\<lambda>b w.
       case m_fgetc L file w of (c, w) \<Rightarrow>
       loop_bind (read_loop (m_fgetc L file) (ensure_chars H) c b 0 w) (\<lambda>(b, n) w.
       Some (Done (1, s\<lparr>result := b, result_len := n\<rparr>), snd (m_fclose L file w)))))"

definition hcc_result_len :: "runtime_m2 \<Rightarrow> int" where
  "hcc_result_len s = int (result_len s)"

text \<open>How M2-Planet's code widens a \<^verbatim>\<open>char\<close> is \<open>m_char\<close>.\<close>

definition hcc_result_at :: "'w m2libc \<Rightarrow> int \<Rightarrow> runtime_m2 \<Rightarrow> int run" where
  "hcc_result_at L index s =
     (if index < 0 then Done 0
      else if int (result_len s) \<le> index then Done 0
      else if nat index < length (cdata (result s)) then Done (m_char L (cdata (result s) ! nat index))
      else Fault)"

section \<open>File handles\<close>

definition alloc_handle :: "'w m2libc \<Rightarrow> nat \<Rightarrow> runtime_m2 \<Rightarrow> 'w \<Rightarrow> (nat \<times> runtime_m2) \<times> 'w" where
  "alloc_handle L file s w =
     (if file = 0 then ((0, s), w)
      else
        (case first_free (\<lambda>f. f = 0) (handles s) of
           Some i \<Rightarrow> ((i + 1, s\<lparr>handles := (handles s)[i := file]\<rparr>), w)
         | None \<Rightarrow> ((0, s), snd (m_fclose L file w))))"

definition get_handle :: "int \<Rightarrow> runtime_m2 \<Rightarrow> nat" where
  "get_handle handle s =
     (if handle \<le> 0 then 0
      else if int HCC_MAX_HANDLES < handle then 0
      else handles s ! nat (handle - 1))"

definition hcc_open_write ::
    "'w m2libc \<Rightarrow> heap \<Rightarrow> runtime_m2 \<Rightarrow> ('w, nat \<times> runtime_m2) act" where
  "hcc_open_write L H s w =
     act_bind (current_buffer H s, w) (\<lambda>s w.
     case m_fopen L (c_string (buffer s)) ''w'' w of (file, w) \<Rightarrow>
     case alloc_handle L file s w of (r, w) \<Rightarrow> (Done r, w))"

definition hcc_handle_flush :: "'w m2libc \<Rightarrow> int \<Rightarrow> runtime_m2 \<Rightarrow> 'w \<Rightarrow> (unit run \<times> 'w) option" where
  "hcc_handle_flush L handle s w =
     (let file = get_handle handle s in
      if file = 0 then Some (RuntimeBase.output_failure, w) else checked_flush L file w)"

definition hcc_close :: "'w m2libc \<Rightarrow> int \<Rightarrow> runtime_m2 \<Rightarrow> 'w \<Rightarrow> (runtime_m2 run \<times> 'w) option" where
  "hcc_close L handle s w =
     (if handle \<le> 0 then Some (Done s, w)
      else if int HCC_MAX_HANDLES < handle then Some (Done s, w)
      else
        let file = handles s ! nat (handle - 1) in
        if file = 0 then Some (Done s, w)
        else
          loop_bind (checked_flush L file w) (\<lambda>_ w.
          case m_fclose L file w of (r, w) \<Rightarrow>
          if r \<noteq> 0 then Some (RuntimeBase.output_failure, w)
          else Some (Done (s\<lparr>handles := (handles s)[nat (handle - 1) := 0]\<rparr>), w)))"

section \<open>Output buffers\<close>

definition obuf_index :: "nat \<Rightarrow> runtime_m2 \<Rightarrow> int" where
  "obuf_index handle s =
     (if handle = 0 then - 1
      else if HCC_MAX_OBUFS < handle then - 1
      else if obuf_used s ! (handle - 1) = 0 then - 1
      else int (handle - 1))"

definition alloc_obuf :: "runtime_m2 \<Rightarrow> nat \<times> runtime_m2" where
  "alloc_obuf s =
     (case first_free (\<lambda>used. used = 0) (obuf_used s) of
        Some i \<Rightarrow>
          (i + 1,
           s\<lparr>obuf_used := (obuf_used s)[i := 1], obuf_data := (obuf_data s)[i := []],
             obuf_len := (obuf_len s)[i := 0], obuf_cap := (obuf_cap s)[i := 0]\<rparr>)
      | None \<Rightarrow> (0, s))"

text \<open>A negative capacity becomes a large unsigned number.\<close>

definition hcc_obuf_new :: "heap \<Rightarrow> int \<Rightarrow> runtime_m2 \<Rightarrow> (nat \<times> runtime_m2) run" where
  "hcc_obuf_new H initial_cap s =
     (let cap = unat (word_of_int initial_cap :: 64 word);
          cap = (if cap = 0 then 64 else cap)
      in
      case alloc_obuf s of (handle, s) \<Rightarrow>
      if handle = 0 then Done (0, s)
      else
        let ix = handle - 1 in
        run_bind (hcc_alloc H cap) (\<lambda>cs.
        Done (handle, s\<lparr>obuf_data := (obuf_data s)[ix := cs], obuf_cap := (obuf_cap s)[ix := cap]\<rparr>)))"

definition hcc_obuf_free :: "nat \<Rightarrow> runtime_m2 \<Rightarrow> runtime_m2" where
  "hcc_obuf_free handle s =
     (let ix = obuf_index handle s in
      if ix < 0 then s
      else
        s\<lparr>obuf_data := (obuf_data s)[nat ix := []], obuf_len := (obuf_len s)[nat ix := 0],
          obuf_cap := (obuf_cap s)[nat ix := 0], obuf_used := (obuf_used s)[nat ix := 0]\<rparr>)"

definition hcc_obuf_clear :: "nat \<Rightarrow> runtime_m2 \<Rightarrow> runtime_m2" where
  "hcc_obuf_clear handle s =
     (let ix = obuf_index handle s in
      if ix < 0 then s else s\<lparr>obuf_len := (obuf_len s)[nat ix := 0]\<rparr>)"

definition hcc_obuf_len :: "nat \<Rightarrow> runtime_m2 \<Rightarrow> int" where
  "hcc_obuf_len handle s =
     (let ix = obuf_index handle s in if ix < 0 then 0 else int (obuf_len s ! nat ix))"

definition obuf_append :: "heap \<Rightarrow> nat \<Rightarrow> int list \<Rightarrow> runtime_m2 \<Rightarrow> runtime_m2 run" where
  "obuf_append H handle vs s =
     (let ix = obuf_index handle s in
      if ix < 0 then Done s
      else
        let i = nat ix; pos = obuf_len s ! i in
        run_bind
          (put_chars (ensure_chars H) (pos + length vs) pos vs
            \<lparr>cdata = obuf_data s ! i, ccap = obuf_cap s ! i\<rparr>)
          (\<lambda>b. Done (s\<lparr>obuf_data := (obuf_data s)[i := cdata b], obuf_cap := (obuf_cap s)[i := ccap b],
             obuf_len := (obuf_len s)[i := pos + length vs]\<rparr>)))"

definition hcc_obuf_put :: "heap \<Rightarrow> nat \<Rightarrow> int \<Rightarrow> runtime_m2 \<Rightarrow> runtime_m2 run" where
  "hcc_obuf_put H handle c s = obuf_append H handle [c] s"

definition hcc_obuf_put4 ::
    "heap \<Rightarrow> nat \<Rightarrow> int \<Rightarrow> int \<Rightarrow> int \<Rightarrow> int \<Rightarrow> runtime_m2 \<Rightarrow> runtime_m2 run" where
  "hcc_obuf_put4 H handle c1 c2 c3 c4 s = obuf_append H handle [c1, c2, c3, c4] s"

definition hcc_obuf_put8 ::
    "heap \<Rightarrow> nat \<Rightarrow> int \<Rightarrow> int \<Rightarrow> int \<Rightarrow> int \<Rightarrow> int \<Rightarrow> int \<Rightarrow> int \<Rightarrow> int \<Rightarrow> runtime_m2 \<Rightarrow>
     runtime_m2 run" where
  "hcc_obuf_put8 H handle c1 c2 c3 c4 c5 c6 c7 c8 s =
     obuf_append H handle [c1, c2, c3, c4, c5, c6, c7, c8] s"

definition hcc_obuf_write ::
    "'w m2libc \<Rightarrow> int \<Rightarrow> nat \<Rightarrow> runtime_m2 \<Rightarrow> 'w \<Rightarrow> (unit run \<times> 'w) option" where
  "hcc_obuf_write L handle obuf_handle s w =
     (let file = get_handle handle s; ix = obuf_index obuf_handle s in
      if file = 0 then Some (RuntimeBase.output_failure, w)
      else if ix < 0 then Some (RuntimeBase.output_failure, w)
      else if obuf_len s ! nat ix = 0 then Some (Done (), w)
      else
        let data = obuf_data s ! nat ix in
        loop_bind (checked_flush L file w) (\<lambda>_ w.
        write_out L file data (obuf_len s ! nat ix) w))"

section \<open>Paths\<close>

text \<open>
  The raw result of the system call is a number of bytes, or a negative error, which is a large
  unsigned number.
\<close>

definition hcc_getcwd :: "'w m2libc \<Rightarrow> heap \<Rightarrow> runtime_m2 \<Rightarrow> ('w, int \<times> runtime_m2) act" where
  "hcc_getcwd L H s w =
     act_bind (ensure_chars H (result s) 4096, w) (\<lambda>b w.
     case m_getcwd L (cdata b) w of ((r, cs), w) \<Rightarrow>
     let cnt = unat (word_of_int r :: 64 word); b = b\<lparr>cdata := cs\<rparr> in
     if cnt = 0 \<or> ccap b < cnt then (Done (0, s\<lparr>result := b\<rparr>), w)
     else (Done (1, s\<lparr>result := b, result_len := length (c_string b)\<rparr>), w))"

definition hcc_canonicalize :: "heap \<Rightarrow> runtime_m2 \<Rightarrow> runtime_m2 run" where
  "hcc_canonicalize H s = run_bind (current_buffer H s) (\<lambda>s. set_result H (c_string (buffer s)) s)"

definition hcc_does_file_exist ::
    "'w m2libc \<Rightarrow> heap \<Rightarrow> runtime_m2 \<Rightarrow> ('w, int \<times> runtime_m2) act" where
  "hcc_does_file_exist L H s w =
     act_bind (current_buffer H s, w) (\<lambda>s w.
     case m_fopen L (c_string (buffer s)) ''r'' w of (file, w) \<Rightarrow>
     if file = 0 then (Done (0, s), w) else (Done (1, s), snd (m_fclose L file w)))"

section \<open>The output buffers keep their contract\<close>

definition slot_ok :: "runtime_m2 \<Rightarrow> nat \<Rightarrow> bool" where
  "slot_ok s i \<longleftrightarrow> length (obuf_data s ! i) = obuf_cap s ! i \<and> obuf_len s ! i \<le> obuf_cap s ! i"

definition m2_ok :: "runtime_m2 \<Rightarrow> bool" where
  "m2_ok s \<longleftrightarrow>
     length (obuf_data s) = HCC_MAX_OBUFS \<and> length (obuf_len s) = HCC_MAX_OBUFS \<and>
     length (obuf_cap s) = HCC_MAX_OBUFS \<and> length (obuf_used s) = HCC_MAX_OBUFS \<and>
     (\<forall>i < HCC_MAX_OBUFS. slot_ok s i)"

lemma slot_okI: "m2_ok s \<Longrightarrow> i < HCC_MAX_OBUFS \<Longrightarrow> slot_ok s i"
  by (simp add: m2_ok_def)

lemma m2_ok_lengths:
  "m2_ok s \<Longrightarrow> length (obuf_data s) = HCC_MAX_OBUFS \<and> length (obuf_len s) = HCC_MAX_OBUFS \<and>
     length (obuf_cap s) = HCC_MAX_OBUFS \<and> length (obuf_used s) = HCC_MAX_OBUFS"
  by (simp add: m2_ok_def)

lemma m2_ok_initial: "m2_ok initial_m2"
  by (simp add: m2_ok_def initial_m2_def slot_ok_def)

text \<open>All four arrays change at one index.\<close>

definition set_slot :: "nat \<Rightarrow> 8 word list \<Rightarrow> nat \<Rightarrow> nat \<Rightarrow> int \<Rightarrow> runtime_m2 \<Rightarrow> runtime_m2" where
  "set_slot i cs n cap used s =
     s\<lparr>obuf_used := (obuf_used s)[i := used], obuf_len := (obuf_len s)[i := n],
       obuf_data := (obuf_data s)[i := cs], obuf_cap := (obuf_cap s)[i := cap]\<rparr>"

lemma set_slot_orders:
  "s\<lparr>obuf_data := (obuf_data s)[i := cs], obuf_cap := (obuf_cap s)[i := cap],
     obuf_len := (obuf_len s)[i := n]\<rparr> = set_slot i cs n cap (obuf_used s ! i) s"
  "s\<lparr>obuf_data := (obuf_data s)[i := cs], obuf_len := (obuf_len s)[i := n],
     obuf_cap := (obuf_cap s)[i := cap], obuf_used := (obuf_used s)[i := used]\<rparr> =
   set_slot i cs n cap used s"
  "s\<lparr>obuf_len := (obuf_len s)[i := n]\<rparr> =
   set_slot i (obuf_data s ! i) n (obuf_cap s ! i) (obuf_used s ! i) s"
  by (cases s; simp add: set_slot_def)+

lemma nth_update: "j < length xs \<Longrightarrow> xs[i := x] ! j = (if i = j then x else xs ! j)"
  by (cases "i = j") auto

lemma set_slot_ok: "m2_ok s \<Longrightarrow> length cs = cap \<Longrightarrow> n \<le> cap \<Longrightarrow> m2_ok (set_slot i cs n cap used s)"
  by (simp add: m2_ok_def set_slot_def slot_ok_def nth_update)

definition m2_view :: "runtime_m2 \<Rightarrow> buffers" where
  "m2_view s h =
     (if obuf_index h s < 0 then None
      else Some (take (obuf_len s ! (h - 1)) (obuf_data s ! (h - 1))))"

lemma m2_view_def2:
  "m2_view s h =
     (if h \<noteq> 0 \<and> h - 1 < HCC_MAX_OBUFS \<and> obuf_used s ! (h - 1) \<noteq> 0
      then Some (take (obuf_len s ! (h - 1)) (obuf_data s ! (h - 1))) else None)"
  by (cases h) (simp_all add: m2_view_def obuf_index_def HCC_MAX_OBUFS_def)

lemma obuf_index_cases:
  obtains "obuf_index h s = - 1" "m2_view s h = None"
  | i where "h = Suc i" "i < HCC_MAX_OBUFS" "obuf_index h s = int i" "obuf_used s ! i \<noteq> 0"
    "m2_view s h = Some (take (obuf_len s ! i) (obuf_data s ! i))"
proof (cases "obuf_index h s = - 1")
  case False
  then show ?thesis
    by (intro that(2) [of "h - 1"])
      (cases h; auto simp: obuf_index_def m2_view_def HCC_MAX_OBUFS_def split: if_splits)+
qed (use that(1) in \<open>simp add: m2_view_def\<close>)

lemma m2_view_set:
  assumes "m2_ok s" "i < HCC_MAX_OBUFS"
  shows "m2_view (set_slot i cs n cap used s) =
    (m2_view s)(Suc i := if used = 0 then None else Some (take n cs))"
proof (rule ext)
  fix h
  show "m2_view (set_slot i cs n cap used s) h =
      ((m2_view s)(Suc i := if used = 0 then None else Some (take n cs))) h"
    using assms m2_ok_lengths [OF assms(1)]
    by (cases h) (auto simp: m2_view_def2 set_slot_def nth_update)
qed

lemma m2_view_free:
  assumes "m2_ok s"
  shows "free_handle (m2_view s) =
    (case first_free (\<lambda>used. used = 0) (obuf_used s) of None \<Rightarrow> 0 | Some i \<Rightarrow> i + 1)"
proof (rule free_handle_first)
  show "length (obuf_used s) = 256" using assms by (simp add: m2_ok_def HCC_MAX_OBUFS_def)
qed (simp add: m2_view_def2 HCC_MAX_OBUFS_def)

fun m2_step :: "heap \<Rightarrow> obuf_op \<Rightarrow> runtime_m2 \<Rightarrow> (nat \<times> runtime_m2) run" where
  "m2_step H (Obuf_new c) s = hcc_obuf_new H c s"
| "m2_step H (Obuf_free h) s = Done (0, hcc_obuf_free h s)"
| "m2_step H (Obuf_clear h) s = Done (0, hcc_obuf_clear h s)"
| "m2_step H (Obuf_put h a) s = run_bind (hcc_obuf_put H h a s) (\<lambda>s. Done (0, s))"
| "m2_step H (Obuf_put4 h a b c d) s =
     run_bind (hcc_obuf_put4 H h a b c d s) (\<lambda>s. Done (0, s))"
| "m2_step H (Obuf_put8 h a b c d e f g i) s =
     run_bind (hcc_obuf_put8 H h a b c d e f g i s) (\<lambda>s. Done (0, s))"

lemma m2_hcc_obuf_new_refines:
  assumes "m2_ok s"
  shows "leads (\<exists>n. \<not> grants H n)
    (\<lambda>(r, s'). m2_ok s' \<and> spec_op (Obuf_new c) (m2_view s) = (r, m2_view s'))
    (hcc_obuf_new H c s)"
proof (cases "first_free (\<lambda>used. used = 0) (obuf_used s)")
  case None
  with assms show ?thesis by (simp add: hcc_obuf_new_def Let_def alloc_obuf_def m2_view_free)
next
  case (Some i)
  define cap where
    "cap = (if word_of_int c = (0 :: 64 word) then 64 else unat (word_of_int c :: 64 word))"
  have i: "i < HCC_MAX_OBUFS"
    using first_free_Some [OF Some] assms by (simp_all add: m2_ok_def)
  let ?s = "set_slot i (map (fresh H) [0..<cap]) 0 cap 1 s"
  have "m2_ok ?s" using assms by (simp add: set_slot_ok)
  moreover have "m2_view ?s = (m2_view s)(Suc i \<mapsto> [])"
    by (subst m2_view_set [OF assms i]) simp
  moreover have "hcc_obuf_new H c s = run_bind (hcc_alloc H cap) (\<lambda>cs.
      Done (Suc i, set_slot i cs 0 cap 1 s))"
    using Some by (simp add: hcc_obuf_new_def Let_def alloc_obuf_def set_slot_def cap_def unat_eq_0)
  ultimately show ?thesis
    using Some assms by (auto simp: m2_view_free hcc_alloc_def)
qed

lemma m2_obuf_append_refines:
  assumes "m2_ok s"
  shows "leads (\<exists>n. \<not> grants H n)
    (\<lambda>s'. m2_ok s' \<and> m2_view s' = spec_append h vs (m2_view s)) (obuf_append H h vs s)"
proof (cases rule: obuf_index_cases [of h s])
  case 1
  then have "spec_append h vs (m2_view s) = m2_view s"
    by (simp add: spec_append_def fun_upd_idem)
  with 1 assms show ?thesis by (simp add: obuf_append_def)
next
  case (2 i)
  let ?b = "\<lparr>cdata = obuf_data s ! i, ccap = obuf_cap s ! i\<rparr>" and ?pos = "obuf_len s ! i"
  from slot_okI [OF assms 2(2)] have b: "chars_ok ?b" "?pos \<le> ccap ?b"
    by (simp_all add: slot_ok_def chars_ok_def)
  have "obuf_append H h vs s =
      run_bind (put_chars (ensure_chars H) (?pos + length vs) ?pos vs ?b) (\<lambda>b.
        Done (set_slot i (cdata b) (?pos + length vs) (ccap b) (obuf_used s ! i) s))"
    using 2 by (simp add: obuf_append_def Let_def set_slot_orders)
  also have "leads (\<exists>n. \<not> grants H n) (\<lambda>s'. m2_ok s' \<and> m2_view s' = spec_append h vs (m2_view s)) \<dots>"
  proof (rule leads_bind [OF chars_m2.put_chars_leads [OF b order_refl]])
    fix b assume "chars_ok b \<and> ?pos + length vs \<le> ccap b \<and>
      take (?pos + length vs) (cdata b) = take ?pos (cdata ?b) @ map word_of_int vs"
    then show "leads (\<exists>n. \<not> grants H n) (\<lambda>s'. m2_ok s' \<and> m2_view s' = spec_append h vs (m2_view s))
      (Done (set_slot i (cdata b) (?pos + length vs) (ccap b) (obuf_used s ! i) s))"
      using assms 2(1,4,5)
      by (simp add: m2_view_set [OF assms 2(2)] set_slot_ok chars_ok_def spec_append_def)
  qed
  finally show ?thesis .
qed

lemma m2_obuf_put_refines:
  assumes "m2_ok s"
  shows "leads (\<exists>n. \<not> grants H n)
    (\<lambda>(r, s'). m2_ok s' \<and> r = 0 \<and> spec_append h vs (m2_view s) = m2_view s')
    (run_bind (obuf_append H h vs s) (\<lambda>s. Done (0, s)))"
  by (rule leads_bind [OF m2_obuf_append_refines [OF assms]]) simp

lemma m2_step_refines:
  assumes "m2_ok s"
  shows "leads (\<exists>n. \<not> grants H n)
    (\<lambda>(r, s'). m2_ok s' \<and> spec_op p (m2_view s) = (r, m2_view s')) (m2_step H p s)"
proof (cases p)
  case (Obuf_new c)
  then show ?thesis using m2_hcc_obuf_new_refines [OF assms] by simp
next
  case (Obuf_free h)
  show ?thesis
  proof (cases rule: obuf_index_cases [of h s])
    case 1
    with assms show ?thesis by (simp add: Obuf_free hcc_obuf_free_def fun_upd_idem)
  next
    case (2 i)
    then have "hcc_obuf_free h s = set_slot i [] 0 0 0 s"
      by (simp add: hcc_obuf_free_def Let_def set_slot_orders)
    with assms show ?thesis by (simp add: Obuf_free m2_view_set [OF assms 2(2)] set_slot_ok 2(1))
  qed
next
  case (Obuf_clear h)
  show ?thesis
  proof (cases rule: obuf_index_cases [of h s])
    case 1
    with assms show ?thesis by (simp add: Obuf_clear hcc_obuf_clear_def fun_upd_idem)
  next
    case (2 i)
    then have "hcc_obuf_clear h s =
        set_slot i (obuf_data s ! i) 0 (obuf_cap s ! i) (obuf_used s ! i) s"
      by (simp add: hcc_obuf_clear_def Let_def set_slot_orders)
    with assms 2(1,4,5) slot_okI [OF assms 2(2)] show ?thesis
      by (simp add: Obuf_clear m2_view_set [OF assms 2(2)] set_slot_ok slot_ok_def)
  qed
qed (simp_all add: hcc_obuf_put_def hcc_obuf_put4_def hcc_obuf_put8_def m2_obuf_put_refines [OF assms])

interpretation bootstrap: output_buffers "m2_step H" m2_ok m2_view "\<exists>n. \<not> grants H n" for H
  by unfold_locales (rule m2_step_refines)

lemma m2_view_initial: "m2_view initial_m2 = (\<lambda>_. None)"
  by (rule ext) (simp add: m2_view_def2 initial_m2_def)

section \<open>What reaches a file\<close>

text \<open>
  The laws of M2libc the writes rely on: a \<^verbatim>\<open>FILE\<close> holds what was stored in it, storing in it writes
  to no descriptor, and the system call changes no \<^verbatim>\<open>FILE\<close>.
\<close>

definition files_kept :: "('w \<Rightarrow> int \<Rightarrow> 8 word list) \<Rightarrow> 'w m2libc \<Rightarrow> bool" where
  "files_kept received L \<longleftrightarrow>
     (\<forall>f x w. m_file L f (m_set_file L f x w) = x \<and> received (m_set_file L f x w) = received w) \<and>
     (\<forall>f d bs w. m_file L f (snd (m_write L d bs w)) = m_file L f w)"

lemma checked_write_keeps:
  assumes law: "\<And>d bs w. g (snd (sys_write d bs w)) = g w"
    and run: "checked_write fputs sys_write d m data len w = Some x"
    and fputs: "\<And>msg w. g (fputs msg w) = g w"
  shows "g (fst x) = g w"
proof -
  have "fputs' = fputs \<longrightarrow> sw = sys_write \<longrightarrow> g (fst x) = g w"
    if "checked_write fputs' sw d m data len w = Some x" for fputs' sw d m data len w x
  proof (rule checked_write.raw_induct [OF _ that,
      where P = "\<lambda>fputs' sw d m data len w x. fputs' = fputs \<longrightarrow> sw = sys_write \<longrightarrow> g (fst x) = g w"])
    fix loop fputs' sw d m data len w x
    assume IH: "\<And>fputs' sw d m data len w x. loop fputs' sw d m data len w = Some x \<Longrightarrow>
          fputs' = fputs \<longrightarrow> sw = sys_write \<longrightarrow> g (fst x) = g w"
      and body: "(if 0 < len then
          (case sw d (bytes_at m data (unat len)) w of (written, w) \<Rightarrow>
           if written \<le> 0 then Some (Writes.output_failure fputs' w)
           else loop fputs' sw d m (data + written) (len - word_of_int written) w)
        else Some (w, Ran ())) = Some x"
    obtain k w1 where k: "sw d (bytes_at m data (unat len)) w = (k, w1)" by fastforce
    show "fputs' = fputs \<longrightarrow> sw = sys_write \<longrightarrow> g (fst x) = g w"
    proof (intro impI)
      assume a: "fputs' = fputs" "sw = sys_write"
      with law [of d "bytes_at m data (unat len)" w] k have g: "g w1 = g w" by simp
      from body k g a show "g (fst x) = g w"
        by (auto simp: Writes.output_failure_def fputs split: if_splits dest: IH)
    qed
  qed
  with run show ?thesis by blast
qed

lemma bytes_at_block:
  assumes "n \<le> length cs"
  shows "bytes_at (block cs) 0 n = take n cs"
  using assms by (intro nth_equalityI) (auto simp: bytes_at_def block_def)

lemma write_out_writes:
  assumes "posix_write received (m_write L)" "files_kept received L"
    and "len \<le> length data" "len < 2 ^ 64"
  shows "\<exists>w' left. left \<le> len \<and>
    (\<forall>f. m_file L f w' = m_file L f w) \<and>
    received w' = (received w)(fd (m_file L file w) :=
      received w (fd (m_file L file w)) @ take (len - left) data) \<and>
    write_out L file data len w =
      Some (if left = 0 then Done () else RuntimeBase.output_failure, w') \<and>
    (never_fails (m_write L) \<longrightarrow> left = 0)"
proof -
  let ?d = "fd (m_file L file w)"
  have "len \<le> 2 ^ 64 - 1" using assms(4) by simp
  from m2.writes_all_or_fails [OF assms(1) this, of w ?d "block data" 0 "\<lambda>_ w. w"] obtain w' left where
    *: "left \<le> len" "received w' = (received w)(?d := received w ?d @ bytes_at (block data) 0 (len - left))"
    "checked_write (\<lambda>_ w. w) (m_write L) ?d (block data) 0 (of_nat len) w =
       Some (if left = 0 then (w', Ran ()) else Writes.output_failure (\<lambda>_ w. w) w')"
    "never_fails (m_write L) \<longrightarrow> left = 0"
    by blast
  then have c: "checked_write (\<lambda>_ w. w) (m_write L) ?d (block data) 0 (of_nat len) w =
       Some (w', if left = 0 then Ran () else Exited 1)"
    by (simp add: Writes.output_failure_def)
  have "m_file L f w' = m_file L f w" for f
    using checked_write_keeps [of "m_file L f", OF _ c] assms(2) by (simp add: files_kept_def)
  with *(1,2,4) c assms(3) show ?thesis
    by (intro exI [of _ w'] exI [of _ left]) (simp add: write_out_def bytes_at_block)
qed

lemma checked_flush_writes:
  assumes "posix_write received (m_write L)" "files_kept received L"
    and "m_file L file w = f" "bufpos f \<le> length (fbuffer f)" "bufpos f < 2 ^ 64"
  shows "\<exists>w' left. left \<le> bufpos f \<and>
    received w' = (received w)(fd f := received w (fd f) @ take (bufpos f - left) (fbuffer f)) \<and>
    checked_flush L file w = Some (if left = 0 then Done () else RuntimeBase.output_failure, w') \<and>
    (left = 0 \<longrightarrow> fd (m_file L file w') = fd f \<and> bufpos (m_file L file w') = 0) \<and>
    (never_fails (m_write L) \<longrightarrow> left = 0)"
proof -
  from write_out_writes [OF assms(1,2,4,5), of w "file"] obtain w1 left where
    w1: "left \<le> bufpos f" "\<forall>f. m_file L f w1 = m_file L f w"
    "received w1 = (received w)(fd f := received w (fd f) @ take (bufpos f - left) (fbuffer f))"
    "write_out L file (fbuffer f) (bufpos f) w =
       Some (if left = 0 then Done () else RuntimeBase.output_failure, w1)"
    "never_fails (m_write L) \<longrightarrow> left = 0"
    unfolding assms(3) by blast
  let ?w = "m_set_file L file (f\<lparr>file_pos := file_pos f + bufpos f, bufpos := 0\<rparr>) w1"
  have "m_file L file ?w = f\<lparr>file_pos := file_pos f + bufpos f, bufpos := 0\<rparr>" "received ?w = received w1"
    using assms(2) by (simp_all add: files_kept_def)
  with w1 assms(3) show ?thesis
    by (intro exI [of _ "if left = 0 then ?w else w1"] exI [of _ left])
      (auto simp: checked_flush_def Let_def RuntimeBase.output_failure_def)
qed

text \<open>
  C14. A buffer that is written to a handle reaches the handle's descriptor after the bytes the \<^verbatim>\<open>FILE\<close>
  still held, and the \<^verbatim>\<open>FILE\<close> holds nothing then. If the system call fails the program ends with a
  message and status 1, after a part of those bytes in the same order; if no call fails the routine
  returns.
\<close>

theorem hcc_obuf_write_in_order:
  assumes "posix_write received (m_write L)" "files_kept received L"
    and "m2_ok s" "get_handle handle s = file" "file \<noteq> 0" "m2_view s obuf_handle = Some bs" "bs \<noteq> []"
    and "m_file L file w = f" "bufpos f \<le> length (fbuffer f)" "bufpos f < 2 ^ 64" "length bs < 2 ^ 64"
  shows "\<exists>r w' n. hcc_obuf_write L handle obuf_handle s w = Some (r, w') \<and>
    received w' =
      (received w)(fd f := received w (fd f) @ take n (take (bufpos f) (fbuffer f) @ bs)) \<and>
    (if r = Done () then n = bufpos f + length bs \<and> bufpos (m_file L file w') = 0
     else r = RuntimeBase.output_failure) \<and>
    (never_fails (m_write L) \<longrightarrow> r = Done ())"
proof -
  obtain i where i: "obuf_handle = Suc i" "i < HCC_MAX_OBUFS" "obuf_index obuf_handle s = int i"
      "bs = take (obuf_len s ! i) (obuf_data s ! i)"
    using assms(6) by (cases rule: obuf_index_cases [of obuf_handle s]) auto
  have len: "obuf_len s ! i \<le> length (obuf_data s ! i)" "obuf_len s ! i = length bs"
    using slot_okI [OF assms(3) i(2)] i(4) by (simp_all add: slot_ok_def)
  have start: "hcc_obuf_write L handle obuf_handle s w =
      loop_bind (checked_flush L file w) (\<lambda>_ w. write_out L file (obuf_data s ! i) (length bs) w)"
    using assms(4,5,7) i(3) len by (simp add: hcc_obuf_write_def Let_def)
  from checked_flush_writes [OF assms(1,2,8-10)] obtain w1 left where w1: "left \<le> bufpos f"
    "received w1 = (received w)(fd f := received w (fd f) @ take (bufpos f - left) (fbuffer f))"
    "checked_flush L file w = Some (if left = 0 then Done () else RuntimeBase.output_failure, w1)"
    "left = 0 \<Longrightarrow> fd (m_file L file w1) = fd f \<and> bufpos (m_file L file w1) = 0"
    "never_fails (m_write L) \<longrightarrow> left = 0"
    by blast
  show ?thesis
  proof (cases "left = 0")
    case False
    with w1 start have "hcc_obuf_write L handle obuf_handle s w = Some (RuntimeBase.output_failure, w1)"
      by (simp add: RuntimeBase.output_failure_def)
    then show ?thesis using w1 False assms(9)
      by (intro exI [of _ "RuntimeBase.output_failure"] exI [of _ w1] exI [of _ "bufpos f - left"])
        (simp add: RuntimeBase.output_failure_def min_def)
  next
    case True
    with w1 start have run: "hcc_obuf_write L handle obuf_handle s w =
        write_out L file (obuf_data s ! i) (length bs) w1"
      by simp
    have "length bs \<le> length (obuf_data s ! i)" using len by simp
    from write_out_writes [OF assms(1,2) this assms(11), of w1 "file"] obtain w2 rest where
      w2: "rest \<le> length bs" "\<forall>f. m_file L f w2 = m_file L f w1"
      "received w2 = (received w1)(fd (m_file L file w1) :=
        received w1 (fd (m_file L file w1)) @ take (length bs - rest) (obuf_data s ! i))"
      "write_out L file (obuf_data s ! i) (length bs) w1 =
         Some (if rest = 0 then Done () else RuntimeBase.output_failure, w2)"
      "never_fails (m_write L) \<longrightarrow> rest = 0"
      by blast
    have "take (length bs - rest) (obuf_data s ! i) = take (length bs - rest) bs"
      using i(4) len(2) by (metis diff_le_self min.absorb1 take_take)
    with w2 run w1 True assms(9) show ?thesis
      by (intro exI [of _ "if rest = 0 then Done () else RuntimeBase.output_failure"] exI [of _ w2]
          exI [of _ "bufpos f + length bs - rest"])
        (auto simp: RuntimeBase.output_failure_def take_append)
  qed
qed

text \<open>
  A world with the bytes each descriptor received and the \<^verbatim>\<open>FILE\<close>s; the system call writes two
  bytes at most. One buffer with two characters, and a file that holds one.
\<close>

definition sample_m2libc :: "((int \<Rightarrow> 8 word list) \<times> (nat \<Rightarrow> m2file)) m2libc" where
  "sample_m2libc =
     \<lparr>m_file = (\<lambda>f w. snd w f), m_set_file = (\<lambda>f x w. (fst w, (snd w)(f := x))),
      m_write = (\<lambda>d bs w. case slow_write d bs (fst w) of (n, r) \<Rightarrow> (n, (r, snd w))),
      m_fopen = (\<lambda>_ _ w. (1, w)), m_fgetc = (\<lambda>_ w. (- 1, w)), m_fputc = (\<lambda>_ _ w. w),
      m_fflush = (\<lambda>_ w. (0, w)), m_fclose = (\<lambda>_ w. (0, w)), m_close = (\<lambda>_ w. (0, w)),
      m_getcwd = (\<lambda>cs w. ((1, cs), w)), m_char = sint, m_stdout = 1, m_stderr = 2\<rparr>"

definition sample_m2 :: runtime_m2 where
  "sample_m2 = initial_m2
     \<lparr>handles := 3 # replicate 255 0, obuf_used := 1 # replicate 255 0,
      obuf_data := [65, 66, 67] # replicate 255 [], obuf_len := 2 # replicate 255 0,
      obuf_cap := 3 # replicate 255 0\<rparr>"

theorem hcc_obuf_write_in_order_witness:
  "\<exists>r w' n. hcc_obuf_write sample_m2libc 1 1 sample_m2
      (\<lambda>_. [], \<lambda>_. \<lparr>fd = 4, fbuffer = [64], bufpos = 1, file_pos = 0\<rparr>) = Some (r, w') \<and>
    fst w' = (\<lambda>_. [])(4 := take n [64, 65, 66])"
proof -
  let ?f = "\<lparr>fd = 4, fbuffer = [64], bufpos = 1, file_pos = 0\<rparr>"
  have p: "posix_write fst (m_write sample_m2libc)"
    by (simp add: posix_write_def sample_m2libc_def slow_write_def min_def)
  have k: "files_kept fst sample_m2libc"
    by (auto simp: files_kept_def sample_m2libc_def slow_write_def split: prod.split)
  have ok: "m2_ok sample_m2"
    by (auto simp: m2_ok_def sample_m2_def slot_ok_def HCC_MAX_OBUFS_def nth_Cons split: nat.split)
  have h: "get_handle 1 sample_m2 = 3"
    by (simp add: get_handle_def HCC_MAX_HANDLES_def sample_m2_def)
  have v: "m2_view sample_m2 1 = Some [65, 66]"
    by (simp add: m2_view_def2 HCC_MAX_OBUFS_def sample_m2_def numeral_2_eq_2)
  have f: "m_file sample_m2libc 3 (\<lambda>_. [], \<lambda>_. ?f) = ?f"
    by (simp add: sample_m2libc_def)
  have "\<exists>r w' n. hcc_obuf_write sample_m2libc 1 1 sample_m2 (\<lambda>_. [], \<lambda>_. ?f) = Some (r, w') \<and>
      fst w' = (fst (\<lambda>_. [], \<lambda>_. ?f))(fd ?f :=
        fst (\<lambda>_. [], \<lambda>_. ?f) (fd ?f) @ take n (take (bufpos ?f) (fbuffer ?f) @ [65, 66]))"
    using hcc_obuf_write_in_order [OF p k ok h _ v _ f] by simp blast
  then show ?thesis by simp
qed

end
