(* ===== verification/Runtimes.thy ===== *)
theory Runtimes
  imports Runtime RuntimeM2
begin

text \<open>
  The two runtimes side by side: a Haskell program linked with either sees the same output buffers, as
  long as both get the memory they ask for. They do not always ask for the same.
\<close>

text \<open>
  C13. For every sequence of operations on output buffers and any two heaps, either the hosted and the
  bootstrap runtime give the same results and their buffers hold the same bytes, although one keeps
  pointers to structures and the other four arrays of machine words, or one of them has ended the program
  because its heap refused a request. Neither accesses memory out of bounds.
\<close>

theorem runtimes_agree:
  "(\<exists>rs s s'. run_ops (obuf_step H) ps initial_runtime = Done (rs, s) \<and>
      run_ops (m2_step H') ps initial_m2 = Done (rs, s') \<and> obuf_view s = m2_view s') \<or>
   (\<exists>n m k. run_ops (obuf_step H) ps initial_runtime = Exits n m \<and> \<not> grants H k) \<or>
   (\<exists>n m k. run_ops (m2_step H') ps initial_m2 = Exits n m \<and> \<not> grants H' k)"
proof -
  note hosted = hosted.ops_refine [OF runtime_ok_initial, of H ps]
    and boot = bootstrap.ops_refine [OF m2_ok_initial, of H' ps]
  show ?thesis
    using hosted boot
    by (cases "run_ops (obuf_step H) ps initial_runtime"; cases "run_ops (m2_step H') ps initial_m2")
      (auto simp: obuf_view_initial m2_view_initial)
qed

definition small_heap :: heap where
  "small_heap = \<lparr>grants = \<lambda>n. n \<le> 4096, fresh = \<lambda>_. 0\<rparr>"

theorem runtimes_agree_witness:
  "\<exists>rs s s'. run_ops (obuf_step small_heap) [Obuf_new 0, Obuf_put 1 65] initial_runtime = Done (rs, s) \<and>
     run_ops (m2_step small_heap) [Obuf_new 0, Obuf_put 1 65] initial_m2 = Done (rs, s') \<and>
     obuf_view s = m2_view s'"
proof -
  have "case run_ops (obuf_step small_heap) [Obuf_new 0, Obuf_put 1 65] initial_runtime of
      Done x \<Rightarrow> True | _ \<Rightarrow> False"
    "case run_ops (m2_step small_heap) [Obuf_new 0, Obuf_put 1 65] initial_m2 of Done x \<Rightarrow> True | _ \<Rightarrow> False"
    by code_simp+
  with runtimes_agree [of small_heap "[Obuf_new 0, Obuf_put 1 65]" small_heap] show ?thesis by auto
qed

text \<open>
  A negative initial capacity is 64 bytes for the hosted runtime; the bootstrap runtime converts it to an
  unsigned number close to \<^verbatim>\<open>2 ^ 64\<close> and asks for that much.
\<close>

lemma negative_capacity_differs:
  "(case run_ops (obuf_step small_heap) [Obuf_new (- 3)] initial_runtime of
      Done (rs, s) \<Rightarrow> rs = [1] | _ \<Rightarrow> False) \<and>
   run_ops (m2_step small_heap) [Obuf_new (- 3)] initial_m2 = out_of_memory"
proof
  show "case run_ops (obuf_step small_heap) [Obuf_new (- 3)] initial_runtime of
      Done (rs, s) \<Rightarrow> rs = [1] | _ \<Rightarrow> False"
    by code_simp
  have "unat (word_of_int (- 3) :: 64 word) = 18446744073709551613" by simp
  moreover have "fst (alloc_obuf initial_m2) = 1" by code_simp
  ultimately show "run_ops (m2_step small_heap) [Obuf_new (- 3)] initial_m2 = out_of_memory"
    by (cases "alloc_obuf initial_m2")
      (simp add: RuntimeM2.hcc_obuf_new_def RuntimeM2.hcc_alloc_def small_heap_def Let_def)
qed

end
