(* ===== verification/ObjectScript.thy ===== *)
theory ObjectScript
  imports TextIO
begin

text \<open>
  \<^verbatim>\<open>materialize-object-script.c\<close>: reads a shell script that writes object files with \<^verbatim>\<open>cat\<close> and here
  documents, and writes the files itself. A script is a sequence of characters. The C library's files
  are a parameter, the record \<open>files\<close>; an open output is a number with 0 for the null pointer, and an
  open input is the characters still to be read. The three buffers hold C strings.
\<close>

definition LINE_CAP :: nat where "LINE_CAP = 262144"

definition PATH_CAP :: nat where "PATH_CAP = 4096"

record 'w files =
  open_input :: "string \<Rightarrow> 'w \<Rightarrow> string option \<times> 'w"
  open_output :: "string \<Rightarrow> 'w \<Rightarrow> nat \<times> 'w"
  put_output :: "string \<Rightarrow> nat \<Rightarrow> 'w \<Rightarrow> int \<times> 'w"
  close_output :: "nat \<Rightarrow> 'w \<Rightarrow> int \<times> 'w"
  close_input :: "'w \<Rightarrow> int \<times> 'w"

text \<open>The buffers, what is left of the input, and \<^verbatim>\<open>line_no\<close>.\<close>

record buffers =
  script_line :: string
  script_name :: string
  script_path :: string
  script_rest :: string
  script_line_no :: int

text \<open>A part of the program goes on, or ends it with a status and a message.\<close>

datatype 'a step = Go 'a | Stop int string

section \<open>Strings\<close>

fun str_eq :: "string \<Rightarrow> string \<Rightarrow> bool" where
  "str_eq (a # as) (b # bs) = (if a \<noteq> b then False else str_eq as bs)"
| "str_eq [] [] = True"
| "str_eq (a # as) [] = False"
| "str_eq [] (b # bs) = False"

lemma str_eq_iff [simp]: "str_eq a b \<longleftrightarrow> a = b"
  by (induction a b rule: str_eq.induct) auto

definition die_line :: "string \<Rightarrow> int \<Rightarrow> 'a step" where
  "die_line message line_no =
     Stop 1 (''materialize-object-script: line '' @ dec line_no @ '': '' @ message @ [newline])"

definition die_unexpected :: "string \<Rightarrow> string \<Rightarrow> int \<Rightarrow> 'a step" where
  "die_unexpected message str line_no =
     Stop 1 (''materialize-object-script: line '' @ dec line_no @ '': '' @ message @ '': '' @ str @
       (if str = [] \<or> last str \<noteq> newline then [newline] else []))"

definition trim_line_end :: "string \<Rightarrow> string" where
  "trim_line_end s =
     (let s = (if s \<noteq> [] \<and> last s = newline then butlast s else s) in
      if s \<noteq> [] \<and> last s = carriage_return then butlast s else s)"

definition is_eof_line :: "string \<Rightarrow> bool" where
  "is_eof_line s \<longleftrightarrow>
     str_eq s (''EOF'' @ [newline]) \<or> str_eq s (''EOF'' @ [carriage_return, newline]) \<or> str_eq s ''EOF''"

section \<open>The header of an object\<close>

text \<open>
  The loop over the name, from \<^verbatim>\<open>s + i\<close> and with \<^verbatim>\<open>name[0..j)\<close>: the result and the name.
\<close>

fun header_name :: "string \<Rightarrow> string \<Rightarrow> int \<times> string" where
  "header_name [] name = (- 1, name)"
| "header_name (c # s) name =
     (if c = CHR '' '' then
        (if length name < 4 then (- 1, name)
         else if name ! 0 = CHR ''.'' then (- 1, name)
         else if name ! (length name - 3) \<noteq> CHR ''.'' then (- 1, name)
         else if name ! (length name - 2) \<noteq> CHR ''o'' then (- 1, name)
         else if name ! (length name - 1) \<noteq> CHR ''b'' then (- 1, name)
         else (1, name))
      else if PATH_CAP - 1 \<le> length name then (- 1, name)
      else if c = CHR ''/'' then (- 1, name)
      else if c = CHR 0x5C then (- 1, name)
      else if c = newline then (- 1, name)
      else if c = carriage_return then (- 1, name)
      else if c = CHR ''.'' \<and> name \<noteq> [] \<and> last name = CHR ''.'' then (- 1, name)
      else header_name s (name @ [c]))"

text \<open>
  The result, the trimmed line and the name. The six comparisons of characters stop at the first that
  fails, which the zero at the end of a short line does.
\<close>

definition parse_header :: "string \<Rightarrow> string \<Rightarrow> int \<times> string \<times> string" where
  "parse_header s name =
     (let s = trim_line_end s in
      if s = [] then (0, s, name)
      else if take 6 s \<noteq> ''cat > '' then (- 1, s, name)
      else (case header_name (drop 6 s) [] of (r, name) \<Rightarrow> (r, s, name)))"

definition make_path :: "string \<Rightarrow> string \<Rightarrow> string step" where
  "make_path dir name =
     (if PATH_CAP \<le> length dir + length name + 2 then
        Stop 1 (''materialize-object-script: output path too long: '' @ dir @ ''/'' @ name @ [newline])
      else Go (dir @ ''/'' @ name))"

section \<open>Lines\<close>

text \<open>
  The loop over the characters of a line, with the characters in the buffer; no result means that the
  line is too long.
\<close>

fun read_chars :: "string \<Rightarrow> string \<Rightarrow> (string \<times> string) option" where
  "read_chars [] buf = Some (buf, [])"
| "read_chars (c # rest) buf =
     (if LINE_CAP - 1 \<le> length buf then None
      else if c = newline then Some (buf @ [c], rest)
      else read_chars rest (buf @ [c]))"

definition read_line :: "buffers \<Rightarrow> (bool \<times> buffers) step" where
  "read_line b =
     (case read_chars (script_rest b) [] of
        None \<Rightarrow> die_line ''input line is too long'' (script_line_no b + 1)
      | Some (buf, rest) \<Rightarrow>
          if buf = [] then Go (False, b\<lparr>script_rest := rest\<rparr>)
          else Go (True, b\<lparr>script_line := c_string buf, script_rest := rest,
                           script_line_no := script_line_no b + 1\<rparr>))"

lemma read_chars_shrinks:
  "read_chars rest buf = Some (buf', rest') \<Longrightarrow> length rest' + length buf' = length rest + length buf"
  by (induction rest buf rule: read_chars.induct) (auto split: if_splits)

lemma read_chars_shorter:
  "read_chars rest [] = Some (buf', rest') \<Longrightarrow>
   length rest' \<le> length rest \<and> (buf' \<noteq> [] \<longrightarrow> length rest' < length rest)"
  by (cases buf') (auto dest: read_chars_shrinks)

lemma read_line_shrinks:
  "read_line b = Go (True, b') \<Longrightarrow> length (script_rest b') < length (script_rest b)"
  "read_line b = Go (got, b') \<Longrightarrow> length (script_rest b') \<le> length (script_rest b)"
  by (auto simp: read_line_def die_line_def split: option.splits if_splits dest!: read_chars_shorter)

section \<open>Objects\<close>

text \<open>The lines of a payload, up to the end mark or the end of the script.\<close>

function payload_loop :: "'w files \<Rightarrow> nat \<Rightarrow> buffers \<Rightarrow> 'w \<Rightarrow> buffers step \<times> 'w" where
  "payload_loop F out b w =
     (case read_line b of
        Stop n m \<Rightarrow> (Stop n m, w)
      | Go (got, b) \<Rightarrow>
          if \<not> got then (Go b, w)
          else if is_eof_line (script_line b) then (Go b, w)
          else
            (case put_output F (script_line b) out w of (r, w) \<Rightarrow>
             if r < 0 then
               (Stop 1 (''materialize-object-script: write failed: '' @ script_path b @ [newline]),
                snd (close_input F (snd (close_output F out w))))
             else payload_loop F out b w))"
  by pat_completeness auto
termination
  by (relation "measure (\<lambda>(F, out, b, w). length (script_rest b))")
    (auto dest: read_line_shrinks(1))

declare payload_loop.simps [simp del]

lemma payload_loop_shrinks:
  "payload_loop F out b w = (Go b', w') \<Longrightarrow> length (script_rest b') \<le> length (script_rest b)"
proof (induction F out b w rule: payload_loop.induct)
  case (1 F out b w)
  show ?case
  proof (cases "read_line b")
    case (Go x)
    obtain got b1 where x: "x = (got, b1)" by (cases x)
    obtain r w1 where r: "put_output F (script_line b1) out w = (r, w1)" by fastforce
    have "length (script_rest b1) \<le> length (script_rest b)"
      using read_line_shrinks(2) Go x by blast
    moreover have "length (script_rest b') \<le> length (script_rest b1)"
      if "got" "\<not> is_eof_line (script_line b1)" "\<not> r < 0" "payload_loop F out b1 w1 = (Go b', w')"
      using 1(1) [OF Go x [symmetric] _ _ r [symmetric]] that by simp
    ultimately show ?thesis
      using 1(2) Go x r by (subst (asm) payload_loop.simps) (auto split: if_splits)
  next
    case (Stop n m)
    with 1(2) show ?thesis by (subst (asm) payload_loop.simps) simp
  qed
qed

text \<open>One object: its path, its payload, its end.\<close>

definition object_step :: "'w files \<Rightarrow> string \<Rightarrow> buffers \<Rightarrow> 'w \<Rightarrow> buffers step \<times> 'w" where
  "object_step F dir b w =
     (case make_path dir (script_name b) of
        Stop n m \<Rightarrow> (Stop n m, w)
      | Go p \<Rightarrow>
          (case open_output F p w of (out, w) \<Rightarrow>
           let b = b\<lparr>script_path := p\<rparr> in
           if out = 0 then
             (Stop 1 (''materialize-object-script: cannot open output: '' @ p @ [newline]),
              snd (close_input F w))
           else
             (case payload_loop F out b w of
                (Stop n m, w) \<Rightarrow> (Stop n m, w)
              | (Go b, w) \<Rightarrow>
                  if \<not> is_eof_line (script_line b) then
                    (die_line ''unterminated object payload'' (script_line_no b),
                     snd (close_output F out w))
                  else
                    (case close_output F out w of (r, w) \<Rightarrow>
                     if r \<noteq> 0 then
                       (Stop 1 (''materialize-object-script: close failed: '' @ p @ [newline]),
                        snd (close_input F w))
                     else (Go b, w)))))"

lemma object_step_shrinks:
  "object_step F dir b w = (Go b', w') \<Longrightarrow> length (script_rest b') \<le> length (script_rest b)"
  by (auto simp: object_step_def Let_def die_line_def split: step.splits prod.splits if_splits
      dest!: payload_loop_shrinks)

lemma object_step_shrinks_sym:
  "(Go b', w') = object_step F dir b w \<Longrightarrow> length (script_rest b') \<le> length (script_rest b)"
  by (metis object_step_shrinks)

text \<open>The outer loop of \<^verbatim>\<open>main\<close>, with \<^verbatim>\<open>wrote_any\<close>.\<close>

function script_loop :: "'w files \<Rightarrow> string \<Rightarrow> bool \<Rightarrow> buffers \<Rightarrow> 'w \<Rightarrow> bool step \<times> 'w" where
  "script_loop F dir wrote_any b w =
     (case read_line b of
        Stop n m \<Rightarrow> (Stop n m, w)
      | Go (got, b) \<Rightarrow>
          if \<not> got then (Go wrote_any, w)
          else
            (case parse_header (script_line b) (script_name b) of (header, line, name) \<Rightarrow>
             let b = b\<lparr>script_line := line, script_name := name\<rparr> in
             if header = 0 then script_loop F dir wrote_any b w
             else if header < 0 then
               (die_unexpected ''unexpected object script command'' line (script_line_no b), w)
             else
               (case object_step F dir b w of
                  (Stop n m, w) \<Rightarrow> (Stop n m, w)
                | (Go b, w) \<Rightarrow> script_loop F dir True b w)))"
  by pat_completeness auto
termination
proof (relation "measure (\<lambda>(F, dir, wrote, b, w). length (script_rest b))", goal_cases)
  case (3 F dir wrote b w x got b1 h l n b2 x1 w1)
  then show ?case
    by (auto dest!: read_line_shrinks(1) object_step_shrinks_sym)
qed (auto dest: read_line_shrinks(1))

declare script_loop.simps [simp del]

definition materialize_main :: "'w files \<Rightarrow> string list \<Rightarrow> 'w \<Rightarrow> (int \<times> string) \<times> 'w" where
  "materialize_main F argv w =
     (if length argv \<noteq> 3 then ((2, ''usage: materialize-object-script INPUT_SCRIPT OUTPUT_DIR'' @ [newline]), w)
      else
        (case open_input F (argv ! 1) w of
           (None, w) \<Rightarrow>
             ((1, ''materialize-object-script: cannot open input: '' @ argv ! 1 @ [newline]), w)
         | (Some script, w) \<Rightarrow>
             (case script_loop F (argv ! 2) False
                \<lparr>script_line = [], script_name = [], script_path = [], script_rest = script,
                 script_line_no = 0\<rparr> w of
                (Stop n m, w) \<Rightarrow> ((n, m), w)
              | (Go wrote_any, w) \<Rightarrow>
                  (case close_input F w of (r, w) \<Rightarrow>
                   if r \<noteq> 0 then
                     ((1, ''materialize-object-script: close failed: '' @ argv ! 1 @ [newline]), w)
                   else if \<not> wrote_any then
                     ((1, ''materialize-object-script: no object payloads found'' @ [newline]), w)
                   else ((0, []), w)))))"

section \<open>Where the objects go\<close>

text \<open>No two dots in a row.\<close>

fun no_dotdot :: "string \<Rightarrow> bool" where
  "no_dotdot (c # d # s) \<longleftrightarrow> \<not> (c = CHR ''.'' \<and> d = CHR ''.'') \<and> no_dotdot (d # s)"
| "no_dotdot s \<longleftrightarrow> True"

lemma no_dotdot_snoc:
  "no_dotdot (s @ [c]) \<longleftrightarrow> no_dotdot s \<and> \<not> (s \<noteq> [] \<and> last s = CHR ''.'' \<and> c = CHR ''.'')"
  by (induction s rule: no_dotdot.induct) auto

definition plain_name :: "string \<Rightarrow> bool" where
  "plain_name s \<longleftrightarrow>
     list_all (\<lambda>c. c \<notin> {CHR ''/'', CHR 0x5C, newline, carriage_return, CHR '' ''}) s \<and>
     no_dotdot s \<and> length s < PATH_CAP"

definition safe_name :: "string \<Rightarrow> bool" where
  "safe_name s \<longleftrightarrow>
     plain_name s \<and> 4 \<le> length s \<and> s ! 0 \<noteq> CHR ''.'' \<and>
     s ! (length s - 3) = CHR ''.'' \<and> s ! (length s - 2) = CHR ''o'' \<and> s ! (length s - 1) = CHR ''b''"

lemma header_name_safe:
  "plain_name name \<Longrightarrow> header_name s name = (r, name') \<Longrightarrow> r = 1 \<and> safe_name name' \<or> r = - 1"
  by (induction s name rule: header_name.induct)
    (auto simp: safe_name_def plain_name_def no_dotdot_snoc PATH_CAP_def split: if_splits)

lemma plain_name_Nil: "plain_name []"
  by (simp add: plain_name_def PATH_CAP_def)

lemma parse_header_safe:
  "parse_header s name = (r, s', name') \<Longrightarrow> r = 1 \<and> safe_name name' \<or> r = 0 \<or> r = - 1"
  by (auto simp: parse_header_def Let_def split: if_splits prod.splits
      dest!: header_name_safe [OF plain_name_Nil])

text \<open>The same files, with a note of every path that is opened for output.\<close>

definition noting :: "'w files \<Rightarrow> ('w \<times> string list) files" where
  "noting F =
     \<lparr>open_input = (\<lambda>p (w, ps). case open_input F p w of (r, w) \<Rightarrow> (r, (w, ps))),
      open_output = (\<lambda>p (w, ps). case open_output F p w of (r, w) \<Rightarrow> (r, (w, ps @ [p]))),
      put_output = (\<lambda>s f (w, ps). case put_output F s f w of (r, w) \<Rightarrow> (r, (w, ps))),
      close_output = (\<lambda>f (w, ps). case close_output F f w of (r, w) \<Rightarrow> (r, (w, ps))),
      close_input = (\<lambda>(w, ps). case close_input F w of (r, w) \<Rightarrow> (r, (w, ps)))\<rparr>"

lemma noting_keeps [simp]:
  "snd (snd (put_output (noting F) s f w)) = snd w"
  "snd (snd (close_output (noting F) f w)) = snd w"
  "snd (snd (close_input (noting F) w)) = snd w"
  "snd (snd (open_input (noting F) p w)) = snd w"
  "snd (snd (open_output (noting F) p w)) = snd w @ [p]"
  by (simp_all add: noting_def split: prod.split)

lemma noting_call:
  "put_output (noting F) s f w = (r, w') \<Longrightarrow> snd w' = snd w"
  "close_output (noting F) f w = (r, w') \<Longrightarrow> snd w' = snd w"
  "close_input (noting F) w = (r, w') \<Longrightarrow> snd w' = snd w"
  "open_input (noting F) p w = (x, w') \<Longrightarrow> snd w' = snd w"
  "open_output (noting F) p w = (n, w') \<Longrightarrow> snd w' = snd w @ [p]"
  by (metis noting_keeps snd_conv)+

lemma payload_loop_notes: "snd (snd (payload_loop (noting F) out b w)) = snd w"
proof (induction "noting F" out b w rule: payload_loop.induct)
  case (1 out b w)
  then show ?case
    by (subst payload_loop.simps) (auto split: step.split prod.split dest!: noting_call)
qed

definition lands_in :: "string \<Rightarrow> string \<Rightarrow> bool" where
  "lands_in dir p \<longleftrightarrow> length p < PATH_CAP \<and> (\<exists>name. p = dir @ ''/'' @ name \<and> safe_name name)"

lemma object_step_notes:
  assumes "safe_name (script_name b)" "list_all (lands_in dir) (snd w)"
  shows "list_all (lands_in dir) (snd (snd (object_step (noting F) dir b w)))"
proof (cases "make_path dir (script_name b)")
  case (Go p)
  then have p: "lands_in dir p"
    using assms(1) by (auto simp: make_path_def lands_in_def split: if_splits)
  obtain f w1 where f: "open_output (noting F) p w = (f, w1)"
    by (cases "open_output (noting F) p w")
  with assms(2) p have w1: "list_all (lands_in dir) (snd w1)" by (auto dest!: noting_call)
  let ?b = "b\<lparr>script_path := p\<rparr>"
  obtain x w2 where x: "payload_loop (noting F) f ?b w1 = (x, w2)"
    by (cases "payload_loop (noting F) f ?b w1")
  with w1 have "list_all (lands_in dir) (snd w2)"
    using payload_loop_notes [of F f ?b w1] by simp
  with Go f w1 x show ?thesis
    by (auto simp: object_step_def Let_def split: step.split prod.split dest!: noting_call)
qed (use assms in \<open>simp add: object_step_def\<close>)

lemma script_loop_notes:
  "list_all (lands_in dir) (snd w) \<Longrightarrow>
   list_all (lands_in dir) (snd (snd (script_loop (noting F) dir wrote b w)))"
proof (induction "noting F" dir wrote b w rule: script_loop.induct)
  case (1 dir wrote b w)
  show ?case
  proof (cases "read_line b")
    case (Go x)
    obtain got b1 where x: "x = (got, b1)" by (cases x)
    obtain r line name where h: "parse_header (script_line b1) (script_name b1) = (r, line, name)"
      by (cases "parse_header (script_line b1) (script_name b1)")
    let ?b = "b1\<lparr>script_line := line, script_name := name\<rparr>"
    obtain y w1 where y: "object_step (noting F) dir ?b w = (y, w1)"
      by (cases "object_step (noting F) dir ?b w")
    have w1: "list_all (lands_in dir) (snd w1)" if "r \<noteq> 0" "\<not> r < 0"
    proof -
      from parse_header_safe [OF h] that have "safe_name (script_name ?b)" by auto
      from object_step_notes [OF this 1(3), of F] y show ?thesis by simp
    qed
    have again: "list_all (lands_in dir) (snd (snd (script_loop (noting F) dir wrote ?b w)))"
      if "got" "r = 0"
      using 1(1) [OF Go x [symmetric] _ h [symmetric] refl refl that(2) 1(3)] that by simp
    have onward: "list_all (lands_in dir) (snd (snd (script_loop (noting F) dir True b2 w1)))"
      if "got" "r \<noteq> 0" "\<not> r < 0" "y = Go b2" for b2
      using 1(2) [OF Go x [symmetric] _ h [symmetric] refl refl that(2,3) y [symmetric] that(4)] w1 that
      by simp
    show ?thesis
      using Go x h y w1 again onward 1(3)
      by (subst script_loop.simps) (auto simp: Let_def split: step.split)
  qed (use 1(3) in \<open>subst script_loop.simps, simp\<close>)
qed

text \<open>
  C17. Whatever the script holds and the file system answers, the program opens for output only paths
  that fit the path buffer and consist of the given directory, a slash and a name without slashes,
  backslashes, line ends or two dots in a row, which does not start with a dot and ends with
  \<^verbatim>\<open>.ob\<close>.
\<close>

theorem materialize_stays_in_directory:
  "list_all (lands_in (argv ! 2)) (snd (snd (materialize_main (noting F) argv (w, []))))"
proof -
  obtain script w1 where o: "open_input (noting F) (argv ! 1) (w, []) = (script, w1)"
    by (cases "open_input (noting F) (argv ! 1) (w, [])")
  from noting_call(4) [OF o] have w1: "snd w1 = []" by simp
  let ?b = "\<lambda>s. \<lparr>script_line = [], script_name = [], script_path = [], script_rest = s, script_line_no = 0\<rparr>"
  have "list_all (lands_in (argv ! 2)) (snd (snd (script_loop (noting F) (argv ! 2) False (?b s) w1)))" for s
    by (rule script_loop_notes) (simp add: w1)
  with o w1 show ?thesis
    by (auto simp: materialize_main_def split: option.split step.split prod.split dest!: noting_call)
      (metis snd_conv)+
qed

section \<open>A script does what the shell would do\<close>

text \<open>
  An object of a script: its name, what follows the name on the header line (the here-document
  operator), the lines of its payload without their ends. Its text, and when it is well-formed: the
  name is safe and has no zero, no line has a line end or a zero in it or is too long, and no line is
  the end mark.
\<close>

type_synonym object_text = "string \<times> string \<times> string list"

definition payload :: "string list \<Rightarrow> string" where
  "payload ls = concat (map (\<lambda>l. l @ [newline]) ls)"

definition object_script :: "object_text \<Rightarrow> string" where
  "object_script = (\<lambda>(name, rest, ls).
     ''cat > '' @ name @ '' '' @ rest @ [newline] @ payload ls @ ''EOF'' @ [newline])"

definition clean_line :: "string \<Rightarrow> bool" where
  "clean_line l \<longleftrightarrow> list_all (\<lambda>c. c \<noteq> newline \<and> c \<noteq> CHR 0x00) l \<and> length l < LINE_CAP - 1"

definition object_ok :: "object_text \<Rightarrow> bool" where
  "object_ok = (\<lambda>(name, rest, ls).
     safe_name name \<and> clean_line (''cat > '' @ name @ '' '' @ rest) \<and>
     list_all (\<lambda>l. clean_line l \<and> \<not> is_eof_line (l @ [newline])) ls)"

text \<open>What is asked of the files: \<open>written\<close> is what each output that was opened holds.\<close>

fun add_last :: "string \<Rightarrow> (string \<times> string) list \<Rightarrow> (string \<times> string) list" where
  "add_last s [] = []"
| "add_last s [(p, cs)] = [(p, cs @ s)]"
| "add_last s (x # y # xs) = x # add_last s (y # xs)"

lemma add_last_snoc [simp]: "add_last s (xs @ [(p, cs)]) = xs @ [(p, cs @ s)]"
  by (induction s "xs @ [(p, cs)]" arbitrary: xs rule: add_last.induct)
    (auto simp: Cons_eq_append_conv)

definition files_work :: "'w files \<Rightarrow> ('w \<Rightarrow> (string \<times> string) list) \<Rightarrow> bool" where
  "files_work F written \<longleftrightarrow>
     (\<forall>p w. fst (open_output F p w) \<noteq> 0 \<and> written (snd (open_output F p w)) = written w @ [(p, [])]) \<and>
     (\<forall>s f w. 0 \<le> fst (put_output F s f w) \<and> written (snd (put_output F s f w)) = add_last s (written w)) \<and>
     (\<forall>f w. fst (close_output F f w) = 0 \<and> written (snd (close_output F f w)) = written w) \<and>
     (\<forall>w. fst (close_input F w) = 0 \<and> written (snd (close_input F w)) = written w)"

lemma read_chars_line:
  "newline \<notin> set l \<Longrightarrow> length buf + length l < LINE_CAP - 1 \<Longrightarrow>
   read_chars (l @ newline # rest) buf = Some (buf @ l @ [newline], rest)"
  by (induction l arbitrary: buf) auto

lemma read_line_clean:
  assumes "clean_line l" "script_rest b = l @ newline # rest"
  shows "read_line b = Go (True, b\<lparr>script_line := l @ [newline], script_rest := rest,
    script_line_no := script_line_no b + 1\<rparr>)"
proof -
  from assms(1) have "newline \<notin> set l" "length l < LINE_CAP - 1" "CHR 0x00 \<notin> set (l @ [newline])"
    by (auto simp: clean_line_def list_all_iff newline_def)
  moreover from this have "c_string (l @ [newline]) = l @ [newline]"
    unfolding c_string_def by (subst takeWhile_eq_all_conv) auto
  ultimately show ?thesis
    using read_chars_line [of l "[]" rest] assms(2) by (simp add: read_line_def)
qed

lemma clean_eof: "clean_line ''EOF''"
  by (simp add: clean_line_def LINE_CAP_def newline_def)

lemma payload_loop_writes:
  assumes "files_work F written"
  shows "script_rest b = payload ls @ ''EOF'' @ newline # rest \<Longrightarrow>
    list_all (\<lambda>l. clean_line l \<and> \<not> is_eof_line (l @ [newline])) ls \<Longrightarrow>
    written w = xs @ [(p, cs)] \<Longrightarrow>
    \<exists>b' w'. payload_loop F out b w = (Go b', w') \<and> is_eof_line (script_line b') \<and>
      script_rest b' = rest \<and> script_name b' = script_name b \<and>
      written w' = xs @ [(p, cs @ payload ls)]"
proof (induction ls arbitrary: b w cs)
  case Nil
  then have "script_rest b = ''EOF'' @ newline # rest" by (simp add: payload_def)
  from read_line_clean [OF clean_eof this] Nil show ?case
    by (subst payload_loop.simps) (simp add: is_eof_line_def payload_def)
next
  case (Cons l ls)
  from Cons.prems have b: "script_rest b = l @ newline # (payload ls @ ''EOF'' @ newline # rest)"
    and l: "clean_line l" "\<not> is_eof_line (l @ [newline])"
    by (simp_all add: payload_def)
  let ?b = "b\<lparr>script_line := l @ [newline], script_rest := payload ls @ ''EOF'' @ newline # rest,
    script_line_no := script_line_no b + 1\<rparr>"
  obtain r w1 where r: "put_output F (l @ [newline]) out w = (r, w1)" by fastforce
  have *: "0 \<le> fst (put_output F (l @ [newline]) out w)"
    "written (snd (put_output F (l @ [newline]) out w)) = add_last (l @ [newline]) (written w)"
    using assms by (simp_all add: files_work_def)
  with r Cons.prems(3) have "\<not> r < 0" "written w1 = xs @ [(p, cs @ l @ [newline])]" by simp_all
  with Cons.IH [of ?b w1 "cs @ l @ [newline]"] Cons.prems(2) obtain b' w' where
    "payload_loop F out ?b w1 = (Go b', w')" "is_eof_line (script_line b')"
    "script_rest b' = rest" "script_name b' = script_name b"
    "written w' = xs @ [(p, cs @ payload (l # ls))]"
    by (auto simp: payload_def)
  with read_line_clean [OF l(1) b] l(2) r \<open>\<not> r < 0\<close> show ?case
    by (subst payload_loop.simps) simp
qed

lemma no_dotdot_append: "no_dotdot (a @ d) \<Longrightarrow> no_dotdot a"
  by (induction d rule: rev_induct) (auto simp: no_dotdot_snoc simp flip: append_assoc)

lemma header_name_plain:
  "safe_name (pre @ suf) \<Longrightarrow> header_name (suf @ CHR '' '' # rest) pre = (1, pre @ suf)"
proof (induction suf arbitrary: pre)
  case Nil
  then show ?case by (simp add: safe_name_def)
next
  case (Cons c suf)
  from Cons.prems have "plain_name ((pre @ [c]) @ suf)" by (simp add: safe_name_def)
  then have c: "c \<notin> {CHR ''/'', CHR 0x5C, newline, carriage_return, CHR '' ''}"
    "length pre < PATH_CAP - 1" "no_dotdot ((pre @ [c]) @ suf)"
    unfolding plain_name_def by auto
  from no_dotdot_append [OF c(3)] have "\<not> (pre \<noteq> [] \<and> last pre = CHR ''.'' \<and> c = CHR ''.'')"
    by (simp add: no_dotdot_snoc)
  with c Cons show ?case by auto
qed

lemma trim_newline:
  "trim_line_end (s @ [newline]) = (if s \<noteq> [] \<and> last s = carriage_return then butlast s else s)"
  by (simp add: trim_line_end_def Let_def)

lemma parse_header_object:
  assumes "safe_name name"
  shows "\<exists>line. parse_header (''cat > '' @ name @ '' '' @ rest @ [newline]) old = (1, line, name)"
proof -
  let ?s = "''cat > '' @ name @ '' '' @ rest"
  have "\<exists>r. trim_line_end (?s @ [newline]) = ''cat > '' @ name @ '' '' @ r"
  proof (cases "rest \<noteq> [] \<and> last rest = carriage_return")
    case True
    then show ?thesis
      unfolding trim_newline by (intro exI [of _ "butlast rest"]) (simp add: butlast_append)
  next
    case False
    then show ?thesis
      unfolding trim_newline by (intro exI [of _ rest]) (auto simp: carriage_return_def)
  qed
  then obtain r where r: "trim_line_end (?s @ [newline]) = ''cat > '' @ name @ '' '' @ r" by blast
  from header_name_plain [of "[]" name r] assms have "header_name (name @ '' '' @ r) [] = (1, name)"
    by simp
  then show ?thesis using r by (simp add: parse_header_def Let_def)
qed

lemma object_step_writes:
  assumes "files_work F written" "object_ok (name, rest, ls)"
    and "script_name b = name" "script_rest b = payload ls @ ''EOF'' @ newline # more_text"
    and "length dir + length name + 2 < PATH_CAP"
  shows "\<exists>b' w'. object_step F dir b w = (Go b', w') \<and> script_rest b' = more_text \<and>
    written w' = written w @ [(dir @ ''/'' @ name, payload ls)]"
proof -
  let ?p = "dir @ ''/'' @ name"
  let ?b = "b\<lparr>script_path := ?p\<rparr>"
  obtain f w1 where f: "open_output F ?p w = (f, w1)" by fastforce
  have "fst (open_output F ?p w) \<noteq> 0" "written (snd (open_output F ?p w)) = written w @ [(?p, [])]"
    using assms(1) by (simp_all add: files_work_def)
  with f have f': "f \<noteq> 0" "written w1 = written w @ [(?p, [])]" by simp_all
  from payload_loop_writes [OF assms(1) _ _ f'(2), of ?b ls more_text f] assms(2,4)
  obtain b' w' where p: "payload_loop F f ?b w1 = (Go b', w')" "is_eof_line (script_line b')"
    "script_rest b' = more_text" "written w' = written w @ [(?p, payload ls)]"
    by (auto simp: object_ok_def)
  obtain r w2 where r: "close_output F f w' = (r, w2)" by fastforce
  have "fst (close_output F f w') = 0" "written (snd (close_output F f w')) = written w'"
    using assms(1) by (simp_all add: files_work_def)
  with r p f f' assms(3,5) show ?thesis
    by (simp add: object_step_def make_path_def Let_def)
qed

lemma script_loop_writes:
  assumes "files_work F written"
  shows "script_rest b = concat (map object_script objs) \<Longrightarrow> list_all object_ok objs \<Longrightarrow>
    list_all (\<lambda>(name, _). length dir + length name + 2 < PATH_CAP) objs \<Longrightarrow>
    \<exists>w'. script_loop F dir wrote b w = (Go (wrote \<or> objs \<noteq> []), w') \<and>
      written w' = written w @ map (\<lambda>(name, _, ls). (dir @ ''/'' @ name, payload ls)) objs"
proof (induction objs arbitrary: b w wrote)
  case Nil
  then show ?case by (subst script_loop.simps) (simp add: read_line_def)
next
  case (Cons obj objs)
  obtain name rest ls where obj: "obj = (name, rest, ls)" by (cases obj)
  let ?more = "concat (map object_script objs)"
  let ?h = "''cat > '' @ name @ '' '' @ rest"
  from Cons.prems obj have ok: "object_ok (name, rest, ls)" and len: "length dir + length name + 2 < PATH_CAP"
    by simp_all
  then have "clean_line ?h" "safe_name name" by (simp_all add: object_ok_def)
  let ?rest = "payload ls @ ''EOF'' @ newline # ?more"
  from Cons.prems(1) obj have b: "script_rest b = ?h @ newline # ?rest" by (simp add: object_script_def)
  let ?b = "b\<lparr>script_line := ?h @ [newline], script_rest := ?rest, script_line_no := script_line_no b + 1\<rparr>"
  from read_line_clean [OF \<open>clean_line ?h\<close> b] have rl: "read_line b = Go (True, ?b)" .
  from parse_header_object [OF \<open>safe_name name\<close>, of rest "script_name b"] obtain line where
    ph: "parse_header (?h @ [newline]) (script_name b) = (1, line, name)" by auto
  let ?b1 = "?b\<lparr>script_line := line, script_name := name\<rparr>"
  from object_step_writes [OF assms ok _ _ len, of ?b1 ?more w] obtain b2 w2 where
    st: "object_step F dir ?b1 w = (Go b2, w2)" "script_rest b2 = ?more"
      "written w2 = written w @ [(dir @ ''/'' @ name, payload ls)]"
    by auto
  from Cons.IH [of b2 True w2] Cons.prems(2,3) st(2) obtain w' where
    "script_loop F dir True b2 w2 = (Go True, w')"
    "written w' = written w2 @ map (\<lambda>(name, _, ls). (dir @ ''/'' @ name, payload ls)) objs"
    by auto
  with st rl ph obj show ?case
    by (subst script_loop.simps) (simp add: Let_def)
qed

text \<open>
  C16. On a script of objects, written as the shell expects them, the program returns 0 and leaves what the
  shell would leave: for each object, in order, a file of its name in the output directory with its
  payload.
\<close>

theorem materialize_writes_objects:
  assumes "files_work F written"
    and "open_input F script_file w = (Some (concat (map object_script objs)), w1)"
    and "objs \<noteq> []" "list_all object_ok objs"
    and "list_all (\<lambda>(name, _). length dir + length name + 2 < PATH_CAP) objs"
  shows "\<exists>w'. materialize_main F [prog, script_file, dir] w = ((0, []), w') \<and>
    written w' = written w1 @ map (\<lambda>(name, _, ls). (dir @ ''/'' @ name, payload ls)) objs"
proof -
  from script_loop_writes [OF assms(1) _ assms(4,5), of
      "\<lparr>script_line = [], script_name = [], script_path = [],
        script_rest = concat (map object_script objs), script_line_no = 0\<rparr>" False w1] assms(3)
  obtain w2 where
    l: "script_loop F dir False \<lparr>script_line = [], script_name = [], script_path = [],
        script_rest = concat (map object_script objs), script_line_no = 0\<rparr> w1 = (Go True, w2)"
      "written w2 = written w1 @ map (\<lambda>(name, _, ls). (dir @ ''/'' @ name, payload ls)) objs"
    by auto
  obtain r w' where r: "close_input F w2 = (r, w')" by fastforce
  have "fst (close_input F w2) = 0" "written (snd (close_input F w2)) = written w2"
    using assms(1) by (simp_all add: files_work_def)
  with l r assms(2) show ?thesis by (simp add: materialize_main_def)
qed

text \<open>Files in memory.\<close>

definition sample_files :: "(string \<times> string) list files" where
  "sample_files =
     \<lparr>open_input = (\<lambda>p w. (Some (''cat > Main.ob <<EOF'' @ [newline] @ ''abc'' @ [newline] @ ''EOF'' @ [newline]), w)),
      open_output = (\<lambda>p w. (1, w @ [(p, [])])), put_output = (\<lambda>s f w. (1, add_last s w)),
      close_output = (\<lambda>f w. (0, w)), close_input = (\<lambda>w. (0, w))\<rparr>"

theorem materialize_writes_objects_witness:
  "materialize_main sample_files [''m'', ''s'', ''out''] [] =
     ((0, []), [(''out/Main.ob'', ''abc'' @ [newline])])"
proof -
  have f: "files_work sample_files (\<lambda>w. w)" by (simp add: files_work_def sample_files_def)
  have o: "open_input sample_files ''s'' [] =
      (Some (concat (map object_script [(''Main.ob'', ''<<EOF'', [''abc''])])), [])"
    by (simp add: sample_files_def object_script_def payload_def)
  have k: "list_all object_ok [(''Main.ob'', ''<<EOF'', [''abc''])]"
    by (simp add: object_ok_def safe_name_def plain_name_def clean_line_def is_eof_line_def
        newline_def carriage_return_def PATH_CAP_def LINE_CAP_def)
  from materialize_writes_objects [OF f o _ k, of "''out''" "''m''"] show ?thesis
    by (simp add: payload_def PATH_CAP_def)
qed

end
