(* ===== verification/BumpAlloc.thy ===== *)
theory BumpAlloc
  imports CMemory
begin

text \<open>
  The allocators that take memory from the system and never give it back: \<^verbatim>\<open>xrealloc\<close> of \<^verbatim>\<open>hcc_m1.c\<close>
  as built by M2-Planet, and \<^verbatim>\<open>malloc\<close>, \<^verbatim>\<open>calloc\<close> of \<^verbatim>\<open>tcc-aarch64-runtime.c\<close> and
  \<^verbatim>\<open>tcc-riscv64-runtime.c\<close>, which are the same but for the names of the variables. The system call
  \<^verbatim>\<open>brk\<close> is a parameter. Its wrappers return what the system call returns, and Linux documents that
  this is the end of the heap after the call, which is the old end when the call fails: \<open>brk_law\<close>.
\<close>

type_synonym 'w sys_brk = "64 word \<Rightarrow> 'w \<Rightarrow> 64 word \<times> 'w"

definition brk_law :: "('w \<Rightarrow> 64 word) \<Rightarrow> 'w sys_brk \<Rightarrow> bool" where
  "brk_law hend brk \<longleftrightarrow>
     (\<forall>a w. fst (brk a w) = hend (snd (brk a w)) \<and>
        (hend (snd (brk a w)) = a \<or> hend (snd (brk a w)) = hend w)) \<and>
     (\<forall>w. uint (hend w) < 2 ^ 47)"

section \<open>\<open>xrealloc\<close>\<close>

text \<open>
  \<^verbatim>\<open>hcc_heap_cur\<close>, \<^verbatim>\<open>hcc_heap_end\<close> and the memory. A \<^verbatim>\<open>long\<close> and an address are 64 bits wide.
\<close>

record arena =
  heap_cur :: "64 word"
  heap_end :: "64 word"
  heap_bytes :: cmem

text \<open>The loop that copies the old contents up to the smaller size.\<close>

fun copy_old :: "nat \<Rightarrow> nat \<Rightarrow> int \<Rightarrow> int \<Rightarrow> cmem \<Rightarrow> cmem" where
  "copy_old i 0 old out m = m"
| "copy_old i (Suc n) old out m = copy_old (i + 1) n old out (m(out + int i := m (old + int i)))"

text \<open>A block takes a word for its size, and a multiple of 8 bytes in all.\<close>

definition block_size :: "64 word \<Rightarrow> 64 word" where
  "block_size sz = (let total = sz + 8 in ((total + 7) div 8) * 8)"

text \<open>The first call asks the system where the heap begins.\<close>

definition heap_begin :: "'w sys_brk \<Rightarrow> arena \<Rightarrow> 'w \<Rightarrow> arena \<times> 'w" where
  "heap_begin brk s w =
     (if heap_cur s = 0 then
        (case brk 0 w of (cur, w) \<Rightarrow> (s\<lparr>heap_cur := cur, heap_end := cur\<rparr>, w))
      else (s, w))"

text \<open>Room for so many bytes more, at least a mebibyte at a time.\<close>

definition heap_grow :: "'w sys_brk \<Rightarrow> 64 word \<Rightarrow> arena \<Rightarrow> 'w \<Rightarrow> arena res \<times> 'w" where
  "heap_grow brk aligned s w =
     (if heap_end s < heap_cur s + aligned then
        let new_end = heap_cur s + aligned;
            new_end = (if sint new_end < sint (heap_end s + 1048576) then heap_end s + 1048576 else new_end)
        in
        (case brk new_end w of (got, w) \<Rightarrow>
         (if sint got < sint new_end then die ''out of memory'' else Inr (s\<lparr>heap_end := got\<rparr>), w))
      else (Inr s, w))"

text \<open>The block itself: its size is stored in front of it, and the old contents are copied.\<close>

definition take_block :: "64 word \<Rightarrow> 64 word \<Rightarrow> 64 word \<Rightarrow> arena \<Rightarrow> 64 word \<times> arena" where
  "take_block ptr sz aligned s =
     (let raw = heap_cur s;
          out = raw + 8;
          s = s\<lparr>heap_cur := raw + aligned, heap_bytes := store_long (uint raw) sz (heap_bytes s)\<rparr>
      in
      (out,
       if ptr \<noteq> 0 then
         let old_size = load_long (uint (ptr - 8)) (heap_bytes s);
             copy_size = (if old_size < sz then old_size else sz)
         in s\<lparr>heap_bytes := copy_old 0 (unat copy_size) (uint ptr) (uint out) (heap_bytes s)\<rparr>
       else s))"

definition xrealloc :: "'w sys_brk \<Rightarrow> 64 word \<Rightarrow> 64 word \<Rightarrow> arena \<Rightarrow> 'w \<Rightarrow> (64 word \<times> arena) res \<times> 'w" where
  "xrealloc brk ptr sz s w =
     (let sz = (if sz = 0 then 1 else sz);
          aligned = block_size sz
      in
      case heap_begin brk s w of (s, w) \<Rightarrow>
      case heap_grow brk aligned s w of (grown, w) \<Rightarrow>
      (res_bind grown (\<lambda>s. Inr (take_block ptr sz aligned s)), w))"

section \<open>Blocks\<close>

text \<open>
  The blocks handed out so far, the newest first, as addresses and sizes: each lies below the one after
  it with its size in between, below the end of what is used, and its size is the one it was asked
  for with. What is used ends before the end of the heap.
\<close>

definition heap_ok :: "('w \<Rightarrow> 64 word) \<Rightarrow> (int \<times> nat) list \<Rightarrow> arena \<Rightarrow> 'w \<Rightarrow> bool" where
  "heap_ok hend blocks s w \<longleftrightarrow>
     (if heap_cur s = 0 then blocks = []
      else uint (heap_cur s) \<le> uint (heap_end s) \<and> uint (heap_end s) \<le> uint (hend w)) \<and>
     sorted_wrt (\<lambda>(p, n) (q, k). q + int k \<le> p - 8) blocks \<and>
     list_all (\<lambda>(p, n). 8 \<le> p \<and> p + int n \<le> uint (heap_cur s) \<and>
       load_long (p - 8) (heap_bytes s) = of_nat n \<and> n < 2 ^ 45) blocks"

lemma uint_plus_small:
  "uint (a :: 64 word) + uint b < 2 ^ 64 \<Longrightarrow> uint (a + b) = uint a + uint b"
  by (simp add: uint_word_ariths)

lemma sint_small: "uint (a :: 64 word) < 2 ^ 63 \<Longrightarrow> sint a = uint a"
  by (simp add: sint_uint_64)

lemma round_8: "x - 7 \<le> x div 8 * 8" "x div 8 * 8 \<le> (x :: int)"
  by presburger+

lemma block_size_value:
  assumes "uint sz < 2 ^ 45"
  shows "uint (block_size sz) = (uint sz + 15) div 8 * 8"
proof -
  have "uint (sz + 8 + 7) = uint sz + 15"
    using assms by (simp add: uint_word_ariths)
  then have d: "uint ((sz + 8 + 7) div 8) = (uint sz + 15) div 8"
    by (simp add: uint_div_distrib)
  have "(uint sz + 15) div 8 * 8 < 2 ^ 64"
    using assms round_8(2) [of "uint sz + 15"] by simp
  moreover have "0 \<le> (uint sz + 15) div 8 * 8"
    by (simp add: pos_imp_zdiv_nonneg_iff)
  ultimately show ?thesis
    unfolding block_size_def Let_def
    by (subst uint_word_ariths) (simp only: d, simp)
qed

lemma block_size_bounds:
  assumes "uint sz < 2 ^ 45"
  shows "uint sz + 8 \<le> uint (block_size sz)" "uint (block_size sz) < 2 ^ 46"
  unfolding block_size_value [OF assms] using assms round_8 [of "uint sz + 15"] by simp_all

lemma copy_old_apply:
  "old + int (i + n) \<le> out + int i \<Longrightarrow>
   copy_old i n old out m a =
     (if out + int i \<le> a \<and> a < out + int (i + n) then m (old + (a - out)) else m a)"
proof (induction i n old out m rule: copy_old.induct)
  case (2 i n old out m)
  define m' where "m' = m(out + int i := m (old + int i))"
  then have m': "m' x = (if x = out + int i then m (old + int i) else m x)" for x by simp
  from "2.IH" [folded m'_def] "2.prems" have "copy_old (i + 1) n old out m' a =
     (if out + int (i + 1) \<le> a \<and> a < out + int (i + 1 + n) then m' (old + (a - out)) else m' a)"
    by simp
  with "2.prems" show ?case
    unfolding copy_old.simps(2) m'_def [symmetric] by (auto simp: m')
qed auto

lemma copy_old_bytes:
  assumes "old + int n \<le> out"
  shows "bytes_at (copy_old 0 n old out m) out n = bytes_at m old n"
    and "q + int k \<le> out \<Longrightarrow> bytes_at (copy_old 0 n old out m) q k = bytes_at m q k"
  using assms by (auto intro!: bytes_at_eqI simp: copy_old_apply)

section \<open>What a call keeps\<close>

lemma brk_lawD:
  assumes "brk_law hend brk" "brk a w = (r, w')"
  shows "r = hend w'" "uint r < 2 ^ 47" "r = a \<or> r = hend w"
  using assms unfolding brk_law_def by (metis fst_conv snd_conv)+

lemma heap_begin_ok:
  assumes "brk_law hend brk" "heap_ok hend blocks s w" "heap_begin brk s w = (s', w')"
  shows "heap_ok hend blocks s' w'" "heap_bytes s' = heap_bytes s"
    "uint (heap_cur s') \<le> uint (heap_end s')" "uint (heap_end s') \<le> uint (hend w')"
proof -
  obtain r w1 where r: "brk 0 w = (r, w1)" by (cases "brk 0 w")
  note law = brk_lawD [OF assms(1) r]
  show "heap_ok hend blocks s' w'" "heap_bytes s' = heap_bytes s"
    "uint (heap_cur s') \<le> uint (heap_end s')" "uint (heap_end s') \<le> uint (hend w')"
    using assms(2,3) r law(1) by (auto simp: heap_begin_def heap_ok_def split: if_splits)
qed

lemma heap_grow_ok:
  assumes "brk_law hend brk" "uint (heap_cur s) \<le> uint (heap_end s)" "uint (heap_end s) \<le> uint (hend w)"
    and "uint aligned < 2 ^ 46" "heap_grow brk aligned s w = (Inr s', w')"
  shows "heap_cur s' = heap_cur s" "heap_bytes s' = heap_bytes s"
    "uint (heap_cur s) + uint aligned \<le> uint (heap_end s')" "uint (heap_end s') \<le> uint (hend w')"
proof -
  have hend: "uint (hend w) < 2 ^ 47" for w using assms(1) by (simp add: brk_law_def)
  with assms(2,3) have small: "uint (heap_cur s) < 2 ^ 47" "uint (heap_end s) < 2 ^ 47"
    by (meson order_le_less_trans)+
  then have sums: "uint (heap_cur s + aligned) = uint (heap_cur s) + uint aligned"
    "uint (heap_end s + 1048576) = uint (heap_end s) + 1048576"
    using assms(4) by (simp_all add: uint_plus_small)
  define new_end where "new_end =
    (if sint (heap_cur s + aligned) < sint (heap_end s + 1048576) then heap_end s + 1048576
     else heap_cur s + aligned)"
  have new_end: "uint (heap_cur s) + uint aligned \<le> uint new_end" "uint new_end < 2 ^ 63"
    using small sums assms(4) by (auto simp: new_end_def sint_small)
  obtain r w1 where r: "brk new_end w = (r, w1)" by (cases "brk new_end w")
  note law = brk_lawD(1,2) [OF assms(1) r]
  then have "sint r = uint r" "sint new_end = uint new_end"
    using new_end(2) by (simp_all add: sint_small)
  then show "heap_cur s' = heap_cur s" "heap_bytes s' = heap_bytes s"
    "uint (heap_cur s) + uint aligned \<le> uint (heap_end s')" "uint (heap_end s') \<le> uint (hend w')"
    using assms(3,5) r law new_end(1) sums(1)
    by (auto simp: heap_grow_def Let_def die_def word_less_def simp flip: new_end_def split: if_splits)
qed

lemma take_block_ok:
  assumes "heap_ok hend blocks s w0" "uint sz < 2 ^ 45" "sz \<noteq> 0"
    and "uint (heap_cur s) + uint (block_size sz) \<le> uint (heap_end s')"
    and "uint (heap_end s') \<le> uint (hend w)" "uint (hend w) < 2 ^ 47"
    and "heap_cur s' = heap_cur s" "heap_bytes s' = heap_bytes s"
    and "ptr = 0 \<or> (uint ptr, n) \<in> set blocks"
    and "take_block ptr sz (block_size sz) s' = (p, t)"
  shows "heap_ok hend ((uint p, unat sz) # blocks) t w"
    and "(q, k) \<in> set blocks \<Longrightarrow> bytes_at (heap_bytes t) q k = bytes_at (heap_bytes s) q k"
    and "ptr \<noteq> 0 \<Longrightarrow> bytes_at (heap_bytes t) (uint p) (min n (unat sz)) =
      bytes_at (heap_bytes s) (uint ptr) (min n (unat sz))"
proof -
  let ?raw = "uint (heap_cur s)"
  note bs = block_size_bounds [OF assms(2)]
  have cur: "?raw + uint (block_size sz) < 2 ^ 47" using assms(4-6) by linarith
  then have "?raw < 2 ^ 47" using bs(1) uint_nonnegative [of sz] by linarith
  then have "uint (heap_cur s + 8) = ?raw + 8" by (simp add: uint_plus_small)
  moreover have "p = heap_cur s + 8" using assms(7,10) by (auto simp: take_block_def Let_def)
  ultimately have p: "uint p = ?raw + 8" "p = heap_cur s + 8" by simp_all
  have t: "uint (heap_cur t) = ?raw + uint (block_size sz)" "heap_end t = heap_end s'"
    using assms(7,10) cur by (auto simp: take_block_def Let_def uint_plus_small)
  have old: "8 \<le> q" "q + int k \<le> ?raw" "load_long (q - 8) (heap_bytes s) = of_nat k" "k < 2 ^ 45"
    if "(q, k) \<in> set blocks" for q k
    using assms(1) that by (auto simp: heap_ok_def list_all_iff)
  let ?m = "store_long ?raw sz (heap_bytes s)"
  have below: "?m a = heap_bytes s a" if "a < ?raw" for a
    using that by (simp add: store_long_apart)
  have copied: "heap_bytes t =
      (if ptr \<noteq> 0 then copy_old 0 (min n (unat sz)) (uint ptr) (?raw + 8) ?m else ?m)"
  proof (cases "ptr = 0")
    case False
    with assms(9) old have q: "8 \<le> uint ptr" "uint ptr + int n \<le> ?raw"
      "load_long (uint ptr - 8) (heap_bytes s) = of_nat n" "n < 2 ^ 45" by blast+
    have "uint (ptr - 8) = uint ptr - 8"
      using q(1) uint_sub_lem [of 8 ptr] by simp
    moreover have "load_long (uint ptr - 8) ?m = load_long (uint ptr - 8) (heap_bytes s)"
      using q(1,2) by (intro load_long_cong below) linarith
    ultimately have "load_long (uint (ptr - 8)) ?m = of_nat n" using q(3) by simp
    moreover have "unat (if of_nat n < sz then of_nat n else sz) = min n (unat sz)"
      using q(4) by (auto simp: word_less_nat_alt unat_of_nat min_def)
    ultimately show ?thesis
      using False assms(7,8,10) p by (auto simp: take_block_def Let_def)
  qed (use assms(7,8,10) in \<open>auto simp: take_block_def Let_def\<close>)
  have reach: "uint ptr + int (min n (unat sz)) \<le> ?raw + 8" if "ptr \<noteq> 0"
    using assms(9) old [of "uint ptr" n] that by auto
  have low: "heap_bytes t a = ?m a" if "a < ?raw + 8" for a
    using reach that by (auto simp: copied copy_old_apply)
  show "(q, k) \<in> set blocks \<Longrightarrow> bytes_at (heap_bytes t) q k = bytes_at (heap_bytes s) q k"
    using old [of q k] by (intro bytes_at_eqI) (simp add: low below)
  show "ptr \<noteq> 0 \<Longrightarrow> bytes_at (heap_bytes t) (uint p) (min n (unat sz)) =
      bytes_at (heap_bytes s) (uint ptr) (min n (unat sz))"
  proof -
    assume ne: "ptr \<noteq> 0"
    then have "bytes_at (heap_bytes t) (uint p) (min n (unat sz)) = bytes_at ?m (uint ptr) (min n (unat sz))"
      using reach by (simp add: copied p(1) copy_old_bytes)
    also have "\<dots> = bytes_at (heap_bytes s) (uint ptr) (min n (unat sz))"
      using ne assms(9) old [of "uint ptr" n] by (intro bytes_at_eqI below) auto
    finally show ?thesis .
  qed
  have "load_long (uint p - 8) (heap_bytes t) = load_long ?raw ?m"
    unfolding p(1) by (simp add: low load_long_cong [of "heap_bytes t" ?raw ?m])
  then have new: "load_long (uint p - 8) (heap_bytes t) = sz" by simp
  have kept: "load_long (q - 8) (heap_bytes t) = of_nat k" if "(q, k) \<in> set blocks" for q k
  proof -
    from old [OF that] have "load_long (q - 8) (heap_bytes t) = load_long (q - 8) (heap_bytes s)"
      by (intro load_long_cong) (simp add: low below)
    with old [OF that] show ?thesis by simp
  qed
  have "unat sz < 2 ^ 45"
    using assms(2) unfolding unat_eq_nat_uint by (simp only: nat_less_numeral_power_cancel_iff)
  have pos: "0 \<le> uint sz" "0 \<le> ?raw" "0 \<le> uint (block_size sz)" by simp_all
  then have "uint (heap_cur t) \<noteq> 0" using t(1) bs(1) by linarith
  then have nz: "heap_cur t \<noteq> 0" by auto
  have ends: "uint (heap_cur t) \<le> uint (heap_end t)" "uint (heap_end t) \<le> uint (hend w)"
    using t assms(4,5) by simp_all
  have first: "uint p + int (unat sz) \<le> uint (heap_cur t)" "8 \<le> uint p"
    using t(1) p(1) bs(1) pos by simp_all
  have olds: "list_all (\<lambda>(q, k). 8 \<le> q \<and> q + int k \<le> uint (heap_cur t) \<and>
      load_long (q - 8) (heap_bytes t) = of_nat k \<and> k < 2 ^ 45) blocks"
    unfolding list_all_iff
  proof (clarify, intro conjI)
    fix q k assume qk: "(q, k) \<in> set blocks"
    note o = old [OF qk]
    show "8 \<le> q" "k < 2 ^ 45" by (rule o)+
    show "q + int k \<le> uint (heap_cur t)" unfolding t(1) using o(2) pos by linarith
    show "load_long (q - 8) (heap_bytes t) = of_nat k" by (rule kept [OF qk])
  qed
  have sorted: "sorted_wrt (\<lambda>(p, n) (q, k). q + int k \<le> p - 8) ((uint p, unat sz) # blocks)"
    using assms(1) old p(1) by (auto simp: heap_ok_def)
  show "heap_ok hend ((uint p, unat sz) # blocks) t w"
    using nz ends first olds sorted new \<open>unat sz < 2 ^ 45\<close>
    by (simp add: heap_ok_def)
qed

text \<open>
  C18. A call of \<^verbatim>\<open>xrealloc\<close> dies for lack of memory or returns a new block of the size asked for, one byte
  at least. The block lies in the heap the system granted, apart from all other blocks and the words
  that hold their sizes; no block changes; and the new block begins with what the old one held, up to
  the smaller of the two sizes.
\<close>

theorem xrealloc_keeps_blocks:
  assumes "brk_law hend brk" "heap_ok hend blocks s w" "uint sz < 2 ^ 45"
    and "ptr = 0 \<or> (uint ptr, n) \<in> set blocks"
  shows "case xrealloc brk ptr sz s w of
      (Inl e, w') \<Rightarrow> e = Die ''out of memory''
    | (Inr (p, t), w') \<Rightarrow>
        heap_ok hend ((uint p, max 1 (unat sz)) # blocks) t w' \<and>
        list_all (\<lambda>(q, k). bytes_at (heap_bytes t) q k = bytes_at (heap_bytes s) q k) blocks \<and>
        (ptr = 0 \<or> bytes_at (heap_bytes t) (uint p) (min n (max 1 (unat sz))) =
           bytes_at (heap_bytes s) (uint ptr) (min n (max 1 (unat sz))))"
proof -
  define size1 where "size1 = (if sz = 0 then 1 else sz)"
  have size1: "uint size1 < 2 ^ 45" "size1 \<noteq> 0" "unat size1 = max 1 (unat sz)"
    using assms(3) by (auto simp: size1_def max_def unat_eq_0 Suc_le_eq unat_gt_0)
  obtain s1 w1 where b: "heap_begin brk s w = (s1, w1)" by (cases "heap_begin brk s w")
  note b' = heap_begin_ok [OF assms(1,2) b]
  obtain g w2 where g: "heap_grow brk (block_size size1) s1 w1 = (g, w2)"
    by (cases "heap_grow brk (block_size size1) s1 w1")
  have x: "xrealloc brk ptr sz s w =
      (res_bind g (\<lambda>s. Inr (take_block ptr size1 (block_size size1) s)), w2)"
    using b g by (simp add: xrealloc_def Let_def size1_def)
  show ?thesis
  proof (cases g)
    case (Inl e)
    then have "e = Die ''out of memory''"
      using g by (auto simp: heap_grow_def Let_def die_def split: if_splits prod.splits)
    with Inl x show ?thesis by simp
  next
    case (Inr s2)
    obtain p t where t: "take_block ptr size1 (block_size size1) s2 = (p, t)"
      by (cases "take_block ptr size1 (block_size size1) s2")
    note g' = heap_grow_ok [OF assms(1) b'(3,4) block_size_bounds(2) [OF size1(1)] g [unfolded Inr]]
    have "uint (hend w2) < 2 ^ 47" using assms(1) by (simp add: brk_law_def)
    note t' = take_block_ok [OF b'(1) size1(1,2) g'(3,4) this g'(1,2) assms(4) t]
    with Inr x t b'(2) size1(3) show ?thesis
      by (auto simp: list_all_iff)
  qed
qed

text \<open>A system that grants everything below an address; the world is the end of the heap.\<close>

definition sample_brk :: "64 word sys_brk" where
  "sample_brk a w = (if 4096 \<le> a \<and> a \<le> 0x200000 then (a, a) else (w, w))"

definition sample_top :: "64 word \<Rightarrow> 64 word" where
  "sample_top w = (if w \<le> 0x200000 then w else 0x200000)"

lemma sample_brk_law: "brk_law sample_top (\<lambda>a w. sample_brk a (sample_top w))"
  by (auto simp: brk_law_def sample_brk_def sample_top_def word_le_def)

theorem xrealloc_keeps_blocks_witness:
  "case xrealloc (\<lambda>a w. sample_brk a (sample_top w)) 0 5 \<lparr>heap_cur = 0, heap_end = 0, heap_bytes = \<lambda>_. 7\<rparr> 4096 of
      (Inl e, w') \<Rightarrow> e = Die ''out of memory''
    | (Inr (p, t), w') \<Rightarrow> heap_ok sample_top [(uint p, 5)] t w'"
proof -
  have "heap_ok sample_top [] \<lparr>heap_cur = 0, heap_end = 0, heap_bytes = \<lambda>_. 7\<rparr> 4096"
    by (simp add: heap_ok_def)
  from xrealloc_keeps_blocks [OF sample_brk_law this, of 5 0 0] show ?thesis
    by (auto split: prod.splits sum.splits)
qed

section \<open>The allocators of the TinyCC runtimes\<close>

record tcc_heap =
  tcc_brk :: "64 word"
  tcc_malloc :: "64 word"

definition aarch64_malloc :: "'w sys_brk \<Rightarrow> 32 word \<Rightarrow> tcc_heap \<Rightarrow> 'w \<Rightarrow> (64 word \<times> tcc_heap) \<times> 'w" where
  "aarch64_malloc brk sz s w =
     (case (if tcc_brk s = 0 then
              (case brk 0 w of (b, w) \<Rightarrow> (s\<lparr>tcc_brk := b, tcc_malloc := b\<rparr>, w))
            else (s, w)) of
        (s, w) \<Rightarrow>
          let take_it = (\<lambda>s. (tcc_malloc s, s\<lparr>tcc_malloc := tcc_malloc s + ucast sz\<rparr>)) in
          if tcc_brk s < tcc_malloc s + ucast sz then
            (case brk (tcc_malloc s + ucast sz) w of (b, w) \<Rightarrow>
             let s = s\<lparr>tcc_brk := b\<rparr> in
             (if sint b < 0 then (0, s) else take_it s, w))
          else (take_it s, w))"

definition aarch64_calloc ::
    "'w sys_brk \<Rightarrow> 32 word \<Rightarrow> 32 word \<Rightarrow> tcc_heap \<Rightarrow> cmem \<Rightarrow> 'w \<Rightarrow> (64 word \<times> tcc_heap \<times> cmem) \<times> 'w" where
  "aarch64_calloc brk cnt sz s m w =
     (case aarch64_malloc brk (cnt * sz) s w of ((out, s), w) \<Rightarrow>
      ((out, s, if out \<noteq> 0 then put_bytes (replicate (unat (cnt * sz)) 0) (uint out) m else m), w))"

text \<open>The RISC-V runtime has the same code.\<close>

definition riscv64_malloc :: "'w sys_brk \<Rightarrow> 32 word \<Rightarrow> tcc_heap \<Rightarrow> 'w \<Rightarrow> (64 word \<times> tcc_heap) \<times> 'w" where
  "riscv64_malloc = aarch64_malloc"

definition riscv64_calloc ::
    "'w sys_brk \<Rightarrow> 32 word \<Rightarrow> 32 word \<Rightarrow> tcc_heap \<Rightarrow> cmem \<Rightarrow> 'w \<Rightarrow> (64 word \<times> tcc_heap \<times> cmem) \<times> 'w" where
  "riscv64_calloc = aarch64_calloc"

text \<open>A sequence of calls, with the pointers they return.\<close>

fun aarch64_mallocs ::
    "'w sys_brk \<Rightarrow> 32 word list \<Rightarrow> tcc_heap \<Rightarrow> 'w \<Rightarrow> (64 word list \<times> tcc_heap) \<times> 'w" where
  "aarch64_mallocs brk [] s w = (([], s), w)"
| "aarch64_mallocs brk (sz # szs) s w =
     (case aarch64_malloc brk sz s w of ((p, s), w) \<Rightarrow>
      case aarch64_mallocs brk szs s w of ((ps, s), w) \<Rightarrow> ((p # ps, s), w))"

definition total_size :: "32 word list \<Rightarrow> int" where
  "total_size szs = sum_list (map uint szs)"

lemma total_size_simps [simp]:
  "total_size [] = 0" "total_size (sz # szs) = uint sz + total_size szs"
  by (simp_all add: total_size_def)

lemma total_size_nonneg: "0 \<le> total_size szs"
  by (induction szs) simp_all

lemma aarch64_malloc_step:
  assumes "brk_law hend brk" "tcc_brk s = hend w" "hend w \<noteq> 0"
    and "uint (tcc_malloc s) + uint sz < 2 ^ 64"
  shows "\<exists>s' w'. aarch64_malloc brk sz s w = ((tcc_malloc s, s'), w') \<and>
    uint (tcc_malloc s') = uint (tcc_malloc s) + uint sz \<and> tcc_brk s' = hend w'"
proof -
  have "uint sz < 2 ^ 32" using uint_lt2p [of sz] by simp
  then have c: "uint (ucast sz :: 64 word) = uint sz"
    by (simp add: unsigned_ucast_eq take_bit_int_eq_self)
  with assms(4) have sum: "uint (tcc_malloc s + ucast sz) = uint (tcc_malloc s) + uint sz"
    by (subst uint_plus_small) simp_all
  obtain b w1 where b: "brk (tcc_malloc s + ucast sz) w = (b, w1)" by (cases "brk (tcc_malloc s + ucast sz) w")
  note law = brk_lawD [OF assms(1) b]
  then have "\<not> sint b < 0" by (simp add: sint_small)
  with b law(1) assms(2,3) sum show ?thesis
    by (cases "hend w < tcc_malloc s + ucast sz") (auto simp: aarch64_malloc_def Let_def)
qed

lemma aarch64_mallocs_step:
  assumes "brk_law hend brk" "\<And>w. hend w \<noteq> 0"
  shows "tcc_brk s = hend w \<Longrightarrow> uint (tcc_malloc s) + total_size szs < 2 ^ 64 \<Longrightarrow>
    \<exists>ps s' w'. aarch64_mallocs brk szs s w = ((ps, s'), w') \<and>
      map uint ps = map (\<lambda>k. uint (tcc_malloc s) + total_size (take k szs)) [0..<length szs]"
proof (induction szs arbitrary: s w)
  case (Cons sz szs)
  have "uint (tcc_malloc s) + uint sz < 2 ^ 64"
    using Cons.prems(2) total_size_nonneg [of szs] by simp
  from aarch64_malloc_step [OF assms(1) Cons.prems(1) assms(2) this] obtain s1 w1 where
    one: "aarch64_malloc brk sz s w = ((tcc_malloc s, s1), w1)"
      "uint (tcc_malloc s1) = uint (tcc_malloc s) + uint sz" "tcc_brk s1 = hend w1" by blast
  with Cons.IH [OF one(3)] Cons.prems(2) obtain ps s' w' where
    rest: "aarch64_mallocs brk szs s1 w1 = ((ps, s'), w')"
      "map uint ps = map (\<lambda>k. uint (tcc_malloc s1) + total_size (take k szs)) [0..<length szs]"
    by (auto simp: add.assoc)
  have "[0..<length (sz # szs)] = 0 # map Suc [0..<length szs]"
    by (simp add: map_Suc_upt upt_conv_Cons del: upt_Suc)
  with one rest show ?case
    by (auto simp: add.assoc)
qed simp

text \<open>The first call of a program starts by asking for the heap's end, and goes on from there.\<close>

lemma aarch64_malloc_first:
  assumes "brk_law hend brk" "\<And>w. hend w \<noteq> 0"
  obtains w1 where "hend w1 = hend w"
    "\<And>sz. aarch64_malloc brk sz \<lparr>tcc_brk = 0, tcc_malloc = 0\<rparr> w =
       aarch64_malloc brk sz \<lparr>tcc_brk = hend w, tcc_malloc = hend w\<rparr> w1"
proof -
  obtain b w1 where b: "brk 0 w = (b, w1)" by (cases "brk 0 w")
  have "b = hend w1" "b = hend w"
    using brk_lawD(1,3) [OF assms(1) b] assms(2) [of w1] by auto
  then show ?thesis
    using that [of w1] b assms(2) by (auto simp: aarch64_malloc_def)
qed

text \<open>
  C19. From the start of the program, any calls of \<^verbatim>\<open>malloc\<close> of the TinyCC runtimes return the pieces
  of memory that follow the heap's first end one after another: no call returns the null pointer,
  and no two pieces overlap, whatever the system answered in between, provided the sizes add up to
  less than \<open>2 ^ 63\<close> bytes. So the calls succeed even when the system never extends the heap, and then every
  piece begins at its end or beyond. The test for a negative result, by which the code means to
  notice, is never true, since the system call returns the old end.
\<close>

theorem aarch64_malloc_result:
  assumes "brk_law hend brk" "\<forall>w. hend w \<noteq> 0" "total_size szs < 2 ^ 63"
  shows "\<exists>ps s' w'. aarch64_mallocs brk szs \<lparr>tcc_brk = 0, tcc_malloc = 0\<rparr> w = ((ps, s'), w') \<and>
    map uint ps = map (\<lambda>k. uint (hend w) + total_size (take k szs)) [0..<length szs] \<and>
    0 \<notin> set ps \<and> (hend w' = hend w \<longrightarrow> list_all (\<lambda>p. hend w' \<le> p) ps)"
proof -
  have hend: "hend w \<noteq> 0" for w using assms(2) by blast
  obtain w1 where w1: "hend w1 = hend w"
    "\<And>sz. aarch64_malloc brk sz \<lparr>tcc_brk = 0, tcc_malloc = 0\<rparr> w =
       aarch64_malloc brk sz \<lparr>tcc_brk = hend w, tcc_malloc = hend w\<rparr> w1"
    using aarch64_malloc_first [OF assms(1) hend, of w] by blast
  let ?s = "\<lparr>tcc_brk = hend w, tcc_malloc = hend w\<rparr>"
  have bounded: "uint (hend w) < 2 ^ 47" using assms(1) by (simp add: brk_law_def)
  have "uint (hend w) + total_size szs < 2 ^ 64"
    using bounded assms(3) by simp
  with aarch64_mallocs_step [OF assms(1) hend, of ?s w1 szs] w1(1) obtain ps s' w' where
    run: "aarch64_mallocs brk szs ?s w1 = ((ps, s'), w')" and
    ps: "map uint ps = map (\<lambda>k. uint (hend w) + total_size (take k szs)) [0..<length szs]"
    by auto
  have above: "uint (hend w) \<le> uint p" if "p \<in> set ps" for p
  proof -
    from that have "uint p \<in> set (map uint ps)" by simp
    then show ?thesis unfolding ps using total_size_nonneg by auto
  qed
  have "0 < uint (hend w)" using hend [of w] by (metis uint_0_iff uint_nonnegative order_less_le)
  then have "0 \<notin> set ps" using above by fastforce
  moreover have "list_all (\<lambda>p. hend w \<le> p) ps" using above by (simp add: list_all_iff word_le_def)
  moreover have "\<exists>s' w'. aarch64_mallocs brk szs \<lparr>tcc_brk = 0, tcc_malloc = 0\<rparr> w = ((ps, s'), w')"
    if "szs = []"
    using that ps by simp
  ultimately show ?thesis
    using run ps w1(2) by (cases szs) (auto split: prod.splits)
qed

text \<open>A system that never extends the heap: the second piece begins five bytes beyond its end.\<close>

theorem aarch64_malloc_result_witness:
  "\<exists>s' w'. aarch64_mallocs (\<lambda>_ w. (4096, w)) [5, 0xffffffff] \<lparr>tcc_brk = 0, tcc_malloc = 0\<rparr> () =
    (([4096, 4101], s'), w')"
proof -
  have "brk_law (\<lambda>_. 4096) (\<lambda>_ w :: unit. (4096, w))" by (simp add: brk_law_def)
  from aarch64_malloc_result [OF this, of "[5, 0xffffffff]" "()"] obtain ps s' w' where
    run: "aarch64_mallocs (\<lambda>_ w. (4096, w)) [5, 0xffffffff] \<lparr>tcc_brk = 0, tcc_malloc = 0\<rparr> () = ((ps, s'), w')"
      "map uint ps = [4096, 4101]" by (auto simp: upt_rec)
  from run(2) have "map uint ps = map uint [4096, 4101 :: 64 word]" by simp
  then have "ps = [4096, 4101]" by (rule map_injective) (simp add: inj_def word_uint_eq_iff)
  with run(1) show ?thesis by blast
qed

text \<open>The product of \<^verbatim>\<open>calloc\<close> wraps: 65536 objects of 65536 bytes get a block of no bytes.\<close>

lemma aarch64_calloc_wraps:
  "tcc_brk s \<noteq> 0 \<Longrightarrow> tcc_malloc s \<le> tcc_brk s \<Longrightarrow>
   aarch64_calloc brk 65536 65536 s m w = ((tcc_malloc s, s, m), w)"
  by (auto simp: aarch64_calloc_def aarch64_malloc_def Let_def dest: leD)

end
