(* ===== verification/CstrPrintf.thy ===== *)
theory CstrPrintf
  imports SupportPrintf
begin

text \<open>
  \<^verbatim>\<open>tcc-final-overrides.c\<close>: the replacement for TinyCC's \<^verbatim>\<open>cstr_printf\<close>, which appends formatted text
  to a growing string. A C string is the list of its characters, and \<open>strs\<close> gives the string at an
  address. Sizes, counts and precisions are C \<^verbatim>\<open>int\<close>s and wrap. TinyCC's \<^verbatim>\<open>cstr_realloc\<close>, which makes the array larger, is a parameter with the law
  \<open>grow_law\<close>. The digits of a number are those of \<^verbatim>\<open>SupportFormat\<close>, whose loop is the same.
\<close>

section \<open>The growing string\<close>

record cstring =
  cs_size :: int
  cs_allocated :: int
  cs_data :: "8 word list"

type_synonym grow = "cstring \<Rightarrow> int \<Rightarrow> cstring"

definition hcc_cstr_need :: "grow \<Rightarrow> cstring \<Rightarrow> int \<Rightarrow> cstring" where
  "hcc_cstr_need cstr_realloc s extra =
     (let need = c_int (cs_size s + extra + 1) in
      if cs_allocated s < need then cstr_realloc s (c_int (need * 2)) else s)"

definition cs_store :: "int \<Rightarrow> int \<Rightarrow> cstring \<Rightarrow> cstring res" where
  "cs_store i ch s =
     (if 0 \<le> i \<and> i < int (length (cs_data s))
      then Inr (s\<lparr>cs_data := (cs_data s)[nat i := word_of_int ch]\<rparr>) else Inl OutOfBounds)"

definition hcc_cstr_char :: "grow \<Rightarrow> int \<Rightarrow> cstring \<Rightarrow> cstring res" where
  "hcc_cstr_char cstr_realloc ch s =
     (let s = hcc_cstr_need cstr_realloc s 1 in
      res_bind (cs_store (cs_size s) ch s) (\<lambda>s.
      let s = s\<lparr>cs_size := c_int (cs_size s + 1)\<rparr> in
      cs_store (cs_size s) 0 s))"

text \<open>The loop over a string, with the number of characters done.\<close>

fun cstr_string_loop :: "grow \<Rightarrow> int \<Rightarrow> int \<Rightarrow> 8 word list \<Rightarrow> cstring \<Rightarrow> (int \<times> cstring) res" where
  "cstr_string_loop cstr_realloc limit n [] s = Inr (n, s)"
| "cstr_string_loop cstr_realloc limit n (c # t) s =
     (if limit < 0 \<or> n < limit then
        res_bind (hcc_cstr_char cstr_realloc (sint c) s)
          (\<lambda>s. cstr_string_loop cstr_realloc limit (c_int (n + 1)) t s)
      else Inr (n, s))"

definition hcc_cstr_string ::
    "grow \<Rightarrow> (64 word \<Rightarrow> 8 word list) \<Rightarrow> 64 word \<Rightarrow> int \<Rightarrow> cstring \<Rightarrow> (int \<times> cstring) res" where
  "hcc_cstr_string cstr_realloc strs p limit s =
     cstr_string_loop cstr_realloc limit 0 (if p = 0 then ascii ''(null)'' else strs p) s"

text \<open>The digits are put from the most significant one on.\<close>

fun cstr_put_digits :: "grow \<Rightarrow> int list \<Rightarrow> int \<Rightarrow> cstring \<Rightarrow> (int \<times> cstring) res" where
  "cstr_put_digits cstr_realloc [] n s = Inr (n, s)"
| "cstr_put_digits cstr_realloc (d # ds) n s =
     res_bind (hcc_cstr_char cstr_realloc d s) (cstr_put_digits cstr_realloc ds (n + 1))"

definition hcc_cstr_unsigned :: "grow \<Rightarrow> 64 word \<Rightarrow> int \<Rightarrow> cstring \<Rightarrow> (int \<times> cstring) res" where
  "hcc_cstr_unsigned cstr_realloc v base s =
     (if v = 0 then res_bind (hcc_cstr_char cstr_realloc 48 s) (\<lambda>s. Inr (1, s))
      else
        (case digits_of v (word_of_int base) [] of
           None \<Rightarrow> Inl Diverges
         | Some ds \<Rightarrow> if 32 < length ds then Inl OutOfBounds else cstr_put_digits cstr_realloc ds 0 s))"

definition hcc_cstr_signed :: "grow \<Rightarrow> 64 word \<Rightarrow> cstring \<Rightarrow> (int \<times> cstring) res" where
  "hcc_cstr_signed cstr_realloc v s =
     (if sint v < 0 then
        res_bind (hcc_cstr_char cstr_realloc 45 s) (\<lambda>s.
        res_bind (hcc_cstr_unsigned cstr_realloc (- v) 10 s) (\<lambda>(n, s). Inr (1 + n, s)))
      else hcc_cstr_unsigned cstr_realloc v 10 s)"

section \<open>\<open>cstr_printf\<close>\<close>

definition hcc_arg :: "int \<Rightarrow> 64 word \<Rightarrow> 64 word \<Rightarrow> 64 word \<Rightarrow> 64 word \<Rightarrow> 64 word" where
  "hcc_arg i a b c d = (if i = 0 then a else if i = 1 then b else if i = 2 then c else d)"

text \<open>The precision, the next argument and the rest of the format. A width is read and dropped.\<close>

fun cstr_digits :: "int \<Rightarrow> 8 word list \<Rightarrow> int \<times> 8 word list" where
  "cstr_digits n [] = (n, [])"
| "cstr_digits n (c # f) =
     (if 48 \<le> c \<and> c \<le> 57 then cstr_digits (c_int (n * 10 + uint c - 48)) f else (n, c # f))"

definition cstr_precision :: "(int \<Rightarrow> 64 word) \<Rightarrow> 8 word list \<Rightarrow> int \<Rightarrow> int \<times> int \<times> 8 word list" where
  "cstr_precision args f arg =
     (if first f = 46 then
        if first (tl f) = 42 then (c_int (sint (args arg)), c_int (arg + 1), tl (tl f))
        else (case cstr_digits 0 (tl f) of (precision, f) \<Rightarrow> (precision, arg, f))
      else (- 1, arg, snd (cstr_digits 0 f)))"

text \<open>One conversion: how many characters, and the argument after it relative to the one in use.\<close>

definition cstr_conversion ::
    "grow \<Rightarrow> (64 word \<Rightarrow> 8 word list) \<Rightarrow> int \<Rightarrow> 8 word \<Rightarrow> 64 word \<Rightarrow> cstring \<Rightarrow> (int \<times> cstring) res" where
  "cstr_conversion cstr_realloc strs precision c v s =
     (if c = 115 then hcc_cstr_string cstr_realloc strs v precision s
      else if c = 100 \<or> c = 105 then hcc_cstr_signed cstr_realloc v s
      else if c = 117 then hcc_cstr_unsigned cstr_realloc v 10 s
      else if c = 120 \<or> c = 88 then hcc_cstr_unsigned cstr_realloc v 16 s
      else if c = 99 then res_bind (hcc_cstr_char cstr_realloc (sint v) s) (\<lambda>s. Inr (1, s))
      else if c = 37 then res_bind (hcc_cstr_char cstr_realloc 37 s) (\<lambda>s. Inr (1, s))
      else
        res_bind (hcc_cstr_char cstr_realloc 37 s) (\<lambda>s.
        res_bind (hcc_cstr_char cstr_realloc (sint c) s) (\<lambda>s. Inr (2, s))))"

lemma cstr_digits_value:
  "cstr_digits n f = (c_int_fold n (takeWhile is_decimal f), dropWhile is_decimal f)"
  by (induction n f rule: cstr_digits.induct) (simp_all add: c_int_fold_def is_decimal_def)

lemma cstr_precision_shorter: "cstr_precision args f arg = (n, arg', g) \<Longrightarrow> length g \<le> length f"
  using length_dropWhile_le [of is_decimal "tl f"] length_dropWhile_le [of is_decimal f]
  by (auto simp: cstr_precision_def cstr_digits_value split: if_splits)

lemma cstr_rest_shorter:
  assumes "(n, arg', g) = cstr_precision args f arg"
  shows "length (tl (skip 108 g)) \<le> length f"
proof -
  have "length (tl (skip 108 g)) \<le> length (skip 108 g)" by simp
  also have "\<dots> \<le> length g" by (rule length_skip)
  also have "\<dots> \<le> length f" by (rule cstr_precision_shorter [OF assms [symmetric]])
  finally show ?thesis .
qed

function cstr_printf_loop ::
    "grow \<Rightarrow> (64 word \<Rightarrow> 8 word list) \<Rightarrow> (int \<Rightarrow> 64 word) \<Rightarrow> 8 word list \<Rightarrow> int \<Rightarrow> int \<Rightarrow> cstring \<Rightarrow>
     (int \<times> cstring) res" where
  "cstr_printf_loop cstr_realloc strs args [] cnt arg s = Inr (cnt, s)"
| "cstr_printf_loop cstr_realloc strs args (ch # f) cnt arg s =
     (if ch \<noteq> 37 then
        res_bind (hcc_cstr_char cstr_realloc (sint ch) s)
          (\<lambda>s. cstr_printf_loop cstr_realloc strs args f (c_int (cnt + 1)) arg s)
      else
        (case cstr_precision args f arg of (precision, arg, f) \<Rightarrow>
         let f = skip 108 f; c = first f in
         res_bind (cstr_conversion cstr_realloc strs precision c (args arg) s) (\<lambda>(n, s).
         cstr_printf_loop cstr_realloc strs args (tl f) (c_int (cnt + n))
           (if c = 37 then arg else c_int (arg + 1)) s)))"
  by pat_completeness auto
termination
  by (relation "measure (\<lambda>(_, _, _, f, _). length f)")
    (auto simp: less_Suc_eq_le simp del: length_tl dest!: cstr_rest_shorter)

definition cstr_printf ::
    "grow \<Rightarrow> (64 word \<Rightarrow> 8 word list) \<Rightarrow> 8 word list \<Rightarrow> 64 word \<Rightarrow> 64 word \<Rightarrow> 64 word \<Rightarrow> 64 word \<Rightarrow>
     cstring \<Rightarrow> (int \<times> cstring) res" where
  "cstr_printf cstr_realloc strs fmt a b c d s =
     cstr_printf_loop cstr_realloc strs (\<lambda>i. hcc_arg i a b c d) fmt 0 0 s"

section \<open>What the format stands for\<close>

definition cstr_spec_conversion ::
    "(64 word \<Rightarrow> 8 word list) \<Rightarrow> int \<Rightarrow> 8 word \<Rightarrow> 64 word \<Rightarrow> 8 word list" where
  "cstr_spec_conversion strs precision c v =
     (if c = 115 then limited precision (if v = 0 then ascii ''(null)'' else strs v)
      else if c = 100 \<or> c = 105 then signed_text v
      else if c = 117 then numeral_text 10 (unat v)
      else if c = 120 \<or> c = 88 then numeral_text 16 (unat v)
      else if c = 99 then [ucast v]
      else if c = 37 then [37]
      else [37, c])"

text \<open>
  After the percent sign comes a precision, which a star takes from an argument, or a width, which
  counts for nothing; both are optional. A format that ends before the letter of its conversion
  stands for nothing.
\<close>

definition span_point :: "8 word list \<Rightarrow> 8 word list option" where
  "span_point f = (if take 1 f = [46] then Some (drop 1 f) else None)"

definition cstr_spec_precision ::
    "(int \<Rightarrow> 64 word) \<Rightarrow> 8 word list \<Rightarrow> int \<Rightarrow> int \<times> int \<times> 8 word list" where
  "cstr_spec_precision args f arg =
     (case span_point f of
        None \<Rightarrow> (- 1, arg, dropWhile is_decimal f)
      | Some g \<Rightarrow>
          if take 1 g = [42] then (sint (ucast (args arg) :: 32 word), c_int (arg + 1), drop 1 g)
          else (spec_number g, arg, dropWhile is_decimal g))"

definition cstr_spec_directive ::
    "(64 word \<Rightarrow> 8 word list) \<Rightarrow> (int \<Rightarrow> 64 word) \<Rightarrow> 8 word list \<Rightarrow> int \<Rightarrow>
     (8 word list \<times> int \<times> 8 word list) option" where
  "cstr_spec_directive strs args f arg =
     (case cstr_spec_precision args f arg of (precision, arg, g) \<Rightarrow>
      case skip 108 g of
        [] \<Rightarrow> None
      | c # h \<Rightarrow>
          Some (cstr_spec_conversion strs precision c (args arg),
            if c = 37 then arg else c_int (arg + 1), h))"

text \<open>The array holds a text, and has room for it; after a character was put, a zero ends it.\<close>

definition cstr_holds :: "cstring \<Rightarrow> 8 word list \<Rightarrow> bool" where
  "cstr_holds s t \<longleftrightarrow>
     cs_size s = int (length t) \<and> cs_allocated s = int (length (cs_data s)) \<and>
     take (length t) (cs_data s) = t"

definition cstr_ended :: "cstring \<Rightarrow> bool" where
  "cstr_ended s \<longleftrightarrow> nat (cs_size s) < length (cs_data s) \<and> cs_data s ! nat (cs_size s) = 0"

text \<open>
  The law of \<^verbatim>\<open>cstr_realloc\<close>: for a size up to a gibibyte the array gets at least that size and keeps
  its text. (TinyCC's own doubles an \<^verbatim>\<open>int\<close> until it is large enough.)
\<close>

definition grow_law :: "grow \<Rightarrow> bool" where
  "grow_law cstr_realloc \<longleftrightarrow>
     (\<forall>s n t. cstr_holds s t \<longrightarrow> 0 < n \<longrightarrow> n \<le> 2 ^ 30 \<longrightarrow>
        cstr_holds (cstr_realloc s n) t \<and> n \<le> cs_allocated (cstr_realloc s n))"

lemma need_holds:
  assumes "grow_law cstr_realloc" "cstr_holds s t" "Suc (length t) < 2 ^ 29"
  shows "cstr_holds (hcc_cstr_need cstr_realloc s 1) t"
    "cs_size s + 2 \<le> cs_allocated (hcc_cstr_need cstr_realloc s 1)"
proof -
  define n where "n = (cs_size s + 2) * 2"
  have n: "0 < n" "cs_size s + 2 \<le> n" "n \<le> 2 ^ 30"
    using assms(2,3) by (simp_all add: cstr_holds_def n_def)
  with assms have grown: "cstr_holds (cstr_realloc s n) t" "n \<le> cs_allocated (cstr_realloc s n)"
    by (simp_all add: grow_law_def)
  have "c_int (cs_size s + 1 + 1) = cs_size s + 2" "c_int n = n"
    using assms(2) n by (simp_all add: cstr_holds_def c_int_small n_def)
  then have need: "hcc_cstr_need cstr_realloc s 1 =
      (if cs_allocated s < cs_size s + 2 then cstr_realloc s n else s)"
    by (simp add: hcc_cstr_need_def n_def)
  show "cstr_holds (hcc_cstr_need cstr_realloc s 1) t"
    using need grown(1) assms(2) by presburger
  show "cs_size s + 2 \<le> cs_allocated (hcc_cstr_need cstr_realloc s 1)"
    using need grown(2) n(2) by (simp split: if_splits)
qed

lemma char_holds:
  assumes "grow_law cstr_realloc" "cstr_holds s t" "Suc (length t) < 2 ^ 29"
  shows "\<exists>s'. hcc_cstr_char cstr_realloc ch s = Inr s' \<and> cstr_holds s' (t @ [word_of_int ch]) \<and> cstr_ended s'"
proof -
  define s1 where "s1 = hcc_cstr_need cstr_realloc s 1"
  from need_holds [OF assms] assms(2) have s1: "cs_size s1 = int (length t)"
    "cs_allocated s1 = int (length (cs_data s1))" "take (length t) (cs_data s1) = t"
    "length t + 2 \<le> length (cs_data s1)"
    by (auto simp: s1_def cstr_holds_def)
  let ?data = "(cs_data s1)[length t := word_of_int ch, Suc (length t) := 0]"
  have "take (Suc (length t)) ?data = take (length t) ?data @ [?data ! length t]"
    using s1(4) by (intro take_Suc_conv_app_nth) simp
  also have "\<dots> = t @ [word_of_int ch]"
    using s1(3,4) by simp
  finally show ?thesis
    using s1 assms(3)
    by (auto simp: hcc_cstr_char_def Let_def s1_def [symmetric] cs_store_def cstr_holds_def
        cstr_ended_def nat_add_distrib c_int_small)
qed

text \<open>
  A piece of code appends a text and returns its length, as long as the whole text is shorter than
  512 MiB; an empty text changes nothing.
\<close>

definition appends :: "8 word list \<Rightarrow> (cstring \<Rightarrow> (int \<times> cstring) res) \<Rightarrow> bool" where
  "appends u act \<longleftrightarrow>
     (\<forall>s t. cstr_holds s t \<longrightarrow> length t + length u < 2 ^ 29 \<longrightarrow>
        (\<exists>s'. act s = Inr (int (length u), s') \<and> cstr_holds s' (t @ u) \<and> (if u = [] then s' = s else cstr_ended s')))"

lemma appendsD:
  "appends u act \<Longrightarrow> cstr_holds s t \<Longrightarrow> length t + length u < 2 ^ 29 \<Longrightarrow>
   \<exists>s'. act s = Inr (int (length u), s') \<and> cstr_holds s' (t @ u) \<and> (if u = [] then s' = s else cstr_ended s')"
  by (simp add: appends_def)

lemma appends_char:
  assumes "grow_law g"
  shows "appends [word_of_int ch] (\<lambda>s. res_bind (hcc_cstr_char g ch s) (\<lambda>s. Inr (1, s)))"
  unfolding appends_def
proof (intro allI impI)
  fix s t assume "cstr_holds s t" "length t + length [word_of_int ch :: 8 word] < 2 ^ 29"
  then show "\<exists>s'. res_bind (hcc_cstr_char g ch s) (\<lambda>s. Inr (1, s)) = Inr (int (length [word_of_int ch :: 8 word]), s') \<and>
      cstr_holds s' (t @ [word_of_int ch]) \<and> (if [word_of_int ch :: 8 word] = [] then s' = s else cstr_ended s')"
    using char_holds [OF assms, of s t ch] by auto
qed

lemma string_loop_appends:
  assumes "grow_law g"
  shows "limit < 0 \<or> n \<le> limit \<Longrightarrow> cstr_holds s t \<Longrightarrow>
    u' = (if limit < 0 then u else take (nat (limit - n)) u) \<Longrightarrow>
    length t + length u' < 2 ^ 29 \<Longrightarrow> 0 \<le> n \<Longrightarrow> n \<le> int (length t) \<Longrightarrow>
    \<exists>s'. cstr_string_loop g limit n u s = Inr (n + int (length u'), s') \<and> cstr_holds s' (t @ u') \<and>
      (if u' = [] then s' = s else cstr_ended s')"
proof (induction u arbitrary: n s t u')
  case (Cons c u)
  show ?case
  proof (cases "limit < 0 \<or> n < limit")
    case True
    define u1 where "u1 = (if limit < 0 then u else take (nat (limit - (n + 1))) u)"
    have u': "u' = c # u1"
    proof (cases "limit < 0")
      case False
      with True have "nat (limit - n) = Suc (nat (limit - (n + 1)))" by simp
      with False Cons.prems(3) show ?thesis by (simp only: u1_def if_False take_Suc_Cons)
    qed (use Cons.prems(3) in \<open>simp add: u1_def\<close>)
    then have small: "Suc (length t) < 2 ^ 29" "length (t @ [c]) + length u1 < 2 ^ 29"
      using Cons.prems(4) by simp_all
    have n: "c_int (n + 1) = n + 1" using small(1) Cons.prems(5,6) by (intro c_int_small) simp_all
    from char_holds [OF assms Cons.prems(2) small(1), of "sint c"] obtain s1 where
      s1: "hcc_cstr_char g (sint c) s = Inr s1" "cstr_holds s1 (t @ [c])" "cstr_ended s1" by auto
    from Cons.IH [OF _ s1(2) u1_def small(2)] True Cons.prems(5,6) obtain s' where
      "cstr_string_loop g limit (n + 1) u s1 = Inr (n + 1 + int (length u1), s')"
      "cstr_holds s' (t @ c # u1)" "if u1 = [] then s' = s1 else cstr_ended s'" by auto
    with True s1(1,3) u' n show ?thesis by (auto split: if_splits)
  qed (use Cons.prems in auto)
qed simp

lemma appends_string:
  "grow_law g \<Longrightarrow>
   appends (limited limit (if p = 0 then ascii ''(null)'' else strs p)) (hcc_cstr_string g strs p limit)"
  unfolding appends_def hcc_cstr_string_def limited_def
  using string_loop_appends [of g limit 0] by (cases "limit < 0") auto

lemma put_digits_holds:
  assumes "grow_law g"
  shows "cstr_holds s t \<Longrightarrow> length t + length ds < 2 ^ 29 \<Longrightarrow>
    \<exists>s'. cstr_put_digits g ds n s = Inr (n + int (length ds), s') \<and>
      cstr_holds s' (t @ map word_of_int ds) \<and> (if ds = [] then s' = s else cstr_ended s')"
proof (induction ds arbitrary: n s t)
  case (Cons d ds)
  from char_holds [OF assms Cons.prems(1), of d] Cons.prems(2) obtain s1 where
    s1: "hcc_cstr_char g d s = Inr s1" "cstr_holds s1 (t @ [word_of_int d])" "cstr_ended s1" by auto
  from Cons.IH [OF s1(2), of "n + 1"] Cons.prems(2) s1(1,3) show ?case by (auto split: if_splits)
qed simp

lemma appends_unsigned:
  assumes "grow_law g" "b = 10 \<or> b = 16"
  shows "appends (numeral_text b (unat v)) (\<lambda>s. hcc_cstr_unsigned g v (int b) s)"
proof (cases "v = 0")
  case True
  then have "numeral_text b (unat v) = [48]"
    using assms(2) by (subst numeral_text.simps) (auto simp: digit_byte_def)
  with True appends_char [OF assms(1), of 48] show ?thesis
    by (simp add: hcc_cstr_unsigned_def)
next
  case False
  have b: "1 < b" "b < 37" using assms(2) by auto
  from digits_of_numeral [OF b False, of "[]"] obtain ds where
    ds: "digits_of v (word_of_int (int b)) [] = Some ds" "map word_of_int ds = numeral_text b (unat v)"
    by auto
  then have len: "length ds = length (numeral_text b (unat v))" by (metis length_map)
  moreover have "length (numeral_text b (unat v)) \<le> 20" using digits_fit [OF assms(2)] .
  moreover have "numeral_text b (unat v) \<noteq> []" by (subst numeral_text.simps) simp
  ultimately have "ds \<noteq> []" "length ds \<le> 32" "numeral_text b (unat v) \<noteq> []" by auto
  then show ?thesis
    using False ds(1) len put_digits_holds [OF assms(1), of _ _ ds 0]
    by (fastforce simp: appends_def hcc_cstr_unsigned_def ds(2))
qed

lemma appends_signed:
  assumes "grow_law g"
  shows "appends (signed_text v) (hcc_cstr_signed g v)"
proof (cases "sint v < 0")
  case True
  show ?thesis
    unfolding appends_def
  proof (intro allI impI)
    fix s t assume st: "cstr_holds s t" "length t + length (signed_text v) < 2 ^ 29"
    then have small: "Suc (length t) < 2 ^ 29"
      "length (t @ [45]) + length (numeral_text 10 (unat (- v))) < 2 ^ 29"
      using True by (simp_all add: signed_text_def)
    from char_holds [OF assms st(1) small(1), of 45] obtain s1 where
      s1: "hcc_cstr_char g 45 s = Inr s1" "cstr_holds s1 (t @ [45])" "cstr_ended s1" by auto
    from appendsD [OF appends_unsigned [OF assms, of 10 "- v"] s1(2) small(2)] s1 True
    show "\<exists>s'. hcc_cstr_signed g v s = Inr (int (length (signed_text v)), s') \<and>
        cstr_holds s' (t @ signed_text v) \<and> (if signed_text v = [] then s' = s else cstr_ended s')"
      by (auto simp: hcc_cstr_signed_def signed_text_def split: if_splits)
  qed
next
  case False
  with appends_unsigned [OF assms, of 10 v] show ?thesis
    by (simp add: appends_def hcc_cstr_signed_def signed_text_def)
qed

lemma appends_conversion:
  assumes "grow_law g"
  shows "appends (cstr_spec_conversion strs precision c v) (cstr_conversion g strs precision c v)"
proof -
  have "word_of_int (sint v) = (ucast v :: 8 word)"
    by (rule bit_word_eqI) (simp add: bit_signed_iff bit_ucast_iff)
  then have ch: "appends [ucast v] (\<lambda>s. res_bind (hcc_cstr_char g (sint v) s) (\<lambda>s. Inr (1, s)))"
    using appends_char [OF assms, of "sint v"] by simp
  have two: "appends [37, c] (\<lambda>s. res_bind (hcc_cstr_char g 37 s) (\<lambda>s.
      res_bind (hcc_cstr_char g (sint c) s) (\<lambda>s. Inr (2, s))))"
    unfolding appends_def
  proof (intro allI impI)
    fix s t assume st: "cstr_holds s t" "length t + length [37, c] < 2 ^ 29"
    from char_holds [OF assms st(1), of 37] st(2) obtain s1 where
      s1: "hcc_cstr_char g 37 s = Inr s1" "cstr_holds s1 (t @ [37])" by auto
    from char_holds [OF assms s1(2), of "sint c"] s1(1) st(2)
    show "\<exists>s'. res_bind (hcc_cstr_char g 37 s) (\<lambda>s. res_bind (hcc_cstr_char g (sint c) s) (\<lambda>s. Inr (2, s))) =
        Inr (int (length [37, c]), s') \<and> cstr_holds s' (t @ [37, c]) \<and>
        (if [37, c] = [] then s' = s else cstr_ended s')"
      by auto
  qed
  show ?thesis
    using appends_string [OF assms] appends_signed [OF assms] appends_unsigned [OF assms, of 10]
      appends_unsigned [OF assms, of 16] appends_char [OF assms, of 37] ch two
    by (auto simp: cstr_spec_conversion_def cstr_conversion_def [abs_def])
qed

section \<open>Correctness\<close>

text \<open>The code reads a precision as the format means it, and finds the letter of a conversion.\<close>

lemma cstr_precision_spec: "cstr_precision args f arg = cstr_spec_precision args f arg"
proof -
  have star: "c_int (sint v) = sint (ucast v :: 32 word)" for v :: "64 word"
    unfolding c_int_def by (rule bit_eqI) (auto simp: bit_simps min_def)
  have "cstr_digits 0 g = (spec_number g, dropWhile is_decimal g)" for g
    using c_int_fold_value [of 0 "takeWhile is_decimal g"]
    by (simp add: cstr_digits_value spec_number_def decimal_value_def)
  with star show ?thesis
    by (cases f; cases "tl f")
      (auto simp: cstr_precision_def cstr_spec_precision_def span_point_def first_def simp del: cstr_digits.simps)
qed

lemma cstr_spec_directiveD:
  assumes "cstr_spec_directive strs args f arg = Some (u, arg2, h)"
  obtains precision arg1 g c where "cstr_precision args f arg = (precision, arg1, g)"
    "c = first (skip 108 g)" "h = tl (skip 108 g)"
    "u = cstr_spec_conversion strs precision c (args arg1)" "arg2 = (if c = 37 then arg1 else c_int (arg1 + 1))"
  using assms
  by (auto simp: cstr_spec_directive_def cstr_precision_spec [symmetric] first_def split: prod.splits list.splits)

lemma cstr_printf_loop_appends:
  "grow_law g \<Longrightarrow> cstr_holds s t0 \<Longrightarrow> format_spec (cstr_spec_directive strs args) f arg = Some t \<Longrightarrow>
   length t0 + length t < 2 ^ 29 \<Longrightarrow> 0 \<le> cnt \<Longrightarrow> cnt \<le> int (length t0) \<Longrightarrow>
    \<exists>s'. cstr_printf_loop g strs args f cnt arg s = Inr (cnt + int (length t), s') \<and>
      cstr_holds s' (t0 @ t) \<and> (if t = [] then s' = s else cstr_ended s')"
proof (induction g strs args f cnt arg s arbitrary: t0 t rule: cstr_printf_loop.induct)
  case (2 g strs args ch f cnt arg s)
  have cnt: "c_int (cnt + int k) = cnt + int k" if "length t0 + k < 2 ^ 29" for k
    using that "2.prems"(5,6) by (intro c_int_small) simp_all
  show ?case
  proof (cases "ch = 37")
    case False
    with "2.prems"(3) obtain t1 where t: "format_spec (cstr_spec_directive strs args) f arg = Some t1" "t = ch # t1"
      by (auto simp: format_spec_simps bind_eq_Some_conv)
    have small: "Suc (length t0) < 2 ^ 29" "length (t0 @ [ch]) + length t1 < 2 ^ 29"
      using "2.prems"(4) t(2) by simp_all
    from char_holds [OF "2.prems"(1,2) small(1), of "sint ch"] obtain s1 where
      s1: "hcc_cstr_char g (sint ch) s = Inr s1" "cstr_holds s1 (t0 @ [ch])" "cstr_ended s1" by auto
    have one: "c_int (cnt + 1) = cnt + 1" using cnt [of 1] small(1) by simp
    from "2.IH"(1) [OF False s1(1) "2.prems"(1) s1(2) t(1) small(2)] one "2.prems"(5,6) obtain s2 where
      "cstr_printf_loop g strs args f (cnt + 1) arg s1 = Inr (cnt + 1 + int (length t1), s2)"
      "cstr_holds s2 (t0 @ ch # t1)" "if t1 = [] then s2 = s1 else cstr_ended s2" by auto
    with False s1(1,3) t(2) one show ?thesis by (auto split: if_splits)
  next
    case True
    with "2.prems"(3) obtain u arg2 h t1 where
      spec: "cstr_spec_directive strs args f arg = Some (u, arg2, h)" and
      t: "format_spec (cstr_spec_directive strs args) h arg2 = Some t1" "t = u @ t1"
      by (auto simp: format_spec_simps bind_eq_Some_conv)
    from spec obtain precision arg1 f1 c where dir: "cstr_precision args f arg = (precision, arg1, f1)"
      and c: "c = first (skip 108 f1)" and h: "h = tl (skip 108 f1)"
      and u: "u = cstr_spec_conversion strs precision c (args arg1)"
      and arg2: "arg2 = (if c = 37 then arg1 else c_int (arg1 + 1))"
      by (rule cstr_spec_directiveD)
    have small: "length t0 + length u < 2 ^ 29" "length (t0 @ u) + length t1 < 2 ^ 29"
      using "2.prems"(4) t(2) by simp_all
    from appendsD [OF appends_conversion [OF "2.prems"(1)] "2.prems"(2), of strs precision c "args arg1"] small(1)
    obtain s1 where s1: "cstr_conversion g strs precision c (args arg1) s = Inr (int (length u), s1)"
      "cstr_holds s1 (t0 @ u)" "if u = [] then s1 = s else cstr_ended s1"
      by (auto simp: u)
    note step = cnt [OF small(1)]
    from "2.IH"(2) [OF _ dir [symmetric] refl refl c s1(1) refl "2.prems"(1) s1(2), of t1] True t(1) small(2)
      step "2.prems"(5,6) obtain s2 where
      rest: "cstr_printf_loop g strs args h (cnt + int (length u)) arg2 s1 =
         Inr (cnt + int (length u) + int (length t1), s2)"
      "cstr_holds s2 (t0 @ u @ t1)" "if t1 = [] then s2 = s1 else cstr_ended s2"
      by (auto simp: arg2 h)
    from rest(1) s1(1) True have "cstr_printf_loop g strs args (ch # f) cnt arg s = Inr (cnt + int (length t), s2)"
      by (simp add: dir Let_def c [symmetric] h [symmetric] arg2 [symmetric] t(2) step)
    moreover from rest(3) s1(3) have "if t = [] then s2 = s else cstr_ended s2"
      by (auto simp: t(2) split: if_splits)
    ultimately show ?thesis using rest(2) t(2) by auto
  qed
qed (simp_all add: format_spec_simps)

text \<open>
  C20. For every format whose last conversion is complete, \<^verbatim>\<open>cstr_printf\<close> appends the text the format
  stands for to the string and returns its length, whatever \<^verbatim>\<open>cstr_realloc\<close> does beyond its law,
  provided the string stays below 512 MiB. When the text is not empty a zero follows the string; an
  empty text leaves the string as it is, and then no zero is stored.
\<close>

theorem cstr_printf_appends:
  assumes "grow_law cstr_realloc" "cstr_holds s t0"
    and "format_spec (cstr_spec_directive strs (\<lambda>i. hcc_arg i a b c d)) fmt 0 = Some t"
    and "length t0 + length t < 2 ^ 29"
  shows "\<exists>s'. cstr_printf cstr_realloc strs fmt a b c d s = Inr (int (length t), s') \<and>
    cstr_holds s' (t0 @ t) \<and> (if t = [] then s' = s else cstr_ended s')"
  using cstr_printf_loop_appends [OF assms, of 0] by (simp add: cstr_printf_def)

text \<open>An array that doubles, as TinyCC's does, keeps the law.\<close>

definition sample_realloc :: grow where
  "sample_realloc s n =
     (let m = max n (2 * cs_allocated s) in
      s\<lparr>cs_data := cs_data s @ replicate (nat (m - cs_allocated s)) 0, cs_allocated := m\<rparr>)"

lemma sample_realloc_law: "grow_law sample_realloc"
  unfolding grow_law_def
proof (intro allI impI)
  fix s :: cstring and n :: int and t
  assume holds: "cstr_holds s t" and "0 < n"
  then have "min (length t) (length (cs_data s)) = length t"
    by (metis cstr_holds_def length_take min.commute)
  with holds show "cstr_holds (sample_realloc s n) t \<and> n \<le> cs_allocated (sample_realloc s n)"
    by (auto simp: cstr_holds_def sample_realloc_def Let_def)
qed

theorem cstr_printf_appends_witness:
  "\<exists>s'. cstr_printf sample_realloc (\<lambda>_. ascii ''abc'') (ascii ''%.4294967298s=%ld'') 1 (- 7) 0 0
       \<lparr>cs_size = 0, cs_allocated = 0, cs_data = []\<rparr> = Inr (5, s') \<and>
     cstr_holds s' (ascii ''ab=-7'') \<and> cstr_ended s'"
proof -
  have holds: "cstr_holds \<lparr>cs_size = 0, cs_allocated = 0, cs_data = []\<rparr> []" by (simp add: cstr_holds_def)
  have wraps: "c_int 4294967298 = 2"
    using c_int_cong [of 4294967298 2] by (simp add: c_int_small)
  have "format_spec (cstr_spec_directive (\<lambda>_. ascii ''abc'') (\<lambda>i. hcc_arg i 1 (- 7) 0 0))
      (ascii ''%.4294967298s=%ld'') 0 = Some (ascii ''ab=-7'')"
    by (simp add: format_spec_simps cstr_spec_directive_def cstr_spec_precision_def span_point_def
        cstr_spec_conversion_def skip_def spec_number_def decimal_value_def is_decimal_def limited_def
        signed_text_def numeral_text.simps digit_byte_def hcc_arg_def ascii_def wraps c_int_small)
  from cstr_printf_appends [OF sample_realloc_law holds this] show ?thesis
    by (simp add: ascii_def)
qed

text \<open>
  A percent sign at the end of the format is printed with the terminator of the format behind it,
  and both are counted.
\<close>

lemma cstr_printf_last_percent:
  assumes "grow_law cstr_realloc" "cstr_holds s t0" "length t0 + 2 < 2 ^ 29"
  shows "\<exists>s'. cstr_printf cstr_realloc strs [37] a b c d s = Inr (2, s') \<and> cstr_holds s' (t0 @ [37, 0])"
proof -
  from appendsD [OF appends_conversion [OF assms(1)] assms(2), of strs "- 1" 0 a] assms(3) show ?thesis
    by (auto simp: cstr_printf_def cstr_precision_def first_def skip_def cstr_spec_conversion_def
        hcc_arg_def c_int_small)
qed

end
