(* ===== verification/VaList.thy ===== *)
theory VaList
  imports CMemory "HOL-Library.Word"
begin

text \<open>
  Variable arguments of the amd64 code TinyCC generates (\<^verbatim>\<open>src/nix/support/tinycc/va_list.c\<close>): the save area
  of the registers below the frame pointer, the area of the arguments on the stack, and the walk through
  both. Addresses are 64-bit words, \<^verbatim>\<open>int\<close> and \<^verbatim>\<open>unsigned\<close> are 32-bit words.
\<close>

section \<open>The code\<close>

text \<open>The union holds a 32-bit offset before \<^verbatim>\<open>__hcc_va_start\<close> and an address after it.\<close>

record va_list =
  gp_offset :: "32 word"
  fp_offset :: "32 word"
  overflow_arg_area :: "64 word"
  reg_save_area :: "64 word"

definition read_u32 :: "(64 word \<Rightarrow> 8 word) \<Rightarrow> 64 word \<Rightarrow> 32 word" where
  "read_u32 m a =
     ucast (m a) + 256 * ucast (m (a + 1)) + 65536 * ucast (m (a + 2)) + 16777216 * ucast (m (a + 3))"

definition hcc_va_start :: "(64 word \<Rightarrow> 8 word) \<Rightarrow> 64 word \<Rightarrow> va_list" where
  "hcc_va_start m fp =
     \<lparr>gp_offset = read_u32 m (fp - 16), fp_offset = read_u32 m (fp - 12),
      overflow_arg_area = fp + ucast (read_u32 m (fp - 8)), reg_save_area = fp - 176 - 16\<rparr>"

definition va_gen_reg :: int where "va_gen_reg = 0"
definition va_float_reg :: int where "va_float_reg = 1"
definition va_stack :: int where "va_stack = 2"

definition va_overflow :: "va_list \<Rightarrow> 32 word \<Rightarrow> 32 word \<Rightarrow> 64 word \<times> va_list" where
  "va_overflow ap sz align =
     (let p = overflow_arg_area ap + scast sz;
          p = (p + scast align - 1) AND scast (- align)
      in (p - scast sz, ap\<lparr>overflow_arg_area := p\<rparr>))"

definition hcc_va_arg :: "va_list \<Rightarrow> int \<Rightarrow> 32 word \<Rightarrow> 32 word \<Rightarrow> 64 word \<times> va_list" where
  "hcc_va_arg ap arg_type sz align =
     (let sz = (sz + 7) AND NOT 7; align = (align + 7) AND NOT 7 in
      if arg_type = va_gen_reg then
        if gp_offset ap + sz \<le> 48 then
          let ap = ap\<lparr>gp_offset := gp_offset ap + sz\<rparr>
          in (reg_save_area ap + ucast (gp_offset ap) - scast sz, ap)
        else va_overflow ap sz align
      else if arg_type = va_float_reg then
        if fp_offset ap < 128 + 48 then
          let ap = ap\<lparr>fp_offset := fp_offset ap + 16\<rparr>
          in (reg_save_area ap + ucast (fp_offset ap) - 16, ap)
        else va_overflow ap 8 align
      else if arg_type = va_stack then va_overflow ap sz align
      else (0, ap))"

section \<open>The walk\<close>

text \<open>A sequence of arguments, each of the type, size and alignment its entry gives.\<close>

fun va_args :: "va_list \<Rightarrow> (int \<times> 32 word \<times> 32 word) list \<Rightarrow> 64 word list" where
  "va_args ap [] = []"
| "va_args ap ((k, sz, align) # ks) =
     (case hcc_va_arg ap k sz align of (a, ap) \<Rightarrow> a # va_args ap ks)"

text \<open>
  What the caller did: integers go to the six general registers and then to the stack, doubles to the
  eight vector registers and then to the stack, eight bytes each. \<open>gs\<close> and \<open>fs\<close> count the registers used.
\<close>

fun arg_slots :: "64 word \<Rightarrow> 64 word \<Rightarrow> nat \<Rightarrow> nat \<Rightarrow> bool list \<Rightarrow> 64 word list" where
  "arg_slots save stack gs fs [] = []"
| "arg_slots save stack gs fs (False # ks) =
     (if gs < 6 then (save + of_nat (8 * gs)) # arg_slots save stack (gs + 1) fs ks
      else stack # arg_slots save (stack + 8) gs fs ks)"
| "arg_slots save stack gs fs (True # ks) =
     (if fs < 8 then (save + of_nat (48 + 16 * fs)) # arg_slots save stack gs (fs + 1) ks
      else stack # arg_slots save (stack + 8) gs fs ks)"

definition va_kind :: "bool \<Rightarrow> int \<times> 32 word \<times> 32 word" where
  "va_kind is_float = (if is_float then va_float_reg else va_gen_reg, 8, 8)"

lemma aligned_up: "(8 * k + 7) AND - 8 = (8 * k :: 64 word)"
proof -
  let ?p = "8 * k"
  have "?p = push_bit 3 k" by (simp add: push_bit_eq_mult)
  then have low: "\<not> bit ?p n" if "n < 3" for n using that by (simp add: bit_push_bit_iff)
  have seven: "(7 :: 64 word) = mask 3" "(- 8 :: 64 word) = NOT (mask 3)"
    by (simp_all add: mask_eq_exp_minus_1 not_eq_complement)
  have "?p + mask 3 = ?p OR mask 3"
    by (rule disjunctive_add) (use low in \<open>auto simp: bit_mask_iff\<close>)
  moreover have "(?p OR mask 3) AND NOT (mask 3) = ?p"
    by (rule bit_word_eqI) (use low in \<open>auto simp: bit_and_iff bit_or_iff bit_not_iff bit_mask_iff\<close>)
  ultimately show ?thesis by (simp only: seven)
qed

lemma overflow_next:
  assumes "overflow_arg_area ap = 8 * k"
  shows "va_overflow ap 8 8 = (overflow_arg_area ap, ap\<lparr>overflow_arg_area := overflow_arg_area ap + 8\<rparr>)"
proof -
  have "15 + 8 * k = 8 * (k + 1) + (7 :: 64 word)" "8 * k + 8 = 8 * (k + 1)" by simp_all
  with aligned_up [of "k + 1"] have "(15 + 8 * k) AND - 8 = (8 * k + 8 :: 64 word)" by (simp only:)
  then show ?thesis using assms by (simp add: va_overflow_def Let_def add.assoc)
qed

definition va_at :: "va_list \<Rightarrow> nat \<Rightarrow> nat \<Rightarrow> bool" where
  "va_at ap gs fs \<longleftrightarrow> gp_offset ap = of_nat (8 * gs) \<and> gs \<le> 6 \<and> fp_offset ap = of_nat (48 + 16 * fs) \<and> fs \<le> 8 \<and>
     (\<exists>k. overflow_arg_area ap = 8 * k)"

text \<open>One argument of each kind, in a register or on the stack.\<close>

lemma va_arg_gen:
  assumes "va_at ap gs fs"
  shows "gs < 6 \<Longrightarrow> hcc_va_arg ap va_gen_reg 8 8 =
      (reg_save_area ap + of_nat (8 * gs), ap\<lparr>gp_offset := of_nat (8 * (gs + 1))\<rparr>)"
    and "\<not> gs < 6 \<Longrightarrow> hcc_va_arg ap va_gen_reg 8 8 = va_overflow ap 8 8"
proof -
  assume "gs < 6"
  then have "gs = 0 \<or> gs = 1 \<or> gs = 2 \<or> gs = 3 \<or> gs = 4 \<or> gs = 5" by linarith
  then show "hcc_va_arg ap va_gen_reg 8 8 =
      (reg_save_area ap + of_nat (8 * gs), ap\<lparr>gp_offset := of_nat (8 * (gs + 1))\<rparr>)"
    using assms by (elim disjE) (simp_all add: va_at_def hcc_va_arg_def va_gen_reg_def Let_def)
next
  assume "\<not> gs < 6"
  with assms have "gs = 6" by (simp add: va_at_def)
  then show "hcc_va_arg ap va_gen_reg 8 8 = va_overflow ap 8 8"
    using assms by (simp add: va_at_def hcc_va_arg_def va_gen_reg_def Let_def)
qed

lemma va_arg_float:
  assumes "va_at ap gs fs"
  shows "fs < 8 \<Longrightarrow> hcc_va_arg ap va_float_reg 8 8 =
      (reg_save_area ap + of_nat (48 + 16 * fs), ap\<lparr>fp_offset := of_nat (48 + 16 * (fs + 1))\<rparr>)"
    and "\<not> fs < 8 \<Longrightarrow> hcc_va_arg ap va_float_reg 8 8 = va_overflow ap 8 8"
proof -
  assume "fs < 8"
  then have "fs = 0 \<or> fs = 1 \<or> fs = 2 \<or> fs = 3 \<or> fs = 4 \<or> fs = 5 \<or> fs = 6 \<or> fs = 7" by linarith
  then show "hcc_va_arg ap va_float_reg 8 8 =
      (reg_save_area ap + of_nat (48 + 16 * fs), ap\<lparr>fp_offset := of_nat (48 + 16 * (fs + 1))\<rparr>)"
    using assms by (elim disjE) (simp_all add: va_at_def hcc_va_arg_def va_gen_reg_def va_float_reg_def Let_def)
next
  assume "\<not> fs < 8"
  with assms have "fs = 8" by (simp add: va_at_def)
  then show "hcc_va_arg ap va_float_reg 8 8 = va_overflow ap 8 8"
    using assms by (simp add: va_at_def hcc_va_arg_def va_gen_reg_def va_float_reg_def Let_def)
qed

lemma va_walk:
  "va_at ap gs fs \<Longrightarrow>
   va_args ap (map va_kind ks) = arg_slots (reg_save_area ap) (overflow_arg_area ap) gs fs ks"
proof (induction ks arbitrary: ap gs fs)
  case (Cons k ks)
  note at = Cons.prems
  have o: "va_overflow ap 8 8 = (overflow_arg_area ap, ap\<lparr>overflow_arg_area := overflow_arg_area ap + 8\<rparr>)"
    and later: "va_at (ap\<lparr>overflow_arg_area := overflow_arg_area ap + 8\<rparr>) gs fs"
  proof -
    obtain q where q: "overflow_arg_area ap = 8 * q" using at by (auto simp: va_at_def)
    then show "va_overflow ap 8 8 = (overflow_arg_area ap, ap\<lparr>overflow_arg_area := overflow_arg_area ap + 8\<rparr>)"
      by (rule overflow_next)
    have "\<exists>j. 8 * q + 8 = 8 * j" by (rule exI [of _ "q + 1"]) simp
    with q at show "va_at (ap\<lparr>overflow_arg_area := overflow_arg_area ap + 8\<rparr>) gs fs"
      by (simp add: va_at_def)
  qed
  note stack = Cons.IH [OF later]
  show ?case
  proof (cases k)
    case False
    have "gs < 6 \<Longrightarrow> va_at (ap\<lparr>gp_offset := of_nat (8 * (gs + 1))\<rparr>) (gs + 1) fs" using at by (simp add: va_at_def)
    from Cons.IH [OF this] stack va_arg_gen [OF at] o False show ?thesis
      by (cases "gs < 6") (simp_all add: va_kind_def)
  next
    case True
    have "fs < 8 \<Longrightarrow> va_at (ap\<lparr>fp_offset := of_nat (48 + 16 * (fs + 1))\<rparr>) gs (fs + 1)" using at by (simp add: va_at_def)
    from Cons.IH [OF this] stack va_arg_float [OF at] o True show ?thesis
      by (cases "fs < 8") (simp_all add: va_kind_def)
  qed
qed simp

text \<open>
  C34. Arguments of eight bytes are found where the caller put them: \<^verbatim>\<open>__hcc_va_arg\<close> goes through the saved
  general and vector registers, each kind in its order, and takes what did not fit from the stack, in
  order.
\<close>

theorem va_args_slots:
  assumes "read_u32 m (fp - 16) = of_nat (8 * gs)" "gs \<le> 6"
    and "read_u32 m (fp - 12) = of_nat (48 + 16 * fs)" "fs \<le> 8"
    and "fp + ucast (read_u32 m (fp - 8)) = 8 * k"
  shows "va_args (hcc_va_start m fp) (map va_kind ks) =
     arg_slots (fp - 192) (fp + ucast (read_u32 m (fp - 8))) gs fs ks"
proof -
  have "va_at (hcc_va_start m fp) gs fs" using assms by (auto simp: va_at_def hcc_va_start_def)
  from va_walk [OF this, of ks] show ?thesis by (simp add: hcc_va_start_def)
qed

text \<open>A function with one named integer parameter, called with seven integers and a double more.\<close>

theorem va_args_slots_witness:
  "\<exists>m. va_args (hcc_va_start m 0x1000) (map va_kind [False, False, False, False, False, False, True, False]) =
     [0xF48, 0xF50, 0xF58, 0xF60, 0xF68, 0x1010, 0xF70, 0x1018]"
proof -
  let ?m = "(\<lambda>_ :: 64 word. 0 :: 8 word)(0xFF0 := 8, 0xFF4 := 48, 0xFF8 := 16)"
  have "read_u32 ?m (0x1000 - 16) = of_nat (8 * 1)" "read_u32 ?m (0x1000 - 12) = of_nat (48 + 16 * 0)"
    "read_u32 ?m (0x1000 - 8) = 16"
    by (simp_all add: read_u32_def)
  with va_args_slots [where m = ?m and fp = "0x1000" and gs = 1 and fs = 0 and k = "0x202" and
      ks = "[False, False, False, False, False, False, True, False]"]
  show ?thesis by (intro exI [of _ ?m]) simp
qed

end
