(* ===== verification/SupportStubs.thy ===== *)
theory SupportStubs
  imports SupportFormat SupportString
begin

text \<open>
  The rest of \<^verbatim>\<open>tcc-bootstrap-support.c\<close>: \<^verbatim>\<open>realloc\<close> and \<^verbatim>\<open>realpath\<close> over byte memory and a \<^verbatim>\<open>malloc\<close> that is
  a parameter, the clock that stands still, the ways to exit, and the \<^verbatim>\<open>vsnprintf\<close> of compilers without
  \<^verbatim>\<open>va_list\<close>, which drops every conversion.
\<close>

section \<open>Memory\<close>

text \<open>\<open>alloc\<close> is what \<^verbatim>\<open>malloc\<close> returns for a number of bytes, an \<^verbatim>\<open>unsigned\<close>; 0 is the null pointer.\<close>

definition realloc :: "(32 word \<Rightarrow> int) \<Rightarrow> int \<Rightarrow> 32 word \<Rightarrow> cmem \<Rightarrow> cmem \<times> int" where
  "realloc alloc ptr n m =
     (let block = alloc n
      in (if ptr \<noteq> 0 \<and> block \<noteq> 0 then fst (memcpy block ptr (unat n) m) else m, block))"

definition realpath :: "(32 word \<Rightarrow> int) \<Rightarrow> int \<Rightarrow> int \<Rightarrow> cmem \<Rightarrow> (cmem \<times> int) option" where
  "realpath alloc path out m =
     (if path = 0 then Some (m, 0)
      else if out = 0 then
        Option.bind (strlen path m) (\<lambda>n.
        let out = alloc (word_of_int (n + 1)) in
        if out = 0 then Some (m, 0) else strcpy out path m)
      else strcpy out path m)"

text \<open>
  A block that grows keeps its bytes, provided the new block is apart from the first \<open>n\<close> bytes at the old
  address; the copy takes as many bytes as the new block has, whatever the size of the old one.
\<close>

lemma realloc_keeps:
  assumes "ptr \<noteq> 0" "alloc n \<noteq> 0" "apart (alloc n) (uint n) ptr (uint n)"
  shows "bytes_at (fst (realloc alloc ptr n m)) (alloc n) (unat n) = bytes_at m ptr (unat n)"
    "a < alloc n \<or> alloc n + uint n \<le> a \<Longrightarrow> fst (realloc alloc ptr n m) a = m a"
proof -
  have u: "i < unat n \<Longrightarrow> int i < uint n" for i by (metis of_nat_less_iff uint_nat)
  have "alloc n \<le> ptr \<or> ptr + int (unat n) \<le> alloc n"
    using assms(3) by (auto simp: apart_def)
  note r = memcpy_apply [OF this, of m]
  have e: "fst (realloc alloc ptr n m) = fst (memcpy (alloc n) ptr (unat n) m)"
    using assms(1,2) by (simp add: realloc_def Let_def)
  show "bytes_at (fst (realloc alloc ptr n m)) (alloc n) (unat n) = bytes_at m ptr (unat n)"
    by (rule bytes_at_eqI) (simp add: e r u)
  show "a < alloc n \<or> alloc n + uint n \<le> a \<Longrightarrow> fst (realloc alloc ptr n m) a = m a"
    by (auto simp: e r)
qed

lemma realpath_copies:
  assumes "cstr m path t" "path \<noteq> 0"
    and "target = (if out = 0 then alloc (1 + of_nat (length t)) else out)"
    and "apart target (int (length t) + 1) path (int (length t) + 1)"
  shows "realpath alloc path out m =
    (if target = 0 then Some (m, 0) else Some (put_bytes (t @ [0]) target m, target))"
proof -
  have n: "word_of_int (int (length t) + 1) = (1 + of_nat (length t) :: 32 word)" by simp
  show ?thesis
    using assms(2,3) strcpy_loop_cstr [OF assms(1,4)]
    by (auto simp: realpath_def strlen_cstr [OF assms(1)] n Let_def strcpy_def simp del: of_int_add)
qed

section \<open>Time and processes\<close>

definition gettimeofday :: "int \<Rightarrow> int \<Rightarrow> cmem \<Rightarrow> cmem \<times> int" where
  "gettimeofday tv tz m = (if tv \<noteq> 0 then put_bytes (replicate 16 0) tv m else m, 0)"

definition time :: "int \<Rightarrow> cmem \<Rightarrow> cmem \<times> int" where
  "time out m = (if out \<noteq> 0 then put_bytes (replicate 8 0) out m else m, 0)"

definition sem_init :: "int \<Rightarrow> int \<Rightarrow> 32 word \<Rightarrow> cmem \<Rightarrow> cmem \<times> int" where
  "sem_init sem shared v m =
     (if sem \<noteq> 0
      then put_bytes (map (\<lambda>i. ucast (drop_bit (8 * i) v)) [0..<4]) sem m else m, 0)"

record tm =
  tm_sec :: int
  tm_min :: int
  tm_hour :: int
  tm_mday :: int
  tm_mon :: int
  tm_year :: int
  tm_wday :: int
  tm_yday :: int
  tm_isdst :: int

text \<open>The one \<^verbatim>\<open>struct tm\<close> of the program; \<^verbatim>\<open>localtime\<close> returns its address.\<close>

definition localtime :: "int \<Rightarrow> tm \<Rightarrow> tm" where
  "localtime clock t = t\<lparr>tm_mday := 1, tm_year := 70\<rparr>"

text \<open>\<open>Inl\<close> is the status the process exits with.\<close>

definition abort :: "int + unit" where
  "abort = Inl 1"

definition assert :: "int \<Rightarrow> int + int" where
  "assert v = (if v = 0 then map_sum id (\<lambda>_. 0) abort else Inr 0)"

definition longjmp :: "int \<Rightarrow> int \<Rightarrow> int + unit" where
  "longjmp env v = Inl v"

section \<open>vsnprintf without arguments\<close>

partial_function (option) skip_digits :: "cmem \<Rightarrow> int \<Rightarrow> int option" where
  "skip_digits m fmt = (if 48 \<le> m fmt \<and> m fmt \<le> 57 then skip_digits m (fmt + 1) else Some fmt)"

text \<open>One round of the loop, at a character that is not the end: the new sink and the rest.\<close>

definition plain_round :: "int \<Rightarrow> int \<Rightarrow> sink \<Rightarrow> (sink \<times> int) option" where
  "plain_round en fmt s =
     map_option (\<lambda>(s, fmt). (s, if smem s fmt \<noteq> 0 then fmt + 1 else fmt))
       (if smem s fmt = 37 \<and> smem s (fmt + 1) \<noteq> 0 \<and> smem s (fmt + 1) \<noteq> 37 then
          map_option (\<lambda>fmt. (s, if smem s fmt = 108 then fmt + 1 else fmt)) (skip_digits (smem s) (fmt + 1))
        else
          let fmt = (if smem s fmt = 37 \<and> smem s (fmt + 1) = 37 then fmt + 1 else fmt)
          in Some (hcc_append_char en (sint (smem s fmt)) s, fmt))"

partial_function (option) plain_loop :: "int \<Rightarrow> int \<Rightarrow> sink \<Rightarrow> sink option" where
  "plain_loop en fmt s =
     (if smem s fmt = 0 then Some s
      else Option.bind (plain_round en fmt s) (\<lambda>(s, fmt). plain_loop en fmt s))"

definition vsnprintf_plain :: "int \<Rightarrow> 32 word \<Rightarrow> int \<Rightarrow> cmem \<Rightarrow> (int \<times> cmem) option" where
  "vsnprintf_plain out width fmt m =
     (let en = (if width \<noteq> 0 then out + uint width - 1 else out) in
      map_option (\<lambda>s. (stotal s, if out \<noteq> 0 \<and> width \<noteq> 0 then (smem s)(sout s := 0) else smem s))
        (plain_loop en fmt \<lparr>smem = m, sout = out, stotal = 0\<rparr>))"

definition vsprintf_plain :: "int \<Rightarrow> int \<Rightarrow> cmem \<Rightarrow> (int \<times> cmem) option" where
  "vsprintf_plain out fmt m = vsnprintf_plain out 0xffffffff fmt m"

text \<open>What is left of a format when its conversions are dropped.\<close>

function plain_text :: "8 word list \<Rightarrow> 8 word list" where
  "plain_text [] = []"
| "plain_text (c # f) =
     (if c = 37 \<and> f \<noteq> [] \<and> first f \<noteq> 37 then plain_text (tl (skip 108 (dropWhile is_decimal f)))
      else c # plain_text (if c = 37 then tl f else f))"
  by pat_completeness auto
termination
proof (relation "measure length", goal_cases)
  case (2 c f)
  have "length (tl (skip 108 (dropWhile is_decimal f))) \<le> length f"
    using length_skip [of 108 "dropWhile is_decimal f"] length_dropWhile_le [of is_decimal f] by simp
  then show ?case by simp
qed auto

lemma skip_digits_text:
  "cstr m p f \<Longrightarrow> skip_digits m p = Some (p + int (length (takeWhile is_decimal f)))"
proof (induction f arbitrary: p)
  case Nil
  then show ?case by (subst skip_digits.simps) simp
next
  case (Cons c f)
  then have c: "m p = c" "cstr m (p + 1) f" by auto
  with Cons show ?case
    by (subst skip_digits.simps) (simp add: is_decimal_def [symmetric] add.assoc)
qed

lemma plain_loop_text:
  "place m lo en p f \<Longrightarrow> holds m lo en t s \<Longrightarrow>
   \<exists>s'. plain_loop en p s = Some s' \<and> holds m lo en (t @ plain_text f) s'"
proof (induction f arbitrary: p t s rule: plain_text.induct)
  case 1
  then have "smem s p = 0" using place_first [OF 1] by (simp add: first_def)
  with 1 show ?case by (subst plain_loop.simps) simp
next
  case (2 c f)
  have c: "smem s p = c" "c \<noteq> 0"
    using place_first [OF "2.prems"] "2.prems"(1) by (auto simp: first_def place_def)
  have rest: "place m lo en (p + 1) f" using place_tl [OF "2.prems"(1)] by simp
  have f: "smem s (p + 1) = first f" by (rule place_first [OF rest "2.prems"(2)])
  show ?case
  proof (cases "c = 37 \<and> f \<noteq> [] \<and> first f \<noteq> 37")
    case True
    let ?d = "dropWhile is_decimal f" and ?k = "int (length (takeWhile is_decimal f))"
    define q where "q = (if smem s (p + 1 + ?k) = 108 then p + 1 + ?k + 1 else p + 1 + ?k)"
    note d = place_number [OF rest]
    have q: "place m lo en q (skip 108 ?d)"
      using place_skip [OF d, of 108] place_first [OF d "2.prems"(2)] by (simp add: q_def)
    note first = place_first [OF q "2.prems"(2)]
    have nxt: "place m lo en (if smem s q \<noteq> 0 then q + 1 else q) (tl (skip 108 ?d))"
    proof (cases "skip 108 ?d")
      case Nil
      with q first show ?thesis by (simp add: first_def)
    next
      case (Cons a g)
      with q first have "smem s q \<noteq> 0" by (auto simp: first_def place_def)
      with place_tl [OF q] Cons show ?thesis by simp
    qed
    have "first f \<noteq> 0" using True rest by (cases f) (auto simp: first_def place_def)
    then have "plain_round en p s = Some (s, if smem s q \<noteq> 0 then q + 1 else q)"
      using True c(1) f skip_digits_text [OF place_read [OF rest "2.prems"(2)]] by (simp add: plain_round_def q_def)
    with c "2.IH"(1) [OF True nxt "2.prems"(2)] True show ?thesis by (subst plain_loop.simps) simp
  next
    case False
    define q where "q = (if c = 37 \<and> first f = 37 then p + 1 else p)"
    have q: "place m lo en (q + 1) (if c = 37 then tl f else f)" "smem s q = c"
      using False rest place_tl [OF rest] c(1) f by (cases f; auto simp: q_def first_def)+
    have "holds m lo en (t @ [c]) (hcc_append_char en (sint c) s)" by (rule holds_char [OF "2.prems"(2)])
    note ih = "2.IH"(2) [OF False q(1) this]
    have "place m lo en q (if q = p then c # f else f)" using "2.prems"(1) rest by (auto simp: q_def)
    note place_first [OF this \<open>holds m lo en (t @ [c]) _\<close>]
    then have "smem (hcc_append_char en (sint c) s) q = c"
      using False c f rest by (cases f) (auto simp: q_def first_def split: if_splits)
    then have "plain_round en p s = Some (hcc_append_char en (sint c) s, q + 1)"
      using False c f q(2) by (cases f) (auto simp: plain_round_def q_def first_def Let_def)
    with c ih False show ?thesis by (subst plain_loop.simps) auto
  qed
qed

text \<open>With room for the text and its terminator, both functions write that text and return its length.\<close>

lemma vsnprintf_plain_text:
  assumes "place m out (out + uint width - 1) fmt f" "out \<noteq> 0" "length (plain_text f) < unat width"
  shows "vsnprintf_plain out width fmt m =
    Some (c_int (int (length (plain_text f))), put_bytes (plain_text f @ [0]) out m)"
proof -
  let ?en = "out + uint width - 1"
  have w: "int (length (plain_text f)) < uint width" using assms(3) by (metis of_nat_less_iff uint_nat)
  then have w0: "width \<noteq> 0" by auto
  have "holds m out ?en [] \<lparr>smem = m, sout = out, stotal = 0\<rparr>" by (simp add: holds_def)
  from plain_loop_text [OF assms(1) this] obtain s where
    s: "plain_loop ?en fmt \<lparr>smem = m, sout = out, stotal = 0\<rparr> = Some s"
      "holds m out ?en (plain_text f) s" by auto
  have "take (nat (?en - out)) (plain_text f) = plain_text f" using w by simp
  with s(2) have "smem s = put_bytes (plain_text f) out m" "sout s = out + int (length (plain_text f))"
    "stotal s = c_int (int (length (plain_text f)))" by (simp_all only: holds_def)
  then show ?thesis
    by (simp add: vsnprintf_plain_def s(1) w0 assms(2) put_bytes_append)
qed

end
