(* ===== verification/Spec2Isabelle.thy ===== *)
theory Spec2Isabelle
  imports Growable Amd64Program Elision RV64 SupportSort SupportPrintf SupportNumber MesStrtod Runtimes ObjectScript BumpAlloc CstrPrintf IrTypes VaList SupportStubs
begin

text \<open>
  The C half of hcc, the C compiler of the blynn bootstrap: the M1 back end, the runtime of the Haskell
  half, and the C support code the bootstrap builds TinyCC with.

  \<^bold>\<open>The back end.\<close> The Haskell half of hcc (\<^verbatim>\<open>src/hcc/src\<close>) parses and lowers C and prints a line-based
  intermediate language (IR); \<^verbatim>\<open>src/hcc/cbits/hcc_m1.c\<close> reads that text and writes M1 assembly for
  amd64, i386, AArch64 or RISC-V. Its parts and their theories, in the order of the code:

  \<^item> input, with the bound of the line buffer (\<^verbatim>\<open>read_line\<close>, \<^verbatim>\<open>next_token\<close>, \<^verbatim>\<open>parse_long_text\<close>): \<^verbatim>\<open>TextIO\<close>
  \<^item> the IR (\<^verbatim>\<open>Operand\<close>, \<^verbatim>\<open>Instr\<close>, \<^verbatim>\<open>Block\<close>, \<^verbatim>\<open>Function\<close>, \<^verbatim>\<open>DataItem\<close>): \<^verbatim>\<open>Ir\<close>; the C structs with a kind
    field are datatypes with one constructor per kind
  \<^item> its parser (\<^verbatim>\<open>parse_ir_*\<close>): \<^verbatim>\<open>IrParser\<close>, over the locale \<^verbatim>\<open>LineLoop.line_loop\<close>; what it accepts is
    well typed (\<^verbatim>\<open>IrTypes\<close>)
  \<^item> the growable arrays (\<^verbatim>\<open>append_*\<close>): \<^verbatim>\<open>Growable\<close>, whose locale \<^verbatim>\<open>appendable\<close> justifies the lists of the
    other theories; \<^verbatim>\<open>xrealloc\<close> over the bump heap of the M2 build: \<^verbatim>\<open>BumpAlloc\<close>
  \<^item> the Haskell printer of the IR (\<^verbatim>\<open>M1Ir.hs\<close>, \<^verbatim>\<open>TypesIr.hs\<close>): \<^verbatim>\<open>M1Ir\<close>; the parser reads what it
    prints: \<^verbatim>\<open>RoundTrip\<close>
  \<^item> frame slots and use counts (\<^verbatim>\<open>allocate_function\<close>, \<^verbatim>\<open>lookup_loc\<close>): \<^verbatim>\<open>Alloc\<close>
  \<^item> emission: the state and the bytes (\<^verbatim>\<open>EmitBase\<close>), \<^verbatim>\<open>hcc_m1_arch_aarch64.c\<close> (\<^verbatim>\<open>AArch64\<close>),
    \<^verbatim>\<open>hcc_m1_arch_riscv64.c\<close> (\<^verbatim>\<open>RiscV64\<close>), operand loads, stores, operators, jumps (\<^verbatim>\<open>EmitOps\<close>),
    calls, instructions, blocks, functions (\<^verbatim>\<open>EmitFn\<close>). An emitting function is an \<open>action\<close>: it takes
    the emitter state (\<^verbatim>\<open>rax_temp\<close>, \<^verbatim>\<open>omit_store_temp\<close> and the id counters) and returns text and the new
    state, or the message it dies with
  \<^item> \<^verbatim>\<open>translate_ir_module\<close> and \<^verbatim>\<open>main\<close>: \<^verbatim>\<open>Translate\<close>; that every loop ends, and what \<^verbatim>\<open>main\<close> does on a
    printed module: \<^verbatim>\<open>Program\<close>

  \<^bold>\<open>The code it emits.\<close> M1 words are read back and given a meaning: the words of a text and the macros of
  a header (\<^verbatim>\<open>Machine\<close>), the amd64 instructions by their machine code (\<^verbatim>\<open>X86\<close>) and the RISC-V ones
  (\<^verbatim>\<open>RV64\<close>); the locale \<^verbatim>\<open>Machine.binop_target\<close> is the contract of the operators of a target, and both
  interpret it. For amd64 the chain goes to whole programs, as a refinement of a semantics of the IR:

  \<^item> \<^verbatim>\<open>X86Steps\<close>: labels, jumps, calls and returns; a place in a program is the rest of its words
  \<^item> \<^verbatim>\<open>IrSem\<close>: the meaning of IR functions. It is partial: \<open>None\<close> for a read of a byte or temporary that was
    not written, a touched frame byte, a division without result, a missing block, a stack overflow
    (a frame of 2 GiB or more, whose slots the code computes in \<^verbatim>\<open>int\<close>, counts as one)
  \<^item> \<^verbatim>\<open>Frame\<close>: the frame of one call, and the relation between IR state and machine memory
  \<^item> \<^verbatim>\<open>Amd64Code\<close>, \<^verbatim>\<open>Amd64Instr\<close>, \<^verbatim>\<open>Amd64Text\<close>: lines, operands, stores, every instruction without control
    flow; \<^verbatim>\<open>Amd64Calls\<close>: the calling convention as a contract of callers and callees
  \<^item> \<^verbatim>\<open>UseCounts\<close>: the stores that are left out and the uses of their temporaries; \<^verbatim>\<open>Elision\<close>: on every
    target the emitted text never refers to a slot whose store was left out; \<^verbatim>\<open>Amd64List\<close>: lists and conditionals;
    \<^verbatim>\<open>Amd64Term\<close>, \<^verbatim>\<open>Amd64Blocks\<close>: branches, returns and blocks; \<^verbatim>\<open>Amd64Function\<close>, \<^verbatim>\<open>Amd64Program\<close>: functions
    that call each other, and the file \<^verbatim>\<open>main\<close> writes

  The abstract calls take fuel (one unit per call depth, and one per block run); a call has a meaning if
  some amount gives one, and the machine then needs no bound: it is shown to reach the return address.

  \<^bold>\<open>The runtime of the Haskell half.\<close> \<^verbatim>\<open>hcc_runtime.c\<close> (\<^verbatim>\<open>Runtime\<close>) and \<^verbatim>\<open>hcc_runtime_m2.c\<close> (\<^verbatim>\<open>RuntimeM2\<close>)
  over a C library that is a parameter (\<^verbatim>\<open>RuntimeBase\<close>); both keep the contract of output buffers and give
  the same results (\<^verbatim>\<open>Runtimes\<close>). The loops over a system call that writes less than asked: \<^verbatim>\<open>Writes\<close>.

  \<^bold>\<open>The support code.\<close> \<^verbatim>\<open>tcc-bootstrap-support.c\<close>: memory and strings over byte memory (\<^verbatim>\<open>SupportString\<close>),
  \<^verbatim>\<open>qsort\<close> (\<^verbatim>\<open>SupportSort\<close>), streams (\<^verbatim>\<open>SupportStream\<close>), formatted output (\<^verbatim>\<open>SupportFormat\<close>,
  \<^verbatim>\<open>SupportPrintf\<close>), numbers (\<^verbatim>\<open>SupportNumber\<close>, \<^verbatim>\<open>Doubles\<close>), the rest (\<^verbatim>\<open>SupportStubs\<close>); the Mes library's
  \<^verbatim>\<open>strtod\<close> (\<^verbatim>\<open>MesStrtod\<close>); \<^verbatim>\<open>cstr_printf\<close> (\<^verbatim>\<open>CstrPrintf\<close>); variable arguments on amd64 (\<^verbatim>\<open>VaList\<close>);
  \<^verbatim>\<open>malloc\<close> of the TinyCC run time (\<^verbatim>\<open>BumpAlloc\<close>); the object script materialiser (\<^verbatim>\<open>ObjectScript\<close>).

  \<^bold>\<open>How the code is modelled.\<close> \<^verbatim>\<open>int\<close> and \<^verbatim>\<open>long\<close> are \<open>int\<close> with \<^verbatim>\<open>c_int\<close> and \<^verbatim>\<open>c_long\<close> where the code
  narrows or a sum may leave the type (slots and frame sizes, widths and precisions of formats, sizes
  and counts of texts), and machine words where addresses wrap; \<^verbatim>\<open>die\<close> and \<^verbatim>\<open>exit\<close> are values of a sum type; files,
  system calls and the C library are parameters with documented laws as named hypotheses. Reading loops
  carry one unit of fuel per character of the file, which \<^verbatim>\<open>hcc_m1_main_terminates\<close> shows is enough; the
  other loops are structural, have a termination proof, or return \<open>None\<close> where they may not end. The
  doubling in \<^verbatim>\<open>ensure_loc\<close> does not end for a temporary of \<open>2 ^ 30\<close> or more, since the \<^verbatim>\<open>int\<close> wraps; its
  model then yields the error \<open>Diverges\<close>, and the theorems on \<^verbatim>\<open>allocate_function\<close> and \<^verbatim>\<open>main\<close> name the
  bound. Opening the output file empties it, so \<^verbatim>\<open>main\<close> takes as a parameter whether two paths name the
  same file, and reads nothing when they do.

  \<^bold>\<open>Not modelled.\<close> The Haskell front end but for its printer, start code in assembly, freeing of memory,
  write errors of \<^verbatim>\<open>hcc_m1.c\<close>'s output stream, conversions between floating-point types, code TinyCC
  or the Mes library supplies, and the meaning of i386 and AArch64 code beyond single routines.
\<close>

end
